(* ===== verification/Glob.thy ===== *)
theory Glob
  imports Prelude
begin

text \<open>
  Shell patterns as Python's \<open>fnmatch.fnmatchcase\<close> reads them (the standard library
  function the policy layer calls): \<open>*\<close>, \<open>?\<close>, \<open>[seq]\<close> and \<open>[!seq]\<close>, with the library's
  treatment of an unclosed bracket, of hyphens and of empty ranges. A pattern is parsed
  into tokens and matched against the whole text; \<open>*\<close> crosses every character, a slash
  included. The lemmas say what a literal prefix and a trailing star guarantee.
\<close>

datatype set_item = Single char | Range char char

datatype glob_tok =
    GStar
  | GAny
  | GLit char
  | GSet bool "set_item list"  \<comment> \<open>negated?, members\<close>

subsection \<open>Bracket expressions\<close>

fun class_items :: "string \<Rightarrow> set_item list" where
  "class_items (c # h # d # s) =
     (if h = CHR ''-''
      then (if c \<le> d then [Range c d] else []) @ class_items s
      else Single c # class_items (h # d # s))"
| "class_items (c # s) = Single c # class_items s"
| "class_items [] = []"

definition class_of_stuff :: "string \<Rightarrow> set_item list" where
  "class_of_stuff stuff =
     (case stuff of
        [] \<Rightarrow> []
      | c # s \<Rightarrow> if c = CHR ''!'' then Single c # class_items s else class_items stuff)"

definition glob_class :: "set_item list \<Rightarrow> glob_tok" where
  "glob_class items =
     (case items of
        Single c # rest \<Rightarrow> if c = CHR ''!'' then GSet True rest else GSet False items
      | Range c d # rest \<Rightarrow>
          if c = CHR ''!'' then GSet True (Single (CHR ''-'') # Single d # rest)
          else GSet False items
      | [] \<Rightarrow> GSet False [])"

definition eat :: "char \<Rightarrow> string \<Rightarrow> string \<times> string" where
  "eat c s = (case s of [] \<Rightarrow> ([], []) | x # r \<Rightarrow> if x = c then ([x], r) else ([], s))"

text \<open>The text between the brackets and what follows, \<^term>\<open>None\<close> when never closed.\<close>

definition bracket :: "string \<Rightarrow> (string \<times> string) option" where
  "bracket s =
     (let (neg, s1) = eat (CHR ''!'') s;
          (cl, s2) = eat (CHR '']'') s1
      in if CHR '']'' \<in> set s2
         then Some (neg @ cl @ takeWhile (\<lambda>x. x \<noteq> CHR '']'') s2,
                    tl (dropWhile (\<lambda>x. x \<noteq> CHR '']'') s2))
         else None)"

lemma eat_length: "eat c s = (a, r) \<Longrightarrow> length r \<le> length s"
  by (auto simp: eat_def split: list.splits if_splits)

lemma bracket_length: "bracket s = Some (a, r) \<Longrightarrow> length r < length s"
proof -
  assume b: "bracket s = Some (a, r)"
  obtain n1 s1 where 1: "eat (CHR ''!'') s = (n1, s1)" by fastforce
  obtain n2 s2 where 2: "eat (CHR '']'') s1 = (n2, s2)" by fastforce
  from b 1 2 have r: "r = tl (dropWhile (\<lambda>x. x \<noteq> CHR '']'') s2)" and in2: "CHR '']'' \<in> set s2"
    by (auto simp: bracket_def split: if_splits)
  from in2 have "dropWhile (\<lambda>x. x \<noteq> CHR '']'') s2 \<noteq> []"
    by (auto simp: dropWhile_eq_Nil_conv)
  then have "length r < length (dropWhile (\<lambda>x. x \<noteq> CHR '']'') s2)"
    using r by (simp add: length_greater_0_conv[symmetric])
  also have "\<dots> \<le> length s2" by (rule length_dropWhile_le)
  finally show ?thesis using eat_length[OF 1] eat_length[OF 2] by simp
qed

subsection \<open>Parsing and matching\<close>

function parse_glob :: "string \<Rightarrow> glob_tok list" where
  "parse_glob [] = []"
| "parse_glob (c # s) =
     (if c = CHR ''*'' then GStar # parse_glob s
      else if c = CHR ''?'' then GAny # parse_glob s
      else if c = CHR ''['' then
        (case bracket s of
           None \<Rightarrow> GLit c # parse_glob s
         | Some (stuff, rest) \<Rightarrow> glob_class (class_of_stuff stuff) # parse_glob rest)
      else GLit c # parse_glob s)"
  by pat_completeness auto
termination
  by (relation "measure length") (auto dest!: sym[of "Some _" "bracket _"] bracket_length simp: less_Suc_eq)

fun item_mem :: "char \<Rightarrow> set_item \<Rightarrow> bool" where
  "item_mem c (Single d) = (c = d)"
| "item_mem c (Range a b) = (a \<le> c \<and> c \<le> b)"

fun tok_accepts :: "glob_tok \<Rightarrow> char \<Rightarrow> bool" where
  "tok_accepts GStar c = False"
| "tok_accepts GAny c = True"
| "tok_accepts (GLit d) c = (c = d)"
| "tok_accepts (GSet neg items) c = (list_ex (item_mem c) items \<noteq> neg)"

fun gmatch :: "glob_tok list \<Rightarrow> string \<Rightarrow> bool" where
  "gmatch [] s = (s = [])"
| "gmatch (GStar # ps) [] = gmatch ps []"
| "gmatch (GStar # ps) (c # s) = (gmatch ps (c # s) \<or> gmatch (GStar # ps) s)"
| "gmatch (p # ps) [] = False"
| "gmatch (p # ps) (c # s) = (tok_accepts p c \<and> gmatch ps s)"

definition fnmatchcase :: "string \<Rightarrow> string \<Rightarrow> bool" where
  "fnmatchcase name pat = gmatch (parse_glob pat) name"

subsection \<open>A star matches everything, a trailing star absorbs every suffix\<close>

lemma gmatch_star [simp]: "gmatch [GStar] s"
  by (induction s) auto

lemma fnmatch_star [simp]: "fnmatchcase s ''*''"
  by (simp add: fnmatchcase_def)

lemma gmatch_starI: "gmatch ps s \<Longrightarrow> gmatch (GStar # ps) s"
  by (cases s) auto

lemma gmatch_trailing_star:
  "gmatch (ps @ [GStar]) s \<Longrightarrow> gmatch (ps @ [GStar]) (s @ t)"
proof (induction "ps @ [GStar]" s arbitrary: ps rule: gmatch.induct)
  case (2 ps')
  show ?case
  proof (cases ps)
    case (Cons p qs)
    with 2 have "gmatch (qs @ [GStar]) ([] @ t)" by (intro 2(1)) auto
    with 2 Cons show ?thesis by (auto intro: gmatch_starI)
  qed simp
next
  case (3 ps' c s)
  show ?case
  proof (cases ps)
    case (Cons p qs)
    with 3 show ?thesis by auto
  qed simp
qed (auto simp: Cons_eq_append_conv)

lemma gmatch_star_elim: "gmatch (GStar # ps) s \<Longrightarrow> \<exists>a b. s = a @ b \<and> gmatch ps b"
proof (induction s)
  case (Cons c s)
  then consider "gmatch ps (c # s)" | "gmatch (GStar # ps) s" by auto
  then show ?case
  proof cases
    case 1
    then show ?thesis by (intro exI[of _ "[]"] exI[of _ "c # s"]) simp
  next
    case 2
    then obtain a b where "s = a @ b" "gmatch ps b" using Cons.IH by blast
    then show ?thesis by (intro exI[of _ "c # a"] exI[of _ b]) simp
  qed
qed simp

subsection \<open>Appending a star to a pattern\<close>

lemma eat_star: "eat c s = (a, r) \<Longrightarrow> c \<noteq> x \<Longrightarrow> eat c (s @ [x]) = (a, r @ [x])"
  by (auto simp: eat_def split: list.splits if_splits)

lemma bracket_None_star: "bracket s = None \<Longrightarrow> bracket (s @ ''*'') = None"
proof -
  assume b: "bracket s = None"
  obtain n1 s1 where 1: "eat (CHR ''!'') s = (n1, s1)" by fastforce
  obtain n2 s2 where 2: "eat (CHR '']'') s1 = (n2, s2)" by fastforce
  show ?thesis using b 1 2 eat_star[OF 1, of "CHR ''*''"] eat_star[OF 2, of "CHR ''*''"]
    by (simp add: bracket_def split: if_splits)
qed

lemma bracket_Some_star:
  assumes b: "bracket s = Some (a, r)"
  shows "bracket (s @ ''*'') = Some (a, r @ ''*'')"
proof -
  obtain n1 s1 where 1: "eat (CHR ''!'') s = (n1, s1)" by fastforce
  obtain n2 s2 where 2: "eat (CHR '']'') s1 = (n2, s2)" by fastforce
  have m: "CHR '']'' \<in> set s2" using b 1 2 by (auto simp: bracket_def split: if_splits)
  then have "dropWhile (\<lambda>x. x \<noteq> CHR '']'') s2 \<noteq> []" by (auto simp: dropWhile_eq_Nil_conv)
  with m b 1 2 eat_star[OF 1, of "CHR ''*''"] eat_star[OF 2, of "CHR ''*''"] show ?thesis
    by (auto simp: bracket_def takeWhile_append1 dropWhile_append1)
qed

lemma parse_glob_star: "parse_glob (g @ ''*'') = parse_glob g @ [GStar]"
proof (induction g rule: parse_glob.induct)
  case (2 c s)
  show ?case
  proof (cases "c = CHR ''[''")
    case True
    show ?thesis
    proof (cases "bracket s")
      case None
      with 2 True show ?thesis by (simp add: bracket_None_star)
    next
      case (Some p)
      obtain a r where p: "p = (a, r)" by fastforce
      with 2(4) True Some have "parse_glob (r @ ''*'') = parse_glob r @ [GStar]" by simp
      with True Some p show ?thesis by (simp add: bracket_Some_star)
    qed
  next
    case False
    with 2 show ?thesis by simp
  qed
qed simp

theorem fnmatch_trailing_star:
  assumes "fnmatchcase s g" and "suffix ''*'' g"
  shows "fnmatchcase (s @ t) g"
proof -
  from assms(2) obtain g' where g: "g = g' @ ''*''" by (auto simp: suffix_def)
  with assms(1) show ?thesis
    by (simp add: fnmatchcase_def parse_glob_star gmatch_trailing_star)
qed

subsection \<open>The literal prefix of a pattern\<close>

definition wild_char :: "char \<Rightarrow> bool" where
  "wild_char c \<longleftrightarrow> c = CHR ''*'' \<or> c = CHR ''?'' \<or> c = CHR ''[''"

lemma gmatch_literal_prefix:
  "\<forall>c \<in> set p. \<not> wild_char c \<Longrightarrow> gmatch (parse_glob (p @ g)) s
     \<Longrightarrow> \<exists>r. s = p @ r \<and> gmatch (parse_glob g) r"
proof (induction p arbitrary: s)
  case (Cons c p)
  from Cons.prems have "gmatch (GLit c # parse_glob (p @ g)) s" by (simp add: wild_char_def)
  then obtain r where "s = c # r" "gmatch (parse_glob (p @ g)) r" by (cases s) auto
  with Cons show ?case by auto
qed simp

lemma gmatch_literal: "\<forall>c \<in> set p. \<not> wild_char c \<Longrightarrow> gmatch (parse_glob p) s \<Longrightarrow> s = p"
  using gmatch_literal_prefix[of p "[]" s] by simp

end
