(* ===== verification/Policy.thy ===== *)
theory Policy
  imports Glob
begin

text \<open>
  The capability policy vocabulary of \<open>nanobot/kernel/policy.py\<close>: requests, principals,
  decisions, the glob helpers for directory requests, and the three policy classes
  (\<open>DefaultPolicy\<close>, \<open>OfflinePolicy\<close>, \<open>IntersectionPolicy\<close>) with \<open>decide\<close>,
  \<open>denies_everywhere\<close> and \<open>attenuate\<close>. A policy class of the host is opaque code: it is
  \<^term>\<open>HostP n\<close>, and its three methods are read from a table that every definition
  takes as an argument. \<open>is\<close> on policy objects is structural equality here; the only use,
  dropping repeated members, does not change a decision (\<open>decide_members_dedup\<close>).
\<close>

subsection \<open>Requests, principals, decisions\<close>

definition POLICY_MARKER :: string where
  "POLICY_MARKER = ''blocked by permission policy''"

definition OFFLINE_MARKER :: string where
  "OFFLINE_MARKER = ''blocked in offline mode''"

definition NETWORK_CAPABILITIES :: "string set" where
  "NETWORK_CAPABILITIES = {''net.fetch'', ''mcp.call''}"

datatype principal_kind = AgentKind | SubagentKind | PluginKind | HostKind

record capability_request =
  capability :: string
  resource :: string
  subtree :: bool

abbreviation CapabilityRequest :: "string \<Rightarrow> string \<Rightarrow> capability_request" where
  "CapabilityRequest cap res \<equiv> \<lparr>capability = cap, resource = res, subtree = False\<rparr>"

datatype principal =
  Principal (p_name: string) (p_kind: principal_kind) (p_parent: "principal option")

record deny =
  reason :: string
  marker :: string
  denied_capability :: string

datatype decision = Allow | Deny deny

fun kind_str :: "principal_kind \<Rightarrow> string" where
  "kind_str AgentKind = ''agent''"
| "kind_str SubagentKind = ''subagent''"
| "kind_str PluginKind = ''plugin''"
| "kind_str HostKind = ''host''"

subsection \<open>Glob helpers\<close>

definition glob_literal_prefix :: "string \<Rightarrow> string \<times> bool" where
  "glob_literal_prefix g =
     (if \<exists>c \<in> set g. wild_char c then (takeWhile (\<lambda>c. \<not> wild_char c) g, True) else (g, False))"

definition dir_prefix :: "string \<Rightarrow> string" where
  "dir_prefix d = rstrip_with (\<lambda>c. c = CHR ''/'') d @ ''/''"

definition glob_may_match_under :: "string \<Rightarrow> string \<Rightarrow> bool" where
  "glob_may_match_under d g =
     (let (p, wild) = glob_literal_prefix g; under = dir_prefix d
      in if \<not> wild then prefix under p else prefix under p \<or> prefix p under)"

definition glob_covers_subtree :: "string \<Rightarrow> string \<Rightarrow> bool" where
  "glob_covers_subtree d g \<longleftrightarrow>
     suffix ''*'' g \<and> fnmatchcase d g \<and> fnmatchcase (dir_prefix d) g"

definition resource_matches :: "capability_request \<Rightarrow> string \<Rightarrow> bool" where
  "resource_matches req g \<longleftrightarrow>
     fnmatchcase (resource req) g \<or>
     ((subtree req \<and> resource req \<noteq> []) \<and> glob_may_match_under (resource req) g)"

definition resource_covered :: "capability_request \<Rightarrow> string \<Rightarrow> bool" where
  "resource_covered req g =
     (if subtree req \<and> resource req \<noteq> [] then glob_covers_subtree (resource req) g
      else fnmatchcase (resource req) g)"

definition policy_deny :: "principal \<Rightarrow> capability_request \<Rightarrow> string \<Rightarrow> deny" where
  "policy_deny pr req why =
     (let target = (if resource req \<noteq> [] then '' on '' @ py_repr (resource req) else [])
      in \<lparr>reason = ''Error: '' @ capability req @ target @ '' '' @ POLICY_MARKER @ '' for ''
                 @ kind_str (p_kind pr) @ '' '' @ py_repr (p_name pr) @ '' ('' @ why @ '').'',
          marker = POLICY_MARKER,
          denied_capability = capability req\<rparr>)"

subsection \<open>The policy classes\<close>

record default_policy =
  deny_capabilities :: "string set"
  deny_rules :: "(string \<times> string) list"
  allowed :: "string set option"

definition default_new :: default_policy where
  "default_new = \<lparr>deny_capabilities = {}, deny_rules = [], allowed = None\<rparr>"

datatype policy =
    DefaultP default_policy
  | OfflineP
  | IntersectionP "policy list"
  | HostP nat

text \<open>
  The methods of a host's own policy object. \<open>attenuate\<close> and \<open>denies_everywhere\<close> may be
  missing (\<^term>\<open>None\<close>); every method may raise.
\<close>

record 'c host_policy =
  hp_decide :: "principal \<Rightarrow> capability_request \<Rightarrow> 'c \<Rightarrow> (string, decision) py"
  hp_attenuate :: "(string set \<Rightarrow> policy option \<Rightarrow> (string, policy) py) option"
  hp_denies_everywhere :: "(string \<Rightarrow> (string, bool) py) option"

type_synonym 'c hosts = "nat \<Rightarrow> 'c host_policy"

definition default_denies_everywhere :: "default_policy \<Rightarrow> string \<Rightarrow> bool" where
  "default_denies_everywhere d cap =
     (if cap \<in> deny_capabilities d then True
      else if list_ex (\<lambda>(c, g). c = cap \<and> g = ''*'') (deny_rules d) then True
      else (case allowed d of None \<Rightarrow> False | Some A \<Rightarrow> cap \<notin> A))"

definition default_decide :: "default_policy \<Rightarrow> principal \<Rightarrow> capability_request \<Rightarrow> decision" where
  "default_decide d pr req =
     (let cap = capability req in
      if cap = ''plugin.load'' \<and> p_kind pr \<noteq> HostKind
        then Deny (policy_deny pr req ''plugin.load is host-only'')
      else if (case allowed d of None \<Rightarrow> False | Some A \<Rightarrow> cap \<notin> A)
        then Deny (policy_deny pr req ''capability not granted'')
      else if cap \<in> deny_capabilities d
        then Deny (policy_deny pr req ''capability denied for all resources'')
      else (case find (\<lambda>(rule_cap, g). rule_cap = cap \<and> resource_matches req g) (deny_rules d) of
              Some (_, g) \<Rightarrow>
                Deny (policy_deny pr req (''resource matches deny rule '' @ py_repr g))
            | None \<Rightarrow> Allow))"

definition is_network_capability :: "string \<Rightarrow> bool" where
  "is_network_capability cap \<longleftrightarrow> cap \<in> NETWORK_CAPABILITIES \<or> prefix ''net.'' cap"

definition offline_decide :: "capability_request \<Rightarrow> decision" where
  "offline_decide req =
     (if \<not> is_network_capability (capability req) then Allow
      else
        let target = (if resource req \<noteq> [] then '' on '' @ py_repr (resource req) else [])
        in Deny \<lparr>reason = ''Error: '' @ capability req @ target @ '' '' @ OFFLINE_MARKER
                   @ '': this agent has no network access. ''
                   @ ''Do not retry with another network tool.'',
                 marker = OFFLINE_MARKER,
                 denied_capability = capability req\<rparr>)"

fun policy_parts :: "policy \<Rightarrow> policy list" where
  "policy_parts (IntersectionP ms) = ms"
| "policy_parts p = [p]"

text \<open>\<open>IntersectionPolicy.__init__\<close>: flatten nested intersections, keep first occurrences.\<close>

definition intersection_init :: "policy list \<Rightarrow> policy" where
  "intersection_init ms = IntersectionP (dedup_into [] (concat (map policy_parts ms)))"

fun decide :: "'c hosts \<Rightarrow> policy \<Rightarrow> principal \<Rightarrow> capability_request \<Rightarrow> 'c \<Rightarrow> (string, decision) py"
and decide_members :: "'c hosts \<Rightarrow> policy list \<Rightarrow> principal \<Rightarrow> capability_request \<Rightarrow> 'c
       \<Rightarrow> (string, decision) py" where
  "decide H (DefaultP d) pr req ctx = Inr (default_decide d pr req)"
| "decide H OfflineP pr req ctx = Inr (offline_decide req)"
| "decide H (IntersectionP ms) pr req ctx = decide_members H ms pr req ctx"
| "decide H (HostP n) pr req ctx = hp_decide (H n) pr req ctx"
| "decide_members H [] pr req ctx = Inr Allow"
| "decide_members H (m # ms) pr req ctx =
     (case decide H m pr req ctx of
        Inl e \<Rightarrow> Inl e
      | Inr (Deny d) \<Rightarrow> Inr (Deny d)
      | Inr Allow \<Rightarrow> decide_members H ms pr req ctx)"

text \<open>
  \<open>policy_denies_everywhere\<close> trusts only the answer \<open>True\<close>: a missing method, a raise and
  any other answer count as no.
\<close>

definition answers_true :: "(string, bool) py option \<Rightarrow> bool" where
  "answers_true a \<longleftrightarrow> a = Some (Inr True)"

fun denies_everywhere :: "'c hosts \<Rightarrow> policy \<Rightarrow> string \<Rightarrow> (string, bool) py option" where
  "denies_everywhere H (DefaultP d) cap = Some (Inr (default_denies_everywhere d cap))"
| "denies_everywhere H OfflineP cap = Some (Inr (is_network_capability cap))"
| "denies_everywhere H (IntersectionP ms) cap =
     Some (Inr (list_ex (\<lambda>m. answers_true (denies_everywhere H m cap)) ms))"
| "denies_everywhere H (HostP n) cap = map_option (\<lambda>ask. ask cap) (hp_denies_everywhere (H n))"

definition policy_denies_everywhere :: "'c hosts \<Rightarrow> policy \<Rightarrow> string \<Rightarrow> bool" where
  "policy_denies_everywhere H p cap = answers_true (denies_everywhere H p cap)"

subsection \<open>Attenuation\<close>

definition allowed_inter :: "string set \<Rightarrow> string set option \<Rightarrow> string set" where
  "allowed_inter A B = (case B of None \<Rightarrow> A | Some S \<Rightarrow> A \<inter> S)"

definition bound_policy :: "string set \<Rightarrow> policy" where
  "bound_policy requested = DefaultP (default_new\<lparr>allowed := Some requested\<rparr>)"

text \<open>
  \<open>DefaultPolicy.attenuate\<close> on an exact \<open>DefaultPolicy\<close> (a subclass is a \<^term>\<open>HostP\<close>, whose
  own method answers).
\<close>

definition default_attenuate :: "default_policy \<Rightarrow> string set \<Rightarrow> policy option \<Rightarrow> policy" where
  "default_attenuate d requested narrower =
     (let allowed1 = allowed_inter requested (allowed d);
          (allowed2, deny_caps, rules, extra) =
            (case narrower of
               None \<Rightarrow> (allowed1, deny_capabilities d, deny_rules d, [])
             | Some (DefaultP n) \<Rightarrow>
                 (allowed_inter allowed1 (allowed n), deny_capabilities d \<union> deny_capabilities n,
                  deny_rules d @ deny_rules n, [])
             | Some other \<Rightarrow> (allowed1, deny_capabilities d, deny_rules d, [other]));
          child = DefaultP \<lparr>deny_capabilities = deny_caps, deny_rules = rules,
                            allowed = Some allowed2\<rparr>
      in if extra = [] then child else intersection_init (child # extra))"

definition offline_attenuate :: "string set \<Rightarrow> policy option \<Rightarrow> policy" where
  "offline_attenuate requested narrower =
     intersection_init ([OfflineP, bound_policy requested]
       @ (case narrower of None \<Rightarrow> [] | Some n \<Rightarrow> [n]))"

text \<open>
  \<open>IntersectionPolicy.attenuate\<close>: an exact \<open>DefaultPolicy\<close> member is replaced by its
  attenuation; any other member stays, next to its attenuation when that can be computed.
\<close>

fun attenuate :: "'c hosts \<Rightarrow> policy \<Rightarrow> string set \<Rightarrow> policy option \<Rightarrow> (string, policy) py"
and attenuate_members :: "'c hosts \<Rightarrow> policy list \<Rightarrow> string set \<Rightarrow> policy list" where
  "attenuate H (DefaultP d) requested narrower = Inr (default_attenuate d requested narrower)"
| "attenuate H OfflineP requested narrower = Inr (offline_attenuate requested narrower)"
| "attenuate H (IntersectionP ms) requested narrower =
     Inr (intersection_init (bound_policy requested # attenuate_members H ms requested
       @ (case narrower of None \<Rightarrow> [] | Some n \<Rightarrow> [n])))"
| "attenuate H (HostP n) requested narrower =
     (case hp_attenuate (H n) of
        None \<Rightarrow> Inl ''AttributeError: attenuate''
      | Some f \<Rightarrow> f requested narrower)"
| "attenuate_members H [] requested = []"
| "attenuate_members H (DefaultP d # ms) requested =
     default_attenuate d requested None # attenuate_members H ms requested"
| "attenuate_members H (m # ms) requested =
     (case attenuate H m requested None of Inl _ \<Rightarrow> [] | Inr c \<Rightarrow> [c])
       @ [m] @ attenuate_members H ms requested"

subsection \<open>Directory requests\<close>

text \<open>\<open>path\<close> lies strictly under the directory \<open>d\<close>.\<close>

definition under :: "string \<Rightarrow> string \<Rightarrow> bool" where
  "under d path \<longleftrightarrow> prefix (dir_prefix d) path"

lemma glob_literal_prefix_cases:
  obtains (wild) p c rest where "glob_literal_prefix g = (p, True)" "g = p @ c # rest" "wild_char c"
      "\<forall>x \<in> set p. \<not> wild_char x"
  | (plain) "glob_literal_prefix g = (g, False)" "\<forall>x \<in> set g. \<not> wild_char x"
proof (cases "\<exists>c \<in> set g. wild_char c")
  case True
  then obtain p c rest where g: "g = p @ c # rest" "wild_char c" "\<forall>x \<in> set p. \<not> wild_char x"
    by (metis split_list_first_prop)
  then have "takeWhile (\<lambda>c. \<not> wild_char c) g = p" by simp
  with True g show ?thesis by (intro wild) (simp_all add: glob_literal_prefix_def)
next
  case False
  then show ?thesis by (intro plain) (auto simp: glob_literal_prefix_def)
qed

lemma glob_may_match_under_complete:
  assumes "under d path" and "fnmatchcase path g"
  shows "glob_may_match_under d g"
proof (cases rule: glob_literal_prefix_cases[of g])
  case (wild p c rest)
  with assms(2) obtain r where "path = p @ r"
    using gmatch_literal_prefix[of p "c # rest" path] by (auto simp: fnmatchcase_def)
  with assms(1) have "prefix (dir_prefix d) p \<or> prefix p (dir_prefix d)"
    unfolding under_def by (metis prefix_same_cases prefixI)
  with wild show ?thesis by (simp add: glob_may_match_under_def Let_def)
next
  case plain
  with assms show ?thesis
    by (auto simp: glob_may_match_under_def Let_def fnmatchcase_def under_def dest: gmatch_literal)
qed

lemma glob_covers_subtree_sound:
  assumes "glob_covers_subtree d g"
  shows "fnmatchcase d g" and "under d path \<Longrightarrow> fnmatchcase path g"
  using assms fnmatch_trailing_star
  by (auto simp: glob_covers_subtree_def under_def prefix_def)

lemma resource_matches_beneath:
  assumes "subtree req" "resource req \<noteq> []" "under (resource req) path"
    and "fnmatchcase path g"
  shows "resource_matches req g"
  using assms glob_may_match_under_complete by (auto simp: resource_matches_def)

lemma resource_covered_beneath:
  assumes "resource_covered req g" "subtree req" "resource req \<noteq> []" "under (resource req) path"
  shows "fnmatchcase path g"
  using assms glob_covers_subtree_sound by (auto simp: resource_covered_def)

subsection \<open>Decisions of intersections\<close>

lemma decide_members_Allow:
  "decide_members H ms pr req ctx = Inr Allow \<longleftrightarrow>
     (\<forall>m \<in> set ms. decide H m pr req ctx = Inr Allow)"
  by (induction ms) (auto split: sum.splits decision.splits)

lemma decide_parts_Allow:
  "(\<forall>m \<in> set (policy_parts p). decide H m pr req ctx = Inr Allow)
     \<longleftrightarrow> decide H p pr req ctx = Inr Allow"
  by (cases p) (auto simp: decide_members_Allow)

lemma decide_intersection_Allow [simp]:
  "decide H (intersection_init ms) pr req ctx = Inr Allow \<longleftrightarrow>
     (\<forall>m \<in> set ms. decide H m pr req ctx = Inr Allow)"
  using decide_parts_Allow[of _ H pr req ctx]
  by (auto simp: intersection_init_def decide_members_Allow)

lemma decide_members_append:
  "decide_members H (xs @ ys) pr req ctx =
     (case decide_members H xs pr req ctx of Inr Allow \<Rightarrow> decide_members H ys pr req ctx | r \<Rightarrow> r)"
  by (induction xs) (auto split: sum.splits decision.splits)

text \<open>Dropping repeated members changes nothing, a raise or the denying member included.\<close>

lemma decide_members_dedup_into:
  "decide_members H (dedup_into acc ms) pr req ctx = decide_members H (acc @ ms) pr req ctx"
proof (induction acc ms rule: dedup_into.induct)
  case (2 acc x xs)
  show ?case
  proof (cases "x \<in> set acc")
    case True
    have "decide_members H (acc @ xs) pr req ctx = decide_members H (acc @ x # xs) pr req ctx"
    proof (cases "decide_members H acc pr req ctx = Inr Allow")
      case all: True
      with True have "decide H x pr req ctx = Inr Allow" by (simp add: decide_members_Allow)
      with all show ?thesis by (simp add: decide_members_append)
    qed (auto simp: decide_members_append split: sum.splits decision.splits)
    with 2 True show ?thesis by simp
  next
    case False
    with 2 show ?thesis by simp
  qed
qed simp

lemma decide_members_dedup:
  "decide_members H (dedup_into [] ms) pr req ctx = decide_members H ms pr req ctx"
  by (simp add: decide_members_dedup_into)

lemma default_decide_Allow:
  "default_decide d pr req = Allow \<longleftrightarrow>
     \<not> (capability req = ''plugin.load'' \<and> p_kind pr \<noteq> HostKind)
     \<and> (\<forall>A. allowed d = Some A \<longrightarrow> capability req \<in> A)
     \<and> capability req \<notin> deny_capabilities d
     \<and> (\<forall>(c, g) \<in> set (deny_rules d). c = capability req \<longrightarrow> \<not> resource_matches req g)"
  by (auto simp: default_decide_def Let_def find_None_iff split: option.splits dest: find_SomeD)

lemma decide_bound_Allow [simp]:
  "decide H (bound_policy S) pr req ctx = Inr Allow \<longleftrightarrow>
     capability req \<in> S \<and> \<not> (capability req = ''plugin.load'' \<and> p_kind pr \<noteq> HostKind)"
  by (auto simp: bound_policy_def default_new_def default_decide_Allow)

lemma default_attenuate_sound:
  assumes "decide H (default_attenuate d S narrower) pr req ctx = Inr Allow"
  shows "default_decide d pr req = Allow" "capability req \<in> S"
    "narrower = Some n \<Longrightarrow> decide H n pr req ctx = Inr Allow"
  using assms
  by (auto simp: default_attenuate_def Let_def default_decide_Allow allowed_inter_def
      split: option.splits policy.splits if_splits)

lemma attenuate_members_sound:
  "\<forall>m \<in> set (attenuate_members H ms S). decide H m pr req ctx = Inr Allow
     \<Longrightarrow> \<forall>m \<in> set ms. decide H m pr req ctx = Inr Allow"
proof (induction ms)
  case (Cons m ms)
  then show ?case by (cases m) (auto dest: default_attenuate_sound(1))
qed simp

definition kernel_policy :: "policy \<Rightarrow> bool" where
  "kernel_policy p \<longleftrightarrow> (\<forall>n. p \<noteq> HostP n)"

lemma attenuate_sound:
  assumes "kernel_policy p" "attenuate H p S narrower = Inr child"
    and "decide H child pr req ctx = Inr Allow"
  shows "capability req \<in> S" "decide H p pr req ctx = Inr Allow"
    "narrower = Some n \<Longrightarrow> decide H n pr req ctx = Inr Allow"
proof -
  have "capability req \<in> S \<and> decide H p pr req ctx = Inr Allow
      \<and> (narrower = Some n \<longrightarrow> decide H n pr req ctx = Inr Allow)"
  proof (cases p)
    case (DefaultP d)
    with assms show ?thesis using default_attenuate_sound[of H d S narrower pr req ctx] by auto
  next
    case OfflineP
    with assms show ?thesis by (auto simp: offline_attenuate_def split: option.splits)
  next
    case (IntersectionP ms)
    with assms show ?thesis
      using attenuate_members_sound[of H ms S pr req ctx]
      by (auto simp: decide_members_Allow simp del: decide_bound_Allow split: option.splits)
        (auto simp: decide_bound_Allow)
  next
    case (HostP n)
    with assms(1) show ?thesis by (simp add: kernel_policy_def)
  qed
  then show "capability req \<in> S" "decide H p pr req ctx = Inr Allow"
    "narrower = Some n \<Longrightarrow> decide H n pr req ctx = Inr Allow" by auto
qed

lemma attenuate_kernel_policy:
  "kernel_policy p \<Longrightarrow> attenuate H p S narrower = Inr child \<Longrightarrow> kernel_policy child"
  by (cases p) (auto simp: kernel_policy_def default_attenuate_def offline_attenuate_def
      intersection_init_def Let_def split: option.splits policy.splits if_splits)

lemma attenuate_total: "kernel_policy p \<Longrightarrow> \<exists>child. attenuate H p S narrower = Inr child"
  by (cases p) (auto simp: kernel_policy_def)

subsection \<open>The attenuation interface\<close>

text \<open>
  What a delegation chain relies on: an attenuated policy allows only what its parent
  allows, inside the requested set.
\<close>

locale attenuation =
  fixes allows :: "'p \<Rightarrow> 'r \<Rightarrow> bool"
    and attn :: "'p \<Rightarrow> string set \<Rightarrow> 'p option"
    and cap_of :: "'r \<Rightarrow> string"
  assumes attn_parent: "attn p S = Some q \<Longrightarrow> allows q r \<Longrightarrow> allows p r"
    and attn_requested: "attn p S = Some q \<Longrightarrow> allows q r \<Longrightarrow> cap_of r \<in> S"
begin

fun chain :: "'p \<Rightarrow> string set list \<Rightarrow> 'p option" where
  "chain p [] = Some p"
| "chain p (S # Ss) = Option.bind (attn p S) (\<lambda>q. chain q Ss)"

lemma chain_parent: "chain p Ss = Some q \<Longrightarrow> allows q r \<Longrightarrow> allows p r"
  by (induction Ss arbitrary: p) (auto simp: bind_eq_Some_conv dest: attn_parent)

lemma chain_requested: "chain p Ss = Some q \<Longrightarrow> allows q r \<Longrightarrow> S \<in> set Ss \<Longrightarrow> cap_of r \<in> S"
  by (induction Ss arbitrary: p)
    (auto simp: bind_eq_Some_conv dest: attn_requested chain_parent)

end

text \<open>Delegation through kernel policies: a sequence of \<open>attenuate\<close> calls.\<close>

definition attn_kernel :: "'c hosts \<Rightarrow> policy \<Rightarrow> string set \<Rightarrow> policy option" where
  "attn_kernel H p S =
     (case p of HostP _ \<Rightarrow> None
      | _ \<Rightarrow> (case attenuate H p S None of Inl _ \<Rightarrow> None | Inr q \<Rightarrow> Some q))"

lemma attn_kernelD:
  "attn_kernel H p S = Some q \<Longrightarrow> kernel_policy p \<and> attenuate H p S None = Inr q"
  by (cases p) (auto simp: attn_kernel_def kernel_policy_def split: sum.splits)

interpretation pol: attenuation "\<lambda>p (pr, req, ctx). decide H p pr req ctx = Inr Allow"
  "attn_kernel H" "\<lambda>(pr, req, ctx). capability req" for H :: "'c hosts"
  by unfold_locales (auto dest!: attn_kernelD dest: attenuate_sound)

fun delegate :: "'c hosts \<Rightarrow> policy \<Rightarrow> string set list \<Rightarrow> policy option" where
  "delegate H p [] = Some p"
| "delegate H p (S # Ss) = Option.bind (attn_kernel H p S) (\<lambda>q. delegate H q Ss)"

lemma delegate_chain:
  fixes H :: "'c hosts"
  shows "delegate H p Ss = pol.chain TYPE('c) H p Ss"
proof (induction H p Ss rule: delegate.induct)
  case (2 H p S Ss)
  then show ?case by (cases "attn_kernel H p S") auto
qed simp

lemma host_denies_ok:
  assumes "\<forall>n ask. hp_denies_everywhere (H n) = Some ask \<longrightarrow> ask (capability req) = Inr True
             \<longrightarrow> hp_decide (H n) pr req ctx \<noteq> Inr Allow"
    and "policy_denies_everywhere H p (capability req)"
  shows "decide H p pr req ctx \<noteq> Inr Allow"
  using assms(2)
proof (induction p)
  case (DefaultP d)
  then show ?case
    by (fastforce simp: policy_denies_everywhere_def answers_true_def default_denies_everywhere_def
        default_decide_Allow list_ex_iff resource_matches_def split: if_splits option.splits)
next
  case OfflineP
  then show ?case
    by (simp add: policy_denies_everywhere_def answers_true_def offline_decide_def Let_def)
next
  case (IntersectionP ms)
  then show ?case
    by (auto simp: policy_denies_everywhere_def answers_true_def list_ex_iff decide_members_Allow)
next
  case (HostP n)
  with assms(1) show ?case
    by (auto simp: policy_denies_everywhere_def answers_true_def)
qed

subsection \<open>A decision on a directory speaks for everything beneath it\<close>

lemma rstrip_with_append:
  "rstrip_with p (u @ v) = (if \<forall>x \<in> set v. p x then rstrip_with p u else u @ rstrip_with p v)"
  by (auto simp: rstrip_with_def dropWhile_append)

lemma rstrip_with_Cons:
  "x \<in> set v \<Longrightarrow> \<not> p x \<Longrightarrow> rstrip_with p (c # v) = c # rstrip_with p v"
  using rstrip_with_append[of p "[c]" v] by auto

lemma rstrip_with_idem [simp]: "rstrip_with p (rstrip_with p s) = rstrip_with p s"
  by (simp add: rstrip_with_def)

lemma dir_prefix_mono: "under d path \<Longrightarrow> prefix (dir_prefix d) (dir_prefix path)"
  by (auto simp: under_def dir_prefix_def prefix_def rstrip_with_append rstrip_with_Cons)

lemma glob_may_match_under_mono:
  assumes "under d path" "glob_may_match_under path g"
  shows "glob_may_match_under d g"
proof -
  note pre = dir_prefix_mono[OF assms(1)]
  obtain p wild where p: "glob_literal_prefix g = (p, wild)" by fastforce
  with assms(2) have "prefix (dir_prefix path) p \<or> wild \<and> prefix p (dir_prefix path)"
    by (auto simp: glob_may_match_under_def split: if_splits)
  then have "prefix (dir_prefix d) p \<or> wild \<and> (prefix (dir_prefix d) p \<or> prefix p (dir_prefix d))"
    using pre by (metis prefix_order.trans prefix_same_cases)
  with p show ?thesis by (auto simp: glob_may_match_under_def)
qed

lemma resource_matches_subtree:
  assumes "subtree req" "resource req \<noteq> []" "under (resource req) path"
    and "resource_matches (req\<lparr>resource := path, subtree := b\<rparr>) g"
  shows "resource_matches req g"
proof -
  from assms(4) have "fnmatchcase path g \<or> glob_may_match_under path g"
    by (auto simp: resource_matches_def)
  with assms(1-3) show ?thesis
    using glob_may_match_under_complete glob_may_match_under_mono
    by (auto simp: resource_matches_def)
qed

fun host_free :: "policy \<Rightarrow> bool" where
  "host_free (HostP n) = False"
| "host_free (IntersectionP ms) = list_all host_free ms"
| "host_free p = True"

lemma decide_subtree:
  assumes "host_free p" and "decide H p pr req ctx = Inr Allow"
    and "subtree req" "resource req \<noteq> []" "under (resource req) path"
  shows "decide H p pr (req\<lparr>resource := path, subtree := b\<rparr>) ctx = Inr Allow"
  using assms(1,2)
proof (induction p)
  case (DefaultP d)
  then show ?case
    using resource_matches_subtree[OF assms(3-5), of b] by (auto simp: default_decide_Allow)
next
  case OfflineP
  then show ?case by (auto simp: offline_decide_def Let_def split: if_splits)
next
  case (IntersectionP ms)
  then show ?case by (auto simp: decide_members_Allow list_all_iff)
qed simp

text \<open>
  Claim C1: attenuation never widens. A child made by \<open>attenuate\<close> from a policy of the
  kernel (default, offline or intersection, with any host policies inside) allows a
  request only if its capability was in the requested set, the parent allows the same
  request, and the narrower policy, when one was given, allows it too.
\<close>

theorem attenuation_never_widens:
  assumes "kernel_policy p" and "attenuate H p S narrower = Inr child"
    and "decide H child pr req ctx = Inr Allow"
  shows "capability req \<in> S \<and> decide H p pr req ctx = Inr Allow
       \<and> (\<forall>n. narrower = Some n \<longrightarrow> decide H n pr req ctx = Inr Allow)"
  using attenuate_sound[OF assms] by blast

definition no_hosts :: "unit hosts" where
  "no_hosts = (\<lambda>_. \<lparr>hp_decide = (\<lambda>_ _ _. Inl ''no host policy''),
                    hp_attenuate = None, hp_denies_everywhere = None\<rparr>)"

definition sample_parent :: policy where
  "sample_parent = IntersectionP [OfflineP,
     DefaultP (default_new\<lparr>deny_rules := [(''fs.write'', ''/etc/*'')]\<rparr>)]"

theorem attenuation_never_widens_witness:
  "\<exists>child. attenuate no_hosts sample_parent {''fs.read''} None = Inr child
     \<and> decide no_hosts child (Principal ''sub'' SubagentKind None)
         (CapabilityRequest ''fs.read'' ''/srv/a'') () = Inr Allow
     \<and> decide no_hosts sample_parent (Principal ''sub'' SubagentKind None)
         (CapabilityRequest ''fs.read'' ''/srv/a'') () = Inr Allow"
proof -
  have k: "kernel_policy sample_parent" by (simp add: kernel_policy_def sample_parent_def)
  obtain child where c: "attenuate no_hosts sample_parent {''fs.read''} None = Inr child"
    using attenuate_total[OF k] by blast
  have d: "decide no_hosts child (Principal ''sub'' SubagentKind None)
      (CapabilityRequest ''fs.read'' ''/srv/a'') () = Inr Allow"
    using c by (auto simp: sample_parent_def default_attenuate_def offline_attenuate_def
        default_new_def Let_def default_decide_Allow allowed_inter_def
        offline_decide_def is_network_capability_def NETWORK_CAPABILITIES_def)
  show ?thesis using c d attenuation_never_widens[OF k c d] by blast
qed

text \<open>
  A delegation chain of any length (a sub-agent of a sub-agent, each with its
  own requested set) can always be built from a kernel policy, and its last policy allows
  only what the first allows, within every requested set on the way.
\<close>

lemma delegation_chain_bounded:
  fixes H :: "'c hosts"
  assumes "kernel_policy p"
  shows "\<exists>q. delegate H p Ss = Some q \<and>
    (\<forall>pr req ctx. decide H q pr req ctx = Inr Allow \<longrightarrow>
       decide H p pr req ctx = Inr Allow \<and> (\<forall>S \<in> set Ss. capability req \<in> S))"
proof -
  have "\<exists>q. delegate H p Ss = Some q" using assms
  proof (induction Ss arbitrary: p)
    case (Cons S Ss)
    then obtain q where q: "attenuate H p S None = Inr q" using attenuate_total by blast
    with Cons have "attn_kernel H p S = Some q" "kernel_policy q"
      by (auto simp: attn_kernel_def kernel_policy_def
          dest: attenuate_kernel_policy[unfolded kernel_policy_def] split: policy.splits)
    with Cons.IH show ?case by simp
  qed simp
  then obtain q where q: "delegate H p Ss = Some q" ..
  then have "pol.chain TYPE('c) H p Ss = Some q" by (simp add: delegate_chain)
  with q show ?thesis using pol.chain_parent pol.chain_requested by fastforce
qed

lemma delegation_chain_bounded_witness:
  "kernel_policy sample_parent \<and>
   (\<exists>q. delegate no_hosts sample_parent [{''fs.read'', ''exec.run''}, {''fs.read''}] = Some q)"
proof -
  have k: "kernel_policy sample_parent" by (simp add: kernel_policy_def sample_parent_def)
  show ?thesis using k delegation_chain_bounded[OF k, of no_hosts] by blast
qed

text \<open>
  Deny rules cannot be dodged by naming a directory. When a policy without host
  code allows a request on a directory (\<open>subtree\<close>), it allows the same capability on every
  path beneath it, whether that path is a file or again a directory: no deny rule that
  could match anything below is missed by the conservative test.
\<close>

lemma directory_decision_covers_subtree:
  assumes "host_free p" and "decide H p pr req ctx = Inr Allow"
    and "subtree req" "resource req \<noteq> []" "under (resource req) path"
  shows "decide H p pr (req\<lparr>resource := path, subtree := b\<rparr>) ctx = Inr Allow"
  using decide_subtree[OF assms] .

lemma directory_decision_covers_subtree_witness:
  "decide no_hosts sample_parent (Principal ''agent'' AgentKind None)
     \<lparr>capability = ''fs.write'', resource = ''/srv/app/x.conf'', subtree = False\<rparr> () = Inr Allow"
proof -
  let ?r = "\<lparr>capability = ''fs.write'', resource = ''/srv/app'', subtree = True\<rparr>"
  have h: "host_free sample_parent" by (simp add: sample_parent_def)
  have a: "decide no_hosts sample_parent (Principal ''agent'' AgentKind None) ?r () = Inr Allow"
    by (simp add: sample_parent_def default_new_def default_decide_def offline_decide_def
        is_network_capability_def NETWORK_CAPABILITIES_def resource_matches_def fnmatchcase_def
        glob_may_match_under_def glob_literal_prefix_def dir_prefix_def rstrip_with_def
        wild_char_def)
  have u: "under (resource ?r) ''/srv/app/x.conf''"
    by (simp add: under_def dir_prefix_def rstrip_with_def)
  show ?thesis
    using directory_decision_covers_subtree[OF h a _ _ u, of False] by simp
qed

end
