(* ===== verification/Paths.thy ===== *)
theory Paths
  imports Prelude
begin

text \<open>
  POSIX path arithmetic as the kernel uses it (\<open>pathlib.Path\<close>, \<open>os.path.abspath\<close>) and the
  workspace boundary helpers of \<open>nanobot/security/workspace_policy.py\<close>. A path is its root
  (empty, one or two slashes) and its components. The file system and the process are the
  record \<open>os_host\<close>: the home directories, the working directory, \<open>realpath\<close> (which may
  fail) and \<open>isdir\<close>; every definition takes it as an argument.
\<close>

subsection \<open>Paths\<close>

record ppath =
  pp_root :: string
  pp_parts :: "string list"

definition is_part :: "string \<Rightarrow> bool" where
  "is_part c \<longleftrightarrow> c \<noteq> [] \<and> c \<noteq> ''.''"

text \<open>\<open>Path(s)\<close>: two leading slashes (not three) are a root of their own.\<close>

definition path_root :: "string \<Rightarrow> string" where
  "path_root s = (if prefix ''//'' s \<and> \<not> prefix ''///'' s then ''//''
                  else if prefix ''/'' s then ''/'' else [])"

definition parse_path :: "string \<Rightarrow> ppath" where
  "parse_path s = \<lparr>pp_root = path_root s, pp_parts = filter is_part (split_on (CHR ''/'') s)\<rparr>"

definition path_str :: "ppath \<Rightarrow> string" where
  "path_str p = (if pp_root p = [] \<and> pp_parts p = [] then ''.''
                 else pp_root p @ join_with ''/'' (pp_parts p))"

definition is_absolute :: "ppath \<Rightarrow> bool" where
  "is_absolute p \<longleftrightarrow> pp_root p \<noteq> []"

text \<open>\<open>a / b\<close>: an absolute \<open>b\<close> replaces \<open>a\<close>.\<close>

definition path_join :: "ppath \<Rightarrow> ppath \<Rightarrow> ppath" where
  "path_join a b = (if is_absolute b then b else a\<lparr>pp_parts := pp_parts a @ pp_parts b\<rparr>)"

definition path_child :: "ppath \<Rightarrow> string \<Rightarrow> ppath" where
  "path_child p name = path_join p (parse_path name)"

definition path_parent :: "ppath \<Rightarrow> ppath" where
  "path_parent p = p\<lparr>pp_parts := butlast (pp_parts p)\<rparr>"

definition path_name :: "ppath \<Rightarrow> string" where
  "path_name p = (if pp_parts p = [] then [] else last (pp_parts p))"

definition is_relative_to :: "ppath \<Rightarrow> ppath \<Rightarrow> bool" where
  "is_relative_to p r \<longleftrightarrow> pp_root p = pp_root r \<and> prefix (pp_parts r) (pp_parts p)"

text \<open>\<open>os.path.normpath\<close> on the components: \<open>..\<close> removes its parent; at the root it is dropped.\<close>

fun norm_parts :: "bool \<Rightarrow> string list \<Rightarrow> string list \<Rightarrow> string list" where
  "norm_parts rooted acc [] = rev acc"
| "norm_parts rooted acc (c # cs) =
     (if \<not> is_part c then norm_parts rooted acc cs
      else if c \<noteq> ''..'' then norm_parts rooted (c # acc) cs
      else (case acc of
              [] \<Rightarrow> norm_parts rooted (if rooted then [] else [''..'']) cs
            | a # as \<Rightarrow> norm_parts rooted (if a = ''..'' then c # acc else as) cs))"

record os_host =
  home_of :: "string \<Rightarrow> string option"
  cwd :: ppath
  realpath :: "ppath \<Rightarrow> ppath option"
  exists_path :: "ppath \<Rightarrow> bool"
  is_dir :: "ppath \<Rightarrow> bool"

datatype fs_error = FsOSError | FsRuntimeError | FsValueError | BoundaryError string

text \<open>\<open>os.path.abspath\<close>: joined to the working directory, then normalised lexically.\<close>

definition abspath :: "os_host \<Rightarrow> ppath \<Rightarrow> ppath" where
  "abspath os p =
     (let q = path_join (cwd os) p
      in q\<lparr>pp_parts := norm_parts (is_absolute q) [] (pp_parts q)\<rparr>)"

text \<open>\<open>Path.expanduser\<close>: an unknown user is a \<open>RuntimeError\<close>.\<close>

definition expanduser :: "os_host \<Rightarrow> ppath \<Rightarrow> (fs_error, ppath) py" where
  "expanduser os p =
     (case pp_parts p of
        [] \<Rightarrow> Inr p
      | c # cs \<Rightarrow>
          if is_absolute p \<or> \<not> prefix ''~'' c then Inr p
          else (case home_of os c of
                  None \<Rightarrow> Inl FsRuntimeError
                | Some h \<Rightarrow> let q = parse_path h in Inr (q\<lparr>pp_parts := pp_parts q @ cs\<rparr>)))"

subsection \<open>Workspace boundary helpers\<close>

definition WORKSPACE_BOUNDARY_NOTE :: string where
  "WORKSPACE_BOUNDARY_NOTE =
     '' (this is a hard policy boundary, not a transient failure; '' @
     ''do not retry with shell tricks or alternative tools, and ask '' @
     ''the user how to proceed if the resource is genuinely required)''"

definition against :: "os_host \<Rightarrow> ppath option \<Rightarrow> ppath \<Rightarrow> (fs_error, ppath) py" where
  "against os ws p =
     (case expanduser os p of
        Inl e \<Rightarrow> Inl e
      | Inr cand \<Rightarrow>
          if is_absolute cand then Inr cand
          else (case ws of
                  None \<Rightarrow> Inr cand
                | Some w \<Rightarrow> (case expanduser os w of
                    Inl e \<Rightarrow> Inl e | Inr w' \<Rightarrow> Inr (path_join w' cand))))"

definition resolve_os :: "os_host \<Rightarrow> bool \<Rightarrow> ppath \<Rightarrow> (fs_error, ppath) py" where
  "resolve_os os is_strict p =
     (case realpath os p of
        None \<Rightarrow> Inl FsOSError
      | Some r \<Rightarrow> if is_strict \<and> \<not> exists_path os r then Inl FsOSError else Inr r)"

definition resolve_path :: "os_host \<Rightarrow> ppath \<Rightarrow> ppath option \<Rightarrow> bool \<Rightarrow> (fs_error, ppath) py" where
  "resolve_path os p ws is_strict =
     (case against os ws p of Inl e \<Rightarrow> Inl e | Inr cand \<Rightarrow> resolve_os os is_strict cand)"

definition resolve_logical_path :: "os_host \<Rightarrow> ppath \<Rightarrow> ppath option \<Rightarrow> (fs_error, ppath) py" where
  "resolve_logical_path os p ws =
     (case against os ws p of Inl e \<Rightarrow> Inl e | Inr cand \<Rightarrow> Inr (abspath os cand))"

definition expand_resolve :: "os_host \<Rightarrow> ppath \<Rightarrow> (fs_error, ppath) py" where
  "expand_resolve os p =
     (case expanduser os p of Inl e \<Rightarrow> Inl e | Inr q \<Rightarrow> resolve_os os False q)"

definition is_path_within :: "os_host \<Rightarrow> ppath \<Rightarrow> ppath \<Rightarrow> bool" where
  "is_path_within os p r =
     (case (expand_resolve os p, expand_resolve os r) of
        (Inr p', Inr r') \<Rightarrow> is_relative_to p' r'
      | _ \<Rightarrow> False)"

definition is_path_allowed :: "os_host \<Rightarrow> ppath \<Rightarrow> ppath list \<Rightarrow> bool" where
  "is_path_allowed os p roots = list_ex (is_path_within os p) roots"

definition is_path_exactly_allowed :: "os_host \<Rightarrow> ppath \<Rightarrow> ppath \<Rightarrow> ppath list \<Rightarrow> bool" where
  "is_path_exactly_allowed os logical resolved files =
     (if path_str resolved \<noteq> path_str logical then False
      else list_ex (\<lambda>f. case resolve_logical_path os f None of
                          Inl _ \<Rightarrow> False | Inr a \<Rightarrow> path_str a = path_str logical) files)"

definition boundary_message :: "string \<Rightarrow> string \<Rightarrow> string" where
  "boundary_message p b =
     ''Path '' @ p @ '' is outside allowed directory '' @ b @ WORKSPACE_BOUNDARY_NOTE"

definition require_path_within ::
  "os_host \<Rightarrow> ppath \<Rightarrow> ppath \<Rightarrow> string option \<Rightarrow> (fs_error, ppath) py" where
  "require_path_within os p r message =
     (case expand_resolve os p of
        Inl e \<Rightarrow> Inl e
      | Inr resolved \<Rightarrow>
          if is_path_within os resolved r then Inr resolved
          else (case message of
                  Some (c # m) \<Rightarrow> Inl (BoundaryError (c # m))
                | _ \<Rightarrow> (case expanduser os r of
                    Inl e \<Rightarrow> Inl e
                  | Inr r' \<Rightarrow> Inl (BoundaryError (boundary_message (path_str p) (path_str r'))))))"

definition resolve_allowed_path ::
  "os_host \<Rightarrow> ppath \<Rightarrow> ppath option \<Rightarrow> ppath option \<Rightarrow> ppath list \<Rightarrow> ppath list \<Rightarrow> bool
     \<Rightarrow> (fs_error, ppath) py" where
  "resolve_allowed_path os p ws allowed_root extra_roots files is_strict =
     (case resolve_path os p ws False of
        Inl e \<Rightarrow> Inl e
      | Inr resolved \<Rightarrow>
          if allowed_root = None \<and> files = []
            then (if is_strict then resolve_path os p ws True else Inr resolved)
          else
            let roots = (case allowed_root of None \<Rightarrow> [] | Some r \<Rightarrow> [r]) @ extra_roots;
                finish = (if is_strict then resolve_path os p ws True else Inr resolved);
                refuse = (case allowed_root of
                    None \<Rightarrow> Inl (BoundaryError (boundary_message (path_str p) ''allowed files''))
                  | Some r \<Rightarrow> (case expanduser os r of
                      Inl e \<Rightarrow> Inl e
                    | Inr r' \<Rightarrow> Inl (BoundaryError (boundary_message (path_str p) (path_str r')))))
            in if files = []
                 then (if is_path_allowed os resolved roots then finish else refuse)
               else (case resolve_logical_path os p ws of
                       Inl e \<Rightarrow> Inl e
                     | Inr logical \<Rightarrow>
                         if is_path_allowed os resolved roots
                            \<or> is_path_exactly_allowed os logical resolved files
                         then finish else refuse))"

subsection \<open>Normal paths\<close>

definition normal :: "ppath \<Rightarrow> bool" where
  "normal p \<longleftrightarrow> is_absolute p \<and> (\<forall>c \<in> set (pp_parts p). is_part c \<and> c \<noteq> ''..'')"

lemma norm_parts_clean:
  "\<forall>c \<in> set acc. is_part c \<and> c \<noteq> ''..'' \<Longrightarrow>
   \<forall>c \<in> set (norm_parts True acc cs). is_part c \<and> c \<noteq> ''..''"
proof (induction cs arbitrary: acc)
  case (Cons c cs)
  consider "\<not> is_part c" | "is_part c" "c \<noteq> ''..''" | "is_part c" "c = ''..''" "acc = []"
    | a as where "is_part c" "c = ''..''" "acc = a # as" by (cases acc) auto
  then show ?case
  proof cases
    case 1
    with Cons.IH[of acc] Cons.prems show ?thesis by simp
  next
    case 2
    with Cons.IH[of "c # acc"] Cons.prems show ?thesis by simp
  next
    case 3
    with Cons.IH[of "[]"] show ?thesis by simp
  next
    case 4
    with Cons.IH[of as] Cons.prems show ?thesis by simp
  qed
qed simp

lemma norm_parts_id:
  "\<forall>c \<in> set cs. is_part c \<and> c \<noteq> ''..'' \<Longrightarrow> norm_parts r acc cs = rev acc @ cs"
  by (induction cs arbitrary: acc) auto

lemma join_absolute [simp]: "is_absolute a \<Longrightarrow> is_absolute (path_join a b)"
  by (simp add: path_join_def is_absolute_def)

lemma abspath_normal: "is_absolute (cwd os) \<Longrightarrow> normal (abspath os p)"
  using norm_parts_clean[of "[]" "pp_parts (path_join (cwd os) p)"]
  by (auto simp: abspath_def normal_def Let_def is_absolute_def path_join_def split: if_splits)

lemma abspath_id: "normal p \<Longrightarrow> abspath os p = p"
  by (simp add: abspath_def normal_def path_join_def Let_def norm_parts_id)

lemma is_relative_to_refl [simp]: "is_relative_to p p"
  by (simp add: is_relative_to_def)

lemma is_relative_to_trans: "is_relative_to p q \<Longrightarrow> is_relative_to q r \<Longrightarrow> is_relative_to p r"
  by (auto simp: is_relative_to_def)

lemma expanduser_absolute [simp]: "is_absolute p \<Longrightarrow> expanduser os p = Inr p"
  by (simp add: expanduser_def split: list.splits)

lemma expanduser_normal [simp]: "normal p \<Longrightarrow> expanduser os p = Inr p"
  by (simp add: normal_def)

text \<open>What \<open>os.path.realpath\<close> promises: the result is normal and a fixed point.\<close>

definition realpath_ok :: "os_host \<Rightarrow> bool" where
  "realpath_ok os \<longleftrightarrow> (\<forall>p r. realpath os p = Some r \<longrightarrow> normal r \<and> realpath os r = Some r)"

lemma realpath_okD:
  "realpath_ok os \<Longrightarrow> realpath os p = Some r \<Longrightarrow> normal r \<and> realpath os r = Some r"
  by (auto simp: realpath_ok_def)

lemma resolve_os_Inr: "resolve_os os b p = Inr r \<Longrightarrow> realpath os p = Some r"
  by (auto simp: resolve_os_def split: option.splits if_splits)

lemma resolve_path_Inr:
  "resolve_path os p ws b = Inr r \<Longrightarrow> \<exists>c. realpath os c = Some r \<and> against os ws p = Inr c"
  by (auto simp: resolve_path_def dest: resolve_os_Inr split: sum.splits)

lemma resolve_path_strict:
  "resolve_path os p ws True = Inr r \<Longrightarrow> resolve_path os p ws False = Inr r"
  by (auto simp: resolve_path_def resolve_os_def split: sum.splits option.splits if_splits)

lemma is_path_within_iff:
  "is_path_within os p r \<longleftrightarrow> (\<exists>p' r'. expand_resolve os p = Inr p'
     \<and> expand_resolve os r = Inr r' \<and> is_relative_to p' r')"
  by (simp add: is_path_within_def split: sum.splits)

lemma expand_resolve_fixed:
  "realpath_ok os \<Longrightarrow> realpath os p = Some r \<Longrightarrow> expand_resolve os r = Inr r"
  using realpath_okD by (fastforce simp: expand_resolve_def resolve_os_def)

subsection \<open>Properties\<close>

text \<open>
  Claim C1: whatever \<open>resolve_allowed_path\<close> returns under an allowed root is inside the
  resolved allowed root or one of the extra roots after symbolic links, or is exactly one of
  the allowed files reached without any symbolic link.
\<close>

theorem resolve_allowed_path_contained:
  assumes "realpath_ok os"
    and "resolve_allowed_path os p ws (Some a) extra files b = Inr r"
  shows "(\<exists>root \<in> set (a # extra). \<exists>r'. expand_resolve os root = Inr r' \<and> is_relative_to r r')
       \<or> (\<exists>f \<in> set files. \<exists>l. resolve_logical_path os f None = Inr l \<and> path_str l = path_str r)"
proof -
  from assms(2) obtain r0 where r0: "resolve_path os p ws False = Inr r0"
    by (auto simp: resolve_allowed_path_def split: sum.splits)
  with assms(2) have r: "r = r0"
    by (auto simp: resolve_allowed_path_def Let_def dest: resolve_path_strict
        split: sum.splits if_splits)
  obtain c where "realpath os c = Some r" using resolve_path_Inr[OF r0] r by blast
  then have fixed: "expand_resolve os r = Inr r" using expand_resolve_fixed assms(1) by blast
  have "is_path_allowed os r (a # extra)
      \<or> (\<exists>l. is_path_exactly_allowed os l r files)"
    using assms(2) r0 unfolding r
    by (auto simp: resolve_allowed_path_def Let_def split: sum.splits if_splits)
  then show ?thesis
  proof
    assume "is_path_allowed os r (a # extra)"
    then show ?thesis using fixed by (auto simp: is_path_allowed_def is_path_within_iff list_ex_iff)
  next
    assume "\<exists>l. is_path_exactly_allowed os l r files"
    then obtain l f where f: "f \<in> set files" "path_str r = path_str l"
      "case resolve_logical_path os f None of Inl _ \<Rightarrow> False | Inr a \<Rightarrow> path_str a = path_str l"
      by (auto simp: is_path_exactly_allowed_def list_ex_iff simp del: sum.case_eq_if split: if_splits)
    then show ?thesis by (cases "resolve_logical_path os f None") auto
  qed
qed

definition plain_os :: os_host where
  "plain_os = \<lparr>home_of = (\<lambda>u. if u = ''~'' then Some ''/root'' else None),
     cwd = parse_path ''/srv'',
     realpath = (\<lambda>p. Some \<lparr>pp_root = ''/'', pp_parts = norm_parts True [] (pp_parts p)\<rparr>),
     exists_path = (\<lambda>p. True), is_dir = (\<lambda>p. path_name p = ''dir'')\<rparr>"

lemma plain_realpath: "realpath plain_os p = Some \<lparr>pp_root = ''/'', pp_parts = norm_parts True [] (pp_parts p)\<rparr>"
  by (simp add: plain_os_def)

lemma plain_os_ok: "realpath_ok plain_os"
proof -
  have "normal \<lparr>pp_root = ''/'', pp_parts = norm_parts True [] cs\<rparr>" for cs
    using norm_parts_clean[of "[]" cs] by (simp add: normal_def is_absolute_def)
  moreover have "norm_parts True [] (norm_parts True [] cs) = norm_parts True [] cs" for cs
    using norm_parts_clean[of "[]" cs] norm_parts_id[of "norm_parts True [] cs" True "[]"] by simp
  ultimately show ?thesis
    unfolding realpath_ok_def plain_realpath by simp
qed

lemma resolve_allowed_path_contained_witness:
  "resolve_allowed_path plain_os (parse_path ''a/../b'') (Some (parse_path ''/w''))
     (Some (parse_path ''/w'')) [] [] False = Inr (parse_path ''/w/b'')
   \<and> (\<exists>root \<in> set [parse_path ''/w'']. \<exists>r'. expand_resolve plain_os root = Inr r'
        \<and> is_relative_to (parse_path ''/w/b'') r')"
proof -
  have e: "resolve_allowed_path plain_os (parse_path ''a/../b'') (Some (parse_path ''/w''))
     (Some (parse_path ''/w'')) [] [] False = Inr (parse_path ''/w/b'')"
    by code_simp
  from resolve_allowed_path_contained[OF plain_os_ok this] e show ?thesis by auto
qed

end
