(* ===== verification/Protected.thy ===== *)
theory Protected
  imports Paths
begin

text \<open>
  The resolved-path floor of \<open>nanobot/security/protected_paths.py\<close>: the paths no file tool may
  read or write, and the host's directories (\<open>Paths\<close> of \<open>nanobot/kernel/env.py\<close>) it is built
  from. A path is checked as named (made absolute, links kept) and after \<open>realpath\<close>; a
  match of either denies. \<open>expanduser\<close> may raise, so the constructors and the check return
  a sum. The directory the package is installed in is an argument.
\<close>

subsection \<open>The host's directories\<close>

record paths =
  work_dir :: ppath
  state_dir :: ppath
  sessions_override :: "ppath option"
  data_override :: "ppath option"
  logs_override :: "ppath option"
  media_override :: "ppath option"

definition overlaps :: "paths \<Rightarrow> bool" where
  "overlaps P \<longleftrightarrow> is_relative_to (work_dir P) (state_dir P) \<or> is_relative_to (state_dir P) (work_dir P)"

definition sessions_root :: "paths \<Rightarrow> ppath" where
  "sessions_root P = (case sessions_override P of
     None \<Rightarrow> path_child (state_dir P) ''sessions'' | Some p \<Rightarrow> p)"

definition data_dir :: "paths \<Rightarrow> ppath" where
  "data_dir P = (case data_override P of None \<Rightarrow> path_child (state_dir P) ''data'' | Some p \<Rightarrow> p)"

definition logs_dir :: "paths \<Rightarrow> ppath" where
  "logs_dir P = (case logs_override P of None \<Rightarrow> path_child (state_dir P) ''logs'' | Some p \<Rightarrow> p)"

definition media_dir :: "paths \<Rightarrow> ppath" where
  "media_dir P = (case media_override P of None \<Rightarrow> path_child (work_dir P) ''media'' | Some p \<Rightarrow> p)"

datatype paths_error = PathsFs fs_error | PathsOverlapError

definition resolve_opt :: "os_host \<Rightarrow> ppath option \<Rightarrow> (fs_error, ppath option) py" where
  "resolve_opt os p = (case p of None \<Rightarrow> Inr None
     | Some q \<Rightarrow> (case resolve_os os False q of Inl e \<Rightarrow> Inl e | Inr r \<Rightarrow> Inr (Some r)))"

text \<open>\<open>Paths.__post_init__\<close>: resolve every directory, refuse an overlap unless allowed.\<close>

definition make_paths :: "os_host \<Rightarrow> paths \<Rightarrow> bool \<Rightarrow> (paths_error, paths) py" where
  "make_paths os P overlap_ok =
     (case resolve_os os False (work_dir P) of Inl e \<Rightarrow> Inl (PathsFs e) | Inr w \<Rightarrow>
      case resolve_os os False (state_dir P) of Inl e \<Rightarrow> Inl (PathsFs e) | Inr s \<Rightarrow>
      case resolve_opt os (sessions_override P) of Inl e \<Rightarrow> Inl (PathsFs e) | Inr se \<Rightarrow>
      case resolve_opt os (data_override P) of Inl e \<Rightarrow> Inl (PathsFs e) | Inr da \<Rightarrow>
      case resolve_opt os (logs_override P) of Inl e \<Rightarrow> Inl (PathsFs e) | Inr lo \<Rightarrow>
      case resolve_opt os (media_override P) of Inl e \<Rightarrow> Inl (PathsFs e) | Inr me \<Rightarrow>
        let Q = \<lparr>work_dir = w, state_dir = s, sessions_override = se, data_override = da,
                 logs_override = lo, media_override = me\<rparr>
        in if \<not> overlap_ok \<and> overlaps Q then Inl PathsOverlapError else Inr Q)"

subsection \<open>Constants\<close>

definition PROTECTED_MARKER :: string where
  "PROTECTED_MARKER = ''protected internal path (not configurable)''"

definition PROC_SECRETS :: "string list" where
  "PROC_SECRETS = [''environ'', ''mem'', ''maps'', ''root'', ''cwd'', ''exe'']"

definition PROTECTED_READ :: "string list" where
  "PROTECTED_READ = [''auth'', ''plugin-data'', ''sessions'']"

definition PROTECTED_WRITE :: "(string \<times> string) list" where
  "PROTECTED_WRITE = [(''memory'', ''history.jsonl''), (''memory'', ''.dream_cursor''),
                      (''.nanobot'', ''workspace-id'')]"

definition PROTECTED_BASENAMES :: "string list" where
  "PROTECTED_BASENAMES = [''keys.env'']"

definition TRUST_WRITE_BASENAMES :: "string list" where
  "TRUST_WRITE_BASENAMES = [''CERT.json'', ''revoked.jsonl'']"

definition INSTANCE_WRITE_PROTECTED :: "string list" where
  "INSTANCE_WRITE_PROTECTED = [''.instance.lock'', ''.instance.json'', ''moeka.pid'',
     ''gateway.lock'', ''run'', ''SOUL.md'', ''AGENTS.md'', ''.personality'', ''.nanobot'',
     ''.moeka-transfer'']"

definition db_files :: "string \<Rightarrow> string list" where
  "db_files db = [db, db @ ''-wal'', db @ ''-shm'', db @ ''-journal'']"

definition usage_store_filenames :: "string list" where
  "usage_store_filenames = db_files ''llm_usage.sqlite3''"

definition kernel_state_filenames :: "string list" where
  "kernel_state_filenames =
     ''kernel-plugins.json'' # db_files ''facts.db'' @ db_files ''artifacts.db''"

subsection \<open>Matching one path\<close>

text \<open>
  \<open>_PROC_SECRET_RE\<close> on the components: \<open>/proc/<pid>/<secret>\<close> or
  \<open>/proc/<pid>/task/<tid>/<secret>\<close>, and anything beneath. The pattern's \<open>$\<close> also accepts a
  newline that ends the text.
\<close>

fun pid_secret :: "string list \<Rightarrow> bool" where
  "pid_secret (pid # s # rest) =
     (s \<in> set PROC_SECRETS \<or> rest = [] \<and> s \<in> set (map (\<lambda>n. n @ [CHR 0x0A]) PROC_SECRETS))"
| "pid_secret _ = False"

fun task_secret :: "string list \<Rightarrow> bool" where
  "task_secret (x # t # rest) = (t = ''task'' \<and> pid_secret rest)"
| "task_secret _ = False"

definition proc_secret :: "ppath \<Rightarrow> bool" where
  "proc_secret p \<longleftrightarrow> pp_root p = ''/''
     \<and> (case pp_parts p of [] \<Rightarrow> False
        | c # cs \<Rightarrow> c = ''proc'' \<and> (pid_secret cs \<or> task_secret cs))"

fun last_two :: "'a list \<Rightarrow> ('a \<times> 'a) option" where
  "last_two [] = None"
| "last_two [a] = None"
| "last_two [a, b] = Some (a, b)"
| "last_two (a # b # c # xs) = last_two (b # c # xs)"

record protected_floor =
  fl_roots :: "ppath list"
  fl_write_roots :: "ppath list"
  fl_config_files :: "ppath list"

definition match_path :: "protected_floor \<Rightarrow> bool \<Rightarrow> ppath \<Rightarrow> bool" where
  "match_path fl write p =
     (if proc_secret p then True
      else if path_name p \<in> set PROTECTED_BASENAMES then True
      else if list_ex (is_relative_to p) (fl_roots fl) then True
      else if write \<and> last_two (pp_parts p) \<in> Some ` set PROTECTED_WRITE then True
      else if write \<and> path_name p \<in> set TRUST_WRITE_BASENAMES then True
      else if write \<and> p \<in> set (fl_config_files fl) then True
      else write \<and> list_ex (is_relative_to p) (fl_write_roots fl))"

subsection \<open>Building the floor\<close>

text \<open>\<open>_safe_resolve\<close>: \<open>None\<close> when expansion or resolution fails.\<close>

definition safe_resolve :: "os_host \<Rightarrow> ppath \<Rightarrow> ppath option" where
  "safe_resolve os p = (case expanduser os p of Inl _ \<Rightarrow> None | Inr q \<Rightarrow> realpath os q)"

definition sessions_sibling :: "ppath \<Rightarrow> ppath" where
  "sessions_sibling p = path_child (path_parent p) (path_name p @ ''-sessions'')"

definition default_sessions_root :: "ppath \<Rightarrow> ppath" where
  "default_sessions_root p = path_child p ''sessions''"

definition somes :: "'a option list \<Rightarrow> 'a list" where
  "somes xs = map the (filter (\<lambda>x. x \<noteq> None) xs)"

definition base_roots :: "ppath \<Rightarrow> ppath list" where
  "base_roots d = map (path_child d) PROTECTED_READ @ map (path_child d) usage_store_filenames
     @ [default_sessions_root d, sessions_sibling d]"

definition protected_roots :: "os_host \<Rightarrow> ppath list \<Rightarrow> ppath option \<Rightarrow> ppath list" where
  "protected_roots os bases workspace =
     (let resolved = dedup_into [] (somes (map (safe_resolve os) bases));
          ws = Option.bind workspace (safe_resolve os)
      in concat (map base_roots resolved)
         @ (case ws of
              None \<Rightarrow> []
            | Some w \<Rightarrow>
                (if w \<in> set resolved then [] else [default_sessions_root w, sessions_sibling w])
                @ map (path_child w) kernel_state_filenames
                @ [path_child w ''.moeka-transfer'']))"

definition contains_own :: "os_host \<Rightarrow> ppath \<Rightarrow> ppath option \<Rightarrow> (fs_error, bool) py" where
  "contains_own os r workspace =
     (case Option.bind workspace (safe_resolve os) of
        None \<Rightarrow> Inr False
      | Some own \<Rightarrow>
          (case expanduser os r of
             Inl e \<Rightarrow> Inl e
           | Inr q \<Rightarrow> Inr (list_ex (is_relative_to own) (abspath os q # somes [safe_resolve os r]))))"

fun filter_others :: "os_host \<Rightarrow> ppath option \<Rightarrow> ppath list \<Rightarrow> (fs_error, ppath list) py" where
  "filter_others os ws [] = Inr []"
| "filter_others os ws (r # rs) =
     (case contains_own os r ws of
        Inl e \<Rightarrow> Inl e
      | Inr own \<Rightarrow>
          (case filter_others os ws rs of
             Inl e \<Rightarrow> Inl e
           | Inr keep \<Rightarrow> Inr (if own then keep else r # keep)))"

definition instance_deny :: "os_host \<Rightarrow> ppath list \<Rightarrow> ppath list \<Rightarrow> ppath list" where
  "instance_deny os own others =
     dedup_into (map (\<lambda>r. path_child r ''.env'') (somes (map (safe_resolve os) own)))
       (concat (map (\<lambda>c. [c, default_sessions_root c, sessions_sibling c])
          (map (abspath os) (concat (map (\<lambda>r. r # somes [safe_resolve os r]) others)))))"

definition instance_write_only :: "os_host \<Rightarrow> ppath list \<Rightarrow> ppath list" where
  "instance_write_only os own =
     concat (map (\<lambda>r. map (path_child r) INSTANCE_WRITE_PROTECTED) (somes (map (safe_resolve os) own)))"

text \<open>Each of several paths, expanded: as given (absolute) and resolved, without repetition.\<close>

fun both_views :: "os_host \<Rightarrow> ppath list \<Rightarrow> ppath list \<Rightarrow> (fs_error, ppath list) py" where
  "both_views os acc [] = Inr acc"
| "both_views os acc (p # ps) =
     (case expanduser os p of
        Inl e \<Rightarrow> Inl e
      | Inr q \<Rightarrow> both_views os (dedup_into acc (abspath os q # somes [safe_resolve os q])) ps)"

definition trust_roots :: "os_host \<Rightarrow> ppath \<Rightarrow> ppath list \<Rightarrow> (fs_error, ppath list) py" where
  "trust_roots os builtin_trust_dir trust_dirs = both_views os [] (builtin_trust_dir # trust_dirs)"

text \<open>\<open>ProtectedFloor.__init__\<close>; \<open>instance_roots\<close> is \<^term>\<open>None\<close> for the default.\<close>

definition floor_init ::
  "os_host \<Rightarrow> ppath \<Rightarrow> ppath list \<Rightarrow> ppath option \<Rightarrow> ppath list \<Rightarrow> ppath list \<Rightarrow> ppath list option
     \<Rightarrow> ppath list \<Rightarrow> (fs_error, protected_floor) py" where
  "floor_init os builtin bases workspace config_files other_roots instance_roots trust_dirs =
     (let own = (case instance_roots of
            None \<Rightarrow> bases @ (case workspace of None \<Rightarrow> [] | Some w \<Rightarrow> [w])
          | Some rs \<Rightarrow> rs)
      in case filter_others os workspace other_roots of
           Inl e \<Rightarrow> Inl e
         | Inr others \<Rightarrow>
             (case trust_roots os builtin trust_dirs of
                Inl e \<Rightarrow> Inl e
              | Inr trust \<Rightarrow>
                  (case both_views os [] config_files of
                     Inl e \<Rightarrow> Inl e
                   | Inr cfgs \<Rightarrow>
                       Inr \<lparr>fl_roots = dedup_into (protected_roots os bases workspace)
                                         (instance_deny os own others),
                            fl_write_roots = dedup_into [] (instance_write_only os own @ trust),
                            fl_config_files = cfgs\<rparr>)))"

text \<open>\<open>ProtectedFloor.from_paths\<close>.\<close>

definition from_paths ::
  "os_host \<Rightarrow> ppath \<Rightarrow> paths \<Rightarrow> ppath list \<Rightarrow> ppath list \<Rightarrow> ppath list \<Rightarrow> ppath list
     \<Rightarrow> (fs_error, protected_floor) py" where
  "from_paths os builtin P extra_dirs config_files other_roots trust_dirs =
     (let bases = data_dir P # extra_dirs;
          own = state_dir P # bases @ (if overlaps P then [work_dir P] else [])
      in case floor_init os builtin bases (Some (work_dir P)) config_files other_roots
                (Some own) trust_dirs of
           Inl e \<Rightarrow> Inl e
         | Inr fl \<Rightarrow>
             let extra = sessions_root P # map (path_child (state_dir P)) kernel_state_filenames
                           @ (if overlaps P then [] else [state_dir P])
             in Inr (fl\<lparr>fl_roots :=
                    dedup_into (fl_roots fl) (somes (map (safe_resolve os) extra))\<rparr>))"

subsection \<open>The check\<close>

definition floor_matches ::
  "os_host \<Rightarrow> protected_floor \<Rightarrow> ppath \<Rightarrow> bool \<Rightarrow> bool \<Rightarrow> (fs_error, bool) py" where
  "floor_matches os fl p write follow =
     (case expanduser os p of
        Inl e \<Rightarrow> Inl e
      | Inr q \<Rightarrow>
          if match_path fl write (abspath os q) then Inr True
          else if \<not> follow then Inr False
          else Inr (case safe_resolve os p of None \<Rightarrow> False | Some r \<Rightarrow> match_path fl write r))"

definition floor_reason ::
  "os_host \<Rightarrow> protected_floor \<Rightarrow> ppath \<Rightarrow> bool \<Rightarrow> (fs_error, string option) py" where
  "floor_reason os fl p write =
     (case floor_matches os fl p write True of
        Inl e \<Rightarrow> Inl e
      | Inr False \<Rightarrow> Inr None
      | Inr True \<Rightarrow> Inr (Some
          (''Path '' @ path_str p @ '' is a '' @ PROTECTED_MARKER @ ''; '' @
           (if write then ''writing'' else ''reading'') @ '' it through the file '' @
           ''tools is always denied'' @ WORKSPACE_BOUNDARY_NOTE)))"

definition protected_reason ::
  "os_host \<Rightarrow> ppath \<Rightarrow> ppath \<Rightarrow> bool \<Rightarrow> ppath list \<Rightarrow> ppath option \<Rightarrow> (fs_error, string option) py" where
  "protected_reason os builtin p write bases workspace =
     (case floor_init os builtin bases workspace [] [] None [] of
        Inl e \<Rightarrow> Inl e | Inr fl \<Rightarrow> floor_reason os fl p write)"

text \<open>
  The legacy defaults, from the current config path (\<^term>\<open>None\<close> when it cannot be read) and
  the discovered instances.
\<close>

definition default_data_dirs :: "os_host \<Rightarrow> ppath option \<Rightarrow> ppath list" where
  "default_data_dirs os cfg =
     (case cfg of
        None \<Rightarrow> []
      | Some c0 \<Rightarrow>
          (case expanduser os c0 of
             Inl _ \<Rightarrow> []
           | Inr c \<Rightarrow> dedup_into [] (somes [safe_resolve os (path_parent c),
                                       map_option path_parent (safe_resolve os c)])))"

definition default_config_files :: "os_host \<Rightarrow> ppath option \<Rightarrow> ppath list" where
  "default_config_files os cfg =
     (case cfg of
        None \<Rightarrow> []
      | Some c0 \<Rightarrow>
          (case expanduser os c0 of
             Inl _ \<Rightarrow> []
           | Inr c \<Rightarrow> dedup_into [abspath os c] (somes [safe_resolve os c])))"

definition legacy_floor ::
  "os_host \<Rightarrow> ppath \<Rightarrow> ppath option \<Rightarrow> (ppath option \<Rightarrow> ppath list) \<Rightarrow> ppath option
     \<Rightarrow> (fs_error, protected_floor) py" where
  "legacy_floor os builtin cfg discover workspace =
     (let dirs = default_data_dirs os cfg;
          own = (case workspace of Some w \<Rightarrow> Some w
                 | None \<Rightarrow> (case dirs of [] \<Rightarrow> None | d # _ \<Rightarrow> Some d))
      in floor_init os builtin dirs workspace (default_config_files os cfg) (discover own) None [])"

text \<open>\<open>check_protected\<close>: \<open>Inl (Inl e)\<close> an escaping error, \<open>Inl (Inr m)\<close> a refusal.\<close>

definition check_protected ::
  "os_host \<Rightarrow> ppath \<Rightarrow> ppath option \<Rightarrow> (ppath option \<Rightarrow> ppath list) \<Rightarrow> ppath \<Rightarrow> bool \<Rightarrow> ppath option
     \<Rightarrow> ppath list option \<Rightarrow> (fs_error + string, unit) py" where
  "check_protected os builtin cfg discover p write workspace dirs =
     (case (case dirs of
              None \<Rightarrow> legacy_floor os builtin cfg discover workspace
            | Some bases \<Rightarrow> floor_init os builtin bases workspace [] [] None []) of
        Inl e \<Rightarrow> Inl (Inl e)
      | Inr fl \<Rightarrow>
          (case floor_reason os fl p write of
             Inl e \<Rightarrow> Inl (Inl e)
           | Inr (Some m) \<Rightarrow> Inl (Inr m)
           | Inr None \<Rightarrow> Inr ()))"


subsection \<open>Properties\<close>

text \<open>A path inside a directory the host's \<open>Paths\<close> keep from the agent.\<close>

definition host_area :: "os_host \<Rightarrow> paths \<Rightarrow> ppath \<Rightarrow> bool" where
  "host_area os P r \<longleftrightarrow>
     (\<not> overlaps P \<and> is_relative_to r (state_dir P))
     \<or> (case safe_resolve os (sessions_root P) of None \<Rightarrow> False | Some s \<Rightarrow> is_relative_to r s)
     \<or> (case safe_resolve os (data_dir P) of None \<Rightarrow> False
        | Some d \<Rightarrow> list_ex (\<lambda>n. is_relative_to r (path_child d n)) PROTECTED_READ)"

lemma set_somes [simp]: "set (somes xs) = {x. Some x \<in> set xs}"
  by (force simp: somes_def)

lemma match_path_root: "is_relative_to p r \<Longrightarrow> r \<in> set (fl_roots fl) \<Longrightarrow> match_path fl write p"
  by (auto simp: match_path_def list_ex_iff)

lemma match_path_write: "match_path fl False p \<Longrightarrow> match_path fl True p"
  by (auto simp: match_path_def split: if_splits)

lemma from_paths_roots:
  assumes "from_paths os b P ex cf oth tr = Inr fl"
  shows "set (somes (map (safe_resolve os) (sessions_root P # (if overlaps P then [] else [state_dir P]))))
           \<subseteq> set (fl_roots fl)"
    and "set (protected_roots os (data_dir P # ex) (Some (work_dir P))) \<subseteq> set (fl_roots fl)"
  using assms by (auto simp: from_paths_def floor_init_def Let_def split: sum.splits)

lemma protected_roots_base:
  "safe_resolve os d = Some r \<Longrightarrow> n \<in> set PROTECTED_READ
    \<Longrightarrow> path_child r n \<in> set (protected_roots os (d # ds) ws)"
  by (auto simp: protected_roots_def Let_def base_roots_def)

lemma host_area_matched:
  assumes "from_paths os b P ex cf oth tr = Inr fl"
    and "safe_resolve os (state_dir P) = Some (state_dir P)"
    and "host_area os P r"
  shows "match_path fl write r"
  using assms(3) unfolding host_area_def
proof (elim disjE conjE)
  assume "\<not> overlaps P" "is_relative_to r (state_dir P)"
  with from_paths_roots(1)[OF assms(1)] assms(2) show ?thesis
    by (intro match_path_root) auto
next
  assume "case safe_resolve os (sessions_root P) of None \<Rightarrow> False | Some s \<Rightarrow> is_relative_to r s"
  with from_paths_roots(1)[OF assms(1)] show ?thesis
    by (auto intro!: match_path_root split: option.splits)
next
  assume "case safe_resolve os (data_dir P) of None \<Rightarrow> False
     | Some d \<Rightarrow> list_ex (\<lambda>n. is_relative_to r (path_child d n)) PROTECTED_READ"
  then obtain d n where "safe_resolve os (data_dir P) = Some d" "n \<in> set PROTECTED_READ"
    "is_relative_to r (path_child d n)" by (auto simp: list_ex_iff split: option.splits)
  with from_paths_roots(2)[OF assms(1)] protected_roots_base show ?thesis
    by (intro match_path_root) blast+
qed

lemma safe_resolve_fixed:
  "realpath_ok os \<Longrightarrow> realpath os p = Some r \<Longrightarrow> safe_resolve os r = Some r"
  using realpath_okD by (fastforce simp: safe_resolve_def)

lemma make_paths_state:
  "make_paths os P0 ok = Inr P \<Longrightarrow> realpath os (state_dir P0) = Some (state_dir P)"
  by (auto simp: make_paths_def Let_def dest: resolve_os_Inr split: sum.splits if_splits)

text \<open>
  Claim C1: for directories accepted by \<open>Paths\<close> and the floor built from them, a path that
  names, or through any symbolic link reaches, the state directory (when it is separate from
  the work directory), the session store or a protected directory of the data dir is denied,
  for reading and for writing.
\<close>

theorem host_area_denied:
  assumes "realpath_ok os" and "make_paths os P0 ok = Inr P"
    and "from_paths os b P ex cf oth tr = Inr fl"
    and "expanduser os p = Inr q"
    and "host_area os P (abspath os q)
         \<or> (case realpath os q of None \<Rightarrow> False | Some r \<Rightarrow> host_area os P r)"
  shows "floor_matches os fl p write True = Inr True"
proof -
  have "safe_resolve os (state_dir P) = Some (state_dir P)"
    using assms(1,2) make_paths_state safe_resolve_fixed by blast
  then have m: "host_area os P r \<Longrightarrow> match_path fl write r" for r
    using host_area_matched assms(3) by blast
  from assms(4,5) m show ?thesis
    by (auto simp: floor_matches_def safe_resolve_def split: option.splits)
qed

text \<open>
  A secrets file (\<open>keys.env\<close>) or a per-process secret under \<open>/proc\<close>, reached by
  name or through links, is denied even for reading, and whatever is denied for reading is
  denied for writing.
\<close>

lemma floor_secrets_and_write:
  assumes "expanduser os p = Inr q"
  shows "(\<forall>r \<in> insert (abspath os q) (set_option (realpath os q)).
             path_name r = ''keys.env'' \<or> proc_secret r
             \<longrightarrow> floor_matches os fl p False True = Inr True)
         \<and> (floor_matches os fl p False True = Inr True \<longrightarrow> floor_matches os fl p True True = Inr True)"
proof -
  have "path_name r = ''keys.env'' \<or> proc_secret r \<Longrightarrow> match_path fl False r" for r
    by (auto simp: match_path_def PROTECTED_BASENAMES_def)
  with assms show ?thesis
    by (auto simp: floor_matches_def safe_resolve_def match_path_write split: option.splits if_splits)
qed

definition sample_paths :: paths where
  "sample_paths = \<lparr>work_dir = parse_path ''/srv/w'', state_dir = parse_path ''/srv/s'',
     sessions_override = None, data_override = None, logs_override = None, media_override = None\<rparr>"

lemma host_area_denied_witness:
  "\<exists>fl. from_paths plain_os (parse_path ''/pkg'') sample_paths [] [] [] [] = Inr fl
     \<and> floor_matches plain_os fl (parse_path ''x/../s/keys'') False True = Inr True"
proof -
  have m: "make_paths plain_os sample_paths False = Inr sample_paths" by code_simp
  obtain fl where fl: "from_paths plain_os (parse_path ''/pkg'') sample_paths [] [] [] [] = Inr fl"
    by (simp add: from_paths_def floor_init_def Let_def trust_roots_def parse_path_def path_root_def
        is_absolute_def)
  have e: "expanduser plain_os (parse_path ''x/../s/keys'') = Inr (parse_path ''x/../s/keys'')"
    by code_simp
  have h: "host_area plain_os sample_paths (abspath plain_os (parse_path ''x/../s/keys''))"
    by code_simp
  from host_area_denied[OF plain_os_ok m fl e disjI1[OF h], of False] fl show ?thesis by blast
qed

lemma floor_secrets_and_write_witness:
  "floor_matches plain_os \<lparr>fl_roots = [], fl_write_roots = [], fl_config_files = []\<rparr>
     (parse_path ''a/keys.env'') True True = Inr True"
proof -
  have e: "expanduser plain_os (parse_path ''a/keys.env'') = Inr (parse_path ''a/keys.env'')"
    by code_simp
  have n: "path_name (abspath plain_os (parse_path ''a/keys.env'')) = ''keys.env''" by code_simp
  from floor_secrets_and_write[OF e] n show ?thesis by blast
qed

end
