(* ===== verification/Json.thy ===== *)
theory Json
  imports Prelude
begin

text \<open>
  JSON values and the text \<open>json.dumps\<close> gives them (the standard library encoder, with
  \<open>ensure_ascii=False\<close> and the default separators). A float is carried by its \<open>repr\<close>; a
  tuple is a list; \<^term>\<open>JOther s\<close> is a Python object the encoder only accepts through
  \<open>default=str\<close> or \<open>default=repr\<close>, with that text \<open>s\<close>. \<open>json_ok\<close> is what the encoder accepts with
  \<open>allow_nan=False\<close> and no \<open>default\<close>.
\<close>

datatype json =
    JNull
  | JBool bool
  | JInt int
  | JFloat string
  | JStr string
  | JList "json list"
  | JDict "(string \<times> json) list"
  | JOther string

definition json_escape :: "char \<Rightarrow> string" where
  "json_escape c =
     (let n = of_char c :: nat in
      if c = CHR 0x22 then [CHR 0x5C, CHR 0x22]
      else if c = CHR 0x5C then [CHR 0x5C, CHR 0x5C]
      else if n = 10 then [CHR 0x5C, CHR ''n'']
      else if n = 13 then [CHR 0x5C, CHR ''r'']
      else if n = 9 then [CHR 0x5C, CHR ''t'']
      else if n = 8 then [CHR 0x5C, CHR ''b'']
      else if n = 12 then [CHR 0x5C, CHR ''f'']
      else if n < 32 then [CHR 0x5C] @ ''u00'' @ [hex_digit (n div 16), hex_digit (n mod 16)]
      else [c])"

definition json_string :: "string \<Rightarrow> string" where
  "json_string s = CHR 0x22 # concat (map json_escape s) @ [CHR 0x22]"

text \<open>\<open>sort\<close> is \<open>sort_keys\<close>.\<close>

fun json_text :: "bool \<Rightarrow> json \<Rightarrow> string" where
  "json_text srt JNull = ''null''"
| "json_text srt (JBool b) = (if b then ''true'' else ''false'')"
| "json_text srt (JInt i) = int_str i"
| "json_text srt (JFloat r) =
     (if r = ''nan'' then ''NaN'' else if r = ''inf'' then ''Infinity''
      else if r = ''-inf'' then ''-Infinity'' else r)"
| "json_text srt (JStr s) = json_string s"
| "json_text srt (JList xs) = ''['' @ join_with '', '' (map (json_text srt) xs) @ '']''"
| "json_text srt (JDict kvs) =
     (let ts = map (\<lambda>(k, v). (k, json_text srt v)) kvs;
          ordered = (if srt then sort_key fst ts else ts)
      in ''{'' @ join_with '', '' (map (\<lambda>(k, t). json_string k @ '': '' @ t) ordered) @ ''}'')"
| "json_text srt (JOther s) = json_string s"

text \<open>\<open>bool(v)\<close> of a JSON value; a float that is zero has the \<open>repr\<close> \<open>0.0\<close> or \<open>-0.0\<close>.\<close>

fun truthy :: "json \<Rightarrow> bool" where
  "truthy JNull = False"
| "truthy (JBool b) = b"
| "truthy (JInt i) = (i \<noteq> 0)"
| "truthy (JFloat r) = (r \<noteq> ''0.0'' \<and> r \<noteq> ''-0.0'')"
| "truthy (JStr s) = (s \<noteq> [])"
| "truthy (JList xs) = (xs \<noteq> [])"
| "truthy (JDict d) = (d \<noteq> [])"
| "truthy (JOther s) = True"

text \<open>\<open>repr(v)\<close> and \<open>str(v)\<close> of a parsed value: its Python form, with a string unquoted in the second.\<close>

fun json_repr :: "json \<Rightarrow> string" where
  "json_repr JNull = ''None''"
| "json_repr (JBool b) = (if b then ''True'' else ''False'')"
| "json_repr (JInt i) = int_str i"
| "json_repr (JFloat r) = r"
| "json_repr (JStr s) = py_repr s"
| "json_repr (JList xs) = ''['' @ join_with '', '' (map json_repr xs) @ '']''"
| "json_repr (JDict kvs) =
     ''{'' @ join_with '', '' (map (\<lambda>(k, v). py_repr k @ '': '' @ json_repr v) kvs) @ ''}''"
| "json_repr (JOther s) = s"

fun json_str :: "json \<Rightarrow> string" where
  "json_str (JStr s) = s"
| "json_str v = json_repr v"

fun json_ok :: "json \<Rightarrow> bool" where
  "json_ok (JFloat r) = (r \<notin> {''nan'', ''inf'', ''-inf''})"
| "json_ok (JList xs) = list_all json_ok xs"
| "json_ok (JDict kvs) = list_all (\<lambda>(k, v). json_ok v) kvs"
| "json_ok (JOther s) = False"
| "json_ok v = True"

definition utf8_len :: "string \<Rightarrow> nat" where
  "utf8_len s = sum_list (map (\<lambda>c. if of_char c < (128::nat) then 1 else 2) s)"

lemma utf8_len_simps [simp]:
  "utf8_len [] = 0"
  "utf8_len (c # s) = (if of_char c < (128::nat) then 1 else 2) + utf8_len s"
  "utf8_len (s @ t) = utf8_len s + utf8_len t"
  by (simp_all add: utf8_len_def)

lemma utf8_len_eq_0 [simp]: "utf8_len s = 0 \<longleftrightarrow> s = []"
  by (cases s) auto

lemma json_escape_not_Nil: "json_escape c \<noteq> []"
  by (simp add: json_escape_def Let_def)

end
