(* ===== verification/Deferred.thy ===== *)
theory Deferred
  imports Json
begin

text \<open>
  The deferred-action log of \<open>nanobot/kernel/deferred.py\<close>: an append-only file of JSON lines
  with a size cap and numbered rotation, and the entry every denied call leaves there. The
  files are a map from the rotation index (0 is \<open>deferred.jsonl\<close>, \<open>i\<close> is \<open>deferred.jsonl.i\<close>)
  to their lines. \<open>redact_text\<close> (regular expressions) and the clock are arguments; an
  operating-system failure is an argument of \<open>append\<close>.
\<close>

definition DEFERRED_NOTE :: string where
  "DEFERRED_NOTE = ''logged as a deferred action; do not retry''"

definition DEFAULT_MAX_BYTES :: nat where "DEFAULT_MAX_BYTES = 2 * 1024 * 1024"
definition DEFAULT_BACKUPS :: nat where "DEFAULT_BACKUPS = 3"
definition MAX_REASON_CHARS :: nat where "MAX_REASON_CHARS = 2000"
definition MASK :: string where "MASK = ''<redacted>''"

subsection \<open>The note in a denial text\<close>

definition with_deferred_note :: "string \<Rightarrow> string" where
  "with_deferred_note text =
     (if contains DEFERRED_NOTE text then text
      else rstrip text @ [CHR 0x0A] @ ''['' @ DEFERRED_NOTE @ '']'')"

lemma with_deferred_note_contains: "contains DEFERRED_NOTE (with_deferred_note text)"
  using contains_infix[of DEFERRED_NOTE "rstrip text @ [CHR 0x0A] @ ''[''" "'']''"]
  by (simp add: with_deferred_note_def)

lemma with_deferred_note_idem: "with_deferred_note (with_deferred_note text) = with_deferred_note text"
  using with_deferred_note_contains[of "text"] by (simp add: with_deferred_note_def)

subsection \<open>Redaction of the logged arguments\<close>

text \<open>\<open>_SECRET_KEY_RE.search\<close>: one of the words occurs in the key, ignoring case.\<close>

definition secret_key :: "string \<Rightarrow> bool" where
  "secret_key k \<longleftrightarrow> list_ex (\<lambda>w. contains w (lower k))
     [''key'', ''token'', ''secret'', ''password'', ''passwd'', ''bearer'', ''authorization'']"

fun maskable :: "json \<Rightarrow> bool" where
  "maskable (JStr s) = True"
| "maskable (JInt i) = True"
| "maskable (JFloat r) = True"
| "maskable v = False"

fun by_key :: "json \<Rightarrow> json" where
  "by_key (JDict kvs) =
     JDict (map (\<lambda>(k, v). (k, if secret_key k \<and> maskable v then JStr MASK else by_key v)) kvs)"
| "by_key (JList xs) = JList (map by_key xs)"
| "by_key v = v"

fun redact_value :: "(string \<Rightarrow> string) \<Rightarrow> json \<Rightarrow> json" where
  "redact_value redact_text (JStr s) = JStr (redact_text s)"
| "redact_value redact_text (JDict kvs) = JDict (map (\<lambda>(k, v). (k, redact_value redact_text v)) kvs)"
| "redact_value redact_text (JList xs) = JList (map (redact_value redact_text) xs)"
| "redact_value redact_text v = v"

definition redact_arguments :: "(string \<Rightarrow> string) \<Rightarrow> json \<Rightarrow> json" where
  "redact_arguments redact_text v = redact_value redact_text (by_key v)"

definition redact_reason :: "(string \<Rightarrow> string) \<Rightarrow> string \<Rightarrow> string" where
  "redact_reason redact_text r =
     (let text = redact_text r in
      if length text \<le> MAX_REASON_CHARS then text else take MAX_REASON_CHARS text @ ''...'')"

text \<open>No scalar other than the (redacted) mask is left under a secret-looking key.\<close>

fun secrets_masked :: "string \<Rightarrow> json \<Rightarrow> bool" where
  "secrets_masked m (JDict kvs) =
     list_all (\<lambda>(k, v). (secret_key k \<and> maskable v \<longrightarrow> v = JStr m) \<and> secrets_masked m v) kvs"
| "secrets_masked m (JList xs) = list_all (secrets_masked m) xs"
| "secrets_masked m v = True"

lemma maskable_redact_value [simp]: "maskable (redact_value r v) = maskable v"
  by (cases v) auto

lemma secrets_masked_redact: "secrets_masked (r MASK) (redact_value r (by_key v))"
proof (induction v rule: by_key.induct)
  case (1 kvs)
  have "maskable (by_key v) = maskable v" for v by (cases v) auto
  then show ?case using 1 by (fastforce simp: list_all_iff)
qed (auto simp: list_all_iff)

subsection \<open>The log files\<close>

type_synonym log_files = "nat \<Rightarrow> string list option"

record deferred_log =
  max_bytes :: nat
  backups :: nat

definition DeferredLog :: "int \<Rightarrow> int \<Rightarrow> deferred_log" where
  "DeferredLog mb b = \<lparr>max_bytes = nat (max 1 mb), backups = nat (max 0 b)\<rparr>"

definition default_log :: deferred_log where
  "default_log = DeferredLog (int DEFAULT_MAX_BYTES) (int DEFAULT_BACKUPS)"

record deferred_entry =
  ts :: string
  tool :: string
  arguments :: json
  entry_reason :: string
  entry_capability :: "string option"
  source :: string

definition entry_json :: "deferred_entry \<Rightarrow> json" where
  "entry_json e = JDict
     [(''ts'', JStr (ts e)), (''tool'', JStr (tool e)), (''arguments'', arguments e),
      (''reason'', JStr (entry_reason e)),
      (''capability'', case entry_capability e of None \<Rightarrow> JNull | Some c \<Rightarrow> JStr c),
      (''source'', JStr (source e))]"

definition entry_line :: "deferred_entry \<Rightarrow> string" where
  "entry_line e = json_text False (entry_json e) @ [CHR 0x0A]"

definition lines_of :: "log_files \<Rightarrow> nat \<Rightarrow> string list" where
  "lines_of f i = (case f i of None \<Rightarrow> [] | Some ls \<Rightarrow> ls)"

definition bytes_of :: "string list \<Rightarrow> nat" where
  "bytes_of ls = sum_list (map utf8_len ls)"

text \<open>The loop of \<open>_rotate\<close>: for \<open>index\<close> from \<open>backups - 1\<close> down to 1, move \<open>.index\<close> up.\<close>

fun shift_backups :: "nat \<Rightarrow> log_files \<Rightarrow> log_files" where
  "shift_backups 0 f = f"
| "shift_backups (Suc i) f =
     shift_backups i
       (case f (Suc i) of
          None \<Rightarrow> f
        | Some ls \<Rightarrow> f(Suc (Suc i) := Some ls, Suc i := None))"

definition rotate_files :: "nat \<Rightarrow> log_files \<Rightarrow> log_files" where
  "rotate_files n f =
     (if n = 0 then f(0 := None)
      else (let g = shift_backups (n - 1) f in g(1 := g 0, 0 := None)))"

datatype io = IoOk | IoFailEarly | IoFailWrite

datatype append_error = ValueErr string | OSErr

text \<open>
  \<open>append\<close>: the outcome and the files afterwards. \<^term>\<open>IoFailEarly\<close> is a failure before the
  rotation (creating the directory, \<open>stat\<close>), \<^term>\<open>IoFailWrite\<close> one when writing.
\<close>

definition append_entry ::
  "(string \<Rightarrow> string) \<Rightarrow> string \<Rightarrow> io \<Rightarrow> deferred_log \<Rightarrow> string \<Rightarrow> json \<Rightarrow> string \<Rightarrow> string option \<Rightarrow> string
     \<Rightarrow> log_files \<Rightarrow> (append_error, deferred_entry) py \<times> log_files" where
  "append_entry redact_text now io L tname args rsn cap src f =
     (if src \<noteq> ''agent'' \<and> src \<noteq> ''gate''
        then (Inl (ValueErr (''source must be 'agent' or 'gate', got '' @ py_repr src)), f)
      else
        let e = \<lparr>ts = now, tool = tname, arguments = redact_arguments redact_text args,
                 entry_reason = redact_reason redact_text rsn, entry_capability = cap,
                 source = src\<rparr>;
            line = entry_line e;
            size = bytes_of (lines_of f 0)
        in if io = IoFailEarly then (Inl OSErr, f)
           else
             let g = (if size \<noteq> 0 \<and> size + utf8_len line > max_bytes L
                      then rotate_files (backups L) f else f)
             in if io = IoFailWrite then (Inl OSErr, g)
                else (Inr e, g(0 := Some (lines_of g 0 @ [line]))))"

text \<open>\<open>record_gate_denial\<close>: never raises; says whether the entry was written.\<close>

definition record_gate_denial ::
  "(string \<Rightarrow> string) \<Rightarrow> string \<Rightarrow> io \<Rightarrow> string option \<Rightarrow> string \<Rightarrow> json \<Rightarrow> string \<Rightarrow> string option
     \<Rightarrow> log_files \<Rightarrow> bool \<times> log_files" where
  "record_gate_denial redact_text now io work_dir tname args rsn cap f =
     (case work_dir of
        None \<Rightarrow> (False, f)
      | Some _ \<Rightarrow>
          (case append_entry redact_text now io default_log tname args rsn cap ''gate'' f of
             (Inl _, g) \<Rightarrow> (False, g)
           | (Inr _, g) \<Rightarrow> (True, g)))"

subsection \<open>What rotation keeps\<close>

text \<open>The rotated files from index \<open>n\<close> down to 1, and the whole log, oldest line first.\<close>

fun rotated_lines :: "log_files \<Rightarrow> nat \<Rightarrow> string list" where
  "rotated_lines f 0 = []"
| "rotated_lines f (Suc n) = lines_of f (Suc n) @ rotated_lines f n"

definition log_lines :: "nat \<Rightarrow> log_files \<Rightarrow> string list" where
  "log_lines n f = rotated_lines f n @ lines_of f 0"

lemma lines_of_upd [simp]: "lines_of (f(i := x)) j = (if j = i then (case x of None \<Rightarrow> [] | Some ls \<Rightarrow> ls) else lines_of f j)"
  by (simp add: lines_of_def)

lemma rotated_lines_cong: "(\<And>i. 1 \<le> i \<Longrightarrow> i \<le> n \<Longrightarrow> f i = g i) \<Longrightarrow> rotated_lines f n = rotated_lines g n"
  by (induction n) (auto simp: lines_of_def)

lemma rotated_lines_upd [simp]: "n < i \<Longrightarrow> rotated_lines (f(i := x)) n = rotated_lines f n"
  by (rule rotated_lines_cong) auto

lemma rotated_lines_upd0 [simp]: "rotated_lines (f(0 := x)) n = rotated_lines f n"
  by (rule rotated_lines_cong) auto

lemma shift_above: "Suc i < j \<Longrightarrow> shift_backups i f j = f j"
  by (induction i f rule: shift_backups.induct) (auto split: option.splits)

lemma shift_zero: "shift_backups i f 0 = f 0"
  by (induction i f rule: shift_backups.induct) (auto split: option.splits)

lemma shift_one: "shift_backups (Suc i) f 1 = None"
proof (induction i arbitrary: f)
  case 0
  then show ?case by (auto split: option.splits)
next
  case (Suc i)
  have "shift_backups (Suc (Suc i)) f = shift_backups (Suc i)
      (case f (Suc (Suc i)) of None \<Rightarrow> f
       | Some ls \<Rightarrow> f(Suc (Suc (Suc i)) := Some ls, Suc (Suc i) := None))" by simp
  with Suc show ?case by metis
qed

lemma shift_lines:
  "\<exists>k \<le> length (lines_of f (Suc i)).
     rotated_lines (shift_backups i f) (Suc i) = drop k (lines_of f (Suc i)) @ rotated_lines f i"
proof (induction i arbitrary: f)
  case 0
  show ?case by (intro exI[of _ 0]) simp
next
  case (Suc i)
  define f' where "f' = (case f (Suc i) of None \<Rightarrow> f
    | Some ls \<Rightarrow> f(Suc (Suc i) := Some ls, Suc i := None))"
  have s: "shift_backups (Suc i) f = shift_backups i f'" by (simp add: f'_def)
  obtain k where IH: "rotated_lines (shift_backups i f') (Suc i)
      = drop k (lines_of f' (Suc i)) @ rotated_lines f' i"
    using Suc[of f'] by blast
  have top: "lines_of (shift_backups i f') (Suc (Suc i)) = lines_of f' (Suc (Suc i))"
    by (simp add: lines_of_def shift_above)
  show ?case
  proof (cases "f (Suc i)")
    case None
    then have "f' = f" and "lines_of f (Suc i) = []" by (auto simp: f'_def lines_of_def)
    with IH top s show ?thesis by (intro exI[of _ 0]) simp
  next
    case (Some ls)
    then have "f' = f(Suc (Suc i) := Some ls, Suc i := None)" and "lines_of f (Suc i) = ls"
      by (auto simp: f'_def lines_of_def)
    with IH top s show ?thesis by (intro exI[of _ "length (lines_of f (Suc (Suc i)))"]) simp
  qed
qed

lemma rotated_lines_split:
  "rotated_lines h (Suc m) = rotated_lines (h(1 := None)) (Suc m) @ lines_of h 1"
  by (induction m) (auto simp: lines_of_def)

lemma rotate_lines:
  "\<exists>k \<le> length (lines_of f n). log_lines n (rotate_files n f) = drop k (log_lines n f)"
proof (cases n)
  case 0
  then show ?thesis
    by (intro exI[of _ "length (lines_of f 0)"]) (simp add: rotate_files_def log_lines_def)
next
  case (Suc m)
  let ?g = "shift_backups m f"
  have r: "rotate_files n f = ?g(1 := f 0, 0 := None)" 
    using Suc by (simp add: rotate_files_def Let_def shift_zero)
  have one: "log_lines n (rotate_files n f) = rotated_lines (?g(1 := None)) (Suc m) @ lines_of f 0"
    using rotated_lines_split[of "?g(1 := f 0)" m]
    unfolding log_lines_def r[unfolded Suc] Suc
    by (simp add: lines_of_def fun_upd_twist[of 1 0] del: rotated_lines.simps)
  show ?thesis
  proof (cases m)
    case 0
    with one Suc show ?thesis
      by (intro exI[of _ "length (lines_of f 1)"]) (simp add: log_lines_def)
  next
    case (Suc i)
    with shift_one[of i f] have "?g(1 := None) = ?g" by (simp add: fun_upd_idem)
    with one obtain k where "k \<le> length (lines_of f n)"
      and "log_lines n (rotate_files n f) = drop k (lines_of f n) @ rotated_lines f m @ lines_of f 0"
      using shift_lines[of f m] \<open>n = Suc m\<close>
      by (auto simp del: rotated_lines.simps)
    then show ?thesis using \<open>n = Suc m\<close> by (auto simp: log_lines_def)
  qed
qed

subsection \<open>Size of the files\<close>

text \<open>A file stays below the cap unless a single entry is longer; no line is empty.\<close>

definition file_fits :: "nat \<Rightarrow> string list \<Rightarrow> bool" where
  "file_fits m ls \<longleftrightarrow> (bytes_of ls \<le> m \<or> length ls \<le> 1) \<and> [] \<notin> set ls"

definition log_wf :: "deferred_log \<Rightarrow> log_files \<Rightarrow> bool" where
  "log_wf L f \<longleftrightarrow> (\<forall>i. file_fits (max_bytes L) (lines_of f i)) \<and> (\<forall>i > backups L. f i = None)"

lemma shift_range: "shift_backups i f j = None \<or> (\<exists>k. shift_backups i f j = f k)"
proof (induction i f arbitrary: j rule: shift_backups.induct)
  case (1 f)
  then show ?case by auto
next
  case (2 i f)
  show ?case
  proof (cases "f (Suc i)")
    case None
    with 2[of j] show ?thesis by simp
  next
    case (Some ls)
    let ?h = "f(Suc (Suc i) := Some ls, Suc i := None)"
    have "?h k = None \<or> ?h k = f k \<or> ?h k = f (Suc i)" for k using Some by auto
    with 2[of j] Some show ?thesis by (metis option.simps(5) shift_backups.simps(2))
  qed
qed

lemma rotate_range: "rotate_files n f j = None \<or> (\<exists>k. rotate_files n f j = f k)"
  using shift_range[of "n - 1" f] by (auto simp: rotate_files_def Let_def)

lemma rotate_none: "i > n \<Longrightarrow> \<forall>i > n. f i = None \<Longrightarrow> rotate_files n f i = None"
  by (auto simp: rotate_files_def Let_def shift_above)

lemma rotate_zero: "lines_of (rotate_files n f) 0 = []"
  by (simp add: rotate_files_def Let_def lines_of_def)

lemma rotate_wf: "log_wf L f \<Longrightarrow> log_wf L (rotate_files (backups L) f)"
proof -
  assume wf: "log_wf L f"
  have "file_fits (max_bytes L) (lines_of (rotate_files (backups L) f) i)" for i
  proof -
    show ?thesis
    proof (cases "rotate_files (backups L) f i")
      case None
      then show ?thesis by (simp add: lines_of_def file_fits_def)
    next
      case (Some ls)
      then obtain k where "rotate_files (backups L) f i = f k"
        using rotate_range[of "backups L" f i] by auto
      then have "lines_of (rotate_files (backups L) f) i = lines_of f k" by (simp add: lines_of_def)
      with wf show ?thesis by (simp add: log_wf_def)
    qed
  qed
  with wf show ?thesis using rotate_none by (auto simp: log_wf_def)
qed

lemma bytes_of_append [simp]: "bytes_of (xs @ ys) = bytes_of xs + bytes_of ys"
  by (simp add: bytes_of_def)

lemma bytes_of_zero: "bytes_of ls = 0 \<Longrightarrow> [] \<notin> set ls \<Longrightarrow> ls = []"
  by (cases ls) (auto simp: bytes_of_def)

lemma push_line_wf:
  assumes "log_wf L h" "l \<noteq> []"
    and "lines_of h 0 = [] \<or> bytes_of (lines_of h 0) + utf8_len l \<le> max_bytes L"
  shows "log_wf L (h(0 := Some (lines_of h 0 @ [l])))"
  using assms by (auto simp: log_wf_def file_fits_def bytes_of_def)

lemma entry_line_not_Nil [simp]: "entry_line e \<noteq> []"
  by (simp add: entry_line_def)

lemma append_entry_ok:
  "src \<in> {''agent'', ''gate''}
    \<Longrightarrow> \<exists>e g. append_entry r now IoOk L tname args rsn cap src f = (Inr e, g)"
  by (simp add: append_entry_def Let_def)

text \<open>The files \<open>append\<close> leaves, by outcome.\<close>

lemma append_entry_cases:
  assumes "append_entry r now io L tname args rsn cap src f = (res, g)"
  obtains (same) e where "res = Inl e" "g = f"
  | (write_failed) h where "res = Inl OSErr" "g = h"
      "h = f \<or> h = rotate_files (backups L) f"
  | (written) e h where "res = Inr e" "g = h(0 := Some (lines_of h 0 @ [entry_line e]))"
      "h = f \<and> (bytes_of (lines_of f 0) = 0
         \<or> bytes_of (lines_of f 0) + utf8_len (entry_line e) \<le> max_bytes L)
       \<or> h = rotate_files (backups L) f"
  using assms by (auto simp: append_entry_def Let_def not_less split: if_splits)

lemma append_entry_wf:
  assumes "log_wf L f" "append_entry r now io L tname args rsn cap src f = (res, g)"
  shows "log_wf L g"
  using assms(2)
proof (cases rule: append_entry_cases)
  case (written e h)
  have "[] \<notin> set (lines_of f 0)" using assms(1) by (simp add: log_wf_def file_fits_def)
  with written(3) have "lines_of h 0 = []
      \<or> bytes_of (lines_of h 0) + utf8_len (entry_line e) \<le> max_bytes L"
    using bytes_of_zero rotate_zero by blast
  moreover have "log_wf L h" using written(3) assms(1) rotate_wf by blast
  ultimately show ?thesis using written(2) push_line_wf by simp
qed (use assms(1) rotate_wf in auto)


subsection \<open>Properties\<close>

text \<open>The files reachable by appends, whatever each one's entry and outcome.\<close>

inductive log_reach :: "(string \<Rightarrow> string) \<Rightarrow> deferred_log \<Rightarrow> log_files \<Rightarrow> bool"
  for r :: "string \<Rightarrow> string" and L :: deferred_log where
  empty: "log_reach r L (\<lambda>_. None)"
| step: "log_reach r L f \<Longrightarrow> append_entry r now io L tname args rsn cap src f = (res, g)
    \<Longrightarrow> log_reach r L g"

lemma log_reach_append:
  "log_reach r L f \<Longrightarrow> log_reach r L (snd (append_entry r now io L tname args rsn cap src f))"
  by (rule log_reach.step) (auto intro: prod.collapse[symmetric])

lemma empty_log_wf: "log_wf L (\<lambda>_. None)"
  by (simp add: log_wf_def file_fits_def lines_of_def)

text \<open>
  Every file the deferred log ever leaves on disk is either below the size cap or
  holds a single entry, no file beyond the configured number of backups exists, and no line
  is empty, whatever sequence of appends (failing ones included) produced it.
\<close>

lemma deferred_files_bounded:
  assumes "log_reach r L f"
  shows "(bytes_of (lines_of f i) \<le> max_bytes L \<or> length (lines_of f i) \<le> 1)
       \<and> [] \<notin> set (lines_of f i) \<and> (backups L < i \<longrightarrow> f i = None)"
proof -
  have "log_wf L f"
    using assms by (induction rule: log_reach.induct) (auto intro: empty_log_wf append_entry_wf)
  then show ?thesis by (simp add: log_wf_def file_fits_def)
qed

text \<open>
  A successful append keeps the history. The log read oldest file first loses at
  most the entries of the oldest backup (none when the line fits the current file) and ends
  in the new entry, whose source is the caller's and whose arguments carry no scalar under a
  secret-looking key but the mask.
\<close>

lemma deferred_append_keeps_history:
  assumes "append_entry r now io L tname args rsn cap src f = (Inr e, g)"
  shows "(\<exists>k \<le> length (lines_of f (backups L)).
             log_lines (backups L) g = drop k (log_lines (backups L) f) @ [entry_line e]
             \<and> (bytes_of (lines_of f 0) + utf8_len (entry_line e) \<le> max_bytes L \<longrightarrow> k = 0))
         \<and> source e = src \<and> src \<in> {''agent'', ''gate''}
         \<and> secrets_masked (r MASK) (arguments e)"
proof -
  have e: "source e = src \<and> src \<in> {''agent'', ''gate''} \<and> secrets_masked (r MASK) (arguments e)"
    using assms
    by (auto simp: append_entry_def Let_def redact_arguments_def secrets_masked_redact
        split: if_splits)
  have ge: "\<And>h. g = h(0 := Some (lines_of h 0 @ [entry_line e]))
      \<Longrightarrow> log_lines (backups L) g = log_lines (backups L) h @ [entry_line e]"
    by (simp add: log_lines_def)
  have "\<exists>h. g = h(0 := Some (lines_of h 0 @ [entry_line e]))
      \<and> (h = f \<or> h = rotate_files (backups L) f
           \<and> \<not> bytes_of (lines_of f 0) + utf8_len (entry_line e) \<le> max_bytes L)"
    using assms by (auto simp: append_entry_def Let_def split: if_splits)
  then obtain h where h: "g = h(0 := Some (lines_of h 0 @ [entry_line e]))"
    and hf: "h = f \<or> h = rotate_files (backups L) f
           \<and> \<not> bytes_of (lines_of f 0) + utf8_len (entry_line e) \<le> max_bytes L" by blast
  from hf show ?thesis
  proof
    assume "h = f"
    with ge[OF h] e show ?thesis by (intro conjI exI[of _ 0]) auto
  next
    assume "h = rotate_files (backups L) f
           \<and> \<not> bytes_of (lines_of f 0) + utf8_len (entry_line e) \<le> max_bytes L"
    with ge[OF h] e rotate_lines[of f "backups L"] show ?thesis by auto
  qed
qed

definition sample_log :: deferred_log where "sample_log = DeferredLog 40 1"

definition sample_append :: "string \<Rightarrow> log_files \<Rightarrow> (append_error, deferred_entry) py \<times> log_files" where
  "sample_append tname f = append_entry (\<lambda>s. s) ''t'' IoOk sample_log tname
     (JDict [(''api_key'', JStr ''abc'')]) ''denied'' None ''gate'' f"

lemma sample_log_simps: "max_bytes sample_log = 40" "backups sample_log = 1"
  by (simp_all add: sample_log_def DeferredLog_def)

lemma deferred_files_bounded_witness:
  "lines_of (snd (sample_append ''b'' (snd (sample_append ''a'' (\<lambda>_. None))))) 2 = []
   \<and> log_reach (\<lambda>s. s) sample_log (snd (sample_append ''b'' (snd (sample_append ''a'' (\<lambda>_. None)))))"
proof -
  have r: "log_reach (\<lambda>s. s) sample_log (snd (sample_append ''b'' (snd (sample_append ''a'' (\<lambda>_. None)))))"
    unfolding sample_append_def by (intro log_reach_append log_reach.empty)
  with deferred_files_bounded[OF r, of 2] show ?thesis by (simp add: sample_log_simps lines_of_def)
qed

lemma deferred_append_keeps_history_witness:
  "\<exists>e g. sample_append ''b'' (\<lambda>_. None) = (Inr e, g) \<and> secrets_masked MASK (arguments e)
      \<and> source e = ''gate''"
proof -
  obtain e g where a: "sample_append ''b'' (\<lambda>_. None) = (Inr e, g)"
    unfolding sample_append_def using append_entry_ok[of "''gate''"] by blast
  then have "append_entry (\<lambda>s. s) ''t'' IoOk sample_log ''b'' (JDict [(''api_key'', JStr ''abc'')])
      ''denied'' None ''gate'' (\<lambda>_. None) = (Inr e, g)" by (simp only: sample_append_def)
  from deferred_append_keeps_history[OF this, THEN conjunct2] a
  show ?thesis by (intro exI[of _ e] exI[of _ g] conjI) auto
qed

end
