(* ===== verification/Gate.thy ===== *)
theory Gate
  imports Policy Protected Deferred
begin

text \<open>
  The capability gate: \<open>nanobot/kernel/floors.py\<close>, \<open>strict.py\<close> and \<open>gate.py\<close>. Every request a
  tool declares passes the floors, the strict-mode sandbox check, the plugin grant and the
  policy, in this order; the first denial ends the call and leaves one entry in the deferred
  log. What surrounds the kernel is the record \<open>gate_host\<close>: the operating system, the
  package and configuration paths, the workspace bound to the turn, the exec floor's regular
  expressions, redaction, clock and I/O outcome, and whether the trace sink takes an event.
\<close>

subsection \<open>Floors\<close>

definition PLUGIN_LOAD_MARKER :: string where
  "PLUGIN_LOAD_MARKER = ''plugin.load is host-only''"

definition EXEC_CAPABILITIES :: "string set" where
  "EXEC_CAPABILITIES = {''exec.run'', ''exec.session_input''}"

definition FS_CAPABILITIES :: "string set" where
  "FS_CAPABILITIES = {''fs.read'', ''fs.write''}"

definition EXEC_FLOOR_MARKER :: string where
  "EXEC_FLOOR_MARKER = ''blocked by safety guard (dangerous pattern detected)''"

text \<open>An em dash of the source, as its UTF-8 bytes.\<close>

definition em_dash :: string where
  "em_dash = [CHR 0xE2, CHR 0x80, CHR 0x94]"

text \<open>\<open>hit\<close> is \<open>ExecTool.floor_denial\<close>: the message when a floor pattern is found.\<close>

definition exec_floor :: "(string \<Rightarrow> string option) \<Rightarrow> capability_request \<Rightarrow> deny option" where
  "exec_floor hit req =
     (let cmd = strip (filter (\<lambda>c. c \<noteq> CHR 0x00) (resource req)) in
      if cmd = [] then None
      else (case hit (lower cmd) of
              None \<Rightarrow> None
            | Some message \<Rightarrow> Some \<lparr>reason = message, marker = EXEC_FLOOR_MARKER,
                                     denied_capability = capability req\<rparr>))"

definition fs_floor ::
  "os_host \<Rightarrow> protected_floor \<Rightarrow> capability_request \<Rightarrow> (fs_error, deny option) py" where
  "fs_floor os fl req =
     (if resource req = [] then Inr None
      else (case floor_reason os fl (parse_path (resource req)) (capability req = ''fs.write'') of
              Inl e \<Rightarrow> Inl e
            | Inr None \<Rightarrow> Inr None
            | Inr (Some why) \<Rightarrow> Inr (Some \<lparr>reason = why, marker = PROTECTED_MARKER,
                                             denied_capability = capability req\<rparr>)))"

definition plugin_load_deny :: "principal \<Rightarrow> deny" where
  "plugin_load_deny pr =
     \<lparr>reason = ''Error: plugin.load blocked by capability floor '' @ em_dash @ '' '' @ PLUGIN_LOAD_MARKER
        @ '' ('' @ kind_str (p_kind pr) @ '' '' @ py_repr (p_name pr) @ '' may not load plugins). ''
        @ ''This guard is not configurable.'',
      marker = PLUGIN_LOAD_MARKER, denied_capability = ''plugin.load''\<rparr>"

text \<open>\<open>check_floors\<close> with the host's precomputed floor.\<close>

definition check_floors ::
  "os_host \<Rightarrow> (string \<Rightarrow> string option) \<Rightarrow> principal \<Rightarrow> capability_request \<Rightarrow> protected_floor
     \<Rightarrow> (fs_error, deny option) py" where
  "check_floors os hit pr req fl =
     (let cap = capability req in
      if cap = ''plugin.load'' \<and> p_kind pr \<noteq> HostKind then Inr (Some (plugin_load_deny pr))
      else if cap \<in> EXEC_CAPABILITIES then Inr (exec_floor hit req)
      else if cap \<in> FS_CAPABILITIES then fs_floor os fl req
      else Inr None)"

subsection \<open>Tools and the host\<close>

datatype grant = NoGrant | Grant "string list" | BrokenGrant

record gtool =
  t_name :: "string option"
  t_class :: string
  t_declare :: "(json \<Rightarrow> (string, capability_request list) py) option"
  t_sandbox_active :: "(string, bool) py option"
  t_grant :: grant
  t_workspace :: "ppath option"

record gate_env =
  ge_strict :: bool
  ge_paths :: paths
  ge_trust_dirs :: "ppath list"

record gate_host =
  gh_os :: os_host
  gh_trust_dir :: ppath
  gh_config :: "ppath option"
  gh_discover :: "ppath option \<Rightarrow> ppath list"
  gh_scope :: "ppath option"
  gh_exec_hit :: "string \<Rightarrow> string option"
  gh_redact :: "string \<Rightarrow> string"
  gh_now :: string
  gh_io :: io

definition AGENT_PRINCIPAL :: principal where
  "AGENT_PRINCIPAL = Principal ''agent'' AgentKind None"

subsection \<open>Strict mode\<close>

definition STRICT_SANDBOX_MARKER :: string where
  "STRICT_SANDBOX_MARKER = ''strict mode requires a declared sandbox''"

definition SANDBOX_REQUIRED_CAPABILITIES :: "string set" where
  "SANDBOX_REQUIRED_CAPABILITIES = {''exec.run''}"

definition is_strict :: "gate_env option \<Rightarrow> bool" where
  "is_strict env = (case env of None \<Rightarrow> False | Some e \<Rightarrow> ge_strict e)"

definition tool_sandboxed :: "gtool \<Rightarrow> bool" where
  "tool_sandboxed t \<longleftrightarrow> t_sandbox_active t = Some (Inr True)"

definition strict_sandbox_message :: "string \<Rightarrow> string" where
  "strict_sandbox_message tname =
     ''Error: '' @ tname @ '' refused: '' @ STRICT_SANDBOX_MARKER @ '' and none is configured '' @
     ''(set tools.exec.sandbox to 'bwrap' or 'seatbelt' on a platform that supports it). '' @
     ''The host runs the kernel in strict mode, which fails closed rather than run '' @
     ''shell commands without an isolation boundary. This is host configuration, not '' @
     ''a transient failure: do not retry with another command or tool. Tell the user '' @
     ''a sandbox backend must be configured for shell execution.''"

definition strict_sandbox_deny ::
  "gate_env option \<Rightarrow> gtool \<Rightarrow> string \<Rightarrow> capability_request \<Rightarrow> deny option" where
  "strict_sandbox_deny env t tname req =
     (if capability req \<notin> SANDBOX_REQUIRED_CAPABILITIES \<or> \<not> is_strict env then None
      else if tool_sandboxed t then None
      else Some \<lparr>reason = strict_sandbox_message tname, marker = STRICT_SANDBOX_MARKER,
                 denied_capability = capability req\<rparr>)"

definition fully_denied :: "'c hosts \<Rightarrow> policy \<Rightarrow> string list option \<Rightarrow> bool" where
  "fully_denied H p surface =
     (case surface of None \<Rightarrow> False
      | Some names \<Rightarrow> names \<noteq> [] \<and> list_all (policy_denies_everywhere H p) names)"

subsection \<open>Requests on files\<close>

definition normalize_fs_resource :: "os_host \<Rightarrow> string \<Rightarrow> ppath option \<Rightarrow> string" where
  "normalize_fs_resource os res ws =
     (let text = strip res in
      if text = [] then []
      else (case against os ws (parse_path text) of
              Inl _ \<Rightarrow> text
            | Inr cand \<Rightarrow> path_str (abspath os cand)))"

definition fs_views :: "os_host \<Rightarrow> capability_request \<Rightarrow> capability_request list" where
  "fs_views os req =
     (if resource req = [] then [req]
      else (case realpath os (parse_path (resource req)) of
              None \<Rightarrow> [req]
            | Some r \<Rightarrow>
                let lexical = \<lparr>capability = capability req, resource = resource req,
                               subtree = is_dir os r\<rparr>
                in if path_str r = resource req then [lexical]
                   else [lexical, lexical\<lparr>resource := path_str r\<rparr>]))"

definition views_of :: "os_host \<Rightarrow> capability_request \<Rightarrow> capability_request list" where
  "views_of os req = (if capability req \<in> FS_CAPABILITIES then fs_views os req else [req])"

definition call_workspace ::
  "gate_host \<Rightarrow> gtool \<Rightarrow> gate_env option \<Rightarrow> ppath option \<Rightarrow> (fs_error, ppath option) py" where
  "call_workspace G t env ws =
     (let default = (case t_workspace t of
            Some w \<Rightarrow> Some w
          | None \<Rightarrow> (case ws of
              Some w \<Rightarrow> Some w
            | None \<Rightarrow> map_option (\<lambda>e. work_dir (ge_paths e)) env))
      in case gh_scope G of
           Some p \<Rightarrow> Inr (Some p)
         | None \<Rightarrow>
             (case default of
                None \<Rightarrow> Inr None
              | Some d \<Rightarrow> (case expanduser (gh_os G) d of Inl e \<Rightarrow> Inl e | Inr q \<Rightarrow> Inr (Some q))))"

definition gate_floor ::
  "gate_host \<Rightarrow> gate_env option \<Rightarrow> ppath option \<Rightarrow> (fs_error, protected_floor) py" where
  "gate_floor G env ws =
     (let os = gh_os G in
      case env of
        None \<Rightarrow> legacy_floor os (gh_trust_dir G) (gh_config G) (gh_discover G) ws
      | Some e \<Rightarrow>
          if ge_strict e then from_paths os (gh_trust_dir G) (ge_paths e) [] [] [] (ge_trust_dirs e)
          else from_paths os (gh_trust_dir G) (ge_paths e) (default_data_dirs os (gh_config G))
                 (default_config_files os (gh_config G))
                 (gh_discover G (Some (work_dir (ge_paths e)))) (ge_trust_dirs e))"

subsection \<open>The plugin grant\<close>

text \<open>The source writes an intersection sign, here as its UTF-8 bytes.\<close>

definition grant_note :: string where
  "grant_note = ''outside the plugin's capability grant, policy ''
     @ [CHR 0xE2, CHR 0x88, CHR 0xA9] @ '' capabilities_requested''"

definition rule_covers :: "capability_request \<Rightarrow> string \<Rightarrow> bool" where
  "rule_covers req rule =
     (case str_partition (CHR '':'') rule of
        (cap, found, pat) \<Rightarrow> cap = capability req \<and> (\<not> found \<or> resource_covered req pat))"

definition plugin_grant_deny :: "gtool \<Rightarrow> principal \<Rightarrow> capability_request \<Rightarrow> deny option" where
  "plugin_grant_deny t pr req =
     (case t_grant t of
        NoGrant \<Rightarrow> None
      | BrokenGrant \<Rightarrow> Some (policy_deny pr req grant_note)
      | Grant rules \<Rightarrow>
          if list_ex (rule_covers req) rules then None else Some (policy_deny pr req grant_note))"

fun first_grant_deny :: "gtool \<Rightarrow> principal \<Rightarrow> capability_request list \<Rightarrow> deny option" where
  "first_grant_deny t pr [] = None"
| "first_grant_deny t pr (v # vs) =
     (case plugin_grant_deny t pr v of Some d \<Rightarrow> Some d | None \<Rightarrow> first_grant_deny t pr vs)"

text \<open>The policy on every view; a raising policy denies.\<close>

fun decide_views ::
  "'c hosts \<Rightarrow> policy \<Rightarrow> principal \<Rightarrow> 'c \<Rightarrow> capability_request list \<Rightarrow> decision" where
  "decide_views H pol pr ctx [] = Allow"
| "decide_views H pol pr ctx (v # vs) =
     (case (case decide H pol pr v ctx of
              Inl _ \<Rightarrow> Deny (policy_deny pr v ''policy error'') | Inr d \<Rightarrow> d) of
        Deny d \<Rightarrow> Deny d
      | Allow \<Rightarrow> decide_views H pol pr ctx vs)"

subsection \<open>The gate\<close>

datatype layer = FloorL | PolicyL | GateL

record event =
  ev_actor :: string
  ev_kind :: principal_kind
  ev_tool :: string
  ev_capability :: string
  ev_resource :: string
  ev_deny :: bool
  ev_layer :: "layer option"
  ev_marker :: "string option"

record gate_result =
  g_decision :: decision
  g_layer :: "layer option"
  g_events :: "event list"
  g_deferred :: bool

definition tool_name :: "gtool \<Rightarrow> string" where
  "tool_name t = (case t_name t of Some n \<Rightarrow> n | None \<Rightarrow> t_class t)"

definition decision_event ::
  "principal \<Rightarrow> string \<Rightarrow> capability_request \<Rightarrow> decision \<Rightarrow> layer \<Rightarrow> event" where
  "decision_event pr tname req dec l =
     \<lparr>ev_actor = p_name pr, ev_kind = p_kind pr, ev_tool = tname, ev_capability = capability req,
      ev_resource = resource req, ev_deny = (case dec of Deny _ \<Rightarrow> True | Allow \<Rightarrow> False),
      ev_layer = (case dec of Deny _ \<Rightarrow> Some l | Allow \<Rightarrow> None),
      ev_marker = (case dec of Deny d \<Rightarrow> Some (marker d) | Allow \<Rightarrow> None)\<rparr>"

text \<open>The verdict on one request, and the layer that gives it.\<close>

definition judge ::
  "gate_host \<Rightarrow> 'c hosts \<Rightarrow> gtool \<Rightarrow> principal \<Rightarrow> policy \<Rightarrow> gate_env option \<Rightarrow> 'c
     \<Rightarrow> capability_request \<Rightarrow> protected_floor \<Rightarrow> (fs_error, decision \<times> layer) py" where
  "judge G H t pr pol env ctx req fl =
     (case check_floors (gh_os G) (gh_exec_hit G) pr req fl of
        Inl e \<Rightarrow> Inl e
      | Inr (Some d) \<Rightarrow> Inr (Deny d, FloorL)
      | Inr None \<Rightarrow>
          (case strict_sandbox_deny env t (tool_name t) req of
             Some d \<Rightarrow> Inr (Deny d, GateL)
           | None \<Rightarrow>
               let views = views_of (gh_os G) req
               in (case first_grant_deny t pr views of
                     Some d \<Rightarrow> Inr (Deny d, PolicyL)
                   | None \<Rightarrow> Inr (decide_views H pol pr ctx views, PolicyL))))"

text \<open>
  What the loop keeps between requests: the call's workspace and floor, computed at the
  first file request (\<^term>\<open>None\<close> before). A floor is never consulted for other requests.
\<close>

definition no_floor :: protected_floor where
  "no_floor = \<lparr>fl_roots = [], fl_write_roots = [], fl_config_files = []\<rparr>"

type_synonym fs_cache = "(ppath option \<times> protected_floor) option"

definition prepare ::
  "gate_host \<Rightarrow> gtool \<Rightarrow> gate_env option \<Rightarrow> ppath option \<Rightarrow> fs_cache \<Rightarrow> capability_request
     \<Rightarrow> (fs_error, capability_request \<times> protected_floor \<times> fs_cache) py" where
  "prepare G t env ws cache raw =
     (if capability raw \<notin> FS_CAPABILITIES
        then Inr (raw, case cache of None \<Rightarrow> no_floor | Some (_, fl) \<Rightarrow> fl, cache)
      else
        (case (case cache of
                 Some c \<Rightarrow> Inr c
               | None \<Rightarrow>
                   (case call_workspace G t env ws of
                      Inl e \<Rightarrow> Inl e
                    | Inr cws \<Rightarrow> (case gate_floor G env cws of
                        Inl e \<Rightarrow> Inl e | Inr fl \<Rightarrow> Inr (cws, fl)))) of
           Inl e \<Rightarrow> Inl e
         | Inr (cws, fl) \<Rightarrow>
             Inr (CapabilityRequest (capability raw)
                    (normalize_fs_resource (gh_os G) (resource raw) cws), fl, Some (cws, fl))))"

record gate_state =
  gs_files :: log_files
  gs_trace :: "event list"

definition deferred_work_dir :: "gate_env option \<Rightarrow> ppath option \<Rightarrow> string option" where
  "deferred_work_dir env ws =
     (case env of Some e \<Rightarrow> Some (path_str (work_dir (ge_paths e))) | None \<Rightarrow> map_option path_str ws)"

definition safe_emit :: "(event \<Rightarrow> bool) \<Rightarrow> event \<Rightarrow> gate_state \<Rightarrow> gate_state" where
  "safe_emit sink ev s = (if sink ev then s\<lparr>gs_trace := gs_trace s @ [ev]\<rparr> else s)"

definition params_dict :: "json \<Rightarrow> json" where
  "params_dict params = (case params of JDict kvs \<Rightarrow> JDict kvs | _ \<Rightarrow> JDict [])"

definition raw_params :: "json \<Rightarrow> json" where
  "raw_params params = (case params of JDict kvs \<Rightarrow> JDict kvs | p \<Rightarrow> JDict [(''_raw'', p)])"

definition denied ::
  "gate_host \<Rightarrow> string \<Rightarrow> json \<Rightarrow> deny \<Rightarrow> layer \<Rightarrow> event list \<Rightarrow> gate_env option \<Rightarrow> ppath option
     \<Rightarrow> gate_state \<Rightarrow> gate_result \<times> gate_state" where
  "denied G tname params d l events env ws s =
     (case record_gate_denial (gh_redact G) (gh_now G) (gh_io G) (deferred_work_dir env ws) tname
             (raw_params params) (reason d) (Some (denied_capability d)) (gs_files s) of
        (logged, f) \<Rightarrow>
          (\<lparr>g_decision = Deny d, g_layer = Some l, g_events = events, g_deferred = logged\<rparr>,
           s\<lparr>gs_files := f\<rparr>))"

fun gate_loop ::
  "gate_host \<Rightarrow> 'c hosts \<Rightarrow> (event \<Rightarrow> bool) \<Rightarrow> gtool \<Rightarrow> json \<Rightarrow> principal \<Rightarrow> policy \<Rightarrow> gate_env option
     \<Rightarrow> 'c \<Rightarrow> ppath option \<Rightarrow> capability_request list \<Rightarrow> fs_cache \<Rightarrow> event list \<Rightarrow> gate_state
     \<Rightarrow> (fs_error, gate_result) py \<times> gate_state" where
  "gate_loop G H sink t params pr pol env ctx ws [] cache events s =
     (Inr \<lparr>g_decision = Allow, g_layer = None, g_events = events, g_deferred = False\<rparr>, s)"
| "gate_loop G H sink t params pr pol env ctx ws (raw # reqs) cache events s =
     (case prepare G t env ws cache raw of
        Inl e \<Rightarrow> (Inl e, s)
      | Inr (req, fl, cache') \<Rightarrow>
          (case judge G H t pr pol env ctx req fl of
             Inl e \<Rightarrow> (Inl e, s)
           | Inr (dec, l) \<Rightarrow>
               let ev = decision_event pr (tool_name t) req dec l;
                   s' = safe_emit sink ev s
               in (case dec of
                     Deny d \<Rightarrow>
                       (case denied G (tool_name t) params d l (events @ [ev]) env ws s' of
                          (res, s'') \<Rightarrow> (Inr res, s''))
                   | Allow \<Rightarrow> gate_loop G H sink t params pr pol env ctx ws reqs cache'
                               (events @ [ev]) s')))"

definition declaration_deny :: "principal \<Rightarrow> string \<Rightarrow> deny" where
  "declaration_deny pr tname =
     \<lparr>reason = ''Error: '' @ tname @ '' call '' @ POLICY_MARKER @ '' for '' @ kind_str (p_kind pr)
        @ '' '' @ py_repr (p_name pr) @ '' (its capability declaration failed).'',
      marker = POLICY_MARKER, denied_capability = ''tool.capabilities''\<rparr>"

definition or_else :: "'a option \<Rightarrow> 'a \<Rightarrow> 'a" where
  "or_else x d = (case x of None \<Rightarrow> d | Some v \<Rightarrow> v)"

definition gate_call ::
  "gate_host \<Rightarrow> 'c hosts \<Rightarrow> (event \<Rightarrow> bool) \<Rightarrow> gtool \<Rightarrow> json \<Rightarrow> principal option \<Rightarrow> policy option
     \<Rightarrow> gate_env option \<Rightarrow> 'c \<Rightarrow> ppath option \<Rightarrow> gate_state
     \<Rightarrow> (fs_error, gate_result) py \<times> gate_state" where
  "gate_call G H sink t params principal_opt policy_opt env ctx ws s =
     (let pr = or_else principal_opt AGENT_PRINCIPAL;
          pol = or_else policy_opt (DefaultP default_new)
      in case (case t_declare t of None \<Rightarrow> Inr [] | Some declare \<Rightarrow> declare (params_dict params)) of
           Inl _ \<Rightarrow>
             let req = CapabilityRequest ''tool.capabilities'' (tool_name t);
                 d = declaration_deny pr (tool_name t);
                 ev = decision_event pr (tool_name t) req (Deny d) GateL
             in (case denied G (tool_name t) params d GateL [ev] env ws (safe_emit sink ev s) of
                   (res, s') \<Rightarrow> (Inr res, s'))
         | Inr requests \<Rightarrow>
             gate_loop G H sink t params pr pol env ctx ws requests None [] s)"

subsection \<open>The result\<close>

definition g_allowed :: "gate_result \<Rightarrow> bool" where
  "g_allowed res \<longleftrightarrow> g_decision res = Allow"

definition policy_capability :: "gate_result \<Rightarrow> string option" where
  "policy_capability res =
     (case g_decision res of Allow \<Rightarrow> None
      | Deny d \<Rightarrow> if g_layer res \<noteq> Some PolicyL then None else Some (denied_capability d))"

definition error_text :: "gate_result \<Rightarrow> string" where
  "error_text res =
     (case g_decision res of
        Allow \<Rightarrow> []
      | Deny d \<Rightarrow>
          let why = strip (reason d);
              text = (if prefix ''Error'' why then why else ''Error: '' @ why)
          in if g_deferred res then with_deferred_note text else text)"


subsection \<open>Allowing a call\<close>

definition fs_context ::
  "gate_host \<Rightarrow> gtool \<Rightarrow> gate_env option \<Rightarrow> ppath option \<Rightarrow> (fs_error, ppath option \<times> protected_floor) py" where
  "fs_context G t env ws =
     (case call_workspace G t env ws of
        Inl e \<Rightarrow> Inl e
      | Inr cws \<Rightarrow> (case gate_floor G env cws of Inl e \<Rightarrow> Inl e | Inr fl \<Rightarrow> Inr (cws, fl)))"

definition cache_ok :: "gate_host \<Rightarrow> gtool \<Rightarrow> gate_env option \<Rightarrow> ppath option \<Rightarrow> fs_cache \<Rightarrow> bool" where
  "cache_ok G t env ws cache \<longleftrightarrow> (\<forall>c. cache = Some c \<longrightarrow> fs_context G t env ws = Inr c)"

text \<open>Every layer lets the request through: it is the specification of an allowed request.\<close>

definition request_passes ::
  "gate_host \<Rightarrow> 'c hosts \<Rightarrow> gtool \<Rightarrow> principal \<Rightarrow> policy \<Rightarrow> gate_env option \<Rightarrow> 'c \<Rightarrow> ppath option
     \<Rightarrow> capability_request \<Rightarrow> bool" where
  "request_passes G H t pr pol env ctx ws raw =
     (case prepare G t env ws None raw of
        Inl _ \<Rightarrow> False
      | Inr (req, fl, _) \<Rightarrow>
          check_floors (gh_os G) (gh_exec_hit G) pr req fl = Inr None
          \<and> strict_sandbox_deny env t (tool_name t) req = None
          \<and> list_all (\<lambda>v. plugin_grant_deny t pr v = None \<and> decide H pol pr v ctx = Inr Allow)
              (views_of (gh_os G) req))"

lemma first_grant_None: "first_grant_deny t pr vs = None \<longleftrightarrow> (\<forall>v \<in> set vs. plugin_grant_deny t pr v = None)"
  by (induction vs) (auto split: option.splits)

lemma first_grant_SomeD: "first_grant_deny t pr vs = Some d \<Longrightarrow> \<exists>v \<in> set vs. plugin_grant_deny t pr v = Some d"
  by (induction vs) (auto split: option.splits)

lemma decide_views_Allow:
  "decide_views H pol pr ctx vs = Allow \<longleftrightarrow> (\<forall>v \<in> set vs. decide H pol pr v ctx = Inr Allow)"
  by (induction vs) (auto split: sum.splits decision.splits)

lemma judge_Allow:
  "judge G H t pr pol env ctx req fl = Inr (Allow, l) \<longleftrightarrow>
     l = PolicyL \<and> check_floors (gh_os G) (gh_exec_hit G) pr req fl = Inr None
     \<and> strict_sandbox_deny env t (tool_name t) req = None
     \<and> list_all (\<lambda>v. plugin_grant_deny t pr v = None \<and> decide H pol pr v ctx = Inr Allow)
         (views_of (gh_os G) req)"
  by (auto simp: judge_def Let_def list_all_iff decide_views_Allow first_grant_None
      split: sum.splits option.splits) (metis first_grant_SomeD option.distinct(1))

lemma judge_floor_irrelevant:
  "capability req \<notin> FS_CAPABILITIES \<Longrightarrow>
   judge G H t pr pol env ctx req fl = judge G H t pr pol env ctx req fl'"
  by (simp add: judge_def check_floors_def Let_def)

text \<open>The cached workspace and floor are the ones a fresh computation gives.\<close>

lemma prepare_cached:
  assumes "cache_ok G t env ws cache" "prepare G t env ws cache raw = Inr (req, fl, cache')"
  shows "cache_ok G t env ws cache'"
    and "\<exists>fl' c. prepare G t env ws None raw = Inr (req, fl', c)
           \<and> judge G H t pr pol env ctx req fl' = judge G H t pr pol env ctx req fl"
proof -
  have "cache_ok G t env ws cache' \<and> (\<exists>fl' c. prepare G t env ws None raw = Inr (req, fl', c)
           \<and> judge G H t pr pol env ctx req fl' = judge G H t pr pol env ctx req fl)"
  proof (cases "capability raw \<in> FS_CAPABILITIES")
    case False
    then show ?thesis using assms by (auto simp: prepare_def judge_floor_irrelevant)
  next
    case True
    then show ?thesis
      using assms by (cases cache) (auto simp: prepare_def cache_ok_def fs_context_def split: sum.splits)
  qed
  then show "cache_ok G t env ws cache'"
    and "\<exists>fl' c. prepare G t env ws None raw = Inr (req, fl', c)
           \<and> judge G H t pr pol env ctx req fl' = judge G H t pr pol env ctx req fl" by auto
qed

lemma prepare_uncached:
  assumes "cache_ok G t env ws cache" "prepare G t env ws None raw = Inr (req, fl, c)"
  shows "\<exists>fl' c'. prepare G t env ws cache raw = Inr (req, fl', c')"
  using assms by (cases cache) (auto simp: prepare_def cache_ok_def fs_context_def split: sum.splits if_splits)

lemma judge_passes:
  assumes "cache_ok G t env ws cache" "prepare G t env ws cache raw = Inr (req, fl, cache')"
  shows "(\<exists>l. judge G H t pr pol env ctx req fl = Inr (Allow, l))
     \<longleftrightarrow> request_passes G H t pr pol env ctx ws raw"
proof -
  obtain fl' c where p: "prepare G t env ws None raw = Inr (req, fl', c)"
    and j: "judge G H t pr pol env ctx req fl' = judge G H t pr pol env ctx req fl"
    using prepare_cached(2)[OF assms, where H = H and pr = pr and pol = pol and ctx = ctx] by blast
  from p have "request_passes G H t pr pol env ctx ws raw
      = (\<exists>l. judge G H t pr pol env ctx req fl' = Inr (Allow, l))"
    by (simp add: request_passes_def judge_Allow)
  with j show ?thesis by simp
qed

lemma denied_not_Allow: "denied G n params d l evs env ws s = (res, s') \<Longrightarrow> g_decision res = Deny d"
  by (auto simp: denied_def split: prod.splits)

lemma gate_loop_Allow:
  "cache_ok G t env ws cache \<Longrightarrow>
   (\<exists>res s'. gate_loop G H sink t params pr pol env ctx ws reqs cache evs s = (Inr res, s')
      \<and> g_decision res = Allow)
   \<longleftrightarrow> (\<forall>raw \<in> set reqs. request_passes G H t pr pol env ctx ws raw)"
proof (induction reqs arbitrary: cache evs s)
  case (Cons raw reqs)
  show ?case
  proof (cases "prepare G t env ws cache raw")
    case (Inl e)
    have "\<not> request_passes G H t pr pol env ctx ws raw"
    proof
      assume "request_passes G H t pr pol env ctx ws raw"
      then obtain req fl c where "prepare G t env ws None raw = Inr (req, fl, c)"
        by (auto simp: request_passes_def split: sum.splits prod.splits)
      with prepare_uncached[OF Cons.prems] Inl show False by fastforce
    qed
    with Inl show ?thesis by simp
  next
    case (Inr x)
    then obtain req fl cache' where p: "prepare G t env ws cache raw = Inr (req, fl, cache')"
      by (cases x) auto
    note pass = judge_passes[OF Cons.prems p, of H pr pol ctx]
    show ?thesis
    proof (cases "\<exists>l. judge G H t pr pol env ctx req fl = Inr (Allow, l)")
      case True
      then obtain l where l: "judge G H t pr pol env ctx req fl = Inr (Allow, l)" by blast
      let ?ev = "decision_event pr (tool_name t) req Allow l"
      from Cons.IH[OF prepare_cached(1)[OF Cons.prems p], of "evs @ [?ev]" "safe_emit sink ?ev s"]
        p l pass True show ?thesis
        by (simp add: Let_def)
    next
      case False
      with p pass show ?thesis
        by (auto simp: Let_def dest: denied_not_Allow split: sum.splits decision.splits prod.splits)
    qed
  qed
qed simp

definition declared :: "gtool \<Rightarrow> json \<Rightarrow> (string, capability_request list) py" where
  "declared t params = (case t_declare t of None \<Rightarrow> Inr [] | Some f \<Rightarrow> f (params_dict params))"

lemma gate_call_Allow:
  "(\<exists>res s'. gate_call G H sink t params pr pol env ctx ws s = (Inr res, s') \<and> g_allowed res)
   \<longleftrightarrow> (\<exists>reqs. declared t params = Inr reqs
        \<and> (\<forall>raw \<in> set reqs. request_passes G H t (or_else pr AGENT_PRINCIPAL)
              (or_else pol (DefaultP default_new)) env ctx ws raw))"
proof (cases "declared t params")
  case (Inl e)
  then show ?thesis
    by (auto simp: gate_call_def declared_def[symmetric] Let_def g_allowed_def
        dest: denied_not_Allow split: prod.splits)
next
  case (Inr reqs)
  have "cache_ok G t env ws None" by (simp add: cache_ok_def)
  note gate_loop_Allow[OF this]
  with Inr show ?thesis
    by (simp add: gate_call_def declared_def[symmetric] Let_def g_allowed_def)
qed


subsection \<open>What a call leaves behind\<close>

text \<open>The request as the gate judges it (a file request is normalised), with the verdict and its layer.\<close>

definition verdict ::
  "gate_host \<Rightarrow> 'c hosts \<Rightarrow> gtool \<Rightarrow> principal \<Rightarrow> policy \<Rightarrow> gate_env option \<Rightarrow> 'c \<Rightarrow> ppath option
     \<Rightarrow> capability_request \<Rightarrow> (fs_error, capability_request \<times> decision \<times> layer) py" where
  "verdict G H t pr pol env ctx ws raw =
     (case prepare G t env ws None raw of
        Inl e \<Rightarrow> Inl e
      | Inr (req, fl, _) \<Rightarrow> map_sum id (Pair req) (judge G H t pr pol env ctx req fl))"

text \<open>\<open>ev\<close> is the event of the decision \<open>dec\<close>, taken at layer \<open>l\<close>, on the declared request \<open>raw\<close>.\<close>

definition records ::
  "gate_host \<Rightarrow> 'c hosts \<Rightarrow> gtool \<Rightarrow> principal \<Rightarrow> policy \<Rightarrow> gate_env option \<Rightarrow> 'c \<Rightarrow> ppath option
     \<Rightarrow> decision \<Rightarrow> layer \<Rightarrow> capability_request \<Rightarrow> event \<Rightarrow> bool" where
  "records G H t pr pol env ctx ws dec l raw ev \<longleftrightarrow>
     (\<exists>req. verdict G H t pr pol env ctx ws raw = Inr (req, dec, l)
        \<and> ev = decision_event pr (tool_name t) req dec l)"

text \<open>
  The events of the requests of a finished call: of an allowed call one allow event for each request, in their
  order; of a denied call one for each request before the denied one, and the deny event of that.
\<close>

definition trail_of ::
  "gate_host \<Rightarrow> 'c hosts \<Rightarrow> gtool \<Rightarrow> principal \<Rightarrow> policy \<Rightarrow> gate_env option \<Rightarrow> 'c \<Rightarrow> ppath option
     \<Rightarrow> capability_request list \<Rightarrow> decision \<Rightarrow> layer option \<Rightarrow> event list \<Rightarrow> bool" where
  "trail_of G H t pr pol env ctx ws reqs dec lay evs \<longleftrightarrow>
     (let ok = list_all2 (records G H t pr pol env ctx ws Allow PolicyL) in
      case dec of
        Allow \<Rightarrow> lay = None \<and> ok reqs evs
      | Deny d \<Rightarrow> (\<exists>before raw after l evs' ev.
          reqs = before @ raw # after \<and> lay = Some l \<and> evs = evs' @ [ev]
          \<and> ok before evs' \<and> records G H t pr pol env ctx ws (Deny d) l raw ev))"

text \<open>
  The deferred log after a finished call: nothing for an allowed one, for a denied one what \<open>record_gate_denial\<close>
  makes of its reason, whose answer is the flag of the result.
\<close>

definition deferral_of ::
  "gate_host \<Rightarrow> gtool \<Rightarrow> json \<Rightarrow> gate_env option \<Rightarrow> ppath option \<Rightarrow> decision \<Rightarrow> log_files \<Rightarrow> bool \<times> log_files" where
  "deferral_of G t params env ws dec f =
     (case dec of
        Allow \<Rightarrow> (False, f)
      | Deny d \<Rightarrow>
          record_gate_denial (gh_redact G) (gh_now G) (gh_io G) (deferred_work_dir env ws)
            (tool_name t) (raw_params params) (reason d) (Some (denied_capability d)) f)"

lemma safe_emit_simps [simp]:
  "gs_files (safe_emit sink ev s) = gs_files s"
  "gs_trace (safe_emit sink ev s) = gs_trace s @ filter sink [ev]"
  by (simp_all add: safe_emit_def)

lemma denied_files:
  assumes "denied G (tool_name t) params d l evs env ws s = (res, s')"
  shows "res = \<lparr>g_decision = Deny d, g_layer = Some l, g_events = evs, g_deferred = g_deferred res\<rparr>"
    "gs_trace s' = gs_trace s"
    "(g_deferred res, gs_files s') = deferral_of G t params env ws (Deny d) (gs_files s)"
  using assms by (auto simp: denied_def deferral_of_def split: prod.splits)

lemma verdict_cached:
  assumes "cache_ok G t env ws cache" "prepare G t env ws cache raw = Inr (req, fl, cache')"
    "judge G H t pr pol env ctx req fl = Inr (dec, l)"
  shows "verdict G H t pr pol env ctx ws raw = Inr (req, dec, l)"
  using prepare_cached(2)[OF assms(1,2), where H = H and pr = pr and pol = pol and ctx = ctx] assms(3)
  by (auto simp: verdict_def)

lemma gate_loop_trail:
  assumes "cache_ok G t env ws cache"
    "gate_loop G H sink t params pr pol env ctx ws reqs cache evs s = (Inr res, s')"
  shows "\<exists>new. g_events res = evs @ new \<and> gs_trace s' = gs_trace s @ filter sink new
     \<and> trail_of G H t pr pol env ctx ws reqs (g_decision res) (g_layer res) new
     \<and> (g_deferred res, gs_files s') = deferral_of G t params env ws (g_decision res) (gs_files s)"
  using assms
proof (induction reqs arbitrary: cache evs s)
  case Nil
  then show ?case by (auto simp: trail_of_def deferral_of_def)
next
  case (Cons raw reqs)
  from Cons.prems(2) obtain req fl cache' dec l where
    p: "prepare G t env ws cache raw = Inr (req, fl, cache')"
    and j: "judge G H t pr pol env ctx req fl = Inr (dec, l)"
    by (auto split: sum.splits prod.splits)
  let ?ev = "decision_event pr (tool_name t) req dec l"
  have v: "records G H t pr pol env ctx ws dec l raw ?ev"
    using verdict_cached[OF Cons.prems(1) p j] by (simp add: records_def)
  show ?case
  proof (cases dec)
    case Allow
    then have l: "l = PolicyL" using j judge_Allow[of G H t pr pol env ctx req fl l] by simp
    have g: "gate_loop G H sink t params pr pol env ctx ws reqs cache' (evs @ [?ev]) (safe_emit sink ?ev s)
         = (Inr res, s')" using Allow Cons.prems p j by (simp add: Let_def)
    from Cons.IH[OF prepare_cached(1)[OF Cons.prems(1) p] g] obtain new where
      n: "g_events res = evs @ ?ev # new" "gs_trace s' = gs_trace s @ filter sink (?ev # new)"
      "trail_of G H t pr pol env ctx ws reqs (g_decision res) (g_layer res) new"
      "(g_deferred res, gs_files s') = deferral_of G t params env ws (g_decision res) (gs_files s)"
      by auto
    have "trail_of G H t pr pol env ctx ws (raw # reqs) (g_decision res) (g_layer res) (?ev # new)"
      using n(3) v[unfolded Allow l] unfolding Allow l
      by (auto simp: trail_of_def Let_def split: decision.splits) (metis append_Cons list_all2_Cons)
    with n show ?thesis by blast
  next
    case (Deny d)
    with Cons.prems p j have
      "denied G (tool_name t) params d l (evs @ [?ev]) env ws (safe_emit sink ?ev s) = (res, s')"
      by (auto simp: Let_def split: prod.splits)
    note r = denied_files[OF this]
    have d: "g_decision res = Deny d" "g_layer res = Some l" "g_events res = evs @ [?ev]"
      by (subst r(1), simp)+
    have "trail_of G H t pr pol env ctx ws (raw # reqs) (Deny d) (Some l) [?ev]"
      using v[unfolded Deny] unfolding Deny trail_of_def Let_def
      by (auto intro!: exI[of _ "[]"] exI[of _ raw] exI[of _ reqs])
    with d r(2,3) show ?thesis by simp
  qed
qed

subsection \<open>Properties\<close>

lemma gate_call_passes:
  assumes "gate_call G H sink t params pr pol env ctx ws s = (Inr res, s')" "g_allowed res"
    and "declared t params = Inr reqs" "raw \<in> set reqs"
  shows "request_passes G H t (or_else pr AGENT_PRINCIPAL) (or_else pol (DefaultP default_new)) env ctx ws raw"
  using assms gate_call_Allow[of G H sink t params pr pol env ctx ws s] by auto

text \<open>
  Claim C1: the gate allows a call exactly when the tool's declaration succeeds and every
  declared request passes all four layers on every view of its path: no floor matches, strict
  mode does not refuse it, the plugin grant covers it and the policy says Allow. In
  particular no policy, grant or order of requests can waive a floor, and a raising
  declaration, policy or grant never lets a call through.
\<close>

theorem gate_allows_iff:
  "(\<exists>res s'. gate_call G H sink t params pr pol env ctx ws s = (Inr res, s') \<and> g_allowed res)
   \<longleftrightarrow> (\<exists>reqs. declared t params = Inr reqs
        \<and> (\<forall>raw \<in> set reqs. request_passes G H t (or_else pr AGENT_PRINCIPAL)
              (or_else pol (DefaultP default_new)) env ctx ws raw))"
  by (rule gate_call_Allow)

text \<open>
  Claim C23: every finished call is audited. An allowed call leaves exactly one allow event for each request the tool declares, in
  their order, each with the request as judged; a denied call leaves one for each request before the denied one and then the
  deny event of that request, with the layer, the capability and the marker of the denial in the result; a declaration that
  raises is denied with the single event of \<open>tool.capabilities\<close>. The trace receives those the sink accepts, and a
  failing sink changes nothing else. The deferred log is left alone by an allowed call; for a denied call it becomes
  what \<open>record_gate_denial\<close> makes of the denial's reason and capability: unchanged without a work directory,
  otherwise the outcome of appending one entry, and the result says whether that succeeded.
\<close>

theorem gate_call_audited:
  assumes "gate_call G H sink t params pr pol env ctx ws s = (Inr res, s')"
  shows "gs_trace s' = gs_trace s @ filter sink (g_events res)
    \<and> (case declared t params of
         Inl _ \<Rightarrow>
           (let p = or_else pr AGENT_PRINCIPAL; d = declaration_deny p (tool_name t) in
            g_decision res = Deny d \<and> g_layer res = Some GateL
            \<and> g_events res = [decision_event p (tool_name t) (CapabilityRequest ''tool.capabilities'' (tool_name t)) (Deny d) GateL])
       | Inr reqs \<Rightarrow>
           trail_of G H t (or_else pr AGENT_PRINCIPAL) (or_else pol (DefaultP default_new)) env ctx ws
             reqs (g_decision res) (g_layer res) (g_events res))
    \<and> (g_deferred res, gs_files s') = deferral_of G t params env ws (g_decision res) (gs_files s)"
proof (cases "declared t params")
  case (Inl e)
  let ?p = "or_else pr AGENT_PRINCIPAL"
  let ?d = "declaration_deny ?p (tool_name t)"
  let ?ev = "decision_event ?p (tool_name t) (CapabilityRequest ''tool.capabilities'' (tool_name t)) (Deny ?d) GateL"
  have "denied G (tool_name t) params ?d GateL [?ev] env ws (safe_emit sink ?ev s) = (res, s')"
    using assms Inl by (auto simp: gate_call_def declared_def[symmetric] Let_def split: prod.splits)
  note r = denied_files[OF this]
  have "g_decision res = Deny ?d" "g_layer res = Some GateL" "g_events res = [?ev]"
    by (subst r(1), simp)+
  with r(2,3) Inl show ?thesis by (simp add: Let_def)
next
  case (Inr reqs)
  have "cache_ok G t env ws None" by (simp add: cache_ok_def)
  from gate_loop_trail[OF this] Inr assms show ?thesis
    by (fastforce simp: gate_call_def declared_def[symmetric] Let_def)
qed

lemma fs_views_capability: "v \<in> set (views_of os req) \<Longrightarrow> capability v = capability req"
  by (auto simp: views_of_def fs_views_def Let_def split: if_splits option.splits)

lemma views_of_not_Nil: "views_of os req \<noteq> []"
  by (auto simp: views_of_def fs_views_def Let_def split: option.splits)

lemma prepare_capability: "prepare G t env ws c raw = Inr (req, fl, c') \<Longrightarrow> capability req = capability raw"
  by (auto simp: prepare_def split: if_splits option.splits sum.splits)

lemma request_passes_parent:
  assumes "kernel_policy parent" "attenuate H parent S narrower = Inr child"
    and "request_passes G H t pr child env ctx ws raw"
  shows "request_passes G H t pr parent env ctx ws raw" "capability raw \<in> S"
proof -
  obtain req fl c where p: "prepare G t env ws None raw = Inr (req, fl, c)"
    using assms(3) by (auto simp: request_passes_def split: sum.splits prod.splits)
  note a = attenuate_sound[OF assms(1,2)]
  from p assms(3) show "request_passes G H t pr parent env ctx ws raw"
    by (auto simp: request_passes_def list_all_iff dest: a(2))
  obtain v where v: "v \<in> set (views_of (gh_os G) req)"
    using views_of_not_Nil[of "gh_os G" req] by (cases "views_of (gh_os G) req") auto
  with p assms(3) have "decide H child pr v ctx = Inr Allow"
    by (auto simp: request_passes_def list_all_iff)
  with a(1) v p show "capability raw \<in> S"
    by (metis fs_views_capability prepare_capability)
qed

text \<open>
  A sub-agent cannot do through the gate what its parent cannot. If a call passes
  under a policy attenuated from a kernel policy, the same call passes under the parent's
  policy, and every capability it declares was in the requested set.
\<close>

lemma attenuated_gate_bounded:
  assumes "kernel_policy parent" and "attenuate H parent S narrower = Inr child"
    and "gate_call G H sink t params pr (Some child) env ctx ws s = (Inr res, s')" "g_allowed res"
  shows "(\<exists>res' s''. gate_call G H sink' t params pr (Some parent) env ctx ws s = (Inr res', s'')
            \<and> g_allowed res')
       \<and> (\<exists>reqs. declared t params = Inr reqs \<and> capability ` set reqs \<subseteq> S)"
proof -
  obtain reqs where r: "declared t params = Inr reqs"
    and pass: "\<forall>raw \<in> set reqs. request_passes G H t (or_else pr AGENT_PRINCIPAL) child env ctx ws raw"
    using gate_call_Allow[of G H sink t params pr "Some child" env ctx ws s] assms(3,4)
    by (auto simp: or_else_def)
  have "\<forall>raw \<in> set reqs. request_passes G H t (or_else pr AGENT_PRINCIPAL) parent env ctx ws raw
      \<and> capability raw \<in> S"
    using pass request_passes_parent[OF assms(1,2)] by blast
  then show ?thesis
    using r gate_call_Allow[of G H sink' t params pr "Some parent" env ctx ws s]
    by (auto simp: or_else_def)
qed


text \<open>The resolved view of a request on an existing directory.\<close>

lemma directory_view:
  assumes "capability req \<in> FS_CAPABILITIES" "resource req \<noteq> []"
    and "realpath os (parse_path (resource req)) = Some r" "is_dir os r"
  shows "\<lparr>capability = capability req, resource = path_str r, subtree = True\<rparr> \<in> set (views_of os req)"
  using assms by (auto simp: views_of_def fs_views_def Let_def)

definition rule_admits :: "string \<Rightarrow> string \<Rightarrow> string \<Rightarrow> bool" where
  "rule_admits cap path rule =
     (case str_partition (CHR '':'') rule of
        (c, found, pat) \<Rightarrow> c = cap \<and> (\<not> found \<or> fnmatchcase path pat))"

lemma rule_covers_beneath:
  assumes "rule_covers req rule" "subtree req" "resource req \<noteq> []" "under (resource req) path"
  shows "rule_admits (capability req) path rule"
  using assms resource_covered_beneath by (auto simp: rule_covers_def rule_admits_def)

text \<open>
  A directory cannot be used to reach past a plugin's grant or a deny rule. When
  the gate lets a plugin tool's file request on an existing directory through, then for
  every path beneath the directory it resolves to, some rule of the grant covers that path,
  and a policy without host code allows the same capability on it.
\<close>

lemma plugin_directory_contained:
  assumes "gate_call G H sink t params pr (Some pol) env ctx ws s = (Inr res, s')" "g_allowed res"
    and "declared t params = Inr reqs" "raw \<in> set reqs" "t_grant t = Grant rules" "host_free pol"
    and "prepare G t env ws None raw = Inr (req, fl, c)"
    and "capability req \<in> FS_CAPABILITIES" "resource req \<noteq> []"
    and "realpath (gh_os G) (parse_path (resource req)) = Some r" "is_dir (gh_os G) r"
    and "path_str r \<noteq> []" "under (path_str r) path"
  shows "(\<exists>rule \<in> set rules. rule_admits (capability req) path rule)
       \<and> decide H pol (or_else pr AGENT_PRINCIPAL)
           \<lparr>capability = capability req, resource = path, subtree = b\<rparr> ctx = Inr Allow"
proof -
  let ?v = "\<lparr>capability = capability req, resource = path_str r, subtree = True\<rparr>"
  have "request_passes G H t (or_else pr AGENT_PRINCIPAL) pol env ctx ws raw"
    using gate_call_Allow[of G H sink t params pr "Some pol" env ctx ws s] assms(1-4)
    by (auto simp: or_else_def)
  with directory_view[OF assms(8-11)] assms(7)
  have g: "plugin_grant_deny t (or_else pr AGENT_PRINCIPAL) ?v = None"
    and d: "decide H pol (or_else pr AGENT_PRINCIPAL) ?v ctx = Inr Allow"
    by (auto simp: request_passes_def list_all_iff)
  from g assms(5) obtain rule where "rule \<in> set rules" "rule_covers ?v rule"
    by (auto simp: plugin_grant_deny_def list_ex_iff split: if_splits)
  with rule_covers_beneath[of ?v rule path] assms(12,13)
  have "\<exists>rule \<in> set rules. rule_admits (capability req) path rule"
    by auto
  moreover have "decide H pol (or_else pr AGENT_PRINCIPAL) (?v\<lparr>resource := path, subtree := b\<rparr>) ctx = Inr Allow"
    using decide_subtree[OF assms(6) d, of path b] assms(12,13) by simp
  ultimately show ?thesis by simp
qed

lemma parse_path_tilde:
  assumes "prefix ''~'' res"
  shows "\<not> is_absolute (parse_path res)" "\<exists>c cs. pp_parts (parse_path res) = c # cs \<and> prefix ''~'' c"
proof -
  obtain s where s: "res = CHR ''~'' # s" using assms by (cases res) auto
  obtain w ws where "split_on (CHR ''/'') s = w # ws" by (cases "split_on (CHR ''/'') s") auto
  with s show "\<not> is_absolute (parse_path res)" "\<exists>c cs. pp_parts (parse_path res) = c # cs \<and> prefix ''~'' c"
    by (auto simp: parse_path_def path_root_def is_absolute_def is_part_def)
qed

lemma unknown_user_raises:
  assumes "prefix ''~'' res" "home_of os (hd (pp_parts (parse_path res))) = None"
  shows "expanduser os (parse_path res) = Inl FsRuntimeError"
  using parse_path_tilde[OF assms(1)] assms(2) by (auto simp: expanduser_def)

text \<open>
  The gate raises instead of answering when a file tool names the home of a user
  that does not exist (\<open>~ghost/notes\<close>): normalisation keeps the text, and the floor check
  expands it again without catching the \<open>RuntimeError\<close>. Nothing runs, but no decision is
  audited or logged either.
\<close>

lemma gate_raises_on_unknown_home:
  assumes "declared t params = Inr (raw # reqs)" "capability raw \<in> FS_CAPABILITIES"
    and "strip (resource raw) = res" "prefix ''~'' res" "home_of (gh_os G) (hd (pp_parts (parse_path res))) = None"
    and "fs_context G t env ws = Inr ctxt"
  shows "gate_call G H sink t params pr pol env ctx ws s = (Inl FsRuntimeError, s)"
proof -
  have e: "expanduser (gh_os G) (parse_path res) = Inl FsRuntimeError"
    using unknown_user_raises assms(4,5) by blast
  have ne: "res \<noteq> []" using assms(4) by auto
  obtain cws fl where c: "ctxt = (cws, fl)" by fastforce
  have n: "normalize_fs_resource (gh_os G) (resource raw) cws = res"
    using e ne assms(3) by (simp add: normalize_fs_resource_def against_def)
  have p: "prepare G t env ws None raw =
      Inr (CapabilityRequest (capability raw) res, fl, Some (cws, fl))"
    using assms(2,6) c n by (auto simp: prepare_def fs_context_def split: sum.splits)
  have "capability raw \<noteq> ''plugin.load''" "capability raw \<notin> EXEC_CAPABILITIES"
    using assms(2) by (auto simp: FS_CAPABILITIES_def EXEC_CAPABILITIES_def)
  with assms(2) e ne have "check_floors (gh_os G) (gh_exec_hit G) p' (CapabilityRequest (capability raw) res) fl
      = Inl FsRuntimeError" for p'
    by (simp add: check_floors_def fs_floor_def floor_reason_def floor_matches_def)
  then show ?thesis
    using assms(1) p by (simp add: gate_call_def declared_def Let_def judge_def)
qed

subsection \<open>Witnesses\<close>

definition sample_host :: gate_host where
  "sample_host = \<lparr>gh_os = plain_os, gh_trust_dir = parse_path ''/pkg/trust'', gh_config = None,
     gh_discover = (\<lambda>_. []), gh_scope = None, gh_exec_hit = (\<lambda>_. None), gh_redact = (\<lambda>s. s),
     gh_now = ''t'', gh_io = IoOk\<rparr>"

definition sample_tool :: "grant \<Rightarrow> capability_request list \<Rightarrow> gtool" where
  "sample_tool g reqs = \<lparr>t_name = Some ''read_file'', t_class = ''ReadFile'',
     t_declare = Some (\<lambda>_. Inr reqs), t_sandbox_active = None, t_grant = g, t_workspace = None\<rparr>"

definition sample_env :: gate_env where
  "sample_env = \<lparr>ge_strict = True, ge_paths = sample_paths, ge_trust_dirs = []\<rparr>"

definition sample_state :: gate_state where
  "sample_state = \<lparr>gs_files = (\<lambda>_. None), gs_trace = []\<rparr>"

definition sample_call :: "gtool \<Rightarrow> policy \<Rightarrow> gate_env option \<Rightarrow> (fs_error, gate_result) py \<times> gate_state" where
  "sample_call t pol env = gate_call sample_host no_hosts (\<lambda>_. True) t (JDict []) None (Some pol)
     env () (Some (parse_path ''/srv/w'')) sample_state"


definition sample_runs :: "capability_request list" where
  "sample_runs = [CapabilityRequest ''exec.run'' ''ls'']"

definition sample_reads :: "string \<Rightarrow> capability_request list" where
  "sample_reads res = [CapabilityRequest ''fs.read'' res]"

lemma gate_allows_iff_witness:
  "\<exists>res s'. sample_call (sample_tool NoGrant sample_runs) (DefaultP default_new) None = (Inr res, s')
      \<and> g_allowed res"
proof -
  have "declared (sample_tool NoGrant sample_runs) (JDict []) = Inr sample_runs"
    by (simp add: declared_def sample_tool_def)
  moreover have "request_passes sample_host no_hosts (sample_tool NoGrant sample_runs) AGENT_PRINCIPAL
      (DefaultP default_new) None () (Some (parse_path ''/srv/w'')) (CapabilityRequest ''exec.run'' ''ls'')"
    by code_simp
  ultimately show ?thesis
    unfolding sample_call_def by (intro gate_allows_iff[THEN iffD2]) (simp add: sample_runs_def or_else_def)
qed

lemma sample_denied_call:
  "\<exists>res s'. sample_call (sample_tool NoGrant sample_runs) (DefaultP default_new) (Some sample_env) = (Inr res, s')
     \<and> g_layer res = Some GateL"
proof -
  let ?t = "sample_tool NoGrant sample_runs" and ?q = "CapabilityRequest ''exec.run'' ''ls''"
  have "check_floors (gh_os sample_host) (gh_exec_hit sample_host) AGENT_PRINCIPAL ?q no_floor = Inr None"
    by code_simp
  then have "\<exists>d. judge sample_host no_hosts ?t AGENT_PRINCIPAL (DefaultP default_new)
      (Some sample_env) () ?q no_floor = Inr (Deny d, GateL)"
    by (simp add: judge_def strict_sandbox_deny_def is_strict_def sample_env_def
        SANDBOX_REQUIRED_CAPABILITIES_def tool_sandboxed_def sample_tool_def)
  then obtain d where "judge sample_host no_hosts ?t AGENT_PRINCIPAL (DefaultP default_new)
      (Some sample_env) () ?q no_floor = Inr (Deny d, GateL)" by blast
  moreover have "t_declare ?t = Some (\<lambda>_. Inr [?q])" by (simp add: sample_tool_def sample_runs_def)
  ultimately show ?thesis
    by (simp add: sample_call_def gate_call_def or_else_def prepare_def FS_CAPABILITIES_def Let_def
        denied_def split: prod.splits)
qed

lemma gate_call_audited_witness:
  "\<exists>res s'. sample_call (sample_tool NoGrant sample_runs) (DefaultP default_new) (Some sample_env) = (Inr res, s')
     \<and> g_layer res = Some GateL
     \<and> gs_trace s' = filter (\<lambda>_. True) (g_events res)
     \<and> trail_of sample_host no_hosts (sample_tool NoGrant sample_runs) AGENT_PRINCIPAL (DefaultP default_new)
         (Some sample_env) () (Some (parse_path ''/srv/w'')) sample_runs (g_decision res) (Some GateL) (g_events res)"
proof -
  obtain res s' where c: "sample_call (sample_tool NoGrant sample_runs) (DefaultP default_new) (Some sample_env)
      = (Inr res, s')" and r: "g_layer res = Some GateL"
    using sample_denied_call by blast
  have "declared (sample_tool NoGrant sample_runs) (JDict []) = Inr sample_runs"
    by (simp add: declared_def sample_tool_def)
  with gate_call_audited[OF c[unfolded sample_call_def]] c r show ?thesis
    by (auto simp: or_else_def sample_state_def)
qed

definition sample_child :: policy where
  "sample_child = (case attenuate no_hosts sample_parent {''exec.run'', ''fs.read''} None of
     Inr c \<Rightarrow> c | Inl _ \<Rightarrow> sample_parent)"

lemma sample_child: "attenuate no_hosts sample_parent {''exec.run'', ''fs.read''} None = Inr sample_child"
  by (simp add: sample_child_def sample_parent_def)

lemma sample_allowed:
  assumes "declared t (JDict []) = Inr [raw]"
    and "request_passes sample_host no_hosts t AGENT_PRINCIPAL pol env () (Some (parse_path ''/srv/w'')) raw"
  shows "\<exists>res s'. sample_call t pol env = (Inr res, s') \<and> g_allowed res"
  unfolding sample_call_def using assms by (intro gate_call_Allow[THEN iffD2]) (simp add: or_else_def)

lemma attenuated_gate_bounded_witness:
  "\<exists>res s'. sample_call (sample_tool NoGrant sample_runs) sample_parent None = (Inr res, s') \<and> g_allowed res"
proof -
  have k: "kernel_policy sample_parent" by (simp add: kernel_policy_def sample_parent_def)
  have "\<exists>res s'. sample_call (sample_tool NoGrant sample_runs) sample_child None = (Inr res, s') \<and> g_allowed res"
  proof (rule sample_allowed)
    show "declared (sample_tool NoGrant sample_runs) (JDict []) = Inr [CapabilityRequest ''exec.run'' ''ls'']"
      by (simp add: declared_def sample_tool_def sample_runs_def)
    show "request_passes sample_host no_hosts (sample_tool NoGrant sample_runs) AGENT_PRINCIPAL sample_child
        None () (Some (parse_path ''/srv/w'')) (CapabilityRequest ''exec.run'' ''ls'')"
      by code_simp
  qed
  then obtain res s' where c: "sample_call (sample_tool NoGrant sample_runs) sample_child None = (Inr res, s')"
    and g: "g_allowed res" by blast
  from attenuated_gate_bounded[OF k sample_child c[unfolded sample_call_def] g]
  show ?thesis unfolding sample_call_def by blast
qed

lemma plugin_directory_contained_witness:
  "rule_admits ''fs.read'' ''/srv/w/dir/x'' ''fs.read:/srv/w/*''
   \<and> decide no_hosts sample_parent AGENT_PRINCIPAL (CapabilityRequest ''fs.read'' ''/srv/w/dir/x'') () = Inr Allow"
proof -
  let ?t = "sample_tool (Grant [''fs.read:/srv/w/*'']) (sample_reads ''dir'')"
  have d: "declared ?t (JDict []) = Inr (sample_reads ''dir'')"
    by (simp add: declared_def sample_tool_def)
  have "\<exists>res s'. sample_call ?t sample_parent None = (Inr res, s') \<and> g_allowed res"
    using d unfolding sample_reads_def by (rule sample_allowed) code_simp
  then obtain res s' where c: "sample_call ?t sample_parent None = (Inr res, s')" and g: "g_allowed res" by blast
  have r: "CapabilityRequest ''fs.read'' ''dir'' \<in> set (sample_reads ''dir'')"
    by (simp add: sample_reads_def)
  have h: "host_free sample_parent" by (simp add: sample_parent_def)
  have "\<exists>fl c. prepare sample_host ?t None (Some (parse_path ''/srv/w'')) None (CapabilityRequest ''fs.read'' ''dir'')
      = Inr (CapabilityRequest ''fs.read'' ''/srv/w/dir'', fl, c)"
    (is "\<exists>fl c. ?p = _")
  proof -
    have "(case ?p of Inl _ \<Rightarrow> False | Inr (q, _) \<Rightarrow> q = CapabilityRequest ''fs.read'' ''/srv/w/dir'')"
      by code_simp
    then show ?thesis by (auto split: sum.splits prod.splits)
  qed
  then obtain fl cc where p: "prepare sample_host ?t None (Some (parse_path ''/srv/w'')) None
      (CapabilityRequest ''fs.read'' ''dir'') = Inr (CapabilityRequest ''fs.read'' ''/srv/w/dir'', fl, cc)" by blast
  let ?q = "CapabilityRequest ''fs.read'' ''/srv/w/dir''"
  have q: "capability ?q \<in> FS_CAPABILITIES" "resource ?q \<noteq> []" by (simp_all add: FS_CAPABILITIES_def)
  have v: "realpath (gh_os sample_host) (parse_path (resource ?q)) = Some (parse_path ''/srv/w/dir'')"
      "is_dir (gh_os sample_host) (parse_path ''/srv/w/dir'')" by code_simp+
  have u: "path_str (parse_path ''/srv/w/dir'') \<noteq> []"
      "under (path_str (parse_path ''/srv/w/dir'')) ''/srv/w/dir/x''" by code_simp+
  have "t_grant ?t = Grant [''fs.read:/srv/w/*'']" by (simp add: sample_tool_def)
  from plugin_directory_contained[OF c[unfolded sample_call_def] g d r this h p q v u, of False]
  show ?thesis by (simp add: or_else_def)
qed

lemma gate_raises_on_unknown_home_witness:
  "gate_call sample_host no_hosts (\<lambda>_. True) (sample_tool NoGrant (sample_reads ''~ghost/notes'')) (JDict [])
     None None (Some sample_env) () None sample_state = (Inl FsRuntimeError, sample_state)"
proof -
  let ?t = "sample_tool NoGrant (sample_reads ''~ghost/notes'')"
  have d: "declared ?t (JDict []) = Inr (CapabilityRequest ''fs.read'' ''~ghost/notes'' # [])"
    by (simp add: declared_def sample_tool_def sample_reads_def)
  have f: "capability (CapabilityRequest ''fs.read'' ''~ghost/notes'') \<in> FS_CAPABILITIES"
    by (simp add: FS_CAPABILITIES_def)
  have h: "strip (resource (CapabilityRequest ''fs.read'' ''~ghost/notes'')) = ''~ghost/notes''"
      "prefix ''~'' ''~ghost/notes''"
      "home_of (gh_os sample_host) (hd (pp_parts (parse_path ''~ghost/notes''))) = None" by code_simp+
  have "(case fs_context sample_host ?t (Some sample_env) None of Inl _ \<Rightarrow> False | Inr _ \<Rightarrow> True)"
    by code_simp
  then obtain x where "fs_context sample_host ?t (Some sample_env) None = Inr x"
    by (auto split: sum.splits)
  then show ?thesis by (rule gate_raises_on_unknown_home[OF d f h])
qed

end
