(* ===== verification/Solvers.thy ===== *)
theory Solvers
  imports Prelude
begin

text \<open>
  The deterministic-solver registry, \<open>nanobot/kernel/solvers.py\<close>, and the solver step of
  \<open>nanobot/kernel/llm.py\<close>. A solver is host code: a function of the payload with the outcomes the
  registry tells apart. The JSON-Schema validator and the coercion to the caller's model class
  are arguments that may raise.
\<close>

subsection \<open>The registry\<close>

text \<open>What calling a solver gives: an answer, \<open>None\<close>, another type, or an exception.\<close>

datatype 'v outcome = Solved 'v string | NoAnswer | NotSolved | Raised

record ('p, 's, 'v) solver =
  sv_fn :: "'p \<Rightarrow> 'v outcome"
  sv_schema :: "'s option"
  sv_name :: string

type_synonym ('p, 's, 'v) registry = "(string, ('p, 's, 'v) solver list) dict"

definition solvers_for :: "('p, 's, 'v) registry \<Rightarrow> string \<Rightarrow> ('p, 's, 'v) solver list" where
  "solvers_for R task = (case dict_get R task of None \<Rightarrow> [] | Some es \<Rightarrow> es)"

text \<open>\<open>register\<close>: a \<open>ValueError\<close> for an empty task type, else the solver goes last.\<close>

definition register_solver ::
  "string \<Rightarrow> ('p, 's, 'v) solver \<Rightarrow> ('p, 's, 'v) registry \<Rightarrow> (unit, ('p, 's, 'v) registry) py" where
  "register_solver task e R =
     (if task = [] then Inl () else Inr (dict_set R task (solvers_for R task @ [e])))"

definition has_solver :: "('p, 's, 'v) registry \<Rightarrow> string \<Rightarrow> bool" where
  "has_solver R task \<longleftrightarrow> solvers_for R task \<noteq> []"

definition clear_solvers :: "('p, 's, 'v) registry \<Rightarrow> ('p, 's, 'v) registry" where
  "clear_solvers R = []"

text \<open>\<open>try_solve\<close>: one pass over the solvers; \<open>errors\<close> is the schema validator.\<close>

fun solve_loop ::
  "('p \<Rightarrow> 's \<Rightarrow> (unit, string list) py) \<Rightarrow> 'p \<Rightarrow> ('p, 's, 'v) solver list \<Rightarrow> ('v \<times> string) option" where
  "solve_loop errors p [] = None"
| "solve_loop errors p (e # es) =
     (case (case sv_schema e of None \<Rightarrow> Inr [] | Some s \<Rightarrow> errors p s) of
        Inl _ \<Rightarrow> solve_loop errors p es
      | Inr (_ # _) \<Rightarrow> solve_loop errors p es
      | Inr [] \<Rightarrow>
          (case sv_fn e p of
             Raised \<Rightarrow> solve_loop errors p es
           | NoAnswer \<Rightarrow> solve_loop errors p es
           | NotSolved \<Rightarrow> solve_loop errors p es
           | Solved v n \<Rightarrow> Some (v, n)))"

definition try_solve ::
  "('p \<Rightarrow> 's \<Rightarrow> (unit, string list) py) \<Rightarrow> ('p, 's, 'v) registry \<Rightarrow> string \<Rightarrow> 'p \<Rightarrow> ('v \<times> string) option" where
  "try_solve errors R task p = solve_loop errors p (solvers_for R task)"

text \<open>\<open>solve_deterministic\<close>: a solved value that does not coerce falls through to the model.\<close>

definition solve_deterministic ::
  "('p \<Rightarrow> 's \<Rightarrow> (unit, string list) py) \<Rightarrow> ('v \<Rightarrow> (unit, 'v) py) \<Rightarrow> ('p, 's, 'v) registry
     \<Rightarrow> string \<Rightarrow> 'p \<Rightarrow> ('v \<times> string) option" where
  "solve_deterministic errors coerce R task p =
     (case try_solve errors R task p of
        None \<Rightarrow> None
      | Some (v, n) \<Rightarrow> (case coerce v of Inl _ \<Rightarrow> None | Inr v' \<Rightarrow> Some (v', n)))"

subsection \<open>Properties\<close>

text \<open>The specification of one solver: its schema accepts the payload and it answers.\<close>

definition answers :: "('p \<Rightarrow> 's \<Rightarrow> (unit, string list) py) \<Rightarrow> 'p \<Rightarrow> ('p, 's, 'v) solver \<Rightarrow> bool" where
  "answers errors p e \<longleftrightarrow>
     (case sv_schema e of None \<Rightarrow> True | Some s \<Rightarrow> errors p s = Inr [])
     \<and> (case sv_fn e p of Solved _ _ \<Rightarrow> True | _ \<Rightarrow> False)"

definition answer_of :: "'p \<Rightarrow> ('p, 's, 'v) solver \<Rightarrow> ('v \<times> string) option" where
  "answer_of p e = (case sv_fn e p of Solved v n \<Rightarrow> Some (v, n) | _ \<Rightarrow> None)"

lemma solve_loop_find:
  "solve_loop errors p es = Option.bind (find (answers errors p) es) (answer_of p)"
  by (induction es)
    (auto simp: answers_def answer_of_def split: option.splits sum.splits list.splits outcome.splits)

lemma find_answers: "find (answers errors p) es = Some e \<Longrightarrow> \<exists>v n. answer_of p e = Some (v, n)"
  by (drule find_SomeD) (auto simp: answers_def answer_of_def split: outcome.splits)

text \<open>
  The registry answers with the first solver, in registration order, whose schema
  accepts the payload and that returns a \<open>Solved\<close>; broken solvers and rejected payloads are
  passed over, and registering one more solver never changes an answer already given for its
  task type nor anything for other task types.
\<close>

lemma first_solver_wins:
  assumes "register_solver task e R = Inr R'"
  shows "try_solve errors R task p = Option.bind (find (answers errors p) (solvers_for R task)) (answer_of p)
    \<and> try_solve errors R' task p =
        (case try_solve errors R task p of
           Some a \<Rightarrow> Some a
         | None \<Rightarrow> if answers errors p e then answer_of p e else None)
    \<and> (task' \<noteq> task \<longrightarrow> try_solve errors R' task' p = try_solve errors R task' p)"
proof -
  have R': "solvers_for R' task = solvers_for R task @ [e]"
    "task' \<noteq> task \<Longrightarrow> solvers_for R' task' = solvers_for R task'"
    using assms by (auto simp: register_solver_def solvers_for_def split: if_splits)
  then show ?thesis
    by (auto simp: try_solve_def solve_loop_find find_append split: option.splits
        dest: find_answers)
qed

lemma first_solver_wins_witness:
  "try_solve (\<lambda>p s. Inr []) [(''t'', [\<lparr>sv_fn = (\<lambda>p. Raised), sv_schema = None, sv_name = ''a''\<rparr>,
      \<lparr>sv_fn = (\<lambda>p. Solved (p + 1) ''b''), sv_schema = None, sv_name = ''b''\<rparr>])] ''t'' (2::int) = Some (3, ''b'')"
proof -
  let ?a = "\<lparr>sv_fn = (\<lambda>p::int. Raised), sv_schema = None :: unit option, sv_name = ''a''\<rparr>"
  let ?b = "\<lparr>sv_fn = (\<lambda>p. Solved (p + 1) ''b''), sv_schema = None, sv_name = ''b''\<rparr>"
  have "register_solver ''t'' ?b [(''t'', [?a])] = Inr [(''t'', [?a, ?b])]"
    by (simp add: register_solver_def solvers_for_def)
  from first_solver_wins[OF this, of "\<lambda>p s. Inr []" 2 "''u''"] show ?thesis
    by (simp add: try_solve_def solvers_for_def answers_def answer_of_def)
qed

end
