(* ===== verification/Router.thy ===== *)
theory Router
  imports Gate Solvers
begin

text \<open>
  The cost-aware router, \<open>nanobot/kernel/router.py\<close>: solvers first, then the start tier, then
  verified escalation up the ladder of configured tiers, with the slot's ceiling guarded by the
  capability gate. Tiers are the four literals of the configuration schema. The model call, the
  verifier and the gate's surroundings are parameters; the state they act on is passed along.
\<close>

subsection \<open>Tiers\<close>

datatype tier = Local | Fast | Standard | Frontier

fun tier_rank :: "tier \<Rightarrow> nat" where
  "tier_rank Local = 0"
| "tier_rank Fast = 1"
| "tier_rank Standard = 2"
| "tier_rank Frontier = 3"

fun tier_name :: "tier \<Rightarrow> string" where
  "tier_name Local = ''local''"
| "tier_name Fast = ''fast''"
| "tier_name Standard = ''standard''"
| "tier_name Frontier = ''frontier''"

definition TIER_ORDER :: "tier list" where "TIER_ORDER = [Local, Fast, Standard, Frontier]"
definition DEFAULT_START_TIER :: tier where "DEFAULT_START_TIER = Fast"
definition MODEL_DISPATCH :: string where "MODEL_DISPATCH = ''model.dispatch''"

instantiation tier :: linorder
begin

definition less_eq_tier :: "tier \<Rightarrow> tier \<Rightarrow> bool" where
  "less_eq_tier s t \<longleftrightarrow> tier_rank s \<le> tier_rank t"

definition less_tier :: "tier \<Rightarrow> tier \<Rightarrow> bool" where
  "less_tier s t \<longleftrightarrow> tier_rank s < tier_rank t"

instance
proof
  fix s t u :: tier
  show "(s < t) = (s \<le> t \<and> \<not> t \<le> s)" by (auto simp: less_eq_tier_def less_tier_def)
  show "s \<le> s" by (simp add: less_eq_tier_def)
  show "s \<le> t \<Longrightarrow> t \<le> u \<Longrightarrow> s \<le> u" by (simp add: less_eq_tier_def)
  show "s \<le> t \<Longrightarrow> t \<le> s \<Longrightarrow> s = t" by (cases s; cases t) (simp_all add: less_eq_tier_def)
  show "s \<le> t \<or> t \<le> s" by (auto simp: less_eq_tier_def)
qed

end

lemma tier_less_iff: "s < t \<longleftrightarrow> tier_rank s < tier_rank t" by (rule less_tier_def)
lemma tier_le_iff: "s \<le> t \<longleftrightarrow> tier_rank s \<le> tier_rank t" by (rule less_eq_tier_def)

lemma tier_rank_inj [simp]: "tier_rank s = tier_rank t \<longleftrightarrow> s = t"
  by (cases s; cases t) simp_all

lemma tier_name_inj [simp]: "tier_name s = tier_name t \<longleftrightarrow> s = t"
  by (cases s; cases t) simp_all

lemma in_TIER_ORDER [simp]: "t \<in> set TIER_ORDER"
  by (cases t) (simp_all add: TIER_ORDER_def)

subsection \<open>The ladder\<close>

text \<open>\<open>TierLadder\<close>: pairs of tier and preset name, cheapest first.\<close>

type_synonym ladder = "(tier \<times> string) list"

text \<open>\<open>from_config\<close>: of the presets with a tier, the first of each, in the order of the tiers.\<close>

definition first_preset :: "(string \<times> tier option) list \<Rightarrow> tier \<Rightarrow> string option" where
  "first_preset presets t = map_option fst (find (\<lambda>(_, t'). t' = Some t) presets)"

definition from_config :: "(string \<times> tier option) list \<Rightarrow> ladder" where
  "from_config presets =
     concat (map (\<lambda>t. case first_preset presets t of None \<Rightarrow> [] | Some n \<Rightarrow> [(t, n)]) TIER_ORDER)"

definition tiers :: "ladder \<Rightarrow> tier list" where "tiers l = map fst l"

definition preset_for :: "ladder \<Rightarrow> tier \<Rightarrow> string option" where "preset_for l t = map_of l t"

definition next_above :: "ladder \<Rightarrow> tier \<Rightarrow> tier option" where
  "next_above l t = find (\<lambda>t'. tier_rank t' > tier_rank t) (tiers l)"

record slot_route =
  sr_ceiling :: "tier option"
  sr_start :: "tier option"

definition slot_route_of :: "(string, slot_route) dict \<Rightarrow> string \<Rightarrow> tier option \<times> tier option" where
  "slot_route_of slots slot =
     (case dict_get slots slot of None \<Rightarrow> (None, None) | Some r \<Rightarrow> (sr_ceiling r, sr_start r))"

definition within :: "tier \<Rightarrow> tier option \<Rightarrow> bool" where
  "within t ceiling = (case ceiling of None \<Rightarrow> True | Some c \<Rightarrow> tier_rank t \<le> tier_rank c)"

datatype 'e route_error = SlotEmpty | NoPreset string | DispatchRaised 'e | GateRaised fs_error

text \<open>
  \<open>_start_tier\<close>: \<open>requested\<close> is the caller's \<open>tier=\<close> (any text) or the slot's start; when there is
  one it is explicit.
\<close>

definition start_tier :: "ladder \<Rightarrow> string option \<Rightarrow> tier option \<Rightarrow> ('e route_error, tier option) py" where
  "start_tier l requested ceiling =
     (if l = [] then Inr None
      else (case requested of
        Some r \<Rightarrow> (case find (\<lambda>t. tier_name t = r) (tiers l) of
                     None \<Rightarrow> Inl (NoPreset r) | Some t \<Rightarrow> Inr (Some t))
      | None \<Rightarrow>
          let target = (case ceiling of
                          Some c \<Rightarrow> if tier_rank DEFAULT_START_TIER > tier_rank c then c else DEFAULT_START_TIER
                        | None \<Rightarrow> DEFAULT_START_TIER);
              inside = filter (\<lambda>t. within t ceiling) (tiers l)
          in Inr (Some (if inside = [] then hd (tiers l)
                        else (case find (\<lambda>t. tier_rank t \<ge> tier_rank target) inside of
                                Some t \<Rightarrow> t | None \<Rightarrow> last inside)))))"

subsection \<open>Results\<close>

datatype route_check = Untiered | NoCeiling | WithinCeiling | Justified | PolicyCheck

record attempt =
  ra_tier :: "tier option"
  ra_preset :: "string option"
  ra_check :: route_check
  ra_verified :: "bool option"

record escalation =
  esc_from :: tier
  esc_to :: tier
  esc_reason :: string
  esc_justified :: bool

record 'v route_result =
  rr_slot :: string
  rr_task_type :: "string option"
  rr_value :: "'v option"
  rr_tier :: "tier option"
  rr_preset :: "string option"
  rr_solved_by :: "string option"
  rr_verified :: "bool option"
  rr_attempts :: "attempt list"
  rr_escalations :: "escalation list"
  rr_denial :: "gate_result option"

definition route_calls :: "'v route_result \<Rightarrow> nat" where
  "route_calls r = length (rr_attempts r)"

text \<open>\<open>model.route\<close> events.\<close>

datatype verdict = VAllow | VDeny | VNone

record route_event =
  re_slot :: string
  re_task_type :: "string option"
  re_tier :: "tier option"
  re_preset :: "string option"
  re_ceiling :: "tier option"
  re_reason :: string
  re_check :: string
  re_verdict :: verdict
  re_from_tier :: "tier option"
  re_solver :: "string option"

record target =
  dt_slot :: string
  dt_tier :: "tier option"
  dt_preset :: "string option"

fun check_name :: "route_check \<Rightarrow> string" where
  "check_name Untiered = ''untiered''"
| "check_name NoCeiling = ''no_ceiling''"
| "check_name WithinCeiling = ''within_ceiling''"
| "check_name Justified = ''justified''"
| "check_name PolicyCheck = ''policy''"

subsection \<open>The cascade\<close>

text \<open>What the router calls and what stays fixed during one route.\<close>

record ('c, 'v, 'w, 'e) route_env =
  ro_slot :: string
  ro_task_type :: "string option"
  ro_ladder :: ladder
  ro_ceiling :: "tier option"
  ro_max :: int
  ro_dispatch :: "target \<Rightarrow> 'w \<Rightarrow> ('e, 'v) py \<times> 'w"
  ro_verify :: "('v \<Rightarrow> 'w \<Rightarrow> (unit, bool) py \<times> 'w) option"
  ro_policy :: "policy option"
  ro_principal :: "principal option"
  ro_gate :: gate_host
  ro_hosts :: "'c hosts"
  ro_ctx :: 'c
  ro_env :: "gate_env option"
  ro_sink :: "event \<Rightarrow> bool"
  ro_route_sink :: "route_event \<Rightarrow> bool"

record 'w route_state =
  rs_gate :: gate_state
  rs_events :: "route_event list"
  rs_world :: 'w

definition ceiling_policy :: policy where
  "ceiling_policy = DefaultP (default_new\<lparr>deny_capabilities := {MODEL_DISPATCH}\<rparr>)"

definition dispatch_tool :: "tier \<Rightarrow> gtool" where
  "dispatch_tool t = \<lparr>t_name = Some MODEL_DISPATCH, t_class = ''_ModelDispatchCall'',
     t_declare = Some (\<lambda>_. Inr [CapabilityRequest MODEL_DISPATCH (tier_name t)]),
     t_sandbox_active = None, t_grant = NoGrant, t_workspace = None\<rparr>"

definition jopt :: "string option \<Rightarrow> json" where
  "jopt x = (case x of None \<Rightarrow> JNull | Some s \<Rightarrow> JStr s)"

definition dispatch_params :: "('c, 'v, 'w, 'e) route_env \<Rightarrow> tier \<Rightarrow> json" where
  "dispatch_params R t = JDict [(''slot'', JStr (ro_slot R)), (''tier'', JStr (tier_name t)),
     (''preset'', jopt (preset_for (ro_ladder R) t)), (''task_type'', jopt (ro_task_type R)),
     (''ceiling'', jopt (map_option tier_name (ro_ceiling R)))]"

definition gate_dispatch ::
  "('c, 'v, 'w, 'e) route_env \<Rightarrow> tier \<Rightarrow> gate_state \<Rightarrow> (fs_error, gate_result) py \<times> gate_state" where
  "gate_dispatch R t s =
     gate_call (ro_gate R) (ro_hosts R) (ro_sink R) (dispatch_tool t) (dispatch_params R t) (ro_principal R)
       (Some (case ro_policy R of Some p \<Rightarrow> p | None \<Rightarrow> ceiling_policy)) (ro_env R) (ro_ctx R) None s"

definition emit_route :: "('c, 'v, 'w, 'e) route_env \<Rightarrow> route_event \<Rightarrow> 'w route_state \<Rightarrow> 'w route_state" where
  "emit_route R ev st = (if ro_route_sink R ev then st\<lparr>rs_events := rs_events st @ [ev]\<rparr> else st)"

definition route_check_of :: "('c, 'v, 'w, 'e) route_env \<Rightarrow> tier option \<Rightarrow> string \<Rightarrow> route_check" where
  "route_check_of R cur why =
     (case cur of
        None \<Rightarrow> Untiered
      | Some t \<Rightarrow>
          if ro_ceiling R = None then NoCeiling
          else if within t (ro_ceiling R) then WithinCeiling
          else if why \<noteq> ''initial'' then Justified
          else PolicyCheck)"

text \<open>\<open>_verify\<close>: a raising verifier is a failed verification.\<close>

definition verify_value :: "('v \<Rightarrow> 'w \<Rightarrow> (unit, bool) py \<times> 'w) \<Rightarrow> 'v \<Rightarrow> 'w \<Rightarrow> bool \<times> string \<times> 'w" where
  "verify_value f v w =
     (case f v w of
        (Inl _, w') \<Rightarrow> (False, ''verification_error'', w')
      | (Inr b, w') \<Rightarrow> (b, ''verification_failed'', w'))"

text \<open>The gate step of a dispatch that needs the policy: \<open>Some\<close> denial ends the route.\<close>

definition gate_step ::
  "('c, 'v, 'w, 'e) route_env \<Rightarrow> tier option \<Rightarrow> route_check \<Rightarrow> 'w route_state
     \<Rightarrow> ('e route_error, gate_result option) py \<times> 'w route_state" where
  "gate_step R cur chk st =
     (case (chk, cur) of
        (PolicyCheck, Some t) \<Rightarrow>
          (case gate_dispatch R t (rs_gate st) of
             (Inl e, g) \<Rightarrow> (Inl (GateRaised e), st\<lparr>rs_gate := g\<rparr>)
           | (Inr res, g) \<Rightarrow> (Inr (if g_allowed res then None else Some res), st\<lparr>rs_gate := g\<rparr>))
      | _ \<Rightarrow> (Inr None, st))"

definition route_ev ::
  "('c, 'v, 'w, 'e) route_env \<Rightarrow> tier option \<Rightarrow> string \<Rightarrow> string \<Rightarrow> verdict \<Rightarrow> tier option \<Rightarrow> route_event" where
  "route_ev R cur why chk v from =
     \<lparr>re_slot = ro_slot R, re_task_type = ro_task_type R, re_tier = cur,
      re_preset = Option.bind cur (preset_for (ro_ladder R)), re_ceiling = ro_ceiling R, re_reason = why,
      re_check = chk, re_verdict = v, re_from_tier = from, re_solver = None\<rparr>"

definition result_at ::
  "('c, 'v, 'w, 'e) route_env \<Rightarrow> tier option \<Rightarrow> 'v option \<Rightarrow> bool option \<Rightarrow> attempt list \<Rightarrow> escalation list
     \<Rightarrow> gate_result option \<Rightarrow> 'v route_result" where
  "result_at R cur v ver as es den =
     \<lparr>rr_slot = ro_slot R, rr_task_type = ro_task_type R, rr_value = v, rr_tier = cur,
      rr_preset = Option.bind cur (preset_for (ro_ladder R)), rr_solved_by = None, rr_verified = ver,
      rr_attempts = as, rr_escalations = es, rr_denial = den\<rparr>"

lemma next_above_rank: "next_above l t = Some t' \<Longrightarrow> tier_rank t < tier_rank t'"
  by (auto simp: next_above_def dest: find_SomeD)

lemma tier_rank_bound: "tier_rank t \<le> 3"
  by (cases t) simp_all

lemma next_above_measure:
  "(case next_above l t of None \<Rightarrow> 0 | Some t' \<Rightarrow> 4 - tier_rank t') < 4 - tier_rank t"
  using next_above_rank[of l t] tier_rank_bound[of t] tier_rank_bound[of "the (next_above l t)"]
  by (cases "next_above l t") auto

text \<open>
  The loop of \<open>route\<close>. It ends because every further round runs on a strictly higher tier.
\<close>

function (sequential) route_loop ::
  "('c, 'v, 'w, 'e) route_env \<Rightarrow> attempt list \<Rightarrow> escalation list \<Rightarrow> string \<Rightarrow> tier option \<Rightarrow> tier option
     \<Rightarrow> 'w route_state \<Rightarrow> ('e route_error, 'v route_result) py \<times> 'w route_state" where
  "route_loop R as es why from cur st0 =
     (let chk = route_check_of R cur why; preset = Option.bind cur (preset_for (ro_ladder R)) in
      case gate_step R cur chk st0 of
        (Inl e, st) \<Rightarrow> (Inl e, st)
      | (Inr (Some res), st) \<Rightarrow>
          (Inr (result_at R cur None None as es (Some res)),
           emit_route R (route_ev R cur why (check_name chk) VDeny from) st)
      | (Inr None, st) \<Rightarrow>
          let st1 = emit_route R (route_ev R cur why (check_name chk) VAllow from) st in
          (case ro_dispatch R \<lparr>dt_slot = ro_slot R, dt_tier = cur, dt_preset = preset\<rparr> (rs_world st1) of
             (Inl e, w) \<Rightarrow> (Inl (DispatchRaised e), st1\<lparr>rs_world := w\<rparr>)
           | (Inr v, w) \<Rightarrow>
               (case ro_verify R of
                  None \<Rightarrow>
                    (Inr (result_at R cur (Some v) None
                       (as @ [\<lparr>ra_tier = cur, ra_preset = preset, ra_check = chk, ra_verified = None\<rparr>]) es None),
                     st1\<lparr>rs_world := w\<rparr>)
                | Some f \<Rightarrow>
                    (case verify_value f v w of
                       (ok, failure, w') \<Rightarrow>
                         let st2 = st1\<lparr>rs_world := w'\<rparr>;
                             as' = as @ [\<lparr>ra_tier = cur, ra_preset = preset, ra_check = chk,
                                          ra_verified = Some ok\<rparr>];
                             nxt = Option.bind cur (next_above (ro_ladder R))
                         in (case (cur, nxt) of
                               (Some t, Some t') \<Rightarrow>
                                 if ok \<or> int (length es) \<ge> max 0 (ro_max R)
                                 then (Inr (result_at R cur (Some v) (Some ok) as' es None),
                                       if ok then st2
                                       else emit_route R (route_ev R cur failure ''no_escalation'' VNone cur) st2)
                                 else route_loop R as'
                                   (es @ [\<lparr>esc_from = t, esc_to = t', esc_reason = failure, esc_justified = True\<rparr>])
                                   failure cur (Some t') st2
                             | _ \<Rightarrow>
                                 (Inr (result_at R cur (Some v) (Some ok) as' es None),
                                  if ok then st2
                                  else emit_route R (route_ev R cur failure ''no_escalation'' VNone cur) st2))))))"
  by pat_completeness auto
termination
proof (relation "measure (\<lambda>(R, as, es, why, from, cur, st). case cur of None \<Rightarrow> 0 | Some t \<Rightarrow> 4 - tier_rank t)",
    goal_cases)
  case 1
  then show ?case by simp
next
  case (2 R as es why prev cur st0)
  then show ?case
    by (cases cur) (auto simp: next_above_measure)
qed

declare route_loop.simps [simp del]

text \<open>
  \<open>route\<close>: the solver step is the result of \<open>solve_deterministic\<close> on the task's payload; then the
  cascade from the start tier, \<open>tier or slot_start\<close> (an empty \<open>tier\<close> counts as absent unless
  the slot has no start either).
\<close>

definition solved_result :: "('c, 'v, 'w, 'e) route_env \<Rightarrow> 'v \<Rightarrow> string \<Rightarrow> 'v route_result" where
  "solved_result R v n = (result_at R None (Some v) None [] [] None)\<lparr>rr_solved_by := Some n\<rparr>"

definition requested_tier :: "string option \<Rightarrow> tier option \<Rightarrow> string option" where
  "requested_tier requested slot_start =
     (if requested = None \<or> requested = Some [] \<and> slot_start \<noteq> None then map_option tier_name slot_start
      else requested)"

definition route ::
  "('c, 'v, 'w, 'e) route_env \<Rightarrow> (string \<Rightarrow> ('v \<times> string) option) \<Rightarrow> string option \<Rightarrow> tier option
     \<Rightarrow> 'w route_state \<Rightarrow> ('e route_error, 'v route_result) py \<times> 'w route_state" where
  "route R solve requested slot_start st =
     (if ro_slot R = [] then (Inl SlotEmpty, st)
      else (case Option.bind (ro_task_type R) solve of
        Some (v, n) \<Rightarrow>
          (Inr (solved_result R v n),
           emit_route R ((route_ev R None ''solved'' ''solver'' VAllow None)\<lparr>re_ceiling := None, re_solver := Some n\<rparr>) st)
      | None \<Rightarrow>
          (case start_tier (ro_ladder R) (requested_tier requested slot_start) (ro_ceiling R) of
             Inl e \<Rightarrow> (Inl e, st)
           | Inr cur \<Rightarrow> route_loop R [] [] ''initial'' None cur st)))"


subsection \<open>The gate in front of a dispatch\<close>

definition dispatch_permitted :: "('c, 'v, 'w, 'e) route_env \<Rightarrow> tier \<Rightarrow> bool" where
  "dispatch_permitted R t =
     request_passes (ro_gate R) (ro_hosts R) (dispatch_tool t) (or_else (ro_principal R) AGENT_PRINCIPAL)
       (case ro_policy R of Some p \<Rightarrow> p | None \<Rightarrow> ceiling_policy) (ro_env R) (ro_ctx R) None
       (CapabilityRequest MODEL_DISPATCH (tier_name t))"

lemma gate_dispatch_allowed:
  assumes "gate_dispatch R t s = (Inr res, s')" "g_allowed res"
  shows "dispatch_permitted R t"
proof -
  have d: "declared (dispatch_tool t) p = Inr [CapabilityRequest MODEL_DISPATCH (tier_name t)]" for p
    by (simp add: declared_def dispatch_tool_def)
  show ?thesis
    using gate_call_passes[OF assms[unfolded gate_dispatch_def] d] by (simp add: or_else_def dispatch_permitted_def)
qed

text \<open>Without a host policy a configured ceiling is enforced.\<close>

lemma ceiling_policy_denies:
  assumes "ro_policy R = None"
  shows "\<not> dispatch_permitted R t"
proof
  assume "dispatch_permitted R t"
  then obtain req fl c where
    p: "prepare (ro_gate R) (dispatch_tool t) (ro_env R) None None (CapabilityRequest MODEL_DISPATCH (tier_name t))
        = Inr (req, fl, c)"
    and j: "list_all (\<lambda>v. decide (ro_hosts R) ceiling_policy (or_else (ro_principal R) AGENT_PRINCIPAL) v (ro_ctx R)
        = Inr Allow) (views_of (gh_os (ro_gate R)) req)"
    using assms by (auto simp: dispatch_permitted_def request_passes_def list_all_iff split: sum.splits prod.splits)
  have "req = CapabilityRequest MODEL_DISPATCH (tier_name t)"
    using p by (auto simp: prepare_def MODEL_DISPATCH_def FS_CAPABILITIES_def)
  then have v: "views_of (gh_os (ro_gate R)) req = [CapabilityRequest MODEL_DISPATCH (tier_name t)]"
    by (simp add: views_of_def MODEL_DISPATCH_def FS_CAPABILITIES_def)
  show False
    using j unfolding v
    by (simp add: ceiling_policy_def default_decide_def default_new_def MODEL_DISPATCH_def)
qed

lemma gate_step_cases:
  assumes "gate_step R cur chk st0 = (Inr den, st)"
  shows "rs_world st = rs_world st0" "rs_events st = rs_events st0"
    "den = None \<Longrightarrow> chk = PolicyCheck \<Longrightarrow> cur = Some t \<Longrightarrow> dispatch_permitted R t"
  using assms
  by (auto simp: gate_step_def split: route_check.splits option.splits prod.splits sum.splits if_splits
      intro: gate_dispatch_allowed)

subsection \<open>The shape of a route\<close>

definition attempt_ok :: "('c, 'v, 'w, 'e) route_env \<Rightarrow> nat \<Rightarrow> attempt \<Rightarrow> bool" where
  "attempt_ok R i a \<longleftrightarrow>
     (\<forall>t. ra_tier a = Some t \<longrightarrow> \<not> within t (ro_ceiling R) \<longrightarrow> 0 < i \<or> dispatch_permitted R t)"

definition climbing :: "tier option list \<Rightarrow> bool" where
  "climbing xs \<longleftrightarrow> xs = [None] \<or> (\<exists>us. xs = map Some us \<and> sorted_wrt (<) us)"

definition loop_inv ::
  "('c, 'v, 'w, 'e) route_env \<Rightarrow> attempt list \<Rightarrow> escalation list \<Rightarrow> string \<Rightarrow> tier option \<Rightarrow> bool" where
  "loop_inv R as es why cur \<longleftrightarrow>
     length as = length es \<and> (as = [] \<longleftrightarrow> why = ''initial'') \<and> int (length es) \<le> max 0 (ro_max R)
     \<and> (\<forall>a \<in> set as. ra_verified a = Some False) \<and> climbing (map ra_tier as @ [cur])
     \<and> (\<forall>i < length as. attempt_ok R i (as ! i))"

definition route_shape :: "('c, 'v, 'w, 'e) route_env \<Rightarrow> 'v route_result \<Rightarrow> bool" where
  "route_shape R res \<longleftrightarrow>
     (let as = rr_attempts res; es = rr_escalations res in
        length es \<le> nat (max 0 (ro_max R)) \<and> length as \<le> Suc (length es) \<and> length es \<le> length as
      \<and> (rr_denial res = None \<longleftrightarrow> length as = Suc (length es))
      \<and> (\<forall>a \<in> set (take (length es) as). ra_verified a = Some False)
      \<and> (as \<noteq> [] \<longrightarrow> climbing (map ra_tier as)) \<and> (\<forall>i < length as. attempt_ok R i (as ! i)))"

lemma climbing_butlast: "climbing (xs @ [t]) \<Longrightarrow> xs \<noteq> [] \<Longrightarrow> climbing xs"
proof -
  assume "climbing (xs @ [t])" "xs \<noteq> []"
  then obtain us where us: "xs @ [t] = map Some us" "sorted_wrt (<) us" by (auto simp: climbing_def)
  then obtain vs v where "us = vs @ [v]" by (cases us rule: rev_cases) auto
  with us show ?thesis by (auto simp: climbing_def sorted_wrt_append)
qed

lemma climbing_snoc:
  assumes "climbing (xs @ [Some t])" "next_above l t = Some t'"
  shows "climbing (xs @ [Some t, Some t'])"
proof -
  obtain us where us: "xs @ [Some t] = map Some us" "sorted_wrt (<) us"
    using assms(1) by (auto simp: climbing_def)
  then obtain vs where vs: "us = vs @ [t]" by (cases us rule: rev_cases) auto
  have "t < t'" using next_above_rank[OF assms(2)] by (simp add: tier_less_iff)
  with us(2) have "sorted_wrt (<) (us @ [t'])"
    by (auto simp: vs sorted_wrt_append)
  moreover have "xs @ [Some t, Some t'] = map Some (us @ [t'])" using us(1) by simp
  ultimately show ?thesis unfolding climbing_def by blast
qed

lemma loop_inv_step:
  assumes "loop_inv R as es why (Some t)" "next_above (ro_ladder R) t = Some t'"
    and "attempt_ok R (length as) a" "ra_tier a = Some t" "ra_verified a = Some False"
    and "int (length es) < max 0 (ro_max R)" "failure \<noteq> ''initial''"
  shows "loop_inv R (as @ [a]) (es @ [e]) failure (Some t')"
  using assms climbing_snoc[OF _ assms(2), of "map ra_tier as"]
  by (auto simp: loop_inv_def nth_append less_Suc_eq)

lemma loop_inv_done:
  assumes "loop_inv R as es why cur" "attempt_ok R (length as) a" "ra_tier a = cur"
  shows "route_shape R (result_at R cur v ok (as @ [a]) es None)"
  using assms by (auto simp: loop_inv_def route_shape_def result_at_def nth_append less_Suc_eq)

lemma loop_inv_denied:
  assumes "loop_inv R as es why cur"
  shows "route_shape R (result_at R cur None None as es (Some den))"
  using assms climbing_butlast[of "map ra_tier as" cur]
  by (auto simp: loop_inv_def route_shape_def result_at_def)

text \<open>The attempt about to run is in order: inside the ceiling, escalated, or let through by the gate.\<close>

lemma attempt_in_order:
  assumes "loop_inv R as es why cur" "gate_step R cur (route_check_of R cur why) st0 = (Inr None, st)"
    and "ra_tier a = cur"
  shows "attempt_ok R (length as) a"
proof -
  have "dispatch_permitted R t" if "cur = Some t" "\<not> within t (ro_ceiling R)" "as = []" for t
  proof (rule gate_step_cases(3)[OF assms(2) refl])
    show "route_check_of R cur why = PolicyCheck"
      using that assms(1) by (auto simp: route_check_of_def loop_inv_def within_def split: option.splits)
    show "cur = Some t" by (rule that(1))
  qed
  then show ?thesis using assms(3) by (auto simp: attempt_ok_def)
qed

lemma verify_failure: "verify_value f v w = (ok, failure, w') \<Longrightarrow> failure \<noteq> ''initial''"
  by (auto simp: verify_value_def split: prod.splits sum.splits)

lemma route_loop_shape:
  "route_loop R as es why from cur st0 = (Inr res, st') \<Longrightarrow> loop_inv R as es why cur \<Longrightarrow> route_shape R res"
proof (induction R as es why "from" cur st0 rule: route_loop.induct)
  case (1 R as es why "from" cur st0)
  let ?chk = "route_check_of R cur why" and ?pre = "Option.bind cur (preset_for (ro_ladder R))"
  let ?a = "\<lambda>ok. \<lparr>ra_tier = cur, ra_preset = ?pre, ra_check = ?chk, ra_verified = ok\<rparr>"
  note run = 1(2)[unfolded route_loop.simps[of R as es why "from" cur st0] Let_def]
  obtain den st where g: "gate_step R cur ?chk st0 = (Inr den, st)"
    using run by (cases "fst (gate_step R cur ?chk st0)") (auto split: prod.splits)
  show ?case
  proof (cases den)
    case (Some d)
    with run g loop_inv_denied[OF 1(3)] show ?thesis by auto
  next
    case None
    note ok = attempt_in_order[OF 1(3) g[unfolded None]]
    have fin: "route_shape R (result_at R cur v x (as @ [?a y]) es None)" for v x y
      by (rule loop_inv_done[OF 1(3) ok]) simp_all
    let ?st1 = "emit_route R (route_ev R cur why (check_name ?chk) VAllow from) st"
    obtain v w where d: "ro_dispatch R \<lparr>dt_slot = ro_slot R, dt_tier = cur, dt_preset = ?pre\<rparr> (rs_world ?st1)
        = (Inr v, w)"
      using run by (simp add: g None) (auto split: prod.splits sum.splits)
    show ?thesis
    proof (cases "ro_verify R")
      case None
      then show ?thesis using run fin by (auto simp: g \<open>den = None\<close> d)
    next
      case (Some f)
      obtain b failure w' where v: "verify_value f v w = (b, failure, w')" by (metis prod_cases3)
      show ?thesis
      proof (cases "\<exists>t t'. cur = Some t \<and> next_above (ro_ladder R) t = Some t'
          \<and> \<not> b \<and> int (length es) < max 0 (ro_max R)")
        case True
        then obtain t t' where t: "cur = Some t" "next_above (ro_ladder R) t = Some t'" "\<not> b"
          "int (length es) < max 0 (ro_max R)" by blast
        have m: "\<not> ro_max R \<le> int (length es)" using t(4) by (auto simp: max_def split: if_splits)
        let ?e = "\<lparr>esc_from = t, esc_to = t', esc_reason = failure, esc_justified = True\<rparr>"
        have nx: "Option.bind cur (next_above (ro_ladder R)) = Some t'" using t by simp
        have nb: "\<not> (b \<or> max 0 (ro_max R) \<le> int (length es))" using t by simp
        have r: "route_loop R (as @ [?a (Some b)]) (es @ [?e]) failure cur (Some t') (?st1\<lparr>rs_world := w'\<rparr>)
            = (Inr res, st')"
          using run unfolding g \<open>den = None\<close> by (simp add: d Some v) (use t m in simp)
        have i: "loop_inv R (as @ [?a (Some b)]) (es @ [?e]) failure (Some t')"
          using 1(3) t(1,3) verify_failure[OF v] ok[of "?a (Some b)"]
          by (intro loop_inv_step[OF _ t(2) _ _ _ t(4)]) auto
        show ?thesis
          by (rule 1(1)[OF refl refl g[symmetric] refl \<open>den = None\<close> refl d[symmetric] refl Some v[symmetric]
              refl refl refl refl refl t(1) nx nb r i])
      next
        case False
        have "res = result_at R cur (Some v) (Some b) (as @ [?a (Some b)]) es None"
          using run unfolding g \<open>den = None\<close>
          by (simp add: d Some v) (use False in \<open>auto split: option.splits if_splits\<close>)
        with fin show ?thesis by simp
      qed
    qed
  qed
qed

lemma loop_inv_start: "loop_inv R [] [] ''initial'' cur"
proof -
  have "climbing [cur]" by (cases cur) (auto simp: climbing_def intro: exI[of _ "[_]"])
  then show ?thesis by (simp add: loop_inv_def)
qed

lemma route_shape_route:
  assumes "route R solve requested slot_start st = (Inr res, st')"
  shows "(\<exists>v n. Option.bind (ro_task_type R) solve = Some (v, n) \<and> res = solved_result R v n
             \<and> rs_world st' = rs_world st \<and> rs_gate st' = rs_gate st)
       \<or> (Option.bind (ro_task_type R) solve = None \<and> route_shape R res)"
proof (cases "Option.bind (ro_task_type R) solve")
  case None
  then obtain cur where "route_loop R [] [] ''initial'' None cur st = (Inr res, st')"
    using assms by (auto simp: route_def split: if_splits sum.splits)
  with None route_loop_shape[OF _ loop_inv_start] show ?thesis by blast
next
  case (Some x)
  then show ?thesis
    using assms by (cases x) (auto simp: route_def emit_route_def split: if_splits)
qed

lemma climbing_length: "climbing xs \<Longrightarrow> length xs \<le> 4"
proof -
  have "length us \<le> 4" if "sorted_wrt (<) us" for us :: "tier list"
  proof -
    have "distinct us" using that by (simp add: strict_sorted_iff)
    moreover have "set us \<subseteq> set TIER_ORDER" by auto
    ultimately have "length us \<le> card (set TIER_ORDER)"
      using distinct_card[of us] card_mono[of "set TIER_ORDER" "set us"] by simp
    then show ?thesis by (simp add: TIER_ORDER_def)
  qed
  then show "climbing xs \<Longrightarrow> length xs \<le> 4" by (auto simp: climbing_def)
qed

text \<open>
  Claim C22: the ceiling of a slot holds. In every route that returns, an attempt above the
  ceiling was either the first one, let through by the capability gate under the policy in
  force, or came right after an attempt whose verification failed; and without a host policy
  the gate lets none through.
\<close>

theorem route_ceiling_respected:
  assumes "route R solve requested slot_start st = (Inr res, st')"
    and "i < length (rr_attempts res)" and "ra_tier (rr_attempts res ! i) = Some t"
    and "\<not> within t (ro_ceiling R)"
  shows "(if i = 0 then dispatch_permitted R t \<and> ro_policy R \<noteq> None
          else ra_verified (rr_attempts res ! (i - 1)) = Some False)"
proof -
  have sh: "route_shape R res"
    using route_shape_route[OF assms(1)] assms(2) by (auto simp: solved_result_def result_at_def)
  then have "attempt_ok R i (rr_attempts res ! i)" using assms(2) by (simp add: route_shape_def Let_def)
  then have z: "i = 0 \<Longrightarrow> dispatch_permitted R t" using assms(3,4) by (simp add: attempt_ok_def)
  have "ra_verified (rr_attempts res ! (i - 1)) = Some False" if "i \<noteq> 0"
  proof -
    have l: "i - 1 < length (rr_escalations res)" "i - 1 < length (rr_attempts res)"
      using sh assms(2) that by (auto simp: route_shape_def Let_def)
    then have "rr_attempts res ! (i - 1) \<in> set (take (length (rr_escalations res)) (rr_attempts res))"
      by (auto simp: in_set_conv_nth intro!: exI[of _ "i - 1"])
    then show ?thesis using sh by (simp add: route_shape_def Let_def)
  qed
  with z ceiling_policy_denies[of R t] show ?thesis by auto
qed

subsection \<open>The model calls of a route\<close>

text \<open>A target the router may dispatch to: its slot, and a tier with the preset of that tier.\<close>

definition target_ok :: "('c, 'v, 'w, 'e) route_env \<Rightarrow> target \<Rightarrow> bool" where
  "target_ok R d \<longleftrightarrow> dt_slot d = ro_slot R \<and> dt_preset d = Option.bind (dt_tier d) (preset_for (ro_ladder R))"

text \<open>
  What the calls \<open>ds\<close> of a route that goes on from the attempts \<open>as\<close> look like: within the limit, up the
  ladder, and the attempts of the result are the calls made.
\<close>

definition calls_ok :: "('c, 'v, 'w, 'e) route_env \<Rightarrow> attempt list \<Rightarrow> target list
    \<Rightarrow> ('e route_error, 'v route_result) py \<Rightarrow> bool" where
  "calls_ok R as ds r \<longleftrightarrow>
     list_all (target_ok R) ds \<and> length as + length ds \<le> Suc (nat (max 0 (ro_max R)))
     \<and> (as = [] \<and> ds = [] \<or> climbing (map ra_tier as @ map dt_tier ds))
     \<and> (case r of Inl e \<Rightarrow> True | Inr res \<Rightarrow> map ra_tier (rr_attempts res) = map ra_tier as @ map dt_tier ds)"

lemma gate_step_world: "gate_step R cur chk st0 = (x, st) \<Longrightarrow> rs_world st = rs_world st0"
  by (auto simp: gate_step_def split: route_check.splits option.splits prod.splits sum.splits if_splits)

lemma emit_route_world [simp]: "rs_world (emit_route R ev st) = rs_world st"
  by (simp add: emit_route_def)

lemma calls_ok_none:
  assumes "loop_inv R as es why cur"
    "\<And>res. r = Inr res \<Longrightarrow> map ra_tier (rr_attempts res) = map ra_tier as"
  shows "calls_ok R as [] r"
  using assms climbing_butlast[of "map ra_tier as" cur]
  by (auto simp: calls_ok_def loop_inv_def split: sum.split)

lemma calls_ok_last:
  assumes "loop_inv R as es why cur" "target_ok R d" "dt_tier d = cur"
    "\<And>res. r = Inr res \<Longrightarrow> map ra_tier (rr_attempts res) = map ra_tier as @ [cur]"
  shows "calls_ok R as [d] r"
  using assms by (auto simp: calls_ok_def loop_inv_def split: sum.split)

lemma calls_ok_Cons:
  assumes "calls_ok R (as @ [a]) ds r" "target_ok R d" "dt_tier d = ra_tier a"
  shows "calls_ok R as (d # ds) r"
  using assms by (auto simp: calls_ok_def split: sum.splits)

lemma verify_value_world: "verify_value f v w = (b, failure, w') \<Longrightarrow> w' = snd (f v w)"
  by (auto simp: verify_value_def split: prod.splits sum.splits)

lemma route_loop_calls:
  fixes calls :: "'w \<Rightarrow> target list" and R :: "('c, 'v, 'w, 'e) route_env"
  assumes log: "\<And>d w. calls (snd (ro_dispatch R d w)) = calls w @ [d]"
    and quiet: "\<And>f v w. ro_verify R = Some f \<Longrightarrow> calls (snd (f v w)) = calls w"
  shows "route_loop R as es why from cur st0 = (r, st') \<Longrightarrow> loop_inv R as es why cur
    \<Longrightarrow> \<exists>ds. calls (rs_world st') = calls (rs_world st0) @ ds \<and> calls_ok R as ds r"
  using assms
proof (induction R as es why "from" cur st0 rule: route_loop.induct)
  case (1 R as es why "from" cur st0)
  let ?chk = "route_check_of R cur why" and ?pre = "Option.bind cur (preset_for (ro_ladder R))"
  let ?a = "\<lambda>ok. \<lparr>ra_tier = cur, ra_preset = ?pre, ra_check = ?chk, ra_verified = ok\<rparr>"
  let ?d = "\<lparr>dt_slot = ro_slot R, dt_tier = cur, dt_preset = ?pre\<rparr>"
  note run = 1(2)[unfolded route_loop.simps[of R as es why "from" cur st0] Let_def]
  obtain x st where g: "gate_step R cur ?chk st0 = (x, st)" by fastforce
  note w0 = gate_step_world[OF g]
  note none = calls_ok_none[OF 1(3)]
  have d_ok: "target_ok R ?d" by (simp add: target_ok_def)
  note last = calls_ok_last[OF 1(3) d_ok]
  show ?case
  proof (cases "x = Inr None")
    case False
    have "rs_world st' = rs_world st0" "\<And>res. r = Inr res \<Longrightarrow> map ra_tier (rr_attempts res) = map ra_tier as"
      using run False w0 by (auto simp: g result_at_def split: sum.splits option.splits)
    with none show ?thesis by (intro exI[of _ "[]"]) simp
  next
    case True
    let ?st1 = "emit_route R (route_ev R cur why (check_name ?chk) VAllow from) st"
    obtain y w where d: "ro_dispatch R ?d (rs_world st) = (y, w)" by fastforce
    have cw: "calls w = calls (rs_world st0) @ [?d]"
      using 1(4)[of ?d "rs_world st"] d w0 by simp
    have fin: ?thesis if "calls (rs_world st') = calls w"
      "\<And>res. r = Inr res \<Longrightarrow> map ra_tier (rr_attempts res) = map ra_tier as @ [cur]"
      using last[of r] that cw by (intro exI[of _ "[?d]"]) simp
    show ?thesis
    proof (cases y)
      case (Inl e)
      with run True g d show ?thesis by (intro fin) auto
    next
      case (Inr v)
      note d = d[unfolded Inr]
      have d1: "ro_dispatch R ?d (rs_world ?st1) = (Inr v, w)" using d by simp
      show ?thesis
      proof (cases "ro_verify R")
        case None
        with run True g d show ?thesis by (intro fin) (auto simp: result_at_def)
      next
        case (Some f)
        obtain b failure w' where v: "verify_value f v w = (b, failure, w')" by (metis prod_cases3)
        have vw: "calls w' = calls w" using 1(5)[OF Some] verify_value_world[OF v] by simp
        show ?thesis
        proof (cases "\<exists>t t'. cur = Some t \<and> next_above (ro_ladder R) t = Some t'
            \<and> \<not> b \<and> int (length es) < max 0 (ro_max R)")
          case True
          then obtain t t' where t: "cur = Some t" "next_above (ro_ladder R) t = Some t'" "\<not> b"
            "int (length es) < max 0 (ro_max R)" by blast
          have m: "\<not> ro_max R \<le> int (length es)" using t(4) by (auto simp: max_def split: if_splits)
          let ?e = "\<lparr>esc_from = t, esc_to = t', esc_reason = failure, esc_justified = True\<rparr>"
          have nx: "Option.bind cur (next_above (ro_ladder R)) = Some t'" using t by simp
          have nb: "\<not> (b \<or> max 0 (ro_max R) \<le> int (length es))" using t by simp
          have r: "route_loop R (as @ [?a (Some b)]) (es @ [?e]) failure cur (Some t') (?st1\<lparr>rs_world := w'\<rparr>)
              = (r, st')"
            using run unfolding g \<open>x = Inr None\<close> by (simp add: d Some v) (use t m in simp)
          have i: "loop_inv R (as @ [?a (Some b)]) (es @ [?e]) failure (Some t')"
            using 1(3) t(1,3) verify_failure[OF v] attempt_in_order[OF 1(3) g[unfolded \<open>x = Inr None\<close>], of "?a (Some b)"]
            by (intro loop_inv_step[OF _ t(2) _ _ _ t(4)]) auto
          have "\<exists>ds. calls (rs_world st') = calls (rs_world (?st1\<lparr>rs_world := w'\<rparr>)) @ ds \<and> calls_ok R (as @ [?a (Some b)]) ds r"
            by (rule 1(1)[OF refl refl g[symmetric] \<open>x = Inr None\<close> refl refl d1[symmetric] refl Some v[symmetric]
              refl refl refl refl refl t(1) nx nb r i]) (fact 1(4) 1(5))+
          then obtain ds where ds: "calls (rs_world st') = calls w' @ ds" "calls_ok R (as @ [?a (Some b)]) ds r"
            by auto
          have "calls_ok R as (?d # ds) r" by (rule calls_ok_Cons[OF ds(2) d_ok]) simp
          with ds(1) vw cw show ?thesis by (intro exI[of _ "?d # ds"]) simp
        next
          case False
          have "rs_world st' = w' \<and> r = Inr (result_at R cur (Some v) (Some b) (as @ [?a (Some b)]) es None)"
            using run unfolding g \<open>x = Inr None\<close>
            by (simp add: d Some v) (use False in \<open>auto split: option.splits if_splits\<close>)
          with vw show ?thesis by (intro fin) (auto simp: result_at_def)
        qed
      qed
    qed
  qed
qed

text \<open>
  Claim C30: a route makes a bounded number of model calls. Take any log of the calls that the dispatcher writes (every
  dispatch appends its target, and the verifier makes no call of its own). Then a route, whether it returns
  or raises, adds to the log at most one call more than the allowed escalations and at most four, each for the route's
  slot and with the preset of its tier, and each on a strictly higher tier than the one before. A task a solver
  answers makes none and touches neither the world nor the gate. When a route returns, its recorded attempts are
  exactly the calls made, all but the last failed verification, and it was denied exactly when it stopped before a call.
\<close>

theorem route_escalation_bounded:
  fixes calls :: "'w \<Rightarrow> target list" and R :: "('c, 'v, 'w, 'e) route_env"
  assumes "\<And>d w. calls (snd (ro_dispatch R d w)) = calls w @ [d]"
    and "\<And>f v w. ro_verify R = Some f \<Longrightarrow> calls (snd (f v w)) = calls w"
    and "route R solve requested slot_start st = (r, st')"
  shows "\<exists>ds. calls (rs_world st') = calls (rs_world st) @ ds
     \<and> length ds \<le> Suc (nat (max 0 (ro_max R))) \<and> length ds \<le> 4
     \<and> list_all (target_ok R) ds \<and> (ds = [] \<or> climbing (map dt_tier ds))
     \<and> (if Option.bind (ro_task_type R) solve \<noteq> None
        then ds = [] \<and> rs_world st' = rs_world st \<and> rs_gate st' = rs_gate st else True)
     \<and> (case r of
          Inl e \<Rightarrow> True
        | Inr res \<Rightarrow>
            route_calls res = length ds \<and> map ra_tier (rr_attempts res) = map dt_tier ds
            \<and> (\<forall>a \<in> set (butlast (rr_attempts res)). ra_verified a = Some False)
            \<and> (if Option.bind (ro_task_type R) solve \<noteq> None then rr_denial res = None
               else rr_denial res \<noteq> None \<longleftrightarrow> length (rr_attempts res) = length (rr_escalations res)))"
proof (cases "ro_slot R = [] \<or> Option.bind (ro_task_type R) solve \<noteq> None")
  case True
  then show ?thesis
    using assms(3) by (intro exI[of _ "[]"])
      (auto simp: route_def emit_route_def route_calls_def solved_result_def result_at_def split: if_splits option.splits)
next
  case False
  then have n: "Option.bind (ro_task_type R) solve = None" and sl: "ro_slot R \<noteq> []" by (simp_all del: not_None_eq)
  show ?thesis
  proof (cases "start_tier (ro_ladder R) (requested_tier requested slot_start) (ro_ceiling R) :: ('e route_error, tier option) py")
    case (Inl e)
    with assms(3) n sl show ?thesis
      by (intro exI[of _ "[]"]) (auto simp: route_def)
  next
    case (Inr cur)
    with assms(3) n sl have l: "route_loop R [] [] ''initial'' None cur st = (r, st')" by (simp add: route_def)
    have "\<exists>ds. calls (rs_world st') = calls (rs_world st) @ ds \<and> calls_ok R [] ds r"
      by (rule route_loop_calls[OF _ _ l loop_inv_start]) (fact assms(1) assms(2))+
    then obtain ds where ds: "calls (rs_world st') = calls (rs_world st) @ ds" "calls_ok R [] ds r" by blast
    have c: "length ds \<le> 4" "ds = [] \<or> climbing (map dt_tier ds)"
      using ds(2) climbing_length[of "map dt_tier ds"] by (auto simp: calls_ok_def)
    have res: "route_calls res = length ds \<and> map ra_tier (rr_attempts res) = map dt_tier ds
        \<and> (\<forall>a \<in> set (butlast (rr_attempts res)). ra_verified a = Some False)
        \<and> (rr_denial res \<noteq> None \<longleftrightarrow> length (rr_attempts res) = length (rr_escalations res))" if r: "r = Inr res" for res
    proof -
      have sh: "route_shape R res" by (rule route_loop_shape[OF l[unfolded r] loop_inv_start])
      have m: "map ra_tier (rr_attempts res) = map dt_tier ds" using ds(2) r by (simp add: calls_ok_def)
      have "set (butlast (rr_attempts res)) \<subseteq> set (take (length (rr_escalations res)) (rr_attempts res))"
        unfolding butlast_conv_take using sh
        by (intro set_take_subset_set_take) (auto simp: route_shape_def Let_def)
      moreover have "length (rr_attempts res) = length ds" by (rule map_eq_imp_length_eq[OF m])
      ultimately show ?thesis using sh m
        by (auto simp: route_shape_def Let_def route_calls_def)
    qed
    show ?thesis
      using ds c res n by (intro exI[of _ ds]) (auto simp: calls_ok_def split: sum.split)
  qed
qed

subsection \<open>The ladder and the start tier\<close>

lemma from_config_entries: "(t, n) \<in> set (from_config presets) \<longleftrightarrow> first_preset presets t = Some n"
  by (auto simp: from_config_def split: option.splits)

lemma from_config_sorted: "sorted_wrt (<) (tiers (from_config presets))"
  by (auto simp: from_config_def tiers_def TIER_ORDER_def tier_less_iff split: option.splits)

lemma find_sorted_Min:
  "sorted_wrt (<) xs \<Longrightarrow> find P xs = Some (t :: 'a :: linorder) \<longleftrightarrow> t \<in> set (filter P xs) \<and> (\<forall>u \<in> set (filter P xs). t \<le> u)"
proof (induction xs)
  case (Cons a xs)
  then have lt: "\<forall>u \<in> set xs. a < u" by simp
  show ?case
  proof (cases "P a")
    case True
    then show ?thesis using lt by (auto simp: less_imp_le dest: leD)
  next
    case False
    then show ?thesis using Cons by simp
  qed
qed simp

lemma last_sorted_Max: "sorted_wrt (<) xs \<Longrightarrow> xs \<noteq> [] \<Longrightarrow> u \<in> set xs \<Longrightarrow> u \<le> (last xs :: 'a :: linorder)"
  by (induction xs) (auto simp: less_imp_le)

text \<open>
  The router starts on the cheapest tier that will do. The ladder holds the first
  preset of every configured tier, cheapest first. An explicit tier is used exactly when it is
  configured and is an error otherwise. An implicit start is inside the ceiling whenever some
  configured tier is: the lowest one not below the clamped default, or the highest one inside
  when all of those are below it; when every tier is above the ceiling it is the cheapest.
\<close>

lemma route_start_tier:
  fixes ceiling :: "tier option" and ladder :: ladder
  assumes "ladder = from_config presets" and "ladder \<noteq> []"
  defines "inside \<equiv> {t \<in> set (tiers ladder). within t ceiling}"
    and "goal \<equiv> (case ceiling of None \<Rightarrow> DEFAULT_START_TIER | Some c \<Rightarrow> min c DEFAULT_START_TIER)"
  shows "(\<forall>t. preset_for ladder t = first_preset presets t)
    \<and> (\<forall>x. start_tier ladder (Some r) ceiling = Inr x \<longleftrightarrow> (\<exists>t \<in> set (tiers ladder). x = Some t \<and> tier_name t = r))
    \<and> (start_tier ladder (Some r) ceiling = Inl (NoPreset r) \<longleftrightarrow> r \<notin> tier_name ` set (tiers ladder))
    \<and> (\<exists>t \<in> set (tiers ladder). start_tier ladder None ceiling = Inr (Some t)
         \<and> (if inside = {} then \<forall>u \<in> set (tiers ladder). t \<le> u
            else t \<in> inside \<and> (if \<exists>u \<in> inside. goal \<le> u
                               then goal \<le> t \<and> (\<forall>u \<in> inside. goal \<le> u \<longrightarrow> t \<le> u)
                               else \<forall>u \<in> inside. u \<le> t)))"
proof (intro conjI)
  let ?ts = "tiers ladder"
  have srt: "sorted_wrt (<) ?ts" using from_config_sorted assms(1) by simp
  have ne: "?ts \<noteq> []" using assms(2) by (simp add: tiers_def)
  have "distinct (map fst ladder)" using srt by (simp add: tiers_def strict_sorted_iff)
  then show "\<forall>t. preset_for ladder t = first_preset presets t"
    using from_config_entries[of _ _ presets] unfolding assms(1) preset_for_def
    by (metis map_of_eq_Some_iff not_None_eq)
  have f: "find (\<lambda>t. tier_name t = r) ?ts = Some t \<longleftrightarrow> t \<in> set ?ts \<and> tier_name t = r" for t
    using find_sorted_Min[OF srt, of "\<lambda>t. tier_name t = r" t] by auto
  have none: "find (\<lambda>t. tier_name t = r) ?ts = None \<longleftrightarrow> r \<notin> tier_name ` set ?ts"
    by (auto simp only: find_None_iff image_iff)
  show "\<forall>x. start_tier ladder (Some r) ceiling = Inr x
      \<longleftrightarrow> (\<exists>t \<in> set ?ts. x = Some t \<and> tier_name t = r)"
  proof (cases "find (\<lambda>t. tier_name t = r) ?ts")
    case None
    then show ?thesis using none[THEN iffD1, OF None] by (auto simp: start_tier_def assms(2))
  next
    case (Some t)
    then have "t \<in> set ?ts \<and> tier_name t = r" using f by blast
    then show ?thesis using Some by (auto simp: start_tier_def assms(2))
  qed
  show "start_tier ladder (Some r) ceiling = Inl (NoPreset r) \<longleftrightarrow> r \<notin> tier_name ` set ?ts"
    using none assms(2) by (cases "find (\<lambda>t. tier_name t = r) ?ts") (simp_all add: start_tier_def)
  have goal: "(case ceiling of Some c \<Rightarrow> if tier_rank DEFAULT_START_TIER > tier_rank c then c else DEFAULT_START_TIER
      | None \<Rightarrow> DEFAULT_START_TIER) = goal"
    by (auto simp: goal_def min_def tier_le_iff split: option.splits)
  let ?in = "filter (\<lambda>t. within t ceiling) ?ts"
  have ins: "set ?in = inside" by (auto simp: inside_def)
  have srt_in: "sorted_wrt (<) ?in" by (rule sorted_wrt_filter[OF srt])
  define t where "t = (if ?in = [] then hd ?ts
      else (case find (\<lambda>t. tier_rank goal \<le> tier_rank t) ?in of Some t \<Rightarrow> t | None \<Rightarrow> last ?in))"
  have st: "start_tier ladder None ceiling = Inr (Some t)"
    using goal by (simp add: start_tier_def assms(2) t_def Let_def)
  have all: "\<forall>u \<in> set ?ts. hd ?ts \<le> u" using srt ne by (cases ?ts) (auto simp: less_imp_le)
  have "t \<in> set ?ts \<and> (if inside = {} then \<forall>u \<in> set ?ts. t \<le> u
       else t \<in> inside \<and> (if \<exists>u \<in> inside. goal \<le> u then goal \<le> t \<and> (\<forall>u \<in> inside. goal \<le> u \<longrightarrow> t \<le> u)
                          else \<forall>u \<in> inside. u \<le> t))"
  proof (cases "?in = []")
    case True
    then have "inside = {}" using ins by simp
    then show ?thesis using True all ne by (simp add: t_def)
  next
    case False
    then have i: "inside \<noteq> {}" using ins by force
    have sub: "inside \<subseteq> set ?ts" by (auto simp: inside_def)
    show ?thesis
    proof (cases "find (\<lambda>t. tier_rank goal \<le> tier_rank t) ?in")
      case None
      then have "\<not> (\<exists>u \<in> inside. goal \<le> u)" using ins by (auto simp: find_None_iff tier_le_iff)
      moreover have "t = last ?in" using None False by (simp add: t_def)
      moreover have "last ?in \<in> inside" using last_in_set[OF False] unfolding ins .
      moreover have "\<forall>u \<in> inside. u \<le> last ?in" using last_sorted_Max[OF srt_in False] ins by blast
      ultimately show ?thesis using i sub by auto
    next
      case (Some u)
      then have u: "t = u" using False by (simp add: t_def)
      have "u \<in> inside \<and> goal \<le> u \<and> (\<forall>v \<in> inside. goal \<le> v \<longrightarrow> u \<le> v)"
        using Some find_sorted_Min[OF srt_in] ins by (auto simp: tier_le_iff)
      then show ?thesis using i sub u by auto
    qed
  qed
  with st show "\<exists>t \<in> set ?ts. start_tier ladder None ceiling = Inr (Some t)
         \<and> (if inside = {} then \<forall>u \<in> set ?ts. t \<le> u
            else t \<in> inside \<and> (if \<exists>u \<in> inside. goal \<le> u
                               then goal \<le> t \<and> (\<forall>u \<in> inside. goal \<le> u \<longrightarrow> t \<le> u)
                               else \<forall>u \<in> inside. u \<le> t))" by blast
qed


subsection \<open>Witnesses\<close>

definition sample_presets :: "(string \<times> tier option) list" where
  "sample_presets = [(''big'', Some Frontier), (''none'', None), (''quick'', Some Fast), (''quick2'', Some Fast)]"

text \<open>A route whose verifier rejects what the fast tier says.\<close>

definition sample_route :: "(unit, tier option, target list, unit) route_env" where
  "sample_route = \<lparr>ro_slot = ''plan'', ro_task_type = None, ro_ladder = from_config sample_presets,
     ro_ceiling = Some Fast, ro_max = 1, ro_dispatch = (\<lambda>tg w. (Inr (dt_tier tg), w @ [tg])),
     ro_verify = Some (\<lambda>v w. (Inr (v = Some Frontier), w)), ro_policy = None, ro_principal = None,
     ro_gate = sample_host, ro_hosts = no_hosts, ro_ctx = (), ro_env = None, ro_sink = (\<lambda>_. True),
     ro_route_sink = (\<lambda>_. True)\<rparr>"

definition sample_start :: "target list route_state" where
  "sample_start = \<lparr>rs_gate = sample_state, rs_events = [], rs_world = []\<rparr>"

lemma sample_ladder: "from_config sample_presets = [(Fast, ''quick''), (Frontier, ''big'')]"
  by (simp add: from_config_def TIER_ORDER_def first_preset_def sample_presets_def)

lemma sample_run:
  "\<exists>res st'. route sample_route (\<lambda>_. None) None None sample_start = (Inr res, st')
     \<and> map ra_tier (rr_attempts res) = [Some Fast, Some Frontier] \<and> length (rs_world st') = 2"
  by (simp add: route_def requested_tier_def sample_route_def sample_ladder start_tier_def tiers_def DEFAULT_START_TIER_def
      within_def route_loop.simps route_check_of_def gate_step_def Let_def emit_route_def verify_value_def
      next_above_def sample_start_def result_at_def)

lemma route_ceiling_respected_witness:
  "\<exists>res st'. route sample_route (\<lambda>_. None) None None sample_start = (Inr res, st')
     \<and> ra_verified (rr_attempts res ! 0) = Some False"
proof -
  obtain res st' where r: "route sample_route (\<lambda>_. None) None None sample_start = (Inr res, st')"
    and a: "map ra_tier (rr_attempts res) = [Some Fast, Some Frontier]"
    using sample_run by (elim exE conjE)
  have l: "1 < length (rr_attempts res)" using arg_cong[OF a, of length] by simp
  have "map ra_tier (rr_attempts res) ! 1 = Some Frontier" by (simp add: a)
  then have t: "ra_tier (rr_attempts res ! 1) = Some Frontier" using l by simp
  have "\<not> within Frontier (ro_ceiling sample_route)" by (simp add: sample_route_def within_def)
  from route_ceiling_respected[OF r l t this] r show ?thesis by auto
qed

lemma route_escalation_bounded_witness:
  "\<exists>res st'. route sample_route (\<lambda>_. None) None None sample_start = (Inr res, st')
     \<and> length (rs_world st') \<le> 2 \<and> climbing (map dt_tier (rs_world st'))"
proof -
  obtain res st' where r: "route sample_route (\<lambda>_. None) None None sample_start = (Inr res, st')"
    and l: "length (rs_world st') = 2"
    using sample_run by (elim exE conjE)
  have log: "\<forall>d w. id (snd (ro_dispatch sample_route d w)) = id w @ [d]"
    and q: "\<forall>f v w. ro_verify sample_route = Some f \<longrightarrow> id (snd (f v w)) = id w"
    by (auto simp: sample_route_def)
  have w: "rs_world sample_start = []" and m: "ro_max sample_route = 1"
    by (simp_all add: sample_start_def sample_route_def)
  from log q route_escalation_bounded[where calls = id and R = sample_route, OF _ _ r] obtain ds where
    "id (rs_world st') = id (rs_world sample_start) @ ds" "length ds \<le> Suc (nat (max 0 (ro_max sample_route)))"
    "ds = [] \<or> climbing (map dt_tier ds)"
    by blast
  with l w m r show ?thesis by auto
qed

lemma route_start_tier_witness:
  "\<exists>t \<in> set (tiers (from_config sample_presets)).
     start_tier (from_config sample_presets) None (Some Standard) = Inr (Some t)"
proof -
  have "from_config sample_presets \<noteq> []" by (simp add: sample_ladder)
  from route_start_tier[OF refl this, of "''fast''" "Some Standard"] show ?thesis by blast
qed

end
