(* ===== verification/Usage.thy ===== *)
theory Usage
  imports Json
begin

text \<open>
  The token-usage value of a provider call, \<open>LLMUsage\<close> of \<open>nanobot/providers/base.py\<close>: the
  checks of its constructor, the ways it is built, aggregation, and the serialized form with
  its exact reader.
\<close>

record usage =
  input_tokens :: int
  output_tokens :: int
  total_tokens :: int
  cache_read_tokens :: "int option"
  cache_write_tokens :: "int option"
  reported_tokens :: int
  estimated_tokens :: int
  generation_ms :: int
  measured_output_tokens :: int
  ttft_ms :: int
  timed_requests :: int
  context_tokens :: "int option"
  request_count :: int

definition opt0 :: "int option \<Rightarrow> int" where
  "opt0 x = (case x of None \<Rightarrow> 0 | Some v \<Rightarrow> v)"

definition usage_zero :: usage where
  "usage_zero = \<lparr>input_tokens = 0, output_tokens = 0, total_tokens = 0, cache_read_tokens = None,
     cache_write_tokens = None, reported_tokens = 0, estimated_tokens = 0, generation_ms = 0,
     measured_output_tokens = 0, ttft_ms = 0, timed_requests = 0, context_tokens = None,
     request_count = 0\<rparr>"

subsection \<open>The constructor\<close>

definition int_fields :: "usage \<Rightarrow> (string \<times> int) list" where
  "int_fields u =
     [(''input_tokens'', input_tokens u), (''output_tokens'', output_tokens u),
      (''total_tokens'', total_tokens u), (''reported_tokens'', reported_tokens u),
      (''estimated_tokens'', estimated_tokens u), (''generation_ms'', generation_ms u),
      (''measured_output_tokens'', measured_output_tokens u), (''ttft_ms'', ttft_ms u),
      (''timed_requests'', timed_requests u), (''request_count'', request_count u)]"

definition opt_fields :: "usage \<Rightarrow> (string \<times> int option) list" where
  "opt_fields u =
     [(''cache_read_tokens'', cache_read_tokens u), (''cache_write_tokens'', cache_write_tokens u),
      (''context_tokens'', context_tokens u)]"

text \<open>\<open>__post_init__\<close>: the first violated check is the \<open>ValueError\<close>.\<close>

definition LLMUsage :: "usage \<Rightarrow> (string, usage) py" where
  "LLMUsage u =
     (case find (\<lambda>(n, v). v < 0) (int_fields u) of
        Some (n, _) \<Rightarrow> Inl (n @ '' must be a non-negative integer'')
      | None \<Rightarrow>
          (case find (\<lambda>(n, v). opt0 v < 0) (opt_fields u) of
             Some (n, _) \<Rightarrow> Inl (n @ '' must be None or a non-negative integer'')
           | None \<Rightarrow>
               if total_tokens u < input_tokens u + output_tokens u
                 then Inl ''total_tokens must be at least input_tokens + output_tokens''
               else if reported_tokens u + estimated_tokens u \<noteq> total_tokens u
                 then Inl ''reported_tokens + estimated_tokens must equal total_tokens''
               else if opt0 (cache_read_tokens u) + opt0 (cache_write_tokens u) > input_tokens u
                 then Inl ''cache token counts cannot exceed logical input_tokens''
               else Inr u))"

definition usage_ok :: "usage \<Rightarrow> bool" where
  "usage_ok u \<longleftrightarrow> (\<forall>(n, v) \<in> set (int_fields u). 0 \<le> v) \<and> (\<forall>(n, v) \<in> set (opt_fields u). 0 \<le> opt0 v)
     \<and> input_tokens u + output_tokens u \<le> total_tokens u
     \<and> reported_tokens u + estimated_tokens u = total_tokens u
     \<and> opt0 (cache_read_tokens u) + opt0 (cache_write_tokens u) \<le> input_tokens u"

lemma LLMUsage_Inr: "LLMUsage u = Inr v \<longleftrightarrow> v = u \<and> usage_ok u"
proof -
  have 1: "find (\<lambda>(n, v). v < 0) xs = None \<longleftrightarrow> (\<forall>(n, v) \<in> set xs. 0 \<le> v)" for xs :: "(string \<times> int) list"
    by (auto simp: find_None_iff not_less)
  have 2: "find (\<lambda>(n, v). opt0 v < 0) xs = None \<longleftrightarrow> (\<forall>(n, v) \<in> set xs. 0 \<le> opt0 v)"
    for xs :: "(string \<times> int option) list"
    by (auto simp: find_None_iff not_less)
  show ?thesis
    unfolding LLMUsage_def usage_ok_def 1[symmetric] 2[symmetric]
    by (auto split: option.splits)
qed

lemma LLMUsage_case:
  "(case LLMUsage u of Inl _ \<Rightarrow> None | Inr v \<Rightarrow> F v) = Some w \<longleftrightarrow> usage_ok u \<and> F u = Some w"
proof (cases "LLMUsage u")
  case (Inl e)
  then have "\<not> usage_ok u" using LLMUsage_Inr[of u u] by auto
  with Inl show ?thesis by simp
next
  case (Inr v)
  then show ?thesis using LLMUsage_Inr[of u v] by auto
qed

subsection \<open>Building and aggregating\<close>

definition reported :: "int \<Rightarrow> int \<Rightarrow> int option \<Rightarrow> int option \<Rightarrow> int option \<Rightarrow> (string, usage) py" where
  "reported inp outp tot cread cwrite =
     (let visible = inp + outp;
          norm = (case tot of None \<Rightarrow> visible | Some t \<Rightarrow> max visible t)
      in LLMUsage (usage_zero\<lparr>input_tokens := inp, output_tokens := outp, total_tokens := norm,
           cache_read_tokens := cread, cache_write_tokens := cwrite, reported_tokens := norm,
           context_tokens := Some inp, request_count := 1\<rparr>))"

definition estimated :: "int \<Rightarrow> int \<Rightarrow> (string, usage) py" where
  "estimated inp outp =
     LLMUsage (usage_zero\<lparr>input_tokens := inp, output_tokens := outp, total_tokens := inp + outp,
       estimated_tokens := inp + outp, context_tokens := Some inp, request_count := 1\<rparr>)"

definition empty_request :: "(string, usage) py" where
  "empty_request = LLMUsage (usage_zero\<lparr>request_count := 1\<rparr>)"

definition usage_source :: "usage \<Rightarrow> string" where
  "usage_source u =
     (if estimated_tokens u = 0 then ''reported''
      else if reported_tokens u = 0 then ''estimated'' else ''mixed'')"

definition with_timing :: "usage \<Rightarrow> int option \<Rightarrow> int option \<Rightarrow> (string, usage) py" where
  "with_timing u gen ttft =
     LLMUsage (u\<lparr>generation_ms := max 0 (opt0 gen),
       measured_output_tokens := (if gen \<noteq> None then output_tokens u else 0),
       ttft_ms := max 0 (opt0 ttft), timed_requests := (if ttft \<noteq> None then 1 else 0)\<rparr>)"

definition sum_cache :: "int option \<Rightarrow> int option \<Rightarrow> int option" where
  "sum_cache l r = (case (l, r) of (Some a, Some b) \<Rightarrow> Some (a + b) | _ \<Rightarrow> None)"

definition usage_sum :: "usage \<Rightarrow> usage \<Rightarrow> usage" where
  "usage_sum u v =
     \<lparr>input_tokens = input_tokens u + input_tokens v, output_tokens = output_tokens u + output_tokens v,
      total_tokens = total_tokens u + total_tokens v,
      cache_read_tokens = sum_cache (cache_read_tokens u) (cache_read_tokens v),
      cache_write_tokens = sum_cache (cache_write_tokens u) (cache_write_tokens v),
      reported_tokens = reported_tokens u + reported_tokens v,
      estimated_tokens = estimated_tokens u + estimated_tokens v,
      generation_ms = generation_ms u + generation_ms v,
      measured_output_tokens = measured_output_tokens u + measured_output_tokens v,
      ttft_ms = ttft_ms u + ttft_ms v, timed_requests = timed_requests u + timed_requests v,
      context_tokens = (case context_tokens v of None \<Rightarrow> context_tokens u | Some c \<Rightarrow> Some c),
      request_count = request_count u + request_count v\<rparr>"

definition add_usage :: "usage \<Rightarrow> usage \<Rightarrow> (string, usage) py" where
  "add_usage u v = LLMUsage (usage_sum u v)"

subsection \<open>The serialized form\<close>

definition json_opt :: "int option \<Rightarrow> json" where
  "json_opt x = (case x of None \<Rightarrow> JNull | Some v \<Rightarrow> JInt v)"

definition usage_to_dict :: "usage \<Rightarrow> (string \<times> json) list" where
  "usage_to_dict u =
     [(''input_tokens'', JInt (input_tokens u)), (''output_tokens'', JInt (output_tokens u)),
      (''total_tokens'', JInt (total_tokens u)), (''cache_read_tokens'', json_opt (cache_read_tokens u)),
      (''cache_write_tokens'', json_opt (cache_write_tokens u)),
      (''reported_tokens'', JInt (reported_tokens u)), (''estimated_tokens'', JInt (estimated_tokens u)),
      (''source'', JStr (usage_source u)), (''generation_ms'', JInt (generation_ms u)),
      (''measured_output_tokens'', JInt (measured_output_tokens u)), (''ttft_ms'', JInt (ttft_ms u)),
      (''timed_requests'', JInt (timed_requests u)), (''context_tokens'', json_opt (context_tokens u)),
      (''request_count'', JInt (request_count u))]"

definition serialized_fields :: "string list" where
  "serialized_fields = map fst (usage_to_dict usage_zero)"

fun as_int :: "json option \<Rightarrow> int option" where
  "as_int (Some (JInt i)) = Some i"
| "as_int _ = None"

fun as_opt_int :: "json option \<Rightarrow> int option option" where
  "as_opt_int (Some (JInt i)) = Some (Some i)"
| "as_opt_int (Some JNull) = Some None"
| "as_opt_int _ = None"

definition usage_from_dict :: "json \<Rightarrow> usage option" where
  "usage_from_dict value =
     (case value of
        JDict data \<Rightarrow>
          (let get = dict_get data in
           if set (map fst data) \<noteq> set serialized_fields then None
           else
             Option.bind (as_int (get ''input_tokens'')) (\<lambda>inp.
             Option.bind (as_int (get ''output_tokens'')) (\<lambda>outp.
             Option.bind (as_int (get ''reported_tokens'')) (\<lambda>rep.
             Option.bind (as_int (get ''estimated_tokens'')) (\<lambda>est.
             Option.bind (as_int (get ''generation_ms'')) (\<lambda>gen.
             Option.bind (as_int (get ''measured_output_tokens'')) (\<lambda>meas.
             Option.bind (as_int (get ''ttft_ms'')) (\<lambda>ttft.
             Option.bind (as_int (get ''timed_requests'')) (\<lambda>timed.
             Option.bind (as_int (get ''request_count'')) (\<lambda>reqs.
             Option.bind (as_opt_int (get ''cache_read_tokens'')) (\<lambda>cread.
             Option.bind (as_opt_int (get ''cache_write_tokens'')) (\<lambda>cwrite.
             Option.bind (as_opt_int (get ''context_tokens'')) (\<lambda>ctx.
             Option.bind (as_int (get ''total_tokens'')) (\<lambda>total.
               (case LLMUsage \<lparr>input_tokens = inp, output_tokens = outp, total_tokens = total,
                   cache_read_tokens = cread, cache_write_tokens = cwrite, reported_tokens = rep,
                   estimated_tokens = est, generation_ms = gen, measured_output_tokens = meas,
                   ttft_ms = ttft, timed_requests = timed, context_tokens = ctx,
                   request_count = reqs\<rparr> of
                  Inl _ \<Rightarrow> None
                | Inr u \<Rightarrow> if get ''source'' \<noteq> Some (JStr (usage_source u)) then None
                           else Some u)))))))))))))))
      | _ \<Rightarrow> None)"

lemma usage_keys: "map fst (usage_to_dict w) = serialized_fields"
  by (simp add: serialized_fields_def usage_to_dict_def)

lemma serialized_distinct: "distinct serialized_fields"
  by (simp add: serialized_fields_def usage_to_dict_def)

lemma lookups_agree:
  "map g (map fst xs) = map (Some \<circ> snd) xs \<Longrightarrow> distinct (map fst xs) \<Longrightarrow> k \<in> fst ` set xs
    \<Longrightarrow> g k = dict_get xs k"
  by (induction xs) auto

lemma usage_sum_ok: "usage_ok u \<Longrightarrow> usage_ok v \<Longrightarrow> usage_ok (usage_sum u v)"
  by (auto simp: usage_ok_def usage_sum_def int_fields_def opt_fields_def sum_cache_def opt0_def
      split: option.splits)

lemma as_int_Some: "as_int x = Some i \<longleftrightarrow> x = Some (JInt i)"
  by (cases x rule: as_int.cases) auto

lemma as_opt_int_Some: "as_opt_int x = Some i \<longleftrightarrow> x = Some (json_opt i)"
  by (cases x rule: as_opt_int.cases) (auto simp: json_opt_def split: option.splits)

lemma as_opt_int_json [simp]: "as_opt_int (Some (json_opt x)) = Some x"
  by (simp add: as_opt_int_Some)

subsection \<open>Properties\<close>

text \<open>
  Claim C29: a usage value survives its serialized form, and the reader accepts nothing else:
  whatever it accepts satisfies the constructor's checks and is, key by key, the serialized
  form of the value it returns.
\<close>

theorem usage_dict_roundtrip:
  "(usage_ok u \<longrightarrow> usage_from_dict (JDict (usage_to_dict u)) = Some u)
   \<and> (usage_from_dict (JDict d) = Some w \<longrightarrow> usage_ok w \<and> dict_get d = dict_get (usage_to_dict w))"
proof (intro conjI impI)
  assume "usage_ok u"
  then have "LLMUsage u = Inr u" by (simp add: LLMUsage_Inr)
  then show "usage_from_dict (JDict (usage_to_dict u)) = Some u"
    by (cases u) (simp add: usage_from_dict_def usage_to_dict_def serialized_fields_def Let_def)
next
  assume a: "usage_from_dict (JDict d) = Some w"
  then show "usage_ok w"
    by (auto simp: usage_from_dict_def Let_def bind_eq_Some_conv LLMUsage_case split: if_splits)
  from a have k: "fst ` set d = set serialized_fields"
    by (auto simp: usage_from_dict_def Let_def split: if_splits)
  from a have "map (dict_get d) (map fst (usage_to_dict w)) = map (Some \<circ> snd) (usage_to_dict w)"
    by (auto simp: usage_from_dict_def Let_def bind_eq_Some_conv LLMUsage_case as_int_Some
        as_opt_int_Some usage_to_dict_def split: if_splits)
  from lookups_agree[OF this] have f: "\<forall>k \<in> set serialized_fields.
      dict_get d k = dict_get (usage_to_dict w) k"
    by (metis set_map usage_keys serialized_distinct)
  show "dict_get d = dict_get (usage_to_dict w)"
  proof
    fix k
    show "dict_get d k = dict_get (usage_to_dict w) k"
    proof (cases "k \<in> set serialized_fields")
      case True
      with f show ?thesis by blast
    next
      case False
      with k have "dict_get d k = None" by (simp add: map_of_eq_None_iff)
      moreover have "k \<notin> fst ` set (usage_to_dict w)"
        using False usage_keys[of w] by (metis set_map)
      ultimately show ?thesis by (metis map_of_eq_None_iff)
    qed
  qed
qed

text \<open>
  Aggregating valid usage never raises, keeps every constructor check, and does not
  depend on how the calls are grouped.
\<close>

lemma usage_aggregation:
  assumes "usage_ok u" "usage_ok v" "usage_ok w"
  shows "add_usage u v = Inr (usage_sum u v) \<and> usage_ok (usage_sum u v)
       \<and> usage_sum (usage_sum u v) w = usage_sum u (usage_sum v w)"
  using assms usage_sum_ok[of u v]
  by (auto simp: add_usage_def LLMUsage_Inr usage_sum_def sum_cache_def split: option.splits)

definition sample_usage :: usage where
  "sample_usage = usage_zero\<lparr>input_tokens := 10, output_tokens := 5, total_tokens := 20,
     reported_tokens := 20, cache_read_tokens := Some 4, context_tokens := Some 10,
     request_count := 1\<rparr>"

lemma sample_usage_ok: "usage_ok sample_usage" by code_simp

lemma usage_dict_roundtrip_witness:
  "usage_from_dict (JDict (usage_to_dict sample_usage)) = Some sample_usage"
  using usage_dict_roundtrip[of sample_usage] sample_usage_ok by blast

lemma usage_aggregation_witness:
  "add_usage sample_usage sample_usage = Inr (usage_sum sample_usage sample_usage)"
  using usage_aggregation[OF sample_usage_ok sample_usage_ok sample_usage_ok] by blast

end
