(* ===== verification/Ledger.thy ===== *)
theory Ledger
  imports Complex_Main Usage
begin

text \<open>
  The usage ledger of \<open>nanobot/kernel/ledger.py\<close>: pricing and its table, the cost of a call, who a
  call is for, the tags a record may carry, and the event built from a provider's call record.
  Money is an exact rational (the code uses floats, so its sums are these up to rounding). The
  call context variables, trace identifiers and random ids are arguments.
\<close>

definition UNATTRIBUTED :: string where "UNATTRIBUTED = ''unattributed''"
definition MAX_TAGS :: nat where "MAX_TAGS = 16"
definition MAX_TAG_KEY :: nat where "MAX_TAG_KEY = 64"
definition MAX_TAG_VALUE :: nat where "MAX_TAG_VALUE = 120"
definition MAX_TAGS_BYTES :: nat where "MAX_TAGS_BYTES = 2048"
definition MAX_LABEL :: nat where "MAX_LABEL = 200"
definition TAGS_TRUNCATED :: string where "TAGS_TRUNCATED = ''moeka.tags_truncated''"

subsection \<open>Tags\<close>

text \<open>\<open>str(value)\<close> of a scalar; other values never reach it.\<close>

fun scalar_str :: "json \<Rightarrow> string" where
  "scalar_str JNull = ''None''"
| "scalar_str (JBool b) = (if b then ''True'' else ''False'')"
| "scalar_str (JInt i) = int_str i"
| "scalar_str (JFloat r) = r"
| "scalar_str (JStr s) = s"
| "scalar_str (JOther s) = s"
| "scalar_str _ = []"

fun tag_value_ok :: "json \<Rightarrow> bool" where
  "tag_value_ok JNull = True"
| "tag_value_ok (JBool b) = True"
| "tag_value_ok (JInt i) = True"
| "tag_value_ok (JFloat r) = (r \<notin> {''nan'', ''inf'', ''-inf''})"
| "tag_value_ok (JStr s) = (length s \<le> MAX_TAG_VALUE)"
| "tag_value_ok _ = False"

definition tag_ok :: "string \<Rightarrow> json \<Rightarrow> bool" where
  "tag_ok key v \<longleftrightarrow> length key \<le> MAX_TAG_KEY \<and> tag_value_ok v"

definition tag_entry_size :: "string \<Rightarrow> json \<Rightarrow> nat" where
  "tag_entry_size key v = length key + length (scalar_str v) + 8"

text \<open>The loop: what is kept so far, its size and whether anything was dropped.\<close>

fun sanitize_loop :: "(string \<times> json) list \<Rightarrow> nat \<Rightarrow> bool \<Rightarrow> (string, json) dict
     \<Rightarrow> (string, json) dict \<times> bool" where
  "sanitize_loop out size_now dropped [] = (out, dropped)"
| "sanitize_loop out size_now dropped ((key, v) # rest) =
     (if \<not> tag_ok key v \<or> length out \<ge> MAX_TAGS then sanitize_loop out size_now True rest
      else if size_now + tag_entry_size key v > MAX_TAGS_BYTES then sanitize_loop out size_now True rest
      else sanitize_loop (dict_set out key v) (size_now + tag_entry_size key v) dropped rest)"

definition sanitize_tags :: "(string, json) dict \<Rightarrow> (string, json) dict" where
  "sanitize_tags tags =
     (if tags = [] then []
      else (case sanitize_loop [] 2 False tags of
              (out, dropped) \<Rightarrow> if dropped then dict_set out TAGS_TRUNCATED (JBool True) else out))"

definition clip :: "string option \<Rightarrow> string option" where
  "clip v = map_option (take MAX_LABEL) v"

subsection \<open>Attribution\<close>

record attribution =
  at_consumer :: "string option"
  at_agent :: "string option"
  at_session :: "string option"
  at_role :: "string option"
  at_purpose :: "string option"

definition no_attribution :: attribution where
  "no_attribution = \<lparr>at_consumer = None, at_agent = None, at_session = None, at_role = None,
                     at_purpose = None\<rparr>"

definition first_some :: "'a option \<Rightarrow> 'a option \<Rightarrow> 'a option" where
  "first_some x y = (case x of Some v \<Rightarrow> Some v | None \<Rightarrow> y)"

definition attr_over :: "attribution \<Rightarrow> attribution option \<Rightarrow> attribution" where
  "attr_over a base =
     (case base of
        None \<Rightarrow> a
      | Some b \<Rightarrow>
          \<lparr>at_consumer = first_some (at_consumer a) (at_consumer b),
           at_agent = first_some (at_agent a) (at_agent b),
           at_session = first_some (at_session a) (at_session b),
           at_role = first_some (at_role a) (at_role b),
           at_purpose = first_some (at_purpose a) (at_purpose b)\<rparr>)"

text \<open>\<open>bind_attribution\<close>: what nested calls see.\<close>

definition bind_attribution :: "attribution \<Rightarrow> attribution option \<Rightarrow> attribution option" where
  "bind_attribution a ambient = Some (attr_over a ambient)"

subsection \<open>Pricing\<close>

record pricing =
  pr_tier :: "string option"
  price_in :: "rat option"
  price_out :: "rat option"
  price_cache_read :: "rat option"

datatype pricing_key = Exact string string | Wild string

record pricing_table =
  pt_exact :: "string \<times> string \<Rightarrow> pricing option"
  pt_wild :: "string \<Rightarrow> pricing option"
  pt_ambiguous :: "string list"
  pt_collisions :: "(pricing_key \<times> pricing \<times> pricing) list"

definition empty_table :: pricing_table where
  "empty_table = \<lparr>pt_exact = (\<lambda>_. None), pt_wild = (\<lambda>_. None), pt_ambiguous = [], pt_collisions = []\<rparr>"

fun add_pricing :: "pricing_table \<Rightarrow> pricing_key \<times> pricing \<Rightarrow> pricing_table" where
  "add_pricing T (Exact p m, pr) =
     (case pt_exact T (p, m) of
        None \<Rightarrow> T\<lparr>pt_exact := (pt_exact T)((p, m) \<mapsto> pr)\<rparr>
      | Some kept \<Rightarrow> if kept = pr then T
                     else T\<lparr>pt_collisions := pt_collisions T @ [(Exact p m, kept, pr)]\<rparr>)"
| "add_pricing T (Wild m, pr) =
     (case pt_wild T m of
        None \<Rightarrow> T\<lparr>pt_wild := (pt_wild T)(m \<mapsto> pr)\<rparr>
      | Some kept \<Rightarrow> if kept = pr then T
                     else T\<lparr>pt_ambiguous := m # pt_ambiguous T,
                            pt_collisions := pt_collisions T @ [(Wild m, kept, pr)]\<rparr>)"

definition pricing_table_of :: "(pricing_key \<times> pricing) list \<Rightarrow> pricing_table" where
  "pricing_table_of entries = foldl add_pricing empty_table entries"

definition lookup_pricing :: "pricing_table \<Rightarrow> string \<Rightarrow> string \<Rightarrow> pricing option" where
  "lookup_pricing T p m =
     (case pt_exact T (p, m) of
        Some pr \<Rightarrow> Some pr
      | None \<Rightarrow> if m \<in> set (pt_ambiguous T) then None else pt_wild T m)"

text \<open>The reference: the first exact price, else the wildcard price all entries agree on.\<close>

definition price_spec :: "(pricing_key \<times> pricing) list \<Rightarrow> string \<Rightarrow> string \<Rightarrow> pricing option" where
  "price_spec entries p m =
     (case map snd (filter (\<lambda>(k, _). k = Exact p m) entries) of
        pr # _ \<Rightarrow> Some pr
      | [] \<Rightarrow> (case map snd (filter (\<lambda>(k, _). k = Wild m) entries) of
                 [] \<Rightarrow> None
               | pr # prs \<Rightarrow> if \<forall>q \<in> set prs. q = pr then Some pr else None))"

definition PER_MTOK :: rat where "PER_MTOK = 1000000"

definition is_local :: "string option \<Rightarrow> bool" where
  "is_local tier \<longleftrightarrow> tier = Some ''local''"

text \<open>\<open>compute_cost\<close>: \<^term>\<open>None\<close> when the cost cannot be known.\<close>

definition compute_cost :: "usage option \<Rightarrow> pricing \<Rightarrow> rat option" where
  "compute_cost u pr =
     (if is_local (pr_tier pr) \<and> price_in pr = None \<and> price_out pr = None \<and> price_cache_read pr = None
        then Some 0
      else (case (u, price_in pr, price_out pr) of
              (Some us, Some pin, Some pout) \<Rightarrow>
                (let cread = opt0 (cache_read_tokens us) in
                 if cread \<noteq> 0 \<and> price_cache_read pr = None then None
                 else
                   let uncached = max 0 (input_tokens us - cread);
                       cost = of_int uncached * pin + of_int (output_tokens us) * pout;
                       cost2 = (if cread \<noteq> 0
                                then cost + of_int cread * (case price_cache_read pr of Some c \<Rightarrow> c | None \<Rightarrow> 0)
                                else cost)
                   in Some (cost2 / PER_MTOK))
            | _ \<Rightarrow> None))"

subsection \<open>Call records and ledger events\<close>

record call_record =
  cr_started_at_ms :: int
  cr_duration_ms :: int
  cr_provider :: string
  cr_model :: string
  cr_source :: string
  cr_stream :: bool
  cr_finish_reason :: "string option"
  cr_usage :: "usage option"
  cr_error_status_code :: "int option"
  cr_error_kind :: "string option"
  cr_tier :: "string option"
  cr_cost_usd :: "rat option"
  cr_key_fp :: "string option"
  cr_requested_preset :: "string option"
  cr_fallback_reason :: "string option"
  cr_instance_uuid :: "string option"

record ledger_event =
  le_trace_id :: "string option"
  le_slot :: "string option"
  le_tier :: "string option"
  le_model :: string
  le_provider :: string
  le_tokens_in :: int
  le_tokens_out :: int
  le_tokens_cache_read :: "int option"
  le_latency_ms :: "int option"
  le_cost_usd :: "rat option"
  le_source :: string
  le_usage_source :: string
  le_finish_reason :: "string option"
  le_call_id :: "string option"
  le_alias :: "string option"
  le_attempt :: "int option"
  le_cached :: bool
  le_tags :: "(string, json) dict"
  le_consumer :: string
  le_who :: attribution
  le_tokens_cache_write :: "int option"
  le_tokens_reasoning :: "int option"
  le_price_source :: string
  le_outcome :: string
  le_error_kind :: "string option"
  le_started_at_ms :: "int option"
  le_request_key :: "string option"
  le_prompt_version :: "string option"
  le_parent_call_id :: "string option"
  le_key_fp :: "string option"
  le_requested_preset :: "string option"
  le_fallback_reason :: "string option"
  le_instance_uuid :: "string option"

text \<open>
  \<open>le_who\<close> holds the fields agent, session, role and purpose (and the unfilled consumer); the
  waste label fields, which no code of the ledger sets, are left out.

  \<open>CallAttribution\<close>: the mutable record of one logical call (its \<open>on_event\<close> hook is the caller's).
\<close>

record call_ctx =
  cc_call_id :: string
  cc_alias :: "string option"
  cc_tags :: "(string, json) dict"
  cc_cached :: bool
  cc_attempts :: int
  cc_cost_usd :: "rat option"
  cc_who :: "attribution option"
  cc_request_key :: "string option"
  cc_prompt_version :: "string option"
  cc_parent_call_id :: "string option"

text \<open>The context variables an event reads: trace id, usage slot and bound attribution.\<close>

record ambient =
  am_trace_id :: "string option"
  am_slot :: "string option"
  am_who :: "attribution option"

definition hidden_output :: "usage option \<Rightarrow> int" where
  "hidden_output u =
     (case u of None \<Rightarrow> 0
      | Some us \<Rightarrow> if reported_tokens us = 0 then 0
                   else max 0 (total_tokens us - input_tokens us - output_tokens us))"

text \<open>\<open>enrich\<close>: hidden output is priced and stored, then tier and cost are filled in.\<close>

definition enrich :: "pricing_table \<Rightarrow> call_record \<Rightarrow> call_record" where
  "enrich T r =
     (let hidden = hidden_output (cr_usage r);
          r1 = (case cr_usage r of
                  None \<Rightarrow> r
                | Some us \<Rightarrow> if hidden \<noteq> 0
                    then r\<lparr>cr_usage := Some (us\<lparr>output_tokens := output_tokens us + hidden\<rparr>)\<rparr> else r)
      in case lookup_pricing T (cr_provider r) (cr_model r) of
           None \<Rightarrow> r1
         | Some pr \<Rightarrow> r1\<lparr>cr_tier := pr_tier pr, cr_cost_usd := compute_cost (cr_usage r1) pr\<rparr>)"

definition outcome :: "call_record \<Rightarrow> string" where
  "outcome r =
     (if cr_error_kind r = Some ''timeout'' then ''timeout''
      else
        let why = lower (strip (case cr_finish_reason r of None \<Rightarrow> [] | Some s \<Rightarrow> s)) in
        if why = ''cancelled'' then ''cancelled''
        else if why = ''error'' \<or> cr_error_kind r \<noteq> None then ''error''
        else if why = ''length'' then ''truncated'' else ''ok'')"

definition price_source :: "call_record \<Rightarrow> string" where
  "price_source r =
     (case cr_cost_usd r of
        None \<Rightarrow> ''none''
      | Some c \<Rightarrow> if is_local (cr_tier r) \<and> c = 0 then ''local_zero'' else ''price_table'')"

definition usage_source_of :: "usage option \<Rightarrow> string" where
  "usage_source_of u = (case u of None \<Rightarrow> ''none'' | Some us \<Rightarrow> usage_source us)"

definition cost_is_billed :: "ledger_event \<Rightarrow> bool" where
  "cost_is_billed e =
     (case le_cost_usd e of
        None \<Rightarrow> False
      | Some c \<Rightarrow> (is_local (le_tier e) \<and> c = 0) \<or> le_usage_source e = ''reported'')"

definition record_id :: "ledger_event \<Rightarrow> string" where
  "record_id e =
     (case le_call_id e of None \<Rightarrow> ''direct'' | Some c \<Rightarrow> if c = [] then ''direct'' else c) @ '':'' @
     int_str (case le_attempt e of None \<Rightarrow> 1 | Some a \<Rightarrow> if a = 0 then 1 else a)"

text \<open>
  \<open>_event\<close> for an enriched record: \<open>call\<close> is the call context, \<open>amb\<close> the other context variables,
  \<open>fresh\<close> the id given to a call made outside the kernel's LLM layer.
\<close>

definition ledger_event_of ::
  "call_ctx option \<Rightarrow> ambient \<Rightarrow> string option \<Rightarrow> string \<Rightarrow> bool \<Rightarrow> int option \<Rightarrow> int
     \<Rightarrow> call_record \<Rightarrow> ledger_event" where
  "ledger_event_of call amb default_consumer fresh direct_ids attempt hidden r =
     (let att = (case call of
            Some c \<Rightarrow> (case attempt of Some a \<Rightarrow> Some a
                       | None \<Rightarrow> if cc_attempts c = 0 then None else Some (cc_attempts c))
          | None \<Rightarrow> attempt);
          own = (case Option.bind call cc_who of None \<Rightarrow> no_attribution | Some a \<Rightarrow> a);
          who = attr_over (attr_over own (am_who amb)) (Some (no_attribution\<lparr>at_consumer := default_consumer\<rparr>));
          direct = direct_ids \<and> call = None
      in \<lparr>le_trace_id = am_trace_id amb, le_slot = am_slot amb, le_tier = cr_tier r, le_model = cr_model r, le_provider = cr_provider r,
          le_tokens_in = (case cr_usage r of None \<Rightarrow> 0 | Some u \<Rightarrow> input_tokens u),
          le_tokens_out = (case cr_usage r of None \<Rightarrow> 0 | Some u \<Rightarrow> output_tokens u),
          le_tokens_cache_read = Option.bind (cr_usage r) cache_read_tokens,
          le_latency_ms = Some (cr_duration_ms r),
          le_cost_usd = cr_cost_usd r, le_source = cr_source r,
          le_usage_source = usage_source_of (cr_usage r), le_finish_reason = cr_finish_reason r,
          le_call_id = (if direct then Some (''direct-'' @ fresh) else map_option cc_call_id call),
          le_alias = Option.bind call cc_alias,
          le_attempt = (if direct then Some 1 else att),
          le_cached = (case call of None \<Rightarrow> False | Some c \<Rightarrow> cc_cached c),
          le_tags = (case call of None \<Rightarrow> [] | Some c \<Rightarrow> cc_tags c),
          le_consumer = (case clip (at_consumer who) of None \<Rightarrow> UNATTRIBUTED
                         | Some c \<Rightarrow> if c = [] then UNATTRIBUTED else c),
          le_who = \<lparr>at_consumer = clip (at_consumer who), at_agent = clip (at_agent who),
                    at_session = clip (at_session who), at_role = clip (at_role who),
                    at_purpose = clip (at_purpose who)\<rparr>,
          le_tokens_cache_write = Option.bind (cr_usage r) cache_write_tokens,
          le_tokens_reasoning = (if hidden = 0 then None else Some hidden),
          le_price_source = price_source r, le_outcome = outcome r,
          le_error_kind = cr_error_kind r, le_started_at_ms = Some (cr_started_at_ms r),
          le_request_key = Option.bind call cc_request_key,
          le_prompt_version = Option.bind call cc_prompt_version,
          le_parent_call_id = Option.bind call cc_parent_call_id,
          le_key_fp = cr_key_fp r, le_requested_preset = cr_requested_preset r,
          le_fallback_reason = cr_fallback_reason r, le_instance_uuid = cr_instance_uuid r\<rparr>)"

text \<open>
  \<open>LedgerObserver.__call__\<close>: one physical attempt. The call's attempt counter and last cost
  move on, the event carries the new attempt number, and the superseded attempt (if any) is
  labelled.
\<close>

definition observe ::
  "pricing_table \<Rightarrow> ambient \<Rightarrow> string option \<Rightarrow> string \<Rightarrow> call_record \<Rightarrow> call_ctx option
     \<Rightarrow> ledger_event \<times> call_ctx option" where
  "observe T ambient default_consumer fresh r call =
     (let e = enrich T r;
          call' = map_option (\<lambda>c. c\<lparr>cc_attempts := cc_attempts c + 1, cc_cost_usd := cr_cost_usd e\<rparr>) call
      in (ledger_event_of call' ambient default_consumer fresh True (map_option cc_attempts call')
            (hidden_output (cr_usage r)) e, call'))"

definition superseded_attempt :: "ledger_event \<Rightarrow> (string \<times> int) option" where
  "superseded_attempt e =
     (case le_call_id e of
        None \<Rightarrow> None
      | Some c \<Rightarrow> (let a = opt0 (le_attempt e) in if a < 2 then None else Some (c, a - 1)))"


subsection \<open>The pricing table against its reference\<close>

definition keyed :: "pricing_key \<Rightarrow> (pricing_key \<times> pricing) list \<Rightarrow> pricing list" where
  "keyed k entries = map snd (filter (\<lambda>(k', _). k' = k) entries)"

definition first_of :: "'a list \<Rightarrow> 'a option" where
  "first_of xs = (case xs of [] \<Rightarrow> None | x # _ \<Rightarrow> Some x)"

lemma keyed_snoc: "keyed k (xs @ [(k', pr)]) = keyed k xs @ (if k' = k then [pr] else [])"
  by (simp add: keyed_def)

lemma first_of_snoc: "first_of (xs @ [x]) = (case first_of xs of None \<Rightarrow> Some x | Some y \<Rightarrow> Some y)"
  by (cases xs) (auto simp: first_of_def)

lemma pricing_table_snoc: "pricing_table_of (xs @ [x]) = add_pricing (pricing_table_of xs) x"
  by (simp add: pricing_table_of_def)

lemma table_exact: "pt_exact (pricing_table_of xs) (p, m) = first_of (keyed (Exact p m) xs)"
proof (induction xs rule: rev_induct)
  case Nil
  then show ?case by (simp add: pricing_table_of_def empty_table_def keyed_def first_of_def)
next
  case (snoc x xs)
  obtain k pr where x: "x = (k, pr)" by fastforce
  show ?case
    using snoc unfolding x pricing_table_snoc keyed_snoc
    by (cases k) (auto simp: first_of_snoc split: option.splits)
qed

lemma table_wild: "pt_wild (pricing_table_of xs) m = first_of (keyed (Wild m) xs)"
proof (induction xs rule: rev_induct)
  case Nil
  then show ?case by (simp add: pricing_table_of_def empty_table_def keyed_def first_of_def)
next
  case (snoc x xs)
  obtain k pr where x: "x = (k, pr)" by fastforce
  show ?case
    using snoc unfolding x pricing_table_snoc keyed_snoc
    by (cases k) (auto simp: first_of_snoc split: option.splits)
qed

lemma table_ambiguous:
  "m \<in> set (pt_ambiguous (pricing_table_of xs)) \<longleftrightarrow>
     (\<exists>q \<in> set (keyed (Wild m) xs). first_of (keyed (Wild m) xs) \<noteq> Some q)"
proof (induction xs rule: rev_induct)
  case Nil
  then show ?case by (simp add: pricing_table_of_def empty_table_def keyed_def)
next
  case (snoc x xs)
  obtain k pr where x: "x = (k, pr)" by fastforce
  show ?case
  proof (cases "k = Wild m")
    case True
    then show ?thesis
      using snoc table_wild[of xs m] unfolding x pricing_table_snoc keyed_snoc
      by (cases "keyed (Wild m) xs") (auto simp: first_of_def)
  next
    case False
    then have "m \<in> set (pt_ambiguous (add_pricing (pricing_table_of xs) (k, pr)))
        \<longleftrightarrow> m \<in> set (pt_ambiguous (pricing_table_of xs))"
      by (cases k) (auto split: option.splits)
    with False snoc show ?thesis unfolding x pricing_table_snoc keyed_snoc by simp
  qed
qed

text \<open>
  The pricing table gives what its reference says, in whatever order prices are
  added: the first price given for the exact pair, else the model's wildcard price when all
  wildcard entries agree; a price given for another provider is never borrowed.
\<close>

lemma pricing_lookup_spec:
  "lookup_pricing (pricing_table_of entries) p m = price_spec entries p m"
proof -
  have e: "map snd (filter (\<lambda>(k, _). k = K) entries) = keyed K entries" for K
    by (simp add: keyed_def)
  show ?thesis
    unfolding lookup_pricing_def price_spec_def e table_exact table_wild table_ambiguous
    by (auto simp: first_of_def split: list.splits)
qed

subsection \<open>Bounds of sanitized tags\<close>

definition kept_size :: "(string, json) dict \<Rightarrow> nat" where
  "kept_size d = sum_list (map (\<lambda>(k, v). tag_entry_size k v) d)"

definition tags_within :: "nat \<Rightarrow> (string, json) dict \<Rightarrow> bool" where
  "tags_within n d \<longleftrightarrow> length d \<le> MAX_TAGS \<and> list_all (\<lambda>(k, v). tag_ok k v) d \<and> kept_size d + 2 \<le> n"

lemma sanitize_loop_within:
  assumes "sanitize_loop out n dropped tags = (out', dr)" "distinct (map fst (out @ tags))"
    and "tags_within n out" "n \<le> MAX_TAGS_BYTES"
  shows "tags_within MAX_TAGS_BYTES out' \<and> set out' \<subseteq> set (out @ tags)
       \<and> (dr \<longleftrightarrow> dropped \<or> out' \<noteq> out @ tags) \<and> dict_wf out'"
  using assms
proof (induction out n dropped tags rule: sanitize_loop.induct)
  case (1 out n dropped)
  then show ?case by (auto simp: tags_within_def)
next
  case (2 out n dropped key v rest)
  let ?skip = "\<not> tag_ok key v \<or> length out \<ge> MAX_TAGS \<or> n + tag_entry_size key v > MAX_TAGS_BYTES"
  show ?case
  proof (cases ?skip)
    case True
    then have l: "sanitize_loop out n True rest = (out', dr)" using 2(4) by (auto split: if_splits)
    have d: "distinct (map fst (out @ rest))" using 2(5) by auto
    have IH: "tags_within MAX_TAGS_BYTES out' \<and> set out' \<subseteq> set (out @ rest)
       \<and> (dr \<longleftrightarrow> True \<or> out' \<noteq> out @ rest) \<and> dict_wf out'"
    proof (cases "\<not> tag_ok key v \<or> length out \<ge> MAX_TAGS")
      case True
      show ?thesis by (rule 2(1)[OF True l d 2(6,7)])
    next
      case False
      then have "n + tag_entry_size key v > MAX_TAGS_BYTES" using \<open>?skip\<close> by blast
      then show ?thesis using 2(2)[OF False _ l d 2(6,7)] by blast
    qed
    have "key \<notin> fst ` set (out @ rest)" using 2(5) by auto
    then have "(key, v) \<notin> set (out @ rest)" by (metis fst_conv image_eqI)
    then have "(key, v) \<notin> set out'" using IH by blast
    then have "out' \<noteq> out @ (key, v) # rest" by auto
    with IH show ?thesis by auto
  next
    case False
    have f: "dict_set out key v = out @ [(key, v)]" using 2(5) by (intro dict_set_fresh) auto
    have l: "sanitize_loop (dict_set out key v) (n + tag_entry_size key v) dropped rest = (out', dr)"
      using False 2(4) by simp
    have w: "tags_within (n + tag_entry_size key v) (dict_set out key v)"
      using 2(6) False by (simp add: f tags_within_def kept_size_def)
    have d: "distinct (map fst (dict_set out key v @ rest))" using 2(5) by (simp add: f)
    have a: "\<not> (\<not> tag_ok key v \<or> length out \<ge> MAX_TAGS)" "\<not> n + tag_entry_size key v > MAX_TAGS_BYTES"
      using False by auto
    from 2(3)[OF a l d w] a(2) show ?thesis by (simp add: f)
  qed
qed

text \<open>
  Whatever tags the host passes, a record carries at most 16 of them (plus the
  marker), each with a short key and a short scalar, within the byte budget; nothing is
  altered, and the marker is there exactly when something was dropped.
\<close>

lemma sanitize_tags_bounded:
  assumes "dict_wf tags" "TAGS_TRUNCATED \<notin> fst ` set tags"
  shows "\<exists>kept. tags_within MAX_TAGS_BYTES kept \<and> set kept \<subseteq> set tags
       \<and> sanitize_tags tags = kept @ (if kept = tags then [] else [(TAGS_TRUNCATED, JBool True)])"
proof (cases "tags = []")
  case True
  then show ?thesis
    by (intro exI[of _ "[]"])
      (simp add: sanitize_tags_def tags_within_def kept_size_def MAX_TAGS_def MAX_TAGS_BYTES_def)
next
  case False
  obtain out dr where l: "sanitize_loop [] 2 False tags = (out, dr)" by fastforce
  have "tags_within 2 []" by (simp add: tags_within_def kept_size_def)
  from sanitize_loop_within[OF l _ this] assms(1)
  have w: "tags_within MAX_TAGS_BYTES out" "set out \<subseteq> set tags" "dr \<longleftrightarrow> out \<noteq> tags"
    by (auto simp: MAX_TAGS_BYTES_def)
  then have "TAGS_TRUNCATED \<notin> fst ` set out" using assms(2) by auto
  with w l False show ?thesis
    by (intro exI[of _ out]) (simp add: sanitize_tags_def dict_set_fresh)
qed

lemma sanitize_tags_bounded_witness:
  "\<exists>kept. tags_within MAX_TAGS_BYTES kept \<and> set kept \<subseteq> {(''stage'', JStr ''plan''), (''blob'', JList [])}
     \<and> sanitize_tags [(''stage'', JStr ''plan''), (''blob'', JList [])]
       = kept @ (if kept = [(''stage'', JStr ''plan''), (''blob'', JList [])] then []
                 else [(TAGS_TRUNCATED, JBool True)])"
proof -
  have "dict_wf [(''stage'', JStr ''plan''), (''blob'', JList [])]"
    "TAGS_TRUNCATED \<notin> fst ` set [(''stage'', JStr ''plan''), (''blob'', JList [])]"
    by (simp_all add: TAGS_TRUNCATED_def)
  from sanitize_tags_bounded[OF this] show ?thesis by simp
qed

subsection \<open>Attempts of one call\<close>

fun observe_all ::
  "pricing_table \<Rightarrow> ambient \<Rightarrow> string option \<Rightarrow> string \<Rightarrow> call_record list \<Rightarrow> call_ctx
     \<Rightarrow> ledger_event list \<times> call_ctx" where
  "observe_all T ambient dc fresh [] c = ([], c)"
| "observe_all T ambient dc fresh (r # rs) c =
     (case observe T ambient dc fresh r (Some c) of
        (e, c') \<Rightarrow> (case observe_all T ambient dc fresh rs (case c' of None \<Rightarrow> c | Some x \<Rightarrow> x) of
                      (es, c'') \<Rightarrow> (e # es, c'')))"

lemma observe_call:
  "observe T ambient dc fresh r (Some c) = (e, c') \<Longrightarrow>
     \<exists>x. c' = Some x \<and> cc_attempts x = cc_attempts c + 1 \<and> cc_call_id x = cc_call_id c
       \<and> cc_cost_usd x = le_cost_usd e \<and> le_attempt e = Some (cc_attempts c + 1)
       \<and> le_call_id e = Some (cc_call_id c)"
  by (auto simp: observe_def ledger_event_of_def Let_def)

lemma observe_all_numbers:
  "observe_all T ambient dc fresh rs c = (es, c') \<Longrightarrow>
     map le_attempt es = map (\<lambda>i. Some (cc_attempts c + 1 + int i)) [0..<length rs]
     \<and> (\<forall>e \<in> set es. le_call_id e = Some (cc_call_id c))
     \<and> (rs \<noteq> [] \<longrightarrow> cc_cost_usd c' = le_cost_usd (last es))
     \<and> cc_attempts c' = cc_attempts c + int (length rs) \<and> length es = length rs"
proof (induction rs arbitrary: c es)
  case (Cons r rs)
  obtain e x es' where o: "observe T ambient dc fresh r (Some c) = (e, Some x)"
    and n: "cc_attempts x = cc_attempts c + 1" "cc_call_id x = cc_call_id c"
      "cc_cost_usd x = le_cost_usd e" "le_attempt e = Some (cc_attempts c + 1)"
      "le_call_id e = Some (cc_call_id c)"
    and a: "observe_all T ambient dc fresh rs x = (es', c')" and es: "es = e # es'"
  proof -
    obtain e c1 where o: "observe T ambient dc fresh r (Some c) = (e, c1)" by fastforce
    from observe_call[OF o] obtain x where x: "c1 = Some x" by blast
    from observe_call[OF o] x Cons.prems o show ?thesis
      by (intro that[of e x "tl es"]) (auto split: prod.splits)
  qed
  from Cons.IH[OF a] n a show ?case
    by (cases rs) (auto simp: es upt_conv_Cons map_Suc_upt[symmetric] simp del: upt_Suc)
qed simp

text \<open>
  The physical attempts of one logical call are numbered 1, 2, ... in the order the
  provider reports them; each attempt but the last is labelled superseded exactly once, and
  the call ends with the cost of its last attempt.
\<close>

lemma attempts_numbered:
  assumes "observe_all T ambient dc fresh rs c = (es, c')" "cc_attempts c = 0"
  shows "map le_attempt es = map (\<lambda>i. Some (1 + int i)) [0..<length rs]
       \<and> map superseded_attempt es
         = map (\<lambda>i. if i = 0 then None else Some (cc_call_id c, int i)) [0..<length rs]
       \<and> (rs \<noteq> [] \<longrightarrow> cc_cost_usd c' = le_cost_usd (last es))"
proof -
  from observe_all_numbers[OF assms(1)] assms(2)
  have n: "map le_attempt es = map (\<lambda>i. Some (1 + int i)) [0..<length rs]"
    and ids: "\<forall>e \<in> set es. le_call_id e = Some (cc_call_id c)" and l: "length es = length rs"
    and co: "rs \<noteq> [] \<longrightarrow> cc_cost_usd c' = le_cost_usd (last es)"
    by auto
  have "superseded_attempt (es ! i) = (if i = 0 then None else Some (cc_call_id c, int i))"
    if "i < length rs" for i
  proof -
    from n l that have "le_attempt (es ! i) = Some (1 + int i)"
      by (metis (no_types, lifting) add.left_neutral diff_zero length_map length_upt nth_map nth_upt)
    moreover from ids l that have "le_call_id (es ! i) = Some (cc_call_id c)" by auto
    ultimately show ?thesis by (simp add: superseded_attempt_def opt0_def)
  qed
  then have "map superseded_attempt es
         = map (\<lambda>i. if i = 0 then None else Some (cc_call_id c, int i)) [0..<length rs]"
    by (intro nth_equalityI) (auto simp: l)
  with n co show ?thesis by blast
qed

definition sample_record :: call_record where
  "sample_record = \<lparr>cr_started_at_ms = 0, cr_duration_ms = 5, cr_provider = ''p'', cr_model = ''m'',
     cr_source = ''agent'', cr_stream = False, cr_finish_reason = Some ''stop'', cr_usage = Some sample_usage,
     cr_error_status_code = None, cr_error_kind = None, cr_tier = None, cr_cost_usd = None,
     cr_key_fp = None, cr_requested_preset = None, cr_fallback_reason = None, cr_instance_uuid = None\<rparr>"

definition sample_ctx :: call_ctx where
  "sample_ctx = \<lparr>cc_call_id = ''c1'', cc_alias = None, cc_tags = [], cc_cached = False, cc_attempts = 0,
     cc_cost_usd = None, cc_who = None, cc_request_key = None, cc_prompt_version = None,
     cc_parent_call_id = None\<rparr>"

definition no_ambient :: ambient where
  "no_ambient = \<lparr>am_trace_id = None, am_slot = None, am_who = None\<rparr>"

lemma attempts_numbered_witness:
  "map le_attempt (fst (observe_all empty_table no_ambient None ''x'' [sample_record, sample_record] sample_ctx))
     = [Some 1, Some 2]"
proof -
  obtain es c' where o: "observe_all empty_table no_ambient None ''x'' [sample_record, sample_record] sample_ctx
      = (es, c')" by fastforce
  have "cc_attempts sample_ctx = 0" by (simp add: sample_ctx_def)
  from attempts_numbered[OF o this] o show ?thesis by (simp add: upt_rec)
qed

end
