(* ===== verification/Budget.thy ===== *)
theory Budget
  imports Ledger
begin

text \<open>
  Estimates, caps and the reference budget of \<open>nanobot/kernel/budget.py\<close>. A reservation is a
  mutable object of the code: the state keeps them in a list and a handle is an index. The value
  of a tag scope is a type variable (a JSON value here, its text in the shared budget), taken up
  to Python's equality of dictionary keys; tags are frozen, hence hashable. The
  formatted message of a refusal is left out; its reason code and scope are kept. The interface
  between the kernel and a budget is the locale \<open>budget_contract\<close>.
\<close>

subsection \<open>Estimates\<close>

definition IMAGE_TOKENS :: int where "IMAGE_TOKENS = 1600"
definition REPROMPT_OVERHEAD_TOKENS :: int where "REPROMPT_OVERHEAD_TOKENS = 256"

definition IMAGE_PART_TYPES :: "string list" where
  "IMAGE_PART_TYPES = [''image_url'', ''image'', ''input_image'']"

record 'v estimate =
  es_call_id :: string
  es_alias :: "string option"
  es_model :: string
  es_provider :: string
  es_prompt_tokens :: int
  es_max_output_tokens :: int
  es_rounds :: int
  es_worst_tokens :: int
  es_worst_usd :: "rat option"
  es_tags :: "(string, 'v) dict"
  es_attribution :: "attribution option"

fun is_image_part :: "json \<Rightarrow> bool" where
  "is_image_part (JDict kvs) =
     (case dict_get kvs ''type'' of Some (JStr t) \<Rightarrow> t \<in> set IMAGE_PART_TYPES | _ \<Rightarrow> False)"
| "is_image_part _ = False"

text \<open>A message is a dictionary.\<close>

definition count_images :: "(string, json) dict list \<Rightarrow> int" where
  "count_images messages =
     sum_list (map (\<lambda>m. case dict_get m ''content'' of
                     Some (JList parts) \<Rightarrow> int (length (filter is_image_part parts))
                   | _ \<Rightarrow> 0) messages)"

text \<open>\<open>text_tokens\<close> is the tokenizer's estimate of the text.\<close>

definition prompt_tokens_of :: "((string, json) dict list \<Rightarrow> int) \<Rightarrow> (string, json) dict list \<Rightarrow> int" where
  "prompt_tokens_of text_tokens messages = text_tokens messages + IMAGE_TOKENS * count_images messages"

definition price_tokens :: "pricing option \<Rightarrow> int \<Rightarrow> int \<Rightarrow> rat option" where
  "price_tokens pricing inp outp =
     (case pricing of
        None \<Rightarrow> None
      | Some p \<Rightarrow>
          if is_local (pr_tier p) \<and> price_in p = None \<and> price_out p = None then Some 0
          else (case (price_in p, price_out p) of
                  (Some pin, Some pout) \<Rightarrow> Some ((of_int inp * pin + of_int outp * pout) / PER_MTOK)
                | _ \<Rightarrow> None))"

definition build_estimate ::
  "string \<Rightarrow> string option \<Rightarrow> string \<Rightarrow> string \<Rightarrow> int \<Rightarrow> int \<Rightarrow> int \<Rightarrow> int \<Rightarrow> pricing option
     \<Rightarrow> (string, 'v) dict \<Rightarrow> attribution option \<Rightarrow> 'v estimate" where
  "build_estimate call_id alias model provider prompt max_out rounds reprompts pricing tags who =
     (let rounds1 = max 1 rounds;
          inp = rounds1 * prompt + max 0 reprompts * (max_out + REPROMPT_OVERHEAD_TOKENS);
          outp = rounds1 * max_out
      in \<lparr>es_call_id = call_id, es_alias = alias, es_model = model, es_provider = provider,
          es_prompt_tokens = prompt, es_max_output_tokens = max_out, es_rounds = rounds1,
          es_worst_tokens = inp + outp, es_worst_usd = price_tokens pricing inp outp,
          es_tags = tags, es_attribution = who\<rparr>)"

subsection \<open>Admission\<close>

datatype refusal_code = UnpricedModel | CapUsd | CapTokens | CapTag | BudgetUnavailable

record 'v refusal =
  rf_call_id :: string
  rf_model :: string
  rf_provider :: string
  rf_code :: refusal_code
  rf_scope :: "(string \<times> 'v) option"

definition refuse :: "'v estimate \<Rightarrow> refusal_code \<Rightarrow> (string \<times> 'v) option \<Rightarrow> 'v refusal" where
  "refuse e code scope = \<lparr>rf_call_id = es_call_id e, rf_model = es_model e,
     rf_provider = es_provider e, rf_code = code, rf_scope = scope\<rparr>"

record caps =
  limit_usd :: "rat option"
  limit_tokens :: "int option"
  per_tag :: "(string, rat) dict"
  allow_unpriced :: bool

definition admission_slots :: "(string, rat) dict \<Rightarrow> 'v estimate \<Rightarrow> (string \<times> 'v) list" where
  "admission_slots tags_cap e =
     concat (map (\<lambda>(key, _). case dict_get (es_tags e) key of None \<Rightarrow> [] | Some v \<Rightarrow> [(key, v)]) tags_cap)"

definition tag_limit :: "caps \<Rightarrow> string \<Rightarrow> rat" where
  "tag_limit C key = (case dict_get (per_tag C) key of None \<Rightarrow> 0 | Some l \<Rightarrow> l)"

fun check_slots :: "caps \<Rightarrow> 'v estimate \<Rightarrow> rat \<Rightarrow> (string \<times> 'v \<Rightarrow> rat) \<Rightarrow> (string \<times> 'v) list
     \<Rightarrow> 'v refusal option" where
  "check_slots C e amount tag_exposure [] = None"
| "check_slots C e amount tag_exposure (slot # slots) =
     (if tag_exposure slot + amount > tag_limit C (fst slot) then Some (refuse e CapTag (Some slot))
      else check_slots C e amount tag_exposure slots)"

definition check_admission ::
  "caps \<Rightarrow> 'v estimate \<Rightarrow> rat \<Rightarrow> int \<Rightarrow> (string \<times> 'v \<Rightarrow> rat)
     \<Rightarrow> ('v refusal, rat \<times> int \<times> (string \<times> 'v) list) py" where
  "check_admission C e exposure used tag_exposure =
     (let slots = admission_slots (per_tag C) e;
          amount = (case es_worst_usd e of None \<Rightarrow> 0 | Some u \<Rightarrow> u);
          tokens = es_worst_tokens e
      in if es_worst_usd e = None \<and> (limit_usd C \<noteq> None \<or> slots \<noteq> []) \<and> \<not> allow_unpriced C
           then Inl (refuse e UnpricedModel None)
         else if (case limit_usd C of None \<Rightarrow> False | Some l \<Rightarrow> exposure + amount > l)
           then Inl (refuse e CapUsd None)
         else if (case limit_tokens C of None \<Rightarrow> False | Some l \<Rightarrow> used + tokens > l)
           then Inl (refuse e CapTokens None)
         else (case check_slots C e amount tag_exposure slots of
                 Some r \<Rightarrow> Inl r
               | None \<Rightarrow> Inr (amount, tokens, slots)))"

record figures =
  fg_cap_usd :: "rat option"
  fg_cap_tokens :: "int option"
  fg_spent_usd :: rat
  fg_spent_tokens :: "int option"
  fg_reserved_usd :: rat
  fg_reserved_tokens :: "int option"
  fg_remaining_usd :: "rat option"
  fg_remaining_tokens :: "int option"

definition budget_figures ::
  "rat option \<Rightarrow> int option \<Rightarrow> rat \<Rightarrow> int option \<Rightarrow> rat \<Rightarrow> int option \<Rightarrow> figures" where
  "budget_figures cap_usd cap_tok sp_usd sp_tok rs_usd rs_tok =
     \<lparr>fg_cap_usd = cap_usd, fg_cap_tokens = cap_tok, fg_spent_usd = sp_usd, fg_spent_tokens = sp_tok,
      fg_reserved_usd = rs_usd, fg_reserved_tokens = rs_tok,
      fg_remaining_usd = map_option (\<lambda>c. max 0 (c - sp_usd - rs_usd)) cap_usd,
      fg_remaining_tokens =
        (case (cap_tok, sp_tok, rs_tok) of
           (Some c, Some s, Some r) \<Rightarrow> Some (max 0 (c - s - r)) | _ \<Rightarrow> None)\<rparr>"

definition settle_charge :: "ledger_event \<Rightarrow> int \<times> rat option \<times> bool" where
  "settle_charge ev =
     (let tokens = le_tokens_in ev + le_tokens_out ev
      in (tokens, le_cost_usd ev,
          le_cost_usd ev = None \<and> (tokens \<noteq> 0 \<or> le_outcome ev \<in> {''timeout'', ''cancelled''})))"

subsection \<open>The reference budget\<close>

record 'v reservation =
  rs_call_id :: string
  rs_usd :: rat
  rs_tokens :: int
  rs_slots :: "(string \<times> 'v) list"
  rs_unpriced :: bool
  rs_released :: bool

record 'v cap_budget =
  spent_usd :: rat
  spent_tokens :: int
  reserved_usd :: rat
  reserved_tokens :: int
  tag_spent :: "string \<times> 'v \<Rightarrow> rat"
  tag_reserved :: "string \<times> 'v \<Rightarrow> rat"
  cb_res :: "'v reservation list"

definition cap_new :: "'v cap_budget" where
  "cap_new = \<lparr>spent_usd = 0, spent_tokens = 0, reserved_usd = 0, reserved_tokens = 0,
     tag_spent = (\<lambda>_. 0), tag_reserved = (\<lambda>_. 0), cb_res = []\<rparr>"

definition add_slots :: "rat \<Rightarrow> (string \<times> 'v) list \<Rightarrow> (string \<times> 'v \<Rightarrow> rat) \<Rightarrow> string \<times> 'v \<Rightarrow> rat" where
  "add_slots x slots f = foldl (\<lambda>g s. g(s := g s + x)) f slots"

definition sub_slots :: "rat \<Rightarrow> (string \<times> 'v) list \<Rightarrow> (string \<times> 'v \<Rightarrow> rat) \<Rightarrow> string \<times> 'v \<Rightarrow> rat" where
  "sub_slots x slots f = foldl (\<lambda>g s. g(s := max 0 (g s - x))) f slots"

definition cap_exposure :: "'v cap_budget \<Rightarrow> (string \<times> 'v) option \<Rightarrow> rat" where
  "cap_exposure b slot =
     (case slot of None \<Rightarrow> spent_usd b + reserved_usd b | Some s \<Rightarrow> tag_spent b s + tag_reserved b s)"

definition cap_snapshot :: "caps \<Rightarrow> 'v cap_budget \<Rightarrow> (string \<times> 'v) option \<Rightarrow> figures" where
  "cap_snapshot C b slot =
     (case slot of
        None \<Rightarrow> budget_figures (limit_usd C) (limit_tokens C) (spent_usd b) (Some (spent_tokens b))
                  (reserved_usd b) (Some (reserved_tokens b))
      | Some s \<Rightarrow> budget_figures (dict_get (per_tag C) (fst s)) None (tag_spent b s) None
                    (tag_reserved b s) None)"

definition cap_admit :: "caps \<Rightarrow> 'v estimate \<Rightarrow> 'v cap_budget \<Rightarrow> ('v refusal, nat) py \<times> 'v cap_budget" where
  "cap_admit C e b =
     (case check_admission C e (spent_usd b + reserved_usd b) (spent_tokens b + reserved_tokens b)
             (\<lambda>s. tag_spent b s + tag_reserved b s) of
        Inl r \<Rightarrow> (Inl r, b)
      | Inr (amount, tokens, slots) \<Rightarrow>
          (Inr (length (cb_res b)),
           b\<lparr>reserved_usd := reserved_usd b + amount, reserved_tokens := reserved_tokens b + tokens,
             tag_reserved := add_slots amount slots (tag_reserved b),
             cb_res := cb_res b @ [\<lparr>rs_call_id = es_call_id e, rs_usd = amount, rs_tokens = tokens,
                                    rs_slots = slots, rs_unpriced = False, rs_released = False\<rparr>]\<rparr>))"

text \<open>\<open>_consume\<close>: move up to this much out of the reservation and the reserved totals.\<close>

definition consume :: "nat \<Rightarrow> rat \<Rightarrow> int \<Rightarrow> 'v cap_budget \<Rightarrow> 'v cap_budget" where
  "consume h usd tokens b =
     (let r = cb_res b ! h; take_usd = min (rs_usd r) usd; take_tokens = min (rs_tokens r) tokens
      in b\<lparr>cb_res := (cb_res b)[h := r\<lparr>rs_usd := rs_usd r - take_usd, rs_tokens := rs_tokens r - take_tokens\<rparr>],
           reserved_usd := max 0 (reserved_usd b - take_usd),
           reserved_tokens := max 0 (reserved_tokens b - take_tokens),
           tag_reserved := sub_slots take_usd (rs_slots r) (tag_reserved b)\<rparr>)"

definition cap_settle :: "nat \<Rightarrow> ledger_event \<Rightarrow> 'v cap_budget \<Rightarrow> 'v cap_budget" where
  "cap_settle h ev b0 =
     (if h \<ge> length (cb_res b0) then b0
      else
      (case settle_charge ev of (tokens, cost, unpriced) \<Rightarrow>
        let b = b0\<lparr>spent_tokens := spent_tokens b0 + tokens\<rparr>; r = cb_res b ! h in
        (case cost of
           None \<Rightarrow>
             let b1 = (if unpriced then b\<lparr>cb_res := (cb_res b)[h := r\<lparr>rs_unpriced := True\<rparr>]\<rparr> else b)
             in if rs_released r then b1 else consume h 0 tokens b1
         | Some c \<Rightarrow>
             let b1 = b\<lparr>spent_usd := spent_usd b + c, tag_spent := add_slots c (rs_slots r) (tag_spent b)\<rparr>
             in if rs_released r then b1 else consume h c tokens b1)))"

definition cap_release :: "nat \<Rightarrow> 'v cap_budget \<Rightarrow> 'v cap_budget" where
  "cap_release h b =
     (if h \<ge> length (cb_res b) then b
      else
        let r = cb_res b ! h in
        if rs_released r then b
        else
          let b1 = b\<lparr>cb_res := (cb_res b)[h := r\<lparr>rs_released := True\<rparr>]\<rparr>;
              b2 = (if rs_unpriced r \<and> rs_usd r \<noteq> 0
                    then b1\<lparr>spent_usd := spent_usd b1 + rs_usd r,
                            tag_spent := add_slots (rs_usd r) (rs_slots r) (tag_spent b1)\<rparr>
                    else b1)
          in consume h (rs_usd r) (rs_tokens r) b2)"

subsection \<open>The budget interface\<close>

text \<open>What the kernel does with a budget: the calls it makes, in any order.\<close>

datatype ('e, 'h, 'ev) budget_op = Admit 'e | Settle 'h 'ev | Release 'h

fun run_ops :: "('e \<Rightarrow> 's \<Rightarrow> ('x, 'h) py \<times> 's) \<Rightarrow> ('h \<Rightarrow> 'ev \<Rightarrow> 's \<Rightarrow> 's) \<Rightarrow> ('h \<Rightarrow> 's \<Rightarrow> 's)
     \<Rightarrow> ('e, 'h, 'ev) budget_op list \<Rightarrow> 's \<Rightarrow> 's" where
  "run_ops ad se re [] s = s"
| "run_ops ad se re (Admit e # ops) s = run_ops ad se re ops (snd (ad e s))"
| "run_ops ad se re (Settle h ev # ops) s = run_ops ad se re ops (se h ev s)"
| "run_ops ad se re (Release h # ops) s = run_ops ad se re ops (re h s)"

text \<open>By how much settled costs went past what was reserved for them, over a run.\<close>

fun overshoot :: "('e \<Rightarrow> 's \<Rightarrow> ('x, 'h) py \<times> 's) \<Rightarrow> ('h \<Rightarrow> 'ev \<Rightarrow> 's \<Rightarrow> 's) \<Rightarrow> ('h \<Rightarrow> 's \<Rightarrow> 's)
     \<Rightarrow> ('h \<Rightarrow> 'ev \<Rightarrow> 's \<Rightarrow> rat) \<Rightarrow> ('e, 'h, 'ev) budget_op list \<Rightarrow> 's \<Rightarrow> rat" where
  "overshoot ad se re over [] s = 0"
| "overshoot ad se re over (Admit e # ops) s = overshoot ad se re over ops (snd (ad e s))"
| "overshoot ad se re over (Settle h ev # ops) s = over h ev s + overshoot ad se re over ops (se h ev s)"
| "overshoot ad se re over (Release h # ops) s = overshoot ad se re over ops (re h s)"

fun op_ok :: "('e \<Rightarrow> bool) \<Rightarrow> ('ev \<Rightarrow> bool) \<Rightarrow> ('e, 'h, 'ev) budget_op \<Rightarrow> bool" where
  "op_ok eok vok (Admit e) = eok e"
| "op_ok eok vok (Settle h ev) = vok ev"
| "op_ok eok vok (Release h) = True"

text \<open>
  The contract of a budget for one cap: an admission ends within the cap (or does not grow the
  exposure), settling grows it by no more than the overshoot of that attempt, releasing never.
\<close>

locale budget_contract =
  fixes inv :: "'s \<Rightarrow> bool"
    and ad :: "'e \<Rightarrow> 's \<Rightarrow> ('x, 'h) py \<times> 's"
    and se :: "'h \<Rightarrow> 'ev \<Rightarrow> 's \<Rightarrow> 's"
    and re :: "'h \<Rightarrow> 's \<Rightarrow> 's"
    and est_ok :: "'e \<Rightarrow> bool"
    and ev_ok :: "'ev \<Rightarrow> bool"
    and expo :: "'s \<Rightarrow> rat"
    and lim :: "rat option"
    and over :: "'h \<Rightarrow> 'ev \<Rightarrow> 's \<Rightarrow> rat"
  assumes admit_inv: "inv s \<Longrightarrow> est_ok e \<Longrightarrow> inv (snd (ad e s))"
    and settle_inv: "inv s \<Longrightarrow> ev_ok ev \<Longrightarrow> inv (se h ev s)"
    and release_inv: "inv s \<Longrightarrow> inv (re h s)"
    and admit_bound: "inv s \<Longrightarrow> est_ok e \<Longrightarrow> lim = Some L \<Longrightarrow> expo (snd (ad e s)) \<le> max (expo s) L"
    and settle_bound: "inv s \<Longrightarrow> ev_ok ev \<Longrightarrow> expo (se h ev s) \<le> expo s + over h ev s"
    and release_bound: "inv s \<Longrightarrow> expo (re h s) \<le> expo s"
    and over_nonneg: "inv s \<Longrightarrow> 0 \<le> over h ev s"
begin

lemma run_inv: "inv s \<Longrightarrow> \<forall>op \<in> set ops. op_ok est_ok ev_ok op \<Longrightarrow> inv (run_ops ad se re ops s)"
proof (induction ops arbitrary: s)
  case (Cons op ops)
  then show ?case by (cases op) (auto intro: admit_inv settle_inv release_inv)
qed simp

lemma overshoot_nonneg:
  "inv s \<Longrightarrow> \<forall>op \<in> set ops. op_ok est_ok ev_ok op \<Longrightarrow> 0 \<le> overshoot ad se re over ops s"
proof (induction ops arbitrary: s)
  case (Cons op ops)
  then show ?case
    by (cases op) (auto intro: admit_inv settle_inv release_inv add_nonneg_nonneg over_nonneg)
qed simp

lemma run_bound:
  assumes "inv s" "\<forall>op \<in> set ops. op_ok est_ok ev_ok op" "lim = Some L"
  shows "expo (run_ops ad se re ops s) \<le> max (expo s) L + overshoot ad se re over ops s"
  using assms(1,2)
proof (induction ops arbitrary: s)
  case (Cons op ops)
  show ?case
  proof (cases op)
    case (Admit e)
    with Cons.prems have "inv (snd (ad e s))" "expo (snd (ad e s)) \<le> max (expo s) L"
      using admit_inv admit_bound assms(3) by auto
    with Cons.IH[of "snd (ad e s)"] Cons.prems Admit show ?thesis by auto
  next
    case (Settle h ev)
    with Cons.prems have "inv (se h ev s)" "expo (se h ev s) \<le> expo s + over h ev s" "0 \<le> over h ev s"
      using settle_inv settle_bound over_nonneg by auto
    with Cons.IH[of "se h ev s"] Cons.prems Settle show ?thesis by auto
  next
    case (Release h)
    with Cons.prems have "inv (re h s)" "expo (re h s) \<le> expo s"
      using release_inv release_bound by auto
    with Cons.IH[of "re h s"] Cons.prems Release show ?thesis by auto
  qed
qed simp

end


subsection \<open>The books of the reference budget\<close>

definition sum_usd :: "'v reservation list \<Rightarrow> rat" where
  "sum_usd rs = sum_list (map rs_usd rs)"

definition sum_tokens :: "'v reservation list \<Rightarrow> int" where
  "sum_tokens rs = sum_list (map rs_tokens rs)"

definition slot_usd :: "string \<times> 'v \<Rightarrow> 'v reservation \<Rightarrow> rat" where
  "slot_usd s r = (if s \<in> set (rs_slots r) then rs_usd r else 0)"

definition sum_slot :: "string \<times> 'v \<Rightarrow> 'v reservation list \<Rightarrow> rat" where
  "sum_slot s rs = sum_list (map (slot_usd s) rs)"

definition res_ok :: "'v reservation \<Rightarrow> bool" where
  "res_ok r \<longleftrightarrow> 0 \<le> rs_usd r \<and> 0 \<le> rs_tokens r \<and> distinct (rs_slots r)"

text \<open>The reserved totals are the sums over the reservations.\<close>

definition sums_ok :: "'v cap_budget \<Rightarrow> bool" where
  "sums_ok b \<longleftrightarrow> (\<forall>r \<in> set (cb_res b). res_ok r) \<and> reserved_usd b = sum_usd (cb_res b)
     \<and> reserved_tokens b = sum_tokens (cb_res b) \<and> tag_reserved b = (\<lambda>s. sum_slot s (cb_res b))"

definition cap_ok :: "'v cap_budget \<Rightarrow> bool" where
  "cap_ok b \<longleftrightarrow> sums_ok b \<and> (\<forall>r \<in> set (cb_res b). rs_released r \<longrightarrow> rs_usd r = 0 \<and> rs_tokens r = 0)"

definition est_ok :: "'v estimate \<Rightarrow> bool" where
  "est_ok e \<longleftrightarrow> 0 \<le> es_worst_tokens e \<and> (case es_worst_usd e of None \<Rightarrow> True | Some u \<Rightarrow> 0 \<le> u)"

definition event_ok :: "ledger_event \<Rightarrow> bool" where
  "event_ok ev \<longleftrightarrow> 0 \<le> le_tokens_in ev \<and> 0 \<le> le_tokens_out ev
     \<and> (case le_cost_usd ev of None \<Rightarrow> True | Some c \<Rightarrow> 0 \<le> c)"

lemma sum_list_update:
  "h < length xs \<Longrightarrow> sum_list (map f (xs[h := v])) = sum_list (map f xs) - f (xs ! h) + (f v :: 'b :: ab_group_add)"
  by (induction xs arbitrary: h) (auto split: nat.splits)

lemma sum_list_ge:
  "h < length xs \<Longrightarrow> \<forall>x \<in> set xs. 0 \<le> f x \<Longrightarrow> f (xs ! h) \<le> (sum_list (map f xs) :: 'b :: linordered_ab_group_add)"
proof (induction xs arbitrary: h)
  case (Cons x xs)
  have "0 \<le> sum_list (map f xs)" using Cons.prems by (intro sum_list_nonneg) auto
  with Cons show ?case by (cases h) (auto intro: add_increasing)
qed simp

lemma add_slots_eq: "distinct slots \<Longrightarrow> add_slots x slots f s = f s + (if s \<in> set slots then x else 0)"
  unfolding add_slots_def by (induction slots arbitrary: f) auto

lemma sub_slots_eq:
  "distinct slots \<Longrightarrow> sub_slots x slots f s = (if s \<in> set slots then max 0 (f s - x) else f s)"
  unfolding sub_slots_def by (induction slots arbitrary: f) auto

lemma sums_update:
  assumes "h < length rs"
  shows "sum_usd (rs[h := r]) = sum_usd rs - rs_usd (rs ! h) + rs_usd r"
    "sum_tokens (rs[h := r]) = sum_tokens rs - rs_tokens (rs ! h) + rs_tokens r"
    "sum_slot s (rs[h := r]) = sum_slot s rs - slot_usd s (rs ! h) + slot_usd s r"
  unfolding sum_usd_def sum_tokens_def sum_slot_def using sum_list_update[OF assms] by auto

lemma sums_ge:
  assumes "h < length rs" "\<forall>r \<in> set rs. res_ok r"
  shows "rs_usd (rs ! h) \<le> sum_usd rs" "rs_tokens (rs ! h) \<le> sum_tokens rs"
    "slot_usd s (rs ! h) \<le> sum_slot s rs"
proof -
  show "rs_usd (rs ! h) \<le> sum_usd rs" "rs_tokens (rs ! h) \<le> sum_tokens rs"
    unfolding sum_usd_def sum_tokens_def using assms
    by (auto intro!: sum_list_ge simp: res_ok_def)
  have "\<forall>r \<in> set rs. 0 \<le> slot_usd s r" using assms(2) by (auto simp: res_ok_def slot_usd_def)
  then show "slot_usd s (rs ! h) \<le> sum_slot s rs"
    unfolding sum_slot_def using assms(1) sum_list_ge by blast
qed

lemma set_update_ok:
  "\<forall>r \<in> set rs. P r \<Longrightarrow> P v \<Longrightarrow> \<forall>r \<in> set (rs[h := v]). P r"
  using set_update_subset_insert by fastforce

text \<open>Consuming part of a reservation keeps the books and lowers the reserved totals by it.\<close>

lemma consume_sums:
  assumes ok: "sums_ok b" and h: "h < length (cb_res b)" and pos: "0 \<le> usd" "0 \<le> tokens"
  shows "sums_ok (consume h usd tokens b)"
    "reserved_usd (consume h usd tokens b) = reserved_usd b - min (rs_usd (cb_res b ! h)) usd"
    "reserved_tokens (consume h usd tokens b) = reserved_tokens b - min (rs_tokens (cb_res b ! h)) tokens"
    "tag_reserved (consume h usd tokens b) s = tag_reserved b s
       - (if s \<in> set (rs_slots (cb_res b ! h)) then min (rs_usd (cb_res b ! h)) usd else 0)"
proof -
  let ?r = "cb_res b ! h"
  let ?u = "min (rs_usd ?r) usd" and ?t = "min (rs_tokens ?r) tokens"
  let ?v = "?r\<lparr>rs_usd := rs_usd ?r - ?u, rs_tokens := rs_tokens ?r - ?t\<rparr>"
  have all: "\<forall>r \<in> set (cb_res b). res_ok r" using ok by (simp add: sums_ok_def)
  then have r: "res_ok ?r" using h by simp
  note ge = sums_ge[OF h all]
  have u: "?u \<le> reserved_usd b" "?t \<le> reserved_tokens b"
    using ge(1,2) ok by (auto simp: sums_ok_def)
  have t: "?u \<le> tag_reserved b s" if "s \<in> set (rs_slots ?r)" for s
    using ge(3)[of s] ok that by (auto simp: sums_ok_def slot_usd_def)
  have d: "distinct (rs_slots ?r)" using r by (simp add: res_ok_def)
  show ru: "reserved_usd (consume h usd tokens b) = reserved_usd b - ?u"
    and rt: "reserved_tokens (consume h usd tokens b) = reserved_tokens b - ?t"
    using u by (simp_all add: consume_def Let_def)
  show rs: "tag_reserved (consume h usd tokens b) s = tag_reserved b s
       - (if s \<in> set (rs_slots ?r) then ?u else 0)" for s
    using t[of s] by (simp add: consume_def Let_def sub_slots_eq[OF d])
  have c: "cb_res (consume h usd tokens b) = (cb_res b)[h := ?v]"
    by (simp add: consume_def Let_def)
  have v: "res_ok ?v" using r by (simp add: res_ok_def)
  show "sums_ok (consume h usd tokens b)"
    unfolding sums_ok_def c ru rt rs
    using set_update_ok[of "cb_res b" res_ok, OF all v] ok sums_update[OF h]
    by (auto simp: sums_ok_def slot_usd_def fun_eq_iff rs)
qed

lemma consume_cb_res:
  "cb_res (consume h usd tokens b) = (cb_res b)[h := (cb_res b ! h)\<lparr>rs_usd := rs_usd (cb_res b ! h)
     - min (rs_usd (cb_res b ! h)) usd, rs_tokens := rs_tokens (cb_res b ! h) - min (rs_tokens (cb_res b ! h)) tokens\<rparr>]"
  by (simp add: consume_def Let_def)

lemma consume_spent [simp]:
  "spent_usd (consume h usd tokens b) = spent_usd b" "spent_tokens (consume h usd tokens b) = spent_tokens b"
  "tag_spent (consume h usd tokens b) = tag_spent b"
  by (simp_all add: consume_def Let_def)

text \<open>Changes that do not touch the amounts keep the books.\<close>

lemma sums_ok_cong:
  assumes "sums_ok b" "reserved_usd b' = reserved_usd b" "reserved_tokens b' = reserved_tokens b"
    "tag_reserved b' = tag_reserved b" "cb_res b' = cb_res b"
  shows "sums_ok b'"
  using assms by (simp add: sums_ok_def)

lemma sums_ok_flag:
  assumes "sums_ok b" "h < length (cb_res b)" "rs_usd r = rs_usd (cb_res b ! h)"
    "rs_tokens r = rs_tokens (cb_res b ! h)" "rs_slots r = rs_slots (cb_res b ! h)"
    "reserved_usd b' = reserved_usd b" "reserved_tokens b' = reserved_tokens b"
    "tag_reserved b' = tag_reserved b" "cb_res b' = (cb_res b)[h := r]"
  shows "sums_ok b'"
proof -
  have all: "\<forall>r \<in> set (cb_res b). res_ok r" using assms(1) by (simp add: sums_ok_def)
  then have "res_ok r" using assms(2-5) by (auto simp: res_ok_def)
  with assms sums_update[OF assms(2)] set_update_ok[of "cb_res b" res_ok, OF all] show ?thesis
    by (auto simp: sums_ok_def slot_usd_def intro!: ext)
qed


lemma nth_update_released:
  "\<forall>r \<in> set rs. P r \<Longrightarrow> P v \<Longrightarrow> r \<in> set (rs[h := v]) \<Longrightarrow> P r"
  using set_update_ok by fast

definition usd_over :: "nat \<Rightarrow> ledger_event \<Rightarrow> 'v cap_budget \<Rightarrow> rat" where
  "usd_over h ev b =
     (case le_cost_usd ev of None \<Rightarrow> 0
      | Some c \<Rightarrow> if h < length (cb_res b) then max 0 (c - rs_usd (cb_res b ! h)) else 0)"

definition tokens_over :: "nat \<Rightarrow> ledger_event \<Rightarrow> 'v cap_budget \<Rightarrow> rat" where
  "tokens_over h ev b =
     (if h < length (cb_res b)
      then of_int (max 0 (le_tokens_in ev + le_tokens_out ev - rs_tokens (cb_res b ! h))) else 0)"

definition slot_over :: "string \<times> 'v \<Rightarrow> nat \<Rightarrow> ledger_event \<Rightarrow> 'v cap_budget \<Rightarrow> rat" where
  "slot_over s h ev b =
     (if h < length (cb_res b) \<and> s \<in> set (rs_slots (cb_res b ! h)) then usd_over h ev b else 0)"

definition tokens_exposure :: "'v cap_budget \<Rightarrow> rat" where
  "tokens_exposure b = of_int (spent_tokens b + reserved_tokens b)"

definition event_cost :: "ledger_event \<Rightarrow> rat" where
  "event_cost ev = (case le_cost_usd ev of None \<Rightarrow> 0 | Some c \<Rightarrow> c)"

text \<open>Settling: the books stay right, spend grows by the cost, the reserved totals shrink.\<close>

lemma cap_settle_books:
  assumes ok: "cap_ok b" and ev: "event_ok ev" and h: "h < length (cb_res b)"
  defines "r \<equiv> cb_res b ! h" and "c \<equiv> event_cost ev" and "t \<equiv> le_tokens_in ev + le_tokens_out ev"
  shows "cap_ok (cap_settle h ev b)"
    "spent_usd (cap_settle h ev b) = spent_usd b + c"
    "spent_tokens (cap_settle h ev b) = spent_tokens b + t"
    "tag_spent (cap_settle h ev b) s = tag_spent b s + (if s \<in> set (rs_slots r) then c else 0)"
    "reserved_usd (cap_settle h ev b) = reserved_usd b - min (rs_usd r) c"
    "reserved_tokens (cap_settle h ev b) = reserved_tokens b - min (rs_tokens r) t"
    "tag_reserved (cap_settle h ev b) s = tag_reserved b s
       - (if s \<in> set (rs_slots r) then min (rs_usd r) c else 0)"
proof -
  have s_ok: "sums_ok b" and rel: "\<forall>r \<in> set (cb_res b). rs_released r \<longrightarrow> rs_usd r = 0 \<and> rs_tokens r = 0"
    using ok by (auto simp: cap_ok_def)
  have r_in: "r \<in> set (cb_res b)" using h by (simp add: r_def)
  have rok: "res_ok r" using s_ok r_in by (simp add: sums_ok_def)
  then have d: "distinct (rs_slots r)" and r0: "0 \<le> rs_usd r" "0 \<le> rs_tokens r" by (auto simp: res_ok_def)
  have c0: "0 \<le> c" and t0: "0 \<le> t"
    using ev by (auto simp: c_def t_def event_cost_def event_ok_def split: option.splits)
  define unp where "unp = (le_cost_usd ev = None \<and> (t \<noteq> 0 \<or> le_outcome ev \<in> {''timeout'', ''cancelled''}))"
  define r1 where "r1 = (if unp then r\<lparr>rs_unpriced := True\<rparr> else r)"
  define b1 where "b1 = b\<lparr>spent_tokens := spent_tokens b + t, spent_usd := spent_usd b + c,
      tag_spent := (if le_cost_usd ev = None then tag_spent b else add_slots c (rs_slots r) (tag_spent b)),
      cb_res := (cb_res b)[h := r1]\<rparr>"
  have same: "(cb_res b)[h := r] = cb_res b" by (simp add: r_def)
  have st: "cap_settle h ev b = (if rs_released r then b1 else consume h c t b1)"
  proof (cases "le_cost_usd ev")
    case None
    then show ?thesis using h same
      by (simp add: cap_settle_def settle_charge_def Let_def b1_def r1_def unp_def t_def c_def
          event_cost_def r_def[symmetric])
  next
    case (Some a)
    then show ?thesis using h same
      by (simp add: cap_settle_def settle_charge_def Let_def b1_def r1_def unp_def t_def c_def
          event_cost_def r_def[symmetric])
  qed
  have r1: "rs_usd r1 = rs_usd r" "rs_tokens r1 = rs_tokens r" "rs_slots r1 = rs_slots r"
    "rs_released r1 = rs_released r" by (simp_all add: r1_def)
  have b1_ok: "sums_ok b1"
    by (rule sums_ok_flag[OF s_ok h, of r1]) (simp_all add: r1 b1_def r_def)
  have b1_rel: "\<forall>x \<in> set (cb_res b1). rs_released x \<longrightarrow> rs_usd x = 0 \<and> rs_tokens x = 0"
  proof -
    have "rs_released r1 \<longrightarrow> rs_usd r1 = 0 \<and> rs_tokens r1 = 0" using rel r_in r1 by simp
    then have "\<forall>x \<in> set ((cb_res b)[h := r1]). rs_released x \<longrightarrow> rs_usd x = 0 \<and> rs_tokens x = 0"
      by (rule set_update_ok[OF rel])
    then show ?thesis by (simp add: b1_def)
  qed
  have h1: "h < length (cb_res b1)" and at: "cb_res b1 ! h = r1" using h by (simp_all add: b1_def)
  have ts: "tag_spent b1 s = tag_spent b s + (if s \<in> set (rs_slots r) then c else 0)"
    using add_slots_eq[OF d] by (auto simp: b1_def c_def event_cost_def)
  note cons = consume_sums[OF b1_ok h1 c0 t0, unfolded at r1]
  show "spent_usd (cap_settle h ev b) = spent_usd b + c"
    "spent_tokens (cap_settle h ev b) = spent_tokens b + t"
    "tag_spent (cap_settle h ev b) s = tag_spent b s + (if s \<in> set (rs_slots r) then c else 0)"
    using ts by (simp_all add: st) (simp_all add: b1_def)
  have zero: "rs_released r \<Longrightarrow> rs_usd r = 0 \<and> rs_tokens r = 0" using rel r_in by blast
  show "reserved_usd (cap_settle h ev b) = reserved_usd b - min (rs_usd r) c"
    "reserved_tokens (cap_settle h ev b) = reserved_tokens b - min (rs_tokens r) t"
    "tag_reserved (cap_settle h ev b) s = tag_reserved b s
       - (if s \<in> set (rs_slots r) then min (rs_usd r) c else 0)"
  proof -
    have b1r: "reserved_usd b1 = reserved_usd b" "reserved_tokens b1 = reserved_tokens b"
      "tag_reserved b1 = tag_reserved b" by (simp_all add: b1_def)
    have z: "rs_released r \<Longrightarrow> min (rs_usd r) c = 0" "rs_released r \<Longrightarrow> min (rs_tokens r) t = 0"
      using zero c0 t0 by (simp_all add: min_def)
    show "reserved_usd (cap_settle h ev b) = reserved_usd b - min (rs_usd r) c"
      using cons(2) z(1) by (simp add: st b1r r1)
    show "reserved_tokens (cap_settle h ev b) = reserved_tokens b - min (rs_tokens r) t"
      using cons(3) z(2) by (simp add: st b1r r1)
    show "tag_reserved (cap_settle h ev b) s = tag_reserved b s
       - (if s \<in> set (rs_slots r) then min (rs_usd r) c else 0)"
      using cons(4) z(1) by (simp add: st b1r r1)
  qed
  show "cap_ok (cap_settle h ev b)"
  proof (cases "rs_released r")
    case True
    with b1_ok b1_rel show ?thesis by (simp add: st cap_ok_def)
  next
    case False
    have "\<forall>x \<in> set (cb_res (consume h c t b1)). rs_released x \<longrightarrow> rs_usd x = 0 \<and> rs_tokens x = 0"
      unfolding consume_cb_res at by (rule set_update_ok[OF b1_rel]) (simp add: False r1(4))
    with cons(1) False show ?thesis by (simp add: st cap_ok_def)
  qed
qed

lemma cap_release_books:
  assumes ok: "cap_ok b" and h: "h < length (cb_res b)"
  defines "r \<equiv> cb_res b ! h"
  defines "kept \<equiv> (if rs_unpriced r \<and> \<not> rs_released r then rs_usd r else 0)"
  shows "cap_ok (cap_release h b)"
    "spent_usd (cap_release h b) = spent_usd b + kept"
    "spent_tokens (cap_release h b) = spent_tokens b"
    "tag_spent (cap_release h b) s = tag_spent b s + (if s \<in> set (rs_slots r) then kept else 0)"
    "reserved_usd (cap_release h b) = reserved_usd b - rs_usd r"
    "reserved_tokens (cap_release h b) = reserved_tokens b - rs_tokens r"
    "tag_reserved (cap_release h b) s = tag_reserved b s - (if s \<in> set (rs_slots r) then rs_usd r else 0)"
    "cb_res (cap_release h b) = (cb_res b)[h := r\<lparr>rs_released := True, rs_usd := 0, rs_tokens := 0\<rparr>]"
proof -
  have s_ok: "sums_ok b" and rel: "\<forall>r \<in> set (cb_res b). rs_released r \<longrightarrow> rs_usd r = 0 \<and> rs_tokens r = 0"
    using ok by (auto simp: cap_ok_def)
  have r_in: "r \<in> set (cb_res b)" using h by (simp add: r_def)
  have rok: "res_ok r" using s_ok r_in by (simp add: sums_ok_def)
  then have d: "distinct (rs_slots r)" and r0: "0 \<le> rs_usd r" "0 \<le> rs_tokens r" by (auto simp: res_ok_def)
  have goal: "cap_ok (cap_release h b) \<and> spent_usd (cap_release h b) = spent_usd b + kept
    \<and> spent_tokens (cap_release h b) = spent_tokens b
    \<and> (\<forall>s. tag_spent (cap_release h b) s = tag_spent b s + (if s \<in> set (rs_slots r) then kept else 0))
    \<and> reserved_usd (cap_release h b) = reserved_usd b - rs_usd r
    \<and> reserved_tokens (cap_release h b) = reserved_tokens b - rs_tokens r
    \<and> (\<forall>s. tag_reserved (cap_release h b) s = tag_reserved b s - (if s \<in> set (rs_slots r) then rs_usd r else 0))
    \<and> cb_res (cap_release h b) = (cb_res b)[h := r\<lparr>rs_released := True, rs_usd := 0, rs_tokens := 0\<rparr>]"
  proof (cases "rs_released r")
    case True
    then have z: "rs_usd r = 0" "rs_tokens r = 0" using rel r_in by auto
    then have e: "r\<lparr>rs_released := True, rs_usd := 0, rs_tokens := 0\<rparr> = r" using True by simp
    have same: "(cb_res b)[h := r] = cb_res b" by (simp add: r_def)
    have "cap_release h b = b" using True h by (simp add: cap_release_def r_def[symmetric] Let_def)
    then show ?thesis unfolding e same using ok z True by (simp add: kept_def)
  next
    case False
    define b2 where "b2 = b\<lparr>cb_res := (cb_res b)[h := r\<lparr>rs_released := True\<rparr>],
        spent_usd := spent_usd b + kept,
        tag_spent := (if kept = 0 then tag_spent b else add_slots kept (rs_slots r) (tag_spent b))\<rparr>"
    have st: "cap_release h b = consume h (rs_usd r) (rs_tokens r) b2"
      using False h by (auto simp: cap_release_def r_def[symmetric] Let_def b2_def kept_def)
    have b2_ok: "sums_ok b2"
      by (rule sums_ok_flag[OF s_ok h, of "r\<lparr>rs_released := True\<rparr>"]) (simp_all add: b2_def r_def)
    have h2: "h < length (cb_res b2)" and at: "cb_res b2 ! h = r\<lparr>rs_released := True\<rparr>"
      using h by (simp_all add: b2_def)
    note cons = consume_sums[OF b2_ok h2 r0, unfolded at]
    have res: "cb_res (cap_release h b) = (cb_res b)[h := r\<lparr>rs_released := True, rs_usd := 0, rs_tokens := 0\<rparr>]"
      unfolding st consume_cb_res at by (simp add: b2_def)
    have "\<forall>x \<in> set (cb_res (cap_release h b)). rs_released x \<longrightarrow> rs_usd x = 0 \<and> rs_tokens x = 0"
      unfolding res by (rule set_update_ok[OF rel]) simp
    then have f1: "cap_ok (cap_release h b)"
      unfolding cap_ok_def using cons(1)[folded st] by (intro conjI)
    have "tag_spent b2 s = tag_spent b s + (if s \<in> set (rs_slots r) then kept else 0)" for s
      using add_slots_eq[OF d] by (auto simp: b2_def)
    then have f2: "tag_spent (cap_release h b) s = tag_spent b s + (if s \<in> set (rs_slots r) then kept else 0)" for s
      unfolding st consume_spent .
    have b2: "reserved_usd b2 = reserved_usd b" "reserved_tokens b2 = reserved_tokens b"
      "tag_reserved b2 = tag_reserved b" "spent_usd b2 = spent_usd b + kept" "spent_tokens b2 = spent_tokens b"
      by (simp_all add: b2_def)
    have f3: "spent_usd (cap_release h b) = spent_usd b + kept" "spent_tokens (cap_release h b) = spent_tokens b"
      unfolding st consume_spent b2 by simp_all
    have f4: "reserved_usd (cap_release h b) = reserved_usd b - rs_usd r"
      "reserved_tokens (cap_release h b) = reserved_tokens b - rs_tokens r"
      unfolding st cons(2,3) b2 by simp_all
    have f5: "tag_reserved (cap_release h b) s = tag_reserved b s - (if s \<in> set (rs_slots r) then rs_usd r else 0)" for s
      unfolding st cons(4) b2 by simp
    show ?thesis by (intro conjI allI f1 f2 f3 f4 f5 res)
  qed
  then show "cap_ok (cap_release h b)"
    "spent_usd (cap_release h b) = spent_usd b + kept"
    "spent_tokens (cap_release h b) = spent_tokens b"
    "tag_spent (cap_release h b) s = tag_spent b s + (if s \<in> set (rs_slots r) then kept else 0)"
    "reserved_usd (cap_release h b) = reserved_usd b - rs_usd r"
    "reserved_tokens (cap_release h b) = reserved_tokens b - rs_tokens r"
    "tag_reserved (cap_release h b) s = tag_reserved b s - (if s \<in> set (rs_slots r) then rs_usd r else 0)"
    "cb_res (cap_release h b) = (cb_res b)[h := r\<lparr>rs_released := True, rs_usd := 0, rs_tokens := 0\<rparr>]"
    by blast+
qed


lemma check_slots_None:
  "check_slots C e amount f slots = None \<longleftrightarrow> (\<forall>s \<in> set slots. f s + amount \<le> tag_limit C (fst s))"
  by (induction slots) (auto simp: not_less)

definition worst_usd :: "'v estimate \<Rightarrow> rat" where
  "worst_usd e = (case es_worst_usd e of None \<Rightarrow> 0 | Some u \<Rightarrow> u)"

text \<open>What an admission asks for, cap by cap.\<close>

definition within_caps :: "caps \<Rightarrow> 'v estimate \<Rightarrow> rat \<Rightarrow> int \<Rightarrow> (string \<times> 'v \<Rightarrow> rat) \<Rightarrow> bool" where
  "within_caps C e exposure used f \<longleftrightarrow>
     (es_worst_usd e \<noteq> None \<or> (limit_usd C = None \<and> admission_slots (per_tag C) e = []) \<or> allow_unpriced C)
     \<and> (\<forall>l. limit_usd C = Some l \<longrightarrow> exposure + worst_usd e \<le> l)
     \<and> (\<forall>l. limit_tokens C = Some l \<longrightarrow> used + es_worst_tokens e \<le> l)
     \<and> (\<forall>s \<in> set (admission_slots (per_tag C) e). f s + worst_usd e \<le> tag_limit C (fst s))"

lemma check_admission_Inr:
  "check_admission C e exposure used f = Inr x \<longleftrightarrow>
     within_caps C e exposure used f
     \<and> x = (worst_usd e, es_worst_tokens e, admission_slots (per_tag C) e)"
proof -
  let ?slots = "admission_slots (per_tag C) e"
  have a: "(case z of None \<Rightarrow> Inr y | Some r \<Rightarrow> Inl r) = Inr x \<longleftrightarrow> z = None \<and> x = y"
    for z :: "'a refusal option" and y :: "rat \<times> int \<times> (string \<times> 'a) list"
    by (cases z) auto
  have l: "(case z of None \<Rightarrow> False | Some l \<Rightarrow> l < v) \<longleftrightarrow> \<not> (\<forall>l. z = Some l \<longrightarrow> v \<le> l)"
    for z :: "'b::linorder option" and v
    by (cases z) auto
  have i: "(if p then Inl r else z) = Inr x \<longleftrightarrow> \<not> p \<and> z = Inr x"
    for p and r :: "'a refusal" and z :: "('a refusal, rat \<times> int \<times> (string \<times> 'a) list) py" by simp
  show ?thesis
    unfolding check_admission_def Let_def worst_usd_def[symmetric] i a l within_caps_def check_slots_None
    by auto
qed

lemma admission_slots_keys: "fst ` set (admission_slots d e) \<subseteq> fst ` set d"
proof (induction d)
  case (Cons x d)
  obtain k l where x: "x = (k, l)" by fastforce
  have "admission_slots (x # d) e =
      (case dict_get (es_tags e) k of None \<Rightarrow> [] | Some v \<Rightarrow> [(k, v)]) @ admission_slots d e"
    by (simp add: admission_slots_def x)
  with Cons x show ?case by (cases "dict_get (es_tags e) k") auto
qed (simp add: admission_slots_def)

lemma admission_slots_distinct: "dict_wf d \<Longrightarrow> distinct (admission_slots d e)"
proof (induction d)
  case (Cons x d)
  obtain k l where x: "x = (k, l)" by fastforce
  have "k \<notin> fst ` set d" using Cons.prems x by simp
  then have k: "k \<notin> fst ` set (admission_slots d e)" by (rule contra_subsetD[OF admission_slots_keys])
  then have "(k, v) \<notin> set (admission_slots d e)" for v by (metis fst_conv image_eqI)
  moreover have "admission_slots ((k, l) # d) e =
      (case dict_get (es_tags e) k of None \<Rightarrow> [] | Some v \<Rightarrow> [(k, v)]) @ admission_slots d e"
    by (simp add: admission_slots_def)
  moreover have "distinct (admission_slots d e)" using Cons by simp
  ultimately show ?case unfolding x by (cases "dict_get (es_tags e) k") simp_all
qed (simp add: admission_slots_def)

lemma sum_usd_snoc [simp]: "sum_usd (rs @ [r]) = sum_usd rs + rs_usd r"
  by (simp add: sum_usd_def)
lemma sum_tokens_snoc [simp]: "sum_tokens (rs @ [r]) = sum_tokens rs + rs_tokens r"
  by (simp add: sum_tokens_def)
lemma sum_slot_snoc [simp]: "sum_slot s (rs @ [r]) = sum_slot s rs + slot_usd s r"
  by (simp add: sum_slot_def)

lemma cap_admit_books:
  assumes ok: "cap_ok b" and e: "est_ok e" and C: "dict_wf (per_tag C)"
    and a: "cap_admit C e b = (Inr h, b')"
  shows "cap_ok b'" "h = length (cb_res b)" "spent_usd b' = spent_usd b" "spent_tokens b' = spent_tokens b"
    "tag_spent b' = tag_spent b" "reserved_usd b' = reserved_usd b + worst_usd e"
    "reserved_tokens b' = reserved_tokens b + es_worst_tokens e"
    "tag_reserved b' s = tag_reserved b s
       + (if s \<in> set (admission_slots (per_tag C) e) then worst_usd e else 0)"
    "within_caps C e (spent_usd b + reserved_usd b) (spent_tokens b + reserved_tokens b)
       (\<lambda>s. tag_spent b s + tag_reserved b s)"
proof -
  let ?slots = "admission_slots (per_tag C) e"
  let ?r = "\<lparr>rs_call_id = es_call_id e, rs_usd = worst_usd e, rs_tokens = es_worst_tokens e,
      rs_slots = ?slots, rs_unpriced = False, rs_released = False\<rparr>"
  have d: "distinct ?slots" using admission_slots_distinct C by blast
  from a have w: "within_caps C e (spent_usd b + reserved_usd b) (spent_tokens b + reserved_tokens b)
       (\<lambda>s. tag_spent b s + tag_reserved b s)"
    and h: "h = length (cb_res b)"
    and b': "b' = b\<lparr>reserved_usd := reserved_usd b + worst_usd e,
        reserved_tokens := reserved_tokens b + es_worst_tokens e,
        tag_reserved := add_slots (worst_usd e) ?slots (tag_reserved b), cb_res := cb_res b @ [?r]\<rparr>"
    by (auto simp: cap_admit_def check_admission_Inr split: sum.splits prod.splits)
  show "within_caps C e (spent_usd b + reserved_usd b) (spent_tokens b + reserved_tokens b)
       (\<lambda>s. tag_spent b s + tag_reserved b s)" "h = length (cb_res b)" using w h .
  show "spent_usd b' = spent_usd b" "spent_tokens b' = spent_tokens b" "tag_spent b' = tag_spent b"
    "reserved_usd b' = reserved_usd b + worst_usd e"
    "reserved_tokens b' = reserved_tokens b + es_worst_tokens e" by (simp_all add: b')
  show t: "tag_reserved b' s = tag_reserved b s + (if s \<in> set ?slots then worst_usd e else 0)" for s
    by (simp add: b' add_slots_eq[OF d])
  have "res_ok ?r" using e d by (auto simp: res_ok_def est_ok_def worst_usd_def split: option.splits)
  then have "sums_ok b'"
    using ok t by (auto simp: cap_ok_def sums_ok_def b' slot_usd_def intro!: ext)
  moreover have "\<forall>r \<in> set (cb_res b @ [?r]). rs_released r \<longrightarrow> rs_usd r = 0 \<and> rs_tokens r = 0"
    using ok unfolding cap_ok_def by simp
  then have "\<forall>r \<in> set (cb_res b'). rs_released r \<longrightarrow> rs_usd r = 0 \<and> rs_tokens r = 0" by (simp add: b')
  ultimately show "cap_ok b'" unfolding cap_ok_def by blast
qed

lemma cap_admit_refused: "cap_admit C e b = (Inl r, b') \<Longrightarrow> b' = b"
  by (auto simp: cap_admit_def split: sum.splits prod.splits)

definition cap_inv :: "caps \<Rightarrow> 'v cap_budget \<Rightarrow> bool" where
  "cap_inv C b \<longleftrightarrow> cap_ok b \<and> dict_wf (per_tag C)"

lemma cap_settle_out [simp]: "\<not> h < length (cb_res b) \<Longrightarrow> cap_settle h ev b = b"
  by (simp add: cap_settle_def)

lemma cap_release_out [simp]: "\<not> h < length (cb_res b) \<Longrightarrow> cap_release h b = b"
  by (simp add: cap_release_def)

lemma cap_admit_inv: "cap_inv C b \<Longrightarrow> est_ok e \<Longrightarrow> cap_inv C (snd (cap_admit C e b))"
proof -
  assume i: "cap_inv C b" "est_ok e"
  obtain x b' where a: "cap_admit C e b = (x, b')" by fastforce
  show ?thesis
  proof (cases x)
    case (Inl r)
    with a cap_admit_refused i(1) show ?thesis by fastforce
  next
    case (Inr h)
    with a i cap_admit_books(1) show ?thesis by (auto simp: cap_inv_def)
  qed
qed

lemma cap_settle_inv: "cap_inv C b \<Longrightarrow> event_ok ev \<Longrightarrow> cap_inv C (cap_settle h ev b)"
  by (cases "h < length (cb_res b)") (auto simp: cap_inv_def intro: cap_settle_books(1))

lemma cap_release_inv: "cap_inv C b \<Longrightarrow> cap_inv C (cap_release h b)"
  by (cases "h < length (cb_res b)") (auto simp: cap_inv_def intro: cap_release_books(1))

lemma cap_admit_expo:
  assumes "cap_inv C b" "est_ok e"
  shows "limit_usd C = Some L \<Longrightarrow> cap_exposure (snd (cap_admit C e b)) None \<le> max (cap_exposure b None) L"
    "limit_tokens C = Some T \<Longrightarrow> tokens_exposure (snd (cap_admit C e b)) \<le> max (tokens_exposure b) (of_int T)"
    "dict_get (per_tag C) (fst s) = Some l
       \<Longrightarrow> cap_exposure (snd (cap_admit C e b)) (Some s) \<le> max (cap_exposure b (Some s)) l"
proof -
  obtain x b' where a: "cap_admit C e b = (x, b')" by fastforce
  show "limit_usd C = Some L \<Longrightarrow> cap_exposure (snd (cap_admit C e b)) None \<le> max (cap_exposure b None) L"
    "limit_tokens C = Some T \<Longrightarrow> tokens_exposure (snd (cap_admit C e b)) \<le> max (tokens_exposure b) (of_int T)"
    "dict_get (per_tag C) (fst s) = Some l
       \<Longrightarrow> cap_exposure (snd (cap_admit C e b)) (Some s) \<le> max (cap_exposure b (Some s)) l"
  proof (atomize (full), cases x)
    case (Inl r)
    with a cap_admit_refused show "(limit_usd C = Some L \<longrightarrow>
        cap_exposure (snd (cap_admit C e b)) None \<le> max (cap_exposure b None) L) \<and>
      (limit_tokens C = Some T \<longrightarrow> tokens_exposure (snd (cap_admit C e b)) \<le> max (tokens_exposure b) (of_int T)) \<and>
      (dict_get (per_tag C) (fst s) = Some l \<longrightarrow>
        cap_exposure (snd (cap_admit C e b)) (Some s) \<le> max (cap_exposure b (Some s)) l)"
      by fastforce
  next
    case (Inr h)
    with a have "cap_admit C e b = (Inr h, b')" by simp
    note bk = cap_admit_books[OF _ assms(2) _ this]
    have c: "cap_ok b" "dict_wf (per_tag C)" using assms(1) by (auto simp: cap_inv_def)
    note bk = bk[OF c]
    have 1: "limit_usd C = Some L \<longrightarrow> cap_exposure b' None \<le> max (cap_exposure b None) L"
      using bk(9) by (auto simp: cap_exposure_def bk(3,6) within_caps_def)
    have "of_int (spent_tokens b + reserved_tokens b + es_worst_tokens e) \<le> (of_int T :: rat)"
      if "limit_tokens C = Some T"
      using bk(9) that by (simp add: within_caps_def del: of_int_add)
    then have 2: "limit_tokens C = Some T \<longrightarrow> tokens_exposure b' \<le> max (tokens_exposure b) (of_int T)"
      by (auto simp: tokens_exposure_def bk(4,7) algebra_simps)
    have 3: "dict_get (per_tag C) (fst s) = Some l \<longrightarrow> cap_exposure b' (Some s) \<le> max (cap_exposure b (Some s)) l"
      using bk(9) by (auto simp: cap_exposure_def bk(5,8) within_caps_def tag_limit_def algebra_simps)
    from 1 2 3 a show "(limit_usd C = Some L \<longrightarrow>
        cap_exposure (snd (cap_admit C e b)) None \<le> max (cap_exposure b None) L) \<and>
      (limit_tokens C = Some T \<longrightarrow> tokens_exposure (snd (cap_admit C e b)) \<le> max (tokens_exposure b) (of_int T)) \<and>
      (dict_get (per_tag C) (fst s) = Some l \<longrightarrow>
        cap_exposure (snd (cap_admit C e b)) (Some s) \<le> max (cap_exposure b (Some s)) l)"
      by simp
  qed
qed


subsection \<open>The reference budget keeps the contract\<close>

lemma cap_settle_expo:
  assumes "cap_inv C b" "event_ok ev"
  shows "cap_exposure (cap_settle h ev b) None \<le> cap_exposure b None + usd_over h ev b"
    "tokens_exposure (cap_settle h ev b) \<le> tokens_exposure b + tokens_over h ev b"
    "cap_exposure (cap_settle h ev b) (Some s) \<le> cap_exposure b (Some s) + slot_over s h ev b"
proof -
  have c: "cap_ok b" using assms(1) by (simp add: cap_inv_def)
  have "cap_exposure (cap_settle h ev b) None \<le> cap_exposure b None + usd_over h ev b
    \<and> tokens_exposure (cap_settle h ev b) \<le> tokens_exposure b + tokens_over h ev b
    \<and> cap_exposure (cap_settle h ev b) (Some s) \<le> cap_exposure b (Some s) + slot_over s h ev b"
  proof (cases "h < length (cb_res b)")
    case True
    note bk = cap_settle_books[OF c assms(2) True]
    let ?r = "cb_res b ! h" and ?t = "le_tokens_in ev + le_tokens_out ev"
    have r: "res_ok ?r" using c True by (auto simp: cap_ok_def sums_ok_def)
    have u: "event_cost ev - min (rs_usd ?r) (event_cost ev) = usd_over h ev b"
      using r True by (auto simp: usd_over_def event_cost_def res_ok_def min_def max_def split: option.splits)
    have t: "of_int (?t - min (rs_tokens ?r) ?t) = tokens_over h ev b"
      using True by (auto simp: tokens_over_def min_def max_def)
    show ?thesis
    proof (intro conjI)
      show "cap_exposure (cap_settle h ev b) None \<le> cap_exposure b None + usd_over h ev b"
        using u by (simp add: cap_exposure_def bk(2,5))
      show "tokens_exposure (cap_settle h ev b) \<le> tokens_exposure b + tokens_over h ev b"
        unfolding tokens_exposure_def bk(3,6) t[symmetric] by simp
      show "cap_exposure (cap_settle h ev b) (Some s) \<le> cap_exposure b (Some s) + slot_over s h ev b"
        using u True by (simp add: cap_exposure_def bk(4,7) slot_over_def)
    qed
  next
    case False
    then show ?thesis by (simp add: usd_over_def tokens_over_def slot_over_def split: option.splits)
  qed
  then show "cap_exposure (cap_settle h ev b) None \<le> cap_exposure b None + usd_over h ev b"
    "tokens_exposure (cap_settle h ev b) \<le> tokens_exposure b + tokens_over h ev b"
    "cap_exposure (cap_settle h ev b) (Some s) \<le> cap_exposure b (Some s) + slot_over s h ev b"
    by auto
qed

lemma cap_release_expo:
  assumes "cap_inv C b"
  shows "cap_exposure (cap_release h b) slot \<le> cap_exposure b slot"
    "tokens_exposure (cap_release h b) \<le> tokens_exposure b"
proof -
  have c: "cap_ok b" using assms(1) by (simp add: cap_inv_def)
  have "cap_exposure (cap_release h b) slot \<le> cap_exposure b slot
    \<and> tokens_exposure (cap_release h b) \<le> tokens_exposure b"
  proof (cases "h < length (cb_res b)")
    case True
    note bk = cap_release_books[OF c True]
    have "res_ok (cb_res b ! h)" using c True by (auto simp: cap_ok_def sums_ok_def)
    then show ?thesis
      by (cases slot) (auto simp: cap_exposure_def tokens_exposure_def bk(2-7) res_ok_def)
  qed simp
  then show "cap_exposure (cap_release h b) slot \<le> cap_exposure b slot"
    "tokens_exposure (cap_release h b) \<le> tokens_exposure b" by auto
qed

lemma over_nonneg:
  "0 \<le> usd_over h ev b" "0 \<le> tokens_over h ev b" "0 \<le> slot_over s h ev b"
  by (auto simp: usd_over_def tokens_over_def slot_over_def split: option.splits)

interpretation usd_cap: budget_contract "cap_inv C" "cap_admit C" cap_settle cap_release est_ok event_ok
  "\<lambda>b. cap_exposure b None" "limit_usd C" usd_over for C :: caps
  by unfold_locales (auto intro: cap_admit_inv cap_settle_inv cap_release_inv cap_admit_expo
      cap_settle_expo cap_release_expo over_nonneg)

interpretation tok_cap: budget_contract "cap_inv C" "cap_admit C" cap_settle cap_release est_ok event_ok
  tokens_exposure "map_option of_int (limit_tokens C)" tokens_over for C :: caps
  by unfold_locales (auto intro: cap_admit_inv cap_settle_inv cap_release_inv cap_admit_expo
      cap_settle_expo cap_release_expo over_nonneg)

interpretation tag_cap: budget_contract "cap_inv C" "cap_admit C" cap_settle cap_release est_ok event_ok
  "\<lambda>b. cap_exposure b (Some s)" "dict_get (per_tag C) (fst s)" "slot_over s" for C :: caps and s
  by unfold_locales (auto intro: cap_admit_inv cap_settle_inv cap_release_inv cap_admit_expo
      cap_settle_expo cap_release_expo over_nonneg)

lemma cap_new_inv: "dict_wf (per_tag C) \<Longrightarrow> cap_inv C cap_new"
  by (simp add: cap_inv_def cap_ok_def sums_ok_def cap_new_def sum_usd_def sum_tokens_def sum_slot_def)

text \<open>One budget's life: any admissions, settlements and releases, in any order.\<close>

abbreviation cap_run :: "caps \<Rightarrow> ('v estimate, nat, ledger_event) budget_op list \<Rightarrow> 'v cap_budget" where
  "cap_run C ops \<equiv> run_ops (cap_admit C) cap_settle cap_release ops cap_new"

text \<open>
  Claim C19: no sequence of admissions, settlements and releases, however interleaved, takes
  spend plus reservations past a cap by more than the amount by which settled attempts cost
  more than was reserved for them: in USD, in tokens, and for every value of a capped tag.
\<close>

theorem cap_budget_bounded:
  assumes "dict_wf (per_tag C)" and "\<forall>op \<in> set ops. op_ok est_ok event_ok op"
  shows "(\<forall>L. limit_usd C = Some L \<longrightarrow> cap_exposure (cap_run C ops) None \<le>
            max 0 L + overshoot (cap_admit C) cap_settle cap_release usd_over ops cap_new)
       \<and> (\<forall>L. limit_tokens C = Some L \<longrightarrow> tokens_exposure (cap_run C ops) \<le>
            max 0 (of_int L) + overshoot (cap_admit C) cap_settle cap_release tokens_over ops cap_new)
       \<and> (\<forall>s L. dict_get (per_tag C) (fst s) = Some L \<longrightarrow> cap_exposure (cap_run C ops) (Some s) \<le>
            max 0 L + overshoot (cap_admit C) cap_settle cap_release (slot_over s) ops cap_new)"
proof -
  have z: "cap_exposure cap_new slot = 0" "tokens_exposure cap_new = 0" for slot :: "(string \<times> 'a) option"
    by (auto simp: cap_exposure_def tokens_exposure_def cap_new_def split: option.splits)
  note i = cap_new_inv[OF assms(1)]
  show ?thesis
    using usd_cap.run_bound[OF i assms(2)] tok_cap.run_bound[OF i assms(2)] tag_cap.run_bound[OF i assms(2)]
    by (auto simp: z)
qed

subsection \<open>Metered calls\<close>

text \<open>
  \<open>Admission.settle\<close> drops the events of other calls. \<open>BudgetedProvider._metered\<close>: a call the
  LLM layer already admitted passes through; any other is estimated, admitted, settled
  attempt by attempt and released whatever the provider did. The provider's behaviour is the
  list of events it reports and its outcome (an exception included).
\<close>

definition admission_settle ::
  "('h \<Rightarrow> ledger_event \<Rightarrow> 's \<Rightarrow> 's) \<Rightarrow> 'v estimate \<Rightarrow> 'h \<Rightarrow> ledger_event \<Rightarrow> 's \<Rightarrow> 's" where
  "admission_settle se e h ev s = (if le_call_id ev \<noteq> Some (es_call_id e) then s else se h ev s)"

definition metered_call ::
  "('v estimate \<Rightarrow> 's \<Rightarrow> ('x, 'h) py \<times> 's) \<Rightarrow> ('h \<Rightarrow> ledger_event \<Rightarrow> 's \<Rightarrow> 's) \<Rightarrow> ('h \<Rightarrow> 's \<Rightarrow> 's)
     \<Rightarrow> bool \<Rightarrow> 'v estimate \<Rightarrow> (unit \<Rightarrow> ledger_event list \<times> 'a) \<Rightarrow> 's \<Rightarrow> ('x, 'a) py \<times> bool \<times> 's" where
  "metered_call ad se re active e call s =
     (if active then (Inr (snd (call ())), True, s)
      else (case ad e s of
              (Inl r, s') \<Rightarrow> (Inl r, False, s')
            | (Inr h, s') \<Rightarrow>
                (case call () of
                   (events, res) \<Rightarrow> (Inr res, True, re h (fold (admission_settle se e h) events s')))))"

lemma cap_settle_res:
  "cap_ok b \<Longrightarrow> cb_res (cap_settle h ev b) = cb_res b
     \<or> (\<exists>r. cb_res (cap_settle h ev b) = (cb_res b)[h := r])"
proof -
  have "\<exists>r. (cb_res b)[h := r] = cb_res b" by (metis list_update_id)
  then show ?thesis
    by (auto simp: cap_settle_def settle_charge_def Let_def consume_cb_res split: option.splits)
qed

lemma cap_settles_keep:
  assumes "cap_inv C b" "\<forall>ev \<in> set evs. event_ok ev" "h < length (cb_res b)"
  shows "cap_inv C (fold (admission_settle cap_settle e h) evs b)
    \<and> (\<exists>r. cb_res (fold (admission_settle cap_settle e h) evs b) = (cb_res b)[h := r])"
  using assms
proof (induction evs arbitrary: b)
  case Nil
  then show ?case by (metis fold_simps(1) list_update_id)
next
  case (Cons ev evs)
  let ?b = "admission_settle cap_settle e h ev b"
  have i: "cap_inv C ?b" using Cons.prems by (auto simp: admission_settle_def intro: cap_settle_inv)
  have "cap_ok b" using Cons.prems by (simp add: cap_inv_def)
  then obtain r where r: "cb_res ?b = (cb_res b)[h := r]"
    using cap_settle_res by (metis admission_settle_def list_update_id)
  with Cons.prems have "h < length (cb_res ?b)" by simp
  with Cons.IH[OF i] Cons.prems r show ?case by auto
qed

text \<open>
  A metered call hands back what it did not use. When the budget refuses, the
  provider is never called and nothing changes; otherwise the call's reservation ends
  released with nothing left in it and every other reservation is untouched, so the reserved
  total is what it was before, whether the provider returned, failed or reported events of
  other calls.
\<close>

lemma metered_call_releases:
  assumes "cap_inv C b" "est_ok e" "\<forall>ev \<in> set (fst (call ())). event_ok ev"
    and "metered_call (cap_admit C) cap_settle cap_release False e call b = (res, called, b')"
  shows "cap_inv C b' \<and> reserved_usd b' = reserved_usd b \<and> reserved_tokens b' = reserved_tokens b
       \<and> take (length (cb_res b)) (cb_res b') = cb_res b
       \<and> (case res of
            Inl r \<Rightarrow> \<not> called \<and> b' = b
          | Inr a \<Rightarrow> called \<and> a = snd (call ()) \<and> length (cb_res b') = Suc (length (cb_res b))
                     \<and> rs_released (last (cb_res b')) \<and> rs_usd (last (cb_res b')) = 0)"
proof (cases "cap_admit C e b")
  case (Pair x b1)
  show ?thesis
  proof (cases x)
    case (Inl r)
    with Pair have "cap_admit C e b = (Inl r, b1)" by simp
    with assms(4) cap_admit_refused[OF this] assms(1) show ?thesis by (auto simp: metered_call_def)
  next
    case (Inr h)
    with Pair have a: "cap_admit C e b = (Inr h, b1)" by simp
    have c: "cap_ok b" "dict_wf (per_tag C)" using assms(1) by (auto simp: cap_inv_def)
    note bk = cap_admit_books[OF c(1) assms(2) c(2) a]
    obtain r0 where r0: "cb_res b1 = cb_res b @ [r0]"
      using a by (auto simp: cap_admit_def split: sum.splits prod.splits)
    have i1: "cap_inv C b1" using bk(1) c(2) by (simp add: cap_inv_def)
    have hl: "h < length (cb_res b1)" using bk(2) r0 by simp
    define b2 where "b2 = fold (admission_settle cap_settle e h) (fst (call ())) b1"
    obtain r where i2: "cap_inv C b2" and r: "cb_res b2 = cb_res b @ [r]"
      using cap_settles_keep[OF i1 assms(3) hl, of e] bk(2) r0 by (auto simp: b2_def)
    have b': "b' = cap_release h b2" and res: "res = Inr (snd (call ()))" "called"
      using assms(4) a by (auto simp: metered_call_def b2_def split: prod.splits)
    have h2: "h < length (cb_res b2)" and at: "cb_res b2 ! h = r" using r bk(2) by simp_all
    have "cap_ok b2" using i2 by (simp add: cap_inv_def)
    note rel = cap_release_books[OF this h2, unfolded at]
    have cb: "cb_res b' = cb_res b @ [r\<lparr>rs_released := True, rs_usd := 0, rs_tokens := 0\<rparr>]"
      unfolding b' rel(8) r using bk(2) by simp
    have ok': "cap_ok b'" using rel(1) by (simp add: b')
    then have "reserved_usd b' = sum_usd (cb_res b')" "reserved_tokens b' = sum_tokens (cb_res b')"
      by (simp_all add: cap_ok_def sums_ok_def)
    moreover have "reserved_usd b = sum_usd (cb_res b)" "reserved_tokens b = sum_tokens (cb_res b)"
      using c(1) by (simp_all add: cap_ok_def sums_ok_def)
    ultimately have "reserved_usd b' = reserved_usd b" "reserved_tokens b' = reserved_tokens b"
      by (simp_all add: cb)
    with ok' c(2) cb res show ?thesis by (simp add: cap_inv_def)
  qed
qed


subsection \<open>Spend\<close>

lemma sum_list_zero: "\<forall>x \<in> set xs. f x = 0 \<Longrightarrow> sum_list (map f xs) = (0 :: 'b :: comm_monoid_add)"
  by (induction xs) auto

fun released_total :: "('e \<Rightarrow> 's \<Rightarrow> ('x, 'h) py \<times> 's) \<Rightarrow> ('h \<Rightarrow> 'ev \<Rightarrow> 's \<Rightarrow> 's) \<Rightarrow> ('h \<Rightarrow> 's \<Rightarrow> 's)
     \<Rightarrow> ('h \<Rightarrow> 's \<Rightarrow> rat) \<Rightarrow> ('e, 'h, 'ev) budget_op list \<Rightarrow> 's \<Rightarrow> rat" where
  "released_total ad se re kept [] s = 0"
| "released_total ad se re kept (Admit e # ops) s = released_total ad se re kept ops (snd (ad e s))"
| "released_total ad se re kept (Settle h ev # ops) s = released_total ad se re kept ops (se h ev s)"
| "released_total ad se re kept (Release h # ops) s = kept h s + released_total ad se re kept ops (re h s)"

definition settled_cost :: "nat \<Rightarrow> ledger_event \<Rightarrow> 'v cap_budget \<Rightarrow> rat" where
  "settled_cost h ev b = (if h < length (cb_res b) then event_cost ev else 0)"

definition kept_usd :: "nat \<Rightarrow> 'v cap_budget \<Rightarrow> rat" where
  "kept_usd h b =
     (if h < length (cb_res b) \<and> rs_unpriced (cb_res b ! h) \<and> \<not> rs_released (cb_res b ! h)
      then rs_usd (cb_res b ! h) else 0)"

lemma spend_accounts_from:
  assumes "cap_inv C b" "\<forall>op \<in> set ops. op_ok est_ok event_ok op"
  shows "spent_usd (run_ops (cap_admit C) cap_settle cap_release ops b) = spent_usd b
    + overshoot (cap_admit C) cap_settle cap_release settled_cost ops b
    + released_total (cap_admit C) cap_settle cap_release kept_usd ops b"
  using assms
proof (induction ops arbitrary: b)
  case (Cons op ops)
  have c: "cap_ok b" "dict_wf (per_tag C)" using Cons.prems by (auto simp: cap_inv_def)
  show ?case
  proof (cases op)
    case (Admit e)
    obtain x b1 where a: "cap_admit C e b = (x, b1)" by fastforce
    have e: "est_ok e" using Cons.prems Admit by simp
    have "spent_usd b1 = spent_usd b"
    proof (cases x)
      case (Inl r)
      with a cap_admit_refused show ?thesis by fastforce
    next
      case (Inr h)
      with a cap_admit_books(3)[OF c(1) e c(2)] show ?thesis by simp
    qed
    moreover have "cap_inv C b1" using cap_admit_inv[OF Cons.prems(1) e] a by simp
    ultimately show ?thesis using Cons.IH[of b1] Cons.prems a Admit by simp
  next
    case (Settle h ev)
    have "cap_inv C (cap_settle h ev b)" using Cons.prems Settle by (auto intro: cap_settle_inv)
    moreover have "spent_usd (cap_settle h ev b) = spent_usd b + settled_cost h ev b"
      using cap_settle_books(2)[OF c(1)] Cons.prems Settle by (auto simp: settled_cost_def)
    ultimately show ?thesis using Cons.IH[of "cap_settle h ev b"] Cons.prems Settle by simp
  next
    case (Release h)
    have "cap_inv C (cap_release h b)" using Cons.prems by (auto intro: cap_release_inv)
    moreover have "spent_usd (cap_release h b) = spent_usd b + kept_usd h b"
      using cap_release_books(2)[OF c(1), of h] by (cases "h < length (cb_res b)") (auto simp: kept_usd_def)
    ultimately show ?thesis using Cons.IH[of "cap_release h b"] Cons.prems Release by simp
  qed
qed simp

text \<open>
  Claim C28: the books balance. After any run the spend is exactly the settled costs plus what
  released reservations with an unpriced, timed-out or cancelled attempt kept; the reserved
  totals are the sums over the reservations, so once every reservation is released nothing is
  reserved, in USD, tokens or any tag.
\<close>

theorem cap_spend_accounts:
  assumes "dict_wf (per_tag C)" and "\<forall>op \<in> set ops. op_ok est_ok event_ok op"
  shows "spent_usd (cap_run C ops)
      = overshoot (cap_admit C) cap_settle cap_release settled_cost ops cap_new
        + released_total (cap_admit C) cap_settle cap_release kept_usd ops cap_new
    \<and> reserved_usd (cap_run C ops) = sum_usd (cb_res (cap_run C ops))
    \<and> (list_all rs_released (cb_res (cap_run C ops)) \<longrightarrow>
         reserved_usd (cap_run C ops) = 0 \<and> reserved_tokens (cap_run C ops) = 0
         \<and> tag_reserved (cap_run C ops) s = 0)"
proof -
  note i = cap_new_inv[OF assms(1)]
  have inv: "cap_inv C (cap_run C ops)" by (rule usd_cap.run_inv[OF i assms(2)])
  define b where "b = cap_run C ops"
  have ok: "cap_ok b" using inv by (simp add: cap_inv_def b_def)
  have "spent_usd b = overshoot (cap_admit C) cap_settle cap_release settled_cost ops cap_new
        + released_total (cap_admit C) cap_settle cap_release kept_usd ops cap_new"
    using spend_accounts_from[OF i assms(2)] by (simp add: b_def cap_new_def)
  moreover have "reserved_usd b = 0 \<and> reserved_tokens b = 0 \<and> tag_reserved b s = 0"
    if "list_all rs_released (cb_res b)"
  proof -
    have z: "\<forall>r \<in> set (cb_res b). rs_usd r = 0 \<and> rs_tokens r = 0"
      using ok that unfolding cap_ok_def list_all_iff by blast
    then have "sum_list (map rs_usd (cb_res b)) = 0" "sum_list (map rs_tokens (cb_res b)) = 0"
      "sum_list (map (slot_usd s) (cb_res b)) = 0"
      by (auto intro!: sum_list_zero simp: slot_usd_def)
    then show ?thesis
      using ok by (simp add: cap_ok_def sums_ok_def sum_usd_def sum_tokens_def sum_slot_def)
  qed
  moreover have "reserved_usd b = sum_usd (cb_res b)" using ok by (simp add: cap_ok_def sums_ok_def)
  ultimately show ?thesis unfolding b_def by blast
qed

subsection \<open>The estimate is a worst case\<close>

text \<open>
  An attempt that stays within its estimate never costs more than it. For a priced
  model whose cache reads are not dearer than its input, an attempt that used at most the
  estimated prompt and the output cap (hidden output included) is charged no more than the
  worst case the call was admitted with, so it overshoots no cap.
\<close>

lemma attempt_within_estimate:
  assumes "usage_ok u" "input_tokens u \<le> prompt" "output_tokens u \<le> max_out"
    and "price_in pr = Some pin" "price_out pr = Some pout" "0 \<le> pin" "0 \<le> pout"
    and "\<forall>c. price_cache_read pr = Some c \<longrightarrow> 0 \<le> c \<and> c \<le> pin"
    and "compute_cost (Some u) pr = Some c"
    and "e = build_estimate cid alias model prov prompt max_out rounds reprompts (Some pr) tags who"
  shows "est_ok e \<and> (\<exists>w. es_worst_usd e = Some w \<and> c \<le> w)"
proof -
  define cread where "cread = opt0 (cache_read_tokens u)"
  have n: "0 \<le> input_tokens u" "0 \<le> output_tokens u" "0 \<le> cread" "cread \<le> input_tokens u"
    using assms(1) by (auto simp: usage_ok_def int_fields_def opt_fields_def cread_def)
  define pc where "pc = (case price_cache_read pr of None \<Rightarrow> 0 | Some c \<Rightarrow> c)"
  have pc: "0 \<le> pc" "pc \<le> pin" using assms(6,8) by (auto simp: pc_def split: option.splits)
  have c: "c = (of_int (input_tokens u - cread) * pin + of_int (output_tokens u) * pout + of_int cread * pc)
      / PER_MTOK"
    using assms(4,5,9) n by (auto simp: compute_cost_def Let_def cread_def[symmetric] pc_def split: if_splits)
  define r where "r = max 1 rounds"
  have r: "1 \<le> r" by (simp add: r_def)
  define ri where "ri = r * prompt + max 0 reprompts * (max_out + REPROMPT_OVERHEAD_TOKENS)"
  have p0: "0 \<le> prompt" "0 \<le> max_out" using n assms(2,3) by auto
  have "prompt \<le> r * prompt" "max_out \<le> r * max_out"
    using r p0 by (simp_all add: mult_le_cancel_right1)
  moreover have "0 \<le> max 0 reprompts * (max_out + REPROMPT_OVERHEAD_TOKENS)"
    using p0 by (simp add: REPROMPT_OVERHEAD_TOKENS_def)
  ultimately have le: "input_tokens u \<le> ri" "output_tokens u \<le> r * max_out" "0 \<le> ri" "0 \<le> r * max_out"
    using assms(2,3) n by (auto simp: ri_def)
  have w: "es_worst_usd e = Some ((of_int ri * pin + of_int (r * max_out) * pout) / PER_MTOK)"
    using assms(4,5,10) by (simp add: build_estimate_def price_tokens_def Let_def ri_def r_def)
  have "of_int cread * pc \<le> of_int cread * pin" using n pc by (intro mult_left_mono) auto
  then have "of_int (input_tokens u - cread) * pin + of_int cread * pc \<le> of_int (input_tokens u) * pin"
    by (simp add: left_diff_distrib)
  also have "\<dots> \<le> of_int ri * pin" using le(1) assms(6) by (intro mult_right_mono) auto
  finally have 1: "of_int (input_tokens u - cread) * pin + of_int cread * pc \<le> of_int ri * pin" .
  have 2: "of_int (output_tokens u) * pout \<le> of_int (r * max_out) * pout"
    using le(2) assms(7) by (intro mult_right_mono) (simp_all only: of_int_le_iff)
  have "c \<le> (of_int ri * pin + of_int (r * max_out) * pout) / PER_MTOK"
    unfolding c using 1 2 by (intro divide_right_mono) (auto simp: PER_MTOK_def)
  moreover have "0 \<le> (of_int ri * pin + of_int (r * max_out) * pout) / PER_MTOK"
    using le(3,4) assms(6,7)
    by (intro divide_nonneg_nonneg add_nonneg_nonneg mult_nonneg_nonneg)
      (simp_all only: of_int_0_le_iff PER_MTOK_def zero_le_numeral)
  moreover have "es_worst_tokens e = ri + r * max_out"
    using assms(10) by (simp add: build_estimate_def Let_def ri_def r_def)
  ultimately show ?thesis using w le(3,4) by (simp add: est_ok_def)
qed


subsection \<open>Witnesses\<close>

definition sample_caps :: caps where
  "sample_caps = \<lparr>limit_usd = Some 1, limit_tokens = Some 100, per_tag = [(''stage'', 1)],
     allow_unpriced = False\<rparr>"

definition sample_pricing :: pricing where
  "sample_pricing = \<lparr>pr_tier = Some ''cloud'', price_in = Some 3, price_out = Some 15,
     price_cache_read = Some 1\<rparr>"

definition sample_estimate :: "json estimate" where
  "sample_estimate = build_estimate ''c1'' None ''m'' ''p'' 12 10 1 0 (Some sample_pricing)
     [(''stage'', JStr ''plan'')] None"

definition sample_event :: ledger_event where
  "sample_event = fst (observe empty_table no_ambient None ''x'' sample_record (Some sample_ctx))"

definition sample_ops :: "(json estimate, nat, ledger_event) budget_op list" where
  "sample_ops = [Admit sample_estimate, Settle 0 sample_event, Release 0]"

lemma sample_ops_ok: "\<forall>op \<in> set sample_ops. op_ok est_ok event_ok op"
proof -
  have "est_ok sample_estimate" "event_ok sample_event" by code_simp+
  then show ?thesis by (simp add: sample_ops_def)
qed

lemma sample_caps_wf: "dict_wf (per_tag sample_caps)"
  by (simp add: sample_caps_def)

lemma cap_budget_bounded_witness:
  "cap_exposure (cap_run sample_caps sample_ops) None \<le> max 0 1
     + overshoot (cap_admit sample_caps) cap_settle cap_release usd_over sample_ops cap_new"
proof -
  have "limit_usd sample_caps = Some 1" by (simp add: sample_caps_def)
  with cap_budget_bounded[OF sample_caps_wf sample_ops_ok] show ?thesis by blast
qed

lemma cap_spend_accounts_witness:
  "reserved_usd (cap_run sample_caps sample_ops) = sum_usd (cb_res (cap_run sample_caps sample_ops))"
  using cap_spend_accounts[OF sample_caps_wf sample_ops_ok, of "(''stage'', JStr ''plan'')"] by blast

lemma metered_call_releases_witness:
  "case metered_call (cap_admit sample_caps) cap_settle cap_release False sample_estimate
      (\<lambda>_. ([sample_event], ''ok'')) cap_new of (res, called, b') \<Rightarrow> reserved_usd b' = 0"
proof -
  obtain res called b' where m: "metered_call (cap_admit sample_caps) cap_settle cap_release False
      sample_estimate (\<lambda>_. ([sample_event], ''ok'')) cap_new = (res, called, b')" by (metis prod_cases3)
  have "est_ok sample_estimate" "event_ok sample_event" by code_simp+
  then have "\<forall>ev \<in> set (fst (([sample_event], ''ok''))). event_ok ev" by simp
  from metered_call_releases[OF cap_new_inv[OF sample_caps_wf] \<open>est_ok sample_estimate\<close> this m] m
  show ?thesis by (simp add: cap_new_def)
qed

lemma attempt_within_estimate_witness:
  "\<exists>w c. es_worst_usd sample_estimate = Some w \<and> compute_cost (Some sample_usage) sample_pricing = Some c
     \<and> c \<le> w"
proof -
  have u: "input_tokens sample_usage \<le> 12" "output_tokens sample_usage \<le> 10"
    by (simp_all add: sample_usage_def)
  have p: "price_in sample_pricing = Some 3" "price_out sample_pricing = Some 15" "(0::rat) \<le> 3" "(0::rat) \<le> 15"
    "\<forall>c. price_cache_read sample_pricing = Some c \<longrightarrow> 0 \<le> c \<and> c \<le> 3"
    by (simp_all add: sample_pricing_def)
  obtain c where c: "compute_cost (Some sample_usage) sample_pricing = Some c"
    by (simp add: compute_cost_def sample_pricing_def Let_def)
  from attempt_within_estimate[OF sample_usage_ok u p c sample_estimate_def] c
  show ?thesis by auto
qed

end
