(* ===== verification/SharedBudget.thy ===== *)
theory SharedBudget
  imports Budget
begin

text \<open>
  The cap shared across processes, \<open>nanobot/kernel/budget_shared.py\<close>: the tables
  \<open>budget_caps\<close>, \<open>budget_reservations\<close> and \<open>budget_spend\<close> of one budget id, the
  transactions on them, leases, and the queue of writes that could not get the lock. A
  transaction is atomic (SQLite), so any interleaving of processes is a sequence of them;
  rows are never deleted, so a row id is an index. Clock readings are arguments.
\<close>

subsection \<open>Tables\<close>

datatype row_state = Open | Released | Expired

record row =
  rw_call_id :: string
  rw_usd :: rat
  rw_tokens :: int
  rw_slots :: "(string \<times> string) list"
  rw_lease :: int
  rw_state :: row_state
  rw_unpriced :: bool
  rw_exp_usd :: rat
  rw_exp_tokens :: int

record db =
  db_caps :: "caps option"
  db_rows :: "row list"
  db_spend :: "string \<times> string \<Rightarrow> rat \<times> int"

definition db_new :: db where
  "db_new = \<lparr>db_caps = None, db_rows = [], db_spend = (\<lambda>_. (0, 0))\<rparr>"

definition KERNEL_SCOPE :: "string \<times> string" where "KERNEL_SCOPE = ([], [])"

text \<open>\<open>_slot_text\<close>: the row key of a tag value; \<open>reprv\<close> is \<open>repr\<close> of a container.\<close>

fun slot_text :: "(json \<Rightarrow> string) \<Rightarrow> json \<Rightarrow> string" where
  "slot_text reprv (JStr s) = ''s:'' @ s"
| "slot_text reprv JNull = ''j:'' @ json_text False JNull"
| "slot_text reprv (JBool b) = ''j:'' @ json_text False (JBool b)"
| "slot_text reprv (JInt i) = ''j:'' @ json_text False (JInt i)"
| "slot_text reprv (JFloat r) = ''j:'' @ json_text False (JFloat r)"
| "slot_text reprv v = ''r:'' @ reprv v"

definition text_slot :: "(json \<Rightarrow> string) \<Rightarrow> string \<times> json \<Rightarrow> string \<times> string" where
  "text_slot reprv s = (fst s, slot_text reprv (snd s))"

subsection \<open>Caps\<close>

definition caps_key :: "caps \<Rightarrow> rat option \<times> int option \<times> (string, rat) dict \<times> bool" where
  "caps_key C = (limit_usd C, limit_tokens C, sort_key fst (per_tag C), allow_unpriced C)"

text \<open>\<open>_store_caps\<close>: the first object stores its caps, a different later one is a \<open>ValueError\<close>.\<close>

definition store_caps :: "caps \<Rightarrow> bool \<Rightarrow> db \<Rightarrow> (unit, db) py" where
  "store_caps C reset d =
     (case db_caps d of
        Some stored \<Rightarrow> if reset then Inr (d\<lparr>db_caps := Some C\<rparr>)
                       else if caps_key stored \<noteq> caps_key C then Inl () else Inr d
      | None \<Rightarrow> Inr (d\<lparr>db_caps := Some C\<rparr>))"

text \<open>\<open>_write_pending_caps\<close>: caps that found the database locked, written by the next admission.\<close>

definition write_pending_caps :: "caps \<Rightarrow> bool option \<Rightarrow> db \<Rightarrow> db" where
  "write_pending_caps C pending d =
     (case pending of
        None \<Rightarrow> d
      | Some reset \<Rightarrow> if reset \<or> db_caps d = None then d\<lparr>db_caps := Some C\<rparr> else d)"

definition caps_of :: "caps \<Rightarrow> db \<Rightarrow> caps" where
  "caps_of C d = (case db_caps d of None \<Rightarrow> C | Some s \<Rightarrow> s)"

subsection \<open>Spend and leases\<close>

definition add_spend :: "string \<times> string \<Rightarrow> rat \<Rightarrow> int \<Rightarrow> (string \<times> string \<Rightarrow> rat \<times> int)
     \<Rightarrow> string \<times> string \<Rightarrow> rat \<times> int" where
  "add_spend scope usd tokens sp = sp(scope := (fst (sp scope) + usd, snd (sp scope) + tokens))"

definition charge :: "rat \<Rightarrow> int \<Rightarrow> (string \<times> string) list \<Rightarrow> (string \<times> string \<Rightarrow> rat \<times> int)
     \<Rightarrow> string \<times> string \<Rightarrow> rat \<times> int" where
  "charge usd tokens slots sp =
     (let sp1 = (if usd \<noteq> 0 \<or> tokens \<noteq> 0 then add_spend KERNEL_SCOPE usd tokens sp else sp)
      in if usd \<noteq> 0 then fold (\<lambda>s. add_spend s usd 0) slots sp1 else sp1)"

text \<open>\<open>_expire\<close>: charge open reservations whose lease passed.\<close>

fun expire_rows :: "int \<Rightarrow> row list \<Rightarrow> (string \<times> string \<Rightarrow> rat \<times> int)
     \<Rightarrow> row list \<times> (string \<times> string \<Rightarrow> rat \<times> int)" where
  "expire_rows now [] sp = ([], sp)"
| "expire_rows now (r # rs) sp =
     (if rw_state r = Open \<and> rw_lease r \<le> now
      then (case expire_rows now rs (charge (rw_usd r) (rw_tokens r) (rw_slots r) sp) of
              (rs', sp') \<Rightarrow>
                (r\<lparr>rw_state := Expired, rw_usd := 0, rw_tokens := 0,
                   rw_exp_usd := rw_usd r, rw_exp_tokens := rw_tokens r\<rparr> # rs', sp'))
      else (case expire_rows now rs sp of (rs', sp') \<Rightarrow> (r # rs', sp')))"

definition expire_db :: "int \<Rightarrow> db \<Rightarrow> db" where
  "expire_db now d =
     (case expire_rows now (db_rows d) (db_spend d) of (rs, sp) \<Rightarrow> d\<lparr>db_rows := rs, db_spend := sp\<rparr>)"

text \<open>\<open>_totals\<close>: spent and reserved of one scope; a lapsed lease already counts as spent.\<close>

definition in_scope :: "(string \<times> string) option \<Rightarrow> row \<Rightarrow> bool" where
  "in_scope slot r \<longleftrightarrow> rw_state r = Open \<and> (case slot of None \<Rightarrow> True | Some s \<Rightarrow> s \<in> set (rw_slots r))"

definition totals :: "int \<Rightarrow> (string \<times> string) option \<Rightarrow> db \<Rightarrow> rat \<times> int \<times> rat \<times> int" where
  "totals now slot d =
     (let rows = filter (in_scope slot) (db_rows d);
          lapsed = filter (\<lambda>r. rw_lease r \<le> now) rows;
          live = filter (\<lambda>r. \<not> rw_lease r \<le> now) rows;
          sp = db_spend d (case slot of None \<Rightarrow> KERNEL_SCOPE | Some s \<Rightarrow> s);
          toks = (\<lambda>rs. if slot = None then sum_list (map rw_tokens rs) else 0)
      in (fst sp + sum_list (map rw_usd lapsed), snd sp + toks lapsed,
          sum_list (map rw_usd live), toks live))"

subsection \<open>Transactions\<close>

text \<open>\<open>_apply_settle\<close> on the row, with the figures of \<open>settle_charge\<close>.\<close>

definition settle_row :: "nat \<Rightarrow> int \<times> rat option \<times> bool \<Rightarrow> db \<Rightarrow> db" where
  "settle_row i fig d =
     (if i \<ge> length (db_rows d) then d
      else
      (case fig of (tokens, cost, unpriced) \<Rightarrow>
        let r = db_rows d ! i; slots = rw_slots r in
        (if rw_state r = Expired then
           let take_tokens = min (rw_exp_tokens r) tokens;
               take_usd = (case cost of None \<Rightarrow> 0 | Some c \<Rightarrow> min (rw_exp_usd r) c);
               extra = (case cost of None \<Rightarrow> 0 | Some c \<Rightarrow> c - take_usd);
               sp1 = charge 0 (tokens - take_tokens) slots (db_spend d);
               sp2 = (if extra \<noteq> 0 then charge extra 0 slots sp1 else sp1)
           in d\<lparr>db_spend := sp2,
                db_rows := (db_rows d)[i := r\<lparr>rw_exp_usd := rw_exp_usd r - take_usd,
                  rw_exp_tokens := rw_exp_tokens r - take_tokens,
                  rw_unpriced := rw_unpriced r \<or> unpriced\<rparr>]\<rparr>
         else
           let sp1 = charge 0 tokens slots (db_spend d);
               sp2 = (case cost of None \<Rightarrow> sp1 | Some c \<Rightarrow> charge c 0 slots sp1)
           in if rw_state r = Open then
                d\<lparr>db_spend := sp2,
                  db_rows := (db_rows d)[i := r\<lparr>
                    rw_usd := rw_usd r - min (rw_usd r) (case cost of None \<Rightarrow> 0 | Some c \<Rightarrow> c),
                    rw_tokens := rw_tokens r - min (rw_tokens r) tokens,
                    rw_unpriced := rw_unpriced r \<or> unpriced\<rparr>]\<rparr>
              else
                d\<lparr>db_spend := sp2,
                  db_rows := (if unpriced then (db_rows d)[i := r\<lparr>rw_unpriced := True\<rparr>] else db_rows d)\<rparr>)))"

definition release_row :: "nat \<Rightarrow> db \<Rightarrow> db" where
  "release_row i d =
     (if i \<ge> length (db_rows d) then d
      else
        let r = db_rows d ! i; slots = rw_slots r in
        (case rw_state r of
           Released \<Rightarrow> d
         | Expired \<Rightarrow>
             let usd = (if rw_unpriced r then 0 else rw_exp_usd r); tokens = rw_exp_tokens r
             in d\<lparr>db_spend := (if usd \<noteq> 0 \<or> tokens \<noteq> 0 then charge (- usd) (- tokens) slots (db_spend d)
                               else db_spend d),
                  db_rows := (db_rows d)[i := r\<lparr>rw_state := Released, rw_exp_usd := 0, rw_exp_tokens := 0\<rparr>]\<rparr>
         | Open \<Rightarrow>
             d\<lparr>db_spend := (if rw_unpriced r \<and> rw_usd r \<noteq> 0 then charge (rw_usd r) 0 slots (db_spend d)
                            else db_spend d),
               db_rows := (db_rows d)[i := r\<lparr>rw_state := Released, rw_usd := 0, rw_tokens := 0\<rparr>]\<rparr>))"

text \<open>Each settle or release is one transaction that first expires lapsed leases.\<close>

definition tx_settle :: "int \<Rightarrow> nat \<Rightarrow> ledger_event \<Rightarrow> db \<Rightarrow> db" where
  "tx_settle now i ev d = settle_row i (settle_charge ev) (expire_db now d)"

definition tx_release :: "int \<Rightarrow> nat \<Rightarrow> db \<Rightarrow> db" where
  "tx_release now i d = release_row i (expire_db now d)"

text \<open>
  The admission transaction with the caps in force. A refusal keeps the expiry marks.
\<close>

definition tx_admit ::
  "(json \<Rightarrow> string) \<Rightarrow> caps \<Rightarrow> int \<Rightarrow> int \<Rightarrow> json estimate \<Rightarrow> db \<Rightarrow> (json refusal, nat) py \<times> db" where
  "tx_admit reprv C lease_ms now e d0 =
     (let d = expire_db now d0 in
      case totals now None d of (su, st, ru, rt) \<Rightarrow>
      (case check_admission C e (su + ru) (st + rt)
              (\<lambda>s. case totals now (Some (text_slot reprv s)) d of (su, _, ru, _) \<Rightarrow> su + ru) of
         Inl r \<Rightarrow> (Inl r, d)
       | Inr (amount, tokens, slots) \<Rightarrow>
           (Inr (length (db_rows d)),
            d\<lparr>db_rows := db_rows d @
               [\<lparr>rw_call_id = es_call_id e, rw_usd = amount, rw_tokens = tokens,
                 rw_slots = map (text_slot reprv) slots, rw_lease = now + lease_ms, rw_state = Open,
                 rw_unpriced = False, rw_exp_usd = 0, rw_exp_tokens = 0\<rparr>]\<rparr>)))"

subsection \<open>One process: the queue of writes\<close>

datatype pending_op = PSettle nat ledger_event | PRelease nat

record shared =
  sh_caps :: caps
  sh_caps_pending :: "bool option"
  sh_lease_ms :: int
  sh_db :: db
  sh_pending :: "pending_op list"
  sh_released :: "nat list"

fun apply_op :: "int \<Rightarrow> pending_op \<Rightarrow> db \<Rightarrow> db" where
  "apply_op now (PSettle i ev) d = tx_settle now i ev d"
| "apply_op now (PRelease i) d = tx_release now i d"

text \<open>
  \<open>_replay\<close>: queued writes in order until one cannot get the lock. The list gives the clock
  at each write that succeeds; when it is used up the database is locked.
\<close>

fun replay :: "int list \<Rightarrow> pending_op list \<Rightarrow> db \<Rightarrow> pending_op list \<times> db" where
  "replay clks [] d = ([], d)"
| "replay [] (op # ops) d = (op # ops, d)"
| "replay (t # clks) (op # ops) d = replay clks ops (apply_op t op d)"

definition shared_replay :: "int list \<Rightarrow> shared \<Rightarrow> shared" where
  "shared_replay clks st =
     (case replay clks (sh_pending st) (sh_db st) of (ops, d) \<Rightarrow> st\<lparr>sh_pending := ops, sh_db := d\<rparr>)"

definition queue_op :: "int list \<Rightarrow> pending_op \<Rightarrow> shared \<Rightarrow> shared" where
  "queue_op clks op st = shared_replay clks (st\<lparr>sh_pending := sh_pending st @ [op]\<rparr>)"

definition shared_settle :: "int list \<Rightarrow> nat \<Rightarrow> ledger_event \<Rightarrow> shared \<Rightarrow> shared" where
  "shared_settle clks i ev st = queue_op clks (PSettle i ev) st"

definition shared_release :: "int list \<Rightarrow> nat \<Rightarrow> shared \<Rightarrow> shared" where
  "shared_release clks i st =
     (if i \<in> set (sh_released st) then st
      else queue_op clks (PRelease i) (st\<lparr>sh_released := i # sh_released st\<rparr>))"

text \<open>
  \<open>admit\<close>: replay, then the admission transaction at its clock reading; \<^term>\<open>None\<close> when the lock
  is not obtained, which refuses.
\<close>

definition shared_admit ::
  "(json \<Rightarrow> string) \<Rightarrow> int list \<Rightarrow> int option \<Rightarrow> json estimate \<Rightarrow> shared \<Rightarrow> (json refusal, nat) py \<times> shared" where
  "shared_admit reprv clks lock e st0 =
     (let st = shared_replay clks st0 in
      case lock of
        None \<Rightarrow> (Inl (refuse e BudgetUnavailable None), st)
      | Some now \<Rightarrow>
          let d = write_pending_caps (sh_caps st) (sh_caps_pending st) (sh_db st) in
          (case tx_admit reprv (caps_of (sh_caps st) d) (sh_lease_ms st) now e d of
             (res, d') \<Rightarrow> (res, st\<lparr>sh_db := d', sh_caps_pending := None\<rparr>)))"

text \<open>
  \<open>_read\<close>: replay, mark lapsed leases if the lock is free, then read the totals. \<open>snapshot\<close> reads
  the caps first.
\<close>

definition lapsed :: "int \<Rightarrow> row \<Rightarrow> bool" where
  "lapsed now r \<longleftrightarrow> rw_state r = Open \<and> rw_lease r \<le> now"

definition shared_read ::
  "int list \<Rightarrow> bool \<Rightarrow> int \<Rightarrow> (string \<times> string) option \<Rightarrow> shared \<Rightarrow> (rat \<times> int \<times> rat \<times> int) \<times> shared" where
  "shared_read clks lock now slot st0 =
     (let st = shared_replay clks st0;
          st' = (if list_ex (lapsed now) (db_rows (sh_db st)) \<and> lock
                 then st\<lparr>sh_db := expire_db now (sh_db st)\<rparr> else st)
      in (totals now slot (sh_db st'), st'))"

definition shared_snapshot ::
  "int list \<Rightarrow> bool \<Rightarrow> int \<Rightarrow> (string \<times> string) option \<Rightarrow> shared \<Rightarrow> figures \<times> shared" where
  "shared_snapshot clks lock now slot st =
     (let C = caps_of (sh_caps st) (sh_db st) in
      case shared_read clks lock now slot st of
        ((su, stk, ru, rt), st') \<Rightarrow>
          ((case slot of
              None \<Rightarrow> budget_figures (limit_usd C) (limit_tokens C) su (Some stk) ru (Some rt)
            | Some s \<Rightarrow> budget_figures (dict_get (per_tag C) (fst s)) None su None ru None), st'))"

text \<open>\<open>flush\<close>: replays until nothing is pending or the attempts are used up.\<close>

fun shared_flush :: "int list list \<Rightarrow> shared \<Rightarrow> bool \<times> shared" where
  "shared_flush [] st = (sh_pending st = [], st)"
| "shared_flush (clks # later) st =
     (let st' = shared_replay clks st in
      if sh_pending st' = [] then (True, st') else shared_flush later st')"

text \<open>
  The constructor on an existing database: argument checks, then the caps are stored; when the
  lock is not obtained they are compared without it and left for the next admission. \<open>pending\<close> is
  the queue an earlier object of the process left.
\<close>

definition shared_init ::
  "string \<Rightarrow> caps \<Rightarrow> int \<Rightarrow> int \<Rightarrow> bool \<Rightarrow> bool \<Rightarrow> int list \<Rightarrow> pending_op list \<Rightarrow> nat list \<Rightarrow> db \<Rightarrow> (unit, shared) py" where
  "shared_init budget_id C lease_ms lock_timeout_ms reset lock clks pending released d =
     (if budget_id = [] \<or> lease_ms \<le> 0 \<or> lock_timeout_ms < 0 then Inl ()
      else
        let st = \<lparr>sh_caps = C, sh_caps_pending = None, sh_lease_ms = lease_ms, sh_db = d,
                  sh_pending = pending, sh_released = released\<rparr>
        in if lock then
             (case store_caps C reset d of
                Inl e \<Rightarrow> Inl e
              | Inr d' \<Rightarrow> Inr (shared_replay clks (st\<lparr>sh_db := d'\<rparr>)))
           else if \<not> reset \<and> db_caps d \<noteq> None \<and> map_option caps_key (db_caps d) \<noteq> Some (caps_key C)
             then Inl ()
           else Inr (shared_replay clks (st\<lparr>sh_caps_pending := Some reset\<rparr>)))"

subsection \<open>The shared budget as a reference budget\<close>

text \<open>
  An expired lease is only early bookkeeping: what it charged is still that call's reservation
  until the call is released. Taking it back out of the spend gives the state the in-memory
  budget would have.
\<close>

definition abs_row :: "row \<Rightarrow> string reservation" where
  "abs_row r = \<lparr>rs_call_id = rw_call_id r, rs_usd = rw_usd r + rw_exp_usd r,
     rs_tokens = rw_tokens r + rw_exp_tokens r, rs_slots = rw_slots r, rs_unpriced = rw_unpriced r,
     rs_released = (rw_state r = Released)\<rparr>"

definition exp_slot :: "string \<times> string \<Rightarrow> row \<Rightarrow> rat" where
  "exp_slot s r = (if s \<in> set (rw_slots r) then rw_exp_usd r else 0)"

definition abs_db :: "db \<Rightarrow> string cap_budget" where
  "abs_db d = \<lparr>spent_usd = fst (db_spend d KERNEL_SCOPE) - sum_list (map rw_exp_usd (db_rows d)),
     spent_tokens = snd (db_spend d KERNEL_SCOPE) - sum_list (map rw_exp_tokens (db_rows d)),
     reserved_usd = sum_usd (map abs_row (db_rows d)),
     reserved_tokens = sum_tokens (map abs_row (db_rows d)),
     tag_spent = (\<lambda>s. fst (db_spend d s) - sum_list (map (exp_slot s) (db_rows d))),
     tag_reserved = (\<lambda>s. sum_slot s (map abs_row (db_rows d))),
     cb_res = map abs_row (db_rows d)\<rparr>"

definition row_ok :: "row \<Rightarrow> bool" where
  "row_ok r \<longleftrightarrow> 0 \<le> rw_usd r \<and> 0 \<le> rw_tokens r \<and> 0 \<le> rw_exp_usd r \<and> 0 \<le> rw_exp_tokens r
     \<and> distinct (rw_slots r) \<and> KERNEL_SCOPE \<notin> set (rw_slots r)
     \<and> (rw_state r \<noteq> Open \<longrightarrow> rw_usd r = 0 \<and> rw_tokens r = 0)
     \<and> (rw_state r \<noteq> Expired \<longrightarrow> rw_exp_usd r = 0 \<and> rw_exp_tokens r = 0)"

definition db_ok :: "db \<Rightarrow> bool" where
  "db_ok d \<longleftrightarrow> (\<forall>r \<in> set (db_rows d). row_ok r)"

lemma charge_kernel:
  "KERNEL_SCOPE \<notin> set slots \<Longrightarrow>
   charge usd tokens slots sp KERNEL_SCOPE = (fst (sp KERNEL_SCOPE) + usd, snd (sp KERNEL_SCOPE) + tokens)"
proof -
  have f: "KERNEL_SCOPE \<notin> set slots \<Longrightarrow> fold (\<lambda>s. add_spend s usd 0) slots f KERNEL_SCOPE = f KERNEL_SCOPE" for f
    by (induction slots arbitrary: f) (auto simp: add_spend_def)
  assume "KERNEL_SCOPE \<notin> set slots"
  with f show ?thesis by (auto simp: charge_def Let_def add_spend_def)
qed

lemma charge_slot:
  assumes "distinct slots" "s \<noteq> KERNEL_SCOPE"
  shows "fst (charge usd tokens slots sp s) = fst (sp s) + (if s \<in> set slots then usd else 0)"
proof -
  have "distinct slots \<Longrightarrow> fst (fold (\<lambda>s. add_spend s usd 0) slots f s)
      = fst (f s) + (if s \<in> set slots then usd else 0)" for f
    by (induction slots arbitrary: f) (auto simp: add_spend_def)
  with assms show ?thesis by (auto simp: charge_def Let_def add_spend_def)
qed

text \<open>Spend of the scopes that can be read: the kernel scope and tag slots.\<close>

definition tag_view :: "db \<Rightarrow> string \<times> string \<Rightarrow> rat" where
  "tag_view d s = fst (db_spend d s) - sum_list (map (exp_slot s) (db_rows d))"

lemma abs_db_ok: "db_ok d \<Longrightarrow> cap_ok (abs_db d)"
proof -
  assume d: "db_ok d"
  have r: "res_ok (abs_row r) \<and> (rs_released (abs_row r) \<longrightarrow> rs_usd (abs_row r) = 0 \<and> rs_tokens (abs_row r) = 0)"
    if "r \<in> set (db_rows d)" for r
  proof -
    have "row_ok r" using d that by (simp add: db_ok_def)
    then show ?thesis by (auto simp: row_ok_def abs_row_def res_ok_def)
  qed
  have "sums_ok (abs_db d)" using r by (simp add: sums_ok_def abs_db_def)
  moreover have "\<forall>x \<in> set (cb_res (abs_db d)). rs_released x \<longrightarrow> rs_usd x = 0 \<and> rs_tokens x = 0"
    using r by (simp add: abs_db_def)
  ultimately show ?thesis unfolding cap_ok_def by blast
qed

subsection \<open>Expiry is invisible\<close>

lemma expire_rows_abs:
  assumes "\<forall>r \<in> set rs. row_ok r" "expire_rows now rs sp = (rs', sp')"
  shows "map abs_row rs' = map abs_row rs \<and> (\<forall>r \<in> set rs'. row_ok r)
    \<and> fst (sp' KERNEL_SCOPE) - sum_list (map rw_exp_usd rs') = fst (sp KERNEL_SCOPE) - sum_list (map rw_exp_usd rs)
    \<and> snd (sp' KERNEL_SCOPE) - sum_list (map rw_exp_tokens rs')
        = snd (sp KERNEL_SCOPE) - sum_list (map rw_exp_tokens rs)
    \<and> (\<forall>s. s \<noteq> KERNEL_SCOPE \<longrightarrow> fst (sp' s) - sum_list (map (exp_slot s) rs')
        = fst (sp s) - sum_list (map (exp_slot s) rs))
    \<and> (\<forall>r \<in> set rs'. rw_state r = Open \<longrightarrow> now < rw_lease r)"
  using assms
proof (induction rs arbitrary: sp rs' sp')
  case (Cons r rs)
  have r: "row_ok r" and rs: "\<forall>r \<in> set rs. row_ok r" using Cons.prems by auto
  show ?case
  proof (cases "rw_state r = Open \<and> rw_lease r \<le> now")
    case True
    let ?r = "r\<lparr>rw_state := Expired, rw_usd := 0, rw_tokens := 0, rw_exp_usd := rw_usd r, rw_exp_tokens := rw_tokens r\<rparr>"
    let ?sp = "charge (rw_usd r) (rw_tokens r) (rw_slots r) sp"
    from True Cons.prems(2) obtain t where t: "expire_rows now rs ?sp = (t, sp')" and rs': "rs' = ?r # t"
      by (auto split: prod.splits)
    note IH = Cons.IH[OF rs t]
    have e: "rw_exp_usd r = 0" "rw_exp_tokens r = 0" using r True by (auto simp: row_ok_def)
    have k: "KERNEL_SCOPE \<notin> set (rw_slots r)" and d: "distinct (rw_slots r)" using r by (auto simp: row_ok_def)
    have "abs_row ?r = abs_row r" using True e by (simp add: abs_row_def)
    moreover have "row_ok ?r" using r by (auto simp: row_ok_def)
    moreover have "fst (sp' s) - sum_list (map (exp_slot s) rs')
        = fst (sp s) - sum_list (map (exp_slot s) (r # rs))" if "s \<noteq> KERNEL_SCOPE" for s
    proof -
      have "fst (sp' s) - sum_list (map (exp_slot s) t) = fst (?sp s) - sum_list (map (exp_slot s) rs)"
        using IH that by blast
      then show ?thesis
        unfolding charge_slot[OF d that] by (cases "s \<in> set (rw_slots r)") (simp_all add: rs' exp_slot_def e)
    qed
    ultimately show ?thesis
      using IH charge_kernel[OF k] e by (simp add: rs')
  next
    case False
    with Cons.prems(2) obtain t where t: "expire_rows now rs sp = (t, sp')" and rs': "rs' = r # t"
      by (auto split: prod.splits)
    from Cons.IH[OF rs t] r False show ?thesis by (auto simp: rs')
  qed
qed simp

text \<open>Two abstractions agree on everything a budget ever reads (a tag slot is never the kernel scope).\<close>

definition same_books :: "string cap_budget \<Rightarrow> string cap_budget \<Rightarrow> bool" where
  "same_books a b \<longleftrightarrow> spent_usd a = spent_usd b \<and> spent_tokens a = spent_tokens b
     \<and> reserved_usd a = reserved_usd b \<and> reserved_tokens a = reserved_tokens b
     \<and> (\<forall>s. s \<noteq> KERNEL_SCOPE \<longrightarrow> tag_spent a s = tag_spent b s \<and> tag_reserved a s = tag_reserved b s)
     \<and> cb_res a = cb_res b"

lemma expire_db_books:
  assumes "db_ok d"
  shows "same_books (abs_db (expire_db now d)) (abs_db d)" "db_ok (expire_db now d)"
    "\<forall>r \<in> set (db_rows (expire_db now d)). rw_state r = Open \<longrightarrow> now < rw_lease r"
    "db_caps (expire_db now d) = db_caps d"
    "length (db_rows (expire_db now d)) = length (db_rows d)"
proof -
  obtain rs sp where e: "expire_rows now (db_rows d) (db_spend d) = (rs, sp)" by fastforce
  have "\<forall>r \<in> set (db_rows d). row_ok r" using assms by (simp add: db_ok_def)
  note x = expire_rows_abs[OF this e]
  have d: "expire_db now d = d\<lparr>db_rows := rs, db_spend := sp\<rparr>" by (simp add: expire_db_def e)
  show "same_books (abs_db (expire_db now d)) (abs_db d)"
    using x unfolding same_books_def abs_db_def d by simp
  show "db_ok (expire_db now d)" using x by (simp add: d db_ok_def)
  show "\<forall>r \<in> set (db_rows (expire_db now d)). rw_state r = Open \<longrightarrow> now < rw_lease r" using x by (simp add: d)
  show "db_caps (expire_db now d) = db_caps d" by (simp add: d)
  have "length (map abs_row rs) = length (map abs_row (db_rows d))" using x by metis
  then show "length (db_rows (expire_db now d)) = length (db_rows d)" by (simp add: d)
qed


text \<open>A read counts a lapsed lease as spent, so marking it changes no figure.\<close>

lemma charge_other:
  "s \<notin> set slots \<Longrightarrow> s \<noteq> KERNEL_SCOPE \<Longrightarrow> charge usd tokens slots sp s = sp s"
proof -
  have f: "s \<notin> set slots \<Longrightarrow> fold (\<lambda>s. add_spend s usd 0) slots f s = f s" for f
    by (induction slots arbitrary: f) (auto simp: add_spend_def)
  assume "s \<notin> set slots" "s \<noteq> KERNEL_SCOPE"
  with f show ?thesis by (auto simp: charge_def Let_def add_spend_def)
qed

lemma charge_slot_tokens:
  assumes "s \<noteq> KERNEL_SCOPE"
  shows "snd (charge usd tokens slots sp s) = snd (sp s)"
proof -
  have "snd (fold (\<lambda>s. add_spend s usd 0) slots f s) = snd (f s)" for f
    by (induction slots arbitrary: f) (auto simp: add_spend_def)
  with assms show ?thesis by (auto simp: charge_def Let_def add_spend_def)
qed

lemma expire_rows_totals:
  assumes "\<forall>r \<in> set rs. row_ok r" "expire_rows now rs sp = (rs', sp')" "slot \<noteq> Some KERNEL_SCOPE"
  defines "sc \<equiv> (case slot of None \<Rightarrow> KERNEL_SCOPE | Some s \<Rightarrow> s)"
    and "old \<equiv> filter (\<lambda>r. rw_lease r \<le> now) (filter (in_scope slot) rs)"
  shows "fst (sp' sc) = fst (sp sc) + sum_list (map rw_usd old)
    \<and> (slot = None \<longrightarrow> snd (sp' sc) = snd (sp sc) + sum_list (map rw_tokens old))
    \<and> (slot \<noteq> None \<longrightarrow> snd (sp' sc) = snd (sp sc))
    \<and> filter (\<lambda>r. rw_lease r \<le> now) (filter (in_scope slot) rs') = []
    \<and> filter (\<lambda>r. \<not> rw_lease r \<le> now) (filter (in_scope slot) rs')
        = filter (\<lambda>r. \<not> rw_lease r \<le> now) (filter (in_scope slot) rs)"
  using assms(1,2) unfolding old_def
proof (induction rs arbitrary: sp rs' sp')
  case (Cons r rs)
  have r: "row_ok r" and rs: "\<forall>r \<in> set rs. row_ok r" using Cons.prems by auto
  then have k: "KERNEL_SCOPE \<notin> set (rw_slots r)" and d: "distinct (rw_slots r)" by (auto simp: row_ok_def)
  show ?case
  proof (cases "rw_state r = Open \<and> rw_lease r \<le> now")
    case True
    let ?sp = "charge (rw_usd r) (rw_tokens r) (rw_slots r) sp"
    from True Cons.prems(2) obtain t where t: "expire_rows now rs ?sp = (t, sp')"
      and rs': "rs' = r\<lparr>rw_state := Expired, rw_usd := 0, rw_tokens := 0, rw_exp_usd := rw_usd r,
          rw_exp_tokens := rw_tokens r\<rparr> # t"
      by (auto split: prod.splits)
    from Cons.IH[OF rs t] True show ?thesis
      using charge_kernel[OF k] charge_slot[OF d, of "the slot"] charge_slot_tokens[of "the slot"] assms(3)
      by (cases slot) (simp_all add: rs' in_scope_def sc_def)
  next
    case False
    with Cons.prems(2) obtain t where t: "expire_rows now rs sp = (t, sp')" and rs': "rs' = r # t"
      by (auto split: prod.splits)
    from Cons.IH[OF rs t] False show ?thesis by (auto simp: rs' in_scope_def)
  qed
qed simp

lemma expire_totals:
  assumes "db_ok d" "slot \<noteq> Some KERNEL_SCOPE"
  shows "totals now slot (expire_db now d) = totals now slot d"
proof -
  obtain rs sp where e: "expire_rows now (db_rows d) (db_spend d) = (rs, sp)" by fastforce
  have "\<forall>r \<in> set (db_rows d). row_ok r" using assms(1) by (simp add: db_ok_def)
  note x = expire_rows_totals[OF this e assms(2)]
  have "expire_db now d = d\<lparr>db_rows := rs, db_spend := sp\<rparr>" by (simp add: expire_db_def e)
  with x show ?thesis by (cases slot) (simp_all add: totals_def Let_def)
qed

subsection \<open>Transactions on the books\<close>

lemma same_booksI:
  assumes "sums_ok a" "sums_ok b" "cb_res a = cb_res b" "spent_usd a = spent_usd b"
    "spent_tokens a = spent_tokens b" "\<And>s. s \<noteq> KERNEL_SCOPE \<Longrightarrow> tag_spent a s = tag_spent b s"
  shows "same_books a b"
  using assms by (simp add: same_books_def sums_ok_def)

lemma same_booksD:
  assumes "same_books a b"
  shows "spent_usd a = spent_usd b" "spent_tokens a = spent_tokens b" "cb_res a = cb_res b"
    "reserved_usd a = reserved_usd b" "reserved_tokens a = reserved_tokens b"
    "s \<noteq> KERNEL_SCOPE \<Longrightarrow> tag_spent a s = tag_spent b s"
    "s \<noteq> KERNEL_SCOPE \<Longrightarrow> tag_reserved a s = tag_reserved b s"
  using assms by (auto simp: same_books_def simp del: split_paired_All)

lemma same_books_refl [simp]: "same_books a a"
  by (simp add: same_books_def)

lemma same_books_sym: "same_books a b \<Longrightarrow> same_books b a"
  by (simp add: same_books_def)

lemma same_books_trans: "same_books a b \<Longrightarrow> same_books b c \<Longrightarrow> same_books a c"
  unfolding same_books_def by metis

lemma abs_db_update:
  assumes "i < length (db_rows d)"
  shows "cb_res (abs_db (d\<lparr>db_spend := sp, db_rows := (db_rows d)[i := r]\<rparr>)) = (cb_res (abs_db d))[i := abs_row r]"
    "spent_usd (abs_db (d\<lparr>db_spend := sp, db_rows := (db_rows d)[i := r]\<rparr>)) = spent_usd (abs_db d)
       + (fst (sp KERNEL_SCOPE) - fst (db_spend d KERNEL_SCOPE)) + (rw_exp_usd (db_rows d ! i) - rw_exp_usd r)"
    "spent_tokens (abs_db (d\<lparr>db_spend := sp, db_rows := (db_rows d)[i := r]\<rparr>)) = spent_tokens (abs_db d)
       + (snd (sp KERNEL_SCOPE) - snd (db_spend d KERNEL_SCOPE)) + (rw_exp_tokens (db_rows d ! i) - rw_exp_tokens r)"
    "tag_spent (abs_db (d\<lparr>db_spend := sp, db_rows := (db_rows d)[i := r]\<rparr>)) s = tag_spent (abs_db d) s
       + (fst (sp s) - fst (db_spend d s)) + (exp_slot s (db_rows d ! i) - exp_slot s r)"
  by (simp add: abs_db_def map_update) (simp_all add: abs_db_def sum_list_update[OF assms])

lemma settle_charge_eq:
  "settle_charge ev = (le_tokens_in ev + le_tokens_out ev, le_cost_usd ev, snd (snd (settle_charge ev)))"
  by (simp add: settle_charge_def Let_def)

text \<open>The update \<open>settle\<close> makes to a reservation.\<close>

definition settled_res :: "ledger_event \<Rightarrow> 'v reservation \<Rightarrow> 'v reservation" where
  "settled_res ev r = r\<lparr>rs_usd := rs_usd r - min (rs_usd r) (event_cost ev),
     rs_tokens := rs_tokens r - min (rs_tokens r) (le_tokens_in ev + le_tokens_out ev),
     rs_unpriced := rs_unpriced r \<or> snd (snd (settle_charge ev))\<rparr>"

lemma res_commute:
  "r\<lparr>rs_unpriced := u, rs_tokens := t\<rparr> = r\<lparr>rs_tokens := t, rs_unpriced := u\<rparr>"
  by simp

lemma cap_settle_cb_res:
  assumes "cap_ok b" "event_ok ev" "h < length (cb_res b)"
  shows "cb_res (cap_settle h ev b) = (cb_res b)[h := settled_res ev (cb_res b ! h)]"
proof -
  let ?r = "cb_res b ! h"
  have "?r \<in> set (cb_res b)" using assms(3) by simp
  then have r: "res_ok ?r" "rs_released ?r \<Longrightarrow> rs_usd ?r = 0 \<and> rs_tokens ?r = 0"
    using assms(1) unfolding cap_ok_def sums_ok_def by blast+
  have ev: "0 \<le> le_tokens_in ev + le_tokens_out ev" "0 \<le> event_cost ev"
    using assms(2) by (auto simp: event_ok_def event_cost_def split: option.splits)
  have same: "(cb_res b)[h := ?r] = cb_res b" by simp
  show ?thesis
  proof (cases "rs_released ?r")
    case True
    then have z: "rs_usd ?r = 0" "rs_tokens ?r = 0" using r(2) by auto
    have "settled_res ev ?r = (if snd (snd (settle_charge ev)) then ?r\<lparr>rs_unpriced := True\<rparr> else ?r)"
      using ev by (simp add: settled_res_def z)
    then show ?thesis using assms(3) True
      by (cases "le_cost_usd ev") (simp_all add: cap_settle_def settle_charge_def Let_def)
  next
    case False
    have "0 \<le> rs_usd ?r" using r(1) by (simp add: res_ok_def)
    with assms(3) False show ?thesis
      by (cases "le_cost_usd ev")
        (simp_all add: cap_settle_def settle_charge_def Let_def consume_cb_res settled_res_def event_cost_def
          res_commute)
  qed
qed

lemma charge_zero [simp]: "charge 0 0 slots sp = sp"
  by (simp add: charge_def)

text \<open>\<open>settle\<close> of the shared rows does to the books what \<open>CapBudget.settle\<close> does.\<close>

lemma settle_row_books:
  assumes ok: "db_ok d" and ev: "event_ok ev" and i: "i < length (db_rows d)"
  defines "d' \<equiv> settle_row i (settle_charge ev) d" and "r \<equiv> db_rows d ! i"
  shows "db_ok d'"
    "cb_res (abs_db d') = (cb_res (abs_db d))[i := settled_res ev (abs_row r)]"
    "spent_usd (abs_db d') = spent_usd (abs_db d) + event_cost ev"
    "spent_tokens (abs_db d') = spent_tokens (abs_db d) + (le_tokens_in ev + le_tokens_out ev)"
    "s \<noteq> KERNEL_SCOPE \<Longrightarrow> tag_spent (abs_db d') s = tag_spent (abs_db d) s
       + (if s \<in> set (rw_slots r) then event_cost ev else 0)"
proof -
  define t where "t = le_tokens_in ev + le_tokens_out ev"
  define c where "c = event_cost ev"
  define u where "u = snd (snd (settle_charge ev))"
  have nn: "0 \<le> c" "0 \<le> t"
    using ev by (auto simp: event_ok_def event_cost_def c_def t_def split: option.splits)
  have r: "row_ok r" using ok i by (simp add: db_ok_def r_def)
  then have k: "KERNEL_SCOPE \<notin> set (rw_slots r)" and ds: "distinct (rw_slots r)" by (auto simp: row_ok_def)
  have charge2: "charge c 0 (rw_slots r) sp = (case le_cost_usd ev of None \<Rightarrow> sp | Some x \<Rightarrow> charge x 0 (rw_slots r) sp)"
    for sp by (simp add: c_def event_cost_def charge_def split: option.splits)
  obtain sp r' where d': "d' = d\<lparr>db_spend := sp, db_rows := (db_rows d)[i := r']\<rparr>"
    and r': "row_ok r'" "abs_row r' = settled_res ev (abs_row r)" "rw_slots r' = rw_slots r"
    and sp: "fst (sp KERNEL_SCOPE) = fst (db_spend d KERNEL_SCOPE) + c + rw_exp_usd r' - rw_exp_usd r"
      "snd (sp KERNEL_SCOPE) = snd (db_spend d KERNEL_SCOPE) + t + rw_exp_tokens r' - rw_exp_tokens r"
      "\<And>s. s \<noteq> KERNEL_SCOPE \<Longrightarrow> fst (sp s) = fst (db_spend d s)
         + (if s \<in> set (rw_slots r) then c + rw_exp_usd r' - rw_exp_usd r else 0)"
  proof -
    have fig: "settle_charge ev = (t, le_cost_usd ev, u)"
      unfolding t_def u_def by (rule settle_charge_eq)
    have cost: "(case le_cost_usd ev of None \<Rightarrow> x | Some y \<Rightarrow> f y) = (if le_cost_usd ev = None then x else f c)"
      for x :: 'z and f by (cases "le_cost_usd ev") (simp_all add: c_def event_cost_def)
    have none: "le_cost_usd ev = None \<Longrightarrow> c = 0" by (simp add: c_def event_cost_def)
    have fold_spend: "charge c 0 (rw_slots r) (charge 0 t (rw_slots r) (db_spend d)) =
        (if le_cost_usd ev = None then charge 0 t (rw_slots r) (db_spend d)
         else charge c 0 (rw_slots r) (charge 0 t (rw_slots r) (db_spend d)))"
      by (simp add: none)
    have same: "(db_rows d)[i := r] = db_rows d" by (simp add: r_def)
    show thesis
    proof (cases "rw_state r")
      case Expired
      let ?tu = "min (rw_exp_usd r) c" and ?tt = "min (rw_exp_tokens r) t"
      let ?r = "r\<lparr>rw_exp_usd := rw_exp_usd r - ?tu, rw_exp_tokens := rw_exp_tokens r - ?tt,
          rw_unpriced := rw_unpriced r \<or> u\<rparr>"
      let ?sp = "charge (c - ?tu) 0 (rw_slots r) (charge 0 (t - ?tt) (rw_slots r) (db_spend d))"
      have e: "0 \<le> rw_exp_usd r" "rw_usd r = 0" "rw_tokens r = 0" using r Expired by (auto simp: row_ok_def)
      have "d' = d\<lparr>db_spend := ?sp, db_rows := (db_rows d)[i := ?r]\<rparr>"
      proof (cases "le_cost_usd ev")
        case None
        then show ?thesis using i Expired e(1) none
          by (simp add: d'_def settle_row_def fig Let_def r_def[symmetric])
      next
        case (Some y)
        then have "y = c" by (simp add: c_def event_cost_def)
        with Some show ?thesis using i Expired
          by (cases "c - ?tu = 0") (simp_all add: d'_def settle_row_def fig Let_def r_def[symmetric])
      qed
      moreover have "row_ok ?r" using r Expired by (auto simp: row_ok_def)
      moreover have "abs_row ?r = settled_res ev (abs_row r)"
        by (simp add: abs_row_def settled_res_def e t_def c_def u_def)
      ultimately show thesis
        by (rule that) (simp_all add: charge_kernel[OF k] charge_slot[OF ds])
    next
      case Open
      let ?r = "r\<lparr>rw_usd := rw_usd r - min (rw_usd r) c, rw_tokens := rw_tokens r - min (rw_tokens r) t,
          rw_unpriced := rw_unpriced r \<or> u\<rparr>"
      have e: "rw_exp_usd r = 0" "rw_exp_tokens r = 0" using r Open by (auto simp: row_ok_def)
      have "d' = d\<lparr>db_spend := charge c 0 (rw_slots r) (charge 0 t (rw_slots r) (db_spend d)),
          db_rows := (db_rows d)[i := ?r]\<rparr>"
        using i Open none by (simp add: d'_def settle_row_def fig Let_def r_def[symmetric] cost)
      moreover have "row_ok ?r" using r Open by (auto simp: row_ok_def)
      moreover have "abs_row ?r = settled_res ev (abs_row r)"
        by (simp add: abs_row_def settled_res_def e t_def c_def u_def)
      ultimately show thesis
        by (rule that) (simp_all add: charge_kernel[OF k] charge_slot[OF ds] e)
    next
      case Released
      let ?r = "if u then r\<lparr>rw_unpriced := True\<rparr> else r"
      have e: "rw_exp_usd r = 0" "rw_exp_tokens r = 0" "rw_usd r = 0" "rw_tokens r = 0"
        using r Released by (auto simp: row_ok_def)
      have "d' = d\<lparr>db_spend := charge c 0 (rw_slots r) (charge 0 t (rw_slots r) (db_spend d)),
          db_rows := (db_rows d)[i := ?r]\<rparr>"
        using i Released none by (simp add: d'_def settle_row_def fig Let_def r_def[symmetric] cost same)
      moreover have "row_ok ?r" using r Released by (auto simp: row_ok_def)
      moreover have "abs_row ?r = settled_res ev (abs_row r)"
        using nn by (simp add: abs_row_def settled_res_def e t_def[symmetric] c_def[symmetric] u_def[symmetric])
      ultimately show thesis
        by (rule that) (simp_all add: charge_kernel[OF k] charge_slot[OF ds] e)
    qed
  qed
  show "db_ok d'" using ok r' by (auto simp: d' db_ok_def intro: nth_update_released)
  note up = abs_db_update[OF i, folded r_def]
  show "cb_res (abs_db d') = (cb_res (abs_db d))[i := settled_res ev (abs_row r)]"
    unfolding d' up(1) r' ..
  show "spent_usd (abs_db d') = spent_usd (abs_db d) + event_cost ev"
    unfolding d' up(2) sp by (simp add: c_def)
  show "spent_tokens (abs_db d') = spent_tokens (abs_db d) + (le_tokens_in ev + le_tokens_out ev)"
    unfolding d' up(3) sp by (simp add: t_def)
  show "s \<noteq> KERNEL_SCOPE \<Longrightarrow> tag_spent (abs_db d') s = tag_spent (abs_db d) s
       + (if s \<in> set (rw_slots r) then event_cost ev else 0)"
    unfolding d' up(4) by (simp add: sp(3) exp_slot_def r'(3) c_def)
qed

definition kept_of :: "'v reservation \<Rightarrow> rat" where
  "kept_of r = (if rs_unpriced r \<and> \<not> rs_released r then rs_usd r else 0)"

definition released_res :: "'v reservation \<Rightarrow> 'v reservation" where
  "released_res r = r\<lparr>rs_released := True, rs_usd := 0, rs_tokens := 0\<rparr>"

lemma release_row_books:
  assumes ok: "db_ok d" and i: "i < length (db_rows d)"
  defines "d' \<equiv> release_row i d" and "r \<equiv> db_rows d ! i"
  shows "db_ok d'"
    "cb_res (abs_db d') = (cb_res (abs_db d))[i := released_res (abs_row r)]"
    "spent_usd (abs_db d') = spent_usd (abs_db d) + kept_of (abs_row r)"
    "spent_tokens (abs_db d') = spent_tokens (abs_db d)"
    "s \<noteq> KERNEL_SCOPE \<Longrightarrow> tag_spent (abs_db d') s = tag_spent (abs_db d) s
       + (if s \<in> set (rw_slots r) then kept_of (abs_row r) else 0)"
proof -
  have r: "row_ok r" using ok i by (simp add: db_ok_def r_def)
  then have k: "KERNEL_SCOPE \<notin> set (rw_slots r)" and ds: "distinct (rw_slots r)" by (auto simp: row_ok_def)
  obtain sp r' where d': "d' = d\<lparr>db_spend := sp, db_rows := (db_rows d)[i := r']\<rparr>"
    and r': "row_ok r'" "abs_row r' = released_res (abs_row r)" "rw_slots r' = rw_slots r"
    and sp: "fst (sp KERNEL_SCOPE) = fst (db_spend d KERNEL_SCOPE) + kept_of (abs_row r) + rw_exp_usd r' - rw_exp_usd r"
      "snd (sp KERNEL_SCOPE) = snd (db_spend d KERNEL_SCOPE) + rw_exp_tokens r' - rw_exp_tokens r"
      "\<And>s. s \<noteq> KERNEL_SCOPE \<Longrightarrow> fst (sp s) = fst (db_spend d s)
         + (if s \<in> set (rw_slots r) then kept_of (abs_row r) + rw_exp_usd r' - rw_exp_usd r else 0)"
  proof (cases "rw_state r")
    case Released
    have "d' = d\<lparr>db_spend := db_spend d, db_rows := (db_rows d)[i := r]\<rparr>"
      using i Released by (simp add: d'_def release_row_def Let_def r_def)
    moreover have "abs_row r = released_res (abs_row r)"
      using r Released by (simp add: abs_row_def released_res_def row_ok_def)
    ultimately show thesis
      by (rule that[OF _ r]) (simp_all add: kept_of_def abs_row_def Released)
  next
    case Expired
    let ?u = "if rw_unpriced r then 0 else rw_exp_usd r"
    let ?r = "r\<lparr>rw_state := Released, rw_exp_usd := 0, rw_exp_tokens := 0\<rparr>"
    have e: "rw_usd r = 0" "rw_tokens r = 0" using r Expired by (auto simp: row_ok_def)
    have "d' = d\<lparr>db_spend := charge (- ?u) (- rw_exp_tokens r) (rw_slots r) (db_spend d),
        db_rows := (db_rows d)[i := ?r]\<rparr>"
      using i Expired by (cases "?u = 0 \<and> rw_exp_tokens r = 0")
        (simp_all add: d'_def release_row_def Let_def r_def[symmetric])
    moreover have "row_ok ?r" using r Expired by (auto simp: row_ok_def)
    moreover have "abs_row ?r = released_res (abs_row r)"
      by (simp add: abs_row_def released_res_def e)
    ultimately show thesis
      by (rule that) (simp_all add: charge_kernel[OF k] charge_slot[OF ds] kept_of_def abs_row_def Expired e)
  next
    case Open
    let ?u = "if rw_unpriced r then rw_usd r else 0"
    let ?r = "r\<lparr>rw_state := Released, rw_usd := 0, rw_tokens := 0\<rparr>"
    have e: "rw_exp_usd r = 0" "rw_exp_tokens r = 0" using r Open by (auto simp: row_ok_def)
    have "d' = d\<lparr>db_spend := charge ?u 0 (rw_slots r) (db_spend d), db_rows := (db_rows d)[i := ?r]\<rparr>"
      using i Open by (cases "rw_unpriced r \<and> rw_usd r \<noteq> 0")
        (auto simp add: d'_def release_row_def Let_def r_def[symmetric])
    moreover have "row_ok ?r" using r Open by (auto simp: row_ok_def)
    moreover have "abs_row ?r = released_res (abs_row r)"
      by (simp add: abs_row_def released_res_def e)
    ultimately show thesis
      by (rule that) (simp_all add: charge_kernel[OF k] charge_slot[OF ds] kept_of_def abs_row_def Open e)
  qed
  show "db_ok d'" using ok r' by (auto simp: d' db_ok_def intro: nth_update_released)
  note up = abs_db_update[OF i, folded r_def]
  show "cb_res (abs_db d') = (cb_res (abs_db d))[i := released_res (abs_row r)]"
    unfolding d' up(1) r' ..
  show "spent_usd (abs_db d') = spent_usd (abs_db d) + kept_of (abs_row r)"
    unfolding d' up(2) sp by simp
  show "spent_tokens (abs_db d') = spent_tokens (abs_db d)"
    unfolding d' up(3) sp by simp
  show "s \<noteq> KERNEL_SCOPE \<Longrightarrow> tag_spent (abs_db d') s = tag_spent (abs_db d) s
       + (if s \<in> set (rw_slots r) then kept_of (abs_row r) else 0)"
    unfolding d' up(4) by (simp add: sp(3) exp_slot_def r'(3))
qed

text \<open>The reference operations depend on the books alone.\<close>

lemma abs_length [simp]: "length (cb_res (abs_db d)) = length (db_rows d)"
  by (simp add: abs_db_def)

lemma abs_nth [simp]: "i < length (db_rows d) \<Longrightarrow> cb_res (abs_db d) ! i = abs_row (db_rows d ! i)"
  by (simp add: abs_db_def)

lemma cap_ok_sums: "cap_ok b \<Longrightarrow> sums_ok b"
  by (simp add: cap_ok_def)

lemma same_books_settle:
  assumes "same_books a b" "cap_ok a" "cap_ok b" "event_ok ev"
  shows "same_books (cap_settle i ev a) (cap_settle i ev b)"
proof (cases "i < length (cb_res b)")
  case True
  have r: "cb_res a = cb_res b" using assms(1) by (simp add: same_books_def)
  then have T: "i < length (cb_res a)" using True by simp
  note x = cap_settle_books[OF assms(2,4) T] cap_settle_cb_res[OF assms(2,4) T]
  note y = cap_settle_books[OF assms(3,4) True] cap_settle_cb_res[OF assms(3,4) True]
  show ?thesis
    using cap_ok_sums[OF x(1)] cap_ok_sums[OF y(1)]
    by (intro same_booksI) (simp_all add: x(2-4,8) y(2-4,8) same_booksD[OF assms(1)])
next
  case False
  have "cb_res a = cb_res b" using assms(1) by (simp add: same_books_def)
  with False assms(1) show ?thesis by simp
qed

lemma same_books_release:
  assumes "same_books a b" "cap_ok a" "cap_ok b"
  shows "same_books (cap_release i a) (cap_release i b)"
proof (cases "i < length (cb_res b)")
  case True
  have r: "cb_res a = cb_res b" using assms(1) by (simp add: same_books_def)
  then have T: "i < length (cb_res a)" using True by simp
  note x = cap_release_books[OF assms(2) T]
  note y = cap_release_books[OF assms(3) True]
  show ?thesis
    using cap_ok_sums[OF x(1)] cap_ok_sums[OF y(1)]
    by (intro same_booksI) (simp_all add: x(2-4,8) y(2-4,8) same_booksD[OF assms(1)])
next
  case False
  have "cb_res a = cb_res b" using assms(1) by (simp add: same_books_def)
  with False assms(1) show ?thesis by simp
qed

lemma tx_settle_books:
  assumes "db_ok d" "event_ok ev"
  shows "db_ok (tx_settle now i ev d)" "same_books (abs_db (tx_settle now i ev d)) (cap_settle i ev (abs_db d))"
proof -
  let ?e = "expire_db now d"
  note x = expire_db_books[OF assms(1), of now]
  have "db_ok (settle_row i (settle_charge ev) ?e)
      \<and> same_books (abs_db (settle_row i (settle_charge ev) ?e)) (cap_settle i ev (abs_db ?e))"
  proof (cases "i < length (db_rows ?e)")
    case True
    note s = settle_row_books[OF x(2) assms(2) True]
    have T: "i < length (cb_res (abs_db ?e))" using True by simp
    note c = cap_settle_books[OF abs_db_ok[OF x(2)] assms(2) T]
      cap_settle_cb_res[OF abs_db_ok[OF x(2)] assms(2) T]
    show ?thesis
      using s(1) cap_ok_sums[OF abs_db_ok[OF s(1)]] cap_ok_sums[OF c(1)] True
      by (intro conjI same_booksI) (simp_all add: s(2-5) c(2-4,8), simp add: abs_row_def)
  next
    case False
    then show ?thesis using x(2) by (simp add: settle_row_def)
  qed
  with same_books_settle[OF x(1) abs_db_ok[OF x(2)] abs_db_ok[OF assms(1)] assms(2)]
  show "db_ok (tx_settle now i ev d)" "same_books (abs_db (tx_settle now i ev d)) (cap_settle i ev (abs_db d))"
    unfolding tx_settle_def by (blast intro: same_books_trans)+
qed

lemma tx_release_books:
  assumes "db_ok d"
  shows "db_ok (tx_release now i d)" "same_books (abs_db (tx_release now i d)) (cap_release i (abs_db d))"
proof -
  let ?e = "expire_db now d"
  note x = expire_db_books[OF assms(1), of now]
  have "db_ok (release_row i ?e) \<and> same_books (abs_db (release_row i ?e)) (cap_release i (abs_db ?e))"
  proof (cases "i < length (db_rows ?e)")
    case True
    note s = release_row_books[OF x(2) True]
    have T: "i < length (cb_res (abs_db ?e))" using True by simp
    note c = cap_release_books[OF abs_db_ok[OF x(2)] T]
    show ?thesis
      using s(1) cap_ok_sums[OF abs_db_ok[OF s(1)]] cap_ok_sums[OF c(1)] True
      by (intro conjI same_booksI)
        (simp_all add: s(2-5) c(2-4,8) released_res_def kept_of_def, simp add: abs_row_def)
  next
    case False
    then show ?thesis using x(2) by (simp add: release_row_def)
  qed
  with same_books_release[OF x(1) abs_db_ok[OF x(2)] abs_db_ok[OF assms(1)]]
  show "db_ok (tx_release now i d)" "same_books (abs_db (tx_release now i d)) (cap_release i (abs_db d))"
    unfolding tx_release_def by (blast intro: same_books_trans)+
qed

subsection \<open>Admission\<close>

lemma sum_filter_split:
  "sum_list (map f (filter P xs)) + sum_list (map f (filter (\<lambda>x. \<not> P x) xs)) = (sum_list (map f xs) :: 'b :: comm_monoid_add)"
  by (induction xs) (auto simp: ac_simps)

lemma sum_in_scope:
  assumes "\<forall>r \<in> set rs. rw_state r \<noteq> Open \<longrightarrow> f r = (0 :: 'b :: comm_monoid_add)"
  shows "sum_list (map f (filter (in_scope slot) rs))
     = sum_list (map (\<lambda>r. if slot = None \<or> the slot \<in> set (rw_slots r) then f r else 0) rs)"
  using assms by (induction rs) (auto simp: in_scope_def split: option.splits)

text \<open>The sums of \<open>_totals\<close> are the exposure of the books, whatever the clock says.\<close>

lemma totals_abs:
  assumes "db_ok d" "totals now slot d = (su, st, ru, rt)" "slot \<noteq> Some KERNEL_SCOPE"
  shows "su + ru = cap_exposure (abs_db d) slot"
    "slot = None \<Longrightarrow> st + rt = spent_tokens (abs_db d) + reserved_tokens (abs_db d)"
proof -
  have z: "\<forall>r \<in> set (db_rows d). rw_state r \<noteq> Open \<longrightarrow> rw_usd r = 0"
    "\<forall>r \<in> set (db_rows d). rw_state r \<noteq> Open \<longrightarrow> rw_tokens r = 0"
    using assms(1) by (auto simp: db_ok_def row_ok_def)
  let ?sc = "case slot of None \<Rightarrow> KERNEL_SCOPE | Some s \<Rightarrow> s"
  let ?rows = "filter (in_scope slot) (db_rows d)"
  have "su + ru = fst (db_spend d ?sc) + sum_list (map rw_usd ?rows)"
    using assms(2) sum_filter_split[of rw_usd "\<lambda>r. rw_lease r \<le> now" ?rows]
    by (auto simp: totals_def Let_def)
  also have "\<dots> = fst (db_spend d ?sc)
      + sum_list (map (\<lambda>r. if slot = None \<or> the slot \<in> set (rw_slots r) then rw_usd r else 0) (db_rows d))"
    by (simp add: sum_in_scope[OF z(1)])
  also have "\<dots> = cap_exposure (abs_db d) slot"
  proof (cases slot)
    case None
    have "rs_usd (abs_row r) = rw_usd r + rw_exp_usd r" for r by (simp add: abs_row_def)
    then show ?thesis
      by (simp add: None cap_exposure_def abs_db_def sum_usd_def comp_def sum_list_addf)
  next
    case (Some s)
    have "slot_usd s (abs_row r) = (if s \<in> set (rw_slots r) then rw_usd r else 0) + exp_slot s r" for r
      by (simp add: slot_usd_def exp_slot_def abs_row_def)
    then show ?thesis
      by (simp add: Some cap_exposure_def abs_db_def sum_slot_def comp_def sum_list_addf)
  qed
  finally show "su + ru = cap_exposure (abs_db d) slot" .
  assume n: "slot = None"
  have "st + rt = snd (db_spend d KERNEL_SCOPE) + sum_list (map rw_tokens ?rows)"
    using assms(2) n sum_filter_split[of rw_tokens "\<lambda>r. rw_lease r \<le> now" ?rows]
    by (auto simp: totals_def Let_def)
  also have "\<dots> = snd (db_spend d KERNEL_SCOPE) + sum_list (map rw_tokens (db_rows d))"
    by (simp add: sum_in_scope[OF z(2)] n)
  also have "\<dots> = spent_tokens (abs_db d) + reserved_tokens (abs_db d)"
  proof -
    have "rs_tokens (abs_row r) = rw_tokens r + rw_exp_tokens r" for r by (simp add: abs_row_def)
    then show ?thesis by (simp add: abs_db_def sum_tokens_def comp_def sum_list_addf)
  qed
  finally show "st + rt = spent_tokens (abs_db d) + reserved_tokens (abs_db d)" .
qed

text \<open>The estimate as the shared rows see it: a tag value is its text.\<close>

definition text_estimate :: "(json \<Rightarrow> string) \<Rightarrow> json estimate \<Rightarrow> string estimate" where
  "text_estimate reprv e = \<lparr>es_call_id = es_call_id e, es_alias = es_alias e, es_model = es_model e, es_provider = es_provider e,
     es_prompt_tokens = es_prompt_tokens e, es_max_output_tokens = es_max_output_tokens e,
     es_rounds = es_rounds e, es_worst_tokens = es_worst_tokens e, es_worst_usd = es_worst_usd e,
     es_tags = map (text_slot reprv) (es_tags e), es_attribution = es_attribution e\<rparr>"

definition text_refusal :: "(json \<Rightarrow> string) \<Rightarrow> json refusal \<Rightarrow> string refusal" where
  "text_refusal reprv r = \<lparr>rf_call_id = rf_call_id r, rf_model = rf_model r, rf_provider = rf_provider r,
     rf_code = rf_code r, rf_scope = map_option (text_slot reprv) (rf_scope r)\<rparr>"

lemma text_est_ok [simp]: "est_ok (text_estimate reprv e) = est_ok e"
  by (simp add: est_ok_def text_estimate_def)

lemma text_worst [simp]: "worst_usd (text_estimate reprv e) = worst_usd e"
  by (simp add: worst_usd_def text_estimate_def)

lemma text_get: "dict_get (map (text_slot reprv) d) k = map_option (slot_text reprv) (dict_get d k)"
  by (induction d) (auto simp: text_slot_def)

lemma text_slots: "admission_slots tags (text_estimate reprv e) = map (text_slot reprv) (admission_slots tags e)"
proof (induction tags)
  case (Cons x tags)
  then show ?case
    by (cases x) (auto simp: admission_slots_def text_estimate_def text_get text_slot_def split: option.splits)
qed (simp add: admission_slots_def)

lemma text_check_slots:
  "check_slots C (text_estimate reprv e) a f (map (text_slot reprv) slots)
     = map_option (text_refusal reprv) (check_slots C e a (\<lambda>s. f (text_slot reprv s)) slots)"
  by (induction slots) (auto simp: text_slot_def text_refusal_def refuse_def text_estimate_def)

lemma text_refuse: "refuse (text_estimate reprv e) code None = text_refusal reprv (refuse e code None)"
  by (simp add: refuse_def text_refusal_def text_estimate_def)

lemma text_check_admission:
  "check_admission C (text_estimate reprv e) x u f =
     (case check_admission C e x u (\<lambda>s. f (text_slot reprv s)) of
        Inl r \<Rightarrow> Inl (text_refusal reprv r)
      | Inr (a, t, slots) \<Rightarrow> Inr (a, t, map (text_slot reprv) slots))"
proof -
  have e: "es_worst_usd (text_estimate reprv e) = es_worst_usd e"
    "es_worst_tokens (text_estimate reprv e) = es_worst_tokens e"
    by (simp_all add: text_estimate_def)
  show ?thesis
    unfolding check_admission_def Let_def e text_slots text_check_slots text_refuse
    by (simp split: option.splits)
qed

lemma slot_text_nonempty: "text_slot reprv s \<noteq> KERNEL_SCOPE"
  by (cases s; cases "snd s") (simp_all add: text_slot_def KERNEL_SCOPE_def)

lemma tx_admit_books:
  assumes d0: "db_ok d0" and e: "est_ok e" and C: "dict_wf (per_tag C)"
  shows "case tx_admit reprv C lease_ms now e d0 of
      (Inl r, d') \<Rightarrow> cap_admit C (text_estimate reprv e) (abs_db d0) = (Inl (text_refusal reprv r), abs_db d0)
         \<and> same_books (abs_db d') (abs_db d0) \<and> db_ok d' \<and> db_caps d' = db_caps d0
    | (Inr h, d') \<Rightarrow> \<exists>b'. cap_admit C (text_estimate reprv e) (abs_db d0) = (Inr h, b')
         \<and> same_books (abs_db d') b' \<and> db_ok d' \<and> db_caps d' = db_caps d0"
proof -
  define d where "d = expire_db now d0"
  note x = expire_db_books[OF d0, of now, folded d_def]
  define b where "b = abs_db d0"
  define f where "f = (\<lambda>s. tag_spent b s + tag_reserved b s)"
  obtain su st ru rt where t: "totals now None d = (su, st, ru, rt)" by (metis prod_cases4)
  note tt = totals_abs[OF x(2) t]
  have sums: "su + ru = spent_usd b + reserved_usd b" "st + rt = spent_tokens b + reserved_tokens b"
    using tt same_booksD[OF x(1)] by (simp_all add: cap_exposure_def b_def)
  have tagx: "(\<lambda>s. case totals now (Some (text_slot reprv s)) d of (su, _, ru, _) \<Rightarrow> su + ru)
      = (\<lambda>s. f (text_slot reprv s))"
  proof (rule ext)
    fix s
    obtain a1 a2 a3 a4 where t: "totals now (Some (text_slot reprv s)) d = (a1, a2, a3, a4)" by (metis prod_cases4)
    from totals_abs(1)[OF x(2) t] same_booksD(6,7)[OF x(1) slot_text_nonempty[of reprv s]]
    show "(case totals now (Some (text_slot reprv s)) d of (su, _, ru, _) \<Rightarrow> su + ru) = f (text_slot reprv s)"
      by (simp add: t slot_text_nonempty f_def b_def cap_exposure_def)
  qed
  have tx: "tx_admit reprv C lease_ms now e d0 =
      (case check_admission C e (spent_usd b + reserved_usd b) (spent_tokens b + reserved_tokens b)
              (\<lambda>s. f (text_slot reprv s)) of
         Inl r \<Rightarrow> (Inl r, d)
       | Inr (amount, tokens, slots) \<Rightarrow>
           (Inr (length (db_rows d)), d\<lparr>db_rows := db_rows d @
               [\<lparr>rw_call_id = es_call_id e, rw_usd = amount, rw_tokens = tokens,
                 rw_slots = map (text_slot reprv) slots, rw_lease = now + lease_ms, rw_state = Open,
                 rw_unpriced = False, rw_exp_usd = 0, rw_exp_tokens = 0\<rparr>]\<rparr>))"
    unfolding tx_admit_def Let_def d_def[symmetric] t tagx by (simp add: sums)
  show ?thesis
  proof (cases "check_admission C e (spent_usd b + reserved_usd b) (spent_tokens b + reserved_tokens b)
      (\<lambda>s. f (text_slot reprv s))")
    case (Inl r)
    then have "cap_admit C (text_estimate reprv e) b = (Inl (text_refusal reprv r), b)"
      by (simp add: cap_admit_def text_check_admission f_def)
    with x show ?thesis unfolding tx Inl by (simp add: b_def)
  next
    case (Inr y)
    obtain amount tokens slots where y: "y = (amount, tokens, slots)" by (metis prod_cases3)
    from Inr[unfolded y check_admission_Inr] have
      amt: "amount = worst_usd e" "tokens = es_worst_tokens e" "slots = admission_slots (per_tag C) e" by auto
    let ?row = "\<lparr>rw_call_id = es_call_id e, rw_usd = amount, rw_tokens = tokens,
        rw_slots = map (text_slot reprv) slots, rw_lease = now + lease_ms, rw_state = Open,
        rw_unpriced = False, rw_exp_usd = 0, rw_exp_tokens = 0\<rparr>"
    let ?d = "d\<lparr>db_rows := db_rows d @ [?row]\<rparr>"
    let ?b = "b\<lparr>reserved_usd := reserved_usd b + amount, reserved_tokens := reserved_tokens b + tokens,
        tag_reserved := add_slots amount (map (text_slot reprv) slots) (tag_reserved b),
        cb_res := cb_res b @ [abs_row ?row]\<rparr>"
    have l: "length (cb_res b) = length (db_rows d)" using x(5) by (simp add: b_def)
    have a: "cap_admit C (text_estimate reprv e) b = (Inr (length (db_rows d)), ?b)"
      using Inr by (simp add: cap_admit_def text_check_admission f_def y l)
        (simp add: abs_row_def text_estimate_def)
    have ok: "cap_ok ?b" using cap_admit_books(1)[OF abs_db_ok[OF d0] _ C a[unfolded b_def]] e
      by (simp add: b_def)
    have "distinct (admission_slots (per_tag C) (text_estimate reprv e))" by (rule admission_slots_distinct[OF C])
    then have ds: "distinct (map (text_slot reprv) slots)" by (simp add: amt(3) text_slots)
    have "KERNEL_SCOPE \<notin> set (map (text_slot reprv) slots)"
      using slot_text_nonempty by (metis ex_map_conv)
    then have "row_ok ?row" using e ds
      by (simp add: row_ok_def amt est_ok_def worst_usd_def split: option.splits)
    then have ok': "db_ok ?d" using x(2) by (simp add: db_ok_def)
    have "same_books (abs_db ?d) ?b"
    proof (rule same_booksI[OF cap_ok_sums[OF abs_db_ok[OF ok']] cap_ok_sums[OF ok]])
      show "cb_res (abs_db ?d) = cb_res ?b" using same_booksD(3)[OF x(1)] by (simp add: abs_db_def b_def)
      show "spent_usd (abs_db ?d) = spent_usd ?b" using same_booksD(1)[OF x(1)] by (simp add: abs_db_def b_def)
      show "spent_tokens (abs_db ?d) = spent_tokens ?b" using same_booksD(2)[OF x(1)] by (simp add: abs_db_def b_def)
      show "tag_spent (abs_db ?d) s = tag_spent ?b s" if "s \<noteq> KERNEL_SCOPE" for s
        using same_booksD(6)[OF x(1) that] by (simp add: abs_db_def b_def exp_slot_def)
    qed
    with a ok' x(4) show ?thesis unfolding tx Inr y by (simp add: b_def)
  qed
qed

text \<open>
  Claim C1: the shared budget implements the reference budget. Whatever the clock reads and
  whichever leases have lapsed, a settle, release or admission transaction does to the books
  exactly what \<open>CapBudget\<close> does (a tag value taken as its row text): same handle or same
  refusal, same spend, same reservations.
\<close>

theorem shared_refines_reference:
  assumes "db_ok d" and "est_ok e" and "event_ok ev" and "dict_wf (per_tag C)"
  shows "same_books (abs_db (tx_settle now i ev d)) (cap_settle i ev (abs_db d))
    \<and> same_books (abs_db (tx_release now i d)) (cap_release i (abs_db d))
    \<and> (case tx_admit reprv C lease_ms now e d of
         (Inl r, d') \<Rightarrow> cap_admit C (text_estimate reprv e) (abs_db d) = (Inl (text_refusal reprv r), abs_db d)
                          \<and> same_books (abs_db d') (abs_db d)
       | (Inr h, d') \<Rightarrow> \<exists>b'. cap_admit C (text_estimate reprv e) (abs_db d) = (Inr h, b')
                          \<and> same_books (abs_db d') b')"
  using tx_settle_books(2)[OF assms(1,3), of now i] tx_release_books(2)[OF assms(1), of now i]
    tx_admit_books[OF assms(1,2,4), of reprv lease_ms now]
  by (cases "fst (tx_admit reprv C lease_ms now e d)") (auto split: prod.splits)

subsection \<open>Operations of any process\<close>

text \<open>
  One operation of some process on the shared rows: a construction that obtains the lock, with its caps and
  \<open>reset_caps\<close>; or an admission, with the clock reading of its transaction, the lease and caps of its object and the
  caps that object could not write when it was constructed. The caps in force are the stored ones, once these are
  written.
\<close>

record proc_call =
  pc_now :: int
  pc_lease_ms :: int
  pc_caps :: caps
  pc_pending :: "bool option"
  pc_estimate :: "json estimate"

datatype proc_step = Construct caps bool | Request proc_call

definition with_pending :: "proc_call \<Rightarrow> db \<Rightarrow> db" where
  "with_pending c d = write_pending_caps (pc_caps c) (pc_pending c) d"

definition in_force :: "proc_call \<Rightarrow> db \<Rightarrow> caps" where
  "in_force c d = caps_of (pc_caps c) (with_pending c d)"

fun db_step :: "(json \<Rightarrow> string) \<Rightarrow> proc_step \<Rightarrow> db \<Rightarrow> (json refusal option, nat \<times> int) py \<times> db" where
  "db_step reprv (Construct C reset) d = (Inl None, case store_caps C reset d of Inl _ \<Rightarrow> d | Inr d' \<Rightarrow> d')"
| "db_step reprv (Request c) d =
     (case tx_admit reprv (in_force c d) (pc_lease_ms c) (pc_now c) (pc_estimate c) (with_pending c d) of
        (Inl r, d') \<Rightarrow> (Inl (Some r), d') | (Inr h, d') \<Rightarrow> (Inr (h, pc_now c), d'))"

definition db_settle :: "nat \<times> int \<Rightarrow> ledger_event \<Rightarrow> db \<Rightarrow> db" where
  "db_settle h ev d = tx_settle (snd h) (fst h) ev d"

definition db_release :: "nat \<times> int \<Rightarrow> db \<Rightarrow> db" where
  "db_release h d = tx_release (snd h) (fst h) d"

text \<open>These are the steps the objects of \<open>SharedCapBudget\<close> make.\<close>

lemma shared_admit_step:
  "sh_db (snd (shared_admit reprv clks (Some now) e st)) =
     snd (db_step reprv (Request \<lparr>pc_now = now, pc_lease_ms = sh_lease_ms st, pc_caps = sh_caps st,
       pc_pending = sh_caps_pending st, pc_estimate = e\<rparr>) (sh_db (shared_replay clks st)))"
  by (auto simp: shared_admit_def shared_replay_def Let_def with_pending_def in_force_def
      split: prod.splits sum.splits)

lemma shared_init_step:
  "shared_init bid C lease_ms timeout reset True [] [] released d = Inr st \<Longrightarrow>
     sh_db st = snd (db_step reprv (Construct C reset) d)"
  by (auto simp: shared_init_def shared_replay_def Let_def split: if_splits sum.splits)

subsection \<open>A contract whose admissions depend on the state\<close>

text \<open>The operations of a run, each in order at the state it meets.\<close>

fun ops_ok ::
  "('e \<Rightarrow> 's \<Rightarrow> bool) \<Rightarrow> ('ev \<Rightarrow> bool) \<Rightarrow> ('e \<Rightarrow> 's \<Rightarrow> ('x, 'h) py \<times> 's) \<Rightarrow> ('h \<Rightarrow> 'ev \<Rightarrow> 's \<Rightarrow> 's) \<Rightarrow> ('h \<Rightarrow> 's \<Rightarrow> 's)
     \<Rightarrow> ('e, 'h, 'ev) budget_op list \<Rightarrow> 's \<Rightarrow> bool" where
  "ops_ok ok vok ad se re [] s \<longleftrightarrow> True"
| "ops_ok ok vok ad se re (Admit e # ops) s \<longleftrightarrow> ok e s \<and> ops_ok ok vok ad se re ops (snd (ad e s))"
| "ops_ok ok vok ad se re (Settle h ev # ops) s \<longleftrightarrow> vok ev \<and> ops_ok ok vok ad se re ops (se h ev s)"
| "ops_ok ok vok ad se re (Release h # ops) s \<longleftrightarrow> ops_ok ok vok ad se re ops (re h s)"

locale stepwise_budget =
  fixes inv :: "'s \<Rightarrow> bool"
    and ad :: "'e \<Rightarrow> 's \<Rightarrow> ('x, 'h) py \<times> 's"
    and se :: "'h \<Rightarrow> 'ev \<Rightarrow> 's \<Rightarrow> 's"
    and re :: "'h \<Rightarrow> 's \<Rightarrow> 's"
    and ok :: "'e \<Rightarrow> 's \<Rightarrow> bool"
    and ev_ok :: "'ev \<Rightarrow> bool"
    and expo :: "'s \<Rightarrow> rat"
    and lim :: rat
    and over :: "'h \<Rightarrow> 'ev \<Rightarrow> 's \<Rightarrow> rat"
  assumes admit_step: "inv s \<Longrightarrow> ok e s \<Longrightarrow> inv (snd (ad e s)) \<and> expo (snd (ad e s)) \<le> max (expo s) lim"
    and settle_step: "inv s \<Longrightarrow> ev_ok ev \<Longrightarrow> inv (se h ev s) \<and> expo (se h ev s) \<le> expo s + over h ev s"
    and release_step: "inv s \<Longrightarrow> inv (re h s) \<and> expo (re h s) \<le> expo s"
    and over_nonneg: "0 \<le> over h ev s"
begin

lemma run_bound:
  "inv s \<Longrightarrow> ops_ok ok ev_ok ad se re ops s \<Longrightarrow>
     inv (run_ops ad se re ops s) \<and> expo (run_ops ad se re ops s) \<le> max (expo s) lim + overshoot ad se re over ops s"
proof (induction ops arbitrary: s)
  case (Cons op ops)
  show ?case
  proof (cases op)
    case (Admit e)
    with Cons.prems admit_step[of s e] Cons.IH[of "snd (ad e s)"] show ?thesis by auto
  next
    case (Settle h ev)
    with Cons.prems settle_step[of s ev h] Cons.IH[of "se h ev s"] over_nonneg[of h ev s] show ?thesis by auto
  next
    case (Release h)
    with Cons.prems release_step[of s h] Cons.IH[of "re h s"] show ?thesis by auto
  qed
qed simp

end

subsection \<open>Any interleaving of processes stays within the caps\<close>

definition db_inv :: "db \<Rightarrow> bool" where
  "db_inv d \<longleftrightarrow> db_ok d \<and> (\<forall>C. db_caps d = Some C \<longrightarrow> dict_wf (per_tag C))"

text \<open>A step with proper caps and estimate, which is admitted under caps that satisfy \<open>P\<close>.\<close>

fun step_ok :: "(caps \<Rightarrow> bool) \<Rightarrow> proc_step \<Rightarrow> db \<Rightarrow> bool" where
  "step_ok P (Construct C reset) d \<longleftrightarrow> dict_wf (per_tag C)"
| "step_ok P (Request c) d \<longleftrightarrow> est_ok (pc_estimate c) \<and> dict_wf (per_tag (pc_caps c)) \<and> P (in_force c d)"

definition usd_within :: "rat \<Rightarrow> caps \<Rightarrow> bool" where
  "usd_within L C \<longleftrightarrow> (case limit_usd C of None \<Rightarrow> False | Some l \<Rightarrow> l \<le> L)"

definition tokens_within :: "int \<Rightarrow> caps \<Rightarrow> bool" where
  "tokens_within T C \<longleftrightarrow> (case limit_tokens C of None \<Rightarrow> False | Some l \<Rightarrow> l \<le> T)"

text \<open>Caps that do not name the tag reserve nothing under it.\<close>

definition tag_within :: "string \<Rightarrow> rat \<Rightarrow> caps \<Rightarrow> bool" where
  "tag_within key L C \<longleftrightarrow> (case dict_get (per_tag C) key of None \<Rightarrow> True | Some l \<Rightarrow> l \<le> L)"

definition db_usd_over :: "nat \<times> int \<Rightarrow> ledger_event \<Rightarrow> db \<Rightarrow> rat" where
  "db_usd_over h ev d = usd_over (fst h) ev (abs_db d)"

definition db_tokens_over :: "nat \<times> int \<Rightarrow> ledger_event \<Rightarrow> db \<Rightarrow> rat" where
  "db_tokens_over h ev d = tokens_over (fst h) ev (abs_db d)"

definition db_slot_over :: "string \<times> string \<Rightarrow> nat \<times> int \<Rightarrow> ledger_event \<Rightarrow> db \<Rightarrow> rat" where
  "db_slot_over slot h ev d = slot_over slot (fst h) ev (abs_db d)"

lemma tx_keeps_caps:
  assumes "db_ok d"
  shows "db_caps (tx_settle now i ev d) = db_caps d" "db_caps (tx_release now i d) = db_caps d"
proof -
  have s: "db_caps (settle_row i fig d) = db_caps d" for d fig
    by (auto simp: settle_row_def Let_def split: prod.splits)
  have r: "db_caps (release_row i d) = db_caps d" for d
    by (auto simp: release_row_def Let_def split: row_state.splits)
  show "db_caps (tx_settle now i ev d) = db_caps d" "db_caps (tx_release now i d) = db_caps d"
    using expire_db_books(4)[OF assms] by (simp_all add: tx_settle_def tx_release_def s r)
qed

lemma same_books_expo:
  "same_books a b \<Longrightarrow> slot \<noteq> Some KERNEL_SCOPE \<Longrightarrow> cap_exposure a slot = cap_exposure b slot"
  by (cases slot) (simp_all add: cap_exposure_def same_booksD)

lemma same_books_tokens: "same_books a b \<Longrightarrow> tokens_exposure a = tokens_exposure b"
  by (simp add: tokens_exposure_def same_booksD)

lemma abs_db_caps [simp]: "abs_db (d\<lparr>db_caps := x\<rparr>) = abs_db d"
  by (simp add: abs_db_def)

lemma db_ok_caps [simp]: "db_ok (d\<lparr>db_caps := x\<rparr>) = db_ok d"
  by (simp add: db_ok_def)

lemma with_pending_books: "abs_db (with_pending c d) = abs_db d" "db_ok (with_pending c d) = db_ok d"
  by (auto simp: with_pending_def write_pending_caps_def split: option.split)

lemma with_pending_inv: "db_inv d \<Longrightarrow> dict_wf (per_tag (pc_caps c)) \<Longrightarrow> db_inv (with_pending c d) \<and> dict_wf (per_tag (in_force c d))"
  by (auto simp: with_pending_def in_force_def write_pending_caps_def caps_of_def db_inv_def split: option.splits)

lemma construct_books:
  assumes "db_inv d" "dict_wf (per_tag C)"
  shows "db_inv (snd (db_step reprv (Construct C reset) d)) \<and> abs_db (snd (db_step reprv (Construct C reset) d)) = abs_db d"
  using assms by (auto simp: store_caps_def db_inv_def split: option.splits)

text \<open>A tag that the caps do not name keeps its exposure.\<close>

lemma cap_admit_uncapped:
  assumes "cap_inv C b" "est_ok e" "dict_get (per_tag C) (fst s) = None"
  shows "cap_exposure (snd (cap_admit C e b)) (Some s) = cap_exposure b (Some s)"
proof -
  obtain x b' where a: "cap_admit C e b = (x, b')" by fastforce
  show ?thesis
  proof (cases x)
    case (Inl r)
    with a cap_admit_refused show ?thesis by fastforce
  next
    case (Inr h)
    have "fst s \<notin> fst ` set (per_tag C)" using assms(3) by (simp add: map_of_eq_None_iff)
    then have "s \<notin> set (admission_slots (per_tag C) e)" using admission_slots_keys[of "per_tag C" e] by blast
    with cap_admit_books(5,8)[of b e C h b'] assms(1,2) a Inr show ?thesis
      by (simp add: cap_inv_def cap_exposure_def)
  qed
qed

lemma request_books:
  assumes "db_inv d" "est_ok (pc_estimate c)" "dict_wf (per_tag (pc_caps c))"
  shows "db_inv (snd (db_step reprv (Request c) d))"
    "same_books (abs_db (snd (db_step reprv (Request c) d)))
       (snd (cap_admit (in_force c d) (text_estimate reprv (pc_estimate c)) (abs_db d)))"
    "cap_inv (in_force c d) (abs_db d)"
proof -
  note w = with_pending_inv[OF assms(1,3)]
  have ok: "db_ok (with_pending c d)" using w by (simp add: db_inv_def)
  obtain x d' where tx: "tx_admit reprv (in_force c d) (pc_lease_ms c) (pc_now c) (pc_estimate c) (with_pending c d) = (x, d')"
    by fastforce
  have s: "snd (db_step reprv (Request c) d) = d'" by (cases x) (simp_all add: tx)
  have "same_books (abs_db d') (snd (cap_admit (in_force c d) (text_estimate reprv (pc_estimate c)) (abs_db (with_pending c d))))
      \<and> db_ok d' \<and> db_caps d' = db_caps (with_pending c d)"
    using tx_admit_books[OF ok assms(2) w[THEN conjunct2], of reprv "pc_lease_ms c" "pc_now c"] by (cases x) (auto simp: tx)
  with w show "db_inv (snd (db_step reprv (Request c) d))"
    "same_books (abs_db (snd (db_step reprv (Request c) d)))
       (snd (cap_admit (in_force c d) (text_estimate reprv (pc_estimate c)) (abs_db d)))"
    by (simp_all add: s db_inv_def with_pending_books del: db_step.simps)
  show "cap_inv (in_force c d) (abs_db d)"
    using w abs_db_ok[of d] assms(1) by (simp add: cap_inv_def db_inv_def)
qed

lemma settle_books:
  assumes "db_inv d" "event_ok ev"
  shows "db_inv (db_settle h ev d)" "same_books (abs_db (db_settle h ev d)) (cap_settle (fst h) ev (abs_db d))"
  using tx_settle_books[of d ev] tx_keeps_caps(1)[of d] assms by (simp_all add: db_inv_def db_settle_def)

lemma release_books:
  assumes "db_inv d"
  shows "db_inv (db_release h d)" "same_books (abs_db (db_release h d)) (cap_release (fst h) (abs_db d))"
  using tx_release_books[of d] tx_keeps_caps(2)[of d] assms by (simp_all add: db_inv_def db_release_def)

text \<open>The three exposures, through \<open>same_books\<close>.\<close>

lemma step_expo:
  assumes "db_inv d" "step_ok P st d"
  shows "db_inv (snd (db_step reprv st d))"
    "P = usd_within L \<Longrightarrow> cap_exposure (abs_db (snd (db_step reprv st d))) None \<le> max (cap_exposure (abs_db d) None) L"
    "P = tokens_within T \<Longrightarrow> tokens_exposure (abs_db (snd (db_step reprv st d))) \<le> max (tokens_exposure (abs_db d)) (of_int T)"
    "P = tag_within (fst s) L \<Longrightarrow> s \<noteq> KERNEL_SCOPE \<Longrightarrow>
       cap_exposure (abs_db (snd (db_step reprv st d))) (Some s) \<le> max (cap_exposure (abs_db d) (Some s)) L"
proof -
  have "db_inv (snd (db_step reprv st d)) \<and>
    (P = usd_within L \<longrightarrow> cap_exposure (abs_db (snd (db_step reprv st d))) None \<le> max (cap_exposure (abs_db d) None) L) \<and>
    (P = tokens_within T \<longrightarrow> tokens_exposure (abs_db (snd (db_step reprv st d))) \<le> max (tokens_exposure (abs_db d)) (of_int T)) \<and>
    (P = tag_within (fst s) L \<longrightarrow> s \<noteq> KERNEL_SCOPE \<longrightarrow>
       cap_exposure (abs_db (snd (db_step reprv st d))) (Some s) \<le> max (cap_exposure (abs_db d) (Some s)) L)"
  proof (cases st)
    case (Construct C reset)
    with construct_books[OF assms(1), of C reprv reset] assms(2) show ?thesis by (simp del: db_step.simps)
  next
    case (Request c)
    let ?e = "text_estimate reprv (pc_estimate c)" and ?C = "in_force c d" and ?b = "abs_db d"
    have q: "est_ok (pc_estimate c)" "dict_wf (per_tag (pc_caps c))" "P ?C" using assms(2) Request by auto
    note b = request_books(1,2)[OF assms(1) q(1,2), of reprv] request_books(3)[OF assms(1) q(1,2)]
    have e: "est_ok ?e" using q(1) by simp
    note x = cap_admit_expo[OF b(3) e]
    have 1: "cap_exposure (snd (cap_admit ?C ?e ?b)) None \<le> max (cap_exposure ?b None) L" if "usd_within L ?C"
      using that x(1) by (fastforce simp: usd_within_def split: option.splits)
    have 2: "tokens_exposure (snd (cap_admit ?C ?e ?b)) \<le> max (tokens_exposure ?b) (of_int T)" if "tokens_within T ?C"
    proof -
      from that obtain l where l: "limit_tokens ?C = Some l" "l \<le> T" by (auto simp: tokens_within_def split: option.splits)
      have "max (tokens_exposure ?b) (of_int l) \<le> max (tokens_exposure ?b) (of_int T)"
        using l(2) by (intro max.mono) simp_all
      with x(2)[OF l(1)] show ?thesis by linarith
    qed
    have 3: "cap_exposure (snd (cap_admit ?C ?e ?b)) (Some s) \<le> max (cap_exposure ?b (Some s)) L" if "tag_within (fst s) L ?C"
    proof (cases "dict_get (per_tag ?C) (fst s)")
      case None
      with cap_admit_uncapped[OF b(3) e] show ?thesis by simp
    next
      case (Some l)
      with x(3)[of s l] that show ?thesis by (auto simp: tag_within_def)
    qed
    show ?thesis
      using b(1) 1 2 3 q(3) same_books_expo[OF b(2)] same_books_tokens[OF b(2)] Request
      by (auto simp del: db_step.simps)
  qed
  then show "db_inv (snd (db_step reprv st d))"
    "P = usd_within L \<Longrightarrow> cap_exposure (abs_db (snd (db_step reprv st d))) None \<le> max (cap_exposure (abs_db d) None) L"
    "P = tokens_within T \<Longrightarrow> tokens_exposure (abs_db (snd (db_step reprv st d))) \<le> max (tokens_exposure (abs_db d)) (of_int T)"
    "P = tag_within (fst s) L \<Longrightarrow> s \<noteq> KERNEL_SCOPE \<Longrightarrow>
       cap_exposure (abs_db (snd (db_step reprv st d))) (Some s) \<le> max (cap_exposure (abs_db d) (Some s)) L"
    by blast+
qed

lemma db_inv_cap: "db_inv d \<Longrightarrow> \<exists>C. cap_inv C (abs_db d)"
  using abs_db_ok by (intro exI[of _ sample_caps]) (simp add: db_inv_def cap_inv_def sample_caps_wf)

lemma settle_expo:
  assumes "db_inv d" "event_ok ev"
  shows "cap_exposure (abs_db (db_settle h ev d)) None \<le> cap_exposure (abs_db d) None + db_usd_over h ev d"
    "tokens_exposure (abs_db (db_settle h ev d)) \<le> tokens_exposure (abs_db d) + db_tokens_over h ev d"
    "s \<noteq> KERNEL_SCOPE \<Longrightarrow>
       cap_exposure (abs_db (db_settle h ev d)) (Some s) \<le> cap_exposure (abs_db d) (Some s) + db_slot_over s h ev d"
proof -
  obtain C where C: "cap_inv C (abs_db d)" using db_inv_cap[OF assms(1)] by blast
  note b = settle_books(2)[OF assms, of h]
  show "cap_exposure (abs_db (db_settle h ev d)) None \<le> cap_exposure (abs_db d) None + db_usd_over h ev d"
    "tokens_exposure (abs_db (db_settle h ev d)) \<le> tokens_exposure (abs_db d) + db_tokens_over h ev d"
    "s \<noteq> KERNEL_SCOPE \<Longrightarrow>
       cap_exposure (abs_db (db_settle h ev d)) (Some s) \<le> cap_exposure (abs_db d) (Some s) + db_slot_over s h ev d"
    using cap_settle_expo[OF C assms(2), of "fst h"]
    by (simp_all add: same_books_expo[OF b] same_books_tokens[OF b] db_usd_over_def db_tokens_over_def db_slot_over_def)
qed

lemma release_expo:
  assumes "db_inv d"
  shows "slot \<noteq> Some KERNEL_SCOPE \<Longrightarrow> cap_exposure (abs_db (db_release h d)) slot \<le> cap_exposure (abs_db d) slot"
    "tokens_exposure (abs_db (db_release h d)) \<le> tokens_exposure (abs_db d)"
proof -
  obtain C where C: "cap_inv C (abs_db d)" using db_inv_cap[OF assms] by blast
  note b = release_books(2)[OF assms, of h]
  show "slot \<noteq> Some KERNEL_SCOPE \<Longrightarrow> cap_exposure (abs_db (db_release h d)) slot \<le> cap_exposure (abs_db d) slot"
    "tokens_exposure (abs_db (db_release h d)) \<le> tokens_exposure (abs_db d)"
    using cap_release_expo[OF C, of "fst h"] by (simp_all add: same_books_expo[OF b] same_books_tokens[OF b])
qed

lemma db_over_nonneg: "0 \<le> db_usd_over h ev d" "0 \<le> db_tokens_over h ev d" "0 \<le> db_slot_over slot h ev d"
  by (simp_all add: db_usd_over_def db_tokens_over_def db_slot_over_def over_nonneg)

interpretation shared_usd: stepwise_budget db_inv "db_step reprv" db_settle db_release
  "step_ok (usd_within L)" event_ok "\<lambda>d. cap_exposure (abs_db d) None" L db_usd_over
  for reprv :: "json \<Rightarrow> string" and L :: rat
  by unfold_locales (auto intro: step_expo(1) step_expo(2)[OF _ _ refl] settle_books(1) settle_expo release_books(1)
      release_expo db_over_nonneg)

interpretation shared_tokens: stepwise_budget db_inv "db_step reprv" db_settle db_release
  "step_ok (tokens_within T)" event_ok "\<lambda>d. tokens_exposure (abs_db d)" "of_int T" db_tokens_over
  for reprv :: "json \<Rightarrow> string" and T :: int
  by unfold_locales (auto intro: step_expo(1) step_expo(3)[OF _ _ refl] settle_books(1) settle_expo release_books(1)
      release_expo db_over_nonneg)

interpretation shared_tag: stepwise_budget db_inv "db_step reprv" db_settle db_release
  "step_ok (tag_within key L)" event_ok "\<lambda>d. cap_exposure (abs_db d) (Some (text_slot reprv (key, v)))" L
  "db_slot_over (text_slot reprv (key, v))"
  for reprv :: "json \<Rightarrow> string" and key :: string and v :: json and L :: rat
proof unfold_locales
  note n = slot_text_nonempty[of reprv "(key, v)"]
  have k: "fst (text_slot reprv (key, v)) = key" by (simp add: text_slot_def)
  show "db_inv (snd (db_step reprv e s)) \<and> cap_exposure (abs_db (snd (db_step reprv e s))) (Some (text_slot reprv (key, v)))
      \<le> max (cap_exposure (abs_db s) (Some (text_slot reprv (key, v)))) L"
    if "db_inv s" "step_ok (tag_within key L) e s" for s e
    using step_expo(1,4)[OF that] n k by auto
  show "db_inv (db_settle h ev s) \<and> cap_exposure (abs_db (db_settle h ev s)) (Some (text_slot reprv (key, v)))
      \<le> cap_exposure (abs_db s) (Some (text_slot reprv (key, v))) + db_slot_over (text_slot reprv (key, v)) h ev s"
    if "db_inv s" "event_ok ev" for s ev h
    using settle_books(1)[OF that] settle_expo(3)[OF that n] by simp
  show "db_inv (db_release h s) \<and> cap_exposure (abs_db (db_release h s)) (Some (text_slot reprv (key, v)))
      \<le> cap_exposure (abs_db s) (Some (text_slot reprv (key, v)))" if "db_inv s" for s h
    using release_books(1)[OF that] release_expo(1)[OF that] n by simp
  show "0 \<le> db_slot_over (text_slot reprv (key, v)) h ev s" for h ev s
    by (rule db_over_nonneg)
qed

text \<open>The caps in force at each admission of a run.\<close>

fun forced :: "(json \<Rightarrow> string) \<Rightarrow> (proc_step, nat \<times> int, ledger_event) budget_op list \<Rightarrow> db \<Rightarrow> caps list" where
  "forced reprv [] d = []"
| "forced reprv (Admit (Construct C reset) # ops) d = forced reprv ops (snd (db_step reprv (Construct C reset) d))"
| "forced reprv (Admit (Request c) # ops) d = in_force c d # forced reprv ops (snd (db_step reprv (Request c) d))"
| "forced reprv (Settle h ev # ops) d = forced reprv ops (db_settle h ev d)"
| "forced reprv (Release h # ops) d = forced reprv ops (db_release h d)"

fun proc_ok :: "proc_step \<Rightarrow> bool" where
  "proc_ok (Construct C reset) \<longleftrightarrow> dict_wf (per_tag C)"
| "proc_ok (Request c) \<longleftrightarrow> est_ok (pc_estimate c) \<and> dict_wf (per_tag (pc_caps c))"

lemma forced_ok:
  "\<forall>op \<in> set ops. op_ok proc_ok event_ok op \<Longrightarrow> list_all P (forced reprv ops d)
     \<Longrightarrow> ops_ok (step_ok P) event_ok (db_step reprv) db_settle db_release ops d"
  by (induction reprv ops d rule: forced.induct) (auto simp del: db_step.simps)

text \<open>No step replaces caps that are already stored.\<close>

fun keeps_caps :: "(proc_step, nat \<times> int, ledger_event) budget_op \<Rightarrow> bool" where
  "keeps_caps (Admit (Construct C reset)) \<longleftrightarrow> \<not> reset"
| "keeps_caps (Admit (Request c)) \<longleftrightarrow> pc_pending c \<noteq> Some True"
| "keeps_caps op \<longleftrightarrow> True"

lemma forced_kept:
  assumes "\<forall>op \<in> set ops. op_ok proc_ok event_ok op" "list_all keeps_caps ops" "db_inv d" "db_caps d = Some C"
  shows "set (forced reprv ops d) \<subseteq> {C}"
  using assms
proof (induction reprv ops d rule: forced.induct)
  case (2 reprv C' reset ops d)
  have "snd (db_step reprv (Construct C' reset) d) = d" using 2 by (auto simp: store_caps_def)
  with 2 show ?case by simp
next
  case (3 reprv c ops d)
  have w: "with_pending c d = d"
    using 3 by (cases "pc_pending c") (auto simp: with_pending_def write_pending_caps_def)
  have q: "est_ok (pc_estimate c)" "dict_wf (per_tag (pc_caps c))" using 3(2) by auto
  obtain x d' where tx: "tx_admit reprv (in_force c d) (pc_lease_ms c) (pc_now c) (pc_estimate c) d = (x, d')" by fastforce
  have "db_caps d' = db_caps d"
    using tx_admit_books[of d "pc_estimate c" "in_force c d" reprv "pc_lease_ms c" "pc_now c"] tx q
      with_pending_inv[OF 3(4) q(2)] 3(4) by (cases x) (auto simp: db_inv_def)
  then have "db_caps (snd (db_step reprv (Request c) d)) = Some C"
    using 3(5) by (cases x) (simp_all add: w tx)
  with 3 request_books(1)[OF 3(4) q] w show ?case by (simp add: in_force_def caps_of_def del: db_step.simps)
next
  case (4 reprv h ev ops d)
  then show ?case using settle_books(1) tx_keeps_caps(1) by (simp add: db_settle_def db_inv_def)
next
  case (5 reprv h ops d)
  then show ?case using release_books(1) tx_keeps_caps(2) by (simp add: db_release_def db_inv_def)
qed simp

lemma db_new_abs: "cap_exposure (abs_db db_new) slot = 0" "tokens_exposure (abs_db db_new) = 0"
  by (auto simp: cap_exposure_def tokens_exposure_def abs_db_def db_new_def sum_usd_def sum_tokens_def sum_slot_def
      split: option.splits)

abbreviation db_run :: "(json \<Rightarrow> string) \<Rightarrow> (proc_step, nat \<times> int, ledger_event) budget_op list \<Rightarrow> db" where
  "db_run reprv ops \<equiv> run_ops (db_step reprv) db_settle db_release ops db_new"

abbreviation db_overshoot where
  "db_overshoot reprv over ops \<equiv> overshoot (db_step reprv) db_settle db_release over ops db_new"

text \<open>
  Claim C2: one cap across processes. From an empty database, however many processes interleave constructions (with or
  without \<open>reset_caps\<close>), admissions, settlements and releases, with whatever clock readings, leases and caps that could
  not be stored yet, what \<open>_totals\<close> reads as spent plus reserved at any time is at most the largest cap in force
  at an admission so far, plus the amount by which settled attempts used more than was reserved for them: in USD, in
  tokens and for the row text of any value of a tag (a cap in force that does not name the tag reserves nothing under
  it). When the first construction is followed by no reset, the caps in force are those it stored.
\<close>

theorem shared_cap_respected:
  assumes "\<forall>op \<in> set ops. op_ok proc_ok event_ok op"
  shows "(\<forall>L. list_all (usd_within L) (forced reprv ops db_new) \<longrightarrow>
        (case totals now None (db_run reprv ops) of (su, st, ru, rt) \<Rightarrow>
           su + ru \<le> max 0 L + db_overshoot reprv db_usd_over ops))
    \<and> (\<forall>T. list_all (tokens_within T) (forced reprv ops db_new) \<longrightarrow>
        (case totals now None (db_run reprv ops) of (su, st, ru, rt) \<Rightarrow>
           of_int (st + rt) \<le> max 0 (of_int T) + db_overshoot reprv db_tokens_over ops))
    \<and> (\<forall>key v L. list_all (tag_within key L) (forced reprv ops db_new) \<longrightarrow>
        (case totals now (Some (text_slot reprv (key, v))) (db_run reprv ops) of (su, st, ru, rt) \<Rightarrow>
           su + ru \<le> max 0 L + db_overshoot reprv (db_slot_over (text_slot reprv (key, v))) ops))
    \<and> (\<forall>C reset rest. ops = Admit (Construct C reset) # rest \<longrightarrow> list_all keeps_caps rest \<longrightarrow>
        set (forced reprv ops db_new) \<subseteq> {C})"
proof (intro conjI allI impI)
  have i: "db_inv db_new" by (simp add: db_inv_def db_ok_def db_new_def)
  note ok = forced_ok[OF assms]
  {
    fix L assume "list_all (usd_within L) (forced reprv ops db_new)"
    note r = shared_usd.run_bound[OF i ok[OF this]]
    obtain su st ru rt where t: "totals now None (db_run reprv ops) = (su, st, ru, rt)" by (metis prod_cases4)
    have "su + ru = cap_exposure (abs_db (db_run reprv ops)) None"
      by (rule totals_abs(1)[OF _ t]) (use r in \<open>simp_all add: db_inv_def\<close>)
    with r show "case totals now None (db_run reprv ops) of (su, st, ru, rt) \<Rightarrow>
           su + ru \<le> max 0 L + db_overshoot reprv db_usd_over ops"
      by (simp add: t db_new_abs)
  next
    fix T assume "list_all (tokens_within T) (forced reprv ops db_new)"
    note r = shared_tokens.run_bound[OF i ok[OF this]]
    obtain su st ru rt where t: "totals now None (db_run reprv ops) = (su, st, ru, rt)" by (metis prod_cases4)
    have "st + rt = spent_tokens (abs_db (db_run reprv ops)) + reserved_tokens (abs_db (db_run reprv ops))"
      by (rule totals_abs(2)[OF _ t]) (use r in \<open>simp_all add: db_inv_def\<close>)
    then have "of_int (st + rt) = tokens_exposure (abs_db (db_run reprv ops))" by (simp add: tokens_exposure_def)
    with r show "case totals now None (db_run reprv ops) of (su, st, ru, rt) \<Rightarrow>
           of_int (st + rt) \<le> max 0 (of_int T) + db_overshoot reprv db_tokens_over ops"
      by (simp add: t db_new_abs)
  next
    fix key v L assume "list_all (tag_within key L) (forced reprv ops db_new)"
    note r = shared_tag.run_bound[OF i ok[OF this], of v]
    obtain su st ru rt where t: "totals now (Some (text_slot reprv (key, v))) (db_run reprv ops) = (su, st, ru, rt)"
      by (metis prod_cases4)
    have "su + ru = cap_exposure (abs_db (db_run reprv ops)) (Some (text_slot reprv (key, v)))"
      by (rule totals_abs(1)[OF _ t]) (use r slot_text_nonempty[of reprv "(key, v)"] in \<open>simp_all add: db_inv_def\<close>)
    with r show "case totals now (Some (text_slot reprv (key, v))) (db_run reprv ops) of (su, st, ru, rt) \<Rightarrow>
           su + ru \<le> max 0 L + db_overshoot reprv (db_slot_over (text_slot reprv (key, v))) ops"
      by (simp add: t db_new_abs)
  }
  fix C reset rest assume o: "ops = Admit (Construct C reset) # rest" "list_all keeps_caps rest"
  let ?d = "db_new\<lparr>db_caps := Some C\<rparr>"
  have "db_inv ?d" using assms o(1) by (simp add: db_inv_def db_ok_def db_new_def)
  with forced_kept[of rest ?d C reprv] assms o show "set (forced reprv ops db_new) \<subseteq> {C}"
    by (simp add: store_caps_def db_new_def)
qed

subsection \<open>Queued writes\<close>

text \<open>A queued write on the books, and what a process's writes amount to once its queue is empty.\<close>

fun op_books :: "pending_op \<Rightarrow> string cap_budget \<Rightarrow> string cap_budget" where
  "op_books (PSettle i ev) b = cap_settle i ev b"
| "op_books (PRelease i) b = cap_release i b"

fun pending_ok :: "pending_op \<Rightarrow> bool" where
  "pending_ok (PSettle i ev) \<longleftrightarrow> event_ok ev"
| "pending_ok (PRelease i) \<longleftrightarrow> True"

definition intended_books :: "shared \<Rightarrow> string cap_budget" where
  "intended_books st = fold op_books (sh_pending st) (abs_db (sh_db st))"

definition shared_ok :: "shared \<Rightarrow> bool" where
  "shared_ok st \<longleftrightarrow> db_ok (sh_db st) \<and> list_all pending_ok (sh_pending st)"

lemma op_books_ok:
  assumes "cap_ok b" "pending_ok op"
  shows "cap_ok (op_books op b)"
proof (cases op)
  case (PSettle i ev)
  with assms cap_settle_books(1) show ?thesis by (cases "i < length (cb_res b)") auto
next
  case (PRelease i)
  with assms cap_release_books(1) show ?thesis by (cases "i < length (cb_res b)") auto
qed

lemma same_books_op:
  "same_books a b \<Longrightarrow> cap_ok a \<Longrightarrow> cap_ok b \<Longrightarrow> pending_ok op \<Longrightarrow> same_books (op_books op a) (op_books op b)"
  by (cases op) (auto intro: same_books_settle same_books_release)

lemma same_books_fold:
  "same_books a b \<Longrightarrow> cap_ok a \<Longrightarrow> cap_ok b \<Longrightarrow> list_all pending_ok ops
     \<Longrightarrow> same_books (fold op_books ops a) (fold op_books ops b)"
  by (induction ops arbitrary: a b) (auto intro: same_books_op op_books_ok)

lemma apply_op_books:
  assumes "db_ok d" "pending_ok op"
  shows "db_ok (apply_op t op d)" "same_books (abs_db (apply_op t op d)) (op_books op (abs_db d))"
  using assms by (cases op; simp add: tx_settle_books tx_release_books)+

lemma replay_books:
  assumes "db_ok d" "list_all pending_ok ops"
  shows "case replay clks ops d of (ops', d') \<Rightarrow> db_ok d' \<and> list_all pending_ok ops'
      \<and> same_books (fold op_books ops' (abs_db d')) (fold op_books ops (abs_db d))
      \<and> ops' = drop (length clks) ops"
  using assms
proof (induction clks ops d rule: replay.induct)
  case (3 t clks op ops d)
  have p: "pending_ok op" "list_all pending_ok ops" using 3 by auto
  note x = apply_op_books[OF 3(2) p(1), of t]
  have "same_books (fold op_books ops (abs_db (apply_op t op d))) (fold op_books ops (op_books op (abs_db d)))"
    using same_books_fold[OF x(2) abs_db_ok[OF x(1)] op_books_ok[OF abs_db_ok[OF 3(2)] p(1)] p(2)] .
  with 3(1)[OF x(1) p(2)] show ?case by (auto intro: same_books_trans)
qed simp_all

lemma fold_op_books_ok: "cap_ok b \<Longrightarrow> list_all pending_ok ops \<Longrightarrow> cap_ok (fold op_books ops b)"
  by (induction ops arbitrary: b) (auto intro: op_books_ok)

lemma shared_replay_books:
  assumes "shared_ok st"
  shows "shared_ok (shared_replay clks st)"
    "same_books (intended_books (shared_replay clks st)) (intended_books st)"
    "sh_pending (shared_replay clks st) = drop (length clks) (sh_pending st)"
    "sh_released (shared_replay clks st) = sh_released st"
  using replay_books[of "sh_db st" "sh_pending st" clks] assms
  by (auto simp: shared_replay_def shared_ok_def intended_books_def split: prod.splits)

lemma queue_op_books:
  assumes "shared_ok st" "pending_ok op"
  shows "shared_ok (queue_op clks op st)"
    "same_books (intended_books (queue_op clks op st)) (op_books op (intended_books st))"
    "sh_pending (queue_op clks op st) = drop (length clks) (sh_pending st @ [op])"
proof -
  let ?st = "st\<lparr>sh_pending := sh_pending st @ [op]\<rparr>"
  have ok: "shared_ok ?st" using assms by (simp add: shared_ok_def)
  have "intended_books ?st = op_books op (intended_books st)" by (simp add: intended_books_def)
  with shared_replay_books[OF ok, of clks]
  show "shared_ok (queue_op clks op st)"
    "same_books (intended_books (queue_op clks op st)) (op_books op (intended_books st))"
    "sh_pending (queue_op clks op st) = drop (length clks) (sh_pending st @ [op])"
    by (simp_all add: queue_op_def)
qed

text \<open>
  No write is lost, and a locked database fails closed. A settle or release always
  counts in the intended books (the stored rows after the queued writes) exactly as
  \<open>CapBudget\<close> would count it, whether or not the lock was obtained; the queue drops exactly the
  writes for which it was, so with enough of them the stored rows are the intended books; a
  repeated release changes nothing; and an admission without the lock is refused as
  \<open>budget_unavailable\<close> and leaves the intended books alone.
\<close>

lemma shared_writes_not_lost:
  assumes "shared_ok st" and "event_ok ev"
  shows "same_books (intended_books (shared_settle clks i ev st)) (cap_settle i ev (intended_books st))
    \<and> (i \<notin> set (sh_released st) \<longrightarrow>
         same_books (intended_books (shared_release clks i st)) (cap_release i (intended_books st)))
    \<and> shared_release clks i (shared_release clks' i st) = shared_release clks' i st
    \<and> (length (sh_pending st) < length clks \<longrightarrow>
         sh_pending (shared_settle clks i ev st) = []
         \<and> same_books (abs_db (sh_db (shared_settle clks i ev st))) (cap_settle i ev (intended_books st)))
    \<and> (case shared_admit reprv clks None e st of (res, st') \<Rightarrow>
         res = Inl (refuse e BudgetUnavailable None) \<and> same_books (intended_books st') (intended_books st))"
proof (intro conjI impI)
  note s = queue_op_books[OF assms(1), of "PSettle i ev" clks, simplified]
  show b: "same_books (intended_books (shared_settle clks i ev st)) (cap_settle i ev (intended_books st))"
    using s(2)[OF assms(2)] by (simp add: shared_settle_def)
  show "shared_release clks i (shared_release clks' i st) = shared_release clks' i st"
  proof (cases "i \<in> set (sh_released st)")
    case False
    have "i \<in> set (sh_released (shared_release clks' i st))"
      using False by (auto simp: shared_release_def queue_op_def shared_replay_def split: prod.splits)
    then show ?thesis by (simp add: shared_release_def[of clks])
  qed (simp add: shared_release_def)
  show "same_books (intended_books (shared_release clks i st)) (cap_release i (intended_books st))"
    if "i \<notin> set (sh_released st)"
  proof -
    let ?st = "st\<lparr>sh_released := i # sh_released st\<rparr>"
    have "shared_ok ?st" "intended_books ?st = intended_books st"
      using assms(1) by (simp_all add: shared_ok_def intended_books_def)
    with queue_op_books(2)[of ?st "PRelease i" clks] that show ?thesis by (simp add: shared_release_def)
  qed
  assume l: "length (sh_pending st) < length clks"
  show p: "sh_pending (shared_settle clks i ev st) = []"
    using s(3)[OF assms(2)] l by (simp add: shared_settle_def)
  show "same_books (abs_db (sh_db (shared_settle clks i ev st))) (cap_settle i ev (intended_books st))"
    using b by (simp add: intended_books_def[of "shared_settle clks i ev st"] p)
next
  show "case shared_admit reprv clks None e st of (res, st') \<Rightarrow>
         res = Inl (refuse e BudgetUnavailable None) \<and> same_books (intended_books st') (intended_books st)"
    using shared_replay_books(2)[OF assms(1)] by (simp add: shared_admit_def Let_def)
qed

text \<open>
  Figures do not depend on who got the lock. Reading a scope gives the same spend and
  reservations whether or not the reader could mark the lapsed leases, marking them leaves the
  intended books alone, and a flush reports success exactly when no write is left.
\<close>

lemma shared_read_consistent:
  assumes "shared_ok st" and "slot \<noteq> Some KERNEL_SCOPE"
  shows "fst (shared_read clks True now slot st) = fst (shared_read clks False now slot st)
    \<and> same_books (intended_books (snd (shared_read clks lock now slot st))) (intended_books st)
    \<and> (case shared_flush attempts st of (res, st') \<Rightarrow>
         (res \<longleftrightarrow> sh_pending st' = []) \<and> same_books (intended_books st') (intended_books st))"
proof (intro conjI)
  let ?st = "shared_replay clks st"
  note r = shared_replay_books[OF assms(1), of clks]
  have ok: "db_ok (sh_db ?st)" "list_all pending_ok (sh_pending ?st)" using r(1) by (auto simp: shared_ok_def)
  show "fst (shared_read clks True now slot st) = fst (shared_read clks False now slot st)"
    using expire_totals[OF ok(1) assms(2)] by (simp add: shared_read_def Let_def)
  have "same_books (intended_books (?st\<lparr>sh_db := expire_db now (sh_db ?st)\<rparr>)) (intended_books ?st)"
    using same_books_fold[OF expire_db_books(1)[OF ok(1)] abs_db_ok[OF expire_db_books(2)[OF ok(1)]]
        abs_db_ok[OF ok(1)] ok(2)]
    by (simp add: intended_books_def)
  then show "same_books (intended_books (snd (shared_read clks lock now slot st))) (intended_books st)"
    using r(2) by (auto simp: shared_read_def Let_def intro: same_books_trans)
  show "case shared_flush attempts st of (res, st') \<Rightarrow>
      (res \<longleftrightarrow> sh_pending st' = []) \<and> same_books (intended_books st') (intended_books st)"
    using assms(1)
  proof (induction attempts st rule: shared_flush.induct)
    case (2 clks later st)
    note r = shared_replay_books[OF 2(2), of clks]
    show ?case
      using 2(1)[OF refl _ r(1)] r(2) by (auto simp: Let_def intro: same_books_trans)
  qed simp
qed

subsection \<open>Witnesses\<close>

definition sample_db :: db where
  "sample_db = snd (tx_admit (\<lambda>_. []) sample_caps 100 0 sample_estimate (db_new\<lparr>db_caps := Some sample_caps\<rparr>))"

lemma sample_est_ok: "est_ok sample_estimate" by code_simp
lemma sample_event_ok: "event_ok sample_event" by code_simp

lemma sample_db_ok: "db_ok sample_db"
proof -
  have "db_ok (db_new\<lparr>db_caps := Some sample_caps\<rparr>)" by (simp add: db_ok_def db_new_def)
  from tx_admit_books[OF this sample_est_ok sample_caps_wf, of "\<lambda>_. []" 100 0] show ?thesis
    unfolding sample_db_def
    by (cases "tx_admit (\<lambda>_. []) sample_caps 100 0 sample_estimate (db_new\<lparr>db_caps := Some sample_caps\<rparr>)")
      (auto split: sum.splits)
qed

lemma shared_refines_reference_witness:
  "same_books (abs_db (tx_settle 200 0 sample_event sample_db)) (cap_settle 0 sample_event (abs_db sample_db))"
  using shared_refines_reference[OF sample_db_ok sample_est_ok sample_event_ok sample_caps_wf] by blast

definition sample_calls :: "(proc_step, nat \<times> int, ledger_event) budget_op list" where
  "sample_calls = [Admit (Construct sample_caps False),
     Admit (Request \<lparr>pc_now = 0, pc_lease_ms = 100, pc_caps = sample_caps, pc_pending = None, pc_estimate = sample_estimate\<rparr>),
     Settle (0, 200) sample_event, Release (0, 300)]"

lemma shared_cap_respected_witness:
  "case totals 500 None (db_run (\<lambda>_. []) sample_calls) of (su, st, ru, rt) \<Rightarrow>
      su + ru \<le> max 0 1 + db_overshoot (\<lambda>_. []) db_usd_over sample_calls"
proof -
  have ok: "\<forall>op \<in> set sample_calls. op_ok proc_ok event_ok op"
    by (simp add: sample_calls_def sample_est_ok sample_event_ok sample_caps_wf)
  note all = shared_cap_respected[OF ok, of "\<lambda>_. []" 500]
  note kept = all[THEN conjunct2, THEN conjunct2, THEN conjunct2, rule_format]
  have "set (forced (\<lambda>_. []) sample_calls db_new) \<subseteq> {sample_caps}"
    by (rule kept[OF sample_calls_def]) simp
  then have "list_all (usd_within 1) (forced (\<lambda>_. []) sample_calls db_new)"
    by (auto simp: list_all_iff usd_within_def sample_caps_def)
  then show ?thesis by (rule all[THEN conjunct1, THEN spec, THEN mp])
qed

definition sample_shared :: shared where
  "sample_shared = \<lparr>sh_caps = sample_caps, sh_caps_pending = None, sh_lease_ms = 100, sh_db = sample_db,
     sh_pending = [], sh_released = []\<rparr>"

lemma shared_writes_not_lost_witness:
  "sh_pending (shared_settle [5] 0 sample_event sample_shared) = []
   \<and> same_books (intended_books (shared_settle [] 0 sample_event sample_shared))
       (cap_settle 0 sample_event (intended_books sample_shared))"
proof -
  have ok: "shared_ok sample_shared" using sample_db_ok by (simp add: shared_ok_def sample_shared_def)
  have "length (sh_pending sample_shared) < length [5::int]" by (simp add: sample_shared_def)
  with shared_writes_not_lost[OF ok sample_event_ok, of "[5]" 0]
    shared_writes_not_lost[OF ok sample_event_ok, of "[]" 0]
  show ?thesis by blast
qed

lemma shared_read_consistent_witness:
  "fst (shared_read [] True 500 None sample_shared) = fst (shared_read [] False 500 None sample_shared)"
proof -
  have ok: "shared_ok sample_shared" using sample_db_ok by (simp add: shared_ok_def sample_shared_def)
  have "None \<noteq> Some KERNEL_SCOPE" by simp
  from shared_read_consistent[OF ok this] show ?thesis by blast
qed

end
