(* ===== verification/Facts.thy ===== *)
theory Facts
  imports Json
begin

text \<open>
  The fact store, \<open>nanobot/kernel/facts.py\<close>: values with provenance in an append-only SQLite table.
  A source reference is a list of Unicode code points; SQLite compares text by its UTF-8 bytes
  (BINARY collation), so the range scan of \<open>query\<close> is modelled on bytes. The value column holds
  JSON text and is modelled as the value it encodes. Fresh identifiers and clock readings are
  arguments. The interface \<open>fact_api\<close> is what the artifact store relies on.
\<close>

subsection \<open>Text and its UTF-8 bytes\<close>

type_synonym ustr = "nat list"

definition scalar :: "nat \<Rightarrow> bool" where
  "scalar c \<longleftrightarrow> c \<le> 0x10FFFF \<and> \<not> (0xD800 \<le> c \<and> c \<le> 0xDFFF)"

definition utf8_char :: "nat \<Rightarrow> nat list" where
  "utf8_char c =
     (if c < 0x80 then [c]
      else if c < 0x800 then [0xC0 + c div 64, 0x80 + c mod 64]
      else if c < 0x10000 then [0xE0 + c div 4096, 0x80 + c div 64 mod 64, 0x80 + c mod 64]
      else [0xF0 + c div 262144, 0x80 + c div 4096 mod 64, 0x80 + c div 64 mod 64, 0x80 + c mod 64])"

definition utf8 :: "ustr \<Rightarrow> nat list" where
  "utf8 s = concat (map utf8_char s)"

subsection \<open>The store\<close>

definition SOURCE_KINDS :: "string list" where
  "SOURCE_KINDS = [''document'', ''tool'', ''user'']"

definition SCHEMA_VERSION :: nat where "SCHEMA_VERSION = 2"

record fact =
  ft_id :: string
  ft_kind :: string
  ft_ref :: ustr
  ft_span :: "string option"
  ft_value :: json
  ft_created :: string

record fact_event =
  fe_id :: string
  fe_kind :: string
  fe_ref :: ustr
  fe_span :: "string option"

text \<open>The file: its schema version and rows (in rowid order), and the trace.\<close>

record fact_store =
  fs_version :: nat
  fs_rows :: "fact list"
  fs_trace :: "fact_event list"

datatype fact_error = FactValueError | FactIntegrityError | FactStoreError

text \<open>\<open>_ensure_schema\<close>: an older file is migrated (its rows are kept), a newer one is refused.\<close>

definition ensure_schema :: "fact_store \<Rightarrow> (fact_error, fact_store) py" where
  "ensure_schema s =
     (if fs_version s > SCHEMA_VERSION then Inl FactStoreError
      else if fs_version s = SCHEMA_VERSION then Inr s
      else Inr (s\<lparr>fs_version := SCHEMA_VERSION\<rparr>))"

text \<open>\<open>resolve\<close>.\<close>

definition fact_resolve :: "string \<Rightarrow> fact_store \<Rightarrow> fact option" where
  "fact_resolve i s = (if i = [] then None else find (\<lambda>f. ft_id f = i) (fs_rows s))"

text \<open>A request to record, with the identifier and time it would get; \<open>sink\<close> says what the trace takes.\<close>

record fact_request =
  fq_kind :: string
  fq_ref :: ustr
  fq_value :: json
  fq_span :: "string option"
  fq_fresh :: string
  fq_now :: string

definition fact_of :: "fact_request \<Rightarrow> fact" where
  "fact_of q = \<lparr>ft_id = fq_fresh q, ft_kind = fq_kind q, ft_ref = fq_ref q, ft_span = fq_span q,
     ft_value = fq_value q, ft_created = fq_now q\<rparr>"

definition fact_record ::
  "(fact_event \<Rightarrow> bool) \<Rightarrow> fact_request \<Rightarrow> fact_store \<Rightarrow> (fact_error, string) py \<times> fact_store" where
  "fact_record sink q s =
     (if fq_kind q \<notin> set SOURCE_KINDS then (Inl FactValueError, s)
      else if fq_ref q = [] then (Inl FactValueError, s)
      else if \<not> json_ok (fq_value q) then (Inl FactValueError, s)
      else if \<not> list_all scalar (fq_ref q) then (Inl FactValueError, s)
      else if list_ex (\<lambda>f. ft_id f = fq_fresh q) (fs_rows s) then (Inl FactIntegrityError, s)
      else
        let ev = \<lparr>fe_id = fq_fresh q, fe_kind = fq_kind q, fe_ref = fq_ref q, fe_span = fq_span q\<rparr> in
        (Inr (fq_fresh q),
         s\<lparr>fs_rows := fs_rows s @ [fact_of q],
           fs_trace := fs_trace s @ (if sink ev then [ev] else [])\<rparr>))"

subsection \<open>Queries\<close>

definition next_scalar :: "nat \<Rightarrow> nat" where
  "next_scalar c = (if 0xD800 \<le> c + 1 \<and> c + 1 \<le> 0xDFFF then 0xE000 else c + 1)"

text \<open>\<open>_prefix_upper_bound\<close> of a non-empty prefix.\<close>

definition prefix_upper_bound :: "ustr \<Rightarrow> ustr option" where
  "prefix_upper_bound p =
     (if last p \<ge> 0x10FFFF then None else Some (butlast p @ [next_scalar (last p)]))"

text \<open>The WHERE clause on the reference: a byte range, or \<open>substr\<close> when there is no upper bound.\<close>

definition ref_matches :: "ustr option \<Rightarrow> ustr \<Rightarrow> bool" where
  "ref_matches p r =
     (case p of
        None \<Rightarrow> True
      | Some p \<Rightarrow>
          if p = [] then True
          else (case prefix_upper_bound p of
                  None \<Rightarrow> take (length p) r = p
                | Some u \<Rightarrow> utf8 p \<le> utf8 r \<and> utf8 r < utf8 u))"

definition fact_query ::
  "ustr option \<Rightarrow> string option \<Rightarrow> int option \<Rightarrow> fact_store \<Rightarrow> (fact_error, fact list) py" where
  "fact_query p kind limit s =
     (if (case kind of None \<Rightarrow> False | Some k \<Rightarrow> k \<notin> set SOURCE_KINDS) then Inl FactValueError
      else if (case limit of None \<Rightarrow> False | Some n \<Rightarrow> n < 0) then Inl FactValueError
      else if (case p of None \<Rightarrow> False | Some p \<Rightarrow> \<not> list_all scalar p) then Inl FactValueError
      else
        let rows = filter (\<lambda>f. ref_matches p (ft_ref f)
                             \<and> (case kind of None \<Rightarrow> True | Some k \<Rightarrow> ft_kind f = k)) (fs_rows s)
        in Inr (case limit of None \<Rightarrow> rows | Some n \<Rightarrow> take (nat n) rows))"

definition fact_count :: "fact_store \<Rightarrow> nat" where
  "fact_count s = length (fs_rows s)"

subsection \<open>Bytes order like code points\<close>

lemma digit_less:
  fixes m n k :: nat
  assumes "m < n"
  shows "m div k < n div k \<or> (m div k = n div k \<and> m mod k < n mod k)"
  by (metis assms div_le_mono div_mult_mod_eq le_neq_implies_less less_imp_le nat_add_left_cancel_less)

lemma digits2_less:
  fixes c d :: nat
  assumes "c < d"
  shows "c div 4096 < d div 4096
    \<or> (c div 4096 = d div 4096 \<and> (c div 64 mod 64 < d div 64 mod 64
        \<or> (c div 64 mod 64 = d div 64 mod 64 \<and> c mod 64 < d mod 64)))"
proof -
  have q: "n div 4096 = n div 64 div 64" for n :: nat by (simp add: div_mult2_eq[symmetric])
  show ?thesis using digit_less[OF assms, of 64] digit_less[of "c div 64" "d div 64" 64] unfolding q by auto
qed

lemma digits3_less:
  fixes c d :: nat
  assumes "c < d"
  shows "c div 262144 < d div 262144
    \<or> (c div 262144 = d div 262144 \<and> (c div 4096 mod 64 < d div 4096 mod 64
        \<or> (c div 4096 mod 64 = d div 4096 mod 64 \<and> (c div 64 mod 64 < d div 64 mod 64
            \<or> (c div 64 mod 64 = d div 64 mod 64 \<and> c mod 64 < d mod 64)))))"
proof -
  have q: "n div 262144 = n div 4096 div 64" for n :: nat by (simp add: div_mult2_eq[symmetric])
  show ?thesis using digits2_less[OF assms] digit_less[of "c div 4096" "d div 4096" 64] unfolding q by auto
qed

lemma utf8_char_less:
  assumes "c < d"
  shows "utf8_char c @ x < utf8_char d @ y"
proof -
  have u: "n < 0x80 \<Longrightarrow> utf8_char n = [n]"
    "\<not> n < 0x80 \<Longrightarrow> n < 0x800 \<Longrightarrow> utf8_char n = [0xC0 + n div 64, 0x80 + n mod 64]"
    "\<not> n < 0x800 \<Longrightarrow> n < 0x10000
       \<Longrightarrow> utf8_char n = [0xE0 + n div 4096, 0x80 + n div 64 mod 64, 0x80 + n mod 64]"
    "\<not> n < 0x10000 \<Longrightarrow> utf8_char n = [0xF0 + n div 262144, 0x80 + n div 4096 mod 64,
         0x80 + n div 64 mod 64, 0x80 + n mod 64]" for n
    by (simp_all add: utf8_char_def)
  consider "d < 0x80" | "c < 0x80" "\<not> d < 0x80" | "\<not> c < 0x80" "d < 0x800"
    | "\<not> c < 0x80" "c < 0x800" "\<not> d < 0x800" | "\<not> c < 0x800" "d < 0x10000"
    | "\<not> c < 0x800" "c < 0x10000" "\<not> d < 0x10000" | "\<not> c < 0x10000" by linarith
  then show ?thesis
  proof cases
    case 1
    then show ?thesis using assms by (simp add: u)
  next
    case 2
    have "\<exists>b bs. utf8_char d = b # bs \<and> 0xC0 \<le> b" by (auto simp: utf8_char_def 2)
    with 2 show ?thesis by (auto simp: u)
  next
    case 3
    with assms have "utf8_char c = [0xC0 + c div 64, 0x80 + c mod 64]"
      "utf8_char d = [0xC0 + d div 64, 0x80 + d mod 64]" by (simp_all add: u)
    then show ?thesis using digit_less[OF assms, of 64] by auto
  next
    case 4
    have "\<exists>b bs. utf8_char d = b # bs \<and> 0xE0 \<le> b" using 4 by (auto simp: utf8_char_def)
    moreover have "c div 64 < 32" using 4 by (simp add: less_mult_imp_div_less)
    ultimately show ?thesis using 4 by (auto simp: u)
  next
    case 5
    with assms have "utf8_char c = [0xE0 + c div 4096, 0x80 + c div 64 mod 64, 0x80 + c mod 64]"
      "utf8_char d = [0xE0 + d div 4096, 0x80 + d div 64 mod 64, 0x80 + d mod 64]" by (simp_all add: u)
    then show ?thesis using digits2_less[OF assms] by auto
  next
    case 6
    have "c div 4096 < 16" using 6 by (simp add: less_mult_imp_div_less)
    then show ?thesis using 6 by (simp add: u)
  next
    case 7
    with assms have "utf8_char c = [0xF0 + c div 262144, 0x80 + c div 4096 mod 64, 0x80 + c div 64 mod 64,
        0x80 + c mod 64]"
      "utf8_char d = [0xF0 + d div 262144, 0x80 + d div 4096 mod 64, 0x80 + d div 64 mod 64, 0x80 + d mod 64]"
      by (simp_all add: u)
    then show ?thesis using digits3_less[OF assms] by auto
  qed
qed

lemma utf8_less_iff: "utf8 s < utf8 t \<longleftrightarrow> s < t"
proof (induction s arbitrary: t)
  case Nil
  have ne: "utf8_char c \<noteq> []" for c by (simp add: utf8_char_def)
  have "[] < x \<longleftrightarrow> x \<noteq> []" for x :: "nat list" by (cases x) auto
  then show ?case by (cases t) (auto simp: utf8_def ne)
next
  case (Cons c s)
  show ?case
  proof (cases t)
    case Nil
    then show ?thesis by (simp add: utf8_def)
  next
    case (Cons d t')
    have same: "a @ x < a @ y \<longleftrightarrow> x < y" for a x y :: "nat list" by (induction a) auto
    have e: "utf8 (x # xs) = utf8_char x @ utf8 xs" for x xs by (simp add: utf8_def)
    show ?thesis
    proof (cases c d rule: linorder_cases)
      case less
      then show ?thesis using utf8_char_less[OF less] by (simp add: e Cons)
    next
      case equal
      then show ?thesis using Cons.IH[of t'] by (simp add: e Cons same)
    next
      case greater
      then have "\<not> utf8 (c # s) < utf8 (d # t')"
        using utf8_char_less[OF greater, of "utf8 t'" "utf8 s"] unfolding e by simp
      then show ?thesis using greater by (simp add: Cons)
    qed
  qed
qed

lemma utf8_le_iff: "utf8 s \<le> utf8 t \<longleftrightarrow> s \<le> t"
  using utf8_less_iff[of t s] by (simp add: not_less[symmetric])

subsection \<open>Prefix scans\<close>

lemma prefix_range:
  fixes p r :: "nat list"
  shows "p @ [c] \<le> r \<and> r < p @ [d] \<longleftrightarrow> (\<exists>e x. r = p @ e # x \<and> c \<le> e \<and> e < d)"
proof (induction p arbitrary: r)
  case Nil
  show ?case
  proof (cases r)
    case (Cons e x)
    then show ?thesis by (cases x) auto
  qed simp
next
  case (Cons a p)
  show ?case
  proof (cases r)
    case (Cons b r')
    with Cons.IH[of r'] show ?thesis by auto
  qed simp
qed

lemma ref_matches_prefix:
  assumes "list_all scalar p" "list_all scalar r"
  shows "ref_matches (Some p) r \<longleftrightarrow> prefix p r"
proof (cases "p = [] \<or> last p \<ge> 0x10FFFF")
  case True
  then show ?thesis
    by (auto simp: ref_matches_def prefix_upper_bound_def prefix_def)
      (metis append_eq_conv_conj append_take_drop_id)+
next
  case False
  then obtain q c where p: "p = q @ [c]" by (cases p rule: rev_cases) auto
  with False have c: "c < 0x10FFFF" by simp
  have "ref_matches (Some p) r \<longleftrightarrow> (\<exists>e x. r = q @ e # x \<and> c \<le> e \<and> e < next_scalar c)"
    using False by (simp add: ref_matches_def prefix_upper_bound_def p utf8_le_iff utf8_less_iff prefix_range)
  also have "\<dots> \<longleftrightarrow> (\<exists>x. r = q @ c # x)"
  proof (intro iffI; elim exE conjE)
    fix e x assume r: "r = q @ e # x" and e: "c \<le> e" "e < next_scalar c"
    have "scalar c" "scalar e" using assms p r by auto
    with e have "e = c" by (auto simp: scalar_def next_scalar_def split: if_splits)
    with r show "\<exists>x. r = q @ c # x" by blast
  next
    fix x assume "r = q @ c # x"
    then show "\<exists>e x. r = q @ e # x \<and> c \<le> e \<and> e < next_scalar c"
      by (intro exI[of _ c]) (auto simp: next_scalar_def)
  qed
  also have "\<dots> \<longleftrightarrow> prefix p r" by (auto simp: p prefix_def)
  finally show ?thesis .
qed

subsection \<open>The interface of a fact store\<close>

text \<open>
  What the kernel relies on: a record that succeeds can be resolved and is what was asked for,
  and nothing that resolves is ever changed or lost.
\<close>

locale fact_api =
  fixes inv :: "'s \<Rightarrow> bool"
    and rec :: "'q \<Rightarrow> 's \<Rightarrow> ('e, string) py \<times> 's"
    and res :: "string \<Rightarrow> 's \<Rightarrow> 'f option"
    and holds :: "'q \<Rightarrow> 'f \<Rightarrow> bool"
  assumes record_inv: "inv s \<Longrightarrow> inv (snd (rec q s))"
    and record_resolves: "inv s \<Longrightarrow> rec q s = (Inr i, s') \<Longrightarrow> \<exists>f. res i s' = Some f \<and> holds q f"
    and record_keeps: "inv s \<Longrightarrow> res i s = Some f \<Longrightarrow> res i (snd (rec q s)) = Some f"
begin

definition run_records :: "'q list \<Rightarrow> 's \<Rightarrow> 's" where
  "run_records qs s = fold (\<lambda>q s. snd (rec q s)) qs s"

lemma run_inv: "inv s \<Longrightarrow> inv (run_records qs s)"
  unfolding run_records_def by (induction qs arbitrary: s) (auto intro: record_inv)

lemma resolved_forever: "inv s \<Longrightarrow> res i s = Some f \<Longrightarrow> res i (run_records qs s) = Some f"
  unfolding run_records_def by (induction qs arbitrary: s) (auto intro: record_inv record_keeps)

lemma recorded_forever:
  "inv s \<Longrightarrow> rec q s = (Inr i, s') \<Longrightarrow> \<exists>f. res i (run_records qs s') = Some f \<and> holds q f"
  using record_resolves resolved_forever record_inv by (metis snd_conv)

end

definition facts_inv :: "fact_store \<Rightarrow> bool" where
  "facts_inv s \<longleftrightarrow> distinct (map ft_id (fs_rows s)) \<and> list_all (\<lambda>f. list_all scalar (ft_ref f)) (fs_rows s)"

definition as_asked :: "fact_request \<Rightarrow> fact \<Rightarrow> bool" where
  "as_asked q f \<longleftrightarrow> f = fact_of q"

text \<open>A fresh identifier is never empty (it has the prefix \<open>fact-\<close>).\<close>

definition fresh_record ::
  "(fact_event \<Rightarrow> bool) \<Rightarrow> fact_request \<Rightarrow> fact_store \<Rightarrow> (fact_error, string) py \<times> fact_store" where
  "fresh_record sink q s = fact_record sink (q\<lparr>fq_fresh := ''fact-'' @ fq_fresh q\<rparr>) s"

lemma fact_record_rows:
  "fact_record sink q s = (Inr i, s') \<Longrightarrow>
     fs_rows s' = fs_rows s @ [fact_of q] \<and> i = fq_fresh q \<and> fs_version s' = fs_version s
     \<and> (\<forall>f \<in> set (fs_rows s). ft_id f \<noteq> fq_fresh q) \<and> list_all scalar (fq_ref q)"
  by (auto simp: fact_record_def Let_def list_ex_iff split: if_splits)

lemma fact_record_error: "fact_record sink q s = (Inl e, s') \<Longrightarrow> s' = s"
  by (auto simp: fact_record_def Let_def split: if_splits)

lemma fact_record_inv: "facts_inv s \<Longrightarrow> facts_inv (snd (fact_record sink q s))"
proof -
  assume i: "facts_inv s"
  obtain r s' where r: "fact_record sink q s = (r, s')" by fastforce
  show ?thesis
  proof (cases r)
    case (Inl e)
    with r fact_record_error i show ?thesis by fastforce
  next
    case (Inr j)
    with fact_record_rows[of sink q s j s'] r i show ?thesis by (auto simp: facts_inv_def fact_of_def)
  qed
qed

lemma find_snoc_new: "find P (xs @ [x]) = (case find P xs of Some y \<Rightarrow> Some y | None \<Rightarrow> if P x then Some x else None)"
  by (induction xs) auto

lemma fact_record_keeps: "fact_resolve i s = Some f \<Longrightarrow> fact_resolve i (snd (fact_record sink q s)) = Some f"
proof -
  assume f: "fact_resolve i s = Some f"
  obtain r s' where r: "fact_record sink q s = (r, s')" by fastforce
  show ?thesis
  proof (cases r)
    case (Inl e)
    with r fact_record_error f show ?thesis by fastforce
  next
    case (Inr j)
    with fact_record_rows[of sink q s j s'] r f show ?thesis
      by (auto simp: fact_resolve_def find_snoc_new split: if_splits)
  qed
qed

interpretation facts: fact_api facts_inv "fresh_record sink" fact_resolve
  "\<lambda>q. as_asked (q\<lparr>fq_fresh := ''fact-'' @ fq_fresh q\<rparr>)" for sink
proof
  fix s q i s' f
  show "facts_inv s \<Longrightarrow> facts_inv (snd (fresh_record sink q s))"
    unfolding fresh_record_def by (rule fact_record_inv)
  show "fact_resolve i s = Some f \<Longrightarrow> fact_resolve i (snd (fresh_record sink q s)) = Some f"
    unfolding fresh_record_def by (rule fact_record_keeps)
  assume "fresh_record sink q s = (Inr i, s')"
  from fact_record_rows[OF this[unfolded fresh_record_def]]
  have "fs_rows s' = fs_rows s @ [fact_of (q\<lparr>fq_fresh := ''fact-'' @ fq_fresh q\<rparr>)]"
    "i = ''fact-'' @ fq_fresh q" "\<forall>f \<in> set (fs_rows s). ft_id f \<noteq> i" by auto
  then show "\<exists>f. fact_resolve i s' = Some f \<and> as_asked (q\<lparr>fq_fresh := ''fact-'' @ fq_fresh q\<rparr>) f"
    by (auto simp: fact_resolve_def find_snoc_new as_asked_def fact_of_def find_None_iff split: option.splits
        dest: find_SomeD)
qed

subsection \<open>Properties\<close>

text \<open>
  Claim C24: facts are immutable provenance. A record that succeeds returns an identifier that
  resolves, now and after any further records, to exactly the value, source and span that were
  given; a rejected record changes nothing; and an identifier that resolves keeps its fact.
\<close>

theorem facts_immutable:
  assumes "facts_inv s" and "fresh_record sink q s = (r, s')"
  shows "(case r of
            Inl e \<Rightarrow> s' = s
          | Inr i \<Rightarrow> fact_resolve i (facts.run_records sink qs s') = Some (fact_of (q\<lparr>fq_fresh := i\<rparr>))
                     \<and> fact_count s' = Suc (fact_count s))
    \<and> (fact_resolve j s = Some f \<longrightarrow> fact_resolve j (facts.run_records sink qs s') = Some f)"
proof -
  have i': "facts_inv s'" using facts.record_inv[OF assms(1), of sink q] assms(2) by simp
  have "fact_resolve j s = Some f \<Longrightarrow> fact_resolve j s' = Some f"
    using facts.record_keeps[OF assms(1), of j f sink q] assms(2) by simp
  then have k: "fact_resolve j s = Some f \<longrightarrow> fact_resolve j (facts.run_records sink qs s') = Some f"
    using facts.resolved_forever[OF i'] by blast
  show ?thesis
  proof (cases r)
    case (Inl e)
    then show ?thesis using assms(2) fact_record_error k unfolding fresh_record_def by auto
  next
    case (Inr i)
    with assms(2) have f: "fresh_record sink q s = (Inr i, s')" by simp
    note rw = fact_record_rows[OF f[unfolded fresh_record_def]]
    have "fact_resolve i (facts.run_records sink qs s') = Some (fact_of (q\<lparr>fq_fresh := i\<rparr>))"
      using facts.recorded_forever[OF assms(1) f, of qs] rw by (auto simp: as_asked_def)
    then show ?thesis using Inr k rw by (simp add: fact_count_def)
  qed
qed

text \<open>
  Claim C31: a prefix query answers with exactly the facts whose reference starts with the
  prefix, of the asked kind, oldest first and cut at the limit: the index range over UTF-8
  bytes, including the skip over surrogates and the last code point, is the prefix test.
\<close>

theorem fact_query_exact:
  assumes "facts_inv s"
  shows "fact_query p kind limit s =
    (if (\<exists>k. kind = Some k \<and> k \<notin> set SOURCE_KINDS) \<or> (\<exists>n. limit = Some n \<and> n < 0)
        \<or> (\<exists>q. p = Some q \<and> \<not> list_all scalar q)
     then Inl FactValueError
     else Inr ((case limit of None \<Rightarrow> id | Some n \<Rightarrow> take (nat n))
       (filter (\<lambda>f. (case p of None \<Rightarrow> True | Some q \<Rightarrow> prefix q (ft_ref f))
                  \<and> (case kind of None \<Rightarrow> True | Some k \<Rightarrow> ft_kind f = k)) (fs_rows s))))"
proof -
  have "filter (\<lambda>f. ref_matches p (ft_ref f) \<and> K f) (fs_rows s)
      = filter (\<lambda>f. (case p of None \<Rightarrow> True | Some q \<Rightarrow> prefix q (ft_ref f)) \<and> K f) (fs_rows s)"
    if "\<And>q. p = Some q \<Longrightarrow> list_all scalar q" for K
  proof (rule filter_cong[OF refl])
    fix f assume "f \<in> set (fs_rows s)"
    then have "list_all scalar (ft_ref f)" using assms by (auto simp: facts_inv_def list_all_iff)
    then show "(ref_matches p (ft_ref f) \<and> K f)
        = ((case p of None \<Rightarrow> True | Some q \<Rightarrow> prefix q (ft_ref f)) \<and> K f)"
      using that by (cases p) (auto simp: ref_matches_prefix ref_matches_def[of None])
  qed
  then show ?thesis
    by (auto simp: fact_query_def Let_def split: option.splits)
qed

text \<open>
  Opening the store never loses facts and fails closed: a newer schema is refused, an
  older one is migrated once with its rows and trace untouched.
\<close>

lemma fact_schema_migration:
  shows "case ensure_schema s of
      Inl e \<Rightarrow> e = FactStoreError \<and> SCHEMA_VERSION < fs_version s
    | Inr s' \<Rightarrow> fs_version s \<le> SCHEMA_VERSION \<and> fs_version s' = SCHEMA_VERSION
               \<and> fs_rows s' = fs_rows s \<and> fs_trace s' = fs_trace s \<and> ensure_schema s' = Inr s'"
  by (auto simp: ensure_schema_def)

definition sample_facts :: fact_store where
  "sample_facts = \<lparr>fs_version = 2, fs_rows = [], fs_trace = []\<rparr>"

definition sample_request :: fact_request where
  "sample_request = \<lparr>fq_kind = ''user'', fq_ref = [0x61, 0xD7FF], fq_value = JInt 4, fq_span = None,
     fq_fresh = ''1'', fq_now = ''t''\<rparr>"

lemma facts_immutable_witness:
  "fact_resolve ''fact-1'' (snd (fresh_record (\<lambda>_. True) sample_request sample_facts))
     = Some (fact_of (sample_request\<lparr>fq_fresh := ''fact-1''\<rparr>))"
proof -
  have i: "facts_inv sample_facts" by (simp add: facts_inv_def sample_facts_def)
  obtain s' where r: "fresh_record (\<lambda>_. True) sample_request sample_facts = (Inr ''fact-1'', s')"
    by (simp add: fresh_record_def fact_record_def sample_request_def sample_facts_def SOURCE_KINDS_def
        scalar_def Let_def)
  from facts_immutable[OF i r, of "[]"] show ?thesis by (simp add: r facts.run_records_def)
qed

lemma fact_query_exact_witness:
  "fact_query (Some [0x61, 0xD7FF]) (Some ''user'') (Some 5)
      (snd (fresh_record (\<lambda>_. True) sample_request sample_facts))
    = Inr (fs_rows (snd (fresh_record (\<lambda>_. True) sample_request sample_facts)))"
proof -
  let ?s = "snd (fresh_record (\<lambda>_. True) sample_request sample_facts)"
  have "facts_inv sample_facts" by (simp add: facts_inv_def sample_facts_def)
  then have i: "facts_inv ?s" by (rule facts.record_inv)
  have "fs_rows ?s = [fact_of (sample_request\<lparr>fq_fresh := ''fact-1''\<rparr>)]"
    by (simp add: fresh_record_def fact_record_def sample_request_def sample_facts_def SOURCE_KINDS_def
        scalar_def Let_def)
  then show ?thesis
    using fact_query_exact[OF i, of "Some [0x61, 0xD7FF]" "Some ''user''" "Some 5"]
    by (simp add: SOURCE_KINDS_def scalar_def fact_of_def sample_request_def)
qed

end
