(* ===== verification/Artifacts.thy ===== *)
theory Artifacts
  imports Facts "HOL-Library.Multiset" "HOL-Library.Transitive_Closure_Table"
begin

text \<open>
  The artifact store, \<open>nanobot/kernel/artifacts.py\<close>: typed artifacts whose committed leaves each cite a
  fact. A pydantic model is what the code reads of it (its fields, hooks and validators): a table
  from classes, a finite type, to records whose validator functions are arguments. The two tables
  of the SQLite file are row lists, the value column is the value its JSON text encodes, and
  fresh identifiers and clock readings are arguments.
\<close>

subsection \<open>Models and deltas\<close>

datatype 'm annotation = ModelA 'm | UnionA "'m annotation list" | NoneA | OtherA

record 'm field =
  fd_annotation :: "'m annotation"
  fd_metadata :: bool

text \<open>A Python value in a delta: a dict (keys are strings or other objects with their text), an
  instance of a model with the fields it set, or another value.\<close>

datatype dkey = KStr string | KOther string

datatype 'm pval =
    PDict "(dkey \<times> 'm pval) list"
  | PInst 'm "(dkey \<times> 'm pval) list"
  | PVal json

record 'm pyd =
  pd_fields :: "(string, 'm field) dict"
  pd_field_validators :: "string list list"
  pd_field_serializers :: "string list list"
  pd_model_validators :: bool
  pd_leaf :: "string \<Rightarrow> 'm pval \<Rightarrow> (unit, json) py"
  pd_validate :: "json \<Rightarrow> (string list, 'm pval) py"

record 'm classes =
  cls :: "'m \<Rightarrow> 'm pyd"
  isa :: "'m \<Rightarrow> 'm \<Rightarrow> bool"

definition nested_model :: "'m annotation \<Rightarrow> 'm option" where
  "nested_model a =
     (case a of
        ModelA m \<Rightarrow> Some m
      | UnionA as \<Rightarrow> (case filter (\<lambda>a. case a of NoneA \<Rightarrow> False | _ \<Rightarrow> True) as of
                       [ModelA m] \<Rightarrow> Some m | _ \<Rightarrow> None)
      | _ \<Rightarrow> None)"

definition parent_hooks_field :: "'m pyd \<Rightarrow> string \<Rightarrow> 'm field \<Rightarrow> bool" where
  "parent_hooks_field d name f \<longleftrightarrow>
     fd_metadata f
     \<or> list_ex (\<lambda>fs. name \<in> set fs \<or> ''*'' \<in> set fs) (pd_field_validators d @ pd_field_serializers d)"

definition walk_target :: "'m classes \<Rightarrow> 'm \<Rightarrow> string \<Rightarrow> 'm field \<Rightarrow> 'm option" where
  "walk_target C m name f = (if parent_hooks_field (cls C m) name f then None else nested_model (fd_annotation f))"

text \<open>\<open>_walked_models\<close>: it ends because a class already seen is not descended into again.\<close>

function walked_models :: "('m::finite) classes \<Rightarrow> 'm \<Rightarrow> string \<Rightarrow> 'm set \<Rightarrow> (string \<times> 'm) list" where
  "walked_models C m pre seen =
     (pre, m) #
     (if m \<in> seen then []
      else concat (map (\<lambda>(name, f).
             case walk_target C m name f of
               None \<Rightarrow> []
             | Some sub \<Rightarrow> walked_models C sub (pre @ name @ ''.'') (insert m seen)) (pd_fields (cls C m))))"
  by pat_completeness auto
termination
  by (relation "measure (\<lambda>(C, m, pre, seen). card (- seen))")
    (auto intro!: psubset_card_mono)

declare walked_models.simps [simp del]

subsection \<open>Flattening a delta into leaves\<close>

definition key_text :: "dkey \<Rightarrow> string" where
  "key_text k = (case k of KStr s \<Rightarrow> s | KOther s \<Rightarrow> s)"

text \<open>The path an error of a whole delta names: none for the root.\<close>

definition where_paths :: "string \<Rightarrow> string list" where
  "where_paths pre = (if pre = [] then [] else [rstrip_with (\<lambda>c. c = CHR ''.'') pre])"

definition dict_update :: "('k, 'v) dict \<Rightarrow> ('k, 'v) dict \<Rightarrow> ('k, 'v) dict" where
  "dict_update d e = fold (\<lambda>(k, v) d. dict_set d k v) e d"

text \<open>\<open>_flatten\<close>: the leaves, whether an error was seen, and the offending paths so far.\<close>

type_synonym flat = "(string, json) dict \<times> bool \<times> string list"

definition flat_bad :: "flat \<Rightarrow> string list \<Rightarrow> flat" where
  "flat_bad a ps = (case a of (leaves, _, bad) \<Rightarrow> (leaves, True, bad @ ps))"

definition flat_leaf :: "'m pyd \<Rightarrow> string \<Rightarrow> string \<Rightarrow> 'm pval \<Rightarrow> flat \<Rightarrow> flat" where
  "flat_leaf d path key v a =
     (case pd_leaf d key v of
        Inl _ \<Rightarrow> flat_bad a [path]
      | Inr j \<Rightarrow> (case a of (leaves, failed, bad) \<Rightarrow> (dict_set leaves path j, failed, bad)))"

definition flat_sub :: "(string list, (string, json) dict) py \<Rightarrow> flat \<Rightarrow> flat" where
  "flat_sub r a =
     (case r of
        Inl ps \<Rightarrow> flat_bad a ps
      | Inr l \<Rightarrow> (case a of (leaves, failed, bad) \<Rightarrow> (dict_update leaves l, failed, bad)))"

definition field_name_ok :: "string \<Rightarrow> bool" where
  "field_name_ok key \<longleftrightarrow> key \<noteq> [] \<and> CHR ''.'' \<notin> set key"

function (sequential) flatten :: "'m classes \<Rightarrow> 'm \<Rightarrow> string \<Rightarrow> 'm pval \<Rightarrow> (string list, (string, json) dict) py"
  and flatten_items :: "'m classes \<Rightarrow> 'm \<Rightarrow> string \<Rightarrow> (dkey \<times> 'm pval) list \<Rightarrow> flat \<Rightarrow> flat"
where
  "flatten C m pre (PDict items) =
     (if items = [] then Inl (where_paths pre)
      else (case flatten_items C m pre items ([], False, []) of
              (leaves, failed, bad) \<Rightarrow> if failed then Inl bad else Inr leaves))"
| "flatten C m pre _ = Inl (where_paths pre)"
| "flatten_items C m pre [] a = a"
| "flatten_items C m pre ((k, v) # items) a =
     flatten_items C m pre items
       (let path = pre @ key_text k in
        case k of
          KOther _ \<Rightarrow> flat_bad a [path]
        | KStr key \<Rightarrow>
            if \<not> field_name_ok key then flat_bad a [path]
            else (case dict_get (pd_fields (cls C m)) key of
                None \<Rightarrow> flat_bad a [path]
              | Some f \<Rightarrow>
                  (case walk_target C m key f of
                     None \<Rightarrow> flat_leaf (cls C m) path key v a
                   | Some sub \<Rightarrow>
                       (case v of
                          PDict its \<Rightarrow> flat_sub (flatten C sub (path @ ''.'') (PDict its)) a
                        | PInst c its \<Rightarrow>
                            if isa C c sub then flat_sub (flatten C sub (path @ ''.'') (PDict its)) a
                            else flat_leaf (cls C m) path key v a
                        | PVal _ \<Rightarrow> flat_leaf (cls C m) path key v a))))"
  by pat_completeness auto
termination
  by (relation "measure (\<lambda>x. case x of Inl (C, m, pre, v) \<Rightarrow> 2 * size v
        | Inr (C, m, pre, items, a) \<Rightarrow> 2 * size_list (size_prod (\<lambda>_. 0) size) items + 1)")
    auto

subsection \<open>The store\<close>

datatype field_state = Committed | Provisional

record artifact_row =
  ar_id :: string
  ar_kind :: string
  ar_created :: string
  ar_updated :: string

record leaf_row =
  lf_artifact :: string
  lf_path :: string
  lf_state :: field_state
  lf_value :: json
  lf_cite :: "string option"
  lf_updated :: string

datatype artifact_error =
    UnknownKind
  | Validation "string list"
  | Citation "string list"
  | KindMismatch
  | Incomplete "string list"
  | NotFound
  | StoreError
  | KindValueError
  | NestRaised

text \<open>Trace events: identifiers and paths, never values.\<close>

datatype artifact_event =
    ArtifactProposed string string "(string, string) dict" "string list"
  | ArtifactRejected "string option" string artifact_error "string list"

record 'm artifact_store =
  as_version :: nat
  as_kinds :: "(string, 'm) dict"
  as_artifacts :: "artifact_row list"
  as_leaves :: "leaf_row list"
  as_trace :: "artifact_event list"

definition ARTIFACT_SCHEMA_VERSION :: nat where "ARTIFACT_SCHEMA_VERSION = 1"

definition ARTIFACT_ID_PREFIX :: string where "ARTIFACT_ID_PREFIX = ''art-''"

definition artifact_schema :: "'m artifact_store \<Rightarrow> (artifact_error, 'm artifact_store) py" where
  "artifact_schema A =
     (if as_version A > ARTIFACT_SCHEMA_VERSION then Inl StoreError
      else if as_version A = ARTIFACT_SCHEMA_VERSION then Inr A
      else Inr (A\<lparr>as_version := ARTIFACT_SCHEMA_VERSION\<rparr>))"

text \<open>\<open>register_kind\<close>: no model with a cross-field validator where the leaf walk goes.\<close>

definition register_kind ::
  "('m::finite) classes \<Rightarrow> string \<Rightarrow> 'm \<Rightarrow> bool \<Rightarrow> 'm artifact_store
     \<Rightarrow> (artifact_error, 'm artifact_store) py" where
  "register_kind C name m replace A =
     (if name = [] then Inl KindValueError
      else if list_ex (\<lambda>(_, sub). pd_model_validators (cls C sub)) (walked_models C m [] {})
        then Inl KindValueError
      else (case dict_get (as_kinds A) name of
          Some cur \<Rightarrow> if cur \<noteq> m \<and> \<not> replace then Inl KindValueError
                      else Inr (A\<lparr>as_kinds := dict_set (as_kinds A) name m\<rparr>)
        | None \<Rightarrow> Inr (A\<lparr>as_kinds := dict_set (as_kinds A) name m\<rparr>)))"

text \<open>Equal, ancestor or descendant paths (the \<open>substr\<close> tests of the DELETE).\<close>

definition below :: "string \<Rightarrow> string \<Rightarrow> bool" where
  "below p q \<longleftrightarrow> take (length p + 1) q = p @ ''.''"

definition overlaps :: "string \<Rightarrow> string \<Rightarrow> bool" where
  "overlaps p q \<longleftrightarrow> q = p \<or> below p q \<or> below q p"

text \<open>One leaf of a \<open>propose\<close>: what it supersedes is deleted, then it is inserted.\<close>

definition supersedes :: "(string, string) dict \<Rightarrow> string \<Rightarrow> string \<Rightarrow> leaf_row \<Rightarrow> bool" where
  "supersedes committed aid path r \<longleftrightarrow>
     lf_artifact r = aid \<and> (dict_get committed path \<noteq> None \<or> lf_state r = Provisional) \<and> overlaps path (lf_path r)"

definition leaf_row_of :: "string \<Rightarrow> string \<Rightarrow> (string, string) dict \<Rightarrow> string \<times> json \<Rightarrow> leaf_row" where
  "leaf_row_of now aid committed = (\<lambda>(path, value).
     \<lparr>lf_artifact = aid, lf_path = path,
      lf_state = (if dict_get committed path = None then Provisional else Committed),
      lf_value = value, lf_cite = dict_get committed path, lf_updated = now\<rparr>)"

definition write_leaf ::
  "string \<Rightarrow> string \<Rightarrow> (string, string) dict \<Rightarrow> string \<times> json \<Rightarrow> leaf_row list \<Rightarrow> leaf_row list" where
  "write_leaf now aid committed l rows =
     filter (\<lambda>r. \<not> supersedes committed aid (fst l) r) rows @ [leaf_row_of now aid committed l]"

datatype cite = CiteStr string | CiteOther

text \<open>\<open>cites[p]\<close> for a path; its trace identifier when it is one that resolves.\<close>

definition cite_at :: "(dkey, cite) dict \<Rightarrow> string \<Rightarrow> string option" where
  "cite_at cites p = (case dict_get cites (KStr p) of Some (CiteStr t) \<Rightarrow> Some t | _ \<Rightarrow> None)"

definition stray_cites :: "(dkey, cite) dict \<Rightarrow> (string, json) dict \<Rightarrow> string list" where
  "stray_cites cites leaves = sort (map (key_text \<circ> fst)
     (filter (\<lambda>(k, _). \<not> (\<exists>p \<in> fst ` set leaves. k = KStr p)) cites))"

definition unresolved_cites :: "(string \<Rightarrow> bool) \<Rightarrow> (dkey, cite) dict \<Rightarrow> string list" where
  "unresolved_cites resolves cites = sort (map (key_text \<circ> fst)
     (filter (\<lambda>(_, c). case c of CiteStr t \<Rightarrow> \<not> resolves t | CiteOther \<Rightarrow> True) cites))"

text \<open>The checks of \<open>propose\<close> before its transaction, in their order.\<close>

definition check_proposal ::
  "'m classes \<Rightarrow> (string \<Rightarrow> bool) \<Rightarrow> 'm artifact_store \<Rightarrow> string \<Rightarrow> 'm pval \<Rightarrow> (dkey, cite) dict
     \<Rightarrow> string option \<Rightarrow> (artifact_error, (string, json) dict) py" where
  "check_proposal C resolves A kind delta cites aid =
     (if aid = Some [] then Inl (Validation [])
      else (case dict_get (as_kinds A) kind of
          None \<Rightarrow> Inl UnknownKind
        | Some m \<Rightarrow>
            (case flatten C m [] delta of
               Inl bad \<Rightarrow> Inl (Validation bad)
             | Inr leaves \<Rightarrow>
                 if stray_cites cites leaves \<noteq> [] then Inl (Validation (stray_cites cites leaves))
                 else if unresolved_cites resolves cites \<noteq> []
                   then Inl (Citation (unresolved_cites resolves cites))
                 else Inr leaves)))"

definition error_paths :: "artifact_error \<Rightarrow> string list" where
  "error_paths e = (case e of Validation ps \<Rightarrow> ps | Citation ps \<Rightarrow> ps | _ \<Rightarrow> [])"

definition emit_artifact :: "(artifact_event \<Rightarrow> bool) \<Rightarrow> artifact_event \<Rightarrow> 'm artifact_store \<Rightarrow> 'm artifact_store" where
  "emit_artifact sink ev A = (if sink ev then A\<lparr>as_trace := as_trace A @ [ev]\<rparr> else A)"

definition reject ::
  "(artifact_event \<Rightarrow> bool) \<Rightarrow> artifact_error \<Rightarrow> string \<Rightarrow> string option \<Rightarrow> 'm artifact_store \<Rightarrow> 'm artifact_store" where
  "reject sink e kind aid A = emit_artifact sink (ArtifactRejected aid kind e (error_paths e)) A"

record artifact_result =
  rs_artifact :: string
  rs_kind :: string
  rs_committed :: "(string, string) dict"
  rs_provisional :: "string list"

text \<open>\<open>propose\<close>: the transaction commits whole or rolls back. \<open>fresh\<close> and \<open>now\<close> are the new
  identifier and the time it would get.\<close>

definition artifact_touch :: "string \<Rightarrow> string \<Rightarrow> string \<Rightarrow> artifact_row list \<Rightarrow> artifact_row list" where
  "artifact_touch aid kind now rows =
     (if list_ex (\<lambda>r. ar_id r = aid) rows
      then map (\<lambda>r. if ar_id r = aid then r\<lparr>ar_updated := now\<rparr> else r) rows
      else rows @ [\<lparr>ar_id = aid, ar_kind = kind, ar_created = now, ar_updated = now\<rparr>])"

definition find_artifact :: "string \<Rightarrow> 'm artifact_store \<Rightarrow> artifact_row option" where
  "find_artifact aid A = find (\<lambda>r. ar_id r = aid) (as_artifacts A)"

definition committed_of :: "(dkey, cite) dict \<Rightarrow> (string, json) dict \<Rightarrow> (string, string) dict" where
  "committed_of cites leaves =
     concat (map (\<lambda>(p, _). case cite_at cites p of None \<Rightarrow> [] | Some t \<Rightarrow> [(p, t)]) leaves)"

definition propose ::
  "'m classes \<Rightarrow> (artifact_event \<Rightarrow> bool) \<Rightarrow> (string \<Rightarrow> bool) \<Rightarrow> string \<Rightarrow> string \<Rightarrow> string \<Rightarrow> 'm pval
     \<Rightarrow> (dkey, cite) dict \<Rightarrow> string option \<Rightarrow> 'm artifact_store
     \<Rightarrow> (artifact_error, artifact_result) py \<times> 'm artifact_store" where
  "propose C sink resolves fresh now kind delta cites artifact_id A =
     (case check_proposal C resolves A kind delta cites artifact_id of
        Inl e \<Rightarrow> (Inl e, reject sink e kind artifact_id A)
      | Inr leaves \<Rightarrow>
          let aid = (case artifact_id of Some i \<Rightarrow> i | None \<Rightarrow> ARTIFACT_ID_PREFIX @ fresh);
              committed = committed_of cites leaves;
              provisional = map fst (filter (\<lambda>(p, _). dict_get cites (KStr p) = None) leaves)
          in if (case find_artifact aid A of Some r \<Rightarrow> ar_kind r \<noteq> kind | None \<Rightarrow> False)
             then (Inl KindMismatch, reject sink KindMismatch kind (Some aid) A)
             else (Inr \<lparr>rs_artifact = aid, rs_kind = kind, rs_committed = committed, rs_provisional = provisional\<rparr>,
                   emit_artifact sink (ArtifactProposed aid kind committed provisional)
                     (A\<lparr>as_artifacts := artifact_touch aid kind now (as_artifacts A),
                        as_leaves := fold (write_leaf now aid committed) leaves (as_leaves A)\<rparr>)))"

subsection \<open>Views\<close>

text \<open>\<open>_nest\<close>: setting one dotted path; a value that is no dict in the way makes Python raise.\<close>

fun set_path :: "string list \<Rightarrow> json \<Rightarrow> (string, json) dict \<Rightarrow> (artifact_error, (string, json) dict) py" where
  "set_path [] v d = Inl NestRaised"
| "set_path [k] v d = Inr (dict_set d k v)"
| "set_path (k # k' # ks) v d =
     (case dict_get d k of
        None \<Rightarrow> (case set_path (k' # ks) v [] of Inl e \<Rightarrow> Inl e | Inr e \<Rightarrow> Inr (dict_set d k (JDict e)))
      | Some (JDict e) \<Rightarrow> (case set_path (k' # ks) v e of Inl e \<Rightarrow> Inl e | Inr e \<Rightarrow> Inr (dict_set d k (JDict e)))
      | Some _ \<Rightarrow> Inl NestRaised)"

definition segs :: "string \<Rightarrow> string list" where
  "segs p = split_on (CHR ''.'') p"

fun nest_loop :: "(string, json) dict \<Rightarrow> (string, json) dict \<Rightarrow> (artifact_error, (string, json) dict) py" where
  "nest_loop [] d = Inr d"
| "nest_loop ((p, v) # ps) d = (case set_path (segs p) v d of Inl e \<Rightarrow> Inl e | Inr d \<Rightarrow> nest_loop ps d)"

definition nest :: "(string, json) dict \<Rightarrow> (artifact_error, (string, json) dict) py" where
  "nest fl = nest_loop (sort_key fst fl) []"

definition kind_of :: "string \<Rightarrow> 'm artifact_store \<Rightarrow> (artifact_error, string) py" where
  "kind_of aid A = (case find_artifact aid A of None \<Rightarrow> Inl NotFound | Some r \<Rightarrow> Inr (ar_kind r))"

definition rows_of :: "string \<Rightarrow> field_state \<Rightarrow> 'm artifact_store \<Rightarrow> leaf_row list" where
  "rows_of aid st A = filter (\<lambda>r. lf_artifact r = aid \<and> lf_state r = st) (as_leaves A)"

definition view :: "field_state \<Rightarrow> string \<Rightarrow> 'm artifact_store \<Rightarrow> (artifact_error, (string, json) dict) py" where
  "view st aid A =
     (if find_artifact aid A = None then Inl NotFound
      else nest (map (\<lambda>r. (lf_path r, lf_value r)) (rows_of aid st A)))"

definition committed_view :: "string \<Rightarrow> 'm artifact_store \<Rightarrow> (artifact_error, (string, json) dict) py" where
  "committed_view = view Committed"

definition provisional_view :: "string \<Rightarrow> 'm artifact_store \<Rightarrow> (artifact_error, (string, json) dict) py" where
  "provisional_view = view Provisional"

definition citations :: "string \<Rightarrow> 'm artifact_store \<Rightarrow> (artifact_error, (string, string option) dict) py" where
  "citations aid A =
     (if find_artifact aid A = None then Inl NotFound
      else Inr (map (\<lambda>r. (lf_path r, lf_cite r)) (sort_key lf_path (rows_of aid Committed A))))"

definition committed_model :: "'m classes \<Rightarrow> string \<Rightarrow> 'm artifact_store \<Rightarrow> (artifact_error, 'm pval) py" where
  "committed_model C aid A =
     (case kind_of aid A of
        Inl e \<Rightarrow> Inl e
      | Inr k \<Rightarrow>
          (case dict_get (as_kinds A) k of
             None \<Rightarrow> Inl UnknownKind
           | Some m \<Rightarrow>
               (case committed_view aid A of
                  Inl e \<Rightarrow> Inl e
                | Inr d \<Rightarrow> (case pd_validate (cls C m) (JDict d) of Inl ps \<Rightarrow> Inl (Incomplete ps) | Inr i \<Rightarrow> Inr i))))"

subsection \<open>Paths and their segments\<close>

lemma split_on_append: "split_on c (a @ c # b) = split_on c a @ split_on c b"
proof (induction a)
  case (Cons x a)
  obtain w ws where "split_on c a = w # ws" by (cases "split_on c a") auto
  with Cons show ?case by auto
qed simp

lemma join_with_append: "xs \<noteq> [] \<Longrightarrow> ys \<noteq> [] \<Longrightarrow> join_with s (xs @ ys) = join_with s xs @ s @ join_with s ys"
proof (induction s xs rule: join_with.induct)
  case (2 sep x)
  then show ?case by (cases ys) auto
qed auto

lemma segs_not_Nil [simp]: "segs p \<noteq> []"
  by (simp add: segs_def)

lemma segs_inj: "segs p = segs q \<Longrightarrow> p = q"
  unfolding segs_def by (metis join_split)

lemma below_iff: "below p q \<longleftrightarrow> strict_prefix (segs p) (segs q)"
proof
  assume "below p q"
  then have "q = p @ CHR ''.'' # drop (length p + 1) q"
    unfolding below_def by (metis append.assoc append_Cons append_Nil append_take_drop_id)
  then obtain r where "q = p @ CHR ''.'' # r" by blast
  then have "segs q = segs p @ segs r" by (simp add: segs_def split_on_append)
  then show "strict_prefix (segs p) (segs q)" by (auto simp: strict_prefix_def)
next
  assume "strict_prefix (segs p) (segs q)"
  then obtain r where r: "segs q = segs p @ r" "r \<noteq> []" by (auto simp: strict_prefix_def prefix_def)
  have "q = join_with ''.'' (segs q)" by (simp add: segs_def)
  also have "\<dots> = p @ ''.'' @ join_with ''.'' r"
    using join_with_append[OF segs_not_Nil r(2), of "''.''" p] by (simp add: r(1)) (simp add: segs_def)
  finally show "below p q" by (simp add: below_def)
qed

lemma overlaps_iff: "overlaps p q \<longleftrightarrow> prefix (segs p) (segs q) \<or> prefix (segs q) (segs p)"
  unfolding overlaps_def below_iff by (auto simp: strict_prefix_def dest: segs_inj)

lemma overlaps_sym: "overlaps p q \<longleftrightarrow> overlaps q p"
  by (auto simp: overlaps_iff)

lemma overlaps_refl [simp]: "overlaps p p"
  by (simp add: overlaps_iff)

subsection \<open>Nesting prefix-free paths\<close>

fun get_path :: "string list \<Rightarrow> json \<Rightarrow> json option" where
  "get_path [] v = Some v"
| "get_path (k # ks) (JDict d) = (case dict_get d k of None \<Rightarrow> None | Some v \<Rightarrow> get_path ks v)"
| "get_path (k # ks) _ = None"

lemma get_path_append: "get_path (a @ b) v = Option.bind (get_path a v) (get_path b)"
  by (induction a v rule: get_path.induct) (auto split: option.splits)

lemma get_path_empty: "ks \<noteq> [] \<Longrightarrow> get_path ks (JDict []) = None"
  by (cases ks) auto

lemma get_path_Some_dict: "ks \<noteq> [] \<Longrightarrow> get_path ks v = Some w \<Longrightarrow> \<exists>d. v = JDict d"
  by (cases "(ks, v)" rule: get_path.cases) auto

text \<open>\<open>open_path\<close>: no value that is not a dict lies above the path.\<close>

definition open_path :: "string list \<Rightarrow> (string, json) dict \<Rightarrow> bool" where
  "open_path ks d \<longleftrightarrow>
     (\<forall>js w. strict_prefix js ks \<longrightarrow> get_path js (JDict d) = Some w \<longrightarrow> (\<exists>e. w = JDict e))"

lemma open_path_step:
  assumes "open_path (k # ks) d" "dict_get d k = Some v" "ks \<noteq> []"
  shows "\<exists>e. v = JDict e \<and> open_path ks e"
proof -
  have "strict_prefix [k] (k # ks)" using assms(3) by (auto simp: strict_prefix_def)
  moreover have "get_path [k] (JDict d) = Some v" using assms(2) by simp
  ultimately obtain e where e: "v = JDict e" using assms(1) unfolding open_path_def by blast
  have "open_path ks e"
    unfolding open_path_def
  proof (intro allI impI)
    fix js w assume "strict_prefix js ks" "get_path js (JDict e) = Some w"
    moreover then have "strict_prefix (k # js) (k # ks)" "get_path (k # js) (JDict d) = Some w"
      using assms(2) e by auto
    ultimately show "\<exists>e. w = JDict e" using assms(1) unfolding open_path_def by blast
  qed
  with e show ?thesis by blast
qed

lemma open_path_empty: "ks \<noteq> [] \<Longrightarrow> open_path ks []"
  unfolding open_path_def by (metis get_path.simps(1) get_path_empty option.distinct(1) option.inject)

lemma set_path_succeeds: "ks \<noteq> [] \<Longrightarrow> open_path ks d \<Longrightarrow> \<exists>d'. set_path ks v d = Inr d'"
proof (induction ks v d rule: set_path.induct)
  case (3 k k' ks v d)
  show ?case
  proof (cases "dict_get d k")
    case None
    then show ?thesis using "3.IH"(1)[OF None] open_path_empty by (auto split: sum.splits)
  next
    case (Some w)
    with open_path_step[OF "3.prems"(2)] obtain e where "w = JDict e" "open_path (k' # ks) e" by auto
    then show ?thesis using "3.IH"(2)[of w e] Some by (auto split: sum.splits)
  qed
qed auto

lemma set_path_get: "set_path ks v d = Inr d' \<Longrightarrow> get_path ks (JDict d') = Some v"
proof (induction ks v d arbitrary: d' rule: set_path.induct)
  case (3 k k' ks v d)
  then show ?case
    by (cases "dict_get d k") (auto split: sum.splits option.splits json.splits)
qed auto

lemma set_path_other:
  "set_path ks v d = Inr d' \<Longrightarrow> \<not> prefix ks js \<Longrightarrow> \<not> prefix js ks \<Longrightarrow>
     get_path js (JDict d') = get_path js (JDict d)"
proof (induction ks v d arbitrary: d' js rule: set_path.induct)
  case (2 k v d)
  then show ?case by (cases js) auto
next
  case (3 k k' ks v d)
  from "3.prems" obtain j js' where js: "js = j # js'" by (cases js) auto
  show ?case
  proof (cases "j = k")
    case True
    then have np: "\<not> prefix (k' # ks) js'" "\<not> prefix js' (k' # ks)" using "3.prems" js by auto
    then have ne: "js' \<noteq> []" by auto
    show ?thesis
    proof (cases "dict_get d k")
      case None
      with "3.prems" obtain e where "set_path (k' # ks) v [] = Inr e" "d' = dict_set d k (JDict e)"
        by (auto split: sum.splits)
      with "3.IH"(1)[OF None _ np] None js True get_path_empty[OF ne] show ?thesis by simp
    next
      case (Some w)
      with "3.prems" obtain e e' where "w = JDict e" "set_path (k' # ks) v e = Inr e'" "d' = dict_set d k (JDict e')"
        by (auto split: sum.splits json.splits)
      with "3.IH"(2)[OF Some _ _ np] Some js True show ?thesis by simp
    qed
  next
    case False
    with "3.prems" js show ?thesis by (auto split: sum.splits option.splits json.splits)
  qed
qed auto

text \<open>What a nested dict built from a set of paths holds: their values, and dicts above them.\<close>

definition nested_from :: "(string, json) dict \<Rightarrow> (string, json) dict \<Rightarrow> bool" where
  "nested_from ps d \<longleftrightarrow>
     (\<forall>(p, v) \<in> set ps. get_path (segs p) (JDict d) = Some v)
     \<and> (\<forall>js w. js \<noteq> [] \<longrightarrow> get_path js (JDict d) = Some w \<longrightarrow>
          (\<exists>p \<in> fst ` set ps. prefix (segs p) js \<or> (strict_prefix js (segs p) \<and> (\<exists>e. w = JDict e))))"

lemma nested_from_above:
  assumes "nested_from ps d" "js \<noteq> []" "get_path js (JDict d) = Some w"
  obtains p where "p \<in> fst ` set ps" "prefix (segs p) js \<or> (strict_prefix js (segs p) \<and> (\<exists>e. w = JDict e))"
  using assms unfolding nested_from_def by blast

abbreviation apart :: "(string, json) dict \<Rightarrow> bool" where
  "apart ps \<equiv> sorted_wrt (\<lambda>a b. \<not> overlaps (fst a) (fst b)) ps"

lemma nested_from_step:
  assumes d: "nested_from old d" and new: "\<forall>x \<in> set old. \<not> overlaps (fst x) p"
  shows "\<exists>d'. set_path (segs p) v d = Inr d' \<and> nested_from (old @ [(p, v)]) d'"
proof -
  have "open_path (segs p) d"
    unfolding open_path_def
  proof (intro allI impI)
    fix js w assume js: "strict_prefix js (segs p)" and w: "get_path js (JDict d) = Some w"
    show "\<exists>e. w = JDict e"
    proof (cases "js = []")
      case False
      obtain q where q: "q \<in> fst ` set old"
        and c: "prefix (segs q) js \<or> (strict_prefix js (segs q) \<and> (\<exists>e. w = JDict e))"
        using nested_from_above[OF d False w] .
      have "\<not> prefix (segs q) (segs p)" using new q by (auto simp: overlaps_iff)
      then have "\<not> prefix (segs q) js"
        using js prefix_order.order_trans[of "segs q" js "segs p"] by (auto simp: strict_prefix_def)
      with c show ?thesis by blast
    next
      case True
      with w have "w = JDict d" by simp
      then show ?thesis by simp
    qed
  qed
  from set_path_succeeds[OF segs_not_Nil this] obtain d' where s: "set_path (segs p) v d = Inr d'" ..
  have "nested_from (old @ [(p, v)]) d'"
    unfolding nested_from_def
  proof (intro conjI ballI allI impI; clarify?)
    fix q x assume "(q, x) \<in> set (old @ [(p, v)])"
    then consider "(q, x) \<in> set old" | "q = p" "x = v" by auto
    then show "get_path (segs q) (JDict d') = Some x"
    proof cases
      case 1
      then have "\<not> prefix (segs p) (segs q)" "\<not> prefix (segs q) (segs p)"
        using new by (auto simp: overlaps_iff)
      note same = set_path_other[OF s this]
      have "get_path (segs q) (JDict d) = Some x" using 1 d unfolding nested_from_def by (meson case_prodD)
      with same show ?thesis by simp
    qed (use set_path_get[OF s] in simp)
  next
    fix js w assume ne: "js \<noteq> []" and w: "get_path js (JDict d') = Some w"
    consider "prefix (segs p) js" | "strict_prefix js (segs p)" | "\<not> prefix (segs p) js" "\<not> prefix js (segs p)"
      by (auto simp: strict_prefix_def)
    then show "\<exists>q \<in> fst ` set (old @ [(p, v)]).
        prefix (segs q) js \<or> (strict_prefix js (segs q) \<and> (\<exists>e. w = JDict e))"
    proof cases
      case 2
      then obtain r where r: "segs p = js @ r" "r \<noteq> []" by (auto simp: strict_prefix_def prefix_def)
      with set_path_get[OF s] w have "get_path r w = Some v" by (simp add: get_path_append)
      with r(2) have "\<exists>e. w = JDict e" by (rule get_path_Some_dict)
      with 2 show ?thesis by auto
    next
      case 3
      with set_path_other[OF s] w have "get_path js (JDict d) = Some w" by simp
      from nested_from_above[OF d ne this] show ?thesis by (metis Un_iff image_Un set_append)
    qed auto
  qed
  with s show ?thesis by blast
qed

lemma nest_loop_nested:
  "nested_from old d \<Longrightarrow> apart (old @ ps) \<Longrightarrow> \<exists>d'. nest_loop ps d = Inr d' \<and> nested_from (old @ ps) d'"
proof (induction ps arbitrary: old d)
  case (Cons x ps)
  obtain p v where x: "x = (p, v)" by fastforce
  from Cons.prems(2) have "\<forall>y \<in> set old. \<not> overlaps (fst y) p" by (auto simp: sorted_wrt_append x)
  from nested_from_step[OF Cons.prems(1) this, of v] obtain e where
    e: "set_path (segs p) v d = Inr e" "nested_from (old @ [x]) e" by (auto simp: x)
  from Cons.IH[OF e(2)] Cons.prems(2) e(1) show ?case by (simp add: x)
qed simp

lemma apart_distinct: "apart ps \<Longrightarrow> distinct ps"
  by (induction ps) auto

lemma apart_perm:
  assumes "apart ps" "mset qs = mset ps"
  shows "apart qs"
proof -
  have d: "distinct ps" "distinct qs"
    using apart_distinct[OF assms(1)] assms(2) mset_eq_imp_distinct_iff by blast+
  have "\<not> overlaps (fst a) (fst b)" if "a \<in> set ps" "b \<in> set ps" "a \<noteq> b" for a b
  proof -
    from that obtain i j where ij: "i < length ps" "j < length ps" "ps ! i = a" "ps ! j = b" "i \<noteq> j"
      by (auto simp: in_set_conv_nth)
    then show ?thesis
      using assms(1)[unfolded sorted_wrt_iff_nth_less] overlaps_sym by (metis linorder_neqE_nat)
  qed
  moreover have "set qs = set ps" using assms(2) by (metis set_mset_mset)
  ultimately have far: "\<not> overlaps (fst a) (fst b)" if "a \<in> set qs" "b \<in> set qs" "a \<noteq> b" for a b
    using that by metis
  show ?thesis
    unfolding sorted_wrt_iff_nth_less
  proof (intro allI impI)
    fix i j assume "i < j" "j < length qs"
    then show "\<not> overlaps (fst (qs ! i)) (fst (qs ! j))" using d(2) by (intro far) (auto simp: nth_eq_iff_index_eq)
  qed
qed

lemma nest_nested:
  assumes "apart ps"
  shows "\<exists>d. nest ps = Inr d \<and> nested_from ps d"
proof -
  have "apart (sort_key fst ps)" using apart_perm[OF assms] by simp
  moreover have "nested_from [] []" by (auto simp: nested_from_def get_path_empty)
  ultimately obtain d where "nest ps = Inr d" "nested_from (sort_key fst ps) d"
    using nest_loop_nested[of "[]" "[]" "sort_key fst ps"] by (auto simp: nest_def)
  then show ?thesis by (auto simp: nested_from_def)
qed

subsection \<open>The leaves of a delta\<close>

text \<open>A Python dict has no key twice, nor has any dict inside a delta.\<close>

fun delta_ok :: "'m pval \<Rightarrow> bool" where
  "delta_ok (PDict items) \<longleftrightarrow> distinct (map fst items) \<and> (\<forall>(k, v) \<in> set items. delta_ok v)"
| "delta_ok (PInst c items) \<longleftrightarrow> distinct (map fst items) \<and> (\<forall>(k, v) \<in> set items. delta_ok v)"
| "delta_ok (PVal j) \<longleftrightarrow> True"

definition prefix_of :: "string list \<Rightarrow> string" where
  "prefix_of ss = concat (map (\<lambda>s. s @ ''.'') ss)"

lemma prefix_of_simps [simp]:
  "prefix_of [] = []"
  "prefix_of (ss @ [k]) = prefix_of ss @ k @ ''.''"
  by (simp_all add: prefix_of_def)

lemma segs_prefix_of:
  "list_all field_name_ok ss \<Longrightarrow> field_name_ok k \<Longrightarrow> segs (prefix_of ss @ k) = ss @ [k]"
proof (induction ss)
  case Nil
  then show ?case by (simp add: segs_def field_name_ok_def split_on_single)
next
  case (Cons s ss)
  then show ?case by (simp add: segs_def prefix_of_def field_name_ok_def split_on_append_sep)
qed

text \<open>Leaves under a prefix: apart from each other, well-formed, strictly under it.\<close>

definition leaves_under :: "string list \<Rightarrow> string set \<Rightarrow> (string, json) dict \<Rightarrow> bool" where
  "leaves_under ss ks leaves \<longleftrightarrow>
     apart leaves \<and> (\<forall>p \<in> fst ` set leaves. list_all field_name_ok (segs p)
        \<and> (\<exists>k \<in> ks. prefix (ss @ [k]) (segs p)))"

lemma dict_update_fresh:
  "distinct (map fst e) \<Longrightarrow> fst ` set d \<inter> fst ` set e = {} \<Longrightarrow> dict_update d e = d @ e"
proof (induction e arbitrary: d)
  case (Cons x e)
  then show ?case by (cases x) (auto simp: dict_update_def dict_set_fresh)
qed (simp add: dict_update_def)

lemma apart_distinct_keys: "apart ps \<Longrightarrow> distinct (map fst ps)"
  by (induction ps) auto

lemma not_overlaps_keys:
  assumes "prefix (ss @ [k]) (segs p)" "prefix (ss @ [k']) (segs q)" "k \<noteq> k'"
  shows "\<not> overlaps p q"
  using assms unfolding overlaps_iff prefix_def by auto

lemma leaves_underD:
  assumes "leaves_under ss ks a" "x \<in> set a"
  obtains k where "k \<in> ks" "prefix (ss @ [k]) (segs (fst x))"
  using assms unfolding leaves_under_def by blast

lemma leaves_under_append:
  assumes "leaves_under ss ks a" "leaves_under ss ks' b" "ks \<inter> ks' = {}"
  shows "leaves_under ss (ks \<union> ks') (a @ b)"
proof -
  have "\<not> overlaps (fst x) (fst y)" if x: "x \<in> set a" and y: "y \<in> set b" for x y
  proof -
    obtain k where k: "k \<in> ks" "prefix (ss @ [k]) (segs (fst x))" using leaves_underD[OF assms(1) x] .
    obtain k' where k': "k' \<in> ks'" "prefix (ss @ [k']) (segs (fst y))" using leaves_underD[OF assms(2) y] .
    have "k \<noteq> k'" using k(1) k'(1) assms(3) by blast
    then show ?thesis by (rule not_overlaps_keys[OF k(2) k'(2)])
  qed
  then show ?thesis using assms unfolding leaves_under_def by (auto simp: sorted_wrt_append)
qed

lemma leaves_under_mono: "leaves_under ss ks a \<Longrightarrow> ks \<subseteq> ks' \<Longrightarrow> leaves_under ss ks' a"
  unfolding leaves_under_def by blast

lemma leaves_under_sub: "leaves_under (ss @ [k]) ks a \<Longrightarrow> leaves_under ss {k} a"
  unfolding leaves_under_def by (auto simp: prefix_def)

lemma leaves_under_add:
  assumes "leaves_under ss ks a" "leaves_under ss {k} b" "k \<notin> ks"
  shows "dict_update a b = a @ b" "leaves_under ss (insert k ks) (dict_update a b)"
proof -
  have ap: "leaves_under ss (ks \<union> {k}) (a @ b)" using leaves_under_append[OF assms(1,2)] assms(3) by simp
  then have "distinct (map fst (a @ b))" unfolding leaves_under_def using apart_distinct_keys by blast
  then show u: "dict_update a b = a @ b" by (intro dict_update_fresh) auto
  show "leaves_under ss (insert k ks) (dict_update a b)" unfolding u using ap by simp
qed

lemma leaf_under:
  assumes "list_all field_name_ok ss" "field_name_ok k"
  shows "leaves_under ss {k} [(prefix_of ss @ k, v)]"
  using assms by (simp add: leaves_under_def segs_prefix_of)

text \<open>The keys of the string items of a dict.\<close>

definition str_keys :: "(dkey \<times> 'a) list \<Rightarrow> string set" where
  "str_keys items = {k. KStr k \<in> fst ` set items}"

lemma str_keys_simps [simp]:
  "str_keys [] = {}" "str_keys ((KStr k, v) # items) = insert k (str_keys items)"
  "str_keys ((KOther k, v) # items) = str_keys items"
  by (auto simp: str_keys_def)

text \<open>One item of a dict adds leaves under its key only.\<close>

lemma flat_bad_fst [simp]: "fst (flat_bad a ps) = fst a"
  by (cases a) (simp add: flat_bad_def)

lemma flat_leaf_under:
  assumes "leaves_under ss ks (fst a)" "k \<notin> ks" "list_all field_name_ok ss" "field_name_ok k"
  shows "leaves_under ss (insert k ks) (fst (flat_leaf d (prefix_of ss @ k) k v a))"
proof (cases "pd_leaf d k v")
  case (Inl e)
  then show ?thesis using leaves_under_mono[OF assms(1)] by (auto simp: flat_leaf_def)
next
  case (Inr j)
  obtain l b c where a: "a = (l, b, c)" by (cases a)
  have "dict_set l (prefix_of ss @ k) j = dict_update l [(prefix_of ss @ k, j)]" by (simp add: dict_update_def)
  then show ?thesis
    using leaves_under_add(2)[OF _ leaf_under[OF assms(3,4)] assms(2)] assms(1) Inr a
    by (simp add: flat_leaf_def)
qed

lemma flat_sub_under:
  assumes "leaves_under ss ks (fst a)" "k \<notin> ks" "\<And>l. r = Inr l \<Longrightarrow> \<exists>ks'. leaves_under (ss @ [k]) ks' l"
  shows "leaves_under ss (insert k ks) (fst (flat_sub r a))"
proof (cases r)
  case (Inl e)
  then show ?thesis using leaves_under_mono[OF assms(1)] by (auto simp: flat_sub_def)
next
  case (Inr l)
  obtain l0 b c where a: "a = (l0, b, c)" by (cases a)
  obtain ks' where "leaves_under (ss @ [k]) ks' l" using assms(3)[OF Inr] by blast
  then have "leaves_under ss {k} l" by (rule leaves_under_sub)
  from leaves_under_add(2)[OF _ this assms(2)] assms(1) show ?thesis by (simp add: flat_sub_def Inr a)
qed

lemma flatten_under:
  fixes C :: "'m classes"
  shows "flatten C m pre v = Inr leaves \<Longrightarrow> delta_ok v \<Longrightarrow> pre = prefix_of ss \<Longrightarrow> list_all field_name_ok ss
      \<Longrightarrow> \<exists>ks. leaves_under ss ks leaves"
    and "leaves_under ss ks (fst a) \<Longrightarrow> ks \<inter> str_keys items = {} \<Longrightarrow> delta_ok (PDict items)
      \<Longrightarrow> pre = prefix_of ss \<Longrightarrow> list_all field_name_ok ss
      \<Longrightarrow> \<exists>ks'. leaves_under ss ks' (fst (flatten_items C m pre items a))"
proof (induction C m pre v and C m pre items a arbitrary: leaves ss and ss ks rule: flatten_flatten_items.induct)
  case (1 C m pre items)
  have "leaves_under ss {} []" by (simp add: leaves_under_def)
  with 1 obtain ks where "leaves_under ss ks (fst (flatten_items C m pre items ([], False, [])))"
    by (force split: if_splits)
  with "1.prems"(1) show ?case by (auto split: if_splits prod.splits)
next
  case (3 C m pre a)
  then show ?case by auto
next
  case (4 C m pre k v items a)
  define a' where "a' = (let path = pre @ key_text k in
        case k of
          KOther _ \<Rightarrow> flat_bad a [path]
        | KStr key \<Rightarrow>
            if \<not> field_name_ok key then flat_bad a [path]
            else (case dict_get (pd_fields (cls C m)) key of
                None \<Rightarrow> flat_bad a [path]
              | Some f \<Rightarrow>
                  (case walk_target C m key f of
                     None \<Rightarrow> flat_leaf (cls C m) path key v a
                   | Some sub \<Rightarrow>
                       (case v of
                          PDict its \<Rightarrow> flat_sub (flatten C sub (path @ ''.'') (PDict its)) a
                        | PInst c its \<Rightarrow>
                            if isa C c sub then flat_sub (flatten C sub (path @ ''.'') (PDict its)) a
                            else flat_leaf (cls C m) path key v a
                        | PVal _ \<Rightarrow> flat_leaf (cls C m) path key v a))))"
  have step: "flatten_items C m pre ((k, v) # items) a = flatten_items C m pre items a'"
    by (simp only: flatten_items.simps a'_def)
  have rest: "delta_ok (PDict items)" "delta_ok v" using "4.prems"(3) by auto
  have "\<exists>ks'. leaves_under ss ks' (fst a') \<and> ks' \<inter> str_keys items = {}"
  proof (cases k)
    case (KOther x)
    then show ?thesis using "4.prems"(1,2) by (auto simp: a'_def)
  next
    case (KStr key)
    have nin: "key \<notin> ks" "key \<notin> str_keys items" using "4.prems"(2,3) KStr by (auto simp: str_keys_def)
    have dis: "insert key ks \<inter> str_keys items = {}" using nin "4.prems"(2) KStr by auto
    show ?thesis
    proof (cases "field_name_ok key")
      case False
      then show ?thesis using "4.prems"(1,2) KStr by (auto simp: a'_def)
    next
      case ok: True
      note lf = flat_leaf_under[OF "4.prems"(1) nin(1) "4.prems"(5) ok]
      show ?thesis
      proof (cases "dict_get (pd_fields (cls C m)) key")
        case None
        then show ?thesis using "4.prems"(1,2) KStr ok by (auto simp: a'_def)
      next
        case (Some f)
        have sub: "leaves_under ss (insert key ks) (fst (flat_sub (flatten C sub (pre @ key @ ''.'') (PDict its)) a))"
          if w: "walk_target C m key f = Some sub" and v: "v = PDict its \<or> (\<exists>c. v = PInst c its \<and> isa C c sub)" for sub its
        proof (rule flat_sub_under[OF "4.prems"(1) nin(1)])
          fix l assume l: "flatten C sub (pre @ key @ ''.'') (PDict its) = Inr l"
          have d: "delta_ok (PDict its)" using v rest(2) by auto
          have p: "pre @ key @ ''.'' = prefix_of (ss @ [key])" "list_all field_name_ok (ss @ [key])"
            using "4.prems"(4,5) ok by simp_all
          show "\<exists>ks'. leaves_under (ss @ [key]) ks' l"
            using v
          proof
            assume "v = PDict its"
            with "4.IH"(1)[OF refl KStr _ Some w, of its l "ss @ [key]"] l d p ok KStr show ?thesis
              by (simp add: key_text_def)
          next
            assume "\<exists>c. v = PInst c its \<and> isa C c sub"
            then obtain c where "v = PInst c its" "isa C c sub" by blast
            with "4.IH"(2)[OF refl KStr _ Some w, of c its l "ss @ [key]"] l d p ok KStr show ?thesis
              by (simp add: key_text_def)
          qed
        qed
        have "leaves_under ss (insert key ks) (fst a')"
        proof (cases "walk_target C m key f")
          case None
          then show ?thesis using lf "4.prems"(4) by (simp add: a'_def KStr ok Some key_text_def)
        next
          case w: (Some s)
          show ?thesis
            using sub[OF w] lf "4.prems"(4)
            by (cases v) (auto simp: a'_def KStr ok Some w key_text_def Let_def simp del: flatten.simps)
        qed
        with dis show ?thesis by blast
      qed
    qed
  qed
  then obtain ks' where k': "leaves_under ss ks' (fst a')" "ks' \<inter> str_keys items = {}" by blast
  have "\<exists>ks'. leaves_under ss ks' (fst (flatten_items C m pre items a'))"
    unfolding a'_def
    by (rule "4.IH"(3)) (use k' rest(1) "4.prems"(4,5) in \<open>simp_all only: a'_def\<close>)
  then show ?case by (simp only: step)
qed simp_all

lemma flatten_apart:
  assumes "flatten C m [] delta = Inr leaves" "delta_ok delta"
  shows "apart leaves" "p \<in> fst ` set leaves \<Longrightarrow> list_all field_name_ok (segs p)"
  using flatten_under(1)[OF assms, of "[]"] by (auto simp: leaves_under_def)

subsection \<open>The invariant of the store\<close>

definition leaf_ok :: "(string \<Rightarrow> bool) \<Rightarrow> 'm artifact_store \<Rightarrow> leaf_row \<Rightarrow> bool" where
  "leaf_ok resolves A r \<longleftrightarrow>
     (lf_state r = Committed \<longleftrightarrow> lf_cite r \<noteq> None) \<and> (\<forall>t. lf_cite r = Some t \<longrightarrow> resolves t)
     \<and> find_artifact (lf_artifact r) A \<noteq> None \<and> list_all field_name_ok (segs (lf_path r))"

definition rows_apart :: "leaf_row \<Rightarrow> leaf_row \<Rightarrow> bool" where
  "rows_apart r r' \<longleftrightarrow>
     (lf_artifact r = lf_artifact r' \<longrightarrow> lf_state r = lf_state r' \<longrightarrow> \<not> overlaps (lf_path r) (lf_path r'))"

definition store_inv :: "(string \<Rightarrow> bool) \<Rightarrow> 'm artifact_store \<Rightarrow> bool" where
  "store_inv resolves A \<longleftrightarrow>
     distinct (map ar_id (as_artifacts A)) \<and> list_all (leaf_ok resolves A) (as_leaves A)
     \<and> sorted_wrt rows_apart (as_leaves A)"

lemma leaf_row_of_sel [simp]:
  "lf_artifact (leaf_row_of now aid com l) = aid" "lf_path (leaf_row_of now aid com l) = fst l"
  "lf_state (leaf_row_of now aid com l) = (if dict_get com (fst l) = None then Provisional else Committed)"
  "lf_value (leaf_row_of now aid com l) = snd l" "lf_cite (leaf_row_of now aid com l) = dict_get com (fst l)"
  by (simp_all add: leaf_row_of_def split_beta)

lemma supersedes_leaf_row [simp]:
  "supersedes com aid p (leaf_row_of now aid com l) \<longleftrightarrow>
     (dict_get com p \<noteq> None \<or> dict_get com (fst l) = None) \<and> overlaps p (fst l)"
  by (auto simp: supersedes_def)

text \<open>Leaves that are apart do not supersede each other: the loop filters, then appends.\<close>

lemma write_leaves:
  assumes "apart ls"
  shows "fold (write_leaf now aid com) ls rows =
    filter (\<lambda>r. \<not> (\<exists>l \<in> set ls. supersedes com aid (fst l) r)) rows @ map (leaf_row_of now aid com) ls"
  using assms
proof (induction ls arbitrary: rows)
  case (Cons l ls)
  have "\<forall>l' \<in> set ls. \<not> overlaps (fst l') (fst l)" using Cons.prems overlaps_sym by auto
  with Cons show ?case by (auto simp: write_leaf_def intro!: filter_cong)
qed simp

lemma find_artifact_touch:
  "find (\<lambda>r. ar_id r = a) (artifact_touch aid kind now rows) =
     (if a = aid then Some (case find (\<lambda>r. ar_id r = aid) rows of
          Some r \<Rightarrow> r\<lparr>ar_updated := now\<rparr>
        | None \<Rightarrow> \<lparr>ar_id = aid, ar_kind = kind, ar_created = now, ar_updated = now\<rparr>)
      else find (\<lambda>r. ar_id r = a) rows)"
proof -
  have m: "find (\<lambda>r. ar_id r = a) (map (\<lambda>r. if ar_id r = aid then r\<lparr>ar_updated := now\<rparr> else r) rows)
      = map_option (\<lambda>r. if ar_id r = aid then r\<lparr>ar_updated := now\<rparr> else r) (find (\<lambda>r. ar_id r = a) rows)"
    by (induction rows) auto
  have e: "list_ex (\<lambda>r. ar_id r = aid) rows \<longleftrightarrow> find (\<lambda>r. ar_id r = aid) rows \<noteq> None"
    by (induction rows) auto
  show ?thesis
    by (cases "find (\<lambda>r. ar_id r = a) rows"; cases "find (\<lambda>r. ar_id r = aid) rows")
      (auto simp: artifact_touch_def m e find_snoc_new dest: find_SomeD)
qed

lemma touch_ids: "map ar_id (artifact_touch aid kind now rows) =
    map ar_id rows @ (if aid \<in> ar_id ` set rows then [] else [aid])"
  by (auto simp: artifact_touch_def list_ex_iff)

lemma emit_artifact_sel [simp]:
  "as_kinds (emit_artifact sink ev A) = as_kinds A" "as_artifacts (emit_artifact sink ev A) = as_artifacts A"
  "as_leaves (emit_artifact sink ev A) = as_leaves A" "as_version (emit_artifact sink ev A) = as_version A"
  by (simp_all add: emit_artifact_def)

lemma reject_sel [simp]:
  "as_kinds (reject sink e k a A) = as_kinds A" "as_artifacts (reject sink e k a A) = as_artifacts A"
  "as_leaves (reject sink e k a A) = as_leaves A"
  by (simp_all add: reject_def)

lemma propose_rejected:
  assumes "propose C sink resolves fresh now kind delta cites artifact_id A = (Inl e, A')"
  shows "as_kinds A' = as_kinds A" "as_artifacts A' = as_artifacts A" "as_leaves A' = as_leaves A"
  using assms unfolding propose_def Let_def by (auto split: sum.splits if_splits)

lemma propose_accepted:
  assumes "propose C sink resolves fresh now kind delta cites artifact_id A = (Inr res, A')"
  obtains m leaves where "dict_get (as_kinds A) kind = Some m" "flatten C m [] delta = Inr leaves"
    "stray_cites cites leaves = []" "unresolved_cites resolves cites = []"
    "rs_artifact res = (case artifact_id of Some i \<Rightarrow> i | None \<Rightarrow> ARTIFACT_ID_PREFIX @ fresh)"
    "rs_committed res = committed_of cites leaves"
    "rs_provisional res = map fst (filter (\<lambda>(p, _). dict_get cites (KStr p) = None) leaves)"
    "find_artifact (rs_artifact res) A = None
       \<or> (\<exists>r. find_artifact (rs_artifact res) A = Some r \<and> ar_kind r = kind)"
    "as_kinds A' = as_kinds A"
    "as_artifacts A' = artifact_touch (rs_artifact res) kind now (as_artifacts A)"
    "as_leaves A' = fold (write_leaf now (rs_artifact res) (committed_of cites leaves)) leaves (as_leaves A)"
  using assms unfolding propose_def check_proposal_def Let_def
  by (auto split: sum.splits if_splits option.splits)

lemma map_of_committed:
  "dict_get (committed_of cites leaves) p = (if p \<in> fst ` set leaves then cite_at cites p else None)"
proof (induction leaves)
  case (Cons l leaves)
  have "committed_of cites (l # leaves)
      = (case cite_at cites (fst l) of None \<Rightarrow> [] | Some t \<Rightarrow> [(fst l, t)]) @ committed_of cites leaves"
    by (cases l) (simp add: committed_of_def split: option.split)
  with Cons show ?case by (cases "cite_at cites (fst l)") (auto simp del: image_iff)
qed (simp add: committed_of_def)

lemma cite_resolves:
  assumes "unresolved_cites resolves cites = []" "cite_at cites p = Some t"
  shows "resolves t"
proof -
  have "(KStr p, CiteStr t) \<in> set cites"
    using assms(2) by (auto simp: cite_at_def split: option.splits cite.splits dest: map_of_SomeD)
  moreover have "filter (\<lambda>(_, c). case c of CiteStr t \<Rightarrow> \<not> resolves t | CiteOther \<Rightarrow> True) cites = []"
    using assms(1) by (metis (no_types, lifting) length_0_conv length_map length_sort unresolved_cites_def)
  ultimately show ?thesis by (auto simp: filter_empty_conv)
qed

lemma propose_inv:
  assumes inv: "store_inv resolves A" and d: "delta_ok delta"
  shows "store_inv resolves (snd (propose C sink resolves fresh now kind delta cites artifact_id A))"
proof -
  obtain r A' where run: "propose C sink resolves fresh now kind delta cites artifact_id A = (r, A')" by fastforce
  show ?thesis
  proof (cases r)
    case (Inl e)
    note same = propose_rejected[OF run[unfolded Inl]]
    have "leaf_ok resolves A' = leaf_ok resolves A" by (rule ext) (simp add: leaf_ok_def find_artifact_def same)
    then show ?thesis using inv by (simp add: run store_inv_def same)
  next
    case (Inr res)
    obtain m leaves where p: "flatten C m [] delta = Inr leaves" "unresolved_cites resolves cites = []"
        "as_artifacts A' = artifact_touch (rs_artifact res) kind now (as_artifacts A)"
      and w: "as_leaves A' = fold (write_leaf now (rs_artifact res) (committed_of cites leaves)) leaves (as_leaves A)"
      using propose_accepted[OF run[unfolded Inr]] by metis
    let ?com = "committed_of cites leaves" and ?aid = "rs_artifact res"
    note ap = flatten_apart[OF p(1) d]
    note w = w[unfolded write_leaves[OF ap(1)]]
    have fa: "find_artifact a A' \<noteq> None \<longleftrightarrow> a = ?aid \<or> find_artifact a A \<noteq> None" for a
      by (simp add: find_artifact_def p(3) find_artifact_touch)
    have "list_all (leaf_ok resolves A') (as_leaves A')"
      unfolding w list_all_append
    proof
      show "list_all (leaf_ok resolves A') (filter (\<lambda>r. \<not> (\<exists>l \<in> set leaves. supersedes ?com ?aid (fst l) r)) (as_leaves A))"
        using inv fa by (auto simp: store_inv_def list_all_iff leaf_ok_def)
      show "list_all (leaf_ok resolves A') (map (leaf_row_of now ?aid ?com) leaves)"
        using ap(2) fa cite_resolves[OF p(2)]
        by (auto simp: list_all_iff leaf_ok_def map_of_committed split: if_splits)
    qed
    moreover have "sorted_wrt rows_apart (as_leaves A')"
      unfolding w sorted_wrt_append
    proof (intro conjI ballI)
      show "sorted_wrt rows_apart (filter (\<lambda>r. \<not> (\<exists>l \<in> set leaves. supersedes ?com ?aid (fst l) r)) (as_leaves A))"
        using inv by (simp add: store_inv_def sorted_wrt_filter)
      show "sorted_wrt rows_apart (map (leaf_row_of now ?aid ?com) leaves)"
        using ap(1) by (auto simp: sorted_wrt_map rows_apart_def elim: sorted_wrt_mono_rel[rotated])
      fix x y assume "x \<in> set (filter (\<lambda>r. \<not> (\<exists>l \<in> set leaves. supersedes ?com ?aid (fst l) r)) (as_leaves A))"
        and "y \<in> set (map (leaf_row_of now ?aid ?com) leaves)"
      then show "rows_apart x y"
        by (auto simp: rows_apart_def supersedes_def overlaps_sym[of "lf_path x"] split: if_splits)
    qed
    moreover have "distinct (map ar_id (as_artifacts A'))"
      using inv by (auto simp: store_inv_def p(3) touch_ids)
    ultimately show ?thesis by (simp add: run store_inv_def)
  qed
qed

subsection \<open>Looking up leaves\<close>

definition leaf_in :: "string \<Rightarrow> field_state \<Rightarrow> string \<Rightarrow> leaf_row list \<Rightarrow> (json \<times> string option) option" where
  "leaf_in a st q rows = map_option (\<lambda>r. (lf_value r, lf_cite r))
     (find (\<lambda>r. lf_artifact r = a \<and> lf_state r = st \<and> lf_path r = q) rows)"

definition superseded_at :: "(string, string) dict \<Rightarrow> (string, json) dict \<Rightarrow> field_state \<Rightarrow> string \<Rightarrow> bool" where
  "superseded_at com ls st q \<longleftrightarrow>
     (\<exists>p \<in> fst ` set ls. (dict_get com p \<noteq> None \<or> st = Provisional) \<and> overlaps p q)"

definition state_in :: "(string, string) dict \<Rightarrow> string \<Rightarrow> field_state" where
  "state_in com p = (if dict_get com p = None then Provisional else Committed)"

text \<open>What a lookup finds after the leaves were written.\<close>

lemma leaf_in_written:
  assumes "apart ls"
  shows "leaf_in a st q (fold (write_leaf now aid com) ls rows) =
    (if a = aid \<and> state_in com q = st \<and> dict_get ls q \<noteq> None then Some (the (dict_get ls q), dict_get com q)
     else if a = aid \<and> superseded_at com ls st q then None
     else leaf_in a st q rows)"
proof -
  let ?P = "\<lambda>r. lf_artifact r = a \<and> lf_state r = st \<and> lf_path r = q"
  have old: "find ?P (filter (\<lambda>r. \<not> (\<exists>l \<in> set ls. supersedes com aid (fst l) r)) rows)
      = (if \<not> (a = aid \<and> superseded_at com ls st q) then find ?P rows else None)"
    by (rule find_filter) (auto simp: supersedes_def superseded_at_def)
  have "find (\<lambda>l. ?P (leaf_row_of now aid com l)) ls
      = (if a = aid \<and> state_in com q = st then map_option (Pair q) (dict_get ls q) else None)"
  proof -
    have e: "?P (leaf_row_of now aid com l) \<longleftrightarrow> a = aid \<and> state_in com q = st \<and> fst l = q" for l
      by (auto simp: state_in_def)
    show ?thesis unfolding e by (induction ls) auto
  qed
  then have new: "find ?P (map (leaf_row_of now aid com) ls) =
      (if a = aid \<and> state_in com q = st then map_option (\<lambda>v. leaf_row_of now aid com (q, v)) (dict_get ls q) else None)"
    unfolding find_map by (auto simp: option.map_comp o_def)
  have sup: "superseded_at com ls st q" if "state_in com q = st" "dict_get ls q = Some v" for v
    using that map_of_SomeD[OF that(2)] unfolding superseded_at_def state_in_def
    by (intro bexI[of _ q]) (auto split: if_splits intro: rev_image_eqI)
  show ?thesis
    unfolding leaf_in_def write_leaves[OF assms] find_append old new
    using sup by (auto split: option.splits)
qed

lemma apart_unique:
  assumes "apart ls" "p \<in> fst ` set ls" "p' \<in> fst ` set ls" "overlaps p p'"
  shows "p = p'"
proof (rule ccontr)
  assume ne: "p \<noteq> p'"
  obtain i j where ij: "i < length ls" "fst (ls ! i) = p" "j < length ls" "fst (ls ! j) = p'"
    using assms(2,3) by (auto simp: in_set_conv_nth)
  with ne have "i < j \<or> j < i" by (metis linorder_neqE_nat)
  then show False using assms(1,4) ij overlaps_sym unfolding sorted_wrt_iff_nth_less by blast
qed

subsection \<open>Properties\<close>

lemma propose_spec:
  assumes delta: "delta_ok delta"
    and run: "propose C sink resolves fresh now kind delta cites artifact_id A = (r, A')"
  shows "case r of
      Inl e \<Rightarrow> as_kinds A' = as_kinds A \<and> as_artifacts A' = as_artifacts A \<and> as_leaves A' = as_leaves A
    | Inr res \<Rightarrow>
        (\<exists>m leaves. dict_get (as_kinds A) kind = Some m \<and> flatten C m [] delta = Inr leaves
          \<and> kind_of (rs_artifact res) A' = Inr kind
          \<and> (\<forall>p v. (p, v) \<in> set leaves \<longrightarrow>
              (case cite_at cites p of
                 Some t \<Rightarrow> resolves t
                   \<and> leaf_in (rs_artifact res) Committed p (as_leaves A') = Some (v, Some t)
                   \<and> leaf_in (rs_artifact res) Provisional p (as_leaves A') = None
               | None \<Rightarrow>
                   leaf_in (rs_artifact res) Provisional p (as_leaves A') = Some (v, None)
                   \<and> leaf_in (rs_artifact res) Committed p (as_leaves A')
                       = leaf_in (rs_artifact res) Committed p (as_leaves A)))
          \<and> (\<forall>a st q. a \<noteq> rs_artifact res \<or> (\<forall>p \<in> fst ` set leaves. \<not> overlaps p q) \<longrightarrow>
              leaf_in a st q (as_leaves A') = leaf_in a st q (as_leaves A)))"
proof (cases r)
  case (Inl e)
  then show ?thesis using propose_rejected run by fastforce
next
  case (Inr res)
  let ?aid = "rs_artifact res"
  obtain m leaves where p: "dict_get (as_kinds A) kind = Some m" "flatten C m [] delta = Inr leaves"
      "unresolved_cites resolves cites = []"
      "find_artifact ?aid A = None \<or> (\<exists>r. find_artifact ?aid A = Some r \<and> ar_kind r = kind)"
      "as_artifacts A' = artifact_touch ?aid kind now (as_artifacts A)"
    and w: "as_leaves A' = fold (write_leaf now ?aid (committed_of cites leaves)) leaves (as_leaves A)"
    using propose_accepted[OF run[unfolded Inr]] by metis
  note ap = flatten_apart(1)[OF p(2) delta]
  note look = leaf_in_written[OF ap, of _ _ _ now ?aid "committed_of cites leaves" "as_leaves A", folded w]
  have k: "kind_of ?aid A' = Inr kind"
    using p(4) by (auto simp: kind_of_def find_artifact_def p(5) find_artifact_touch)
  have leaf: "case cite_at cites q of
        Some t \<Rightarrow> resolves t \<and> leaf_in ?aid Committed q (as_leaves A') = Some (v, Some t)
          \<and> leaf_in ?aid Provisional q (as_leaves A') = None
      | None \<Rightarrow> leaf_in ?aid Provisional q (as_leaves A') = Some (v, None)
          \<and> leaf_in ?aid Committed q (as_leaves A') = leaf_in ?aid Committed q (as_leaves A)"
    if l: "(q, v) \<in> set leaves" for q v
  proof -
    have q: "q \<in> fst ` set leaves" using l by force
    have g: "dict_get leaves q = Some v" using l apart_distinct_keys[OF ap] by simp
    show ?thesis
    proof (cases "cite_at cites q")
      case None
      then have "dict_get (committed_of cites leaves) q = None" by (simp add: map_of_committed)
      moreover have "\<not> superseded_at (committed_of cites leaves) leaves Committed q"
        using calculation apart_unique[OF ap _ q] unfolding superseded_at_def
        by (metis (no_types) field_state.distinct(1))
      ultimately show ?thesis using None g by (simp add: look state_in_def)
    next
      case (Some t)
      then have c: "dict_get (committed_of cites leaves) q = Some t" using q by (simp add: map_of_committed)
      then have "superseded_at (committed_of cites leaves) leaves Provisional q"
        using q unfolding superseded_at_def by (intro bexI[of _ q]) simp_all
      with c show ?thesis using Some g cite_resolves[OF p(3) Some] by (simp add: look state_in_def)
    qed
  qed
  have frame: "leaf_in a st q (as_leaves A') = leaf_in a st q (as_leaves A)"
    if "a \<noteq> ?aid \<or> (\<forall>p \<in> fst ` set leaves. \<not> overlaps p q)" for a st q
  proof (cases "a = ?aid")
    case True
    with that have n: "\<forall>p \<in> fst ` set leaves. \<not> overlaps p q" by simp
    then have "q \<notin> fst ` set leaves" by force
    then have "dict_get leaves q = None" by (simp add: map_of_eq_None_iff)
    with n show ?thesis by (simp add: look superseded_at_def)
  qed (simp add: look)
  show ?thesis using Inr p(1,2) k leaf frame by auto
qed

text \<open>
  What a proposal does. A rejected one stores nothing. An accepted one is of a
  registered kind and fits its model; each cited leaf is committed with its value and its
  citation, which resolves, and clears a pending edit there; each uncited leaf is provisional
  and leaves the committed value at its path alone; leaves elsewhere, and every other artifact,
  are untouched.
\<close>

lemma propose_effect:
  assumes delta: "delta_ok delta"
    and run: "propose C sink resolves fresh now kind delta cites artifact_id A = (r, A')"
  shows "case r of
      Inl e \<Rightarrow> as_kinds A' = as_kinds A \<and> as_artifacts A' = as_artifacts A \<and> as_leaves A' = as_leaves A
    | Inr res \<Rightarrow>
        (\<exists>m leaves. dict_get (as_kinds A) kind = Some m \<and> flatten C m [] delta = Inr leaves
          \<and> kind_of (rs_artifact res) A' = Inr kind
          \<and> (\<forall>p v. (p, v) \<in> set leaves \<longrightarrow>
              (case cite_at cites p of
                 Some t \<Rightarrow> resolves t
                   \<and> leaf_in (rs_artifact res) Committed p (as_leaves A') = Some (v, Some t)
                   \<and> leaf_in (rs_artifact res) Provisional p (as_leaves A') = None
               | None \<Rightarrow>
                   leaf_in (rs_artifact res) Provisional p (as_leaves A') = Some (v, None)
                   \<and> leaf_in (rs_artifact res) Committed p (as_leaves A')
                       = leaf_in (rs_artifact res) Committed p (as_leaves A)))
          \<and> (\<forall>a st q. a \<noteq> rs_artifact res \<or> (\<forall>p \<in> fst ` set leaves. \<not> overlaps p q) \<longrightarrow>
              leaf_in a st q (as_leaves A') = leaf_in a st q (as_leaves A)))"
  using propose_spec[OF assms] .

subsection \<open>Grounded knowledge\<close>

text \<open>The facts and the artifacts over them, and the operations a host performs.\<close>

record 'm knowledge =
  kn_facts :: fact_store
  kn_artifacts :: "'m artifact_store"

definition grounded :: "fact_store \<Rightarrow> string \<Rightarrow> bool" where
  "grounded F t \<longleftrightarrow> fact_resolve t F \<noteq> None"

datatype 'm knowledge_op =
    RecordOp fact_request
  | ProposeOp string string string "'m pval" "(dkey, cite) dict" "string option"
  | KindOp string 'm bool

fun knowledge_step ::
  "('m::finite) classes \<Rightarrow> (fact_event \<Rightarrow> bool) \<Rightarrow> (artifact_event \<Rightarrow> bool) \<Rightarrow> 'm knowledge_op
     \<Rightarrow> 'm knowledge \<Rightarrow> 'm knowledge" where
  "knowledge_step C fsink asink (RecordOp q) K = K\<lparr>kn_facts := snd (fresh_record fsink q (kn_facts K))\<rparr>"
| "knowledge_step C fsink asink (ProposeOp fresh now kind delta cites aid) K =
     K\<lparr>kn_artifacts := snd (propose C asink (grounded (kn_facts K)) fresh now kind delta cites aid (kn_artifacts K))\<rparr>"
| "knowledge_step C fsink asink (KindOp name m replace) K =
     (case register_kind C name m replace (kn_artifacts K) of
        Inl _ \<Rightarrow> K
      | Inr A \<Rightarrow> K\<lparr>kn_artifacts := A\<rparr>)"

definition op_ok :: "'m knowledge_op \<Rightarrow> bool" where
  "op_ok op = (case op of ProposeOp _ _ _ delta _ _ \<Rightarrow> delta_ok delta | _ \<Rightarrow> True)"

definition knowledge_inv :: "'m knowledge \<Rightarrow> bool" where
  "knowledge_inv K \<longleftrightarrow> facts_inv (kn_facts K) \<and> store_inv (grounded (kn_facts K)) (kn_artifacts K)"

lemma store_inv_mono:
  assumes "store_inv P A" "\<And>t. P t \<Longrightarrow> Q t"
  shows "store_inv Q A"
  using assms by (auto simp: store_inv_def list_all_iff leaf_ok_def)

lemma store_inv_kinds:
  assumes "store_inv P A" "as_artifacts A' = as_artifacts A" "as_leaves A' = as_leaves A"
  shows "store_inv P A'"
  using assms by (auto simp: store_inv_def list_all_iff leaf_ok_def find_artifact_def)

lemma knowledge_step_inv:
  assumes inv: "knowledge_inv K" and ok: "op_ok op"
  shows "knowledge_inv (knowledge_step C fsink asink op K)"
proof (cases op)
  case (RecordOp q)
  have f: "facts_inv (kn_facts K)" using inv by (simp add: knowledge_inv_def)
  have i: "store_inv (grounded (kn_facts K)) (kn_artifacts K)" using inv by (simp add: knowledge_inv_def)
  have "store_inv (grounded (snd (fresh_record fsink q (kn_facts K)))) (kn_artifacts K)"
    by (rule store_inv_mono[OF i]) (use facts.record_keeps[OF f] in \<open>auto simp: grounded_def\<close>)
  then show ?thesis using facts.record_inv[OF f] by (simp add: RecordOp knowledge_inv_def)
next
  case (ProposeOp fresh now kind delta cites aid)
  then show ?thesis using inv ok propose_inv by (auto simp: knowledge_inv_def op_ok_def)
next
  case (KindOp name m replace)
  then show ?thesis
    using inv
    by (auto simp: knowledge_inv_def register_kind_def split: sum.splits option.splits if_splits
        intro: store_inv_kinds)
qed

lemma knowledge_run_inv:
  "knowledge_inv K \<Longrightarrow> list_all op_ok ops \<Longrightarrow> knowledge_inv (fold (knowledge_step C fsink asink) ops K)"
  by (induction ops arbitrary: K) (auto intro: knowledge_step_inv)

lemma view_nested:
  assumes "store_inv P A" "find_artifact aid A \<noteq> None"
  shows "\<exists>d. view st aid A = Inr d \<and> nested_from (map (\<lambda>r. (lf_path r, lf_value r)) (rows_of aid st A)) d"
proof -
  have "sorted_wrt rows_apart (rows_of aid st A)" using assms(1) by (simp add: store_inv_def rows_of_def sorted_wrt_filter)
  then have "sorted_wrt (\<lambda>r r'. \<not> overlaps (lf_path r) (lf_path r')) (rows_of aid st A)"
    by (rule sorted_wrt_mono_rel[rotated]) (auto simp: rows_apart_def rows_of_def)
  then have "apart (map (\<lambda>r. (lf_path r, lf_value r)) (rows_of aid st A))" by (simp add: sorted_wrt_map)
  from nest_nested[OF this] assms(2) show ?thesis by (simp add: view_def)
qed

text \<open>
  Claim C15: unearned knowledge is forbidden. After any history of records, proposals and kind
  registrations, the views of every artifact exist (nesting never fails on a parent and a
  child); every committed leaf has a citation, and the fact it cites resolves; the citations
  name exactly the leaves of the committed view: each has a value there, and whatever the view
  shows lies at, above or below a cited path.
\<close>

theorem committed_is_grounded:
  assumes "knowledge_inv K" and "list_all op_ok ops"
    and "K' = fold (knowledge_step C fsink asink) ops K"
    and "find_artifact aid (kn_artifacts K') \<noteq> None"
  shows "\<exists>d e cs. committed_view aid (kn_artifacts K') = Inr d \<and> provisional_view aid (kn_artifacts K') = Inr e
    \<and> citations aid (kn_artifacts K') = Inr cs \<and> sorted (map fst cs)
    \<and> (\<forall>p c. (p, c) \<in> set cs \<longrightarrow> (\<exists>t f. c = Some t \<and> fact_resolve t (kn_facts K') = Some f)
         \<and> get_path (segs p) (JDict d) = map_option fst (leaf_in aid Committed p (as_leaves (kn_artifacts K')))
         \<and> get_path (segs p) (JDict d) \<noteq> None)
    \<and> (\<forall>js v. js \<noteq> [] \<longrightarrow> get_path js (JDict d) = Some v \<longrightarrow>
         (\<exists>p \<in> fst ` set cs. prefix (segs p) js \<or> (strict_prefix js (segs p) \<and> (\<exists>e. v = JDict e))))"
proof -
  let ?A = "kn_artifacts K'" and ?P = "grounded (kn_facts K')"
  have inv: "store_inv ?P ?A"
    using knowledge_run_inv[OF assms(1,2)] assms(3) by (simp add: knowledge_inv_def)
  let ?R = "rows_of aid Committed ?A"
  obtain d where d: "committed_view aid ?A = Inr d" "nested_from (map (\<lambda>r. (lf_path r, lf_value r)) ?R) d"
    using view_nested[OF inv assms(4)] by (auto simp: committed_view_def)
  obtain e where e: "provisional_view aid ?A = Inr e"
    using view_nested[OF inv assms(4)] by (auto simp: provisional_view_def)
  let ?cs = "map (\<lambda>r. (lf_path r, lf_cite r)) (sort_key lf_path ?R)"
  have cs: "citations aid ?A = Inr ?cs" using assms(4) by (simp add: citations_def)
  have srt: "sorted (map fst ?cs)" by (simp add: o_def)
  have keys: "fst ` set ?cs = fst ` set (map (\<lambda>r. (lf_path r, lf_value r)) ?R)" by (auto simp: image_image)
  have row: "(\<exists>t f. lf_cite r = Some t \<and> fact_resolve t (kn_facts K') = Some f)
      \<and> get_path (segs (lf_path r)) (JDict d) = map_option fst (leaf_in aid Committed (lf_path r) (as_leaves ?A))
      \<and> get_path (segs (lf_path r)) (JDict d) \<noteq> None"
    if r: "r \<in> set ?R" for r
  proof -
    have rr: "r \<in> set (as_leaves ?A)" "lf_artifact r = aid" "lf_state r = Committed" using r by (auto simp: rows_of_def)
    then have ok: "leaf_ok ?P ?A r" using inv by (auto simp: store_inv_def list_all_iff)
    obtain x where x: "find (\<lambda>r'. lf_artifact r' = aid \<and> lf_state r' = Committed \<and> lf_path r' = lf_path r) (as_leaves ?A) = Some x"
      using rr by (metis (mono_tags, lifting) find_NoneD not_None_eq)
    then have "x \<in> set ?R" "lf_path x = lf_path r" by (auto simp: rows_of_def dest: find_SomeD)
    then have "get_path (segs (lf_path r)) (JDict d) = Some (lf_value x)"
      using d(2) unfolding nested_from_def by fastforce
    with x ok rr(3) show ?thesis by (auto simp: leaf_in_def leaf_ok_def grounded_def)
  qed
  show ?thesis
  proof (rule exI[of _ d], rule exI[of _ e], rule exI[of _ ?cs], intro conjI allI impI)
    show "committed_view aid ?A = Inr d" "provisional_view aid ?A = Inr e" "citations aid ?A = Inr ?cs" "sorted (map fst ?cs)"
      by (fact d(1) e cs srt)+
    fix p c assume "(p, c) \<in> set ?cs"
    then obtain r where r: "r \<in> set ?R" "p = lf_path r" "c = lf_cite r" by auto
    from row[OF r(1), folded r(2,3)] show "\<exists>t f. c = Some t \<and> fact_resolve t (kn_facts K') = Some f"
      "get_path (segs p) (JDict d) = map_option fst (leaf_in aid Committed p (as_leaves ?A))"
      "get_path (segs p) (JDict d) \<noteq> None" by blast+
  next
    fix js v assume "js \<noteq> []" "get_path js (JDict d) = Some v"
    from nested_from_above[OF d(2) this] keys
    show "\<exists>p \<in> fst ` set ?cs. prefix (segs p) js \<or> (strict_prefix js (segs p) \<and> (\<exists>e. v = JDict e))" by metis
  qed
qed

text \<open>\<open>walks C m m'\<close>: the leaf walk descends from a field of \<open>m\<close> into \<open>m'\<close>.\<close>

definition walks :: "'m classes \<Rightarrow> 'm \<Rightarrow> 'm \<Rightarrow> bool" where
  "walks C m m' \<longleftrightarrow> (\<exists>(name, f) \<in> set (pd_fields (cls C m)). walk_target C m name f = Some m')"

lemma walked_sub:
  fixes C :: "('m::finite) classes"
  assumes "m \<notin> seen" "walks C m m'"
  shows "\<exists>pre'. set (walked_models C m' pre' (insert m seen)) \<subseteq> set (walked_models C m pre seen)"
proof -
  obtain name f where nf: "(name, f) \<in> set (pd_fields (cls C m))" "walk_target C m name f = Some m'"
    using assms(2) by (auto simp: walks_def)
  then have "set (walked_models C m' (pre @ name @ ''.'') (insert m seen)) \<subseteq> set (walked_models C m pre seen)"
    using assms(1) unfolding walked_models.simps[of C m pre seen] by force
  then show ?thesis by blast
qed

lemma walked_models_sound:
  fixes C :: "('m::finite) classes"
  shows "(q, m') \<in> set (walked_models C m pre seen) \<Longrightarrow> (walks C)\<^sup>*\<^sup>* m m'"
proof (induction C m pre seen arbitrary: q rule: walked_models.induct)
  case (1 C m pre seen)
  show ?case
  proof (cases "m' = m")
    case False
    with "1.prems" have s: "m \<notin> seen" unfolding walked_models.simps[of C m pre seen] by (auto split: if_splits)
    from False "1.prems" obtain name f sub where sub: "(name, f) \<in> set (pd_fields (cls C m))"
        "walk_target C m name f = Some sub" "(q, m') \<in> set (walked_models C sub (pre @ name @ ''.'') (insert m seen))"
      unfolding walked_models.simps[of C m pre seen] by (auto split: if_splits option.splits) metis
    have "walks C m sub" using sub(1,2) by (auto simp: walks_def)
    then show ?thesis using "1.IH"[OF s sub(1) refl sub(2,3)] by (rule converse_rtranclp_into_rtranclp)
  qed simp
qed

lemma walked_models_complete:
  fixes C :: "('m::finite) classes"
  shows "rtrancl_path (walks C) m xs m' \<Longrightarrow> distinct (m # xs) \<Longrightarrow> set (butlast (m # xs)) \<inter> seen = {}
    \<Longrightarrow> m' \<in> snd ` set (walked_models C m pre seen)"
proof (induction arbitrary: pre seen rule: rtrancl_path.induct)
  case (base x)
  show ?case by (subst walked_models.simps) simp
next
  case (step x y ys z)
  have "x \<notin> seen" using step.prems(2) by auto
  then obtain pre' where "set (walked_models C y pre' (insert x seen)) \<subseteq> set (walked_models C x pre seen)"
    using walked_sub[OF _ step.hyps(1)] by blast
  moreover have "x \<notin> set (butlast (y # ys))" using step.prems(1) by (metis distinct.simps(2) in_set_butlastD)
  then have "z \<in> snd ` set (walked_models C y pre' (insert x seen))"
    using step.prems by (intro step.IH) auto
  ultimately show ?case by blast
qed

lemma walked_models_reachable:
  fixes C :: "('m::finite) classes"
  shows "snd ` set (walked_models C m pre {}) = {m'. (walks C)\<^sup>*\<^sup>* m m'}"
proof (intro equalityI subsetI)
  fix m' assume "m' \<in> {m'. (walks C)\<^sup>*\<^sup>* m m'}"
  then obtain xs where "rtrancl_path (walks C) m xs m'" by (auto simp: rtranclp_eq_rtrancl_path)
  then obtain ys where "rtrancl_path (walks C) m ys m'" "distinct (m # ys)" by (rule rtrancl_path_distinct)
  then show "m' \<in> snd ` set (walked_models C m pre {})" using walked_models_complete by blast
qed (auto dest: walked_models_sound)

text \<open>
  A kind is accepted exactly when it has a name, no model the leaf walk can reach
  from it, by any chain of nested fields and through recursive models, has a cross-field
  validator, and its name is free, has the same model already or is to be replaced; then it
  is registered and nothing else changes.
\<close>

lemma register_kind_iff:
  fixes C :: "('m::finite) classes"
  shows "register_kind C name m replace A = Inr A' \<longleftrightarrow>
    name \<noteq> [] \<and> {m'. (walks C)\<^sup>*\<^sup>* m m' \<and> pd_model_validators (cls C m')} = {}
    \<and> (dict_get (as_kinds A) name \<in> {None, Some m} \<or> replace)
    \<and> A' = A\<lparr>as_kinds := dict_set (as_kinds A) name m\<rparr>"
proof -
  have "list_ex (\<lambda>(_, sub). pd_model_validators (cls C sub)) (walked_models C m [] {})
      \<longleftrightarrow> (\<exists>m' \<in> snd ` set (walked_models C m [] {}). pd_model_validators (cls C m'))"
    unfolding list_ex_iff by force
  then have "list_ex (\<lambda>(_, sub). pd_model_validators (cls C sub)) (walked_models C m [] {})
      \<longleftrightarrow> (\<exists>m'. (walks C)\<^sup>*\<^sup>* m m' \<and> pd_model_validators (cls C m'))"
    by (simp only: walked_models_reachable) blast
  then show ?thesis by (auto simp: register_kind_def split: option.splits)
qed

subsection \<open>Witnesses\<close>

definition sample_leaf :: "string \<Rightarrow> bool pval \<Rightarrow> (unit, json) py" where
  "sample_leaf k v = (case v of PVal j \<Rightarrow> Inr j | _ \<Rightarrow> Inl ())"

text \<open>A host with a name and a nested address with a city.\<close>

definition sample_classes :: "bool classes" where
  "sample_classes = \<lparr>cls = (\<lambda>m. \<lparr>pd_fields =
       (if m then [(''name'', \<lparr>fd_annotation = OtherA, fd_metadata = False\<rparr>),
                   (''addr'', \<lparr>fd_annotation = UnionA [ModelA False, NoneA], fd_metadata = False\<rparr>)]
        else [(''city'', \<lparr>fd_annotation = OtherA, fd_metadata = False\<rparr>)]),
       pd_field_validators = [], pd_field_serializers = [], pd_model_validators = False,
       pd_leaf = sample_leaf, pd_validate = (\<lambda>j. Inr (PVal j))\<rparr>),
     isa = (\<lambda>a b. a = b)\<rparr>"

definition sample_delta :: "bool pval" where
  "sample_delta = PDict [(KStr ''name'', PVal (JStr ''x'')), (KStr ''addr'', PDict [(KStr ''city'', PVal (JStr ''y''))])]"

definition sample_cites :: "(dkey, cite) dict" where
  "sample_cites = [(KStr ''addr.city'', CiteStr ''fact-1'')]"

definition empty_artifacts :: "bool artifact_store" where
  "empty_artifacts = \<lparr>as_version = 1, as_kinds = [], as_artifacts = [], as_leaves = [], as_trace = []\<rparr>"

definition sample_ops :: "bool knowledge_op list" where
  "sample_ops = [RecordOp (sample_request\<lparr>fq_ref := [1]\<rparr>), KindOp ''host'' True False,
     ProposeOp ''1'' ''t'' ''host'' sample_delta sample_cites (Some ''a'')]"

lemma propose_effect_witness:
  "leaf_in ''a'' Committed ''addr.city'' (as_leaves (snd (propose sample_classes (\<lambda>_. True) (\<lambda>_. True) ''1'' ''t'' ''host''
      sample_delta sample_cites (Some ''a'') (empty_artifacts\<lparr>as_kinds := [(''host'', True)]\<rparr>))))
    = Some (JStr ''y'', Some ''fact-1'')"
proof -
  let ?run = "propose sample_classes (\<lambda>_. True) (\<lambda>_. True) ''1'' ''t'' ''host''
      sample_delta sample_cites (Some ''a'') (empty_artifacts\<lparr>as_kinds := [(''host'', True)]\<rparr>)"
  have d: "delta_ok sample_delta" by (simp add: sample_delta_def)
  have r: "fst ?run = Inr \<lparr>rs_artifact = ''a'', rs_kind = ''host'',
      rs_committed = [(''addr.city'', ''fact-1'')], rs_provisional = [''name'']\<rparr>" by code_simp
  have f: "flatten sample_classes True [] sample_delta = Inr [(''name'', JStr ''x''), (''addr.city'', JStr ''y'')]"
    by code_simp
  have c: "cite_at sample_cites ''addr.city'' = Some ''fact-1''" by code_simp
  from propose_effect[OF d prod.collapse[symmetric, of ?run], unfolded r] f c show ?thesis
    by (auto simp: empty_artifacts_def)
qed

lemma committed_is_grounded_witness:
  "\<exists>d. committed_view ''a'' (kn_artifacts (fold (knowledge_step sample_classes (\<lambda>_. True) (\<lambda>_. True)) sample_ops
     \<lparr>kn_facts = sample_facts, kn_artifacts = empty_artifacts\<rparr>)) = Inr d"
proof -
  let ?K = "\<lparr>kn_facts = sample_facts, kn_artifacts = empty_artifacts\<rparr>"
  have i: "knowledge_inv ?K"
    by (simp add: knowledge_inv_def facts_inv_def sample_facts_def store_inv_def empty_artifacts_def)
  have o: "list_all op_ok sample_ops" by (simp add: sample_ops_def op_ok_def sample_delta_def)
  let ?F = "\<lparr>fs_version = 2, fs_rows = [\<lparr>ft_id = ''fact-1'', ft_kind = ''user'', ft_ref = [1],
      ft_span = None, ft_value = JInt 4, ft_created = ''t''\<rparr>],
    fs_trace = [\<lparr>fe_id = ''fact-1'', fe_kind = ''user'', fe_ref = [1], fe_span = None\<rparr>]\<rparr>"
  have f: "snd (fresh_record (\<lambda>_. True) (sample_request\<lparr>fq_ref := [1]\<rparr>) sample_facts) = ?F"
    by (simp add: fresh_record_def fact_record_def sample_request_def sample_facts_def SOURCE_KINDS_def
        fact_of_def scalar_def Let_def)
  have "find_artifact ''a'' (kn_artifacts (fold (knowledge_step sample_classes (\<lambda>_. True) (\<lambda>_. True))
      (tl sample_ops) \<lparr>kn_facts = ?F, kn_artifacts = empty_artifacts\<rparr>)) \<noteq> None" by code_simp
  then have a: "find_artifact ''a'' (kn_artifacts (fold (knowledge_step sample_classes (\<lambda>_. True) (\<lambda>_. True)) sample_ops ?K)) \<noteq> None"
    by (simp add: sample_ops_def f del: One_nat_def not_None_eq)
  from committed_is_grounded[OF i o refl a] show ?thesis by (elim exE conjE) (rule exI)
qed

end
