(* ===== verification/Clarify.thy ===== *)
theory Clarify
  imports Artifacts
begin

text \<open>
  Clarification, \<open>nanobot/kernel/clarify.py\<close>: a draft value is committed with the cited known value
  or asked about, and an answer is recorded as a user fact before it is committed; and the facade
  over facts, artifacts and clarification, \<open>nanobot/kernel/epistemics.py\<close>. The classifier of a host,
  \<open>str.casefold\<close> and \<open>repr\<close> of a value are arguments.
\<close>

subsection \<open>Divergences\<close>

record divergence =
  dv_kind :: string
  dv_artifact :: string
  dv_path :: string
  dv_proposed :: json
  dv_known :: json
  dv_trace :: "string option"

record question =
  qn_kind :: string
  qn_artifact :: string
  qn_path :: string
  qn_prompt :: string
  qn_proposed :: json
  qn_known :: json
  qn_trace :: "string option"

record commit_ready =
  cr_kind :: string
  cr_artifact :: string
  cr_path :: string
  cr_value :: json
  cr_cite :: string

datatype resolution = Ask question | Commit commit_ready

datatype 'x clarify_error = ClarifyValueError | ClassifierRaised 'x

text \<open>\<open>Divergence.__post_init__\<close>.\<close>

definition check_divergence :: "divergence \<Rightarrow> ('x clarify_error, divergence) py" where
  "check_divergence d =
     (if dv_kind d = [] \<or> dv_artifact d = [] \<or> dv_path d = [] \<or> [] \<in> set (segs (dv_path d))
         \<or> dv_trace d = Some []
      then Inl ClarifyValueError else Inr d)"

definition has_known :: "divergence \<Rightarrow> bool" where
  "has_known d \<longleftrightarrow> dv_trace d \<noteq> None"

text \<open>\<open>" ".join(value.split())\<close> is \<open>join_with\<close> over \<open>split_ws\<close>.\<close>

fun normalise :: "(string \<Rightarrow> string) \<Rightarrow> json \<Rightarrow> json" where
  "normalise casefold (JStr s) = JStr (casefold (join_with '' '' (split_ws [] s)))"
| "normalise casefold (JList vs) = JList (map (normalise casefold) vs)"
| "normalise casefold (JDict kvs) = JDict (map (\<lambda>(k, v). (k, normalise casefold v)) kvs)"
| "normalise casefold v = v"

definition canonical :: "(string \<Rightarrow> string) \<Rightarrow> json \<Rightarrow> string" where
  "canonical casefold v = json_text True (normalise casefold v)"

text \<open>What a classifier returns: one of the two labels, or anything else.\<close>

datatype label = Minor | Semantic | OtherLabel

type_synonym 'x classifier = "divergence \<Rightarrow> ('x, label) py"

definition default_classifier :: "(string \<Rightarrow> string) \<Rightarrow> 'x classifier" where
  "default_classifier casefold d =
     Inr (if \<not> has_known d then Semantic
          else if canonical casefold (dv_known d) = canonical casefold (dv_proposed d) then Minor
          else Semantic)"

definition question_of :: "(json \<Rightarrow> string) \<Rightarrow> divergence \<Rightarrow> question" where
  "question_of repr d =
     \<lparr>qn_kind = dv_kind d, qn_artifact = dv_artifact d, qn_path = dv_path d,
      qn_prompt =
        (if has_known d
         then ''For '' @ dv_path d @ '', the source says '' @ repr (dv_known d) @ '' but the draft has ''
              @ repr (dv_proposed d) @ ''. Which is correct?''
         else ''For '' @ dv_path d @ '', the draft has '' @ repr (dv_proposed d)
              @ '' but no source supports it. Is it correct?''),
      qn_proposed = dv_proposed d, qn_known = dv_known d, qn_trace = dv_trace d\<rparr>"

definition resolve_divergence ::
  "(json \<Rightarrow> string) \<Rightarrow> 'x classifier \<Rightarrow> divergence \<Rightarrow> ('x clarify_error, resolution) py" where
  "resolve_divergence repr classify d =
     (case dv_trace d of
        None \<Rightarrow> Inr (Ask (question_of repr d))
      | Some t \<Rightarrow>
          (case classify d of
             Inl x \<Rightarrow> Inl (ClassifierRaised x)
           | Inr OtherLabel \<Rightarrow> Inl ClarifyValueError
           | Inr Semantic \<Rightarrow> Inr (Ask (question_of repr d))
           | Inr Minor \<Rightarrow> Inr (Commit \<lparr>cr_kind = dv_kind d, cr_artifact = dv_artifact d,
               cr_path = dv_path d, cr_value = dv_known d, cr_cite = t\<rparr>)))"

subsection \<open>Committing\<close>

text \<open>\<open>_nest\<close>: the delta that holds one value at a path; a JSON object is a dict to the leaf walk.\<close>

fun pval_of :: "json \<Rightarrow> 'm pval" where
  "pval_of (JDict kvs) = PDict (map (\<lambda>(k, v). (KStr k, pval_of v)) kvs)"
| "pval_of v = PVal v"

definition nest_value :: "string \<Rightarrow> 'm pval \<Rightarrow> 'm pval" where
  "nest_value path v = foldr (\<lambda>seg out. PDict [(KStr seg, out)]) (segs path) v"

definition cr_delta :: "commit_ready \<Rightarrow> 'm pval" where
  "cr_delta c = nest_value (cr_path c) (pval_of (cr_value c))"

definition cr_cites :: "commit_ready \<Rightarrow> (dkey, cite) dict" where
  "cr_cites c = [(KStr (cr_path c), CiteStr (cr_cite c))]"

datatype answer_error = FactError fact_error | ArtifactError artifact_error

text \<open>\<open>record_answer\<close>: first the user fact, then the proposal that cites it. \<open>fresh\<close> and \<open>now\<close> are those
  of the fact, \<open>time\<close> is the proposal's.\<close>

record answer_env =
  an_fact_sink :: "fact_event \<Rightarrow> bool"
  an_sink :: "artifact_event \<Rightarrow> bool"
  an_fresh :: string
  an_now :: string
  an_time :: string

definition answer_fact :: "answer_env \<Rightarrow> json \<Rightarrow> ustr \<Rightarrow> fact_request" where
  "answer_fact E answer turn_ref = \<lparr>fq_kind = ''user'', fq_ref = turn_ref, fq_value = answer, fq_span = None,
     fq_fresh = an_fresh E, fq_now = an_now E\<rparr>"

definition record_answer ::
  "'m classes \<Rightarrow> answer_env \<Rightarrow> question \<Rightarrow> json \<Rightarrow> ustr \<Rightarrow> 'm knowledge
     \<Rightarrow> (answer_error, artifact_result) py \<times> 'm knowledge" where
  "record_answer C E q answer turn_ref K =
     (case fresh_record (an_fact_sink E) (answer_fact E answer turn_ref) (kn_facts K) of
        (Inl e, F) \<Rightarrow> (Inl (FactError e), K\<lparr>kn_facts := F\<rparr>)
      | (Inr t, F) \<Rightarrow>
          (case propose C (an_sink E) (grounded F) (an_fresh E) (an_time E) (qn_kind q)
                  (nest_value (qn_path q) (pval_of answer)) [(KStr (qn_path q), CiteStr t)]
                  (Some (qn_artifact q)) (kn_artifacts K) of
             (Inl e, A) \<Rightarrow> (Inl (ArtifactError e), K\<lparr>kn_facts := F, kn_artifacts := A\<rparr>)
           | (Inr res, A) \<Rightarrow> (Inr res, K\<lparr>kn_facts := F, kn_artifacts := A\<rparr>)))"

subsection \<open>Properties\<close>

fun json_keys_ok :: "json \<Rightarrow> bool" where
  "json_keys_ok (JDict kvs) \<longleftrightarrow> distinct (map fst kvs) \<and> (\<forall>(k, v) \<in> set kvs. json_keys_ok v)"
| "json_keys_ok v \<longleftrightarrow> True"

lemma delta_ok_pval_of: "json_keys_ok v \<Longrightarrow> delta_ok (pval_of v)"
proof (induction v rule: pval_of.induct)
  case (1 kvs)
  have e: "map fst (map (\<lambda>(k, v). (KStr k, pval_of v)) kvs) = map KStr (map fst kvs)"
    by (induction kvs) auto
  have "distinct (map KStr (map fst kvs))"
    using "1.prems" by (simp only: distinct_map[of KStr]) (simp add: inj_on_def)
  then have "distinct (map fst (map (\<lambda>(k, v). (KStr k, pval_of v)) kvs))" by (simp only: e)
  with 1 show ?case by auto
qed simp_all

lemma delta_ok_nest_value: "delta_ok v \<Longrightarrow> delta_ok (nest_value path v)"
proof -
  have "delta_ok v \<Longrightarrow> delta_ok (foldr (\<lambda>seg out. PDict [(KStr seg, out)]) ss v)" for ss by (induction ss) auto
  then show "delta_ok v \<Longrightarrow> delta_ok (nest_value path v)" by (simp add: nest_value_def)
qed

text \<open>
  A draft never becomes knowledge by itself. A divergence commits exactly when a source
  is known and the classifier says the difference is minor, and then the committed value and
  citation are the known ones; it asks exactly when nothing is known, whatever the classifier
  would say, or the classifier says so; every other label and every exception ends in an error.
  The default classifier never fails and calls minor exactly what is equal up to its
  normalisation.
\<close>

lemma clarify_commits_known:
  "(resolve_divergence repr classify d = Inr (Commit c)
      \<longleftrightarrow> (\<exists>t. dv_trace d = Some t \<and> classify d = Inr Minor
            \<and> c = \<lparr>cr_kind = dv_kind d, cr_artifact = dv_artifact d, cr_path = dv_path d,
                    cr_value = dv_known d, cr_cite = t\<rparr>))
   \<and> (resolve_divergence repr classify d = Inr (Ask q)
      \<longleftrightarrow> (dv_trace d = None \<or> classify d = Inr Semantic) \<and> q = question_of repr d)
   \<and> ((\<exists>e. resolve_divergence repr classify d = Inl e)
      \<longleftrightarrow> dv_trace d \<noteq> None \<and> classify d \<notin> {Inr Minor, Inr Semantic})
   \<and> (resolve_divergence repr (default_classifier casefold) d
      = (if dv_trace d \<noteq> None \<and> canonical casefold (dv_known d) = canonical casefold (dv_proposed d)
         then Inr (Commit \<lparr>cr_kind = dv_kind d, cr_artifact = dv_artifact d, cr_path = dv_path d,
                    cr_value = dv_known d, cr_cite = the (dv_trace d)\<rparr>)
         else Inr (Ask (question_of repr d))))"
  by (auto simp: resolve_divergence_def default_classifier_def has_known_def
      split: option.splits sum.splits label.splits)

text \<open>
  An answer is recorded before it is committed. When the fact is refused nothing
  changes; when the answer does not fit the artifact the user fact stays and the artifacts are
  untouched; when it is accepted, the leaf of the question holds a value that cites the new
  fact, which resolves to the answer as given, by the user, in that turn. In each case the
  stores stay well-formed.
\<close>

lemma answer_recorded_before_commit:
  fixes C :: "('m::finite) classes"
  assumes inv: "knowledge_inv K" and keys: "json_keys_ok answer"
    and run: "record_answer C E q answer turn_ref K = (r, K')"
  shows "knowledge_inv K' \<and>
    (case r of
       Inl (FactError e) \<Rightarrow> K' = K
     | Inl (ArtifactError e) \<Rightarrow>
         fact_resolve (''fact-'' @ an_fresh E) (kn_facts K')
           = Some (fact_of (answer_fact E answer turn_ref\<lparr>fq_fresh := ''fact-'' @ an_fresh E\<rparr>))
         \<and> as_artifacts (kn_artifacts K') = as_artifacts (kn_artifacts K)
         \<and> as_leaves (kn_artifacts K') = as_leaves (kn_artifacts K)
     | Inr res \<Rightarrow>
         fact_resolve (''fact-'' @ an_fresh E) (kn_facts K')
           = Some (fact_of (answer_fact E answer turn_ref\<lparr>fq_fresh := ''fact-'' @ an_fresh E\<rparr>))
         \<and> rs_artifact res = qn_artifact q
         \<and> (\<exists>v. leaf_in (qn_artifact q) Committed (qn_path q) (as_leaves (kn_artifacts K'))
                 = Some (v, Some (''fact-'' @ an_fresh E)))
         \<and> leaf_in (qn_artifact q) Provisional (qn_path q) (as_leaves (kn_artifacts K')) = None)"
proof -
  let ?q = "answer_fact E answer turn_ref"
  have fi: "facts_inv (kn_facts K)" using inv by (simp add: knowledge_inv_def)
  obtain fr F where f: "fresh_record (an_fact_sink E) ?q (kn_facts K) = (fr, F)" by fastforce
  show ?thesis
  proof (cases fr)
    case (Inl e)
    with f have "F = kn_facts K" using fact_record_error unfolding fresh_record_def by blast
    with Inl f run inv show ?thesis by (auto simp: record_answer_def)
  next
    case (Inr t)
    note f = f[unfolded Inr]
    have t: "t = ''fact-'' @ an_fresh E"
      using fact_record_rows[OF f[unfolded fresh_record_def]] by (simp add: answer_fact_def)
    have res: "fact_resolve t F = Some (fact_of (?q\<lparr>fq_fresh := t\<rparr>))"
      using facts.record_resolves[OF fi f] t by (auto simp: as_asked_def answer_fact_def)
    have inv1: "knowledge_inv (K\<lparr>kn_facts := F\<rparr>)"
      using knowledge_step_inv[OF inv, of "RecordOp ?q" C "an_fact_sink E" "an_sink E"] f by (simp add: op_ok_def)
    let ?d = "nest_value (qn_path q) (pval_of answer)" and ?c = "[(KStr (qn_path q), CiteStr t)]"
    have d: "delta_ok ?d" by (intro delta_ok_nest_value delta_ok_pval_of keys)
    obtain pr A where p: "propose C (an_sink E) (grounded F) (an_fresh E) (an_time E) (qn_kind q) ?d ?c
        (Some (qn_artifact q)) (kn_artifacts K) = (pr, A)" by fastforce
    have K': "K' = K\<lparr>kn_facts := F, kn_artifacts := A\<rparr>"
      using run f p by (auto simp: record_answer_def split: sum.splits)
    have i1: "facts_inv F" "store_inv (grounded F) (kn_artifacts K)" using inv1 by (simp_all add: knowledge_inv_def)
    have "store_inv (grounded F) A"
      using propose_inv[OF i1(2) d, of C "an_sink E" "an_fresh E" "an_time E" "qn_kind q" ?c "Some (qn_artifact q)"]
      by (simp add: p)
    then have inv': "knowledge_inv K'" using i1(1) by (simp add: knowledge_inv_def K')
    show ?thesis
    proof (cases pr)
      case (Inl e)
      with run f p have "r = Inl (ArtifactError e)" by (simp add: record_answer_def)
      with inv' res t K' propose_rejected[OF p[unfolded Inl]] show ?thesis by simp
    next
      case (Inr rs)
      with run f p have r: "r = Inr rs" by (simp add: record_answer_def)
      note p = p[unfolded Inr]
      obtain m leaves where l: "flatten C m [] ?d = Inr leaves" "stray_cites ?c leaves = []"
          "unresolved_cites (grounded F) ?c = []" "rs_artifact rs = qn_artifact q"
          "as_leaves A = fold (write_leaf (an_time E) (rs_artifact rs) (committed_of ?c leaves)) leaves (as_leaves (kn_artifacts K))"
      proof (rule propose_accepted[OF p], goal_cases)
        case (1 m leaves)
        show ?case by (rule that[OF 1(3) 1(4) 1(5) _ 1(12)]) (simp add: 1(6))
      qed
      note ap = flatten_apart(1)[OF l(1) d]
      note look = leaf_in_written[OF ap, of _ _ _ "an_time E" "rs_artifact rs" "committed_of ?c leaves"
          "as_leaves (kn_artifacts K)", folded l(5)]
      have mem: "qn_path q \<in> fst ` set leaves"
        using arg_cong[OF l(2), of length] by (auto simp: stray_cites_def split: if_splits)
      then obtain v where v: "dict_get leaves (qn_path q) = Some v" by (metis map_of_eq_None_iff not_None_eq)
      have c: "dict_get (committed_of ?c leaves) (qn_path q) = Some t"
        using mem by (simp add: map_of_committed cite_at_def)
      have "superseded_at (committed_of ?c leaves) leaves Provisional (qn_path q)"
        using mem unfolding superseded_at_def by (intro bexI[of _ "qn_path q"]) simp_all
      with look v c l(4) have "leaf_in (qn_artifact q) Committed (qn_path q) (as_leaves A) = Some (v, Some t)"
        "leaf_in (qn_artifact q) Provisional (qn_path q) (as_leaves A) = None"
        by (simp_all add: state_in_def)
      with r inv' res t K' l(4) show ?thesis by auto
    qed
  qed
qed

definition sample_answer_env :: answer_env where
  "sample_answer_env = \<lparr>an_fact_sink = (\<lambda>_. True), an_sink = (\<lambda>_. True), an_fresh = ''2'', an_now = ''t'',
     an_time = ''u''\<rparr>"

definition sample_question :: question where
  "sample_question = question_of (json_text False) \<lparr>dv_kind = ''host'', dv_artifact = ''a'', dv_path = ''addr.city'',
     dv_proposed = JStr ''Bern'', dv_known = JNull, dv_trace = None\<rparr>"

lemma answer_recorded_before_commit_witness:
  "fact_resolve ''fact-2'' (kn_facts (snd (record_answer sample_classes sample_answer_env sample_question
      (JStr ''Bonn'') [1] \<lparr>kn_facts = sample_facts, kn_artifacts = empty_artifacts\<lparr>as_kinds := [(''host'', True)]\<rparr>\<rparr>)))
    = Some (fact_of (answer_fact sample_answer_env (JStr ''Bonn'') [1]\<lparr>fq_fresh := ''fact-2''\<rparr>))"
proof -
  let ?K = "\<lparr>kn_facts = sample_facts, kn_artifacts = empty_artifacts\<lparr>as_kinds := [(''host'', True)]\<rparr>\<rparr>"
  let ?run = "record_answer sample_classes sample_answer_env sample_question (JStr ''Bonn'') [1] ?K"
  have i: "knowledge_inv ?K"
    by (simp add: knowledge_inv_def facts_inv_def sample_facts_def store_inv_def empty_artifacts_def)
  have k: "json_keys_ok (JStr ''Bonn'')" by simp
  have "\<exists>F. fresh_record (an_fact_sink sample_answer_env) (answer_fact sample_answer_env (JStr ''Bonn'') [1]) sample_facts
      = (Inr ''fact-2'', F)"
    by (simp add: fresh_record_def fact_record_def sample_answer_env_def answer_fact_def sample_facts_def
        SOURCE_KINDS_def scalar_def Let_def)
  then obtain F where f: "fresh_record (an_fact_sink sample_answer_env)
      (answer_fact sample_answer_env (JStr ''Bonn'') [1]) sample_facts = (Inr ''fact-2'', F)" ..
  have n: "fst ?run \<noteq> Inl (FactError e)" for e
    unfolding record_answer_def
    by (simp only: f knowledge.simps prod.case sum.case) (simp split: prod.split sum.split)
  from answer_recorded_before_commit[OF i k prod.collapse[symmetric, of ?run]] n show ?thesis
    by (auto simp: sample_answer_env_def split: sum.splits answer_error.splits)
qed

end
