(* ===== verification/Epistemics.thy ===== *)
theory Epistemics
  imports Clarify
begin

text \<open>
  The facade \<open>nanobot/kernel/epistemics.py\<close>: one open object over the fact store and the artifact
  store, closed by the kernel, and its read-only variant over a state directory that another
  process writes. Method calls are a datatype; a call of a method of a store that \<open>fact_store\<close> or
  \<open>artifact_store\<close> hands out is \<open>OnFactStore\<close> or \<open>OnArtifactStore\<close> of that call.
\<close>

subsection \<open>The facade\<close>

text \<open>The methods of the underlying stores; closing one only drops its connection, which the next call opens again.\<close>

datatype fact_store_call =
    StRecord string ustr json "string option" string string
  | StResolve string
  | StQuery "ustr option" "string option" "int option"
  | StCount
  | StFactVersion
  | StFactsClose

datatype 'm artifact_store_call =
    StRegister string 'm bool
  | StKinds
  | StPropose string "'m pval" "(dkey, cite) dict" "string option" string string
  | StKindOf string
  | StCommitted string
  | StModel string
  | StProvisional string
  | StCitations string
  | StArtifactVersion
  | StArtifactsClose

datatype 'm epi_call =
    RecordFact json string ustr "string option" string string
  | FactCall string
  | FactsCall "ustr option" "string option" "int option"
  | RegisterKind string 'm bool
  | Kinds
  | ProposeCall string "'m pval" "(dkey, cite) dict option" "string option" string string
  | ArtifactCall string string
  | ArtifactModel string string
  | ProvisionalCall string string
  | CitationsCall string string
  | Reconcile divergence
  | Answer question json ustr string string string
  | OnFactStore fact_store_call
  | OnArtifactStore "'m artifact_store_call"

datatype 'm epi_result =
    RId string
  | RNum nat
  | RKind string
  | RFact "fact option"
  | RFacts "fact list"
  | RUnit
  | RKinds "(string, 'm) dict"
  | RProposed artifact_result
  | RDict "(string, json) dict"
  | RModel "'m pval"
  | RCites "(string, string option) dict"
  | RResolution resolution

datatype 'x epi_error =
    KernelClosed
  | ReadOnlyKernel
  | EpiFact fact_error
  | EpiArtifact artifact_error
  | EpiClarify "'x clarify_error"
  | EpiTypeError

record 'm epistemics =
  ep_closed :: bool
  ep_knowledge :: "'m knowledge"

text \<open>What the host supplies: models, sinks, the classifier of a call and \<open>repr\<close>.\<close>

record ('m, 'x) epi_env =
  ee_classes :: "'m classes"
  ee_fact_sink :: "fact_event \<Rightarrow> bool"
  ee_sink :: "artifact_event \<Rightarrow> bool"
  ee_classify :: "'x classifier"
  ee_repr :: "json \<Rightarrow> string"

definition map_err :: "('e \<Rightarrow> 'f) \<Rightarrow> ('a \<Rightarrow> 'b) \<Rightarrow> ('e, 'a) py \<Rightarrow> ('f, 'b) py" where
  "map_err f g r = (case r of Inl e \<Rightarrow> Inl (f e) | Inr v \<Rightarrow> Inr (g v))"

text \<open>\<open>_of_kind\<close> in front of a view of an artifact.\<close>

definition of_kind ::
  "string \<Rightarrow> string \<Rightarrow> 'm artifact_store \<Rightarrow> (artifact_error, 'a) py \<Rightarrow> (artifact_error, 'a) py" where
  "of_kind kind aid A v =
     (case kind_of aid A of Inl e \<Rightarrow> Inl e | Inr k \<Rightarrow> if k \<noteq> kind then Inl KindMismatch else v)"

fun fact_store_do ::
  "('m, 'x) epi_env \<Rightarrow> fact_store_call \<Rightarrow> fact_store \<Rightarrow> (fact_error, 'm epi_result) py \<times> fact_store" where
  "fact_store_do E (StRecord kind ref v span fresh now) F =
     apfst (map_err id RId) (fresh_record (ee_fact_sink E) \<lparr>fq_kind = kind, fq_ref = ref, fq_value = v,
       fq_span = span, fq_fresh = fresh, fq_now = now\<rparr> F)"
| "fact_store_do E (StResolve i) F = (Inr (RFact (fact_resolve i F)), F)"
| "fact_store_do E (StQuery p source limit) F = (map_err id RFacts (fact_query p source limit F), F)"
| "fact_store_do E StCount F = (Inr (RNum (fact_count F)), F)"
| "fact_store_do E StFactVersion F = (Inr (RNum (fs_version F)), F)"
| "fact_store_do E StFactsClose F = (Inr RUnit, F)"

fun artifact_store_do ::
  "(('m::finite), 'x) epi_env \<Rightarrow> 'm artifact_store_call \<Rightarrow> fact_store \<Rightarrow> 'm artifact_store
     \<Rightarrow> (artifact_error, 'm epi_result) py \<times> 'm artifact_store" where
  "artifact_store_do E (StRegister name m replace) F A =
     (case register_kind (ee_classes E) name m replace A of Inl e \<Rightarrow> (Inl e, A) | Inr A' \<Rightarrow> (Inr RUnit, A'))"
| "artifact_store_do E StKinds F A = (Inr (RKinds (as_kinds A)), A)"
| "artifact_store_do E (StPropose kind delta cites aid fresh now) F A =
     apfst (map_err id RProposed) (propose (ee_classes E) (ee_sink E) (grounded F) fresh now kind delta cites aid A)"
| "artifact_store_do E (StKindOf aid) F A = (map_err id RKind (kind_of aid A), A)"
| "artifact_store_do E (StCommitted aid) F A = (map_err id RDict (committed_view aid A), A)"
| "artifact_store_do E (StModel aid) F A = (map_err id RModel (committed_model (ee_classes E) aid A), A)"
| "artifact_store_do E (StProvisional aid) F A = (map_err id RDict (provisional_view aid A), A)"
| "artifact_store_do E (StCitations aid) F A = (map_err id RCites (citations aid A), A)"
| "artifact_store_do E StArtifactVersion F A = (Inr (RNum (as_version A)), A)"
| "artifact_store_do E StArtifactsClose F A = (Inr RUnit, A)"

text \<open>One call on open stores; \<open>_check\<close> is in \<open>epi_run\<close>. A delta or cites that is no mapping is refused.\<close>

fun epi_do ::
  "(('m::finite), 'x) epi_env \<Rightarrow> 'm epi_call \<Rightarrow> 'm knowledge
     \<Rightarrow> ('x epi_error, 'm epi_result) py \<times> 'm knowledge" where
  "epi_do E (RecordFact v source ref span fresh now) K =
     (case fresh_record (ee_fact_sink E) \<lparr>fq_kind = source, fq_ref = ref, fq_value = v, fq_span = span,
             fq_fresh = fresh, fq_now = now\<rparr> (kn_facts K) of
        (r, F) \<Rightarrow> (map_err EpiFact RId r, K\<lparr>kn_facts := F\<rparr>))"
| "epi_do E (FactCall i) K = (Inr (RFact (fact_resolve i (kn_facts K))), K)"
| "epi_do E (FactsCall p source limit) K =
     (map_err EpiFact RFacts (fact_query p source limit (kn_facts K)), K)"
| "epi_do E (RegisterKind name m replace) K =
     (case register_kind (ee_classes E) name m replace (kn_artifacts K) of
        Inl e \<Rightarrow> (Inl (EpiArtifact e), K)
      | Inr A \<Rightarrow> (Inr RUnit, K\<lparr>kn_artifacts := A\<rparr>))"
| "epi_do E Kinds K = (Inr (RKinds (as_kinds (kn_artifacts K))), K)"
| "epi_do E (ProposeCall kind delta cites aid fresh now) K =
     (case delta of
        PDict _ \<Rightarrow>
          (case cites of
             None \<Rightarrow> (Inl EpiTypeError, K)
           | Some cs \<Rightarrow>
               (case propose (ee_classes E) (ee_sink E) (grounded (kn_facts K)) fresh now kind delta cs aid
                       (kn_artifacts K) of
                  (r, A) \<Rightarrow> (map_err EpiArtifact RProposed r, K\<lparr>kn_artifacts := A\<rparr>)))
      | _ \<Rightarrow> (Inl (EpiArtifact (Validation [])), K))"
| "epi_do E (ArtifactCall kind aid) K =
     (map_err EpiArtifact RDict (of_kind kind aid (kn_artifacts K) (committed_view aid (kn_artifacts K))), K)"
| "epi_do E (ArtifactModel kind aid) K =
     (map_err EpiArtifact RModel (of_kind kind aid (kn_artifacts K)
        (committed_model (ee_classes E) aid (kn_artifacts K))), K)"
| "epi_do E (ProvisionalCall kind aid) K =
     (map_err EpiArtifact RDict (of_kind kind aid (kn_artifacts K) (provisional_view aid (kn_artifacts K))), K)"
| "epi_do E (CitationsCall kind aid) K =
     (map_err EpiArtifact RCites (of_kind kind aid (kn_artifacts K) (citations aid (kn_artifacts K))), K)"
| "epi_do E (Reconcile d) K =
     (map_err EpiClarify RResolution (resolve_divergence (ee_repr E) (ee_classify E) d), K)"
| "epi_do E (Answer q answer turn_ref fresh now time) K =
     (case record_answer (ee_classes E) \<lparr>an_fact_sink = ee_fact_sink E, an_sink = ee_sink E, an_fresh = fresh,
             an_now = now, an_time = time\<rparr> q answer turn_ref K of
        (r, K') \<Rightarrow>
          (map_err (\<lambda>e. case e of FactError e \<Rightarrow> EpiFact e | ArtifactError e \<Rightarrow> EpiArtifact e) RProposed r, K'))"
| "epi_do E (OnFactStore c) K =
     (case fact_store_do E c (kn_facts K) of (r, F) \<Rightarrow> (map_err EpiFact id r, K\<lparr>kn_facts := F\<rparr>))"
| "epi_do E (OnArtifactStore c) K =
     (case artifact_store_do E c (kn_facts K) (kn_artifacts K) of
        (r, A) \<Rightarrow> (map_err EpiArtifact id r, K\<lparr>kn_artifacts := A\<rparr>))"

definition epi_run ::
  "(('m::finite), 'x) epi_env \<Rightarrow> 'm epi_call \<Rightarrow> 'm epistemics
     \<Rightarrow> ('x epi_error, 'm epi_result) py \<times> 'm epistemics" where
  "epi_run E c s =
     (if ep_closed s then (Inl KernelClosed, s)
      else (case epi_do E c (ep_knowledge s) of (r, K) \<Rightarrow> (r, s\<lparr>ep_knowledge := K\<rparr>)))"

definition epi_close :: "'m epistemics \<Rightarrow> 'm epistemics" where
  "epi_close s = s\<lparr>ep_closed := True\<rparr>"

subsection \<open>The read-only facade\<close>

text \<open>\<open>ReadOnlyEpistemics\<close> over the two files of a state directory, if they exist. The kinds of the
  artifact store live in the open object: a store just opened has none.\<close>

record 'm read_only =
  ro_closed :: bool
  ro_open :: bool
  ro_facts :: "fact_store option"
  ro_artifacts :: "'m artifact_store option"

definition is_write :: "'m epi_call \<Rightarrow> bool" where
  "is_write c = (case c of RecordFact _ _ _ _ _ _ \<Rightarrow> True | ProposeCall _ _ _ _ _ _ \<Rightarrow> True
     | Answer _ _ _ _ _ _ \<Rightarrow> True | _ \<Rightarrow> False)"

text \<open>A write through a store that was handed out: not in \<open>_WRITES\<close>, so \<open>__getattr__\<close> does not refuse it.\<close>

definition writes_through :: "'m epi_call \<Rightarrow> bool" where
  "writes_through c = (case c of OnFactStore (StRecord _ _ _ _ _ _) \<Rightarrow> True
     | OnArtifactStore (StPropose _ _ _ _ _ _) \<Rightarrow> True | _ \<Rightarrow> False)"

text \<open>\<open>_real\<close>: closed, missing files, then opening both stores (which migrates an older schema).\<close>

definition ro_real :: "'m read_only \<Rightarrow> ('x epi_error, 'm knowledge) py \<times> 'm read_only" where
  "ro_real s =
     (if ro_closed s then (Inl KernelClosed, s)
      else (case (ro_facts s, ro_artifacts s) of
          (Some F, Some A) \<Rightarrow>
            if ro_open s then (Inr \<lparr>kn_facts = F, kn_artifacts = A\<rparr>, s)
            else (case ensure_schema F of
                Inl e \<Rightarrow> (Inl (EpiFact e), s)
              | Inr F' \<Rightarrow>
                  (case artifact_schema (A\<lparr>as_kinds := []\<rparr>) of
                     Inl e \<Rightarrow> (Inl (EpiArtifact e), s\<lparr>ro_facts := Some F'\<rparr>)
                   | Inr A' \<Rightarrow> (Inr \<lparr>kn_facts = F', kn_artifacts = A'\<rparr>,
                       s\<lparr>ro_open := True, ro_facts := Some F', ro_artifacts := Some A'\<rparr>)))
        | _ \<Rightarrow> (Inl ReadOnlyKernel, s)))"

definition ro_run ::
  "(('m::finite), 'x) epi_env \<Rightarrow> 'm epi_call \<Rightarrow> 'm read_only
     \<Rightarrow> ('x epi_error, 'm epi_result) py \<times> 'm read_only" where
  "ro_run E c s =
     (if is_write c then (Inl ReadOnlyKernel, s)
      else (case c of
        Reconcile d \<Rightarrow> (map_err EpiClarify RResolution (resolve_divergence (ee_repr E) (ee_classify E) d), s)
      | _ \<Rightarrow>
        (case ro_real s of
           (Inl e, s') \<Rightarrow> (Inl e, s')
         | (Inr K, s') \<Rightarrow>
             (case epi_do E c K of
                (r, K') \<Rightarrow> (r, s'\<lparr>ro_facts := Some (kn_facts K'), ro_artifacts := Some (kn_artifacts K')\<rparr>)))))"

definition ro_close :: "'m read_only \<Rightarrow> 'm read_only" where
  "ro_close s = s\<lparr>ro_closed := True, ro_open := False\<rparr>"

datatype 'm ro_op = RoCall "'m epi_call" | RoClose

definition ro_step :: "(('m::finite), 'x) epi_env \<Rightarrow> 'm ro_op \<Rightarrow> 'm read_only \<Rightarrow> 'm read_only" where
  "ro_step E op s = (case op of RoCall c \<Rightarrow> snd (ro_run E c s) | RoClose \<Rightarrow> ro_close s)"

subsection \<open>Properties\<close>

lemma register_kind_rows:
  "register_kind C name m replace A = Inr A' \<Longrightarrow> as_artifacts A' = as_artifacts A \<and> as_leaves A' = as_leaves A
     \<and> as_trace A' = as_trace A"
  by (auto simp: register_kind_def split: if_splits option.splits)

lemma fact_store_reads:
  "fact_store_do E c F = (r, F') \<Longrightarrow> \<not> writes_through (OnFactStore c) \<Longrightarrow> F' = F"
  by (cases c) (auto simp: writes_through_def)

lemma artifact_store_reads:
  "artifact_store_do E c F A = (r, A') \<Longrightarrow> \<not> writes_through (OnArtifactStore c) \<Longrightarrow>
     as_artifacts A' = as_artifacts A \<and> as_leaves A' = as_leaves A \<and> as_trace A' = as_trace A"
  by (cases c) (auto simp: writes_through_def split: sum.splits dest: register_kind_rows)

lemma epi_do_reads:
  "\<not> is_write c \<Longrightarrow> \<not> writes_through c \<Longrightarrow> epi_do E c K = (r, K') \<Longrightarrow>
     kn_facts K' = kn_facts K \<and> as_artifacts (kn_artifacts K') = as_artifacts (kn_artifacts K)
     \<and> as_leaves (kn_artifacts K') = as_leaves (kn_artifacts K) \<and> as_trace (kn_artifacts K') = as_trace (kn_artifacts K)"
  by (cases c)
    (auto simp: is_write_def writes_through_def split: sum.splits prod.splits dest: register_kind_rows fact_store_reads artifact_store_reads)

text \<open>What the files hold, and the trace.\<close>

definition ro_content :: "'m read_only \<Rightarrow> (fact list \<times> fact_event list) option
    \<times> (artifact_row list \<times> leaf_row list \<times> artifact_event list) option" where
  "ro_content s = (map_option (\<lambda>F. (fs_rows F, fs_trace F)) (ro_facts s),
     map_option (\<lambda>A. (as_artifacts A, as_leaves A, as_trace A)) (ro_artifacts s))"

lemma ro_real_content:
  "ro_real s = (r, s') \<Longrightarrow> ro_content s' = ro_content s"
  "ro_real s = (Inr K, s') \<Longrightarrow> ro_facts s' = Some (kn_facts K) \<and> ro_artifacts s' = Some (kn_artifacts K)"
  by (auto simp: ro_real_def ro_content_def ensure_schema_def artifact_schema_def
      split: if_splits option.splits sum.splits)

lemma ro_close_content: "ro_content (ro_close s) = ro_content s"
  by (simp add: ro_close_def ro_content_def)

lemma ro_run_content:
  fixes E :: "('m::finite, 'x) epi_env"
  assumes "\<not> writes_through c"
  shows "ro_content (snd (ro_run E c s)) = ro_content s"
proof (cases "is_write c \<or> (\<exists>d. c = Reconcile d)")
  case True
  then show ?thesis by (auto simp: ro_run_def)
next
  case False
  then have w: "\<not> is_write c" and run: "ro_run E c s = (case ro_real s of
           (Inl e, s') \<Rightarrow> (Inl e, s')
         | (Inr K, s') \<Rightarrow>
             (case epi_do E c K of
                (r, K') \<Rightarrow> (r, s'\<lparr>ro_facts := Some (kn_facts K'), ro_artifacts := Some (kn_artifacts K')\<rparr>)))"
    by (auto simp: ro_run_def split: epi_call.split)
  obtain r :: "('x epi_error, 'm knowledge) py" and s' where rr: "ro_real s = (r, s')" by fastforce
  show ?thesis
  proof (cases r)
    case (Inl e)
    with run rr ro_real_content(1)[OF rr] show ?thesis by simp
  next
    case (Inr K)
    obtain x K' where e: "epi_do E c K = (x, K')" by fastforce
    note same = ro_real_content(1)[OF rr] ro_real_content(2)[OF rr[unfolded Inr]] epi_do_reads[OF w assms e]
    then show ?thesis using run rr Inr e by (auto simp: ro_content_def)
  qed
qed

text \<open>
  Claim C25: the methods of a read-only kernel read. Whatever is called on it, in any order, open or closed, apart
  from \<open>record\<close> and \<open>propose\<close> of a store it hands out, the facts, artifacts and events of the two files
  stay what they were and no file comes to exist (opening a file of an older schema raises its schema version);
  \<open>record_fact\<close>, \<open>propose\<close> and \<open>answer\<close> are refused outright.
\<close>

theorem read_only_never_writes:
  fixes E :: "('m::finite, 'x) epi_env"
  assumes "list_all (\<lambda>op. case op of RoCall c \<Rightarrow> \<not> writes_through c | RoClose \<Rightarrow> True) ops"
  shows "ro_content (fold (ro_step E) ops s) = ro_content s
    \<and> ro_run E (RecordFact v source ref span fresh now) s = (Inl ReadOnlyKernel, s)
    \<and> ro_run E (ProposeCall kind delta cites aid fresh now) s = (Inl ReadOnlyKernel, s)
    \<and> ro_run E (Answer q answer turn_ref fresh now time) s = (Inl ReadOnlyKernel, s)"
proof -
  have "ro_content (ro_step E op s) = ro_content s"
    if "case op of RoCall c \<Rightarrow> \<not> writes_through c | RoClose \<Rightarrow> True" for op s
    using that by (cases op) (simp_all add: ro_step_def ro_run_content ro_close_content)
  then have "ro_content (fold (ro_step E) ops s) = ro_content s"
    using assms by (induction ops arbitrary: s) simp_all
  then show ?thesis by (simp add: ro_run_def is_write_def)
qed

definition sample_epi :: "(bool, unit) epi_env" where
  "sample_epi = \<lparr>ee_classes = sample_classes, ee_fact_sink = (\<lambda>_. True), ee_sink = (\<lambda>_. True),
     ee_classify = (\<lambda>_. Inl ()), ee_repr = (\<lambda>_. ''v'')\<rparr>"

definition sample_read_only :: "bool read_only" where
  "sample_read_only = \<lparr>ro_closed = False, ro_open = False, ro_facts = Some sample_facts, ro_artifacts = Some empty_artifacts\<rparr>"

theorem read_only_never_writes_witness:
  "ro_content (fold (ro_step sample_epi)
      [RoCall (OnFactStore StCount), RoCall (RegisterKind ''host'' True False), RoCall (RecordFact JNull ''user'' [1] None ''1'' ''t''), RoClose]
      sample_read_only) = ro_content sample_read_only
   \<and> ro_run sample_epi (RecordFact JNull ''user'' [1] None ''1'' ''t'') sample_read_only = (Inl ReadOnlyKernel, sample_read_only)"
  by (rule conjI[OF read_only_never_writes[THEN conjunct1] read_only_never_writes[THEN conjunct2, THEN conjunct1, of "[]"]])
     (simp_all add: writes_through_def)

text \<open>
  Claim C1: the stores a read-only kernel hands out are writable. On an open read-only facade over two files it can open,
  a \<open>record\<close> through \<open>fact_store\<close> that the fact store accepts stores the fact and its event in the file; the same
  fact through \<open>record_fact\<close> is refused.
\<close>

theorem read_only_store_records:
  fixes E :: "('m::finite, 'x) epi_env"
  assumes "\<not> ro_closed s" "ro_facts s = Some F" "ro_artifacts s = Some A"
    "fs_version F = SCHEMA_VERSION" "as_version A = ARTIFACT_SCHEMA_VERSION"
    "fresh_record (ee_fact_sink E) \<lparr>fq_kind = kind, fq_ref = ref, fq_value = v, fq_span = span, fq_fresh = fresh,
       fq_now = now\<rparr> F = (Inr i, F')"
  shows "\<exists>s'. ro_run E (OnFactStore (StRecord kind ref v span fresh now)) s = (Inr (RId i), s')
      \<and> ro_facts s' = Some F' \<and> length (fs_rows F') = Suc (length (fs_rows F))
      \<and> fst (ro_run E (RecordFact v kind ref span fresh now) s) = Inl ReadOnlyKernel"
proof -
  have "length (fs_rows F') = Suc (length (fs_rows F))"
    using assms(6) fact_record_rows by (fastforce simp: fresh_record_def)
  with assms show ?thesis
    by (auto simp: ro_run_def is_write_def ro_real_def ensure_schema_def artifact_schema_def map_err_def)
qed

theorem read_only_store_records_witness:
  "\<exists>i s'. ro_run sample_epi (OnFactStore (StRecord ''user'' [1] JNull None ''1'' ''t'')) sample_read_only = (Inr (RId i), s')"
proof -
  obtain F' where f: "fresh_record (ee_fact_sink sample_epi) \<lparr>fq_kind = ''user'', fq_ref = [1], fq_value = JNull, fq_span = None, fq_fresh = ''1'',
       fq_now = ''t''\<rparr> sample_facts = (Inr ''fact-1'', F')"
    by (simp add: fresh_record_def fact_record_def sample_facts_def SOURCE_KINDS_def scalar_def Let_def)
  show ?thesis
    using read_only_store_records[OF _ _ _ _ _ f, of sample_read_only empty_artifacts]
    by (auto simp: sample_read_only_def sample_facts_def empty_artifacts_def SCHEMA_VERSION_def ARTIFACT_SCHEMA_VERSION_def)
qed

text \<open>
  An existing file of an older schema is migrated by the first read, so a read-only kernel
  does write the schema version.
\<close>

lemma read_only_migrates:
  assumes "\<not> ro_closed s" "\<not> ro_open s" "ro_facts s = Some F" "fs_version F < SCHEMA_VERSION"
    "ro_artifacts s = Some A" "as_version A \<le> ARTIFACT_SCHEMA_VERSION"
  shows "\<exists>F'. ro_facts (snd (ro_run E (FactCall i) s)) = Some F' \<and> fs_version F' = SCHEMA_VERSION"
  using assms by (auto simp: ro_run_def is_write_def ro_real_def ensure_schema_def artifact_schema_def)

end
