(* ===== verification/Registry.thy ===== *)
theory Registry
  imports Gate
begin

text \<open>
  The plugin registry, \<open>nanobot/kernel/registry.py\<close>: which plugin packages the host has activated, at
  which pinned hash. The state file is the entries it decodes to, absent, or unusable; every call
  reads it again. What a call finds of the world (the hashes of the packages on disk, whether a
  write succeeds, the clock, the trace) is an argument, so it may differ from call to call.
\<close>

subsection \<open>States and records\<close>

datatype plugin_state = Candidate | Quarantined | Active | Retired

definition PLUGIN_STATES :: "plugin_state list" where
  "PLUGIN_STATES = [Candidate, Quarantined, Active, Retired]"

fun plugin_state_name :: "plugin_state \<Rightarrow> string" where
  "plugin_state_name Candidate = ''candidate''"
| "plugin_state_name Quarantined = ''quarantined''"
| "plugin_state_name Active = ''active''"
| "plugin_state_name Retired = ''retired''"

text \<open>\<open>_TRANSITIONS\<close>, the edges of the lifecycle.\<close>

definition TRANSITIONS :: "(plugin_state \<times> plugin_state) set" where
  "TRANSITIONS = {(Candidate, Quarantined), (Quarantined, Active), (Active, Quarantined),
     (Candidate, Retired), (Quarantined, Retired), (Active, Retired)}"

record plugin_record =
  pr_name :: string
  pr_kind :: string
  pr_version :: string
  pr_hash :: string
  pr_tier :: int
  pr_root :: string
  pr_state :: plugin_state
  pr_registered :: string
  pr_activated_at :: "string option"
  pr_activated_by :: "string option"
  pr_reason :: string

record manifest =
  mf_name :: string
  mf_kind :: string
  mf_version :: string
  mf_hash :: string
  mf_tier :: int

record lifecycle_event =
  le_verdict :: bool
  le_action :: string
  le_plugin :: string
  le_from :: "plugin_state option"
  le_to :: "plugin_state option"
  le_hash :: "string option"
  le_actor :: string
  le_actor_kind :: principal_kind
  le_reason :: string

datatype reg_error =
    CorruptRegistry
  | LifecycleDenied deny
  | HashMismatch
  | NameCollision
  | StateError
  | UnknownPlugin
  | SaveFailed
  | FloorRaised fs_error
  | UnknownState

datatype reg_file = NoFile | BadFile | Entries "(string, plugin_record) dict"

record reg_state =
  rg_file :: reg_file
  rg_events :: "lifecycle_event list"

record reg_world =
  rw_disk :: "string \<Rightarrow> string \<Rightarrow> string option"
  rw_resolve :: "string \<Rightarrow> string"
  rw_saves :: bool
  rw_now :: string
  rw_sink :: "lifecycle_event \<Rightarrow> bool"
  rw_os :: os_host
  rw_exec_hit :: "string \<Rightarrow> string option"
  rw_floor :: protected_floor

definition REGISTRY_PRINCIPAL :: principal where
  "REGISTRY_PRINCIPAL = Principal ''plugin-registry'' HostKind None"

subsection \<open>Persistence and audit\<close>

text \<open>\<open>_load\<close>: an entry must be stored under its own name.\<close>

definition reg_load :: "reg_state \<Rightarrow> (reg_error, (string, plugin_record) dict) py" where
  "reg_load s =
     (case rg_file s of
        NoFile \<Rightarrow> Inr []
      | BadFile \<Rightarrow> Inl CorruptRegistry
      | Entries d \<Rightarrow> if list_ex (\<lambda>(name, r). name \<noteq> pr_name r) d then Inl CorruptRegistry else Inr d)"

text \<open>\<open>_save\<close>: atomic, in the order of the names.\<close>

definition reg_save :: "reg_world \<Rightarrow> (string, plugin_record) dict \<Rightarrow> reg_state \<Rightarrow> (reg_error, reg_state) py" where
  "reg_save W d s = (if rw_saves W then Inr (s\<lparr>rg_file := Entries (sort_key fst d)\<rparr>) else Inl SaveFailed)"

definition reg_emit :: "reg_world \<Rightarrow> lifecycle_event list \<Rightarrow> reg_state \<Rightarrow> reg_state" where
  "reg_emit W evs s = s\<lparr>rg_events := rg_events s @ filter (rw_sink W) evs\<rparr>"

definition life_event ::
  "string \<Rightarrow> bool \<Rightarrow> principal \<Rightarrow> string \<Rightarrow> plugin_state option \<Rightarrow> plugin_state option \<Rightarrow> string option
     \<Rightarrow> string \<Rightarrow> lifecycle_event" where
  "life_event action ok actor name old new h why =
     \<lparr>le_verdict = ok, le_action = action, le_plugin = name, le_from = old, le_to = new, le_hash = h,
      le_actor = p_name actor, le_actor_kind = p_kind actor, le_reason = why\<rparr>"

text \<open>\<open>_require_host\<close>: the floor of \<open>plugin.load\<close>, audited when it denies.\<close>

definition require_host ::
  "reg_world \<Rightarrow> string \<Rightarrow> string \<Rightarrow> principal \<Rightarrow> reg_state \<Rightarrow> reg_error option \<times> reg_state" where
  "require_host W action name p s =
     (case check_floors (rw_os W) (rw_exec_hit W) p (CapabilityRequest ''plugin.load'' (action @ '':'' @ name))
             (rw_floor W) of
        Inl e \<Rightarrow> (Some (FloorRaised e), s)
      | Inr None \<Rightarrow> (None, s)
      | Inr (Some d) \<Rightarrow>
          let cur = (case reg_load s of Inl _ \<Rightarrow> None | Inr rs \<Rightarrow> dict_get rs name) in
          (Some (LifecycleDenied d),
           reg_emit W [life_event action False p name (map_option pr_state cur) None (map_option pr_hash cur) (reason d)] s))"

definition reg_move ::
  "plugin_record \<Rightarrow> plugin_state \<Rightarrow> string \<Rightarrow> principal \<Rightarrow> string \<Rightarrow> (reg_error, plugin_record \<times> lifecycle_event) py" where
  "reg_move r new action actor why =
     (if (pr_state r, new) \<notin> TRANSITIONS then Inl StateError
      else Inr (r\<lparr>pr_state := new, pr_reason := why\<rparr>,
                life_event action True actor (pr_name r) (Some (pr_state r)) (Some new) (Some (pr_hash r)) why))"

type_synonym 'a reg_result = "(reg_error, 'a) py \<times> reg_state"

subsection \<open>Registration\<close>

text \<open>\<open>register\<close>, once the host is checked and the file is read; \<open>root\<close> is the path as given.\<close>

definition register_checked ::
  "reg_world \<Rightarrow> manifest \<Rightarrow> string \<Rightarrow> principal \<Rightarrow> (string, plugin_record) dict \<Rightarrow> reg_state
     \<Rightarrow> plugin_record reg_result" where
  "register_checked W m root p rs s =
     (let name = mf_name m; rt = rw_resolve W root in
      case (case dict_get rs name of
              None \<Rightarrow> None
            | Some x \<Rightarrow> if pr_state x \<noteq> Retired then Some x else None) of
        Some x \<Rightarrow>
          if pr_hash x = mf_hash m \<and> pr_root x = rt then (Inr x, s)
          else (Inl NameCollision,
                reg_emit W [life_event ''register'' False p name (Some (pr_state x)) None (Some (mf_hash m))
                  (''name collision: '' @ py_repr name @ '' is already registered ('' @ plugin_state_name (pr_state x)
                   @ '', '' @ take 12 (pr_hash x) @ '' at '' @ pr_root x @ '')'')] s)
      | None \<Rightarrow>
          let ok = rw_disk W root name = Some (mf_hash m);
              st = (if ok then Candidate else Quarantined);
              why = (if ok then ''registered'' else ''package hash does not match the manifest's version_hash'');
              r = \<lparr>pr_name = name, pr_kind = mf_kind m, pr_version = mf_version m, pr_hash = mf_hash m,
                   pr_tier = mf_tier m, pr_root = rt, pr_state = st, pr_registered = rw_now W,
                   pr_activated_at = None, pr_activated_by = None, pr_reason = why\<rparr>
          in (case reg_save W (dict_set rs name r) s of
                Inl e \<Rightarrow> (Inl e, s)
              | Inr s' \<Rightarrow>
                  (Inr r, reg_emit W [life_event ''register'' True p name None (Some st) (Some (mf_hash m)) why] s')))"

definition register_plugin ::
  "reg_world \<Rightarrow> manifest \<Rightarrow> string \<Rightarrow> principal \<Rightarrow> reg_state \<Rightarrow> plugin_record reg_result" where
  "register_plugin W m root p s =
     (case require_host W ''register'' (mf_name m) p s of
        (Some e, s') \<Rightarrow> (Inl e, s')
      | (None, s') \<Rightarrow> (case reg_load s' of Inl e \<Rightarrow> (Inl e, s') | Inr rs \<Rightarrow> register_checked W m root p rs s'))"

subsection \<open>Activation\<close>

text \<open>Why an activation may not pin the hash: the three that must agree.\<close>

definition mismatch_of :: "reg_world \<Rightarrow> string \<Rightarrow> string \<Rightarrow> plugin_record \<Rightarrow> string option" where
  "mismatch_of W name expected r =
     (if expected \<noteq> pr_hash r then Some ''expected hash does not match the registered version_hash''
      else if rw_disk W (pr_root r) name \<noteq> Some (pr_hash r)
        then Some ''package on disk does not match the registered version_hash''
      else None)"

definition activate_moves ::
  "reg_world \<Rightarrow> principal \<Rightarrow> string option \<Rightarrow> plugin_record
     \<Rightarrow> (reg_error, plugin_record \<times> lifecycle_event list) py" where
  "activate_moves W p bad r =
     (case (if pr_state r \<noteq> Quarantined
            then (case reg_move r Quarantined ''activate'' p (case bad of Some b \<Rightarrow> b | None \<Rightarrow> ''host review'') of
                    Inl e \<Rightarrow> Inl e | Inr (r1, ev) \<Rightarrow> Inr (r1, [ev]))
            else Inr (r, [])) of
        Inl e \<Rightarrow> Inl e
      | Inr (r1, evs) \<Rightarrow>
          if bad \<noteq> None then Inr (r1, evs)
          else (case reg_move r1 Active ''activate'' p ''host approved (hash pinned)'' of
                  Inl e \<Rightarrow> Inl e
                | Inr (r2, ev) \<Rightarrow>
                    Inr (r2\<lparr>pr_activated_at := Some (rw_now W), pr_activated_by := Some (p_name p)\<rparr>, evs @ [ev])))"

definition activate_checked ::
  "reg_world \<Rightarrow> string \<Rightarrow> string \<Rightarrow> principal \<Rightarrow> (string, plugin_record) dict \<Rightarrow> reg_state
     \<Rightarrow> plugin_record reg_result" where
  "activate_checked W name expected p rs s =
     (case dict_get rs name of
        None \<Rightarrow> (Inl UnknownPlugin, s)
      | Some r \<Rightarrow>
          if pr_state r = Retired then (Inl StateError, s)
          else
            let bad = mismatch_of W name expected r in
            if bad = None \<and> pr_state r = Active then (Inr r, s)
            else (case activate_moves W p bad r of
                    Inl e \<Rightarrow> (Inl e, s)
                  | Inr (r', evs) \<Rightarrow>
                      (case (if evs \<noteq> [] then reg_save W (dict_set rs name r') s else Inr s) of
                         Inl e \<Rightarrow> (Inl e, s)
                       | Inr s' \<Rightarrow>
                           (case bad of
                              None \<Rightarrow> (Inr r', reg_emit W evs s')
                            | Some b \<Rightarrow>
                                (Inl HashMismatch,
                                 reg_emit W (evs @ [life_event ''activate'' False p name (Some (pr_state r')) None
                                   (Some (pr_hash r')) b]) s')))))"

definition activate :: "reg_world \<Rightarrow> string \<Rightarrow> string \<Rightarrow> principal \<Rightarrow> reg_state \<Rightarrow> plugin_record reg_result" where
  "activate W name expected p s =
     (case require_host W ''activate'' name p s of
        (Some e, s') \<Rightarrow> (Inl e, s')
      | (None, s') \<Rightarrow> (case reg_load s' of Inl e \<Rightarrow> (Inl e, s') | Inr rs \<Rightarrow> activate_checked W name expected p rs s'))"

subsection \<open>Quarantine, retirement, the load check\<close>

text \<open>\<open>quarantine\<close> and \<open>retire\<close>: nothing to do in the target state, else one move.\<close>

definition move_to ::
  "plugin_state \<Rightarrow> string \<Rightarrow> reg_world \<Rightarrow> string \<Rightarrow> principal \<Rightarrow> string \<Rightarrow> reg_state \<Rightarrow> plugin_record reg_result" where
  "move_to new action W name p why s =
     (case require_host W action name p s of
        (Some e, s1) \<Rightarrow> (Inl e, s1)
      | (None, s1) \<Rightarrow>
          (case reg_load s1 of
             Inl e \<Rightarrow> (Inl e, s1)
           | Inr rs \<Rightarrow>
               (case dict_get rs name of
                  None \<Rightarrow> (Inl UnknownPlugin, s1)
                | Some r \<Rightarrow>
                    if pr_state r = new then (Inr r, s1)
                    else (case reg_move r new action p why of
                            Inl e \<Rightarrow> (Inl e, s1)
                          | Inr (r', ev) \<Rightarrow>
                              (case reg_save W (dict_set rs name r') s1 of
                                 Inl e \<Rightarrow> (Inl e, s1)
                               | Inr s2 \<Rightarrow> (Inr r', reg_emit W [ev] s2))))))"

definition quarantine :: "reg_world \<Rightarrow> string \<Rightarrow> principal \<Rightarrow> string \<Rightarrow> reg_state \<Rightarrow> plugin_record reg_result" where
  "quarantine = move_to Quarantined ''quarantine''"

definition retire :: "reg_world \<Rightarrow> string \<Rightarrow> principal \<Rightarrow> string \<Rightarrow> reg_state \<Rightarrow> plugin_record reg_result" where
  "retire = move_to Retired ''retire''"

text \<open>\<open>check_active\<close>: every failure is \<open>False\<close>; a mismatch quarantines.\<close>

definition check_active :: "reg_world \<Rightarrow> string \<Rightarrow> string option \<Rightarrow> reg_state \<Rightarrow> bool \<times> reg_state" where
  "check_active W name given s =
     (case reg_load s of
        Inl _ \<Rightarrow> (False, s)
      | Inr rs \<Rightarrow>
          (case dict_get rs name of
             None \<Rightarrow> (False, s)
           | Some r \<Rightarrow>
               if pr_state r \<noteq> Active then (False, s)
               else if (case given of Some h \<Rightarrow> Some h | None \<Rightarrow> rw_disk W (pr_root r) name) = Some (pr_hash r)
                 then (True, s)
               else (case reg_move r Quarantined ''load_check'' REGISTRY_PRINCIPAL ''hash mismatch at load'' of
                       Inl _ \<Rightarrow> (False, s)
                     | Inr (r', ev) \<Rightarrow>
                         (case reg_save W (dict_set rs name r') s of
                            Inl _ \<Rightarrow> (False, s)
                          | Inr s' \<Rightarrow> (False, reg_emit W [ev] s')))))"

text \<open>Reads.\<close>

definition reg_get :: "string \<Rightarrow> reg_state \<Rightarrow> (reg_error, plugin_record option) py" where
  "reg_get name s = (case reg_load s of Inl e \<Rightarrow> Inl e | Inr rs \<Rightarrow> Inr (dict_get rs name))"

definition list_plugins :: "string option \<Rightarrow> reg_state \<Rightarrow> (reg_error, plugin_record list) py" where
  "list_plugins st s =
     (if (case st of None \<Rightarrow> False | Some n \<Rightarrow> n \<notin> set (map plugin_state_name PLUGIN_STATES)) then Inl UnknownState
      else (case reg_load s of
        Inl e \<Rightarrow> Inl e
      | Inr rs \<Rightarrow> Inr (filter (\<lambda>r. st = None \<or> Some (plugin_state_name (pr_state r)) = st)
                         (map snd (sort_key fst rs)))))"

subsection \<open>The lifecycle as a step relation\<close>

text \<open>The documented diagram: \<open>None\<close> is a name without an entry.\<close>

inductive lifecycle :: "plugin_state option \<Rightarrow> plugin_state option \<Rightarrow> bool" where
  registered: "st \<in> {Candidate, Quarantined} \<Longrightarrow> lifecycle None (Some st)"
| registered_again: "st \<in> {Candidate, Quarantined} \<Longrightarrow> lifecycle (Some Retired) (Some st)"
| moved: "(a, b) \<in> TRANSITIONS \<Longrightarrow> lifecycle (Some a) (Some b)"

inductive_cases lifecycle_to_ActiveE: "lifecycle st (Some Active)"
inductive_cases lifecycle_from_RetiredE: "lifecycle (Some Retired) st"
inductive_simps lifecycle_simps: "lifecycle (Some a) (Some b)" "lifecycle None (Some b)" "lifecycle st None"

lemma active_only_from_quarantine: "lifecycle st (Some Active) \<Longrightarrow> st = Some Quarantined"
  by (erule lifecycle_to_ActiveE) (auto simp: TRANSITIONS_def)

subsection \<open>Operations\<close>

datatype reg_op =
    RegisterOp reg_world manifest string principal
  | ActivateOp reg_world string string principal
  | QuarantineOp reg_world string principal string
  | RetireOp reg_world string principal string
  | CheckOp reg_world string "string option"

fun reg_run :: "reg_op \<Rightarrow> reg_state \<Rightarrow> reg_state" where
  "reg_run (RegisterOp W m root p) s = snd (register_plugin W m root p s)"
| "reg_run (ActivateOp W name expected p) s = snd (activate W name expected p s)"
| "reg_run (QuarantineOp W name p why) s = snd (quarantine W name p why s)"
| "reg_run (RetireOp W name p why) s = snd (retire W name p why s)"
| "reg_run (CheckOp W name given) s = snd (check_active W name given s)"

fun op_name :: "reg_op \<Rightarrow> string" where
  "op_name (RegisterOp W m root p) = mf_name m"
| "op_name (ActivateOp W name expected p) = name"
| "op_name (QuarantineOp W name p why) = name"
| "op_name (RetireOp W name p why) = name"
| "op_name (CheckOp W name given) = name"

text \<open>Who acts: the load check acts for the registry itself.\<close>

fun op_actor :: "reg_op \<Rightarrow> principal" where
  "op_actor (RegisterOp W m root p) = p"
| "op_actor (ActivateOp W name expected p) = p"
| "op_actor (QuarantineOp W name p why) = p"
| "op_actor (RetireOp W name p why) = p"
| "op_actor (CheckOp W name given) = REGISTRY_PRINCIPAL"

fun op_world :: "reg_op \<Rightarrow> reg_world" where
  "op_world (RegisterOp W m root p) = W"
| "op_world (ActivateOp W name expected p) = W"
| "op_world (QuarantineOp W name p why) = W"
| "op_world (RetireOp W name p why) = W"
| "op_world (CheckOp W name given) = W"

definition entry :: "string \<Rightarrow> reg_state \<Rightarrow> plugin_record option" where
  "entry name s = (case reg_load s of Inl _ \<Rightarrow> None | Inr rs \<Rightarrow> dict_get rs name)"

definition state_of :: "string \<Rightarrow> reg_state \<Rightarrow> plugin_state option" where
  "state_of name s = map_option pr_state (entry name s)"

definition reg_wf :: "reg_state \<Rightarrow> bool" where
  "reg_wf s \<longleftrightarrow> (case rg_file s of Entries d \<Rightarrow> dict_wf d | _ \<Rightarrow> True)"

text \<open>A committed change: one entry is replaced and an allowed event tells what it became.\<close>

definition commits :: "reg_world \<Rightarrow> string \<Rightarrow> plugin_record \<Rightarrow> reg_state \<Rightarrow> reg_state \<Rightarrow> bool" where
  "commits W name r s s' \<longleftrightarrow>
     (\<exists>rs evs. reg_load s = Inr rs \<and> rg_file s' = Entries (sort_key fst (dict_set rs name r))
        \<and> rg_events s' = rg_events s @ filter (rw_sink W) evs \<and> pr_name r = name
        \<and> (\<exists>ev \<in> set evs. le_verdict ev \<and> le_plugin ev = name \<and> le_to ev = Some (pr_state r)))"

subsection \<open>What each operation does\<close>

lemma require_host_cases:
  assumes "require_host W action name p s = (e, s')"
  shows "rg_file s' = rg_file s" "e = None \<longleftrightarrow> p_kind p = HostKind" "e = None \<Longrightarrow> s' = s"
  using assms
  by (auto simp: require_host_def check_floors_def reg_emit_def Let_def EXEC_CAPABILITIES_def
      FS_CAPABILITIES_def split: if_splits)

lemma require_host_denied:
  assumes "p_kind p \<noteq> HostKind"
  obtains e s1 where "require_host W action name p s = (Some e, s1)" "rg_file s1 = rg_file s"
proof -
  obtain e s1 where r: "require_host W action name p s = (e, s1)" by fastforce
  from require_host_cases(1,2)[OF r] assms that r show ?thesis by auto
qed

lemma require_host_ok: "p_kind p = HostKind \<Longrightarrow> require_host W action name p s = (None, s)"
  using require_host_cases[of W action name p s] by (cases "require_host W action name p s") auto

lemma load_names: "reg_load s = Inr rs \<Longrightarrow> dict_get rs n = Some r \<Longrightarrow> pr_name r = n"
  by (auto simp: reg_load_def list_ex_iff split: reg_file.splits if_splits dest!: map_of_SomeD)

lemma reg_emit_file [simp]: "rg_file (reg_emit W evs s) = rg_file s"
  by (simp add: reg_emit_def)

lemma reg_save_file: "reg_save W d s = Inr s' \<Longrightarrow> s' = s\<lparr>rg_file := Entries (sort_key fst d)\<rparr>"
  by (auto simp: reg_save_def split: if_splits)

lemma commits_saved:
  assumes "reg_load s = Inr rs" "reg_save W (dict_set rs name r) s = Inr s'" "pr_name r = name"
    "ev \<in> set evs" "le_verdict ev" "le_plugin ev = name" "le_to ev = Some (pr_state r)"
  shows "commits W name r s (reg_emit W evs s')"
  using assms unfolding commits_def by (auto simp: reg_emit_def dest!: reg_save_file)

lemma state_of_loaded: "reg_load s = Inr rs \<Longrightarrow> state_of name s = map_option pr_state (dict_get rs name)"
  by (simp add: state_of_def entry_def)

lemma life_event_sel [simp]:
  "le_verdict (life_event action ok p name old new h why) = ok"
  "le_plugin (life_event action ok p name old new h why) = name"
  "le_to (life_event action ok p name old new h why) = new"
  by (simp_all add: life_event_def)

lemma register_checked_effect:
  assumes "register_checked W m root p rs s = (x, s')" "reg_load s = Inr rs"
  shows "rg_file s' = rg_file s \<or> (\<exists>r. commits W (mf_name m) r s s'
    \<and> lifecycle (state_of (mf_name m) s) (Some (pr_state r)) \<and> pr_state r \<noteq> Active)"
proof (cases "dict_get rs (mf_name m)")
  case None
  then show ?thesis
    using assms
    by (auto simp: register_checked_def Let_def state_of_loaded lifecycle_simps reg_save_def
        split: sum.splits if_splits intro!: exI[where x = "_ :: plugin_record"] commits_saved)
next
  case (Some r)
  then show ?thesis
    using assms
    by (auto simp: register_checked_def Let_def state_of_loaded lifecycle_simps reg_save_def
        split: sum.splits if_splits option.splits intro!: commits_saved)
qed

lemma reg_move_Inr:
  "reg_move r new action p why = Inr (r', ev) \<Longrightarrow>
     (pr_state r, new) \<in> TRANSITIONS \<and> r' = r\<lparr>pr_state := new, pr_reason := why\<rparr> \<and> le_verdict ev
     \<and> le_plugin ev = pr_name r \<and> le_to ev = Some new"
  by (auto simp: reg_move_def split: if_splits)

lemma moved_commits:
  assumes l: "reg_load s = Inr rs" "dict_get rs name = Some r" and m: "reg_move r new action p why = Inr (r', ev)"
    and sv: "reg_save W (dict_set rs name r') s = Inr s'"
  shows "commits W name r' s (reg_emit W [ev] s') \<and> lifecycle (state_of name s) (Some (pr_state r')) \<and> pr_state r' = new"
proof -
  note mv = reg_move_Inr[OF m]
  have n: "pr_name r = name" by (rule load_names[OF l])
  have "commits W name r' s (reg_emit W [ev] s')"
    by (rule commits_saved[OF l(1) sv, of ev]) (use mv n in simp_all)
  then show ?thesis using mv l by (simp add: state_of_loaded lifecycle_simps)
qed

lemma move_to_effect:
  assumes "move_to new action W name p why s = (x, s')" "new \<noteq> Active"
  shows "rg_file s' = rg_file s \<or> (\<exists>r. commits W name r s s' \<and> lifecycle (state_of name s) (Some (pr_state r))
    \<and> pr_state r \<noteq> Active \<and> p_kind p = HostKind)"
proof (cases "p_kind p = HostKind")
  case False
  then obtain e s1 where "require_host W action name p s = (Some e, s1)" "rg_file s1 = rg_file s"
    by (rule require_host_denied)
  with assms(1) show ?thesis by (simp add: move_to_def)
next
  case True
  then have rh: "require_host W action name p s = (None, s)" by (rule require_host_ok)
  show ?thesis
  proof (cases "rg_file s' = rg_file s")
    case False
    then obtain rs r r' ev s1 where l: "reg_load s = Inr rs" "dict_get rs name = Some r"
      and m: "reg_move r new action p why = Inr (r', ev)" "reg_save W (dict_set rs name r') s = Inr s1"
        "s' = reg_emit W [ev] s1"
      using assms(1) rh by (auto simp: move_to_def split: sum.splits option.splits if_splits)
    show ?thesis using moved_commits[OF l m(1,2)] m(3) True assms(2) by auto
  qed simp
qed

lemma check_active_effect:
  assumes "check_active W name given s = (b, s')"
  shows "rg_file s' = rg_file s \<or> (\<exists>r. commits W name r s s' \<and> lifecycle (state_of name s) (Some (pr_state r))
    \<and> pr_state r = Quarantined)"
proof (cases "reg_load s")
  case (Inr rs)
  show ?thesis
  proof (cases "dict_get rs name")
    case (Some r)
    show ?thesis
    proof (cases "rg_file s' = rg_file s")
      case False
      then obtain r' ev s1 where "reg_move r Quarantined ''load_check'' REGISTRY_PRINCIPAL ''hash mismatch at load'' = Inr (r', ev)"
          "reg_save W (dict_set rs name r') s = Inr s1" "s' = reg_emit W [ev] s1"
        using assms Inr Some by (auto simp: check_active_def split: if_splits sum.splits)
      with moved_commits[OF Inr Some] show ?thesis by blast
    qed simp
  qed (use assms Inr in \<open>auto simp: check_active_def\<close>)
qed (use assms in \<open>auto simp: check_active_def\<close>)

lemma activate_moves_Inr:
  assumes m: "activate_moves W p bad r = Inr (r', evs)" and st: "pr_state r \<in> {Candidate, Quarantined, Active}"
    and fresh: "bad = None \<longrightarrow> pr_state r \<noteq> Active"
  shows "lifecycle\<^sup>*\<^sup>* (Some (pr_state r)) (Some (pr_state r')) \<and> pr_name r' = pr_name r \<and> pr_hash r' = pr_hash r
    \<and> pr_root r' = pr_root r \<and> (pr_state r' = Active \<longleftrightarrow> bad = None)
    \<and> (bad = None \<longrightarrow> pr_activated_by r' = Some (p_name p))
    \<and> (evs \<noteq> [] \<longrightarrow> le_verdict (last evs) \<and> le_plugin (last evs) = pr_name r \<and> le_to (last evs) = Some (pr_state r'))
    \<and> (evs = [] \<longrightarrow> r' = r)"
proof -
  have e: "lifecycle (Some Candidate) (Some Quarantined)" "lifecycle (Some Quarantined) (Some Active)"
    "lifecycle (Some Active) (Some Quarantined)" by (simp_all add: lifecycle_simps TRANSITIONS_def)
  note step = r_into_rtranclp[of lifecycle]
  show ?thesis
  proof (cases "bad = None")
    case True
    then show ?thesis
      using m st fresh e converse_rtranclp_into_rtranclp[OF e(1) step[OF e(2)]]
      by (auto simp: activate_moves_def reg_move_def TRANSITIONS_def split: if_splits)
  next
    case False
    then show ?thesis
      using m st e by (auto simp: activate_moves_def reg_move_def TRANSITIONS_def split: if_splits option.splits)
  qed
qed

text \<open>What makes an activation legitimate.\<close>

definition approves :: "reg_op \<Rightarrow> plugin_record \<Rightarrow> bool" where
  "approves op r \<longleftrightarrow>
     (case op of
        ActivateOp W name expected p \<Rightarrow>
          p_kind p = HostKind \<and> name = pr_name r \<and> expected = pr_hash r
          \<and> rw_disk W (pr_root r) name = Some (pr_hash r) \<and> pr_activated_by r = Some (p_name p)
      | _ \<Rightarrow> False)"

lemma activate_effect:
  assumes "activate W name expected p s = (x, s')"
  shows "rg_file s' = rg_file s \<or> (\<exists>r. commits W name r s s' \<and> lifecycle\<^sup>*\<^sup>* (state_of name s) (Some (pr_state r))
    \<and> p_kind p = HostKind \<and> (pr_state r = Active \<longrightarrow> approves (ActivateOp W name expected p) r))"
proof (cases "p_kind p = HostKind")
  case False
  then obtain e s1 where "require_host W ''activate'' name p s = (Some e, s1)" "rg_file s1 = rg_file s"
    by (rule require_host_denied)
  with assms show ?thesis by (simp add: activate_def)
next
  case True
  then have rh: "require_host W ''activate'' name p s = (None, s)" by (rule require_host_ok)
  show ?thesis
  proof (cases "rg_file s' = rg_file s")
    case False
    then obtain rs where l: "reg_load s = Inr rs" and a: "activate_checked W name expected p rs s = (x, s')"
      using assms rh by (auto simp: activate_def split: sum.splits)
    from a False obtain r where g: "dict_get rs name = Some r"
      by (auto simp: activate_checked_def split: option.splits)
    let ?bad = "mismatch_of W name expected r"
    from a g False have st: "pr_state r \<noteq> Retired" "\<not> (?bad = None \<and> pr_state r = Active)"
      by (auto simp: activate_checked_def Let_def split: if_splits)
    obtain r' evs where m: "activate_moves W p ?bad r = Inr (r', evs)"
      using a g st False by (auto simp: activate_checked_def Let_def split: sum.splits if_splits)
    have n: "pr_name r = name" by (rule load_names[OF l g])
    have ms: "pr_state r \<in> {Candidate, Quarantined, Active}" using st(1) by (cases "pr_state r") auto
    note mv = activate_moves_Inr[OF m ms]
    have ne: "evs \<noteq> []" using a g st m False by (auto simp: activate_checked_def Let_def split: option.splits)
    obtain s1 where sv: "reg_save W (dict_set rs name r') s = Inr s1"
      using a g st m ne False by (auto simp: activate_checked_def Let_def split: sum.splits)
    have s': "\<exists>evs'. s' = reg_emit W evs' s1 \<and> set evs \<subseteq> set evs'"
      using a g st m ne sv by (auto simp: activate_checked_def Let_def split: option.splits)
    then obtain evs' where e': "s' = reg_emit W evs' s1" "set evs \<subseteq> set evs'" by blast
    have "last evs \<in> set evs'" using ne e'(2) by auto
    then have "commits W name r' s s'"
      unfolding e'(1) using mv st(2) n ne by (intro commits_saved[OF l sv, of "last evs"]) auto
    moreover have "pr_state r' = Active \<longrightarrow> approves (ActivateOp W name expected p) r'"
      using mv st(2) n True by (auto simp: approves_def mismatch_of_def split: if_splits)
    ultimately show ?thesis using mv st(2) True l g by (auto simp: state_of_loaded)
  qed simp
qed

text \<open>All operations alike.\<close>

lemma reg_run_effect:
  "rg_file (reg_run op s) = rg_file s \<or>
     (\<exists>r. commits (op_world op) (op_name op) r s (reg_run op s)
        \<and> lifecycle\<^sup>*\<^sup>* (state_of (op_name op) s) (Some (pr_state r))
        \<and> p_kind (op_actor op) = HostKind \<and> (pr_state r = Active \<longrightarrow> approves op r))"
proof (cases op)
  case (RegisterOp W m root p)
  show ?thesis
  proof (cases "p_kind p = HostKind")
    case False
    then obtain e s1 where "require_host W ''register'' (mf_name m) p s = (Some e, s1)" "rg_file s1 = rg_file s"
      by (rule require_host_denied)
    then show ?thesis by (simp add: RegisterOp register_plugin_def)
  next
    case True
    then have rh: "require_host W ''register'' (mf_name m) p s = (None, s)" by (rule require_host_ok)
    show ?thesis
    proof (cases "reg_load s")
      case (Inl e)
      then show ?thesis by (simp add: RegisterOp register_plugin_def rh)
    next
      case (Inr rs)
      obtain x s' where c: "register_checked W m root p rs s = (x, s')" by fastforce
      with rh Inr have "reg_run op s = s'" by (simp add: RegisterOp register_plugin_def)
      with register_checked_effect[OF c Inr] True show ?thesis by (auto simp: RegisterOp)
    qed
  qed
next
  case (ActivateOp W name expected p)
  then show ?thesis using activate_effect[of W name expected p s] by (cases "activate W name expected p s") auto
next
  case (QuarantineOp W name p why)
  then show ?thesis
    using move_to_effect[of Quarantined "''quarantine''" W name p why s]
    by (cases "quarantine W name p why s") (auto simp: quarantine_def)
next
  case (RetireOp W name p why)
  then show ?thesis
    using move_to_effect[of Retired "''retire''" W name p why s]
    by (cases "retire W name p why s") (auto simp: retire_def)
next
  case (CheckOp W name given)
  then show ?thesis
    using check_active_effect[of W name given s]
    by (cases "check_active W name given s") (auto simp: REGISTRY_PRINCIPAL_def)
qed

lemma map_of_sort_key:
  assumes "dict_wf d"
  shows "dict_get (sort_key fst d) k = dict_get d k"
proof -
  have "dict_wf (sort_key fst d)" using assms by (simp add: distinct_map)
  then have "dict_get (sort_key fst d) k = Some v \<longleftrightarrow> dict_get d k = Some v" for v using assms by simp
  then show ?thesis by (metis not_None_eq)
qed

lemma saved_entry:
  assumes l: "reg_load s = Inr rs" and f: "rg_file s' = Entries (sort_key fst (dict_set rs name r))"
    and n: "pr_name r = name" and wf: "reg_wf s"
  shows "reg_wf s'" "entry n s' = (if n = name then Some r else entry n s)" "\<exists>rs. reg_load s' = Inr rs"
proof -
  have d: "dict_wf rs" using l wf by (auto simp: reg_load_def reg_wf_def split: reg_file.splits if_splits)
  then have d': "dict_wf (dict_set rs name r)" by simp
  show "reg_wf s'" using d' by (simp add: reg_wf_def f distinct_map)
  have "list_ex (\<lambda>(name, r). name \<noteq> pr_name r) rs = False"
    using l by (auto simp: reg_load_def split: reg_file.splits if_splits)
  then have "\<not> list_ex (\<lambda>(name, r). name \<noteq> pr_name r) (sort_key fst (dict_set rs name r))"
    using set_dict_set[of rs name r] n by (auto simp: list_ex_iff)
  then have l': "reg_load s' = Inr (sort_key fst (dict_set rs name r))" by (simp add: reg_load_def f)
  then show "\<exists>rs. reg_load s' = Inr rs" by blast
  show "entry n s' = (if n = name then Some r else entry n s)"
    unfolding entry_def l' l using map_of_sort_key[OF d'] by simp
qed

lemma commits_entry:
  assumes "commits W name r s s'" "reg_wf s"
  shows "reg_wf s'" "entry n s' = (if n = name then Some r else entry n s)" "\<exists>rs. reg_load s' = Inr rs"
  using assms saved_entry by (auto simp: commits_def)

lemma same_file_entry: "rg_file s' = rg_file s \<Longrightarrow> entry n s' = entry n s \<and> reg_wf s' = reg_wf s \<and> reg_load s' = reg_load s"
  by (simp add: entry_def reg_load_def reg_wf_def)

subsection \<open>The moves of an operation\<close>

text \<open>
  The states an operation may take its entry through, by the state it finds (None when there is no entry): an activation
  goes through quarantine, every other operation makes one move at most.
\<close>

definition op_path :: "reg_op \<Rightarrow> plugin_state option \<Rightarrow> plugin_state list \<Rightarrow> bool" where
  "op_path op a bs \<longleftrightarrow> bs = [] \<or>
     (case op of
        RegisterOp _ _ _ _ \<Rightarrow> a \<in> {None, Some Retired} \<and> bs \<in> {[Candidate], [Quarantined]}
      | ActivateOp _ _ _ _ \<Rightarrow>
          (a, bs) \<in> {(Some Candidate, [Quarantined]), (Some Candidate, [Quarantined, Active]),
                     (Some Quarantined, [Active]), (Some Active, [Quarantined])}
      | QuarantineOp _ _ _ _ \<Rightarrow> a \<in> {Some Candidate, Some Active} \<and> bs = [Quarantined]
      | RetireOp _ _ _ _ \<Rightarrow> a \<in> {Some Candidate, Some Quarantined, Some Active} \<and> bs = [Retired]
      | CheckOp _ _ _ \<Rightarrow> a = Some Active \<and> bs = [Quarantined])"

text \<open>The moves through the states \<open>bs\<close>, from \<open>a\<close>.\<close>

definition moves_from :: "plugin_state option \<Rightarrow> plugin_state list \<Rightarrow> (plugin_state option \<times> plugin_state option) list" where
  "moves_from a bs = zip (a # map Some bs) (map Some bs)"

lemma moves_from_simps [simp]:
  "moves_from a [] = []" "moves_from a (b # bs) = (a, Some b) # moves_from (Some b) bs"
  by (simp_all add: moves_from_def)

lemma op_path_lifecycle: "op_path op a bs \<Longrightarrow> list_all (\<lambda>(x, y). lifecycle x y) (moves_from a bs)"
  by (auto simp: op_path_def lifecycle_simps TRANSITIONS_def split: reg_op.splits)

text \<open>The state the event of a first move starts from: a registration always records none.\<close>

definition recorded_from :: "reg_op \<Rightarrow> plugin_state option \<Rightarrow> plugin_state option" where
  "recorded_from op a = (case op of RegisterOp _ _ _ _ \<Rightarrow> None | _ \<Rightarrow> a)"

text \<open>An operation that went through \<open>bs\<close>: one allowed event for each move, and the entry saved in the last state.\<close>

definition traced :: "reg_op \<Rightarrow> reg_state \<Rightarrow> reg_state \<Rightarrow> bool" where
  "traced op s s' \<longleftrightarrow> (\<exists>evs bs.
     rg_events s' = rg_events s @ filter (rw_sink (op_world op)) evs
     \<and> list_all (\<lambda>e. le_plugin e = op_name op) evs
     \<and> map (\<lambda>e. (le_from e, le_to e)) (filter le_verdict evs) = moves_from (recorded_from op (state_of (op_name op) s)) bs
     \<and> op_path op (state_of (op_name op) s) bs
     \<and> (if bs = [] then rg_file s' = rg_file s
        else (\<exists>rs r. reg_load s = Inr rs \<and> rg_file s' = Entries (sort_key fst (dict_set rs (op_name op) r))
                \<and> pr_name r = op_name op \<and> pr_state r = last bs)))"

lemma life_event_from [simp]: "le_from (life_event action ok p name old new h why) = old"
  by (simp add: life_event_def)

lemma traced_quiet:
  assumes "s' = reg_emit (op_world op) evs s" "list_all (\<lambda>e. le_plugin e = op_name op \<and> \<not> le_verdict e) evs"
  shows "traced op s s'"
  unfolding traced_def using assms
  by (intro exI[of _ evs] exI[of _ "[]"])
    (auto simp: reg_emit_def op_path_def list_all_iff intro: filter_False)

lemma traced_same: "traced op s s"
  by (rule traced_quiet[of _ _ "[]"]) (simp_all add: reg_emit_def)

lemma traced_saved:
  assumes "reg_load s = Inr rs" "reg_save (op_world op) (dict_set rs (op_name op) r) s = Inr s1"
    "pr_name r = op_name op" "list_all (\<lambda>e. le_plugin e = op_name op) evs"
    "map (\<lambda>e. (le_from e, le_to e)) (filter le_verdict evs) = moves_from (recorded_from op (state_of (op_name op) s)) bs"
    "op_path op (state_of (op_name op) s) bs" "bs \<noteq> []" "pr_state r = last bs"
  shows "traced op s (reg_emit (op_world op) evs s1)"
  unfolding traced_def using assms
  by (intro exI[of _ evs] exI[of _ bs]) (auto simp: reg_emit_def dest!: reg_save_file)

lemma require_host_event:
  assumes "require_host W action name p s = (Some e, s1)"
  shows "\<exists>evs. s1 = reg_emit W evs s \<and> list_all (\<lambda>e. le_plugin e = name \<and> \<not> le_verdict e) evs"
proof -
  have "s1 = reg_emit W [] s \<or> (\<exists>ev. s1 = reg_emit W [ev] s \<and> le_plugin ev = name \<and> \<not> le_verdict ev)"
    using assms by (auto simp: require_host_def Let_def reg_emit_def split: sum.splits option.splits)
  then show ?thesis
  proof (elim disjE exE conjE)
    assume "s1 = reg_emit W [] s"
    then show ?thesis by (intro exI[of _ "[]"]) simp
  next
    fix ev assume "s1 = reg_emit W [ev] s" "le_plugin ev = name" "\<not> le_verdict ev"
    then show ?thesis by (intro exI[of _ "[ev]"]) (simp add: list_all_iff)
  qed
qed

lemma reg_move_event:
  "reg_move r new action p why = Inr (r', ev) \<Longrightarrow>
     (pr_state r, new) \<in> TRANSITIONS \<and> r' = r\<lparr>pr_state := new, pr_reason := why\<rparr> \<and> le_verdict ev
     \<and> le_plugin ev = pr_name r \<and> le_from ev = Some (pr_state r) \<and> le_to ev = Some new"
  by (auto simp: reg_move_def split: if_splits)

lemma move_traced:
  assumes l: "reg_load s = Inr rs" "dict_get rs (op_name op) = Some r"
    and m: "reg_move r new action p why = Inr (r', ev)"
    and sv: "reg_save (op_world op) (dict_set rs (op_name op) r') s = Inr s1"
    and path: "op_path op (Some (pr_state r)) [new]" and recd: "recorded_from op (Some (pr_state r)) = Some (pr_state r)"
  shows "traced op s (reg_emit (op_world op) [ev] s1)"
  using reg_move_event[OF m] load_names[OF l] path recd
  by (intro traced_saved[OF l(1) sv, where bs = "[new]"]) (auto simp: state_of_loaded[OF l(1)] l(2))

lemma move_to_traced:
  assumes path: "\<And>st. (st, new) \<in> TRANSITIONS \<Longrightarrow> op_path op (Some st) [new]"
    and recd: "\<And>st. recorded_from op st = st"
  shows "traced op s (snd (move_to new action (op_world op) (op_name op) p why s))"
proof -
  obtain x s' where m: "move_to new action (op_world op) (op_name op) p why s = (x, s')" by fastforce
  obtain e s1 where rh: "require_host (op_world op) action (op_name op) p s = (e, s1)" by fastforce
  show ?thesis
  proof (cases e)
    case (Some e')
    then show ?thesis
      using m rh require_host_event[OF rh[unfolded Some]] traced_quiet by (auto simp: move_to_def)
  next
    case None
    then have s1: "s1 = s" using require_host_cases(3)[OF rh] by simp
    show ?thesis
    proof (cases "s' = s")
      case True
      with m show ?thesis by (simp add: traced_same)
    next
      case False
      then obtain rs r r' ev s2 where l: "reg_load s = Inr rs" "dict_get rs (op_name op) = Some r"
        and v: "reg_move r new action p why = Inr (r', ev)"
          "reg_save (op_world op) (dict_set rs (op_name op) r') s = Inr s2" "s' = reg_emit (op_world op) [ev] s2"
        using m rh None s1 by (auto simp: move_to_def split: sum.splits option.splits if_splits)
      from move_traced[OF l v(1,2)] reg_move_event[OF v(1)] path recd v(3) m show ?thesis by simp
    qed
  qed
qed

lemma register_traced: "traced (RegisterOp W m root p) s (snd (register_plugin W m root p s))"
proof -
  let ?op = "RegisterOp W m root p"
  obtain e s1 where rh: "require_host W ''register'' (mf_name m) p s = (e, s1)" by fastforce
  show ?thesis
  proof (cases e)
    case (Some e')
    then show ?thesis
      using rh require_host_event[OF rh[unfolded Some]] traced_quiet[of _ ?op] by (auto simp: register_plugin_def)
  next
    case None
    then have s1: "s1 = s" using require_host_cases(3)[OF rh] by simp
    show ?thesis
    proof (cases "reg_load s")
      case (Inl e)
      with rh None s1 show ?thesis by (simp add: register_plugin_def traced_same)
    next
      case (Inr rs)
      obtain x s' where c: "register_checked W m root p rs s = (x, s')" by fastforce
      have quiet: "traced ?op s (reg_emit W [life_event ''register'' False p (mf_name m) a b h why] s)" for a b h why
        using traced_quiet[OF refl, of ?op "[life_event ''register'' False p (mf_name m) a b h why]" s] by simp
      have saved: "traced ?op s (reg_emit W [life_event ''register'' True p (mf_name m) None (Some st) h why] s2)"
        if "reg_save W (dict_set rs (mf_name m) r) s = Inr s2" "pr_name r = mf_name m" "pr_state r = st"
          "st \<in> {Candidate, Quarantined}" "map_option pr_state (dict_get rs (mf_name m)) \<in> {None, Some Retired}" for r s2 st h why
        using that Inr traced_saved[of s rs ?op r s2 "[life_event ''register'' True p (mf_name m) None (Some st) h why]" "[st]"]
        by (auto simp: state_of_loaded op_path_def recorded_from_def)
      have "traced ?op s s'"
      proof (cases "\<exists>r. dict_get rs (mf_name m) = Some r \<and> pr_state r \<noteq> Retired")
        case True
        with c show ?thesis by (auto simp: register_checked_def Let_def intro: traced_same quiet split: if_splits)
      next
        case False
        then have st: "map_option pr_state (dict_get rs (mf_name m)) \<in> {None, Some Retired}"
          by (cases "dict_get rs (mf_name m)") auto
        from False c show ?thesis
          by (auto simp: register_checked_def Let_def split: option.splits if_splits sum.splits intro!: traced_same saved[OF _ _ _ _ st])
      qed
      with c Inr rh None s1 show ?thesis by (simp add: register_plugin_def)
    qed
  qed
qed

lemma activate_moves_path:
  assumes m: "activate_moves W p bad r = Inr (r', evs)" and st: "pr_state r \<noteq> Retired" "\<not> (bad = None \<and> pr_state r = Active)"
  shows "\<exists>bs. map (\<lambda>e. (le_from e, le_to e)) evs = moves_from (Some (pr_state r)) bs
     \<and> op_path (ActivateOp W' n h q) (Some (pr_state r)) bs
     \<and> list_all (\<lambda>e. le_plugin e = pr_name r \<and> le_verdict e) evs \<and> pr_name r' = pr_name r
     \<and> (bs = [] \<longleftrightarrow> evs = []) \<and> (bs \<noteq> [] \<longrightarrow> pr_state r' = last bs)"
  using m st
  by (cases "pr_state r"; cases bad)
    (auto simp: activate_moves_def reg_move_def TRANSITIONS_def op_path_def split: if_splits
      intro: exI[of _ "[]"] exI[of _ "[Quarantined]"] exI[of _ "[Active]"] exI[of _ "[Quarantined, Active]"])

lemma activate_traced: "traced (ActivateOp W name expected p) s (snd (activate W name expected p s))"
proof -
  let ?op = "ActivateOp W name expected p"
  obtain e s1 where rh: "require_host W ''activate'' name p s = (e, s1)" by fastforce
  show ?thesis
  proof (cases e)
    case (Some e')
    then show ?thesis
      using rh require_host_event[OF rh[unfolded Some]] traced_quiet[of _ ?op] by (auto simp: activate_def)
  next
    case None
    then have s1: "s1 = s" using require_host_cases(3)[OF rh] by simp
    show ?thesis
    proof (cases "reg_load s")
      case (Inl e)
      with rh None s1 show ?thesis by (simp add: activate_def traced_same)
    next
      case (Inr rs)
      obtain x s' where a: "activate_checked W name expected p rs s = (x, s')" by fastforce
      have "traced ?op s s'"
      proof (cases "s' = s")
        case False
        then obtain r where g: "dict_get rs name = Some r" and live: "pr_state r \<noteq> Retired"
          and st: "\<not> (mismatch_of W name expected r = None \<and> pr_state r = Active)"
          using a by (auto simp: activate_checked_def Let_def split: option.splits if_splits)
        let ?bad = "mismatch_of W name expected r"
        obtain r' evs where m: "activate_moves W p ?bad r = Inr (r', evs)"
          using a g live st False by (auto simp: activate_checked_def Let_def split: sum.splits if_splits)
        have n: "pr_name r = name" by (rule load_names[OF Inr g])
        obtain bs where bs: "map (\<lambda>e. (le_from e, le_to e)) evs = moves_from (Some (pr_state r)) bs"
          "op_path ?op (Some (pr_state r)) bs" "list_all (\<lambda>e. le_plugin e = name \<and> le_verdict e) evs" "pr_name r' = name"
          "bs = [] \<longleftrightarrow> evs = []" "bs \<noteq> [] \<longrightarrow> pr_state r' = last bs"
          using activate_moves_path[OF m live st] n by blast
        let ?ev = "\<lambda>b. life_event ''activate'' False p name (Some (pr_state r')) None (Some (pr_hash r')) b"
        let ?evs = "case ?bad of None \<Rightarrow> evs | Some b \<Rightarrow> evs @ [?ev b]"
        have f: "filter le_verdict evs = evs" "filter le_verdict ?evs = evs" "list_all (\<lambda>e. le_plugin e = name) ?evs"
          using bs(3) by (auto simp: list_all_iff filter_id_conv split: option.split)
        show ?thesis
        proof (cases "evs = []")
          case True
          then have "s' = reg_emit W ?evs s"
            using a g live st m by (auto simp: activate_checked_def Let_def split: option.splits)
          then show ?thesis
            using True by (intro traced_quiet[of _ ?op ?evs]) (auto split: option.split)
        next
          case ne: False
          then obtain s2 where sv: "reg_save W (dict_set rs name r') s = Inr s2" "s' = reg_emit W ?evs s2"
            using a g live st m False by (auto simp: activate_checked_def Let_def split: option.splits sum.splits)
          show ?thesis
            unfolding sv(2)
            using Inr sv(1) bs f ne g
            by (intro traced_saved[of s rs ?op r' s2 ?evs bs, simplified]) (simp_all add: state_of_loaded recorded_from_def)
        qed
      qed (simp add: traced_same)
      with a Inr rh None s1 show ?thesis by (simp add: activate_def)
    qed
  qed
qed

lemma check_traced: "traced (CheckOp W name given) s (snd (check_active W name given s))"
proof -
  let ?op = "CheckOp W name given"
  obtain b s' where c: "check_active W name given s = (b, s')" by fastforce
  have "traced ?op s s'"
  proof (cases "s' = s")
    case False
    then obtain rs r r' ev s1 where l: "reg_load s = Inr rs" "dict_get rs name = Some r" "pr_state r = Active"
      and m: "reg_move r Quarantined ''load_check'' REGISTRY_PRINCIPAL ''hash mismatch at load'' = Inr (r', ev)"
        "reg_save W (dict_set rs name r') s = Inr s1" "s' = reg_emit W [ev] s1"
      using c by (auto simp: check_active_def split: if_splits sum.splits option.splits)
    show ?thesis
      unfolding m(3) using move_traced[of s rs ?op r] l m(1,2) by (simp add: op_path_def recorded_from_def)
  qed (simp add: traced_same)
  with c show ?thesis by simp
qed

lemma reg_run_traced: "traced op s (reg_run op s)"
proof (cases op)
  case (QuarantineOp W name p why)
  then show ?thesis
    using move_to_traced[of Quarantined op s "''quarantine''" p why]
    by (simp add: quarantine_def recorded_from_def op_path_def TRANSITIONS_def)
next
  case (RetireOp W name p why)
  then show ?thesis
    using move_to_traced[of Retired op s "''retire''" p why]
    by (simp add: retire_def recorded_from_def op_path_def TRANSITIONS_def)
qed (simp_all add: register_traced activate_traced check_traced)

subsection \<open>Properties\<close>

text \<open>
  Claim C32: the registry refines the documented lifecycle. Whatever an operation finds on disk and
  whoever calls it, it changes at most the entry it names, and takes that through a path of states that \<open>op_path\<close> gives
  for the operation and the state found: at most one move, or from a candidate through quarantine to active for an
  activation; each move is one edge of the diagram, and for each there is exactly one allowed event with its two states
  (a registration records no state before), handed to the trace. The entry ends in the last state of the path and
  nothing is written when the path is empty. Only the
  host (or the registry's own load check) changes anything, and a state file that cannot be used is left alone.
\<close>

theorem lifecycle_refined:
  assumes "reg_wf s"
  shows "reg_wf (reg_run op s)
    \<and> (\<forall>n. n \<noteq> op_name op \<longrightarrow> entry n (reg_run op s) = entry n s)
    \<and> (p_kind (op_actor op) \<noteq> HostKind \<longrightarrow> rg_file (reg_run op s) = rg_file s)
    \<and> (rg_file s = BadFile \<longrightarrow> rg_file (reg_run op s) = BadFile)
    \<and> (\<exists>evs bs. op_path op (state_of (op_name op) s) bs
         \<and> list_all (\<lambda>(x, y). lifecycle x y) (moves_from (state_of (op_name op) s) bs)
         \<and> state_of (op_name op) (reg_run op s) = last (state_of (op_name op) s # map Some bs)
         \<and> (bs = [] \<longrightarrow> rg_file (reg_run op s) = rg_file s)
         \<and> rg_events (reg_run op s) = rg_events s @ filter (rw_sink (op_world op)) evs
         \<and> list_all (\<lambda>e. le_plugin e = op_name op) evs
         \<and> map (\<lambda>e. (le_from e, le_to e)) (filter le_verdict evs)
             = moves_from (recorded_from op (state_of (op_name op) s)) bs)"
proof -
  obtain evs bs where t: "rg_events (reg_run op s) = rg_events s @ filter (rw_sink (op_world op)) evs"
    "list_all (\<lambda>e. le_plugin e = op_name op) evs"
    "map (\<lambda>e. (le_from e, le_to e)) (filter le_verdict evs) = moves_from (recorded_from op (state_of (op_name op) s)) bs"
    "op_path op (state_of (op_name op) s) bs"
    "if bs = [] then rg_file (reg_run op s) = rg_file s
     else (\<exists>rs r. reg_load s = Inr rs \<and> rg_file (reg_run op s) = Entries (sort_key fst (dict_set rs (op_name op) r))
             \<and> pr_name r = op_name op \<and> pr_state r = last bs)"
    using reg_run_traced[of op s] unfolding traced_def by blast
  have host: "p_kind (op_actor op) \<noteq> HostKind \<longrightarrow> rg_file (reg_run op s) = rg_file s"
    using reg_run_effect[of op s] by blast
  have new: "reg_wf (reg_run op s) \<and> (\<forall>n. n \<noteq> op_name op \<longrightarrow> entry n (reg_run op s) = entry n s)
      \<and> state_of (op_name op) (reg_run op s) = last (state_of (op_name op) s # map Some bs)
      \<and> (rg_file s = BadFile \<longrightarrow> rg_file (reg_run op s) = BadFile)"
  proof (cases "bs = []")
    case True
    then have "rg_file (reg_run op s) = rg_file s" using t(5) by simp
    with same_file_entry[OF this] assms True
    show ?thesis
      by (simp add: state_of_def)
  next
    case False
    then obtain rs r where r: "reg_load s = Inr rs" "rg_file (reg_run op s) = Entries (sort_key fst (dict_set rs (op_name op) r))"
      "pr_name r = op_name op" "pr_state r = last bs" using t(5) by auto
    from saved_entry[OF r(1-3) assms] r False
    show ?thesis
      by (auto simp: state_of_def last_map reg_load_def)
  qed
  have "bs = [] \<longrightarrow> rg_file (reg_run op s) = rg_file s" using t(5) by simp
  with t(1-4) new host op_path_lifecycle[OF t(4)] show ?thesis by blast
qed

text \<open>An entry that is active after an operation was so before, or the operation approved it.\<close>

lemma active_step:
  assumes "reg_wf s" "entry n (reg_run op s) = Some r" "pr_state r = Active"
  shows "entry n s = Some r \<or> approves op r"
proof (cases "rg_file (reg_run op s) = rg_file s")
  case True
  then show ?thesis using same_file_entry[OF True] assms(2) by simp
next
  case False
  then obtain r' where c: "commits (op_world op) (op_name op) r' s (reg_run op s)" "pr_state r' = Active \<longrightarrow> approves op r'"
    using reg_run_effect[of op s] by blast
  with commits_entry[OF c(1) assms(1)] assms(2,3) show ?thesis by (auto split: if_splits)
qed

lemma reg_run_wf: "reg_wf s \<Longrightarrow> reg_wf (fold reg_run ops s)"
proof (induction ops arbitrary: s)
  case (Cons op ops)
  have "reg_wf (reg_run op s)"
  proof (cases "rg_file (reg_run op s) = rg_file s")
    case True
    then show ?thesis using same_file_entry[OF True] Cons.prems by simp
  next
    case False
    then show ?thesis using reg_run_effect[of op s] commits_entry(1) Cons.prems by blast
  qed
  then show ?case using Cons.IH by simp
qed simp

lemma active_approved:
  assumes "reg_wf s" "entry n (fold reg_run ops s) = Some r" "pr_state r = Active" "entry n s = None"
  shows "\<exists>pre op post. ops = pre @ op # post \<and> approves op r
    \<and> (\<forall>k. entry n (fold reg_run (pre @ op # take k post) s) = Some r)"
  using assms(2)
proof (induction ops rule: rev_induct)
  case Nil
  with assms(4) show ?case by simp
next
  case (snoc op ops)
  have wf: "reg_wf (fold reg_run ops s)" by (rule reg_run_wf[OF assms(1)])
  have last: "entry n (reg_run op (fold reg_run ops s)) = Some r" using snoc.prems by simp
  from active_step[OF wf this assms(3)] show ?case
  proof
    assume "entry n (fold reg_run ops s) = Some r"
    from snoc.IH[OF this] obtain pre op' post where
      p: "ops = pre @ op' # post" "approves op' r" "\<forall>k. entry n (fold reg_run (pre @ op' # take k post) s) = Some r"
      by blast
    have "entry n (fold reg_run (pre @ op' # take k (post @ [op])) s) = Some r" for k
      using p(3)[rule_format, of k] last p(1) by (cases "k \<le> length post") simp_all
    with p show ?case by (intro exI[of _ pre] exI[of _ op'] exI[of _ "post @ [op]"]) simp
  next
    assume "approves op r"
    with last show ?case by (intro exI[of _ ops] exI[of _ op] exI[of _ "[]"]) simp
  qed
qed

text \<open>
  Claim C4: what loads was approved. If the load check passes after any history of operations by
  anyone on a registry that began without the plugin, then the entry is active at the hash the
  check saw, and somewhere in the history the host activated it with exactly that hash, when the
  package at its root hashed to it, and no operation since changed the entry. The check is
  repeatable, and one that fails on an active entry takes it out of service when it can write.
\<close>

theorem loaded_was_approved:
  assumes "reg_wf s" and "entry n s = None" and "now = fold reg_run ops s"
    and "check_active W n given now = (ok, after)"
  shows "(ok \<longrightarrow> after = now
      \<and> (\<exists>r pre A expected p post. entry n now = Some r \<and> pr_state r = Active
          \<and> (case given of Some h \<Rightarrow> Some h | None \<Rightarrow> rw_disk W (pr_root r) n) = Some (pr_hash r)
          \<and> ops = pre @ ActivateOp A n expected p # post \<and> p_kind p = HostKind \<and> expected = pr_hash r
          \<and> rw_disk A (pr_root r) n = Some (pr_hash r)
          \<and> (\<forall>k. entry n (fold reg_run (pre @ ActivateOp A n expected p # take k post) s) = Some r)))
    \<and> (\<not> ok \<longrightarrow> rw_saves W \<longrightarrow> state_of n after \<noteq> Some Active)"
proof (intro conjI impI)
  assume ok: "ok"
  then obtain r where r: "entry n now = Some r" "pr_state r = Active" "after = now"
      "(case given of Some h \<Rightarrow> Some h | None \<Rightarrow> rw_disk W (pr_root r) n) = Some (pr_hash r)"
    using assms(4) by (auto simp: check_active_def entry_def split: sum.splits option.splits if_splits)
  show "after = now" by (rule r(3))
  obtain pre op post where a: "ops = pre @ op # post" "approves op r"
      "\<forall>k. entry n (fold reg_run (pre @ op # take k post) s) = Some r"
    using active_approved[OF assms(1) r(1)[unfolded assms(3)] r(2) assms(2)] by blast
  have "pr_name r = n" using r(1) load_names by (auto simp: entry_def split: sum.splits)
  with a(2) obtain A expected p where o: "op = ActivateOp A n expected p" "p_kind p = HostKind" "expected = pr_hash r"
      "rw_disk A (pr_root r) n = Some (pr_hash r)"
    by (auto simp: approves_def split: reg_op.splits)
  show "\<exists>r pre A expected p post. entry n now = Some r \<and> pr_state r = Active
          \<and> (case given of Some h \<Rightarrow> Some h | None \<Rightarrow> rw_disk W (pr_root r) n) = Some (pr_hash r)
          \<and> ops = pre @ ActivateOp A n expected p # post \<and> p_kind p = HostKind \<and> expected = pr_hash r
          \<and> rw_disk A (pr_root r) n = Some (pr_hash r)
          \<and> (\<forall>k. entry n (fold reg_run (pre @ ActivateOp A n expected p # take k post) s) = Some r)"
    using r a(1,3) o by blast
next
  assume bad: "\<not> ok" and sv: "rw_saves W"
  have wf: "reg_wf now" using reg_run_wf[OF assms(1)] assms(3) by simp
  show "state_of n after \<noteq> Some Active"
  proof (cases "state_of n now = Some Active")
    case False
    then have "after = now"
      using assms(4) by (auto simp: check_active_def state_of_def entry_def split: sum.splits option.splits if_splits)
    with False show ?thesis by simp
  next
    case True
    then obtain rs r where l: "reg_load now = Inr rs" "dict_get rs n = Some r" "pr_state r = Active"
      by (auto simp: state_of_def entry_def split: sum.splits)
    have "\<exists>r' ev. reg_move r Quarantined ''load_check'' REGISTRY_PRINCIPAL ''hash mismatch at load'' = Inr (r', ev)"
      by (simp add: reg_move_def l(3) TRANSITIONS_def)
    then obtain r' ev where m: "reg_move r Quarantined ''load_check'' REGISTRY_PRINCIPAL ''hash mismatch at load'' = Inr (r', ev)"
      by blast
    have "\<exists>s1. reg_save W (dict_set rs n r') now = Inr s1" using sv by (simp add: reg_save_def)
    then obtain s1 where s1: "reg_save W (dict_set rs n r') now = Inr s1" ..
    have "after = reg_emit W [ev] s1"
      using assms(4) bad l m s1 by (simp add: check_active_def split: if_splits)
    with moved_commits[OF l(1,2) m s1] have "commits W n r' now after" "pr_state r' = Quarantined" by simp_all
    with commits_entry(2)[OF _ wf] show ?thesis by (simp add: state_of_def)
  qed
qed

subsection \<open>Witnesses\<close>

definition sample_world :: reg_world where
  "sample_world = \<lparr>rw_disk = (\<lambda>root name. Some ''h1''), rw_resolve = id, rw_saves = True, rw_now = ''t'',
     rw_sink = (\<lambda>_. True), rw_os = gh_os sample_host, rw_exec_hit = (\<lambda>_. None), rw_floor = \<lparr>fl_roots = [], fl_write_roots = [], fl_config_files = []\<rparr>\<rparr>"

definition sample_manifest :: manifest where
  "sample_manifest = \<lparr>mf_name = ''x'', mf_kind = ''tool'', mf_version = ''1'', mf_hash = ''h1'', mf_tier = 1\<rparr>"

definition sample_lifecycle :: "reg_op list" where
  "sample_lifecycle = [RegisterOp sample_world sample_manifest ''/p'' (Principal ''op'' HostKind None),
     ActivateOp sample_world ''x'' ''h1'' (Principal ''op'' HostKind None)]"

lemma lifecycle_refined_witness:
  "\<exists>bs. op_path (hd sample_lifecycle) None bs
     \<and> state_of ''x'' (reg_run (hd sample_lifecycle) \<lparr>rg_file = NoFile, rg_events = []\<rparr>) = last (None # map Some bs)"
proof -
  let ?s = "\<lparr>rg_file = NoFile, rg_events = []\<rparr>"
  have w: "reg_wf ?s" by (simp add: reg_wf_def)
  have "state_of ''x'' ?s = None" "op_name (hd sample_lifecycle) = ''x''"
    by (simp_all add: state_of_def entry_def reg_load_def sample_lifecycle_def sample_manifest_def)
  moreover obtain bs where "op_path (hd sample_lifecycle) (state_of (op_name (hd sample_lifecycle)) ?s) bs"
    "state_of (op_name (hd sample_lifecycle)) (reg_run (hd sample_lifecycle) ?s)
       = last (state_of (op_name (hd sample_lifecycle)) ?s # map Some bs)"
    using lifecycle_refined[OF w, of "hd sample_lifecycle"] by blast
  ultimately show ?thesis by (intro exI[of _ bs]) simp
qed

lemma loaded_was_approved_witness:
  "\<exists>r. entry ''x'' (fold reg_run sample_lifecycle \<lparr>rg_file = NoFile, rg_events = []\<rparr>) = Some r \<and> pr_hash r = ''h1''"
proof -
  let ?s = "\<lparr>rg_file = NoFile, rg_events = []\<rparr>"
  let ?now = "fold reg_run sample_lifecycle ?s"
  have w: "reg_wf ?s" by (simp add: reg_wf_def)
  have n: "entry ''x'' ?s = None" by (simp add: entry_def reg_load_def)
  have "fst (check_active sample_world ''x'' (Some ''h1'') ?now)" by code_simp
  then have "check_active sample_world ''x'' (Some ''h1'') ?now = (True, snd (check_active sample_world ''x'' (Some ''h1'') ?now))"
    by (metis (full_types) prod.collapse)
  from loaded_was_approved[OF w n refl this] show ?thesis by auto
qed

end
