(* ===== verification/Network.thy ===== *)
theory Network
  imports Prelude "HOL-Library.Word"
begin

unbundle bit_operations_syntax

text \<open>
  The network policy, \<open>nanobot/security/network.py\<close>: which addresses a fetch may reach. Addresses
  are words of their width. URL parsing, the address parser and printer of \<open>ipaddress\<close> and the
  resolver are arguments (a record): the resolver answers with texts, may fail to resolve, or may
  raise something else.
\<close>

subsection \<open>Addresses and networks\<close>

datatype ip = V4 "32 word" | V6 "128 word"

datatype network = N4 "32 word" nat | N6 "128 word" nat

text \<open>\<open>addr in net\<close>: no match across versions, else the masked address is the network's.\<close>

definition netmask :: "nat \<Rightarrow> nat \<Rightarrow> 'a::len word" where
  "netmask width k = NOT (mask (width - k))"

fun in_net :: "ip \<Rightarrow> network \<Rightarrow> bool" where
  "in_net (V4 a) (N4 n k) \<longleftrightarrow> a AND netmask 32 k = n"
| "in_net (V6 a) (N6 n k) \<longleftrightarrow> a AND netmask 128 k = n"
| "in_net _ _ \<longleftrightarrow> False"

definition dotted :: "nat \<Rightarrow> nat \<Rightarrow> nat \<Rightarrow> nat \<Rightarrow> 32 word" where
  "dotted a b c d = word_of_nat (a * 16777216 + b * 65536 + c * 256 + d)"

text \<open>An IPv6 address from its first sixteen bits, the rest zero.\<close>

definition top16 :: "128 word \<Rightarrow> 128 word" where
  "top16 x = push_bit 112 x"

definition BLOCKED_NETWORKS :: "network list" where
  "BLOCKED_NETWORKS =
     [N4 (dotted 0 0 0 0) 8, N4 (dotted 10 0 0 0) 8, N4 (dotted 100 64 0 0) 10, N4 (dotted 127 0 0 0) 8,
      N4 (dotted 169 254 0 0) 16, N4 (dotted 172 16 0 0) 12, N4 (dotted 192 0 0 0) 24,
      N4 (dotted 192 168 0 0) 16, N4 (dotted 198 18 0 0) 15, N4 (dotted 224 0 0 0) 4,
      N4 (dotted 240 0 0 0) 4,
      N6 0 128, N6 1 128, N6 (top16 0xfc00) 7, N6 (top16 0xfe80) 10, N6 (top16 0xfec0) 10,
      N6 (top16 0xff00) 8]"

definition NAT64_PREFIX :: network where
  "NAT64_PREFIX = N6 (push_bit 112 0x64 OR push_bit 96 0xff9b) 96"

definition SIXTOFOUR_PREFIX :: network where
  "SIXTOFOUR_PREFIX = N6 (top16 0x2002) 16"

text \<open>\<open>_normalize_addr\<close>: mapped, NAT64 and 6to4 addresses become the IPv4 address they embed.\<close>

definition ipv4_mapped :: "128 word \<Rightarrow> 32 word option" where
  "ipv4_mapped a = (if drop_bit 32 a = 0xffff then Some (ucast a) else None)"

fun normalize_addr :: "ip \<Rightarrow> ip" where
  "normalize_addr (V4 a) = V4 a"
| "normalize_addr (V6 a) =
     (case ipv4_mapped a of
        Some b \<Rightarrow> V4 b
      | None \<Rightarrow>
          if in_net (V6 a) NAT64_PREFIX then V4 (ucast a)
          else if in_net (V6 a) SIXTOFOUR_PREFIX then V4 (ucast (drop_bit 80 a))
          else V6 a)"

text \<open>\<open>_is_private\<close> under the configured allow-list.\<close>

definition is_private :: "network list \<Rightarrow> ip \<Rightarrow> bool" where
  "is_private allowed a =
     (let n = normalize_addr a in
      if list_ex (in_net n) allowed then False else list_ex (in_net n) BLOCKED_NETWORKS)"

text \<open>\<open>is_loopback\<close> of an address. Whether a mapped IPv4 loopback counts depends on the Python version.\<close>

definition LOOPBACK4 :: network where "LOOPBACK4 = N4 (dotted 127 0 0 0) 8"

fun is_loopback :: "bool \<Rightarrow> ip \<Rightarrow> bool" where
  "is_loopback mapped (V4 a) \<longleftrightarrow> in_net (V4 a) LOOPBACK4"
| "is_loopback mapped (V6 a) \<longleftrightarrow>
     (case (if mapped then ipv4_mapped a else None) of
        Some b \<Rightarrow> in_net (V4 b) LOOPBACK4
      | None \<Rightarrow> a = 1)"

subsection \<open>Targets of URLs\<close>

record parsed_url =
  pu_scheme :: string
  pu_netloc :: string
  pu_hostname :: "string option"
  pu_port :: "(string, nat option) py"

datatype resolve_error = GaiError | ResolverRaised

record net_host =
  nh_parse_url :: "string \<Rightarrow> (string, parsed_url) py"
  nh_parse_ip :: "string \<Rightarrow> ip option"
  nh_show_ip :: "ip \<Rightarrow> string"
  nh_resolve :: "string \<Rightarrow> (resolve_error, string list) py"
  nh_mapped_loopback :: bool

definition host_key :: "string \<Rightarrow> string" where
  "host_key h = lower (rstrip_with (\<lambda>c. c = CHR ''.'') h)"

definition is_loopback_host :: "net_host \<Rightarrow> string \<Rightarrow> bool" where
  "is_loopback_host H host =
     (let n = host_key (strip host);
          m = (if prefix ''['' n \<and> suffix '']'' n then butlast (tl n) else n)
      in n = ''localhost''
         \<or> (case nh_parse_ip H m of None \<Rightarrow> False | Some a \<Rightarrow> is_loopback (nh_mapped_loopback H) a))"

text \<open>\<open>configure_ssrf_whitelist\<close>: texts that are no network are skipped; the parser is an argument.\<close>

definition configure_whitelist :: "(string \<Rightarrow> network option) \<Rightarrow> string list \<Rightarrow> network list" where
  "configure_whitelist parse cidrs = map (the \<circ> parse) (filter (\<lambda>c. parse c \<noteq> None) cidrs)"

definition allowed_loopback_target :: "net_host \<Rightarrow> string \<Rightarrow> ip list \<Rightarrow> bool" where
  "allowed_loopback_target H hostname addrs =
     (if addrs = [] \<or> \<not> list_all (\<lambda>a. is_loopback (nh_mapped_loopback H) (normalize_addr a)) addrs then False
      else if host_key hostname = ''localhost'' then True
      else (case nh_parse_ip H hostname of
              None \<Rightarrow> False | Some a \<Rightarrow> is_loopback (nh_mapped_loopback H) a))"

text \<open>The texts of the normalised addresses, without repetition.\<close>

definition shown :: "net_host \<Rightarrow> ip list \<Rightarrow> string list" where
  "shown H addrs = dedup_into [] (map (nh_show_ip H \<circ> normalize_addr) addrs)"

definition parsed_addrs :: "net_host \<Rightarrow> string list \<Rightarrow> ip list" where
  "parsed_addrs H infos = map (the \<circ> nh_parse_ip H) (filter (\<lambda>s. nh_parse_ip H s \<noteq> None) infos)"

datatype refusal_kind =
    BadUrl string
  | BadScheme string
  | MissingDomain
  | MissingHostname
  | CannotResolve string
  | BlockedHostname string
  | BlockedAddress ip
  | BlockedResolved string ip

type_synonym url_result = "(resolve_error, refusal_kind + string list) py"

text \<open>The hostname that local DNS does not know, when a trusted proxy resolves.\<close>

definition remote_target :: "net_host \<Rightarrow> network list \<Rightarrow> string \<Rightarrow> refusal_kind + string list" where
  "remote_target H allowed hostname =
     (let n = host_key hostname in
      if n = ''localhost'' \<or> suffix ''.localhost'' n then Inl (BlockedHostname hostname)
      else (case nh_parse_ip H n of
              None \<Rightarrow> Inr []
            | Some a \<Rightarrow> if is_private allowed a then Inl (BlockedAddress a)
                        else Inr [nh_show_ip H (normalize_addr a)]))"

definition resolve_url_target ::
  "net_host \<Rightarrow> network list \<Rightarrow> bool \<Rightarrow> bool \<Rightarrow> string \<Rightarrow> url_result" where
  "resolve_url_target H allowed allow_loopback trust_remote_dns url =
     (case nh_parse_url H url of
        Inl e \<Rightarrow> Inr (Inl (BadUrl e))
      | Inr p \<Rightarrow>
          if pu_scheme p \<noteq> ''http'' \<and> pu_scheme p \<noteq> ''https'' then Inr (Inl (BadScheme (pu_scheme p)))
          else if pu_netloc p = [] then Inr (Inl MissingDomain)
          else (case pu_hostname p of
              None \<Rightarrow> Inr (Inl MissingHostname)
            | Some [] \<Rightarrow> Inr (Inl MissingHostname)
            | Some hostname \<Rightarrow>
                (case nh_resolve H hostname of
                   Inl ResolverRaised \<Rightarrow> Inl ResolverRaised
                 | Inl GaiError \<Rightarrow>
                     Inr (if \<not> trust_remote_dns then Inl (CannotResolve hostname) else remote_target H allowed hostname)
                 | Inr infos \<Rightarrow>
                     let addrs = parsed_addrs H infos in
                     if allow_loopback \<and> allowed_loopback_target H hostname addrs then Inr (Inr (shown H addrs))
                     else (case find (is_private allowed) addrs of
                             Some a \<Rightarrow> Inr (Inl (BlockedResolved hostname a))
                           | None \<Rightarrow> Inr (Inr (shown H addrs))))))"

definition validate_url_target :: "net_host \<Rightarrow> network list \<Rightarrow> bool \<Rightarrow> string \<Rightarrow> (resolve_error, bool) py" where
  "validate_url_target H allowed allow_loopback url =
     (case resolve_url_target H allowed allow_loopback False url of
        Inl e \<Rightarrow> Inl e | Inr (Inl _) \<Rightarrow> Inr False | Inr (Inr _) \<Rightarrow> Inr True)"

text \<open>\<open>validate_resolved_url\<close>, for the target of a redirect: every failure refuses.\<close>

definition validate_resolved_url :: "net_host \<Rightarrow> network list \<Rightarrow> string \<Rightarrow> bool" where
  "validate_resolved_url H allowed url =
     (case nh_parse_url H url of
        Inl _ \<Rightarrow> False
      | Inr p \<Rightarrow>
          (case pu_hostname p of
             None \<Rightarrow> False
           | Some [] \<Rightarrow> False
           | Some hostname \<Rightarrow>
               (case nh_parse_ip H hostname of
                  Some a \<Rightarrow> \<not> is_private allowed a
                | None \<Rightarrow>
                    (case nh_resolve H hostname of
                       Inl _ \<Rightarrow> False
                     | Inr infos \<Rightarrow> infos \<noteq> [] \<and> \<not> list_ex (is_private allowed) (parsed_addrs H infos)))))"

text \<open>\<open>contains_internal_url\<close> over the URLs its regular expression finds in a command.\<close>

fun contains_internal_url :: "net_host \<Rightarrow> network list \<Rightarrow> bool \<Rightarrow> string list \<Rightarrow> (resolve_error, bool) py" where
  "contains_internal_url H allowed lb [] = Inr False"
| "contains_internal_url H allowed lb (u # us) =
     (case validate_url_target H allowed lb u of
        Inl e \<Rightarrow> Inl e
      | Inr ok \<Rightarrow> if \<not> ok then Inr True else contains_internal_url H allowed lb us)"

subsection \<open>Pinned resolution\<close>

text \<open>\<open>pin_resolved_url_dns\<close>: the resolver a request sees. \<open>fam\<close> says which versions were asked for.\<close>

definition version_of :: "ip \<Rightarrow> nat" where
  "version_of a = (case a of V4 _ \<Rightarrow> 4 | V6 _ \<Rightarrow> 6)"

definition pinned_lookup ::
  "net_host \<Rightarrow> string \<Rightarrow> string list \<Rightarrow> (string \<Rightarrow> nat option \<Rightarrow> (resolve_error, string list) py)
     \<Rightarrow> string \<Rightarrow> nat option \<Rightarrow> (resolve_error, string list) py" where
  "pinned_lookup H url ips original host fam =
     (case nh_parse_url H url of
        Inl _ \<Rightarrow> original host fam
      | Inr p \<Rightarrow>
          (case pu_hostname p of
             None \<Rightarrow> original host fam
           | Some hostname \<Rightarrow>
               if hostname = [] \<or> ips = [] then original host fam
               else if host_key host \<noteq> host_key hostname then original host fam
               else Inr (filter (\<lambda>i. case fam of None \<Rightarrow> True
                      | Some v \<Rightarrow> map_option version_of (nh_parse_ip H i) = Some v) ips)))"

text \<open>\<open>PinnedDNSAsyncTransport.handle_async_request\<close>: refuse, or run the request under the pin.\<close>

definition pinned_request ::
  "net_host \<Rightarrow> network list \<Rightarrow> bool \<Rightarrow> string
     \<Rightarrow> (string \<Rightarrow> nat option \<Rightarrow> (resolve_error, string list) py)
     \<Rightarrow> ((string \<Rightarrow> nat option \<Rightarrow> (resolve_error, string list) py) \<Rightarrow> 'r)
     \<Rightarrow> (resolve_error, refusal_kind + 'r) py" where
  "pinned_request H allowed lb url original inner =
     (case resolve_url_target H allowed lb False url of
        Inl e \<Rightarrow> Inl e
      | Inr (Inl k) \<Rightarrow> Inr (Inl k)
      | Inr (Inr ips) \<Rightarrow> Inr (Inr (inner (pinned_lookup H url ips original))))"

subsection \<open>Proxies of the environment\<close>

text \<open>
  \<open>env_proxy_applies_to_url\<close>: \<open>proxies\<close> and \<open>bypass\<close> are what \<open>urllib\<close> reads of the environment; a bad
  port of the URL raises, after the proxy was looked up.
\<close>

definition env_proxy_applies_to_url ::
  "net_host \<Rightarrow> (string, string) dict \<Rightarrow> (string \<Rightarrow> bool) \<Rightarrow> string \<Rightarrow> (string, bool) py" where
  "env_proxy_applies_to_url H proxies bypass url =
     (case nh_parse_url H url of
        Inl _ \<Rightarrow> Inr False
      | Inr p \<Rightarrow>
          let host = (case pu_hostname p of None \<Rightarrow> [] | Some h \<Rightarrow> h) in
          if pu_scheme p \<notin> {''http'', ''https''} \<or> host = [] then Inr False
          else if dict_get proxies (pu_scheme p) \<in> {None, Some []} \<and> dict_get proxies ''all'' \<in> {None, Some []}
            then Inr False
          else (case pu_port p of
              Inl e \<Rightarrow> Inl e
            | Inr None \<Rightarrow> Inr (\<not> bypass host)
            | Inr (Some n) \<Rightarrow>
                Inr (\<not> bypass ((if CHR '':'' \<in> set host then ''['' @ host @ '']'' else host) @ '':'' @ nat_digits n))))"

definition is_bracket :: "char \<Rightarrow> bool" where
  "is_bracket c \<longleftrightarrow> c = CHR ''['' \<or> c = CHR '']''"

definition no_proxy_mount_pattern :: "net_host \<Rightarrow> string \<Rightarrow> string option" where
  "no_proxy_mount_pattern H hostname =
     (if hostname = [] then None
      else if contains ''://'' hostname then Some hostname
      else (case nh_parse_ip H (rstrip_with is_bracket (dropWhile is_bracket hostname)) of
          Some a \<Rightarrow> Some (if version_of a = 6 then ''all://['' @ nh_show_ip H a @ '']'' else ''all://'' @ nh_show_ip H a)
        | None \<Rightarrow> Some (if lower hostname = ''localhost'' then ''all://localhost'' else ''all://*'' @ hostname)))"

text \<open>\<open>httpx_env_proxy_mounts\<close>: a mount carries the URL of its proxy, or no transport.\<close>

definition proxy_mount :: "(string, string) dict \<Rightarrow> string \<Rightarrow> (string, string option) dict \<Rightarrow> (string, string option) dict" where
  "proxy_mount proxies scheme mounts =
     (case dict_get proxies scheme of
        None \<Rightarrow> mounts
      | Some u \<Rightarrow> if u = [] then mounts
          else dict_set mounts (scheme @ ''://'') (Some (if contains ''://'' u then u else ''http://'' @ u)))"

definition no_proxy_mount :: "net_host \<Rightarrow> string \<Rightarrow> (string, string option) dict \<Rightarrow> (string, string option) dict" where
  "no_proxy_mount H entry mounts =
     (case no_proxy_mount_pattern H (strip entry) of
        None \<Rightarrow> mounts
      | Some pattern \<Rightarrow> if pattern = [] then mounts else dict_set mounts pattern None)"

definition httpx_env_proxy_mounts :: "net_host \<Rightarrow> (string, string) dict \<Rightarrow> (string, string option) dict" where
  "httpx_env_proxy_mounts H proxies =
     (let mounts = fold (proxy_mount proxies) [''http'', ''https'', ''all''] [];
          no_proxy = (case dict_get proxies ''no'' of None \<Rightarrow> [] | Some t \<Rightarrow> t)
      in if mounts = [] then []
         else if no_proxy = ''*'' then []
         else fold (no_proxy_mount H) (split_on (CHR '','') no_proxy) mounts)"

subsection \<open>Blocked addresses\<close>

lemma masked_eq:
  fixes a n :: "'a::len word"
  assumes "n AND mask m = 0"
  shows "a AND NOT (mask m) = n \<longleftrightarrow> drop_bit m a = drop_bit m n"
proof -
  have z: "\<not> bit n i" if "i < m" "i < LENGTH('a)" for i
    using that assms by (metis bit_and_iff bit_mask_iff bit_0_eq possible_bit_word bot_apply bot_bool_def)
  have "drop_bit m a = drop_bit m n \<longleftrightarrow> (\<forall>i. bit a (m + i) = bit n (m + i))"
    unfolding bit_eq_iff bit_drop_bit_eq o_def possible_bit_word
    by (metis add_lessD1 bit_imp_le_length add.commute)
  moreover have "a AND NOT (mask m) = n \<longleftrightarrow> (\<forall>i. bit a (m + i) = bit n (m + i))"
  proof
    assume "a AND NOT (mask m) = n"
    then have "bit n (m + i) = bit (a AND NOT (mask m)) (m + i)" for i by simp
    then show "\<forall>i. bit a (m + i) = bit n (m + i)"
      by (auto simp: bit_and_iff bit_not_iff bit_mask_iff dest: bit_imp_le_length)
  next
    assume r: "\<forall>i. bit a (m + i) = bit n (m + i)"
    show "a AND NOT (mask m) = n"
    proof (rule bit_word_eqI)
      fix i assume l: "i < LENGTH('a)"
      show "bit (a AND NOT (mask m)) i = bit n i"
      proof (cases "i < m")
        case True
        then show ?thesis using z l by (simp add: bit_simps)
      next
        case False
        then have "bit a i = bit n i" using r by (metis le_add_diff_inverse linorder_not_le)
        with False l show ?thesis by (simp add: bit_simps)
      qed
    qed
  qed
  ultimately show ?thesis by simp
qed

lemma div_eq_block:
  fixes p q d k h b :: nat
  assumes "d * k = 256" "q < 256" "b < k"
  shows "(256 * p + q) div d = k * h + b \<longleftrightarrow> p = h \<and> d * b \<le> q \<and> q < d * b + d"
proof -
  have d: "0 < d" and k0: "0 < k" using assms by (auto intro: gr0I)
  have e: "(256 * p + q) div d = k * p + q div d"
    using d by (simp add: assms(1)[symmetric] mult.assoc)
  have k: "q div d < k" using assms(1,2) by (simp add: less_mult_imp_div_less mult.commute)
  have u: "k * p + q div d = k * h + b \<longleftrightarrow> p = h \<and> q div d = b"
  proof
    assume a: "k * p + q div d = k * h + b"
    have "(k * p + q div d) div k = p" "(k * h + b) div k = h" using k assms(3) k0 by simp_all
    with a show "p = h \<and> q div d = b" by auto
  qed simp
  have "q div d = b \<longleftrightarrow> d * b \<le> q \<and> q < d * b + d"
  proof
    assume "q div d = b"
    then show "d * b \<le> q \<and> q < d * b + d"
      using d dividend_less_times_div[of d q] times_div_less_eq_dividend[of d q] by auto
  next
    assume "d * b \<le> q \<and> q < d * b + d"
    then show "q div d = b" by (intro div_nat_eqI) (simp_all add: mult.commute)
  qed
  then show ?thesis using e u by simp
qed

lemma in_net4: "in_net (V4 a) (N4 n k) \<longleftrightarrow> unat a div 2 ^ (32 - k) = unat n div 2 ^ (32 - k)"
  if "n AND mask (32 - k) = 0"
proof -
  have "unat (drop_bit m w) = unat w div 2 ^ m" for m and w :: "32 word"
    by (simp only: unat_drop_bit_eq) (simp only: drop_bit_nat_def)
  then show ?thesis using that by (simp add: netmask_def masked_eq flip: word_unat_eq_iff) (metis unsigned_word_eqI)
qed


lemma unat_dotted: "a < 256 \<Longrightarrow> b < 256 \<Longrightarrow> c < 256 \<Longrightarrow> d < 256 \<Longrightarrow>
    unat (dotted a b c d) = a * 16777216 + b * 65536 + c * 256 + d"
  unfolding dotted_def by (simp only: unsigned_of_nat) (simp add: take_bit_nat_eq_self)

lemma nets:
  "in_net (V4 a) (N4 (dotted 0 0 0 0) 8) \<longleftrightarrow> unat a div 16777216 = 0"
  "in_net (V4 a) (N4 (dotted 10 0 0 0) 8) \<longleftrightarrow> unat a div 16777216 = 10"
  "in_net (V4 a) (N4 (dotted 100 64 0 0) 10) \<longleftrightarrow> unat a div 4194304 = 401"
  "in_net (V4 a) (N4 (dotted 127 0 0 0) 8) \<longleftrightarrow> unat a div 16777216 = 127"
  "in_net (V4 a) (N4 (dotted 169 254 0 0) 16) \<longleftrightarrow> unat a div 65536 = 43518"
  "in_net (V4 a) (N4 (dotted 172 16 0 0) 12) \<longleftrightarrow> unat a div 1048576 = 2753"
  "in_net (V4 a) (N4 (dotted 192 0 0 0) 24) \<longleftrightarrow> unat a div 256 = 12582912"
  "in_net (V4 a) (N4 (dotted 192 168 0 0) 16) \<longleftrightarrow> unat a div 65536 = 49320"
  "in_net (V4 a) (N4 (dotted 198 18 0 0) 15) \<longleftrightarrow> unat a div 131072 = 25353"
  "in_net (V4 a) (N4 (dotted 224 0 0 0) 4) \<longleftrightarrow> unat a div 268435456 = 14"
  "in_net (V4 a) (N4 (dotted 240 0 0 0) 4) \<longleftrightarrow> unat a div 268435456 = 15"
  by (subst in_net4; simp add: unat_dotted; simp add: dotted_def mask_eq_exp_minus_1)+

lemma smuggle_mapped: "normalize_addr (V6 (push_bit 32 0xffff OR ucast x)) = V4 x"
proof -
  have "drop_bit 32 (push_bit 32 0xffff OR ucast x :: 128 word) = 0xffff"
    by (rule bit_word_eqI) (auto simp: bit_simps dest: bit_imp_le_length)
  moreover have "ucast (push_bit 32 0xffff OR ucast x :: 128 word) = x"
    by (rule bit_word_eqI) (simp add: bit_or_iff bit_ucast_iff bit_push_bit_iff del: push_bit_numeral)
  ultimately show ?thesis by (simp add: ipv4_mapped_def)
qed
lemma smuggle_nat64: "normalize_addr (V6 (push_bit 112 0x64 OR push_bit 96 0xff9b OR ucast x)) = V4 x"
proof -
  let ?w = "push_bit 112 0x64 OR push_bit 96 0xff9b OR ucast x :: 128 word"
  have "bit ?w 114" by (simp add: bit_or_iff bit_push_bit_iff bit_ucast_iff bit_numeral_rec del: push_bit_numeral)
  then have "bit (drop_bit 32 ?w) 82" unfolding bit_drop_bit_eq by simp
  moreover have "\<not> bit (0xffff :: 128 word) 82" by simp
  ultimately have m: "ipv4_mapped ?w = None" by (metis ipv4_mapped_def)
  have "ucast ?w = x"
    by (rule bit_word_eqI) (simp add: bit_or_iff bit_ucast_iff bit_push_bit_iff del: push_bit_numeral)
  moreover have "in_net (V6 ?w) NAT64_PREFIX"
    unfolding NAT64_PREFIX_def in_net.simps netmask_def
    by (rule bit_word_eqI) (auto simp: bit_or_iff bit_and_iff bit_not_iff bit_mask_iff bit_ucast_iff bit_push_bit_iff simp del: push_bit_numeral dest: bit_imp_le_length)
  ultimately show ?thesis using m by simp
qed

lemma low16: "bit (0x2002 :: int) n \<Longrightarrow> n < 16"
proof -
  have "take_bit 16 (0x2002 :: int) = 0x2002" by simp
  then show "bit (0x2002 :: int) n \<Longrightarrow> n < 16" by (metis bit_take_bit_iff)
qed

lemma smuggle_6to4:
  "normalize_addr (V6 (push_bit 112 0x2002 OR push_bit 80 (ucast x) OR low AND mask 80)) = V4 x"
proof -
  let ?w = "push_bit 112 0x2002 OR push_bit 80 (ucast x) OR low AND mask 80 :: 128 word"
  have h: "drop_bit 112 ?w = 0x2002"
    by (rule bit_word_eqI)
      (auto simp: bit_or_iff bit_and_iff bit_mask_iff bit_drop_bit_eq bit_ucast_iff bit_push_bit_iff
         simp del: push_bit_numeral dest: bit_imp_le_length low16)
  have "bit (drop_bit 112 ?w) 13" unfolding h by simp
  then have "bit ?w 125" unfolding bit_drop_bit_eq by simp
  then have "bit (drop_bit 32 ?w) 93" unfolding bit_drop_bit_eq by simp
  moreover have "\<not> bit (0xffff :: 128 word) 93" by simp
  ultimately have m: "ipv4_mapped ?w = None" by (metis ipv4_mapped_def)
  have "\<not> bit (push_bit 112 0x64 OR push_bit 96 0xff9b :: 128 word) 125"
    by (simp add: bit_or_iff bit_push_bit_iff bit_numeral_rec del: push_bit_numeral)
  then have "\<not> in_net (V6 ?w) NAT64_PREFIX"
    using \<open>bit ?w 125\<close> unfolding NAT64_PREFIX_def in_net.simps netmask_def
    by (auto simp: bit_and_iff bit_not_iff bit_mask_iff simp del: push_bit_numeral dest!: arg_cong[of _ _ "\<lambda>w. bit w 125"])
  moreover have "in_net (V6 ?w) SIXTOFOUR_PREFIX"
  proof -
    have al: "top16 0x2002 AND mask 112 = 0"
      unfolding top16_def by (rule bit_word_eqI) (simp add: bit_and_iff bit_push_bit_iff bit_mask_iff del: push_bit_numeral)
    have "drop_bit 112 (top16 0x2002) = 0x2002"
      unfolding top16_def
      by (rule bit_word_eqI) (auto simp: bit_drop_bit_eq bit_push_bit_iff simp del: push_bit_numeral dest: low16)
    then show ?thesis
      using masked_eq[OF al] h unfolding SIXTOFOUR_PREFIX_def in_net.simps netmask_def by simp
  qed
  moreover have "ucast (drop_bit 80 ?w) = x"
    by (rule bit_word_eqI)
      (auto simp: bit_or_iff bit_and_iff bit_mask_iff bit_drop_bit_eq bit_ucast_iff bit_push_bit_iff
         simp del: push_bit_numeral dest: bit_imp_le_length)
  ultimately show ?thesis using m by simp
qed

text \<open>The blocked IPv4 addresses, by their octets.\<close>

definition blocked4 :: "32 word \<Rightarrow> bool" where
  "blocked4 a =
     (let o1 = unat a div 16777216; o2 = unat a div 65536 mod 256; o3 = unat a div 256 mod 256 in
      o1 \<in> {0, 10, 127} \<or> o1 = 100 \<and> o2 \<in> {64..127} \<or> o1 = 169 \<and> o2 = 254
      \<or> o1 = 172 \<and> o2 \<in> {16..31} \<or> o1 = 192 \<and> (o2 = 0 \<and> o3 = 0 \<or> o2 = 168)
      \<or> o1 = 198 \<and> o2 \<in> {18, 19} \<or> 224 \<le> o1)"

lemma not_in6: "in_net (V4 a) (N6 n k) = False" by simp

lemma octets:
  fixes y :: nat
  obtains p q r s where "y = 256 * (256 * (256 * p + q) + r) + s" "q < 256" "r < 256" "s < 256"
proof
  show "y = 256 * (256 * (256 * (y div 256 div 256 div 256) + y div 256 div 256 mod 256) + y div 256 mod 256) + y mod 256"
    by simp
qed simp_all

lemma is_private_octets: "is_private [] (V4 a) \<longleftrightarrow> blocked4 a"
proof -
  obtain p q r s where y: "unat a = 256 * (256 * (256 * p + q) + r) + s" and l: "q < 256" "r < 256" "s < 256"
    using octets .
  have e: "unat a div 256 = 256 * (256 * p + q) + r" "unat a div 65536 = 256 * p + q" "unat a div 16777216 = p"
    using y l by (simp_all add: div_mult2_eq[of _ 256 256, simplified] div_mult2_eq[of _ 65536 256, simplified])
  have "unat a < 4294967296" using unsigned_less[of a] by simp
  then have p: "p < 256" unfolding e(3)[symmetric] by (simp add: less_mult_imp_div_less)
  have nets64: "unat a div 4194304 = 401 \<longleftrightarrow> p = 100 \<and> 64 \<le> q \<and> q \<le> 127"
    "unat a div 1048576 = 2753 \<longleftrightarrow> p = 172 \<and> 16 \<le> q \<and> q \<le> 31"
    "unat a div 131072 = 25353 \<longleftrightarrow> p = 198 \<and> (q = 18 \<or> q = 19)"
    using div_eq_block[of 64 4 q 1 p 100] div_eq_block[of 16 16 q 1 p 172] div_eq_block[of 2 128 q 9 p 198] l e(2)
    by (auto simp: div_mult2_eq[of _ 65536 64, simplified] div_mult2_eq[of _ 65536 16, simplified]
        div_mult2_eq[of _ 65536 2, simplified])
  have d16: "unat a div 268435456 = p div 16"
    using e(3) by (simp add: div_mult2_eq[of _ 16777216 16, simplified])
  have top: "p div 16 = 14 \<or> p div 16 = 15 \<longleftrightarrow> 224 \<le> p" using p by auto
  have exact: "unat a div 65536 = 43518 \<longleftrightarrow> p = 169 \<and> q = 254" "unat a div 65536 = 49320 \<longleftrightarrow> p = 192 \<and> q = 168"
    "unat a div 256 = 12582912 \<longleftrightarrow> p = 192 \<and> q = 0 \<and> r = 0"
    using div_eq_block[of 1 256 q 254 p 169] div_eq_block[of 1 256 q 168 p 192]
      div_eq_block[of 1 256 r 0 "256 * p + q" 49152] div_eq_block[of 1 256 q 0 p 192] l e(1,2) by auto
  have listed: "list_ex (in_net (V4 a)) BLOCKED_NETWORKS \<longleftrightarrow>
     p = 0 \<or> p = 10 \<or> (p = 100 \<and> 64 \<le> q \<and> q \<le> 127) \<or> p = 127 \<or> (p = 169 \<and> q = 254)
     \<or> (p = 172 \<and> 16 \<le> q \<and> q \<le> 31) \<or> (p = 192 \<and> q = 0 \<and> r = 0) \<or> (p = 192 \<and> q = 168)
     \<or> (p = 198 \<and> (q = 18 \<or> q = 19)) \<or> 224 \<le> p"
    unfolding BLOCKED_NETWORKS_def list_ex_Cons_iff list_ex_Nil_iff nets not_in6 e(3) d16 nets64 exact top[symmetric]
    by blast
  have octs: "unat a div 65536 mod 256 = q" "unat a div 256 mod 256 = r"
    unfolding e(1,2) using l by (simp_all only: mod_mult_self4 mod_less)
  show ?thesis
    unfolding is_private_def blocked4_def Let_def e(3) octs listed normalize_addr.simps list_ex_Nil_iff
      if_False insert_iff empty_iff atLeastAtMost_iff by blast
qed

text \<open>The three ways to write an IPv4 address as an IPv6 one that the policy reads back.\<close>

definition embeddings :: "32 word \<Rightarrow> 128 word \<Rightarrow> 128 word list" where
  "embeddings x low =
     [push_bit 32 0xffff OR ucast x,
      push_bit 112 0x64 OR push_bit 96 0xff9b OR ucast x,
      push_bit 112 0x2002 OR push_bit 80 (ucast x) OR low AND mask 80]"

text \<open>
  The IPv4 blocklist is what its octets say: an IPv4 address is private, with no
  allow-list, exactly when its leading octets are in the listed ranges (the masks of the
  networks and the arithmetic of the octets agree on all 2 ^ 32 addresses).\<close>

lemma blocked_octets: "is_private [] (V4 a) \<longleftrightarrow> blocked4 a"
  by (rule is_private_octets)

text \<open>
  An IPv4 address cannot be smuggled through an IPv6 form: written as an IPv4-mapped, a
  NAT64 or a 6to4 address (whatever the 80 low bits of the latter), it is private exactly when the
  IPv4 address itself is, under every allow-list.\<close>

lemma no_smuggling:
  "map (is_private allowed \<circ> V6) (embeddings x low) = replicate 3 (is_private allowed (V4 x))"
  by (simp only: embeddings_def list.map comp_apply is_private_def smuggle_mapped smuggle_nat64 smuggle_6to4 normalize_addr.simps(1))
     (simp add: numeral_3_eq_3)

lemma resolve_accepted:
  assumes "resolve_url_target H allowed lb False url = Inr (Inr ips)"
  shows "\<exists>p hostname infos. nh_parse_url H url = Inr p \<and> pu_scheme p \<in> {''http'', ''https''} \<and> pu_netloc p \<noteq> []
    \<and> pu_hostname p = Some hostname \<and> hostname \<noteq> [] \<and> nh_resolve H hostname = Inr infos
    \<and> ips = shown H (parsed_addrs H infos)
    \<and> (list_all (\<lambda>a. \<not> is_private allowed a) (parsed_addrs H infos)
        \<or> lb \<and> allowed_loopback_target H hostname (parsed_addrs H infos))"
  using assms
  by (auto simp: resolve_url_target_def Let_def find_None_iff list_all_iff
      split: sum.splits if_splits option.splits list.splits resolve_error.splits)

lemma set_shown [simp]: "set (shown H as) = (nh_show_ip H \<circ> normalize_addr) ` set as"
  by (simp add: shown_def)
lemma shown_Nil_iff [simp]: "shown H as = [] \<longleftrightarrow> as = []"
  by (metis set_shown set_empty image_is_empty)

lemma pinned_lookup_host:
  assumes "nh_parse_url H url = Inr p" "pu_hostname p = Some hostname" "hostname \<noteq> []"
  shows "if host_key host = host_key hostname \<and> ips \<noteq> []
     then \<exists>l. pinned_lookup H url ips original host fam = Inr l
       \<and> set l = {i \<in> set ips. fam = None \<or> map_option version_of (nh_parse_ip H i) = fam}
     else pinned_lookup H url ips original host fam = original host fam"
  using assms by (cases fam) (auto simp: pinned_lookup_def)

text \<open>
  Claim C6: a request through the pinned transport runs only when its URL is http(s), its host resolved
  and no parsed address was private (or loopback was allowed and the target is loopback throughout).
  When at least one answer of the resolver parses as an address, the request runs with a resolver that answers, for
  the host of the URL and every family, exactly with the normalised addresses of that validation of the family, whatever the
  system resolver says the second time, and passes every other host on. When no answer parses, the URL is
  accepted all the same and the request runs unpinned: every lookup goes to the original resolver.\<close>

theorem pinned_request_safe:
  assumes "pinned_request H allowed lb url original inner = Inr (Inr r)"
  shows "\<exists>p hostname infos. nh_parse_url H url = Inr p \<and> pu_scheme p \<in> {''http'', ''https''}
    \<and> pu_hostname p = Some hostname \<and> nh_resolve H hostname = Inr infos
    \<and> r = inner (pinned_lookup H url (shown H (parsed_addrs H infos)) original)
    \<and> (list_all (\<lambda>a. \<not> is_private allowed a) (parsed_addrs H infos)
        \<or> lb \<and> allowed_loopback_target H hostname (parsed_addrs H infos))
    \<and> (\<forall>host fam.
         if host_key host = host_key hostname \<and> parsed_addrs H infos \<noteq> []
         then (\<exists>l. pinned_lookup H url (shown H (parsed_addrs H infos)) original host fam = Inr l
            \<and> set l = {i \<in> (nh_show_ip H \<circ> normalize_addr) ` set (parsed_addrs H infos).
                 fam = None \<or> map_option version_of (nh_parse_ip H i) = fam})
         else pinned_lookup H url (shown H (parsed_addrs H infos)) original host fam = original host fam)"
proof -
  obtain ips where r: "resolve_url_target H allowed lb False url = Inr (Inr ips)"
    "r = inner (pinned_lookup H url ips original)"
    using assms by (auto simp: pinned_request_def split: sum.splits)
  obtain p hostname infos where a: "nh_parse_url H url = Inr p" "pu_scheme p \<in> {''http'', ''https''}"
    "pu_hostname p = Some hostname" "hostname \<noteq> []" "nh_resolve H hostname = Inr infos"
    "ips = shown H (parsed_addrs H infos)"
    "list_all (\<lambda>a. \<not> is_private allowed a) (parsed_addrs H infos)
        \<or> lb \<and> allowed_loopback_target H hostname (parsed_addrs H infos)"
    using resolve_accepted[OF r(1)] by blast
  have l: "\<forall>host fam. if host_key host = host_key hostname \<and> parsed_addrs H infos \<noteq> []
     then \<exists>l. pinned_lookup H url (shown H (parsed_addrs H infos)) original host fam = Inr l
       \<and> set l = {i \<in> (nh_show_ip H \<circ> normalize_addr) ` set (parsed_addrs H infos).
                 fam = None \<or> map_option version_of (nh_parse_ip H i) = fam}
     else pinned_lookup H url (shown H (parsed_addrs H infos)) original host fam = original host fam"
    using pinned_lookup_host[OF a(1,3,4), where ips = "shown H (parsed_addrs H infos)" and original = original]
    unfolding set_shown shown_Nil_iff by blast
  show ?thesis
    using a(1,2,3,5,7) r(2) l unfolding a(6)
    by (intro exI[of _ p] exI[of _ hostname] exI[of _ infos] conjI) assumption+
qed

definition demo_host :: net_host where
  "demo_host = \<lparr>nh_parse_url = \<lambda>_. Inr \<lparr>pu_scheme = ''https'', pu_netloc = ''a.io'', pu_hostname = Some ''a.io'', pu_port = Inr None\<rparr>,
     nh_parse_ip = \<lambda>s. if s = ''8.8.8.8'' then Some (V4 (dotted 8 8 8 8)) else None,
     nh_show_ip = \<lambda>_. ''8.8.8.8'', nh_resolve = \<lambda>_. Inr [''8.8.8.8'', ''?''], nh_mapped_loopback = True\<rparr>"

lemma demo_accepts:
  "pinned_request demo_host [] False ''u'' (\<lambda>_ _. Inl GaiError) (\<lambda>look. look ''a.io.'' None) = Inr (Inr (Inr [''8.8.8.8'']))"
proof -
  have "\<not> is_private [] (V4 (dotted 8 8 8 8))"
    by (simp add: is_private_octets blocked4_def Let_def unat_dotted)
  then show ?thesis
    by (simp add: pinned_request_def resolve_url_target_def demo_host_def parsed_addrs_def shown_def
        pinned_lookup_def host_key_def rstrip_with_def)
qed

theorem pinned_request_safe_witness:
  "\<exists>infos. nh_resolve demo_host ''a.io'' = Inr infos \<and> list_all (\<lambda>a. \<not> is_private [] a) (parsed_addrs demo_host infos)
     \<and> parsed_addrs demo_host infos \<noteq> []"
  using pinned_request_safe[OF demo_accepts]
  by (auto simp: demo_host_def parsed_addrs_def)

text \<open>
  The check of a command's URL raises exactly when resolving the host of an http(s) URL raises
  something that is not a \<open>gaierror\<close>: only that error becomes a refusal (or, under a trusted
  proxy, a delegation), everything else leaves the policy check as an exception.\<close>

lemma resolver_error_escapes:
  "(\<exists>e. contains_internal_url H allowed lb [url] = Inl e) \<longleftrightarrow>
     (\<exists>p hostname. nh_parse_url H url = Inr p \<and> pu_scheme p \<in> {''http'', ''https''} \<and> pu_netloc p \<noteq> []
        \<and> pu_hostname p = Some hostname \<and> hostname \<noteq> [] \<and> nh_resolve H hostname = Inl ResolverRaised)"
  by (auto simp: validate_url_target_def resolve_url_target_def Let_def
      split: sum.splits if_splits option.splits list.splits resolve_error.splits)
end
