(* ===== verification/Pairing.thy ===== *)
theory Pairing
  imports Json
begin

text \<open>
  The pairing store, \<open>nanobot/pairing/store.py\<close>: which senders of a channel are approved and which
  codes are pending, in one JSON file. The state is the file; an operation takes what reading and
  writing it does this time. Clocks, the random characters of a code, \<open>repr\<close> of non-text values
  and the order and arithmetic of Python numbers are arguments. Sets of senders are HOL sets.
\<close>

subsection \<open>The file\<close>

text \<open>A file that is absent, is not UTF-8, is not JSON, or holds a JSON value.\<close>

datatype store_file = NoFile | NotText | NotJson | Doc json

datatype pair_error = StoreOSError | StoreRaised string

record pair_host =
  ph_repr :: "json \<Rightarrow> string"
  ph_less :: "json \<Rightarrow> json \<Rightarrow> bool"
  ph_plus :: "json \<Rightarrow> int \<Rightarrow> json"
  ph_seconds :: "json \<Rightarrow> json \<Rightarrow> (string, int) py"

text \<open>Whether reading and writing fail with an \<open>OSError\<close> during one call.\<close>

record pair_io =
  io_read_fails :: bool
  io_write_fails :: bool

record pairing =
  approved :: "(string, string set) dict"
  pending :: "(string, json) dict"

text \<open>\<open>str(v)\<close> of a JSON value.\<close>

fun py_str :: "pair_host \<Rightarrow> json \<Rightarrow> string" where
  "py_str H (JStr s) = s"
| "py_str H (JInt i) = int_str i"
| "py_str H (JBool b) = (if b then ''True'' else ''False'')"
| "py_str H JNull = ''None''"
| "py_str H v = ph_repr H v"

fun as_dict :: "json option \<Rightarrow> (string, json) dict" where
  "as_dict (Some (JDict d)) = d"
| "as_dict _ = []"

fun as_users :: "pair_host \<Rightarrow> json \<Rightarrow> string set" where
  "as_users H (JList xs) = py_str H ` set xs"
| "as_users H _ = {}"

definition no_pairing :: pairing where
  "no_pairing = \<lparr>approved = [], pending = []\<rparr>"

fun parse_store :: "pair_host \<Rightarrow> json \<Rightarrow> pairing" where
  "parse_store H (JDict d) =
     \<lparr>approved = map (\<lambda>(ch, v). (ch, as_users H v)) (as_dict (dict_get d ''approved'')),
      pending = as_dict (dict_get d ''pending'')\<rparr>"
| "parse_store H _ = no_pairing"

fun pair_load :: "pair_host \<Rightarrow> pair_io \<Rightarrow> store_file \<Rightarrow> (pair_error, pairing) py" where
  "pair_load H io NoFile = (if io_read_fails io then Inl StoreOSError else Inr no_pairing)"
| "pair_load H io NotText = (if io_read_fails io then Inl StoreOSError else Inl (StoreRaised ''UnicodeDecodeError''))"
| "pair_load H io NotJson = (if io_read_fails io then Inl StoreOSError else Inr no_pairing)"
| "pair_load H io (Doc j) = (if io_read_fails io then Inl StoreOSError else Inr (parse_store H j))"

text \<open>\<open>_save\<close>: the sorted senders and the pending entries; a failed atomic write keeps the old file.\<close>

definition store_json :: "pairing \<Rightarrow> json" where
  "store_json p =
     JDict [(''approved'', JDict (map (\<lambda>(ch, us). (ch, JList (map JStr (sorted_list_of_set us)))) (approved p))),
            (''pending'', JDict (pending p))]"

definition pair_save :: "pair_io \<Rightarrow> pairing \<Rightarrow> 'a \<Rightarrow> store_file \<Rightarrow> (pair_error, 'a) py \<times> store_file" where
  "pair_save io p r f = (if io_write_fails io then (Inl StoreOSError, f) else (Inr r, Doc (store_json p)))"

subsection \<open>Expiry\<close>

text \<open>The checks of \<open>_gc_pending\<close> on an entry: what stays is well formed and has not expired.\<close>

definition is_number :: "json option \<Rightarrow> bool" where
  "is_number v = (case v of Some (JInt _) \<Rightarrow> True | Some (JFloat _) \<Rightarrow> True | _ \<Rightarrow> False)"

fun keeps_entry :: "pair_host \<Rightarrow> json \<Rightarrow> json \<Rightarrow> bool" where
  "keeps_entry H now (JDict e) =
     ((case dict_get e ''channel'' of Some (JStr ch) \<Rightarrow> ch \<noteq> [] | _ \<Rightarrow> False)
      \<and> (case dict_get e ''sender_id'' of None \<Rightarrow> False | Some v \<Rightarrow> v \<noteq> JNull)
      \<and> is_number (dict_get e ''expires_at'')
      \<and> \<not> ph_less H (the (dict_get e ''expires_at'')) now)"
| "keeps_entry H now _ = False"

definition gc_pending :: "pair_host \<Rightarrow> json \<Rightarrow> pairing \<Rightarrow> pairing" where
  "gc_pending H now p = p\<lparr>pending := filter (\<lambda>(c, e). keeps_entry H now e) (pending p)\<rparr>"

text \<open>\<open>info["channel"]\<close> and \<open>str(info["sender_id"])\<close> of an entry that was kept.\<close>

fun entry_channel :: "json \<Rightarrow> string" where
  "entry_channel (JDict e) = (case dict_get e ''channel'' of Some (JStr ch) \<Rightarrow> ch | _ \<Rightarrow> [])"
| "entry_channel _ = []"

fun entry_sender :: "pair_host \<Rightarrow> json \<Rightarrow> string" where
  "entry_sender H (JDict e) = (case dict_get e ''sender_id'' of Some v \<Rightarrow> py_str H v | None \<Rightarrow> [])"
| "entry_sender H _ = []"

fun entry_expires :: "json \<Rightarrow> json option" where
  "entry_expires (JDict e) = dict_get e ''expires_at''"
| "entry_expires _ = None"

subsection \<open>Operations\<close>

text \<open>The clock of one \<open>generate_code\<close>: at the garbage collection, the creation and the expiry.\<close>

record code_request =
  cr_channel :: string
  cr_sender :: string
  cr_ttl :: int
  cr_raw :: string
  cr_now :: json
  cr_created :: json
  cr_base :: json

definition code_of :: "string \<Rightarrow> string" where
  "code_of raw = take 4 raw @ ''-'' @ drop 4 raw"

definition new_entry :: "pair_host \<Rightarrow> code_request \<Rightarrow> json" where
  "new_entry H q = JDict [(''channel'', JStr (cr_channel q)), (''sender_id'', JStr (cr_sender q)),
     (''created_at'', cr_created q), (''expires_at'', ph_plus H (cr_base q) (cr_ttl q))]"

definition generate_code ::
  "pair_host \<Rightarrow> pair_io \<Rightarrow> code_request \<Rightarrow> store_file \<Rightarrow> (pair_error, string) py \<times> store_file" where
  "generate_code H io q f =
     (case pair_load H io f of
        Inl e \<Rightarrow> (Inl e, f)
      | Inr p0 \<Rightarrow>
          let p = gc_pending H (cr_now q) p0 in
          (case find (\<lambda>(c, e). entry_channel e = cr_channel q \<and> entry_sender H e = cr_sender q) (pending p) of
             Some (c, _) \<Rightarrow> (Inr c, f)
           | None \<Rightarrow>
               pair_save io (p\<lparr>pending := dict_set (pending p) (code_of (cr_raw q)) (new_entry H q)\<rparr>)
                 (code_of (cr_raw q)) f))"

definition approve_code ::
  "pair_host \<Rightarrow> pair_io \<Rightarrow> json \<Rightarrow> string \<Rightarrow> store_file
     \<Rightarrow> (pair_error, (string \<times> string) option) py \<times> store_file" where
  "approve_code H io now code f =
     (case pair_load H io f of
        Inl e \<Rightarrow> (Inl e, f)
      | Inr p0 \<Rightarrow>
          let p = gc_pending H now p0 in
          (case dict_get (pending p) code of
             None \<Rightarrow> (Inr None, f)
           | Some e \<Rightarrow>
               let ch = entry_channel e; s = entry_sender H e;
                   users = (case dict_get (approved p) ch of None \<Rightarrow> {} | Some us \<Rightarrow> us)
               in pair_save io \<lparr>approved = dict_set (approved p) ch (insert s users),
                                pending = dict_del (pending p) code\<rparr> (Some (ch, s)) f))"

definition deny_code ::
  "pair_host \<Rightarrow> pair_io \<Rightarrow> json \<Rightarrow> string \<Rightarrow> store_file \<Rightarrow> (pair_error, bool) py \<times> store_file" where
  "deny_code H io now code f =
     (case pair_load H io f of
        Inl e \<Rightarrow> (Inl e, f)
      | Inr p0 \<Rightarrow>
          let p = gc_pending H now p0 in
          if dict_get (pending p) code = None then (Inr False, f)
          else pair_save io (p\<lparr>pending := dict_del (pending p) code\<rparr>) True f)"

definition users_of :: "pairing \<Rightarrow> string \<Rightarrow> string set" where
  "users_of p ch = (case dict_get (approved p) ch of None \<Rightarrow> {} | Some us \<Rightarrow> us)"

text \<open>Only an \<open>OSError\<close> of the file closes the check.\<close>

definition is_approved :: "pair_host \<Rightarrow> pair_io \<Rightarrow> string \<Rightarrow> string \<Rightarrow> store_file \<Rightarrow> (pair_error, bool) py" where
  "is_approved H io ch s f =
     (case pair_load H io f of
        Inl StoreOSError \<Rightarrow> Inr False
      | Inl e \<Rightarrow> Inl e
      | Inr p \<Rightarrow> Inr (s \<in> users_of p ch))"

text \<open>\<open>{"code": code, **info}\<close>: the entry's own fields win.\<close>

fun entry_fields :: "json \<Rightarrow> (string, json) dict" where
  "entry_fields (JDict e) = e" | "entry_fields _ = []"

definition list_pending ::
  "pair_host \<Rightarrow> pair_io \<Rightarrow> json \<Rightarrow> store_file \<Rightarrow> (pair_error, (string, json) dict list) py" where
  "list_pending H io now f =
     (case pair_load H io f of
        Inl StoreOSError \<Rightarrow> Inr []
      | Inl e \<Rightarrow> Inl e
      | Inr p \<Rightarrow> Inr (map (\<lambda>(c, e). fold (\<lambda>(k, v) d. dict_set d k v) (entry_fields e) [(''code'', JStr c)])
                       (pending (gc_pending H now p))))"

definition revoke ::
  "pair_host \<Rightarrow> pair_io \<Rightarrow> string \<Rightarrow> string \<Rightarrow> store_file \<Rightarrow> (pair_error, bool) py \<times> store_file" where
  "revoke H io ch s f =
     (case pair_load H io f of
        Inl e \<Rightarrow> (Inl e, f)
      | Inr p \<Rightarrow>
          if s \<notin> users_of p ch then (Inr False, f)
          else let left = users_of p ch - {s} in
            pair_save io (p\<lparr>approved := (if left = {} then dict_del (approved p) ch
                                         else dict_set (approved p) ch left)\<rparr>) True f)"

definition revoke_channel ::
  "pair_host \<Rightarrow> pair_io \<Rightarrow> string \<Rightarrow> store_file \<Rightarrow> (pair_error, nat) py \<times> store_file" where
  "revoke_channel H io ch f =
     (case pair_load H io f of
        Inl e \<Rightarrow> (Inl e, f)
      | Inr p \<Rightarrow>
          if users_of p ch = {} then (Inr 0, f)
          else pair_save io (p\<lparr>approved := dict_del (approved p) ch\<rparr>) (card (users_of p ch)) f)"

definition clear_channel ::
  "pair_host \<Rightarrow> pair_io \<Rightarrow> json \<Rightarrow> string \<Rightarrow> store_file \<Rightarrow> (pair_error, nat \<times> nat) py \<times> store_file" where
  "clear_channel H io now ch f =
     (case pair_load H io f of
        Inl e \<Rightarrow> (Inl e, f)
      | Inr p0 \<Rightarrow>
          let p = gc_pending H now p0;
              codes = filter (\<lambda>(c, e). entry_channel e = ch) (pending p)
          in if users_of p ch = {} \<and> codes = [] then (Inr (0, 0), f)
             else pair_save io \<lparr>approved = dict_del (approved p) ch,
                    pending = filter (\<lambda>(c, e). entry_channel e \<noteq> ch) (pending p)\<rparr>
                    (card (users_of p ch), length codes) f)"

definition get_approved :: "pair_host \<Rightarrow> pair_io \<Rightarrow> string \<Rightarrow> store_file \<Rightarrow> (pair_error, string list) py" where
  "get_approved H io ch f =
     (case pair_load H io f of
        Inl StoreOSError \<Rightarrow> Inr []
      | Inl e \<Rightarrow> Inl e
      | Inr p \<Rightarrow> Inr (sorted_list_of_set (users_of p ch)))"

subsection \<open>The chat command\<close>

text \<open>The replies, with the data their texts show.\<close>

datatype pair_reply =
    NoPendingReply
  | PendingReply "(string \<times> string \<times> string \<times> string) list"
  | ApproveUsage
  | ApprovedReply string string string
  | InvalidCodeReply string
  | DenyUsage
  | DeniedReply string
  | DenyUnknownReply string
  | RevokedReply string string
  | NotApprovedReply string string
  | RevokeUsage
  | UnknownCommandReply
  | UnavailableReply

definition format_expiry :: "pair_host \<Rightarrow> json \<Rightarrow> json \<Rightarrow> (string, string) py" where
  "format_expiry H now e =
     (case ph_seconds H e now of
        Inl x \<Rightarrow> Inl x
      | Inr n \<Rightarrow> Inr (if n > 0 then int_str n @ ''s'' else ''expired''))"

fun pending_lines ::
  "pair_host \<Rightarrow> json \<Rightarrow> (string, json) dict list \<Rightarrow> (string, (string \<times> string \<times> string \<times> string) list) py" where
  "pending_lines H now [] = Inr []"
| "pending_lines H now (d # ds) =
     (case format_expiry H now (case dict_get d ''expires_at'' of None \<Rightarrow> JInt 0 | Some v \<Rightarrow> v) of
        Inl x \<Rightarrow> Inl x
      | Inr t \<Rightarrow>
          (case pending_lines H now ds of
             Inl x \<Rightarrow> Inl x
           | Inr ls \<Rightarrow>
               Inr ((py_str H (the (dict_get d ''code'')), py_str H (the (dict_get d ''channel'')),
                     py_str H (the (dict_get d ''sender_id'')), t) # ls)))"

definition list_reply :: "pair_host \<Rightarrow> pair_io \<Rightarrow> json \<Rightarrow> json \<Rightarrow> store_file \<Rightarrow> (pair_error, pair_reply) py" where
  "list_reply H io now shown_at f =
     (case list_pending H io now f of
        Inl e \<Rightarrow> Inl e
      | Inr [] \<Rightarrow> Inr NoPendingReply
      | Inr ds \<Rightarrow>
          (case pending_lines H shown_at ds of
             Inl x \<Rightarrow> Inl (StoreRaised x) | Inr ls \<Rightarrow> Inr (PendingReply ls)))"

definition handle_pairing_subcommand ::
  "pair_host \<Rightarrow> pair_io \<Rightarrow> json \<Rightarrow> json \<Rightarrow> string \<Rightarrow> string \<Rightarrow> store_file
     \<Rightarrow> (pair_error, pair_reply) py \<times> store_file" where
  "handle_pairing_subcommand H io now shown_at channel t f =
     (let parts = split_ws [] t; sub = (case parts of [] \<Rightarrow> ''list'' | w # _ \<Rightarrow> w);
          arg = (case parts of _ # a # _ \<Rightarrow> Some a | _ \<Rightarrow> None) in
      if sub = ''list'' then (list_reply H io now shown_at f, f)
      else if sub = ''approve'' then
        (case arg of
           None \<Rightarrow> (Inr ApproveUsage, f)
         | Some a \<Rightarrow>
             (case approve_code H io now a f of
                (Inl e, g) \<Rightarrow> (Inl e, g)
              | (Inr None, g) \<Rightarrow> (Inr (InvalidCodeReply a), g)
              | (Inr (Some (ch, s)), g) \<Rightarrow> (Inr (ApprovedReply a s ch), g)))
      else if sub = ''deny'' then
        (case arg of
           None \<Rightarrow> (Inr DenyUsage, f)
         | Some a \<Rightarrow>
             (case deny_code H io now a f of
                (Inl e, g) \<Rightarrow> (Inl e, g)
              | (Inr ok, g) \<Rightarrow> (Inr (if ok then DeniedReply a else DenyUnknownReply a), g)))
      else if sub = ''revoke'' then
        (case parts of
           [_, s] \<Rightarrow>
             (case revoke H io channel s f of
                (Inl e, g) \<Rightarrow> (Inl e, g)
              | (Inr ok, g) \<Rightarrow> (Inr (if ok then RevokedReply s channel else NotApprovedReply s channel), g))
         | [_, ch, s] \<Rightarrow>
             (case revoke H io ch s f of
                (Inl e, g) \<Rightarrow> (Inl e, g)
              | (Inr ok, g) \<Rightarrow> (Inr (if ok then RevokedReply s ch else NotApprovedReply s ch), g))
         | _ \<Rightarrow> (Inr RevokeUsage, f))
      else (Inr UnknownCommandReply, f))"

definition handle_pairing_command ::
  "pair_host \<Rightarrow> pair_io \<Rightarrow> json \<Rightarrow> json \<Rightarrow> string \<Rightarrow> string \<Rightarrow> store_file
     \<Rightarrow> (string, pair_reply) py \<times> store_file" where
  "handle_pairing_command H io now shown_at channel t f =
     (case handle_pairing_subcommand H io now shown_at channel t f of
        (Inl StoreOSError, g) \<Rightarrow> (Inr UnavailableReply, g)
      | (Inl (StoreRaised x), g) \<Rightarrow> (Inl x, g)
      | (Inr r, g) \<Rightarrow> (Inr r, g))"

subsection \<open>Histories\<close>

text \<open>
  One call with its clock, and what it returned: a code, the sender a code admitted, a code that was
  denied, a sender (or every sender of a channel) that is not approved any more, or anything else.
\<close>

datatype pair_op =
    PGenerate code_request
  | PApprove json string
  | PDeny json string
  | PRevoke string string
  | PRevokeChannel string
  | PClear json string
  | PCommand json json string string

datatype pair_outcome =
    PRaised | PCode string | PGranted string string string | PDenied string
  | PGone string string | PGoneAll string | PDone

type_synonym pair_event = "pair_op \<times> pair_outcome"

fun reply_outcome :: "pair_reply \<Rightarrow> pair_outcome" where
  "reply_outcome (ApprovedReply c s ch) = PGranted c ch s"
| "reply_outcome (DeniedReply c) = PDenied c"
| "reply_outcome (RevokedReply s ch) = PGone ch s"
| "reply_outcome (NotApprovedReply s ch) = PGone ch s"
| "reply_outcome _ = PDone"

definition outcome :: "('a \<Rightarrow> pair_outcome) \<Rightarrow> ('e, 'a) py \<times> store_file \<Rightarrow> pair_outcome \<times> store_file" where
  "outcome k r = (case r of (Inl _, g) \<Rightarrow> (PRaised, g) | (Inr x, g) \<Rightarrow> (k x, g))"

fun pair_do :: "pair_host \<Rightarrow> pair_io \<times> pair_op \<Rightarrow> store_file \<Rightarrow> pair_outcome \<times> store_file" where
  "pair_do H (io, PGenerate q) f = outcome PCode (generate_code H io q f)"
| "pair_do H (io, PApprove now c) f =
     outcome (\<lambda>x. case x of None \<Rightarrow> PDone | Some (ch, s) \<Rightarrow> PGranted c ch s) (approve_code H io now c f)"
| "pair_do H (io, PDeny now c) f = outcome (\<lambda>ok. if ok then PDenied c else PDone) (deny_code H io now c f)"
| "pair_do H (io, PRevoke ch s) f = outcome (\<lambda>_. PGone ch s) (revoke H io ch s f)"
| "pair_do H (io, PRevokeChannel ch) f = outcome (\<lambda>_. PGoneAll ch) (revoke_channel H io ch f)"
| "pair_do H (io, PClear now ch) f = outcome (\<lambda>_. PGoneAll ch) (clear_channel H io now ch f)"
| "pair_do H (io, PCommand now t ch msg) f = outcome reply_outcome (handle_pairing_command H io now t ch msg f)"

fun pair_run :: "pair_host \<Rightarrow> (pair_io \<times> pair_op) list \<Rightarrow> store_file \<Rightarrow> pair_event list \<times> store_file" where
  "pair_run H [] f = ([], f)"
| "pair_run H (x # xs) f =
     (let (r, g) = pair_do H x f; (es, h) = pair_run H xs g in ((snd x, r) # es, h))"

subsection \<open>What a file holds\<close>

fun store_of :: "pair_host \<Rightarrow> store_file \<Rightarrow> pairing" where
  "store_of H (Doc j) = parse_store H j"
| "store_of H _ = no_pairing"

definition pair_wf :: "pairing \<Rightarrow> bool" where
  "pair_wf p \<longleftrightarrow> dict_wf (approved p) \<and> dict_wf (pending p) \<and> (\<forall>(ch, us) \<in> set (approved p). finite us)"

lemma pair_load_store: "pair_load H io f = Inr p \<Longrightarrow> p = store_of H f \<and> \<not> io_read_fails io \<and> f \<noteq> NotText"
  by (cases f) (auto split: if_splits)

lemma pair_load_iff: "pair_load H io f = Inr p \<longleftrightarrow> p = store_of H f \<and> \<not> io_read_fails io \<and> f \<noteq> NotText"
  by (cases f) auto

lemma store_roundtrip: "pair_wf p \<Longrightarrow> store_of H (Doc (store_json p)) = p"
proof -
  assume w: "pair_wf p"
  have "map (\<lambda>(ch, v). (ch, as_users H v)) (map (\<lambda>(ch, us). (ch, JList (map JStr (sorted_list_of_set us)))) (approved p))
      = approved p"
    using w by (auto simp: pair_wf_def image_image intro!: map_idI)
  then show ?thesis by (simp add: store_json_def)
qed

lemma users_of_simps [simp]:
  "users_of (p\<lparr>pending := x\<rparr>) ch = users_of p ch"
  "users_of (gc_pending H now p) ch = users_of p ch"
  by (simp_all add: users_of_def gc_pending_def)

lemma map_of_filter_wf:
  "dict_wf d \<Longrightarrow> map_of (filter (\<lambda>(k, v). P k v) d) k = (case map_of d k of None \<Rightarrow> None | Some v \<Rightarrow> if P k v then Some v else None)"
  by (induction d) (auto split: option.splits simp: map_of_eq_None_iff)

lemma gc_wf [simp]: "pair_wf p \<Longrightarrow> pair_wf (gc_pending H now p)"
  by (auto simp: pair_wf_def gc_pending_def distinct_map_filter)

subsection \<open>Operations on well-formed stores\<close>

lemma set_dict_del: "x \<in> set (dict_del d k) \<Longrightarrow> x \<in> set d"
  by (auto simp: dict_del_def)

lemma save_cases:
  assumes "pair_save io p r f = (x, g)" "pair_wf p"
  shows "x = Inl StoreOSError \<and> g = f \<or> x = Inr r \<and> store_of H g = p \<and> pair_wf (store_of H g)"
  using assms store_roundtrip[of p H] by (auto simp: pair_save_def split: if_splits)

lemma wf_pending_set: "pair_wf p \<Longrightarrow> pair_wf (p\<lparr>pending := dict_set (pending p) c e\<rparr>)"
  by (simp add: pair_wf_def)
lemma wf_pending_del: "pair_wf p \<Longrightarrow> pair_wf (p\<lparr>pending := dict_del (pending p) c\<rparr>)"
  by (simp add: pair_wf_def)
lemma wf_approved_set:
  "pair_wf p \<Longrightarrow> finite us \<Longrightarrow> pair_wf (p\<lparr>approved := dict_set (approved p) ch us\<rparr>)"
  by (auto simp: pair_wf_def dest!: set_dict_set[THEN subsetD])
lemma wf_approved_del: "pair_wf p \<Longrightarrow> pair_wf (p\<lparr>approved := dict_del (approved p) ch\<rparr>)"
  by (auto simp: pair_wf_def dest!: set_dict_del)
lemma wf_pending_filter: "pair_wf p \<Longrightarrow> pair_wf (p\<lparr>pending := filter P (pending p)\<rparr>)"
  by (simp add: pair_wf_def distinct_map_filter)

lemma finite_users: "pair_wf p \<Longrightarrow> finite (users_of p ch)"
  by (auto simp: pair_wf_def users_of_def split: option.splits dest!: map_of_SomeD)

lemmas wf_intros = wf_pending_set wf_pending_del wf_approved_set wf_approved_del wf_pending_filter gc_wf

lemma generate_cases:
  assumes "generate_code H io q f = (x, g)" "pair_wf (store_of H f)"
  obtains "g = f" | "x = Inr (code_of (cr_raw q))" "store_of H g =
      (let p = gc_pending H (cr_now q) (store_of H f) in
       p\<lparr>pending := dict_set (pending p) (code_of (cr_raw q)) (new_entry H q)\<rparr>)" "pair_wf (store_of H g)"
  using assms
  by (auto simp: generate_code_def Let_def pair_load_iff dest!: pair_load_store 
     save_cases[where H=H] split: sum.splits option.splits intro: wf_intros)
     

lemma approve_cases:
  assumes "approve_code H io now c f = (x, g)" "pair_wf (store_of H f)"
  obtains "g = f" "\<forall>y. x \<noteq> Inr (Some y)"
  | e p where "p = gc_pending H now (store_of H f)" "dict_get (pending p) c = Some e"
    "x = Inr (Some (entry_channel e, entry_sender H e))"
    "store_of H g = \<lparr>approved = dict_set (approved p) (entry_channel e)
        (insert (entry_sender H e) (users_of p (entry_channel e))), pending = dict_del (pending p) c\<rparr>"
    "pair_wf (store_of H g)"
proof -
  have w: "pair_wf \<lparr>approved = dict_set (approved p) ch (insert s (users_of p ch)), pending = dict_del (pending p) c\<rparr>"
    if "pair_wf p" for p ch s
    using wf_pending_del[OF wf_approved_set[OF that, of "insert s (users_of p ch)" ch], of c] finite_users[OF that]
    by (cases p) simp
  show ?thesis
  proof (cases "pair_load H io f")
    case (Inl e)
    then have "g = f" "x = Inl e" using assms by (simp_all add: approve_code_def)
    then show ?thesis by (intro that(1)) simp_all
  next
    case (Inr p0)
    define p where "p = gc_pending H now p0"
    have wp: "pair_wf p" using Inr assms(2) by (simp add: p_def pair_load_iff)
    show ?thesis
    proof (cases "dict_get (pending p) c")
      case None
      then have "g = f" "x = Inr None" using assms Inr by (simp_all add: approve_code_def p_def Let_def)
      then show ?thesis by (intro that(1)) simp_all
    next
      case (Some e)
      then have "pair_save io \<lparr>approved = dict_set (approved p) (entry_channel e)
          (insert (entry_sender H e) (users_of p (entry_channel e))), pending = dict_del (pending p) c\<rparr>
          (Some (entry_channel e, entry_sender H e)) f = (x, g)"
        using assms Inr by (simp add: approve_code_def p_def Let_def users_of_def)
      from save_cases[OF this w[OF wp], where H=H] show ?thesis
        using that(1) that(2)[OF _ Some] Inr by (auto simp: p_def pair_load_iff)
    qed
  qed
qed


definition shrinks :: "pair_host \<Rightarrow> store_file \<Rightarrow> store_file \<Rightarrow> bool" where
  "shrinks H f g \<longleftrightarrow> pair_wf (store_of H g)
     \<and> (\<forall>ch. users_of (store_of H g) ch \<subseteq> users_of (store_of H f) ch)
     \<and> map_of (pending (store_of H g)) \<subseteq>\<^sub>m map_of (pending (store_of H f))"

lemma shrinks_refl [simp]: "shrinks H f f \<longleftrightarrow> pair_wf (store_of H f)"
  by (simp add: shrinks_def)

lemma save_shrinks:
  assumes "pair_save io p r f = (x, g)" "pair_wf (store_of H f)" "pair_wf p"
    "\<And>ch. users_of p ch \<subseteq> users_of (store_of H f) ch" "map_of (pending p) \<subseteq>\<^sub>m map_of (pending (store_of H f))"
  shows "shrinks H f g \<and> (\<forall>y. x = Inr y \<longrightarrow> y = r \<and> store_of H g = p)"
  using save_cases[OF assms(1,3), where H=H] assms(2,4,5) by (auto simp: shrinks_def)

lemma gc_map_le: "pair_wf p \<Longrightarrow> map_of (pending (gc_pending H now p)) \<subseteq>\<^sub>m map_of (pending p)"
  by (auto simp: map_le_def gc_pending_def map_of_filter_wf pair_wf_def split: option.splits if_splits)

lemma users_of_del: "users_of (p\<lparr>approved := dict_del (approved p) ch\<rparr>) c = (if c = ch then {} else users_of p c)"
  by (simp add: users_of_def)
lemma users_of_set: "users_of (p\<lparr>approved := dict_set (approved p) ch us\<rparr>) c = (if c = ch then us else users_of p c)"
  by (simp add: users_of_def)

lemma deny_shrinks:
  assumes d: "deny_code H io now c f = (x, g)" and w: "pair_wf (store_of H f)"
  shows "shrinks H f g \<and> (x = Inr True \<longrightarrow> dict_get (pending (store_of H g)) c = None)"
proof -
  let ?p = "gc_pending H now (store_of H f)"
  let ?p' = "?p\<lparr>pending := dict_del (pending ?p) c\<rparr>"
  have c: "g = f \<and> x \<noteq> Inr True \<or> pair_save io ?p' True f = (x, g)"
    using d by (auto simp: deny_code_def Let_def pair_load_iff split: sum.splits if_splits)
  have m: "map_of (pending ?p') \<subseteq>\<^sub>m map_of (pending (store_of H f))"
    using gc_map_le[OF w, of H now] by (auto simp: map_le_def)
  show ?thesis
    using c
  proof
    assume "pair_save io ?p' True f = (x, g)"
    from save_shrinks[OF this w wf_pending_del[OF gc_wf[OF w]] _ m] show ?thesis by auto
  qed (use w in auto)
qed

lemma revoke_shrinks:
  assumes d: "revoke H io ch s f = (x, g)" and w: "pair_wf (store_of H f)"
  shows "shrinks H f g \<and> (\<forall>b. x = Inr b \<longrightarrow> s \<notin> users_of (store_of H g) ch)"
proof -
  define p where "p = store_of H f"
  define rest where "rest = users_of p ch - {s}"
  define p' where "p' = p\<lparr>approved := if rest = {} then dict_del (approved p) ch else dict_set (approved p) ch rest\<rparr>"
  have c: "g = f \<and> (\<forall>b. x = Inr b \<longrightarrow> s \<notin> users_of p ch) \<or> pair_save io p' True f = (x, g)"
    using d by (auto simp: revoke_def Let_def pair_load_iff p_def p'_def rest_def split: sum.splits if_splits)
  have u: "users_of p' c = (if c = ch then rest else users_of p c)" for c
    by (auto simp: p'_def users_of_del users_of_set)
  have wp: "pair_wf p'"
    using w finite_users[OF w, of ch] by (cases "rest = {}") (simp_all add: p'_def p_def rest_def wf_intros)
  have pe: "pending p' = pending p" by (simp add: p'_def)
  show ?thesis
    using c
  proof
    assume "pair_save io p' True f = (x, g)"
    from save_shrinks[OF this w wp] show ?thesis by (auto simp: u pe p_def rest_def split: if_splits)
  qed (use w in \<open>auto simp: p_def\<close>)
qed

lemma revoke_channel_shrinks:
  assumes d: "revoke_channel H io ch f = (x, g)" and w: "pair_wf (store_of H f)"
  shows "shrinks H f g \<and> (\<forall>b. x = Inr b \<longrightarrow> users_of (store_of H g) ch = {})"
proof -
  let ?p = "store_of H f"
  let ?p' = "?p\<lparr>approved := dict_del (approved ?p) ch\<rparr>"
  have "g = f \<and> (\<forall>b. x = Inr b \<longrightarrow> users_of ?p ch = {}) \<or> pair_save io ?p' (card (users_of ?p ch)) f = (x, g)"
    using d by (auto simp: revoke_channel_def Let_def pair_load_iff split: sum.splits if_splits)
  moreover have "shrinks H f g \<and> (\<forall>y. x = Inr y \<longrightarrow> store_of H g = ?p')"
    if "pair_save io ?p' (card (users_of ?p ch)) f = (x, g)"
    using save_shrinks[OF that w wf_approved_del[OF w]] by (auto simp: users_of_del)
  ultimately show ?thesis using w by (auto simp: users_of_del)
qed

lemma clear_channel_shrinks:
  assumes d: "clear_channel H io now ch f = (x, g)" and w: "pair_wf (store_of H f)"
  shows "shrinks H f g \<and> (\<forall>b. x = Inr b \<longrightarrow> users_of (store_of H g) ch = {})"
proof -
  define p where "p = gc_pending H now (store_of H f)"
  define p' where "p' = \<lparr>approved = dict_del (approved p) ch, pending = filter (\<lambda>(c, e). entry_channel e \<noteq> ch) (pending p)\<rparr>"
  have c: "g = f \<and> (\<forall>b. x = Inr b \<longrightarrow> users_of p ch = {}) \<or> (\<exists>n. pair_save io p' n f = (x, g))"
    using d by (auto simp: clear_channel_def Let_def pair_load_iff p_def p'_def split: sum.splits if_splits)
  have wp: "pair_wf p" using w by (simp add: p_def)
  have wp': "pair_wf p'"
    using wf_pending_filter[OF wf_approved_del[OF wp]] by (cases p) (simp add: p'_def)
  have u: "users_of p' c = (if c = ch then {} else users_of p c)" for c
    by (simp add: users_of_def p'_def)
  have up: "users_of p = users_of (store_of H f)" by (rule ext) (simp add: p_def)
  have "map_of (pending p') \<subseteq>\<^sub>m map_of (pending p)"
    using wp by (auto simp: p'_def map_le_def map_of_filter_wf pair_wf_def split: option.splits if_splits)
  then have m: "map_of (pending p') \<subseteq>\<^sub>m map_of (pending (store_of H f))"
    using gc_map_le[OF w] map_le_trans unfolding p_def by blast
  show ?thesis
    using c
  proof
    assume "\<exists>n. pair_save io p' n f = (x, g)"
    then obtain n where "pair_save io p' n f = (x, g)" ..
    from save_shrinks[OF this w wp' _ m] show ?thesis by (auto simp: u up split: if_splits)
  qed (use w up in auto)
qed

subsection \<open>One call\<close>

fun op_clock :: "pair_op \<Rightarrow> json" where
  "op_clock (PApprove now c) = now"
| "op_clock (PCommand now t ch msg) = now"
| "op_clock _ = JNull"

definition removes :: "string \<Rightarrow> string \<Rightarrow> pair_outcome \<Rightarrow> bool" where
  "removes ch s r \<longleftrightarrow> r = PGone ch s \<or> r = PGoneAll ch"

definition ends_code :: "string \<Rightarrow> pair_outcome \<Rightarrow> bool" where
  "ends_code c r \<longleftrightarrow> r = PDenied c \<or> (\<exists>ch s. r = PGranted c ch s)"

text \<open>What a call may do to a file: remove, issue one code, or redeem one code.\<close>

definition issues :: "pair_host \<Rightarrow> store_file \<Rightarrow> pair_op \<Rightarrow> pair_outcome \<Rightarrow> store_file \<Rightarrow> bool" where
  "issues H f op r g \<longleftrightarrow> (\<exists>q. op = PGenerate q \<and> r = PCode (code_of (cr_raw q)) \<and> pair_wf (store_of H g)
     \<and> users_of (store_of H g) = users_of (store_of H f)
     \<and> map_of (pending (store_of H g)) \<subseteq>\<^sub>m (map_of (pending (store_of H f)))(code_of (cr_raw q) \<mapsto> new_entry H q))"

definition redeems :: "pair_host \<Rightarrow> store_file \<Rightarrow> pair_op \<Rightarrow> pair_outcome \<Rightarrow> store_file \<Rightarrow> bool" where
  "redeems H f op r g \<longleftrightarrow> (\<exists>c e. dict_get (pending (store_of H f)) c = Some e \<and> keeps_entry H (op_clock op) e
     \<and> r = PGranted c (entry_channel e) (entry_sender H e) \<and> pair_wf (store_of H g)
     \<and> users_of (store_of H g) = (users_of (store_of H f))(entry_channel e := insert (entry_sender H e) (users_of (store_of H f) (entry_channel e)))
     \<and> map_of (pending (store_of H g)) \<subseteq>\<^sub>m (map_of (pending (store_of H f)))(c := None))"

definition retires :: "pair_host \<Rightarrow> store_file \<Rightarrow> pair_outcome \<Rightarrow> store_file \<Rightarrow> bool" where
  "retires H f r g \<longleftrightarrow> shrinks H f g \<and> (\<forall>c ch s. r \<noteq> PGranted c ch s)
     \<and> (\<forall>c. r = PDenied c \<longrightarrow> dict_get (pending (store_of H g)) c = None)
     \<and> (\<forall>ch s. removes ch s r \<longrightarrow> s \<notin> users_of (store_of H g) ch)"

lemma map_le_SomeD: "m \<subseteq>\<^sub>m m' \<Longrightarrow> m x = Some y \<Longrightarrow> m' x = Some y"
  by (metis domI map_le_def)

lemma generate_does:
  assumes "pair_do H (io, PGenerate q) f = (r, g)" "pair_wf (store_of H f)"
  shows "issues H f (PGenerate q) r g \<or> retires H f r g"
proof -
  obtain x where x: "generate_code H io q f = (x, g)" "r = (case x of Inl _ \<Rightarrow> PRaised | Inr c \<Rightarrow> PCode c)"
    using assms(1) by (auto simp: outcome_def split: prod.splits sum.splits)
  show ?thesis
    using x(1) assms(2)
  proof (cases rule: generate_cases)
    case 1
    then show ?thesis using assms(2) x(2) by (auto simp: retires_def removes_def split: sum.splits)
  next
    case 2
    then show ?thesis
      using x(2) gc_map_le[OF assms(2), of H "cr_now q"]
      by (auto simp: issues_def Let_def map_le_def)
  qed
qed

lemma approve_does:
  assumes "pair_do H (io, PApprove now c) f = (r, g)" "pair_wf (store_of H f)" "op_clock op = now"
  shows "redeems H f op r g \<or> retires H f r g"
proof -
  obtain x where x: "approve_code H io now c f = (x, g)"
    "r = (case x of Inl _ \<Rightarrow> PRaised | Inr None \<Rightarrow> PDone | Inr (Some (ch, s)) \<Rightarrow> PGranted c ch s)"
    using assms(1) by (auto simp: outcome_def split: prod.splits sum.splits)
  show ?thesis
    using x(1) assms(2)
  proof (cases rule: approve_cases)
    case 1
    then show ?thesis using assms(2) x(2) by (auto simp: retires_def removes_def split: sum.splits option.splits)
  next
    case (2 e p)
    have "dict_wf (pending (store_of H f))" using assms(2) by (simp add: pair_wf_def)
    then have e: "dict_get (pending (store_of H f)) c = Some e" "keeps_entry H now e"
      using 2(1,2) by (auto simp: gc_pending_def map_of_filter_wf split: option.splits if_splits)
    have "users_of (store_of H g) = (users_of (store_of H f))(entry_channel e := insert (entry_sender H e) (users_of (store_of H f) (entry_channel e)))"
      using 2(1,4) users_of_simps(2)[of H now "store_of H f"] by (auto simp: fun_eq_iff users_of_def)
    moreover have "map_of (pending (store_of H g)) \<subseteq>\<^sub>m (map_of (pending (store_of H f)))(c := None)"
      using 2(1,4) gc_map_le[OF assms(2), of H now] by (auto simp: map_le_def)
    ultimately show ?thesis using e 2(3,5) x(2) assms(3) by (auto simp: redeems_def)
  qed
qed

lemma deny_does:
  assumes "pair_do H (io, PDeny now c) f = (r, g)" "pair_wf (store_of H f)"
  shows "retires H f r g"
proof -
  obtain x where x: "deny_code H io now c f = (x, g)"
    "r = (case x of Inl _ \<Rightarrow> PRaised | Inr ok \<Rightarrow> if ok then PDenied c else PDone)"
    using assms(1) by (auto simp: outcome_def split: prod.splits sum.splits)
  from deny_shrinks[OF x(1) assms(2)] show ?thesis
    unfolding x(2) by (auto simp: retires_def removes_def split: sum.splits if_splits)
qed

lemma revoke_does:
  assumes "pair_do H (io, PRevoke ch s) f = (r, g)" "pair_wf (store_of H f)"
  shows "retires H f r g"
proof -
  obtain x where x: "revoke H io ch s f = (x, g)" "r = (case x of Inl _ \<Rightarrow> PRaised | Inr _ \<Rightarrow> PGone ch s)"
    using assms(1) by (auto simp: outcome_def split: prod.splits sum.splits)
  from revoke_shrinks[OF x(1) assms(2)] show ?thesis
    unfolding x(2) by (auto simp: retires_def removes_def split: sum.splits if_splits)
qed

lemma revoke_channel_does:
  assumes "pair_do H (io, PRevokeChannel ch) f = (r, g)" "pair_wf (store_of H f)"
  shows "retires H f r g"
proof -
  obtain x where x: "revoke_channel H io ch f = (x, g)" "r = (case x of Inl _ \<Rightarrow> PRaised | Inr _ \<Rightarrow> PGoneAll ch)"
    using assms(1) by (auto simp: outcome_def split: prod.splits sum.splits)
  from revoke_channel_shrinks[OF x(1) assms(2)] show ?thesis
    unfolding x(2) by (auto simp: retires_def removes_def split: sum.splits if_splits)
qed

lemma clear_does:
  assumes "pair_do H (io, PClear now ch) f = (r, g)" "pair_wf (store_of H f)"
  shows "retires H f r g"
proof -
  obtain x where x: "clear_channel H io now ch f = (x, g)" "r = (case x of Inl _ \<Rightarrow> PRaised | Inr _ \<Rightarrow> PGoneAll ch)"
    using assms(1) by (auto simp: outcome_def split: prod.splits sum.splits)
  from clear_channel_shrinks[OF x(1) assms(2)] show ?thesis
    unfolding x(2) by (auto simp: retires_def removes_def split: sum.splits if_splits)
qed

lemma retires_silent: "pair_wf (store_of H f) \<Longrightarrow> retires H f PDone f" "pair_wf (store_of H f) \<Longrightarrow> retires H f PRaised f"
  by (simp_all add: retires_def removes_def)

lemma retires_weaken: "retires H f r g \<Longrightarrow> retires H f PRaised g \<and> retires H f PDone g"
  by (simp add: retires_def removes_def)

text \<open>The outcome of a command from its reply, and the command as one of the operations it calls.\<close>

fun command_outcome :: "(pair_error, pair_reply) py \<Rightarrow> pair_outcome" where
  "command_outcome (Inl StoreOSError) = PDone"
| "command_outcome (Inl _) = PRaised"
| "command_outcome (Inr y) = reply_outcome y"

definition command_ops :: "json \<Rightarrow> pair_op set" where
  "command_ops now = range (PApprove now) \<union> range (PDeny now) \<union> range (case_prod PRevoke)"

definition runs_op :: "pair_host \<Rightarrow> pair_io \<Rightarrow> json \<Rightarrow> store_file \<Rightarrow> pair_outcome \<Rightarrow> store_file \<Rightarrow> bool" where
  "runs_op H io now f r g \<longleftrightarrow> (\<exists>op \<in> command_ops now. \<exists>r'. pair_do H (io, op) f = (r', g) \<and> (r = r' \<or> r' = PRaised \<and> r = PDone))"

lemma runs_opI:
  "op \<in> command_ops now \<Longrightarrow> pair_do H (io, op) f = (r', g) \<Longrightarrow> r = r' \<or> r' = PRaised \<and> r = PDone
    \<Longrightarrow> runs_op H io now f r g"
  unfolding runs_op_def by blast

lemma command_outcome_Inl: "command_outcome (Inl e) \<in> {PDone, PRaised}"
  by (cases e) auto

lemma runs_approve:
  assumes "(case approve_code H io now a f of (Inl e, g) \<Rightarrow> (Inl e, g)
     | (Inr None, g) \<Rightarrow> (Inr (InvalidCodeReply a), g)
     | (Inr (Some (ch, s)), g) \<Rightarrow> (Inr (ApprovedReply a s ch), g)) = (x, g)"
  shows "runs_op H io now f (command_outcome x) g"
  using assms command_outcome_Inl
  by (intro runs_opI[of "PApprove now a" now H io f "fst (pair_do H (io, PApprove now a) f)"])
     (auto simp: command_ops_def outcome_def split: prod.splits sum.splits option.splits)

lemma runs_deny:
  assumes "(case deny_code H io now a f of (Inl e, g) \<Rightarrow> (Inl e, g)
     | (Inr ok, g) \<Rightarrow> (Inr (if ok then DeniedReply a else DenyUnknownReply a), g)) = (x, g)"
  shows "runs_op H io now f (command_outcome x) g"
  using assms command_outcome_Inl
  by (intro runs_opI[of "PDeny now a" now H io f "fst (pair_do H (io, PDeny now a) f)"])
     (auto simp: command_ops_def outcome_def split: prod.splits sum.splits option.splits)

lemma runs_revoke:
  assumes "(case revoke H io ch s f of (Inl e, g) \<Rightarrow> (Inl e, g)
     | (Inr ok, g) \<Rightarrow> (Inr (if ok then RevokedReply s ch else NotApprovedReply s ch), g)) = (x, g)"
  shows "runs_op H io now f (command_outcome x) g"
  using assms command_outcome_Inl
  by (intro runs_opI[of "PRevoke ch s" now H io f "fst (pair_do H (io, PRevoke ch s) f)"])
     (auto simp: command_ops_def outcome_def split: prod.splits sum.splits option.splits)

lemma command_is:
  assumes "pair_do H (io, PCommand now t ch msg) f = (r, g)"
  shows "g = f \<and> r \<in> {PDone, PRaised} \<or> runs_op H io now f r g"
proof -
  obtain x where x: "handle_pairing_subcommand H io now t ch msg f = (x, g)" "r = command_outcome x"
    using assms
    by (auto simp: outcome_def handle_pairing_command_def split: prod.splits sum.splits pair_error.splits)
  have l: "command_outcome (list_reply H io now t f) \<in> {PDone, PRaised}"
    using command_outcome_Inl by (auto simp: list_reply_def split: sum.splits list.splits)
  show ?thesis
    using x(1) l unfolding x(2) handle_pairing_subcommand_def Let_def
    by (auto split: if_splits option.splits list.splits dest!: runs_approve runs_deny runs_revoke)
qed

lemma call_does:
  assumes "pair_do H (io, op) f = (r, g)" "pair_wf (store_of H f)"
  shows "issues H f op r g \<or> redeems H f op r g \<or> retires H f r g"
proof (cases op)
  case (PCommand now t ch msg)
  consider "g = f" "r \<in> {PDone, PRaised}" | op' r' where "op' \<in> command_ops now" "pair_do H (io, op') f = (r', g)"
    "r = r' \<or> r' = PRaised \<and> r = PDone"
    using command_is[of H io now t ch msg f r g] assms(1) PCommand unfolding runs_op_def by blast
  then show ?thesis
  proof cases
    case 1
    then show ?thesis using retires_silent[OF assms(2)] by auto
  next
    case 2
    have "redeems H f op r' g \<or> retires H f r' g"
      using 2(1,2) assms(2) approve_does[of H io now _ f r' g op] deny_does revoke_does PCommand
      by (auto simp: command_ops_def simp del: pair_do.simps)
    then show ?thesis
      using 2(3) retires_weaken[of H f r' g] by (auto simp: redeems_def)
  qed
next
  case (PGenerate q) then show ?thesis using generate_does assms by blast
next
  case (PApprove now c) then show ?thesis using approve_does[OF _ assms(2), of io now c r g op] assms(1) by simp
next
  case (PDeny now c) then show ?thesis using deny_does assms by blast
next
  case (PRevoke ch s) then show ?thesis using revoke_does assms by blast
next
  case (PRevokeChannel ch) then show ?thesis using revoke_channel_does assms by blast
next
  case (PClear now ch) then show ?thesis using clear_does assms by blast
qed

subsection \<open>Histories of a store\<close>

text \<open>A code's entry comes from the call that issued it, and nothing ended the code since.\<close>

definition issued :: "pair_host \<Rightarrow> pair_event list \<Rightarrow> string \<Rightarrow> code_request \<Rightarrow> bool" where
  "issued H hist c q \<longleftrightarrow> (\<exists>pre post. hist = pre @ (PGenerate q, PCode c) # post \<and> c = code_of (cr_raw q)
     \<and> (\<forall>e \<in> set post. \<not> ends_code c (snd e)))"

text \<open>A sender redeemed a code issued to it and not expired at that time, and was not removed since.\<close>

definition admitted :: "pair_host \<Rightarrow> pair_event list \<Rightarrow> string \<Rightarrow> string \<Rightarrow> bool" where
  "admitted H hist ch s \<longleftrightarrow> (\<exists>pre op c q post. hist = pre @ (op, PGranted c ch s) # post \<and> issued H pre c q
     \<and> cr_channel q = ch \<and> cr_sender q = s \<and> \<not> ph_less H (ph_plus H (cr_base q) (cr_ttl q)) (op_clock op)
     \<and> (\<forall>e \<in> set post. \<not> removes ch s (snd e)))"

definition store_inv :: "pair_host \<Rightarrow> pair_event list \<Rightarrow> store_file \<Rightarrow> bool" where
  "store_inv H hist f \<longleftrightarrow> pair_wf (store_of H f)
     \<and> (\<forall>c e. dict_get (pending (store_of H f)) c = Some e \<longrightarrow> (\<exists>q. e = new_entry H q \<and> issued H hist c q))
     \<and> (\<forall>ch s. s \<in> users_of (store_of H f) ch \<longrightarrow> admitted H hist ch s)"

lemma issued_snoc: "issued H hist c q \<Longrightarrow> \<not> ends_code c r \<Longrightarrow> issued H (hist @ [(op, r)]) c q"
  unfolding issued_def
  apply (elim exE conjE)
  subgoal for pre post by (rule exI[of _ pre], rule exI[of _ "post @ [(op, r)]"]) auto
  done

lemma admitted_snoc: "admitted H hist ch s \<Longrightarrow> \<not> removes ch s r \<Longrightarrow> admitted H (hist @ [(op, r)]) ch s"
  unfolding admitted_def
  apply (elim exE conjE)
  subgoal for pre op' c q post
    by (rule exI[of _ pre], rule exI[of _ op'], rule exI[of _ c], rule exI[of _ q], rule exI[of _ "post @ [(op, r)]"]) auto
  done

lemma issued_new: "issued H (hist @ [(PGenerate q, PCode (code_of (cr_raw q)))]) (code_of (cr_raw q)) q"
  unfolding issued_def by (rule exI[of _ hist], rule exI[of _ "[]"]) simp

lemma new_entry_simps [simp]:
  "entry_channel (new_entry H q) = cr_channel q" "entry_sender H (new_entry H q) = cr_sender q"
  by (simp_all add: new_entry_def)

lemma new_entry_kept: "keeps_entry H now (new_entry H q) \<Longrightarrow> \<not> ph_less H (ph_plus H (cr_base q) (cr_ttl q)) now"
  by (simp add: new_entry_def)

lemma inv_issues:
  assumes "store_inv H hist f" "issues H f op r g"
  shows "store_inv H (hist @ [(op, r)]) g"
proof -
  obtain q where q: "op = PGenerate q" "r = PCode (code_of (cr_raw q))" "pair_wf (store_of H g)"
    "users_of (store_of H g) = users_of (store_of H f)"
    "map_of (pending (store_of H g)) \<subseteq>\<^sub>m (map_of (pending (store_of H f)))(code_of (cr_raw q) \<mapsto> new_entry H q)"
    using assms(2) by (auto simp: issues_def)
  have n: "\<not> ends_code c r" "\<not> removes ch s r" for c ch s using q(2) by (auto simp: ends_code_def removes_def)
  have "\<exists>q'. e = new_entry H q' \<and> issued H (hist @ [(op, r)]) c q'" if "dict_get (pending (store_of H g)) c = Some e" for c e
  proof (cases "c = code_of (cr_raw q)")
    case True
    with that q(5) have "e = new_entry H q" by (auto simp: map_le_def dom_def)
    then show ?thesis using issued_new[of H hist q] q(1,2) True by auto
  next
    case False
    with that q(5) have "dict_get (pending (store_of H f)) c = Some e"
      by (metis domI fun_upd_other map_le_def)
    then show ?thesis using assms(1) issued_snoc n unfolding store_inv_def by blast
  qed
  then show ?thesis
    using assms(1) q(3,4) admitted_snoc n unfolding store_inv_def by metis
qed

lemma inv_redeems:
  assumes "store_inv H hist f" "redeems H f op r g"
  shows "store_inv H (hist @ [(op, r)]) g"
proof -
  obtain c e where e: "dict_get (pending (store_of H f)) c = Some e" "keeps_entry H (op_clock op) e"
    "r = PGranted c (entry_channel e) (entry_sender H e)" "pair_wf (store_of H g)"
    "users_of (store_of H g) = (users_of (store_of H f))(entry_channel e := insert (entry_sender H e) (users_of (store_of H f) (entry_channel e)))"
    "map_of (pending (store_of H g)) \<subseteq>\<^sub>m (map_of (pending (store_of H f)))(c := None)"
    using assms(2) by (auto simp: redeems_def)
  obtain q where q: "e = new_entry H q" "issued H hist c q" using assms(1) e(1) by (auto simp: store_inv_def)
  have n: "\<not> removes ch s r" for ch s using e(3) by (simp add: removes_def)
  have "admitted H (hist @ [(op, r)]) ch s" if "s \<in> users_of (store_of H g) ch" for ch s
  proof (cases "ch = cr_channel q \<and> s = cr_sender q")
    case True
    then show ?thesis
      unfolding admitted_def using e(2,3) q new_entry_kept[of H "op_clock op" q]
      by (intro exI[of _ hist] exI[of _ op] exI[of _ c] exI[of _ q] exI[of _ "[]"]) simp
  next
    case False
    then have "s \<in> users_of (store_of H f) ch" using that e(5) q(1) by (auto split: if_splits)
    then show ?thesis using assms(1) admitted_snoc n unfolding store_inv_def by blast
  qed
  moreover have "\<exists>q'. e' = new_entry H q' \<and> issued H (hist @ [(op, r)]) c' q'"
    if "dict_get (pending (store_of H g)) c' = Some e'" for c' e'
  proof -
    have "c' \<noteq> c" "dict_get (pending (store_of H f)) c' = Some e'"
      using map_le_SomeD[OF e(6) that] by (auto split: if_splits)
    moreover have "\<not> ends_code c' r" using \<open>c' \<noteq> c\<close> e(3) by (simp add: ends_code_def)
    ultimately show ?thesis using assms(1) issued_snoc unfolding store_inv_def by blast
  qed
  ultimately show ?thesis using e(4) unfolding store_inv_def by blast
qed

lemma inv_retires:
  assumes "store_inv H hist f" "retires H f r g"
  shows "store_inv H (hist @ [(op, r)]) g"
proof -
  have s: "shrinks H f g" "\<And>c ch s. r \<noteq> PGranted c ch s"
    "\<And>c. r = PDenied c \<Longrightarrow> dict_get (pending (store_of H g)) c = None"
    "\<And>ch s. removes ch s r \<Longrightarrow> s \<notin> users_of (store_of H g) ch"
    using assms(2) by (auto simp: retires_def)
  have "\<exists>q. e = new_entry H q \<and> issued H (hist @ [(op, r)]) c q" if "dict_get (pending (store_of H g)) c = Some e" for c e
  proof -
    have "dict_get (pending (store_of H f)) c = Some e"
      using that s(1) unfolding shrinks_def map_le_def by (metis domI)
    moreover have "\<not> ends_code c r" using s(2,3) that by (auto simp: ends_code_def)
    ultimately show ?thesis using assms(1) issued_snoc unfolding store_inv_def by blast
  qed
  moreover have "admitted H (hist @ [(op, r)]) ch u" if "u \<in> users_of (store_of H g) ch" for ch u
    using that s(1,4) assms(1) admitted_snoc unfolding store_inv_def shrinks_def by blast
  ultimately show ?thesis using s(1) unfolding store_inv_def shrinks_def by blast
qed

lemma inv_run:
  "pair_run H xs f = (es, g) \<Longrightarrow> store_inv H hist f \<Longrightarrow> store_inv H (hist @ es) g"
proof (induction xs arbitrary: f es hist)
  case (Cons x xs)
  obtain io op where x: "x = (io, op)" by (cases x)
  obtain r f' es' where d: "pair_do H (io, op) f = (r, f')" "pair_run H xs f' = (es', g)" "es = (op, r) # es'"
    using Cons.prems(1) unfolding x by (auto simp: Let_def simp del: pair_do.simps split: prod.splits)
  have "store_inv H (hist @ [(op, r)]) f'"
    using call_does[OF d(1)] inv_issues[OF Cons.prems(2)] inv_redeems[OF Cons.prems(2)] inv_retires[OF Cons.prems(2)]
      Cons.prems(2) by (auto simp: store_inv_def[of H hist])
  from Cons.IH[OF d(2) this] show ?case by (simp add: d(3))
qed simp

lemma inv_start: "store_inv H [] NoFile"
  by (simp add: store_inv_def no_pairing_def pair_wf_def users_of_def)

text \<open>
  Claim C5: whatever sequence of calls and chat commands, with whatever I/O failures, took place since there
  was no file: a sender that passes the check redeemed a code that the store had issued for exactly that
  channel and sender, that had not expired at that time and that nothing had denied or redeemed since
  it was issued; and no later call revoked the sender or its channel.\<close>

theorem approved_only_through_code:
  assumes "pair_run H xs NoFile = (es, f)" "is_approved H io ch s f = Inr True"
  shows "admitted H es ch s"
proof -
  have "s \<in> users_of (store_of H f) ch"
    using assms(2) by (auto simp: is_approved_def pair_load_iff split: sum.splits pair_error.splits)
  then show ?thesis using inv_run[OF assms(1) inv_start] by (simp add: store_inv_def)
qed

definition demo_pair :: pair_host where
  "demo_pair = \<lparr>ph_repr = \<lambda>_. [], ph_less = \<lambda>a b. (case (a, b) of (JInt i, JInt j) \<Rightarrow> i < j | _ \<Rightarrow> False),
     ph_plus = \<lambda>a n. (case a of JInt i \<Rightarrow> JInt (i + n) | v \<Rightarrow> v), ph_seconds = \<lambda>_ _. Inr 0\<rparr>"

definition demo_request :: code_request where
  "demo_request = \<lparr>cr_channel = ''tg'', cr_sender = ''7'', cr_ttl = 9, cr_raw = ''ABCDEFGH'',
     cr_now = JInt 1, cr_created = JInt 1, cr_base = JInt 1\<rparr>"

definition demo_calls :: "(pair_io \<times> pair_op) list" where
  "demo_calls = (let ok = \<lparr>io_read_fails = False, io_write_fails = False\<rparr> in
     [(ok, PGenerate demo_request), (ok, PCommand (JInt 5) (JInt 5) ''tg'' ''approve ABCD-EFGH'')])"

lemma demo_runs:
  "is_approved demo_pair \<lparr>io_read_fails = False, io_write_fails = False\<rparr> ''tg'' ''7''
     (snd (pair_run demo_pair demo_calls NoFile)) = Inr True"
  by code_simp

theorem approved_only_through_code_witness:
  "admitted demo_pair (fst (pair_run demo_pair demo_calls NoFile)) ''tg'' ''7''"
  by (rule approved_only_through_code[OF prod.collapse[symmetric] demo_runs])

lemma raised_keeps_file:
  assumes "pair_do H (io, op) f = (PRaised, g)"
  shows "g = f"
proof -
  have base: "g = f" if "pair_do H (io, op) f = (PRaised, g)" "op \<notin> range (\<lambda>(n, t, c, m). PCommand n t c m)" for op
  proof (cases op)
    case (PGenerate q)
    then show ?thesis using that(1)
      by (auto simp: outcome_def generate_code_def pair_save_def Let_def split: sum.splits option.splits if_splits)
  next
    case (PApprove now c)
    then show ?thesis using that(1)
      by (auto simp: outcome_def approve_code_def pair_save_def Let_def split: sum.splits option.splits if_splits)
  next
    case (PDeny now c)
    then show ?thesis using that(1)
      by (auto simp: outcome_def deny_code_def pair_save_def Let_def split: sum.splits option.splits if_splits)
  next
    case (PRevoke ch s)
    then show ?thesis using that(1)
      by (auto simp: outcome_def revoke_def pair_save_def Let_def split: sum.splits if_splits)
  next
    case (PRevokeChannel ch)
    then show ?thesis using that(1)
      by (auto simp: outcome_def revoke_channel_def pair_save_def Let_def split: sum.splits if_splits)
  next
    case (PClear now ch)
    then show ?thesis using that(1)
      by (auto simp: outcome_def clear_channel_def pair_save_def Let_def split: sum.splits if_splits)
  next
    case (PCommand n t c m)
    then have "op = (\<lambda>(n, t, c, m). PCommand n t c m) (n, t, c, m)" by simp
    with that(2) show ?thesis by (metis rangeI)
  qed
  show ?thesis
  proof (cases op)
    case (PCommand now t ch msg)
    then show ?thesis
      using command_is[of H io now t ch msg f PRaised g] assms base
      by (fastforce simp: runs_op_def command_ops_def simp del: pair_do.simps)
  qed (use assms base in \<open>force simp del: pair_do.simps\<close>)+
qed

text \<open>
  The store fails closed and loses nothing: a call that raises leaves the file as it was, and the
  check of a sender answers False while the file cannot be read, raises on a file that is no UTF-8 text,
  and otherwise answers by the file (where a file that is not JSON approves nobody).\<close>

lemma pairing_fails_closed:
  "{g. pair_do H (io, op) f = (PRaised, g)} \<subseteq> {f} \<and>
   is_approved H io ch s f =
     (if io_read_fails io then Inr False
      else if f = NotText then Inl (StoreRaised ''UnicodeDecodeError'')
      else Inr (s \<in> users_of (store_of H f) ch))"
proof
  show "{g. pair_do H (io, op) f = (PRaised, g)} \<subseteq> {f}" using raised_keeps_file by blast
  show "is_approved H io ch s f = (if io_read_fails io then Inr False
      else if f = NotText then Inl (StoreRaised ''UnicodeDecodeError'') else Inr (s \<in> users_of (store_of H f) ch))"
    by (cases f) (simp_all add: is_approved_def)
qed

end
