(* ===== verification/CronTypes.thy ===== *)
theory CronTypes
  imports Json "HOL-Library.Monad_Syntax"
begin

text \<open>
  The jobs of the scheduler, \<open>nanobot/cron/types.py\<close>, with the JSON of \<open>jobs.json\<close> (camelCase,
  read with snake_case fallbacks) and of the action log (\<open>asdict\<close>). Decoders answer None where the
  code raises, and also for a value of another type than its field declares, which Python would
  store as it is. \<open>int(v)\<close> of a value that is no integer is an argument.
\<close>

subsection \<open>Records\<close>

record cron_schedule =
  s_kind :: string
  at_ms :: "int option"
  every_ms :: "int option"
  s_expr :: "string option"
  s_tz :: "string option"

record cron_payload =
  p_kind :: string
  message :: string
  deliver :: bool
  p_channel :: "string option"
  p_to :: "string option"
  channel_meta :: "(string, json) dict"
  session_key :: "string option"
  origin_channel :: "string option"
  origin_chat_id :: "string option"
  origin_metadata :: "(string, json) dict"

record cron_run_record =
  run_at_ms :: int
  r_status :: string
  duration_ms :: int
  r_error :: "string option"
  r_run_id :: "string option"

record cron_job_state =
  next_run_at_ms :: "int option"
  last_run_at_ms :: "int option"
  last_status :: "string option"
  last_error :: "string option"
  run_history :: "cron_run_record list"

record cron_job =
  j_id :: string
  j_name :: string
  enabled :: bool
  j_schedule :: cron_schedule
  j_payload :: cron_payload
  j_state :: cron_job_state
  created_at_ms :: int
  updated_at_ms :: int
  delete_after_run :: bool

definition default_schedule :: cron_schedule where
  "default_schedule = \<lparr>s_kind = ''every'', at_ms = None, every_ms = None, s_expr = None, s_tz = None\<rparr>"

definition default_payload :: cron_payload where
  "default_payload = \<lparr>p_kind = ''agent_turn'', message = [], deliver = False, p_channel = None, p_to = None,
     channel_meta = [], session_key = None, origin_channel = None, origin_chat_id = None, origin_metadata = []\<rparr>"

definition default_state :: cron_job_state where
  "default_state = \<lparr>next_run_at_ms = None, last_run_at_ms = None, last_status = None, last_error = None, run_history = []\<rparr>"

subsection \<open>Values\<close>

definition get_camel_snake :: "(string, json) dict \<Rightarrow> string \<Rightarrow> string \<Rightarrow> json \<Rightarrow> json" where
  "get_camel_snake d camel snake dflt =
     (case dict_get d camel of
        Some v \<Rightarrow> v
      | None \<Rightarrow> (case dict_get d snake of Some v \<Rightarrow> v | None \<Rightarrow> dflt))"

definition get_key :: "(string, json) dict \<Rightarrow> string \<Rightarrow> json \<Rightarrow> json" where
  "get_key d k dflt = (case dict_get d k of Some v \<Rightarrow> v | None \<Rightarrow> dflt)"

fun store_int :: "(json \<Rightarrow> int option) \<Rightarrow> int option \<Rightarrow> json \<Rightarrow> int option option" where
  "store_int P d JNull = Some d"
| "store_int P d (JStr []) = Some d"
| "store_int P d (JInt i) = Some (Some i)"
| "store_int P d v = map_option Some (P v)"

definition store_int0 :: "(json \<Rightarrow> int option) \<Rightarrow> json \<Rightarrow> int option" where
  "store_int0 P v = map_option the (store_int P (Some 0) v)"

fun want_str :: "json \<Rightarrow> string option" where
  "want_str (JStr s) = Some s" | "want_str _ = None"
fun want_bool :: "json \<Rightarrow> bool option" where
  "want_bool (JBool b) = Some b" | "want_bool _ = None"
fun want_int :: "json \<Rightarrow> int option" where
  "want_int (JInt i) = Some i" | "want_int _ = None"
fun want_dict :: "json \<Rightarrow> (string, json) dict option" where
  "want_dict (JDict d) = Some d" | "want_dict _ = None"
fun want_list :: "json \<Rightarrow> json list option" where
  "want_list (JList xs) = Some xs" | "want_list _ = None"
fun want_opt :: "(json \<Rightarrow> 'a option) \<Rightarrow> json \<Rightarrow> 'a option option" where
  "want_opt w JNull = Some None" | "want_opt w v = map_option Some (w v)"

text \<open>\<open>v or {}\<close> as a dict, \<open>v or []\<close> as a list.\<close>

definition dict_or :: "json \<Rightarrow> (string, json) dict option" where
  "dict_or v = (if truthy v then want_dict v else Some [])"

definition list_or :: "json \<Rightarrow> json list option" where
  "list_or v = (if truthy v then want_list v else Some [])"

fun map_all :: "('a \<Rightarrow> 'b option) \<Rightarrow> 'a list \<Rightarrow> 'b list option" where
  "map_all f [] = Some []"
| "map_all f (x # xs) = do { y \<leftarrow> f x; ys \<leftarrow> map_all f xs; Some (y # ys) }"

lemma map_all_map: "(\<And>x. f (g x) = Some x) \<Longrightarrow> map_all f (map g xs) = Some xs"
  by (induction xs) auto

definition is_json_dict :: "json \<Rightarrow> bool" where
  "is_json_dict v = (case v of JDict _ \<Rightarrow> True | _ \<Rightarrow> False)"

subsection \<open>Reading and writing \<open>jobs.json\<close>\<close>

definition schedule_from_store :: "(json \<Rightarrow> int option) \<Rightarrow> json \<Rightarrow> cron_schedule option" where
  "schedule_from_store P v = do {
     d \<leftarrow> want_dict v;
     k \<leftarrow> dict_get d ''kind'' \<bind> want_str;
     a \<leftarrow> store_int P None (get_camel_snake d ''atMs'' ''at_ms'' JNull);
     e \<leftarrow> store_int P None (get_camel_snake d ''everyMs'' ''every_ms'' JNull);
     x \<leftarrow> want_opt want_str (get_key d ''expr'' JNull);
     z \<leftarrow> want_opt want_str (get_key d ''tz'' JNull);
     Some \<lparr>s_kind = k, at_ms = a, every_ms = e, s_expr = x, s_tz = z\<rparr> }"

definition payload_from_store :: "json \<Rightarrow> cron_payload option" where
  "payload_from_store v = do {
     d \<leftarrow> want_dict v;
     k \<leftarrow> want_str (get_key d ''kind'' (JStr ''agent_turn''));
     m \<leftarrow> want_str (get_key d ''message'' (JStr []));
     dl \<leftarrow> want_bool (get_key d ''deliver'' (JBool False));
     ch \<leftarrow> want_opt want_str (get_key d ''channel'' JNull);
     t \<leftarrow> want_opt want_str (get_key d ''to'' JNull);
     cm \<leftarrow> dict_or (get_camel_snake d ''channelMeta'' ''channel_meta'' (JDict []));
     sk \<leftarrow> want_opt want_str (get_camel_snake d ''sessionKey'' ''session_key'' JNull);
     oc \<leftarrow> want_opt want_str (get_camel_snake d ''originChannel'' ''origin_channel'' JNull);
     oi \<leftarrow> want_opt want_str (get_camel_snake d ''originChatId'' ''origin_chat_id'' JNull);
     om \<leftarrow> dict_or (get_camel_snake d ''originMetadata'' ''origin_metadata'' (JDict []));
     Some \<lparr>p_kind = k, message = m, deliver = dl, p_channel = ch, p_to = t, channel_meta = cm, session_key = sk,
           origin_channel = oc, origin_chat_id = oi, origin_metadata = om\<rparr> }"

definition run_record_from_store :: "(json \<Rightarrow> int option) \<Rightarrow> json \<Rightarrow> cron_run_record option" where
  "run_record_from_store P v = do {
     d \<leftarrow> want_dict v;
     a \<leftarrow> store_int0 P (get_camel_snake d ''runAtMs'' ''run_at_ms'' (JInt 0));
     st \<leftarrow> dict_get d ''status'' \<bind> want_str;
     du \<leftarrow> store_int0 P (get_camel_snake d ''durationMs'' ''duration_ms'' (JInt 0));
     e \<leftarrow> want_opt want_str (get_key d ''error'' JNull);
     Some \<lparr>run_at_ms = a, r_status = st, duration_ms = du, r_error = e,
           r_run_id = want_str (get_camel_snake d ''runId'' ''run_id'' JNull)\<rparr> }"

definition state_from_store :: "(json \<Rightarrow> int option) \<Rightarrow> json \<Rightarrow> cron_job_state option" where
  "state_from_store P v = do {
     d \<leftarrow> want_dict v;
     h \<leftarrow> list_or (get_camel_snake d ''runHistory'' ''run_history'' (JList []));
     n \<leftarrow> store_int P None (get_camel_snake d ''nextRunAtMs'' ''next_run_at_ms'' JNull);
     l \<leftarrow> store_int P None (get_camel_snake d ''lastRunAtMs'' ''last_run_at_ms'' JNull);
     st \<leftarrow> want_opt want_str (get_camel_snake d ''lastStatus'' ''last_status'' JNull);
     e \<leftarrow> want_opt want_str (get_camel_snake d ''lastError'' ''last_error'' JNull);
     rs \<leftarrow> map_all (run_record_from_store P) (filter is_json_dict h);
     Some \<lparr>next_run_at_ms = n, last_run_at_ms = l, last_status = st, last_error = e, run_history = rs\<rparr> }"

definition job_from_store :: "(json \<Rightarrow> int option) \<Rightarrow> json \<Rightarrow> cron_job option" where
  "job_from_store P v = do {
     d \<leftarrow> want_dict v;
     i \<leftarrow> dict_get d ''id'' \<bind> want_str;
     n \<leftarrow> dict_get d ''name'' \<bind> want_str;
     en \<leftarrow> want_bool (get_key d ''enabled'' (JBool True));
     sc \<leftarrow> dict_get d ''schedule'' \<bind> schedule_from_store P;
     pd \<leftarrow> dict_or (get_key d ''payload'' JNull);
     pl \<leftarrow> payload_from_store (JDict pd);
     sd \<leftarrow> dict_or (get_key d ''state'' JNull);
     st \<leftarrow> state_from_store P (JDict sd);
     c \<leftarrow> store_int0 P (get_camel_snake d ''createdAtMs'' ''created_at_ms'' (JInt 0));
     u \<leftarrow> store_int0 P (get_camel_snake d ''updatedAtMs'' ''updated_at_ms'' (JInt 0));
     Some \<lparr>j_id = i, j_name = n, enabled = en, j_schedule = sc, j_payload = pl, j_state = st,
           created_at_ms = c, updated_at_ms = u,
           delete_after_run = truthy (get_camel_snake d ''deleteAfterRun'' ''delete_after_run'' (JBool False))\<rparr> }"

fun opt_json :: "('a \<Rightarrow> json) \<Rightarrow> 'a option \<Rightarrow> json" where
  "opt_json f None = JNull" | "opt_json f (Some x) = f x"

text \<open>The entries \<open>_save_store\<close> writes.\<close>

definition schedule_to_store :: "cron_schedule \<Rightarrow> json" where
  "schedule_to_store s = JDict [(''kind'', JStr (s_kind s)), (''atMs'', opt_json JInt (at_ms s)),
     (''everyMs'', opt_json JInt (every_ms s)), (''expr'', opt_json JStr (s_expr s)), (''tz'', opt_json JStr (s_tz s))]"

definition payload_to_store :: "cron_payload \<Rightarrow> json" where
  "payload_to_store p = JDict [(''kind'', JStr (p_kind p)), (''message'', JStr (message p)), (''deliver'', JBool (deliver p)),
     (''channel'', opt_json JStr (p_channel p)), (''to'', opt_json JStr (p_to p)), (''channelMeta'', JDict (channel_meta p)),
     (''sessionKey'', opt_json JStr (session_key p)), (''originChannel'', opt_json JStr (origin_channel p)),
     (''originChatId'', opt_json JStr (origin_chat_id p)), (''originMetadata'', JDict (origin_metadata p))]"

definition run_record_to_store :: "cron_run_record \<Rightarrow> json" where
  "run_record_to_store r = JDict [(''runAtMs'', JInt (run_at_ms r)), (''status'', JStr (r_status r)),
     (''durationMs'', JInt (duration_ms r)), (''error'', opt_json JStr (r_error r)), (''runId'', opt_json JStr (r_run_id r))]"

definition state_to_store :: "cron_job_state \<Rightarrow> json" where
  "state_to_store s = JDict [(''nextRunAtMs'', opt_json JInt (next_run_at_ms s)), (''lastRunAtMs'', opt_json JInt (last_run_at_ms s)),
     (''lastStatus'', opt_json JStr (last_status s)), (''lastError'', opt_json JStr (last_error s)),
     (''runHistory'', JList (map run_record_to_store (run_history s)))]"

definition job_to_store :: "cron_job \<Rightarrow> json" where
  "job_to_store j = JDict [(''id'', JStr (j_id j)), (''name'', JStr (j_name j)), (''enabled'', JBool (enabled j)),
     (''schedule'', schedule_to_store (j_schedule j)), (''payload'', payload_to_store (j_payload j)),
     (''state'', state_to_store (j_state j)), (''createdAtMs'', JInt (created_at_ms j)),
     (''updatedAtMs'', JInt (updated_at_ms j)), (''deleteAfterRun'', JBool (delete_after_run j))]"

subsection \<open>The action log\<close>

text \<open>Keyword arguments: an unknown key raises.\<close>

definition kwargs_ok :: "string list \<Rightarrow> (string, json) dict \<Rightarrow> bool" where
  "kwargs_ok ks d \<longleftrightarrow> list_all (\<lambda>(k, v). k \<in> set ks) d"

definition kwargs :: "string list \<Rightarrow> json \<Rightarrow> (string, json) dict option" where
  "kwargs ks v = do { d \<leftarrow> want_dict v; if kwargs_ok ks d then Some d else None }"

definition schedule_from_dict :: "json \<Rightarrow> cron_schedule option" where
  "schedule_from_dict v = do {
     d \<leftarrow> kwargs [''kind'', ''at_ms'', ''every_ms'', ''expr'', ''tz''] v;
     k \<leftarrow> dict_get d ''kind'' \<bind> want_str;
     a \<leftarrow> want_opt want_int (get_key d ''at_ms'' JNull);
     e \<leftarrow> want_opt want_int (get_key d ''every_ms'' JNull);
     x \<leftarrow> want_opt want_str (get_key d ''expr'' JNull);
     z \<leftarrow> want_opt want_str (get_key d ''tz'' JNull);
     Some \<lparr>s_kind = k, at_ms = a, every_ms = e, s_expr = x, s_tz = z\<rparr> }"

definition payload_from_dict :: "json \<Rightarrow> cron_payload option" where
  "payload_from_dict v = do {
     d \<leftarrow> kwargs [''kind'', ''message'', ''deliver'', ''channel'', ''to'', ''channel_meta'', ''session_key'',
            ''origin_channel'', ''origin_chat_id'', ''origin_metadata''] v;
     k \<leftarrow> want_str (get_key d ''kind'' (JStr ''agent_turn''));
     m \<leftarrow> want_str (get_key d ''message'' (JStr []));
     dl \<leftarrow> want_bool (get_key d ''deliver'' (JBool False));
     ch \<leftarrow> want_opt want_str (get_key d ''channel'' JNull);
     t \<leftarrow> want_opt want_str (get_key d ''to'' JNull);
     cm \<leftarrow> want_dict (get_key d ''channel_meta'' (JDict []));
     sk \<leftarrow> want_opt want_str (get_key d ''session_key'' JNull);
     oc \<leftarrow> want_opt want_str (get_key d ''origin_channel'' JNull);
     oi \<leftarrow> want_opt want_str (get_key d ''origin_chat_id'' JNull);
     om \<leftarrow> want_dict (get_key d ''origin_metadata'' (JDict []));
     Some \<lparr>p_kind = k, message = m, deliver = dl, p_channel = ch, p_to = t, channel_meta = cm, session_key = sk,
           origin_channel = oc, origin_chat_id = oi, origin_metadata = om\<rparr> }"

definition run_record_from_dict :: "json \<Rightarrow> cron_run_record option" where
  "run_record_from_dict v = do {
     d \<leftarrow> kwargs [''run_at_ms'', ''status'', ''duration_ms'', ''error'', ''run_id''] v;
     a \<leftarrow> dict_get d ''run_at_ms'' \<bind> want_int;
     st \<leftarrow> dict_get d ''status'' \<bind> want_str;
     du \<leftarrow> want_int (get_key d ''duration_ms'' (JInt 0));
     e \<leftarrow> want_opt want_str (get_key d ''error'' JNull);
     i \<leftarrow> want_opt want_str (get_key d ''run_id'' JNull);
     Some \<lparr>run_at_ms = a, r_status = st, duration_ms = du, r_error = e, r_run_id = i\<rparr> }"

definition state_from_dict :: "json \<Rightarrow> cron_job_state option" where
  "state_from_dict v = do {
     d \<leftarrow> kwargs [''next_run_at_ms'', ''last_run_at_ms'', ''last_status'', ''last_error'', ''run_history''] v;
     h \<leftarrow> want_list (get_key d ''run_history'' (JList []));
     rs \<leftarrow> map_all run_record_from_dict h;
     n \<leftarrow> want_opt want_int (get_key d ''next_run_at_ms'' JNull);
     l \<leftarrow> want_opt want_int (get_key d ''last_run_at_ms'' JNull);
     st \<leftarrow> want_opt want_str (get_key d ''last_status'' JNull);
     e \<leftarrow> want_opt want_str (get_key d ''last_error'' JNull);
     Some \<lparr>next_run_at_ms = n, last_run_at_ms = l, last_status = st, last_error = e, run_history = rs\<rparr> }"

definition job_from_dict :: "json \<Rightarrow> cron_job option" where
  "job_from_dict v = do {
     d \<leftarrow> kwargs [''id'', ''name'', ''enabled'', ''schedule'', ''payload'', ''state'', ''created_at_ms'',
            ''updated_at_ms'', ''delete_after_run''] v;
     st \<leftarrow> state_from_dict (get_key d ''state'' (JDict []));
     sc \<leftarrow> schedule_from_dict (get_key d ''schedule'' (JDict [(''kind'', JStr ''every'')]));
     pl \<leftarrow> payload_from_dict (get_key d ''payload'' (JDict []));
     i \<leftarrow> dict_get d ''id'' \<bind> want_str;
     n \<leftarrow> dict_get d ''name'' \<bind> want_str;
     en \<leftarrow> want_bool (get_key d ''enabled'' (JBool True));
     c \<leftarrow> want_int (get_key d ''created_at_ms'' (JInt 0));
     u \<leftarrow> want_int (get_key d ''updated_at_ms'' (JInt 0));
     da \<leftarrow> want_bool (get_key d ''delete_after_run'' (JBool False));
     Some \<lparr>j_id = i, j_name = n, enabled = en, j_schedule = sc, j_payload = pl, j_state = st,
           created_at_ms = c, updated_at_ms = u, delete_after_run = da\<rparr> }"

text \<open>\<open>asdict(job)\<close>.\<close>

definition schedule_asdict :: "cron_schedule \<Rightarrow> json" where
  "schedule_asdict s = JDict [(''kind'', JStr (s_kind s)), (''at_ms'', opt_json JInt (at_ms s)),
     (''every_ms'', opt_json JInt (every_ms s)), (''expr'', opt_json JStr (s_expr s)), (''tz'', opt_json JStr (s_tz s))]"

definition payload_asdict :: "cron_payload \<Rightarrow> json" where
  "payload_asdict p = JDict [(''kind'', JStr (p_kind p)), (''message'', JStr (message p)), (''deliver'', JBool (deliver p)),
     (''channel'', opt_json JStr (p_channel p)), (''to'', opt_json JStr (p_to p)), (''channel_meta'', JDict (channel_meta p)),
     (''session_key'', opt_json JStr (session_key p)), (''origin_channel'', opt_json JStr (origin_channel p)),
     (''origin_chat_id'', opt_json JStr (origin_chat_id p)), (''origin_metadata'', JDict (origin_metadata p))]"

definition run_record_asdict :: "cron_run_record \<Rightarrow> json" where
  "run_record_asdict r = JDict [(''run_at_ms'', JInt (run_at_ms r)), (''status'', JStr (r_status r)),
     (''duration_ms'', JInt (duration_ms r)), (''error'', opt_json JStr (r_error r)), (''run_id'', opt_json JStr (r_run_id r))]"

definition state_asdict :: "cron_job_state \<Rightarrow> json" where
  "state_asdict s = JDict [(''next_run_at_ms'', opt_json JInt (next_run_at_ms s)), (''last_run_at_ms'', opt_json JInt (last_run_at_ms s)),
     (''last_status'', opt_json JStr (last_status s)), (''last_error'', opt_json JStr (last_error s)),
     (''run_history'', JList (map run_record_asdict (run_history s)))]"

definition job_asdict :: "cron_job \<Rightarrow> json" where
  "job_asdict j = JDict [(''id'', JStr (j_id j)), (''name'', JStr (j_name j)), (''enabled'', JBool (enabled j)),
     (''schedule'', schedule_asdict (j_schedule j)), (''payload'', payload_asdict (j_payload j)),
     (''state'', state_asdict (j_state j)), (''created_at_ms'', JInt (created_at_ms j)),
     (''updated_at_ms'', JInt (updated_at_ms j)), (''delete_after_run'', JBool (delete_after_run j))]"

subsection \<open>Round trips\<close>

lemma want_opt_json [simp]:
  "want_opt want_str (opt_json JStr x) = Some x" "want_opt want_int (opt_json JInt i) = Some i"
  "store_int P None (opt_json JInt i) = Some i" "want_str (opt_json JStr x) = x"
  by (cases x; simp; fail | cases i; simp; fail)+

lemma want_values [simp]: "dict_or (JDict d) = Some d" "list_or (JList xs) = Some xs" "store_int0 P (JInt k) = Some k"
  by (simp_all add: dict_or_def list_or_def store_int0_def)

lemma schedule_roundtrip: "schedule_from_store P (schedule_to_store s) = Some s"
  by (simp add: schedule_from_store_def schedule_to_store_def get_camel_snake_def get_key_def)

lemma payload_roundtrip: "payload_from_store (payload_to_store p) = Some p"
  by (simp add: payload_from_store_def payload_to_store_def get_camel_snake_def get_key_def)

lemma run_record_roundtrip: "run_record_from_store P (run_record_to_store r) = Some r"
  by (simp add: run_record_from_store_def run_record_to_store_def get_camel_snake_def get_key_def)

lemma state_roundtrip: "state_from_store P (state_to_store s) = Some s"
proof -
  have d: "filter is_json_dict (map run_record_to_store rs) = map run_record_to_store rs" for rs
    by (simp add: filter_map is_json_dict_def run_record_to_store_def o_def)
  show ?thesis
    by (simp add: state_from_store_def state_to_store_def get_camel_snake_def d map_all_map[where f="run_record_from_store P" and g=run_record_to_store] run_record_roundtrip)
qed

lemma job_store_roundtrip: "job_from_store P (job_to_store j) = Some j"
proof -
  have p: "payload_to_store (j_payload j) = JDict x \<Longrightarrow> payload_from_store (JDict x) = Some (j_payload j)" for x
    using payload_roundtrip[of "j_payload j"] by simp
  have s: "state_to_store (j_state j) = JDict x \<Longrightarrow> state_from_store P (JDict x) = Some (j_state j)" for x
    using state_roundtrip[of P "j_state j"] by simp
  obtain x y where "payload_to_store (j_payload j) = JDict x" "state_to_store (j_state j) = JDict y"
    by (simp add: payload_to_store_def state_to_store_def)
  then show ?thesis
    using p s
    by (simp add: job_from_store_def job_to_store_def get_camel_snake_def get_key_def schedule_roundtrip)
qed

lemma job_dict_roundtrip: "job_from_dict (job_asdict j) = Some j"
proof -
  have r: "run_record_from_dict (run_record_asdict r) = Some r" for r
    by (simp add: run_record_from_dict_def run_record_asdict_def kwargs_def kwargs_ok_def get_key_def)
  have "state_from_dict (state_asdict s) = Some s" for s
    by (simp add: state_from_dict_def state_asdict_def kwargs_def kwargs_ok_def get_key_def map_all_map[where f=run_record_from_dict and g=run_record_asdict] r)
  moreover have "payload_from_dict (payload_asdict p) = Some p" for p
    by (simp add: payload_from_dict_def payload_asdict_def kwargs_def kwargs_ok_def get_key_def)
  moreover have "schedule_from_dict (schedule_asdict s) = Some s" for s
    by (simp add: schedule_from_dict_def schedule_asdict_def kwargs_def kwargs_ok_def get_key_def)
  ultimately show ?thesis
    by (simp add: job_from_dict_def job_asdict_def kwargs_def kwargs_ok_def get_key_def)
qed

text \<open>
  What one instance writes another one reads: a job survives \<open>jobs.json\<close> and the action log
  unchanged, with every field of its schedule, payload, state and history.\<close>

lemma cron_job_roundtrip:
  "job_from_store P (job_to_store j) = Some j \<and> job_from_dict (job_asdict j) = Some j"
  by (simp add: job_store_roundtrip job_dict_roundtrip)

end
