(* ===== verification/Cron.thy ===== *)
theory Cron
  imports CronTypes
begin

text \<open>
  The scheduler, \<open>nanobot/cron/service.py\<close>: jobs in memory, in \<open>jobs.json\<close> and in the action log of other
  instances, the timer, and the execution of due jobs. \<open>croniter\<close>, time zones and the agent callback are
  arguments. Every reading of the clock and every write to disk is a named place of the program
  (\<open>clock_site\<close>, \<open>save_site\<close>); a call takes what they answer this time.
\<close>

subsection \<open>The environment of a call\<close>

datatype clock_site =
    AtLoad nat | AtMerge nat | AtBind nat | AtTick | AtCheck nat | AtStart nat | AtEnd nat | AtNext nat
  | AtWake | AtCall nat

datatype save_site = SvTruncate | SvMerge | SvBind | SvFirst | SvLast | SvAppend

text \<open>
  \<open>fails\<close>: the save raises; \<open>replaced\<close>: what raised came after \<open>os.replace\<close> (the sync of the directory), so that the file
  is the new one all the same.
\<close>

record call_env =
  clk :: "clock_site \<Rightarrow> int"
  fails :: "save_site \<Rightarrow> bool"
  replaced :: "save_site \<Rightarrow> bool"
  renames :: bool

text \<open>
  \<open>ce_next\<close>: the next firing of an expression in a time zone (None when anything raises);
  \<open>ce_expr_error\<close>: the text of the error of \<open>croniter(expr)\<close>; \<open>ce_expr_valid\<close>: \<open>croniter.is_valid\<close>;
  \<open>ce_copy\<close>: a value through \<open>json.dumps\<close> and \<open>json.loads\<close>, None when they raise.
\<close>

record cron_env =
  ce_next :: "string \<Rightarrow> string option \<Rightarrow> int \<Rightarrow> int option"
  ce_expr_error :: "string \<Rightarrow> string option"
  ce_expr_valid :: "string \<Rightarrow> bool"
  ce_tz_ok :: "string \<Rightarrow> bool"
  ce_int :: "json \<Rightarrow> int option"
  ce_copy :: "json \<Rightarrow> json option"
  ce_max_sleep :: int

subsection \<open>Schedules\<close>

fun given :: "string option \<Rightarrow> bool" where
  "given None = False" | "given (Some s) = (s \<noteq> [])"

definition compute_next_run :: "cron_env \<Rightarrow> cron_schedule \<Rightarrow> int \<Rightarrow> int option" where
  "compute_next_run E s now =
     (if s_kind s = ''at'' then
        (case at_ms s of None \<Rightarrow> None | Some t \<Rightarrow> if t \<noteq> 0 \<and> t > now then Some t else None)
      else if s_kind s = ''every'' then
        (case every_ms s of None \<Rightarrow> None | Some d \<Rightarrow> if d \<le> 0 then None else Some (now + d))
      else if s_kind s = ''cron'' \<and> given (s_expr s) then ce_next E (the (s_expr s)) (s_tz s) now
      else None)"

datatype schedule_error = TzWithoutCron | EmptyExpr | BadExpr string string | UnknownTz string | InvalidExpr string

definition validate_schedule_for_add :: "cron_env \<Rightarrow> cron_schedule \<Rightarrow> schedule_error option" where
  "validate_schedule_for_add E s =
     (if given (s_tz s) \<and> s_kind s \<noteq> ''cron'' then Some TzWithoutCron
      else if s_kind s \<noteq> ''cron'' then None
      else (case s_expr s of
          None \<Rightarrow> Some EmptyExpr
        | Some x \<Rightarrow>
            if strip x = [] then Some EmptyExpr
            else (case ce_expr_error E x of
                Some msg \<Rightarrow> Some (BadExpr x msg)
              | None \<Rightarrow>
                  if given (s_tz s) \<and> \<not> ce_tz_ok E (the (s_tz s)) then Some (UnknownTz (the (s_tz s)))
                  else if \<not> ce_expr_valid E x then Some (InvalidExpr x)
                  else None)))"

subsection \<open>Payloads\<close>

definition has_legacy_delivery_context :: "cron_payload \<Rightarrow> bool" where
  "has_legacy_delivery_context p \<longleftrightarrow> deliver p \<or> given (p_channel p) \<or> given (p_to p) \<or> channel_meta p \<noteq> []"

definition legacy_session_key :: "cron_payload \<Rightarrow> string option" where
  "legacy_session_key p =
     (if given (session_key p) then session_key p
      else if given (p_channel p) \<and> given (p_to p) then Some (the (p_channel p) @ '':'' @ the (p_to p))
      else None)"

definition LEGACY_REASON :: string where
  "LEGACY_REASON = ''legacy cron payload is missing channel/to; recreate it from a chat session''"

definition clear_legacy :: "cron_payload \<Rightarrow> cron_payload" where
  "clear_legacy p = p\<lparr>deliver := False, p_channel := None, p_to := None, channel_meta := []\<rparr>"

definition disable_malformed_legacy_job :: "cron_job \<Rightarrow> cron_job" where
  "disable_malformed_legacy_job j =
     j\<lparr>j_payload := clear_legacy (j_payload j), enabled := False,
       j_state := (j_state j)\<lparr>next_run_at_ms := None, last_status := Some ''error'', last_error := Some LEGACY_REASON\<rparr>\<rparr>"

definition RUNTIME_CONTEXT_INPUT_META :: string where
  "RUNTIME_CONTEXT_INPUT_META = ''_runtime_context_blocks''"

fun persistable_origin_metadata :: "cron_env \<Rightarrow> (string, json) dict \<Rightarrow> (string, json) dict" where
  "persistable_origin_metadata E [] = []"
| "persistable_origin_metadata E ((k, v) # d) =
     (if k = RUNTIME_CONTEXT_INPUT_META then persistable_origin_metadata E d
      else (case ce_copy E v of
          None \<Rightarrow> persistable_origin_metadata E d
        | Some w \<Rightarrow> (k, w) # persistable_origin_metadata E d))"

definition detach_metadata :: "cron_env \<Rightarrow> cron_job \<Rightarrow> cron_job" where
  "detach_metadata E j =
     j\<lparr>j_payload := (j_payload j)\<lparr>origin_metadata := persistable_origin_metadata E (origin_metadata (j_payload j))\<rparr>\<rparr>"

definition bind_legacy_payload :: "cron_env \<Rightarrow> cron_payload \<Rightarrow> cron_payload" where
  "bind_legacy_payload E p =
     clear_legacy (p\<lparr>session_key := legacy_session_key p,
       origin_channel := (if given (origin_channel p) then origin_channel p else p_channel p),
       origin_chat_id := (if given (origin_chat_id p) then origin_chat_id p else p_to p),
       origin_metadata := (if origin_metadata p = [] then persistable_origin_metadata E (channel_meta p)
                           else origin_metadata p)\<rparr>)"

definition migrate_legacy_job :: "cron_env \<Rightarrow> int \<Rightarrow> cron_job \<Rightarrow> cron_job" where
  "migrate_legacy_job E now j =
     j\<lparr>j_payload := bind_legacy_payload E (j_payload j), updated_at_ms := max (updated_at_ms j) now\<rparr>"

text \<open>\<open>_normalize_agent_turn_job\<close>; its return value is not used by any caller.\<close>

definition normalize_agent_turn_job :: "cron_env \<Rightarrow> int \<Rightarrow> cron_job \<Rightarrow> cron_job" where
  "normalize_agent_turn_job E now j0 =
     (let j = detach_metadata E j0; p = j_payload j in
      if p_kind p \<noteq> ''agent_turn'' \<or> \<not> has_legacy_delivery_context p then j
      else if \<not> given (p_channel p) \<or> \<not> given (p_to p) then disable_malformed_legacy_job j
      else migrate_legacy_job E now j)"

definition is_bound_cron_job :: "cron_job \<Rightarrow> bool" where
  "is_bound_cron_job j \<longleftrightarrow>
     (let p = j_payload j in
      p_kind p = ''agent_turn'' \<and> given (session_key p) \<and> given (origin_channel p) \<and> given (origin_chat_id p)
      \<and> \<not> has_legacy_delivery_context p)"

definition is_unbound_agent_job :: "cron_job \<Rightarrow> bool" where
  "is_unbound_agent_job j \<longleftrightarrow> p_kind (j_payload j) = ''agent_turn'' \<and> \<not> is_bound_cron_job j"

definition UNBOUND_AGENT_JOB_REASON :: string where
  "UNBOUND_AGENT_JOB_REASON =
     ''agent cron payload is missing bound session delivery context; recreate it from a chat session''"

definition enforce_agent_binding :: "int \<Rightarrow> cron_job \<Rightarrow> bool \<times> cron_job" where
  "enforce_agent_binding now j =
     (if \<not> is_unbound_agent_job j then (False, j)
      else if \<not> enabled j \<and> next_run_at_ms (j_state j) = None \<and> last_status (j_state j) = Some ''error''
              \<and> given (last_error (j_state j)) then (False, j)
      else (True, j\<lparr>enabled := False,
              j_state := (j_state j)\<lparr>next_run_at_ms := None, last_status := Some ''error'',
                            last_error := Some UNBOUND_AGENT_JOB_REASON\<rparr>,
              updated_at_ms := max (updated_at_ms j) now\<rparr>))"

subsection \<open>The service\<close>

text \<open>\<open>jobs.json\<close>: absent, unreadable or not JSON, or a JSON value. The log: one parse per line.\<close>

datatype jobs_file = NoJobs | BadJobs | JobsDoc json

datatype cron_error = StoreUnusable | WriteFailed | BadSchedule schedule_error

text \<open>\<open>c_timer\<close> is the delay of the pending tick; \<open>c_log\<close> the jobs handed to the callback.\<close>

record cron =
  c_store :: "(json \<times> cron_job list) option"
  c_running :: bool
  c_active :: nat
  c_dirty :: bool
  c_timer :: "int option"
  c_disk :: jobs_file
  c_backups :: "jobs_file list"
  c_actions :: "json option list option"
  c_log :: "cron_job list"

definition cron_jobs :: "cron \<Rightarrow> cron_job list" where
  "cron_jobs c = (case c_store c of None \<Rightarrow> [] | Some (v, js) \<Rightarrow> js)"

definition with_jobs :: "(cron_job list \<Rightarrow> cron_job list) \<Rightarrow> cron \<Rightarrow> cron" where
  "with_jobs f c = c\<lparr>c_store := map_option (\<lambda>(v, js). (v, f js)) (c_store c)\<rparr>"

definition should_persist_store :: "cron \<Rightarrow> bool" where
  "should_persist_store c \<longleftrightarrow> c_running c \<or> c_active c > 0"

definition store_doc :: "json \<times> cron_job list \<Rightarrow> json" where
  "store_doc s = JDict [(''version'', fst s), (''jobs'', JList (map job_to_store (snd s)))]"

definition save_store :: "call_env \<Rightarrow> save_site \<Rightarrow> cron \<Rightarrow> (cron_error, unit) py \<times> cron" where
  "save_store v site c =
     (case c_store c of
        None \<Rightarrow> (Inr (), c)
      | Some s \<Rightarrow>
          if fails v site
          then (Inl WriteFailed,
                (if replaced v site then c\<lparr>c_disk := JobsDoc (store_doc s)\<rparr> else c)\<lparr>c_dirty := True\<rparr>)
          else (Inr (), c\<lparr>c_disk := JobsDoc (store_doc s), c_dirty := False\<rparr>))"

subsection \<open>Loading\<close>

text \<open>What \<open>for j in data.get("jobs", [])\<close> can iterate without an error of its own.\<close>

fun iter_jobs :: "json \<Rightarrow> json list option" where
  "iter_jobs (JList xs) = Some xs"
| "iter_jobs (JDict []) = Some []"
| "iter_jobs (JStr []) = Some []"
| "iter_jobs _ = None"

definition normalize_all :: "cron_env \<Rightarrow> (nat \<Rightarrow> int) \<Rightarrow> cron_job list \<Rightarrow> cron_job list" where
  "normalize_all E now js = map (\<lambda>(i, j). normalize_agent_turn_job E (now i) j) (enumerate 0 js)"

definition parse_jobs :: "cron_env \<Rightarrow> call_env \<Rightarrow> json \<Rightarrow> (json \<times> cron_job list) option" where
  "parse_jobs E v doc = do {
     d \<leftarrow> want_dict doc;
     xs \<leftarrow> iter_jobs (get_key d ''jobs'' (JList []));
     js \<leftarrow> map_all (job_from_store (ce_int E)) xs;
     Some (get_key d ''version'' (JInt 1), normalize_all E (\<lambda>i. clk v (AtLoad i)) js) }"

text \<open>A file that cannot be read is moved aside, unless the rename fails too.\<close>

definition set_aside :: "call_env \<Rightarrow> cron \<Rightarrow> cron" where
  "set_aside v c = (if renames v then c\<lparr>c_backups := c_backups c @ [c_disk c], c_disk := NoJobs\<rparr> else c)"

definition load_jobs :: "cron_env \<Rightarrow> call_env \<Rightarrow> cron \<Rightarrow> (json \<times> cron_job list) option \<times> cron" where
  "load_jobs E v c =
     (case c_disk c of
        NoJobs \<Rightarrow> (Some (JInt 1, []), c)
      | BadJobs \<Rightarrow> (None, set_aside v c)
      | JobsDoc doc \<Rightarrow>
          (case parse_jobs E v doc of None \<Rightarrow> (None, set_aside v c) | Some s \<Rightarrow> (Some s, c)))"

text \<open>One line of the action log: the new map, or None when the line is skipped.\<close>

fun action_line :: "cron_env \<Rightarrow> int \<Rightarrow> json option \<Rightarrow> (string, cron_job) dict \<Rightarrow> (string, cron_job) dict option" where
  "action_line E now (Some (JDict a)) m =
     (case dict_get a ''action'' of
        None \<Rightarrow> None
      | Some act \<Rightarrow>
          if act = JStr ''del'' then
            (case get_key a ''params'' (JDict []) of
               JDict ps \<Rightarrow>
                 Some (case dict_get ps ''job_id'' of
                         Some (JStr i) \<Rightarrow> if i \<noteq> [] then dict_del m i else m
                       | _ \<Rightarrow> m)
             | _ \<Rightarrow> None)
          else
            (case job_from_dict (get_key a ''params'' (JDict [])) of
               None \<Rightarrow> None
             | Some j \<Rightarrow> let j' = normalize_agent_turn_job E now j in Some (dict_set m (j_id j') j')))"
| "action_line E now _ m = None"

fun action_lines ::
  "cron_env \<Rightarrow> (nat \<Rightarrow> int) \<Rightarrow> nat \<Rightarrow> json option list \<Rightarrow> bool \<Rightarrow> (string, cron_job) dict
     \<Rightarrow> bool \<times> (string, cron_job) dict" where
  "action_lines E now i [] ch m = (ch, m)"
| "action_lines E now i (l # ls) ch m =
     (case action_line E (now i) l m of
        None \<Rightarrow> action_lines E now (Suc i) ls ch m
      | Some m' \<Rightarrow> action_lines E now (Suc i) ls True m')"

definition jobs_map :: "cron_job list \<Rightarrow> (string, cron_job) dict" where
  "jobs_map js = fold (\<lambda>j m. dict_set m (j_id j) j) js []"

text \<open>\<open>_merge_action\<close>: the log is emptied before the merged store is written.\<close>

definition merge_action :: "cron_env \<Rightarrow> call_env \<Rightarrow> cron \<Rightarrow> (cron_error, unit) py \<times> cron" where
  "merge_action E v c =
     (case c_actions c of
        None \<Rightarrow> (Inr (), c)
      | Some ls \<Rightarrow>
          let (ch, m) = action_lines E (\<lambda>i. clk v (AtMerge i)) 0 ls False (jobs_map (cron_jobs c));
              c1 = with_jobs (\<lambda>_. map snd m) c
          in if should_persist_store c1 \<and> ch then
               if fails v SvTruncate then (Inl WriteFailed, c1)
               else save_store v SvMerge (c1\<lparr>c_actions := Some []\<rparr>)
             else (Inr (), c1))"

definition enforce_store_agent_bindings :: "call_env \<Rightarrow> cron \<Rightarrow> bool \<times> cron" where
  "enforce_store_agent_bindings v c =
     (let rs = map (\<lambda>(i, j). enforce_agent_binding (clk v (AtBind i)) j) (enumerate 0 (cron_jobs c))
      in (list_ex fst rs, with_jobs (\<lambda>_. map snd rs) c))"

text \<open>\<open>_load_store\<close>: whether there is a store afterwards.\<close>

definition load_store :: "cron_env \<Rightarrow> call_env \<Rightarrow> bool \<Rightarrow> cron \<Rightarrow> (cron_error, bool) py \<times> cron" where
  "load_store E v reload c =
     (if c_dirty c \<and> c_store c \<noteq> None then (Inr True, c)
      else if c_active c > 0 \<and> c_store c \<noteq> None \<and> \<not> reload then (Inr True, c)
      else (case load_jobs E v c of
          (None, c1) \<Rightarrow> (Inr (c_store c1 \<noteq> None), c1)
        | (Some s, c1) \<Rightarrow>
            (case merge_action E v (c1\<lparr>c_store := Some s\<rparr>) of
               (Inl e, c2) \<Rightarrow> (Inl e, c2)
             | (Inr _, c2) \<Rightarrow>
                 (case enforce_store_agent_bindings v c2 of (ch, c3) \<Rightarrow>
                    if ch \<and> should_persist_store c3 then
                      (case save_store v SvBind c3 of
                         (Inl e, c4) \<Rightarrow> (Inl e, c4) | (Inr _, c4) \<Rightarrow> (Inr True, c4))
                    else (Inr True, c3)))))"

definition require_store :: "cron_env \<Rightarrow> call_env \<Rightarrow> bool \<Rightarrow> cron \<Rightarrow> (cron_error, unit) py \<times> cron" where
  "require_store E v reload c =
     (case load_store E v reload c of
        (Inl e, c1) \<Rightarrow> (Inl e, c1)
      | (Inr ok, c1) \<Rightarrow> (if ok then Inr () else Inl StoreUnusable, c1))"

subsection \<open>The timer\<close>

definition wake_times :: "cron_job list \<Rightarrow> int list" where
  "wake_times js = map (\<lambda>j. the (next_run_at_ms (j_state j)))
     (filter (\<lambda>j. enabled j \<and> next_run_at_ms (j_state j) \<notin> {None, Some 0}) js)"

definition get_next_wake_ms :: "cron \<Rightarrow> int option" where
  "get_next_wake_ms c = (case wake_times (cron_jobs c) of [] \<Rightarrow> None | t # ts \<Rightarrow> Some (fold min ts t))"

definition arm_timer :: "cron_env \<Rightarrow> call_env \<Rightarrow> cron \<Rightarrow> cron" where
  "arm_timer E v c =
     (if c_active c > 0 then c
      else if \<not> c_running c then c\<lparr>c_timer := None\<rparr>
      else c\<lparr>c_timer := Some (case get_next_wake_ms c of
                None \<Rightarrow> ce_max_sleep E
              | Some t \<Rightarrow> min (ce_max_sleep E) (max 0 (t - clk v AtWake)))\<rparr>)"

definition recompute_job :: "cron_env \<Rightarrow> int \<Rightarrow> int \<Rightarrow> cron_job \<Rightarrow> cron_job" where
  "recompute_job E now bind_now j =
     (case enforce_agent_binding bind_now j of
        (True, j') \<Rightarrow> j'
      | (False, j') \<Rightarrow>
          if enabled j'
          then j'\<lparr>j_state := (j_state j')\<lparr>next_run_at_ms := compute_next_run E (j_schedule j') now\<rparr>\<rparr>
          else j')"

definition recompute_next_runs :: "cron_env \<Rightarrow> call_env \<Rightarrow> cron \<Rightarrow> cron" where
  "recompute_next_runs E v c =
     with_jobs (\<lambda>js. map (\<lambda>(i, j). recompute_job E (clk v AtTick) (clk v (AtBind i)) j) (enumerate 0 js)) c"

definition cron_start :: "cron_env \<Rightarrow> call_env \<Rightarrow> cron \<Rightarrow> (cron_error, unit) py \<times> cron" where
  "cron_start E v c =
     (case load_store E v False (c\<lparr>c_running := True\<rparr>) of
        (Inl e, c1) \<Rightarrow> (Inl e, c1)
      | (Inr ok, c1) \<Rightarrow>
          if \<not> ok then (Inl StoreUnusable, c1\<lparr>c_running := False\<rparr>)
          else (case save_store v SvLast (recompute_next_runs E v c1) of
              (Inl e, c2) \<Rightarrow> (Inl e, c2)
            | (Inr _, c2) \<Rightarrow> (Inr (), arm_timer E v c2)))"

definition cron_stop :: "cron \<Rightarrow> cron" where
  "cron_stop c = c\<lparr>c_running := False, c_timer := None\<rparr>"

subsection \<open>Calls\<close>

text \<open>The first job of an identifier, and a change of it.\<close>

definition find_job :: "string \<Rightarrow> cron_job list \<Rightarrow> cron_job option" where
  "find_job i js = find (\<lambda>j. j_id j = i) js"

fun change_job :: "string \<Rightarrow> (cron_job \<Rightarrow> cron_job) \<Rightarrow> cron_job list \<Rightarrow> cron_job list" where
  "change_job i f [] = []"
| "change_job i f (j # js) = (if j_id j = i then f j # js else j # change_job i f js)"

definition without_job :: "string \<Rightarrow> cron_job list \<Rightarrow> cron_job list" where
  "without_job i js = filter (\<lambda>j. j_id j \<noteq> i) js"

text \<open>Saving and re-arming, or appending to the log of the instance that owns the store.\<close>

definition append_action :: "call_env \<Rightarrow> string \<Rightarrow> json \<Rightarrow> cron \<Rightarrow> (cron_error, unit) py \<times> cron" where
  "append_action v act params c =
     (if fails v SvAppend then (Inl WriteFailed, c)
      else (Inr (), c\<lparr>c_actions := Some ((case c_actions c of None \<Rightarrow> [] | Some ls \<Rightarrow> ls)
             @ [Some (JDict [(''action'', JStr act), (''params'', params)])])\<rparr>))"

definition persist :: "cron_env \<Rightarrow> call_env \<Rightarrow> string \<Rightarrow> json \<Rightarrow> cron \<Rightarrow> (cron_error, unit) py \<times> cron" where
  "persist E v act params c =
     (if should_persist_store c then
        (case save_store v SvLast c of (Inl e, c1) \<Rightarrow> (Inl e, c1) | (Inr _, c1) \<Rightarrow> (Inr (), arm_timer E v c1))
      else append_action v act params c)"

text \<open>\<open>add_job\<close> from its arguments; \<open>fresh\<close> is the new identifier.\<close>

record add_request =
  ar_fresh :: string
  ar_name :: string
  ar_schedule :: cron_schedule
  ar_payload :: cron_payload
  ar_delete_after_run :: bool

definition new_job :: "cron_env \<Rightarrow> call_env \<Rightarrow> add_request \<Rightarrow> cron_job" where
  "new_job E v q =
     (let now = clk v (AtCall 0) in
      snd (enforce_agent_binding (clk v (AtCall 2)) (normalize_agent_turn_job E (clk v (AtCall 1))
        \<lparr>j_id = ar_fresh q, j_name = ar_name q, enabled = True, j_schedule = ar_schedule q,
         j_payload = (ar_payload q)\<lparr>p_kind := ''agent_turn''\<rparr>,
         j_state = default_state\<lparr>next_run_at_ms := compute_next_run E (ar_schedule q) now\<rparr>,
         created_at_ms = now, updated_at_ms = now, delete_after_run = ar_delete_after_run q\<rparr>)))"

definition add_job :: "cron_env \<Rightarrow> call_env \<Rightarrow> add_request \<Rightarrow> cron \<Rightarrow> (cron_error, cron_job) py \<times> cron" where
  "add_job E v q c =
     (case validate_schedule_for_add E (ar_schedule q) of
        Some e \<Rightarrow> (Inl (BadSchedule e), c)
      | None \<Rightarrow>
          let j = new_job E v q in
          if should_persist_store c then
            (case require_store E v False c of
               (Inl e, c1) \<Rightarrow> (Inl e, c1)
             | (Inr _, c1) \<Rightarrow>
                 (case save_store v SvLast (with_jobs (\<lambda>js. js @ [j]) c1) of
                    (Inl e, c2) \<Rightarrow> (Inl e, c2) | (Inr _, c2) \<Rightarrow> (Inr j, arm_timer E v c2)))
          else
            (case append_action v ''add'' (job_asdict j) c of
               (Inl e, c1) \<Rightarrow> (Inl e, c1) | (Inr _, c1) \<Rightarrow> (Inr j, c1)))"

definition registered :: "cron_env \<Rightarrow> int \<Rightarrow> cron_job \<Rightarrow> cron_job list \<Rightarrow> cron_job" where
  "registered E now j js =
     (let next = compute_next_run E (j_schedule j) now in
      (case find_job (j_id j) js of
         Some old \<Rightarrow> j\<lparr>j_state := (j_state old)\<lparr>next_run_at_ms := next\<rparr>, created_at_ms := created_at_ms old, updated_at_ms := now\<rparr>
       | None \<Rightarrow> j\<lparr>j_state := default_state\<lparr>next_run_at_ms := next\<rparr>, created_at_ms := now, updated_at_ms := now\<rparr>))"

definition register_system_job ::
  "cron_env \<Rightarrow> call_env \<Rightarrow> cron_job \<Rightarrow> cron \<Rightarrow> (cron_error, cron_job) py \<times> cron" where
  "register_system_job E v j c =
     (case require_store E v False c of
        (Inl e, c1) \<Rightarrow> (Inl e, c1)
      | (Inr _, c1) \<Rightarrow>
          let r = registered E (clk v (AtCall 0)) j (cron_jobs c1) in
          (case save_store v SvLast (with_jobs (\<lambda>js. without_job (j_id j) js @ [r]) c1) of
             (Inl e, c2) \<Rightarrow> (Inl e, c2) | (Inr _, c2) \<Rightarrow> (Inr r, arm_timer E v c2)))"

definition remove_system_job :: "cron_env \<Rightarrow> call_env \<Rightarrow> string \<Rightarrow> cron \<Rightarrow> (cron_error, bool) py \<times> cron" where
  "remove_system_job E v i c =
     (case require_store E v False c of
        (Inl e, c1) \<Rightarrow> (Inl e, c1)
      | (Inr _, c1) \<Rightarrow>
          if find_job i (cron_jobs c1) = None then (Inr False, c1)
          else (case save_store v SvLast (with_jobs (without_job i) c1) of
              (Inl e, c2) \<Rightarrow> (Inl e, c2) | (Inr _, c2) \<Rightarrow> (Inr True, arm_timer E v c2)))"

datatype removal = Removed | RemoveProtected | RemoveNotFound

definition is_system :: "cron_job \<Rightarrow> bool" where
  "is_system j \<longleftrightarrow> p_kind (j_payload j) = ''system_event''"

definition remove_job :: "cron_env \<Rightarrow> call_env \<Rightarrow> string \<Rightarrow> cron \<Rightarrow> (cron_error, removal) py \<times> cron" where
  "remove_job E v i c =
     (case require_store E v False c of
        (Inl e, c1) \<Rightarrow> (Inl e, c1)
      | (Inr _, c1) \<Rightarrow>
          (case find_job i (cron_jobs c1) of
             None \<Rightarrow> (Inr RemoveNotFound, c1)
           | Some j \<Rightarrow>
               if is_system j then (Inr RemoveProtected, c1)
               else (case persist E v ''del'' (JDict [(''job_id'', JStr i)]) (with_jobs (without_job i) c1) of
                   (Inl e, c2) \<Rightarrow> (Inl e, c2) | (Inr _, c2) \<Rightarrow> (Inr Removed, c2))))"

definition set_next :: "int option \<Rightarrow> cron_job \<Rightarrow> cron_job" where
  "set_next t j = j\<lparr>j_state := (j_state j)\<lparr>next_run_at_ms := t\<rparr>\<rparr>"

definition enabled_job :: "cron_env \<Rightarrow> call_env \<Rightarrow> bool \<Rightarrow> cron_job \<Rightarrow> cron_job" where
  "enabled_job E v b j =
     (let j1 = snd (enforce_agent_binding (clk v (AtCall 1)) (j\<lparr>enabled := b, updated_at_ms := clk v (AtCall 0)\<rparr>))
      in set_next (if enabled j1 then compute_next_run E (j_schedule j1) (clk v (AtCall 2)) else None) j1)"

definition enable_job :: "cron_env \<Rightarrow> call_env \<Rightarrow> string \<Rightarrow> bool \<Rightarrow> cron \<Rightarrow> (cron_error, cron_job option) py \<times> cron" where
  "enable_job E v i b c =
     (case require_store E v False c of
        (Inl e, c1) \<Rightarrow> (Inl e, c1)
      | (Inr _, c1) \<Rightarrow>
          (case find_job i (cron_jobs c1) of
             None \<Rightarrow> (Inr None, c1)
           | Some j \<Rightarrow>
               (case persist E v ''update'' (job_asdict (enabled_job E v b j))
                       (with_jobs (change_job i (enabled_job E v b)) c1) of
                  (Inl e, c2) \<Rightarrow> (Inl e, c2) | (Inr _, c2) \<Rightarrow> (Inr (Some (enabled_job E v b j)), c2))))"

text \<open>The keyword arguments of \<open>update_job\<close>; None is absent, for \<open>channel\<close> and \<open>to\<close> the ellipsis.\<close>

record update_request =
  ur_name :: "string option"
  ur_schedule :: "cron_schedule option"
  ur_message :: "string option"
  ur_deliver :: "bool option"
  ur_channel :: "string option option"
  ur_to :: "string option option"
  ur_delete_after_run :: "bool option"

definition or_old :: "'a option \<Rightarrow> 'a \<Rightarrow> 'a" where
  "or_old new old = (case new of None \<Rightarrow> old | Some x \<Rightarrow> x)"

definition edited_job :: "cron_env \<Rightarrow> call_env \<Rightarrow> update_request \<Rightarrow> cron_job \<Rightarrow> cron_job" where
  "edited_job E v u j =
     (let changed = ur_schedule u \<noteq> None \<and> ur_schedule u \<noteq> Some (j_schedule j);
          p = j_payload j;
          j1 = j\<lparr>j_schedule := or_old (ur_schedule u) (j_schedule j), j_name := or_old (ur_name u) (j_name j),
                 j_payload := p\<lparr>message := or_old (ur_message u) (message p), deliver := or_old (ur_deliver u) (deliver p),
                                p_channel := or_old (ur_channel u) (p_channel p), p_to := or_old (ur_to u) (p_to p)\<rparr>,
                 delete_after_run := or_old (ur_delete_after_run u) (delete_after_run j)\<rparr>;
          j2 = (snd (enforce_agent_binding (clk v (AtCall 1)) (normalize_agent_turn_job E (clk v (AtCall 0)) j1)))
                 \<lparr>updated_at_ms := clk v (AtCall 2)\<rparr>
      in if \<not> enabled j2 then set_next None j2
         else if changed then set_next (compute_next_run E (j_schedule j2) (clk v (AtCall 3))) j2
         else j2)"

datatype update_result = Updated cron_job | UpdateNotFound | UpdateProtected

definition update_job ::
  "cron_env \<Rightarrow> call_env \<Rightarrow> string \<Rightarrow> update_request \<Rightarrow> cron \<Rightarrow> (cron_error, update_result) py \<times> cron" where
  "update_job E v i u c =
     (case require_store E v False c of
        (Inl e, c1) \<Rightarrow> (Inl e, c1)
      | (Inr _, c1) \<Rightarrow>
          (case find_job i (cron_jobs c1) of
             None \<Rightarrow> (Inr UpdateNotFound, c1)
           | Some j \<Rightarrow>
               if is_system j then (Inr UpdateProtected, c1)
               else (case (case ur_schedule u of None \<Rightarrow> None | Some s \<Rightarrow> validate_schedule_for_add E s) of
                   Some e \<Rightarrow> (Inl (BadSchedule e), c1)
                 | None \<Rightarrow>
                     (case persist E v ''update'' (job_asdict (edited_job E v u j))
                             (with_jobs (change_job i (edited_job E v u)) c1) of
                        (Inl e, c2) \<Rightarrow> (Inl e, c2) | (Inr _, c2) \<Rightarrow> (Inr (Updated (edited_job E v u j)), c2)))))"

text \<open>\<open>sorted(..., key=next or infinity)\<close>, stable.\<close>

definition list_jobs :: "cron_env \<Rightarrow> call_env \<Rightarrow> bool \<Rightarrow> cron \<Rightarrow> (cron_error, cron_job list) py \<times> cron" where
  "list_jobs E v include_disabled c =
     (case require_store E v False c of
        (Inl e, c1) \<Rightarrow> (Inl e, c1)
      | (Inr _, c1) \<Rightarrow>
          let js = (if include_disabled then cron_jobs c1 else filter enabled (cron_jobs c1));
              timed = filter (\<lambda>j. next_run_at_ms (j_state j) \<notin> {None, Some 0}) js
          in (Inr (sort_key (\<lambda>j. the (next_run_at_ms (j_state j))) timed
                   @ filter (\<lambda>j. next_run_at_ms (j_state j) \<in> {None, Some 0}) js), c1))"

definition list_bound_cron_jobs_for_session ::
  "cron_env \<Rightarrow> call_env \<Rightarrow> string \<Rightarrow> bool \<Rightarrow> cron \<Rightarrow> (cron_error, cron_job list) py \<times> cron" where
  "list_bound_cron_jobs_for_session E v key include_disabled c =
     (case list_jobs E v include_disabled c of
        (Inl e, c1) \<Rightarrow> (Inl e, c1)
      | (Inr js, c1) \<Rightarrow> (Inr (filter (\<lambda>j. is_bound_cron_job j \<and> session_key (j_payload j) = Some key) js), c1))"

definition get_job :: "cron_env \<Rightarrow> call_env \<Rightarrow> string \<Rightarrow> cron \<Rightarrow> (cron_error, cron_job option) py \<times> cron" where
  "get_job E v i c =
     (case require_store E v False c of
        (Inl e, c1) \<Rightarrow> (Inl e, c1) | (Inr _, c1) \<Rightarrow> (Inr (find_job i (cron_jobs c1)), c1))"

definition cron_status :: "cron_env \<Rightarrow> call_env \<Rightarrow> cron \<Rightarrow> (cron_error, bool \<times> nat \<times> int option) py \<times> cron" where
  "cron_status E v c =
     (case require_store E v False c of
        (Inl e, c1) \<Rightarrow> (Inl e, c1)
      | (Inr _, c1) \<Rightarrow> (Inr (c_running c1, length (cron_jobs c1), get_next_wake_ms c1), c1))"

subsection \<open>Execution\<close>

text \<open>
  What the agent callback does with a job: calls of the service during its turn, then how it ends.
  \<open>TickCancelled\<close> is the cancellation of the task that executes; the other cancellations are recorded.
\<close>

datatype job_outcome =
    Returned "string option" | Skipped string | TimedOut string | CancelledInside string | JobRaised string | TickCancelled

datatype cron_call =
    CAdd add_request | CRemove string | CEnable string bool | CUpdate string update_request | CList bool

definition drop_result :: "('e, 'a) py \<times> cron \<Rightarrow> cron" where
  "drop_result r = snd r"

fun do_call :: "cron_env \<Rightarrow> call_env \<times> cron_call \<Rightarrow> cron \<Rightarrow> cron" where
  "do_call E (v, CAdd q) c = drop_result (add_job E v q c)"
| "do_call E (v, CRemove i) c = drop_result (remove_job E v i c)"
| "do_call E (v, CEnable i b) c = drop_result (enable_job E v i b c)"
| "do_call E (v, CUpdate i u) c = drop_result (update_job E v i u c)"
| "do_call E (v, CList b) c = drop_result (list_jobs E v b c)"

type_synonym on_job = "cron_job \<Rightarrow> (call_env \<times> cron_call) list \<times> job_outcome"

definition MAX_RUN_HISTORY :: nat where "MAX_RUN_HISTORY = 20"

fun outcome_status :: "job_outcome \<Rightarrow> string \<times> string option" where
  "outcome_status (Returned r) = (''ok'', None)"
| "outcome_status (Skipped m) = (''skipped'', if m = [] then None else Some m)"
| "outcome_status (TimedOut m) = (''error'', Some m)"
| "outcome_status (CancelledInside m) = (''error'', Some (if m = [] then ''CancelledError'' else m))"
| "outcome_status (JobRaised m) = (''error'', Some m)"
| "outcome_status TickCancelled = ([], None)"

definition last_n :: "nat \<Rightarrow> 'a list \<Rightarrow> 'a list" where
  "last_n n xs = drop (length xs - n) xs"

text \<open>The record of a run, and the next run or the end of a one-shot job.\<close>

definition ran_job :: "cron_env \<Rightarrow> call_env \<Rightarrow> nat \<Rightarrow> job_outcome \<Rightarrow> cron_job \<Rightarrow> cron_job" where
  "ran_job E v n out j =
     (let (st, err) = outcome_status out; t0 = clk v (AtStart n); t1 = clk v (AtEnd n);
          r = \<lparr>run_at_ms = t0, r_status = st, duration_ms = t1 - t0, r_error = err,
               r_run_id = (case out of Returned x \<Rightarrow> x | _ \<Rightarrow> None)\<rparr>
      in j\<lparr>j_state := (j_state j)\<lparr>last_status := Some st, last_error := err, last_run_at_ms := Some t0,
             run_history := last_n MAX_RUN_HISTORY (run_history (j_state j) @ [r])\<rparr>,
           updated_at_ms := t1\<rparr>)"

definition advanced_job :: "cron_env \<Rightarrow> call_env \<Rightarrow> nat \<Rightarrow> cron_job \<Rightarrow> cron_job" where
  "advanced_job E v n j =
     (if s_kind (j_schedule j) \<noteq> ''at'' then set_next (compute_next_run E (j_schedule j) (clk v (AtNext n))) j
      else if delete_after_run j then j
      else set_next None (j\<lparr>enabled := False\<rparr>))"

text \<open>
  \<open>_execute_job\<close>, the \<open>n\<close>-th of a tick: False when a cancellation of the task leaves it. The executed
  object is the first one of its identifier, wherever the calls of the turn left it; a job removed
  during its turn keeps no trace.
\<close>

definition execute_job ::
  "cron_env \<Rightarrow> call_env \<Rightarrow> on_job \<Rightarrow> nat \<Rightarrow> cron_job \<Rightarrow> cron \<Rightarrow> bool \<times> cron" where
  "execute_job E v cb n j c =
     (let (calls, out) = cb j;
          c1 = fold (do_call E) calls (c\<lparr>c_log := c_log c @ [j]\<rparr>)
      in if out = TickCancelled then (False, c1)
         else
           let c2 = with_jobs (change_job (j_id j) (advanced_job E v n \<circ> ran_job E v n out)) c1 in
           (True, case find_job (j_id j) (cron_jobs c2) of
                    None \<Rightarrow> c2
                  | Some j' \<Rightarrow>
                      if s_kind (j_schedule j') = ''at'' \<and> delete_after_run j'
                      then with_jobs (without_job (j_id j)) c2 else c2))"

definition due :: "int \<Rightarrow> cron_job \<Rightarrow> bool" where
  "due now j \<longleftrightarrow> enabled j \<and> (case next_run_at_ms (j_state j) of None \<Rightarrow> False | Some t \<Rightarrow> t \<noteq> 0 \<and> t \<le> now)"

text \<open>
  The loop over the jobs that were due: each is looked up again before it runs. The result says whether
  a job ran; an error (or the cancellation, \<open>None\<close>) leaves the loop.
\<close>

fun run_due ::
  "cron_env \<Rightarrow> call_env \<Rightarrow> on_job \<Rightarrow> nat \<Rightarrow> cron_job list \<Rightarrow> bool \<Rightarrow> cron \<Rightarrow> (cron_error option, bool) py \<times> cron" where
  "run_due E v cb n [] rn c = (Inr rn, c)"
| "run_due E v cb n (d # ds) rn c =
     (case get_job E v (j_id d) c of
        (Inl e, c1) \<Rightarrow> (Inl (Some e), c1)
      | (Inr None, c1) \<Rightarrow> run_due E v cb (Suc n) ds rn c1
      | (Inr (Some j), c1) \<Rightarrow>
          if \<not> due (clk v (AtCheck n)) j then run_due E v cb (Suc n) ds rn c1
          else (case execute_job E v cb n j c1 of
              (False, c2) \<Rightarrow> (Inl None, c2)
            | (True, c2) \<Rightarrow> run_due E v cb (Suc n) ds True c2))"

definition tick_body :: "cron_env \<Rightarrow> call_env \<Rightarrow> on_job \<Rightarrow> bool \<Rightarrow> cron \<Rightarrow> cron" where
  "tick_body E v cb reload c =
     (if c_dirty c then snd (save_store v SvFirst c)
      else (case load_store E v reload c of
          (Inl _, c1) \<Rightarrow> c1
        | (Inr ok, c1) \<Rightarrow>
            if \<not> ok then c1
            else (case run_due E v cb 0 (filter (due (clk v AtTick)) (cron_jobs c1)) False c1 of
                (Inl _, c2) \<Rightarrow> c2
              | (Inr rn, c2) \<Rightarrow> if rn then snd (save_store v SvLast c2) else c2)))"

definition on_timer :: "cron_env \<Rightarrow> call_env \<Rightarrow> on_job \<Rightarrow> cron \<Rightarrow> cron" where
  "on_timer E v cb c =
     (let c1 = tick_body E v cb (c_active c = 0) (c\<lparr>c_timer := None, c_active := c_active c + 1\<rparr>)
      in arm_timer E v (c1\<lparr>c_active := c_active c1 - 1\<rparr>))"

text \<open>\<open>run_job\<close>: an explicit run, which refuses unbound jobs. The result is None when it is cancelled.\<close>

definition run_body ::
  "cron_env \<Rightarrow> call_env \<Rightarrow> on_job \<Rightarrow> string \<Rightarrow> bool \<Rightarrow> bool \<Rightarrow> cron \<Rightarrow> (cron_error option, bool) py \<times> cron" where
  "run_body E v cb i force reload c =
     (case (if c_dirty c then save_store v SvFirst c else (Inr (), c)) of
        (Inl e, c1) \<Rightarrow> (Inl (Some e), c1)
      | (Inr _, c1) \<Rightarrow>
          (case require_store E v reload c1 of
             (Inl e, c2) \<Rightarrow> (Inl (Some e), c2)
           | (Inr _, c2) \<Rightarrow>
               (case find_job i (cron_jobs c2) of
                  None \<Rightarrow> (Inr False, c2)
                | Some j \<Rightarrow>
                    if is_unbound_agent_job j then
                      (case save_store v SvLast (with_jobs (change_job i (\<lambda>j. snd (enforce_agent_binding (clk v (AtCall 0)) j))) c2) of
                         (Inl e, c3) \<Rightarrow> (Inl (Some e), c3) | (Inr _, c3) \<Rightarrow> (Inr False, c3))
                    else if \<not> force \<and> \<not> enabled j then (Inr False, c2)
                    else (case execute_job E v cb 0 j c2 of
                        (False, c3) \<Rightarrow> (Inl None, c3)
                      | (True, c3) \<Rightarrow>
                          (case save_store v SvLast c3 of
                             (Inl e, c4) \<Rightarrow> (Inl (Some e), c4) | (Inr _, c4) \<Rightarrow> (Inr True, c4))))))"

definition run_job ::
  "cron_env \<Rightarrow> call_env \<Rightarrow> on_job \<Rightarrow> string \<Rightarrow> bool \<Rightarrow> cron \<Rightarrow> (cron_error option, bool) py \<times> cron" where
  "run_job E v cb i force c =
     (case run_body E v cb i force (c_active c = 0) (c\<lparr>c_active := c_active c + 1\<rparr>) of
        (r, c1) \<Rightarrow>
          let c2 = c1\<lparr>c_active := c_active c1 - 1\<rparr> in
          (r, if c_running c2 \<and> c_active c2 = 0 then arm_timer E v c2 else c2))"

end
