(* ===== verification/CronTick.thy ===== *)
theory CronTick
  imports Cron
begin

text \<open>
  What holds of the scheduler's ticks: the service's counters are left alone by every call, a tick always
  re-arms the timer, it hands only bound and due jobs to the callback, a one-shot job runs once whatever
  saves fail, and what a store file that cannot be read does to the jobs in memory.
\<close>

subsection \<open>A service to evaluate\<close>

definition demo_cron_env :: cron_env where
  "demo_cron_env = \<lparr>ce_next = \<lambda>_ _ _. None, ce_expr_error = \<lambda>_. None, ce_expr_valid = \<lambda>_. True, ce_tz_ok = \<lambda>_. True,
     ce_int = \<lambda>_. None, ce_copy = Some, ce_max_sleep = 300\<rparr>"

definition demo_call :: "int \<Rightarrow> bool \<Rightarrow> call_env" where
  "demo_call t bad = \<lparr>clk = \<lambda>_. t, fails = \<lambda>_. bad, replaced = \<lambda>_. False, renames = True\<rparr>"

definition demo_at :: "string \<Rightarrow> cron_job" where
  "demo_at i = \<lparr>j_id = i, j_name = ''n'', enabled = True, j_schedule = default_schedule\<lparr>s_kind := ''at'', at_ms := Some 5\<rparr>,
     j_payload = default_payload\<lparr>p_kind := ''system_event''\<rparr>, j_state = default_state\<lparr>next_run_at_ms := Some 5\<rparr>,
     created_at_ms = 0, updated_at_ms = 0, delete_after_run = False\<rparr>"

definition demo_cron :: cron where
  "demo_cron = \<lparr>c_store = None, c_running = True, c_active = 0, c_dirty = False, c_timer = None,
     c_disk = JobsDoc (store_doc (JInt 1, [demo_at ''a'', demo_at ''b''])), c_backups = [], c_actions = None, c_log = []\<rparr>"

definition demo_ok :: on_job where "demo_ok j = ([], Returned None)"
subsection \<open>What an operation leaves alone\<close>

definition same_frame :: "cron \<Rightarrow> cron \<Rightarrow> bool" where
  "same_frame c c' \<longleftrightarrow> c_active c' = c_active c \<and> c_running c' = c_running c \<and> c_log c' = c_log c"

lemma same_frame_refl [simp, intro]: "same_frame c c" by (simp add: same_frame_def)
lemma same_frame_trans [trans]: "same_frame a b \<Longrightarrow> same_frame b c \<Longrightarrow> same_frame a c"
  by (simp add: same_frame_def)

lemma frame_with_jobs [simp]: "same_frame c (with_jobs f c)"
  by (simp add: same_frame_def with_jobs_def)
lemma frame_save: "same_frame c (snd (save_store v site c))"
  by (simp add: same_frame_def save_store_def split: option.splits)
lemma frame_set_aside [simp]: "same_frame c (set_aside v c)"
  by (simp add: same_frame_def set_aside_def)
lemma frame_load_jobs: "same_frame c (snd (load_jobs E v c))"
  by (simp add: load_jobs_def split: jobs_file.splits option.splits)
lemma frame_store_upd: "same_frame c (c\<lparr>c_store := s\<rparr>)" "same_frame c (c\<lparr>c_actions := a\<rparr>)" "same_frame c (c\<lparr>c_timer := t\<rparr>)"
  by (simp_all add: same_frame_def)
lemma frame_arm [simp]: "same_frame c (arm_timer E v c)"
  by (simp add: same_frame_def arm_timer_def)
lemma frame_append: "same_frame c (snd (append_action v a p c))"
  by (simp add: same_frame_def append_action_def)

lemma frame_merge: "same_frame c (snd (merge_action E v c))"
proof -
  have "same_frame c (snd (save_store v SvMerge ((with_jobs f c)\<lparr>c_actions := a\<rparr>)))" for f a
    using frame_save[of "(with_jobs f c)\<lparr>c_actions := a\<rparr>" v SvMerge] by (simp add: same_frame_def with_jobs_def)
  then show ?thesis by (auto simp: merge_action_def Let_def split: option.splits prod.splits)
qed

lemma frame_enforce: "same_frame c (snd (enforce_store_agent_bindings v c))"
  by (simp add: enforce_store_agent_bindings_def Let_def)

lemma frame_load: "same_frame c (snd (load_store E v reload c))"
proof -
  obtain r c1 where l: "load_jobs E v c = (r, c1)" by fastforce
  have 1: "same_frame c c1" using frame_load_jobs[of c E v] l by simp
  show ?thesis
  proof (cases r)
    case None
    then show ?thesis using l 1 by (simp add: load_store_def)
  next
    case (Some s)
    obtain x c2 where m: "merge_action E v (c1\<lparr>c_store := Some s\<rparr>) = (x, c2)" by fastforce
    obtain ch c3 where e: "enforce_store_agent_bindings v c2 = (ch, c3)" by fastforce
    have 2: "same_frame c c2" using 1 frame_merge[of "c1\<lparr>c_store := Some s\<rparr>" E v] m by (simp add: same_frame_def)
    have 3: "same_frame c c3" using 2 frame_enforce[of c2 v] e by (simp add: same_frame_def)
    have "same_frame c (snd (save_store v SvBind c3))" using 3 frame_save same_frame_trans by blast
    then show ?thesis
      using l Some m e 2 3 by (auto simp: load_store_def split: sum.splits prod.splits)
  qed
qed

lemma frame_require: "same_frame c (snd (require_store E v reload c))"
  using frame_load[of c E v reload] by (auto simp: require_store_def split: prod.splits sum.splits)

subsection \<open>Inside an execution\<close>

text \<open>While a job runs, the store in memory is the store.\<close>

definition bound_jobs :: "cron_job list \<Rightarrow> bool" where
  "bound_jobs js \<longleftrightarrow> (\<forall>j \<in> set js. enabled j \<longrightarrow> \<not> is_unbound_agent_job j)"

definition executing :: "cron \<Rightarrow> bool" where
  "executing c \<longleftrightarrow> c_active c > 0 \<and> c_store c \<noteq> None \<and> bound_jobs (cron_jobs c)"

lemma load_executing: "executing c \<Longrightarrow> load_store E v False c = (Inr True, c)"
  by (simp add: load_store_def executing_def)
lemma require_executing: "executing c \<Longrightarrow> require_store E v False c = (Inr (), c)"
  by (simp add: require_store_def load_executing)

lemma cron_jobs_with [simp]: "c_store c \<noteq> None \<Longrightarrow> cron_jobs (with_jobs f c) = f (cron_jobs c)"
  by (auto simp: cron_jobs_def with_jobs_def)
lemma with_jobs_store [simp]: "c_store (with_jobs f c) = None \<longleftrightarrow> c_store c = None"
  by (simp add: with_jobs_def)
lemma with_jobs_frame [simp]:
  "c_active (with_jobs f c) = c_active c" "c_running (with_jobs f c) = c_running c" "c_log (with_jobs f c) = c_log c"
  "c_dirty (with_jobs f c) = c_dirty c" "c_disk (with_jobs f c) = c_disk c" "c_actions (with_jobs f c) = c_actions c"
  by (simp_all add: with_jobs_def)

lemma save_jobs [simp]: "cron_jobs (snd (save_store v site c)) = cron_jobs c"
    "c_store (snd (save_store v site c)) = c_store c" "c_actions (snd (save_store v site c)) = c_actions c"
  by (simp_all add: save_store_def cron_jobs_def split: option.splits)
lemma arm_jobs [simp]: "cron_jobs (arm_timer E v c) = cron_jobs c" "c_store (arm_timer E v c) = c_store c"
  "c_dirty (arm_timer E v c) = c_dirty c" "c_disk (arm_timer E v c) = c_disk c" "c_actions (arm_timer E v c) = c_actions c"
  by (simp_all add: arm_timer_def cron_jobs_def)

lemma enforce_bound: "enforce_agent_binding now j = (b, j') \<Longrightarrow> enabled j' \<Longrightarrow> \<not> is_unbound_agent_job j'"
  by (auto simp: enforce_agent_binding_def split: if_splits)

lemma unbound_upd [simp]:
  "is_unbound_agent_job (set_next t j) = is_unbound_agent_job j" "enabled (set_next t j) = enabled j" "j_id (set_next t j) = j_id j"
  "is_unbound_agent_job (j\<lparr>updated_at_ms := u\<rparr>) = is_unbound_agent_job j"
  "is_unbound_agent_job (j\<lparr>enabled := b\<rparr>) = is_unbound_agent_job j"
  "is_unbound_agent_job (j\<lparr>j_state := s\<rparr>) = is_unbound_agent_job j"
  by (simp_all add: is_unbound_agent_job_def is_bound_cron_job_def set_next_def)

lemma bound_enforced: "enabled (snd (enforce_agent_binding now j)) \<longrightarrow> \<not> is_unbound_agent_job (snd (enforce_agent_binding now j))"
  using enforce_bound by (metis prod.collapse)

lemma bound_enabled_job: "enabled (enabled_job E v b j) \<longrightarrow> \<not> is_unbound_agent_job (enabled_job E v b j)"
  using bound_enforced by (simp add: enabled_job_def Let_def)
lemma bound_edited_job: "enabled (edited_job E v u j) \<longrightarrow> \<not> is_unbound_agent_job (edited_job E v u j)"
  using bound_enforced by (simp add: edited_job_def Let_def)
lemma bound_new_job: "enabled (new_job E v q) \<longrightarrow> \<not> is_unbound_agent_job (new_job E v q)"
  using bound_enforced by (simp add: new_job_def Let_def)

lemma bound_change: "bound_jobs js \<Longrightarrow> (\<And>j. j \<in> set js \<Longrightarrow> enabled (f j) \<longrightarrow> \<not> is_unbound_agent_job (f j)) \<Longrightarrow> bound_jobs (change_job i f js)"
  by (induction js) (auto simp: bound_jobs_def)
lemma bound_without: "bound_jobs js \<Longrightarrow> bound_jobs (without_job i js)"
  by (auto simp: bound_jobs_def without_job_def)

lemma executing_with_jobs: "executing c \<Longrightarrow> bound_jobs (f (cron_jobs c)) \<Longrightarrow> executing (with_jobs f c)"
  by (simp add: executing_def)
lemma executing_save: "executing c \<Longrightarrow> executing (snd (save_store v site c))"
  using frame_save[of c v site] by (simp add: executing_def same_frame_def)
lemma executing_arm: "executing c \<Longrightarrow> arm_timer E v c = c"
  by (simp add: executing_def arm_timer_def)

lemma persist_executing: "executing c \<Longrightarrow> snd (persist E v a p c) = snd (save_store v SvLast c)"
  using executing_arm[OF executing_save, of c E v v SvLast]
  by (auto simp: persist_def executing_def should_persist_store_def split: prod.splits sum.splits)

lemma save_frame_executing: "executing c \<Longrightarrow> executing (snd (save_store v site c)) \<and> same_frame c (snd (save_store v site c))"
  by (simp add: executing_save frame_save)

lemma edit_executing:
  assumes "executing c" "bound_jobs (f (cron_jobs c))"
  shows "executing (snd (save_store v site (with_jobs f c))) \<and> same_frame c (snd (save_store v site (with_jobs f c)))"
  using save_frame_executing[OF executing_with_jobs[of c f], of v site] assms frame_with_jobs same_frame_trans by blast


definition stays :: "cron \<Rightarrow> cron \<Rightarrow> bool" where
  "stays c c' \<longleftrightarrow> executing c' \<and> same_frame c c'"

lemma stays_refl: "executing c \<Longrightarrow> stays c c" by (simp add: stays_def)
lemma stays_trans: "stays a b \<Longrightarrow> stays b c \<Longrightarrow> stays a c"
  using same_frame_trans by (auto simp: stays_def)

lemma stays_edit:
  "executing c \<Longrightarrow> bound_jobs (f (cron_jobs c)) \<Longrightarrow> stays c (snd (save_store v site (with_jobs f c)))"
  using edit_executing by (simp add: stays_def)

lemma add_stays:
  assumes "executing c"
  shows "stays c (snd (add_job E v q c))"
proof -
  obtain x c2 where s: "save_store v SvLast (with_jobs (\<lambda>js. js @ [new_job E v q]) c) = (x, c2)" by fastforce
  have "stays c c2"
    using stays_edit[OF assms, of "\<lambda>js. js @ [new_job E v q]" v SvLast] s assms bound_new_job[of E v q]
    by (auto simp: executing_def bound_jobs_def)
  then show ?thesis
    using assms s require_executing[OF assms] executing_arm[of c2 E v]
    by (cases x; cases "validate_schedule_for_add E (ar_schedule q)")
       (simp_all add: add_job_def Let_def should_persist_store_def executing_def[of c] stays_refl stays_def)
qed

lemma change_stays:
  assumes "executing c" "\<And>j. enabled (f j) \<longrightarrow> \<not> is_unbound_agent_job (f j)"
  shows "stays c (snd (persist E v a p (with_jobs (change_job i f) c)))"
proof -
  have "bound_jobs (change_job i f (cron_jobs c))"
    using assms by (intro bound_change) (simp_all add: executing_def)
  then show ?thesis
    using assms(1) stays_edit[of c "change_job i f" v SvLast] persist_executing executing_with_jobs by metis
qed

lemma remove_stays:
  assumes "executing c"
  shows "stays c (snd (remove_job E v i c))"
proof -
  obtain x c2 where p: "persist E v ''del'' (JDict [(''job_id'', JStr i)]) (with_jobs (without_job i) c) = (x, c2)" by fastforce
  have "bound_jobs (without_job i (cron_jobs c))" using assms bound_without by (simp add: executing_def)
  then have "stays c c2"
    using stays_edit[OF assms, of "without_job i" v SvLast] persist_executing[OF executing_with_jobs[OF assms, of "without_job i"], of E v] p
    by (metis snd_conv)
  then show ?thesis
    using require_executing[OF assms] p stays_refl[OF assms]
    by (cases x) (simp_all add: remove_job_def split: option.splits)
qed

lemma enable_stays:
  assumes "executing c"
  shows "stays c (snd (enable_job E v i b c))"
proof (cases "find_job i (cron_jobs c)")
  case (Some j)
  obtain x c2 where p: "persist E v ''update'' (job_asdict (enabled_job E v b j)) (with_jobs (change_job i (enabled_job E v b)) c) = (x, c2)"
    by fastforce
  then have "stays c c2" using change_stays[OF assms, where f="enabled_job E v b", OF bound_enabled_job,
      where v=v and E=E and a="''update''" and i=i and p="job_asdict (enabled_job E v b j)"] by simp
  then show ?thesis using require_executing[OF assms] p Some by (cases x) (simp_all add: enable_job_def)
qed (simp add: enable_job_def require_executing[OF assms] stays_refl[OF assms])

lemma update_stays:
  assumes "executing c"
  shows "stays c (snd (update_job E v i u c))"
proof (cases "find_job i (cron_jobs c)")
  case (Some j)
  obtain x c2 where p: "persist E v ''update'' (job_asdict (edited_job E v u j)) (with_jobs (change_job i (edited_job E v u)) c) = (x, c2)"
    by fastforce
  then have "stays c c2" using change_stays[OF assms, where f="edited_job E v u", OF bound_edited_job,
      where v=v and E=E and a="''update''" and i=i and p="job_asdict (edited_job E v u j)"] by simp
  then show ?thesis
    using require_executing[OF assms] p Some stays_refl[OF assms]
    by (cases x) (auto simp: update_job_def split: option.splits)
qed (simp add: update_job_def require_executing[OF assms] stays_refl[OF assms])

lemma list_stays: "executing c \<Longrightarrow> stays c (snd (list_jobs E v b c))"
  by (simp add: list_jobs_def require_executing stays_refl Let_def)

lemma call_stays: "executing c \<Longrightarrow> stays c (do_call E x c)"
  by (cases x; cases "snd x")
     (auto simp: drop_result_def add_stays remove_stays enable_stays update_stays list_stays)

lemma calls_stay: "executing c \<Longrightarrow> stays c (fold (do_call E) xs c)"
proof (induction xs arbitrary: c)
  case (Cons x xs)
  have "stays c (do_call E x c)" using call_stays Cons.prems by blast
  then show ?case using Cons.IH[of "do_call E x c"] stays_trans by (auto simp: stays_def)
qed (simp add: stays_refl)

lemma ran_simps [simp]:
  "is_unbound_agent_job (ran_job E v n out j) = is_unbound_agent_job j" "enabled (ran_job E v n out j) = enabled j"
  "j_id (ran_job E v n out j) = j_id j" "j_schedule (ran_job E v n out j) = j_schedule j"
  "delete_after_run (ran_job E v n out j) = delete_after_run j"
  by (simp_all add: ran_job_def Let_def split: prod.splits)

lemma advanced_simps [simp]:
  "is_unbound_agent_job (advanced_job E v n j) = is_unbound_agent_job j" "j_id (advanced_job E v n j) = j_id j"
  "j_schedule (advanced_job E v n j) = j_schedule j"
  "delete_after_run (advanced_job E v n j) = delete_after_run j"
  by (auto simp: advanced_job_def set_next_def split: if_splits)

lemma advanced_enabled: "enabled (advanced_job E v n j) \<Longrightarrow> enabled j"
  by (simp add: advanced_job_def split: if_splits)

lemma execute_stays:
  assumes "executing c"
  shows "stays (c\<lparr>c_log := c_log c @ [j]\<rparr>) (snd (execute_job E v cb n j c))"
proof -
  define c0 where "c0 = c\<lparr>c_log := c_log c @ [j]\<rparr>"
  obtain xs out where cb: "cb j = (xs, out)" by fastforce
  have e0: "executing c0" using assms by (simp add: c0_def executing_def cron_jobs_def)
  define c1 where "c1 = fold (do_call E) xs c0"
  have s1: "stays c0 c1" using calls_stay[OF e0] by (simp add: c1_def)
  define c2 where "c2 = with_jobs (change_job (j_id j) (advanced_job E v n \<circ> ran_job E v n out)) c1"
  have "bound_jobs (change_job (j_id j) (advanced_job E v n \<circ> ran_job E v n out) (cron_jobs c1))"
  proof (rule bound_change)
    show "bound_jobs (cron_jobs c1)" using s1 by (simp add: stays_def executing_def)
    then show "enabled ((advanced_job E v n \<circ> ran_job E v n out) j) \<longrightarrow>
        \<not> is_unbound_agent_job ((advanced_job E v n \<circ> ran_job E v n out) j)" if "j \<in> set (cron_jobs c1)" for j
      using that advanced_enabled[of E v n "ran_job E v n out j"] by (auto simp: bound_jobs_def)
  qed
  then have s2: "stays c0 c2"
    using s1 executing_with_jobs[of c1] same_frame_trans[OF _ frame_with_jobs] unfolding stays_def c2_def by blast
  then have s3: "stays c0 (with_jobs (without_job (j_id j)) c2)"
    using executing_with_jobs[of c2 "without_job (j_id j)"] same_frame_trans[OF _ frame_with_jobs] bound_without
    unfolding stays_def by (metis executing_def)
  have "snd (execute_job E v cb n j c) \<in> {c1, c2, with_jobs (without_job (j_id j)) c2}"
    by (simp add: execute_job_def cb c0_def[symmetric] c1_def[symmetric] c2_def[symmetric] Let_def split: option.splits)
  then show ?thesis using s1 s2 s3 by (auto simp: c0_def)
qed

lemma run_due_stays:
  assumes "executing c"
  shows "\<exists>new. executing (snd (run_due E v cb n ds rn c)) \<and> c_active (snd (run_due E v cb n ds rn c)) = c_active c
    \<and> c_running (snd (run_due E v cb n ds rn c)) = c_running c \<and> c_log (snd (run_due E v cb n ds rn c)) = c_log c @ new
    \<and> (\<forall>j \<in> set new. \<not> is_unbound_agent_job j \<and> (\<exists>m. due (clk v (AtCheck m)) j))"
  using assms
proof (induction ds arbitrary: n rn c)
  case (Cons d ds)
  have g: "get_job E v (j_id d) c = (Inr (find_job (j_id d) (cron_jobs c)), c)"
    by (simp add: get_job_def require_executing[OF Cons.prems])
  show ?case
  proof (cases "find_job (j_id d) (cron_jobs c)")
    case None
    then show ?thesis using g Cons.IH[OF Cons.prems] by simp
  next
    case (Some j)
    show ?thesis
    proof (cases "due (clk v (AtCheck n)) j")
      case False
      then show ?thesis using g Some Cons.IH[OF Cons.prems] by simp
    next
      case True
      have "j \<in> set (cron_jobs c)" using Some by (auto simp: find_job_def find_Some_iff)
      then have b: "\<not> is_unbound_agent_job j" using Cons.prems True by (auto simp: executing_def bound_jobs_def due_def)
      obtain r c2 where x: "execute_job E v cb n j c = (r, c2)" by fastforce
      have s: "executing c2" "c_active c2 = c_active c" "c_running c2 = c_running c" "c_log c2 = c_log c @ [j]"
        using execute_stays[OF Cons.prems, of j E v cb n] x by (auto simp: stays_def same_frame_def)
      show ?thesis
      proof (cases r)
        case False
        then show ?thesis using g Some True x s b by auto
      next
        case r: True
        obtain new where "executing (snd (run_due E v cb (Suc n) ds True c2))"
          "c_active (snd (run_due E v cb (Suc n) ds True c2)) = c_active c2"
          "c_running (snd (run_due E v cb (Suc n) ds True c2)) = c_running c2"
          "c_log (snd (run_due E v cb (Suc n) ds True c2)) = c_log c2 @ new"
          "\<forall>j \<in> set new. \<not> is_unbound_agent_job j \<and> (\<exists>m. due (clk v (AtCheck m)) j)"
          using Cons.IH[OF s(1), of "Suc n" True] by blast
        then show ?thesis using g Some True x r s b by (intro exI[of _ "j # new"]) auto
      qed
    qed
  qed
qed simp

subsection \<open>A tick\<close>

lemma load_tick:
  assumes "load_store E v True c = (Inr True, c')" "\<not> c_dirty c" "c_active c > 0" "bound_jobs (cron_jobs c)"
  shows "executing c'"
proof -
  obtain r c1 where l: "load_jobs E v c = (r, c1)" by fastforce
  have act: "c_active c' > 0" using frame_load[of c E v True] assms(1,3) by (simp add: same_frame_def)
  show ?thesis
  proof (cases r)
    case None
    then have "c_store c1 = c_store c" using l
      by (auto simp: load_jobs_def set_aside_def split: jobs_file.splits option.splits if_splits)
    then show ?thesis using l None assms act by (auto simp: load_store_def executing_def cron_jobs_def)
  next
    case (Some s)
    obtain x c2 where m: "merge_action E v (c1\<lparr>c_store := Some s\<rparr>) = (x, c2)" by fastforce
    obtain ch c3 where e: "enforce_store_agent_bindings v c2 = (ch, c3)" by fastforce
    have x: "x = Inr ()" using l Some m assms(1,2) by (cases x) (auto simp: load_store_def)
    have "c_store c2 \<noteq> None"
      using m by (auto simp: merge_action_def Let_def with_jobs_def save_store_def split: option.splits prod.splits if_splits)
    moreover have "c3 = with_jobs (\<lambda>_. map snd (map (\<lambda>(i, j). enforce_agent_binding (clk v (AtBind i)) j) (enumerate 0 (cron_jobs c2)))) c2"
      using e by (simp add: enforce_store_agent_bindings_def Let_def)
    ultimately have 3: "c_store c3 \<noteq> None" "bound_jobs (cron_jobs c3)"
      using bound_enforced by (auto simp: bound_jobs_def simp del: not_None_eq)
    have "c' = c3 \<or> c' = snd (save_store v SvBind c3)"
      using l Some m x e assms(1,2) by (auto simp: load_store_def split: if_splits prod.splits sum.splits)
    then have "c_store c' = c_store c3 \<and> cron_jobs c' = cron_jobs c3" using save_jobs by auto
    then show ?thesis using 3 act by (simp add: executing_def)
  qed
qed

lemma tick_body_does:
  assumes "c_active c > 0" "bound_jobs (cron_jobs c)"
  shows "\<exists>new. c_active (tick_body E v cb True c) = c_active c \<and> c_running (tick_body E v cb True c) = c_running c
    \<and> c_log (tick_body E v cb True c) = c_log c @ new
    \<and> (\<forall>j \<in> set new. \<not> is_unbound_agent_job j \<and> (\<exists>m. due (clk v (AtCheck m)) j))"
proof (cases "c_dirty c")
  case True
  then show ?thesis using frame_save[of c v SvFirst] by (simp add: tick_body_def same_frame_def)
next
  case False
  obtain r c1 where l: "load_store E v True c = (r, c1)" by fastforce
  have f: "same_frame c c1" using frame_load[of c E v True] l by simp
  show ?thesis
  proof (cases "r = Inr True")
    case True
    obtain y c2 where d: "run_due E v cb 0 (filter (due (clk v AtTick)) (cron_jobs c1)) False c1 = (y, c2)" by fastforce
    obtain new where n: "c_active c2 = c_active c1" "c_running c2 = c_running c1" "c_log c2 = c_log c1 @ new"
      "\<forall>j \<in> set new. \<not> is_unbound_agent_job j \<and> (\<exists>m. due (clk v (AtCheck m)) j)"
      using run_due_stays[OF load_tick[OF l[unfolded True] False assms], of E v cb 0 "filter (due (clk v AtTick)) (cron_jobs c1)" False] d
      by auto
    have "tick_body E v cb True c \<in> {c2, snd (save_store v SvLast c2)}"
      using False l True d by (auto simp: tick_body_def split: sum.splits)
    then show ?thesis using n f frame_save[of c2 v SvLast] by (auto simp: same_frame_def)
  next
    case r: False
    then have "tick_body E v cb True c = c1" using False l by (auto simp: tick_body_def split: sum.splits)
    then show ?thesis using f by (simp add: same_frame_def)
  qed
qed

lemma tick_does:
  assumes "c_active c = 0" "bound_jobs (cron_jobs c)"
  shows "\<exists>c1 new. on_timer E v cb c = arm_timer E v c1 \<and> c_active c1 = 0 \<and> c_running c1 = c_running c
    \<and> c_log c1 = c_log c @ new \<and> (\<forall>j \<in> set new. \<not> is_unbound_agent_job j \<and> (\<exists>m. due (clk v (AtCheck m)) j))"
  using tick_body_does[of "c\<lparr>c_timer := None, c_active := c_active c + 1\<rparr>" E v cb] assms
  by (auto simp: on_timer_def Let_def cron_jobs_def
      intro!: exI[of _ "(tick_body E v cb True (c\<lparr>c_timer := None, c_active := Suc 0\<rparr>))\<lparr>c_active := 0\<rparr>"])

lemma fold_min_le: "fold min xs (a :: int) \<le> a \<and> (\<forall>x \<in> set xs. fold min xs a \<le> x)"
proof (induction xs arbitrary: a)
  case (Cons x xs)
  from Cons.IH[of "min x a"] show ?case by auto
qed simp

lemma next_wake_le: "t \<in> set (wake_times (cron_jobs c)) \<Longrightarrow> \<exists>w. get_next_wake_ms c = Some w \<and> w \<le> t"
  using fold_min_le by (auto simp: get_next_wake_ms_def split: list.splits)

text \<open>The counters of the service, without any assumption on what is in the store.\<close>

lemma arm_frame [simp]: "c_active (arm_timer E v c) = c_active c" "c_running (arm_timer E v c) = c_running c"
    "c_log (arm_timer E v c) = c_log c"
  by (simp_all add: arm_timer_def)
lemma save_D: "save_store v site c = (x, c') \<Longrightarrow> same_frame c c'" using frame_save by (metis snd_conv)
lemma require_D: "require_store E v b c = (x, c') \<Longrightarrow> same_frame c c'" using frame_require by (metis snd_conv)
lemma append_D: "append_action v a p c = (x, c') \<Longrightarrow> same_frame c c'" using frame_append by (metis snd_conv)
lemma persist_D: "persist E v a p c = (x, c') \<Longrightarrow> same_frame c c'"
  by (auto simp: persist_def same_frame_def dest!: save_D append_D split: prod.splits sum.splits if_splits)

lemmas frame_dests = save_D require_D append_D persist_D

lemma call_frame: "same_frame c (do_call E x c)"
proof (cases x)
  case (Pair v k)
  show ?thesis
  proof (cases k)
    case (CAdd q)
    then show ?thesis unfolding Pair
      by (auto simp: drop_result_def add_job_def Let_def same_frame_def dest!: frame_dests
          split: option.splits prod.splits sum.splits if_splits)
  next
    case (CRemove i)
    then show ?thesis unfolding Pair
      by (auto simp: drop_result_def remove_job_def same_frame_def dest!: frame_dests
          split: option.splits prod.splits sum.splits if_splits)
  next
    case (CEnable i b)
    then show ?thesis unfolding Pair
      by (auto simp: drop_result_def enable_job_def same_frame_def dest!: frame_dests
          split: option.splits prod.splits sum.splits if_splits)
  next
    case (CUpdate i u)
    then show ?thesis unfolding Pair
      by (auto simp: drop_result_def update_job_def same_frame_def dest!: frame_dests
          split: option.splits prod.splits sum.splits if_splits)
  next
    case (CList b)
    then show ?thesis unfolding Pair
      by (auto simp: drop_result_def list_jobs_def Let_def same_frame_def dest!: frame_dests
          split: prod.splits sum.splits if_splits)
  qed
qed

lemma calls_frame: "same_frame c (fold (do_call E) xs c)"
  by (induction xs arbitrary: c) (auto intro: same_frame_trans[OF call_frame])

lemma execute_frame:
  "c_active (snd (execute_job E v cb n j c)) = c_active c \<and> c_running (snd (execute_job E v cb n j c)) = c_running c"
  using calls_frame[of "c\<lparr>c_log := c_log c @ [j]\<rparr>" E "fst (cb j)"]
  by (auto simp: execute_job_def Let_def same_frame_def split: prod.splits option.splits)

lemma run_due_frame:
  "c_active (snd (run_due E v cb n ds rn c)) = c_active c \<and> c_running (snd (run_due E v cb n ds rn c)) = c_running c"
proof (induction ds arbitrary: n rn c)
  case (Cons d ds)
  obtain r c1 where g: "get_job E v (j_id d) c = (r, c1)" by fastforce
  have f: "same_frame c c1" using g by (auto simp: get_job_def dest!: require_D split: prod.splits sum.splits)
  have "c_active (snd (execute_job E v cb n j c1)) = c_active c1 \<and> c_running (snd (execute_job E v cb n j c1)) = c_running c1" for j
    by (rule execute_frame)
  then show ?case
    using Cons.IH f g by (auto simp: same_frame_def split: sum.splits option.splits prod.splits bool.splits) (metis snd_conv)+
qed simp

lemma tick_body_frame:
  "c_active (tick_body E v cb r c) = c_active c \<and> c_running (tick_body E v cb r c) = c_running c"
proof -
  obtain x c1 where l: "load_store E v r c = (x, c1)" by fastforce
  have f: "same_frame c c1" using frame_load[of c E v r] l by simp
  obtain y c2 where d: "run_due E v cb 0 (filter (due (clk v AtTick)) (cron_jobs c1)) False c1 = (y, c2)" by fastforce
  have "c_active c2 = c_active c1 \<and> c_running c2 = c_running c1" using run_due_frame d by (metis snd_conv)
  moreover have "tick_body E v cb r c \<in> {snd (save_store v SvFirst c), c1, c2, snd (save_store v SvLast c2)}"
    using l d by (auto simp: tick_body_def split: sum.splits)
  ultimately show ?thesis
    using f frame_save[of c v SvFirst] frame_save[of c2 v SvLast] by (auto simp: same_frame_def)
qed

text \<open>
  Claim C8: a tick never stops the scheduler: whatever the store file, the saves, the callback and its calls do,
  a running service with no other execution comes out of a tick with the timer armed, after at most the
  maximal sleep and no later than the next run of any enabled job (or at once, when that is past).\<close>

theorem tick_rearms:
  assumes "c_active c = 0" "c_running c" "on_timer E v cb c = c'"
  shows "c_running c' \<and> c_active c' = 0 \<and> (\<exists>d. c_timer c' = Some d \<and> d \<le> ce_max_sleep E
     \<and> (\<forall>t \<in> set (wake_times (cron_jobs c')). d \<le> max 0 (t - clk v AtWake)))"
proof -
  obtain c1 where c1: "c' = arm_timer E v c1" "c_active c1 = 0" "c_running c1"
    using tick_body_frame[of E v cb True "c\<lparr>c_timer := None, c_active := Suc 0\<rparr>"] assms
    by (auto simp: on_timer_def Let_def)
  have m: "min (ce_max_sleep E) (max 0 (w - clk v AtWake)) \<le> max 0 (t - clk v AtWake)" if "w \<le> t" for w t
    using that by auto
  have j: "cron_jobs c' = cron_jobs c1" using c1(1) by simp
  show ?thesis
  proof (cases "get_next_wake_ms c1")
    case None
    then have "wake_times (cron_jobs c1) = []" by (auto simp: get_next_wake_ms_def split: list.splits)
    then show ?thesis using c1 None j by (simp add: arm_timer_def)
  next
    case (Some w)
    then have "w \<le> t" if "t \<in> set (wake_times (cron_jobs c1))" for t using next_wake_le[OF that] by simp
    then show ?thesis using c1 Some j m by (simp add: arm_timer_def)
  qed
qed

theorem tick_rearms_witness:
  "\<exists>d. c_timer (on_timer demo_cron_env (demo_call 9 True) demo_ok demo_cron) = Some d \<and> d \<le> 300"
  using tick_rearms[of demo_cron demo_cron_env "demo_call 9 True" demo_ok]
  by (auto simp: demo_cron_def demo_cron_env_def)

text \<open>
  The timer hands a job to the callback only when it is enabled and due at that moment, and never an agent
  job without its session binding, whatever the file and the action log of other instances hold.\<close>

lemma timer_runs_bound_jobs:
  assumes "c_active c = 0" "bound_jobs (cron_jobs c)"
  shows "\<exists>new. c_log (on_timer E v cb c) = c_log c @ new
    \<and> (\<forall>j \<in> set new. \<not> is_unbound_agent_job j \<and> (\<exists>m. due (clk v (AtCheck m)) j))"
  using tick_does[OF assms, of E v cb] frame_arm by (metis same_frame_def)

lemma timer_runs_bound_jobs_witness:
  "filter is_unbound_agent_job (c_log (on_timer demo_cron_env (demo_call 9 True) demo_ok demo_cron)) = []"
  using timer_runs_bound_jobs[of demo_cron demo_cron_env "demo_call 9 True" demo_ok]
  by (auto simp: demo_cron_def cron_jobs_def bound_jobs_def filter_empty_conv)

subsection \<open>One-shot jobs\<close>

definition done_in :: "string \<Rightarrow> cron_job list \<Rightarrow> bool" where
  "done_in i js \<longleftrightarrow> (case find_job i js of None \<Rightarrow> True | Some j \<Rightarrow> \<not> enabled j)"

definition disk_done :: "cron_env \<Rightarrow> string \<Rightarrow> cron \<Rightarrow> bool" where
  "disk_done E i c \<longleftrightarrow> (\<forall>v doc s. c_disk c = JobsDoc doc \<longrightarrow> parse_jobs E v doc = Some s \<longrightarrow> done_in i (snd s))"

definition one_shot_runs :: "string \<Rightarrow> cron \<Rightarrow> nat" where
  "one_shot_runs i c = length (filter (\<lambda>j. j_id j = i \<and> s_kind (j_schedule j) = ''at'') (c_log c))"

definition settled :: "cron_env \<Rightarrow> string \<Rightarrow> cron \<Rightarrow> bool" where
  "settled E i c \<longleftrightarrow> done_in i (cron_jobs c) \<and> (c_dirty c \<or> disk_done E i c)"

text \<open>A callback that makes no calls of the service and is not cancelled with its tick.\<close>

definition quiet :: "on_job \<Rightarrow> bool" where
  "quiet cb \<longleftrightarrow> (\<forall>j. fst (cb j) = [] \<and> snd (cb j) \<noteq> TickCancelled)"

lemma done_in_Nil [simp]: "done_in i []" by (simp add: done_in_def find_job_def)

lemma find_job_Cons: "find_job i (j # js) = (if j_id j = i then Some j else find_job i js)"
  by (simp add: find_job_def)

lemma done_in_Cons: "done_in i (j # js) \<longleftrightarrow> (if j_id j = i then \<not> enabled j else done_in i js)"
  by (simp add: done_in_def find_job_Cons)

lemma done_in_map:
  assumes "\<And>k j. j_id (g k j) = j_id j \<and> (enabled (g k j) \<longrightarrow> enabled j)"
  shows "done_in i js \<Longrightarrow> done_in i (map (\<lambda>(k, j). g k j) (enumerate n js))"
proof (induction js arbitrary: n)
  case (Cons j js)
  then show ?case using assms[of n j] by (auto simp: done_in_Cons split: if_splits)
qed simp

lemma normalize_weakens: "j_id (normalize_agent_turn_job E now j) = j_id j \<and> (enabled (normalize_agent_turn_job E now j) \<longrightarrow> enabled j)"
  by (simp add: normalize_agent_turn_job_def Let_def disable_malformed_legacy_job_def migrate_legacy_job_def detach_metadata_def)

lemma enforce_weakens: "j_id (snd (enforce_agent_binding now j)) = j_id j \<and> (enabled (snd (enforce_agent_binding now j)) \<longrightarrow> enabled j)"
  by (simp add: enforce_agent_binding_def)

lemma parse_store_doc:
  "parse_jobs E v (store_doc s) = Some (fst s, normalize_all E (\<lambda>i. clk v (AtLoad i)) (snd s))"
  by (simp add: parse_jobs_def store_doc_def get_key_def
      map_all_map[where f="job_from_store (ce_int E)" and g=job_to_store] job_store_roundtrip)

lemma disk_done_saved: "done_in i (snd s) \<Longrightarrow> disk_done E i (c\<lparr>c_disk := JobsDoc (store_doc s), c_dirty := b\<rparr>)"
  using done_in_map[of "\<lambda>k j. normalize_agent_turn_job E (f k) j" for f, OF normalize_weakens]
  by (auto simp: disk_done_def parse_store_doc normalize_all_def)

lemma settled_save: "settled E i c \<Longrightarrow> settled E i (snd (save_store v site c))"
  using disk_done_saved[where c=c and b=False and i=i and E=E] disk_done_saved[where c=c and b=True and i=i and E=E]
  by (auto simp: settled_def save_store_def cron_jobs_def split: option.splits)

lemma done_save: "done_in i (cron_jobs c) \<Longrightarrow> c_store c \<noteq> None \<Longrightarrow> settled E i (snd (save_store v site c))"
  using disk_done_saved[where c=c and b=False and i=i and E=E] disk_done_saved[where c=c and b=True and i=i and E=E]
  by (auto simp: settled_def save_store_def cron_jobs_def split: option.splits)

lemma settled_enforce:
  assumes "settled E i c"
  shows "settled E i (snd (enforce_store_agent_bindings v c))"
proof -
  have "done_in i (map (\<lambda>(k, j). snd (enforce_agent_binding (clk v (AtBind k)) j)) (enumerate 0 (cron_jobs c)))"
    using assms done_in_map[of "\<lambda>k j. snd (enforce_agent_binding (clk v (AtBind k)) j)", OF enforce_weakens]
    by (simp add: settled_def)
  then show ?thesis
    using assms
    by (cases "c_store c") (auto simp: settled_def enforce_store_agent_bindings_def Let_def disk_done_def
        cron_jobs_def with_jobs_def case_prod_unfold comp_def)
qed

lemma load_settled:
  assumes "settled E i c" "\<not> c_dirty c" "c_actions c = None"
  shows "settled E i (snd (load_store E v r c))"
proof -
  obtain x c1 where l: "load_jobs E v c = (x, c1)" by fastforce
  show ?thesis
  proof (cases x)
    case None
    then have "settled E i c1"
      using l assms(1) by (auto simp: load_jobs_def set_aside_def settled_def disk_done_def cron_jobs_def
          split: jobs_file.splits option.splits if_splits)
    then show ?thesis using l None assms(1,2) by (simp add: load_store_def)
  next
    case (Some s)
    have c1: "c1 = c" "done_in i (snd s)"
      using l Some assms(1,2)
      by (auto simp: load_jobs_def settled_def disk_done_def split: jobs_file.splits option.splits)
        (metis prod.collapse)+
    define c2 where "c2 = c\<lparr>c_store := Some s\<rparr>"
    have 2: "settled E i c2" "merge_action E v c2 = (Inr (), c2)"
      using c1(2) assms by (auto simp: settled_def c2_def disk_done_def cron_jobs_def merge_action_def split: prod.splits)
    obtain ch c3 where e: "enforce_store_agent_bindings v c2 = (ch, c3)" by fastforce
    have 3: "settled E i c3" using settled_enforce[OF 2(1), of v] e by simp
    have "snd (load_store E v r c) \<in> {c, c3, snd (save_store v SvBind c3)}"
      using l Some c1(1) c2_def[symmetric] 2(2) e assms(2) by (auto simp: load_store_def split: prod.splits sum.splits)
    then show ?thesis using 3 settled_save assms(1) by auto
  qed
qed

lemma load_actions: "c_actions c = None \<Longrightarrow> c_actions (snd (load_store E v r c)) = None"
  by (auto simp: load_store_def load_jobs_def set_aside_def merge_action_def enforce_store_agent_bindings_def Let_def
      save_store_def with_jobs_def split: jobs_file.splits option.splits prod.splits sum.splits if_splits)

lemma find_change: "(\<And>j. j_id (f j) = j_id j) \<Longrightarrow>
    find_job i (change_job k f js) = (if i = k then map_option f (find_job i js) else find_job i js)"
  by (induction js) (auto simp: find_job_Cons find_job_def)

lemma find_without: "find_job i (without_job k js) = (if i = k then None else find_job i js)"
  by (induction js) (auto simp: find_job_def without_job_def)


definition live :: "cron \<Rightarrow> bool" where
  "live c \<longleftrightarrow> c_active c > 0 \<and> c_store c \<noteq> None"

text \<open>At most one run so far, and none to come.\<close>

definition once :: "string \<Rightarrow> cron \<Rightarrow> bool" where
  "once i c \<longleftrightarrow> one_shot_runs i c \<le> 1 \<and> (one_shot_runs i c > 0 \<longrightarrow> done_in i (cron_jobs c))"

lemma quiet_execute:
  assumes "live c" "once i c" "find_job (j_id d) (cron_jobs c) = Some j" "enabled j" "quiet cb"
  shows "\<exists>c'. execute_job E v cb n j c = (True, c') \<and> live c' \<and> once i c' \<and> c_actions c' = c_actions c
    \<and> c_dirty c' = c_dirty c \<and> c_disk c' = c_disk c"
proof -
  have jid: "j_id j = j_id d" using assms(3) by (auto simp: find_job_def find_Some_iff)
  obtain out where cb: "cb j = ([], out)" "out \<noteq> TickCancelled"
    using assms(5) unfolding quiet_def by (metis prod.collapse)
  define c1 where "c1 = c\<lparr>c_log := c_log c @ [j]\<rparr>"
  define f where "f = advanced_job E v n \<circ> ran_job E v n out"
  define c2 where "c2 = with_jobs (change_job (j_id j) f) c1"
  have fid: "j_id (f x) = j_id x" for x by (simp add: f_def)
  have fs: "j_schedule (f x) = j_schedule x" "delete_after_run (f x) = delete_after_run x" for x by (simp_all add: f_def)
  have st: "c_store c1 \<noteq> None" "cron_jobs c1 = cron_jobs c" using assms(1) by (simp_all add: c1_def live_def cron_jobs_def)
  have jobs: "cron_jobs c2 = change_job (j_id j) f (cron_jobs c)" using st by (simp add: c2_def)
  have found: "find_job (j_id j) (cron_jobs c2) = Some (f j)"
    using assms(3) by (simp add: jobs find_change fid jid)
  define c3 where "c3 = (if s_kind (j_schedule j) = ''at'' \<and> delete_after_run j then with_jobs (without_job (j_id j)) c2 else c2)"
  have x: "execute_job E v cb n j c = (True, c3)"
    using found cb by (simp add: execute_job_def c1_def[symmetric] f_def[symmetric] c2_def[symmetric] c3_def fs)
  have keep: "c_active c3 = c_active c" "c_store c3 \<noteq> None" "c_actions c3 = c_actions c" "c_dirty c3 = c_dirty c"
      "c_disk c3 = c_disk c" "c_log c3 = c_log c @ [j]"
    using st by (simp_all add: c3_def c2_def c1_def del: not_None_eq)
  have c3j: "find_job i (cron_jobs c3) =
      (if i \<noteq> j_id j then find_job i (cron_jobs c)
       else if s_kind (j_schedule j) = ''at'' \<and> delete_after_run j then None else Some (f j))"
    using found st by (auto simp: c3_def c2_def find_without find_change fid jobs simp del: not_None_eq)
  have fin: "s_kind (j_schedule j) = ''at'' \<Longrightarrow> \<not> delete_after_run j \<Longrightarrow> \<not> enabled (f j)"
    by (simp add: f_def advanced_job_def)
  have none: "one_shot_runs i c = 0" if "j_id j = i"
    using assms(2,3,4) that jid by (auto simp: once_def done_in_def)
  have "once i c3"
  proof (cases "j_id j = i")
    case True
    have "one_shot_runs i c3 = (if s_kind (j_schedule j) = ''at'' then 1 else 0)"
      using none[OF True] True keep(6) by (simp add: one_shot_runs_def)
    then show ?thesis using c3j True fin by (auto simp: once_def done_in_def)
  next
    case False
    then have "one_shot_runs i c3 = one_shot_runs i c" using keep(6) by (simp add: one_shot_runs_def)
    then show ?thesis using c3j False assms(2) by (auto simp: once_def done_in_def)
  qed
  then show ?thesis using x keep assms(1) by (auto simp: live_def)
qed

lemma quiet_run_due:
  assumes "live c" "once i c" "quiet cb"
  shows "\<exists>r c'. run_due E v cb n ds rn c = (Inr r, c') \<and> live c' \<and> once i c' \<and> c_actions c' = c_actions c
    \<and> c_dirty c' = c_dirty c \<and> c_disk c' = c_disk c \<and> (r \<or> (c' = c \<and> \<not> rn))"
  using assms(1,2)
proof (induction ds arbitrary: n rn c)
  case (Cons d ds)
  have g: "get_job E v (j_id d) c = (Inr (find_job (j_id d) (cron_jobs c)), c)"
    using Cons.prems(1) by (simp add: get_job_def require_store_def load_store_def live_def)
  show ?case
  proof (cases "find_job (j_id d) (cron_jobs c)")
    case None
    then show ?thesis using g Cons.IH[OF Cons.prems] by simp
  next
    case (Some j)
    show ?thesis
    proof (cases "due (clk v (AtCheck n)) j")
      case False
      then show ?thesis using g Some Cons.IH[OF Cons.prems] by simp
    next
      case True
      then obtain c2 where c2: "execute_job E v cb n j c = (True, c2)" "live c2" "once i c2"
        "c_actions c2 = c_actions c" "c_dirty c2 = c_dirty c" "c_disk c2 = c_disk c"
        using quiet_execute[OF Cons.prems Some _ assms(3), of E v n] by (auto simp: due_def)
      then show ?thesis using g Some True Cons.IH[OF c2(2,3), of "Suc n" True] by auto
    qed
  qed
qed simp

definition steady :: "cron_env \<Rightarrow> string \<Rightarrow> cron \<Rightarrow> bool" where
  "steady E i c \<longleftrightarrow> c_actions c = None \<and> once i c \<and> (one_shot_runs i c > 0 \<longrightarrow> settled E i c)"

lemma save_steady: "steady E i c \<Longrightarrow> steady E i (snd (save_store v site c))"
  using settled_save[of E i c v site] frame_save[of c v site]
  by (auto simp: steady_def once_def one_shot_runs_def same_frame_def)

lemma load_present:
  assumes "load_store E v r c = (Inr True, c')"
  shows "c_store c' \<noteq> None"
proof -
  obtain x c1 where l: "load_jobs E v c = (x, c1)" by fastforce
  show ?thesis
  proof (cases x)
    case None
    then show ?thesis using l assms by (auto simp: load_store_def split: if_splits)
  next
    case (Some s)
    obtain y c2 where m: "merge_action E v (c1\<lparr>c_store := Some s\<rparr>) = (y, c2)" by fastforce
    have 2: "c_store c2 \<noteq> None"
      using m by (auto simp: merge_action_def Let_def with_jobs_def save_store_def split: option.splits prod.splits if_splits)
    obtain ch c3 where e: "enforce_store_agent_bindings v c2 = (ch, c3)" by fastforce
    obtain f where "c3 = with_jobs f c2" using e by (auto simp: enforce_store_agent_bindings_def Let_def)
    then have 3: "c_store c3 \<noteq> None" using 2 with_jobs_store by metis
    have "c' \<in> {c, c3, snd (save_store v SvBind c3)}" "c' = c \<Longrightarrow> c_store c \<noteq> None \<or> c = c3 \<or> c = snd (save_store v SvBind c3)"
      using assms l Some m e by (auto simp: load_store_def split: if_splits sum.splits prod.splits)
    then show ?thesis using 3 by auto
  qed
qed

lemma tick_body_steady:
  assumes "steady E i c" "c_active c > 0" "quiet cb"
  shows "steady E i (tick_body E v cb r c)"
proof (cases "c_dirty c")
  case True
  then show ?thesis using save_steady[OF assms(1), of v SvFirst] by (simp add: tick_body_def)
next
  case False
  obtain x c1 where l: "load_store E v r c = (x, c1)" by fastforce
  have f: "same_frame c c1" "c_actions c1 = None"
    using frame_load[of c E v r] load_actions[of c E v r] l assms(1) by (simp_all add: steady_def)
  have "one_shot_runs i c > 0 \<Longrightarrow> settled E i c1"
    using load_settled[of E i c v r] False assms(1) l by (simp add: steady_def)
  then have s1: "steady E i c1"
    using f assms(1) by (auto simp: steady_def once_def one_shot_runs_def same_frame_def settled_def)
  show ?thesis
  proof (cases "x = Inr True")
    case xt: True
    have lv: "live c1"
      using load_present[OF l[unfolded xt]] assms(2) f(1) by (simp add: live_def same_frame_def)
    obtain y c2 where d: "run_due E v cb 0 (filter (due (clk v AtTick)) (cron_jobs c1)) False c1 = (Inr y, c2)"
      "live c2" "once i c2" "c_actions c2 = c_actions c1" "y \<or> c2 = c1"
      using quiet_run_due[OF lv _ assms(3), of i E v 0 "filter (due (clk v AtTick)) (cron_jobs c1)" False] s1
      by (auto simp: steady_def)
    show ?thesis
    proof (cases y)
      case True
      have "steady E i (snd (save_store v SvLast c2))"
        using done_save[of i c2 E v SvLast] d f(2) frame_save[of c2 v SvLast]
        by (auto simp: steady_def once_def one_shot_runs_def same_frame_def live_def)
      then show ?thesis using False l xt d(1) True by (simp add: tick_body_def)
    next
      case y: False
      then show ?thesis using False l xt d s1 by (simp add: tick_body_def)
    qed
  next
    case nx: False
    then show ?thesis using False l s1 by (auto simp: tick_body_def split: sum.splits)
  qed
qed

lemma tick_steady:
  assumes "steady E i c" "c_active c = 0" "quiet cb"
  shows "steady E i (on_timer E v cb c) \<and> c_active (on_timer E v cb c) = 0"
proof -
  define c0 where "c0 = c\<lparr>c_timer := None, c_active := Suc 0\<rparr>"
  have "steady E i c0"
    using assms(1) by (simp add: c0_def steady_def once_def one_shot_runs_def settled_def disk_done_def cron_jobs_def)
  then have s: "steady E i (tick_body E v cb True c0)"
    using tick_body_steady[of E i c0 cb v True] assms(3) by (simp add: c0_def)
  have a: "c_active (tick_body E v cb True c0) = Suc 0" using tick_body_frame[of E v cb True c0] by (simp add: c0_def)
  have "on_timer E v cb c = arm_timer E v ((tick_body E v cb True c0)\<lparr>c_active := 0\<rparr>)"
    using assms(2) a by (simp add: on_timer_def c0_def)
  then show ?thesis
    using s by (simp add: steady_def once_def one_shot_runs_def settled_def disk_done_def) (simp add: cron_jobs_def)
qed

definition ticks :: "cron_env \<Rightarrow> (call_env \<times> on_job) list \<Rightarrow> cron \<Rightarrow> cron" where
  "ticks E vs c = fold (\<lambda>(v, cb). on_timer E v cb) vs c"


text \<open>A first tick whose save fails, a second that only saves, a third with nothing to run.\<close>

definition demo_ticks :: "(call_env \<times> on_job) list" where
  "demo_ticks = [(demo_call 9 True, demo_ok), (demo_call 9 False, demo_ok), (demo_call 9 False, demo_ok)]"

lemma demo_ticks_run: "one_shot_runs ''a'' (ticks demo_cron_env demo_ticks demo_cron) = 1"
  by code_simp


subsection \<open>Unreadable stores\<close>

text \<open>
  Claim C34: a store file that cannot be read leaves the jobs in memory to the call that meets it, and none to the
  next one: the file was moved aside, so the next call takes its absence for an empty store.\<close>

theorem corrupt_store_forgets_jobs:
  assumes "\<not> c_dirty c" "c_active c = 0" "c_disk c = BadJobs" "c_store c = Some s" "c_actions c = None" "renames v"
  shows "fst (list_jobs E v True (snd (require_store E v False c))) = Inr []
    \<and> cron_jobs (snd (require_store E v False c)) = snd s"
proof -
  define c1 where "c1 = c\<lparr>c_backups := c_backups c @ [BadJobs], c_disk := NoJobs\<rparr>"
  have 1: "require_store E v False c = (Inr (), c1)"
    using assms by (simp add: require_store_def load_store_def load_jobs_def set_aside_def c1_def)
  have c1: "\<not> c_dirty c1" "c_active c1 = 0" "c_disk c1 = NoJobs" "c_actions c1 = None" "cron_jobs c1 = snd s"
    using assms by (simp_all add: c1_def cron_jobs_def split: prod.splits)
  define c2 where "c2 = c1\<lparr>c_store := Some (JInt 1, [])\<rparr>"
  have "merge_action E v c2 = (Inr (), c2)" using c1 by (simp add: merge_action_def c2_def)
  moreover have "enforce_store_agent_bindings v c2 = (False, c2)"
    by (simp add: enforce_store_agent_bindings_def c2_def cron_jobs_def with_jobs_def)
  ultimately have "require_store E v False c1 = (Inr (), c2)"
    using c1 by (simp add: require_store_def load_store_def load_jobs_def c2_def[symmetric])
  then show ?thesis using 1 c1(5) by (simp add: list_jobs_def c2_def cron_jobs_def Let_def)
qed

theorem corrupt_store_forgets_jobs_witness:
  "let c = demo_cron\<lparr>c_store := Some (JInt 1, [demo_at ''a'']), c_disk := BadJobs\<rparr> in
   fst (list_jobs demo_cron_env (demo_call 9 False) True (snd (require_store demo_cron_env (demo_call 9 False) False c))) = Inr []"
  unfolding Let_def
  by (rule corrupt_store_forgets_jobs[THEN conjunct1]) (simp_all add: demo_cron_def demo_call_def)

end
