(* ===== verification/Providers.thy ===== *)
theory Providers
  imports Json Complex_Main
begin

text \<open>
  The part of \<open>nanobot/providers/base.py\<close> every provider shares: which errors are transient, how long to
  wait, the shape of a message list, images, and the retry loop. The physical call, the state of the
  stream and the regular expressions of \<open>re\<close> are arguments. Seconds are rationals; texts with
  characters outside ASCII are written as their UTF-8 bytes.
\<close>

subsection \<open>Responses and their errors\<close>

record llm_response =
  finish_reason :: string
  content :: "string option"
  retry_after :: "rat option"
  error_status_code :: "int option"
  error_kind :: "string option"
  error_type :: "string option"
  error_code :: "string option"
  error_retry_after_s :: "rat option"
  error_should_retry :: "bool option"

definition RATE_LIMITED_ZH :: string where
  "RATE_LIMITED_ZH = [CHR 0xE9, CHR 0x80, CHR 0x9F, CHR 0xE7, CHR 0x8E, CHR 0x87, CHR 0xE9, CHR 0x99, CHR 0x90,
     CHR 0xE5, CHR 0x88, CHR 0xB6]"

definition TOO_MANY_VISITS_ZH :: string where
  "TOO_MANY_VISITS_ZH = [CHR 0xE8, CHR 0xAE, CHR 0xBF, CHR 0xE9, CHR 0x97, CHR 0xAE, CHR 0xE9, CHR 0x87, CHR 0x8F,
     CHR 0xE8, CHR 0xBF, CHR 0x87, CHR 0xE5, CHR 0xA4, CHR 0xA7]"

definition TRANSIENT_ERROR_MARKERS :: "string list" where
  "TRANSIENT_ERROR_MARKERS = [''429'', ''rate limit'', ''500'', ''502'', ''503'', ''504'', ''overloaded'', ''timeout'',
     ''timed out'', ''connection'', ''server error'', ''server_error'', ''temporarily unavailable'',
     RATE_LIMITED_ZH, TOO_MANY_VISITS_ZH]"

definition RETRYABLE_STATUS_CODES :: "int list" where
  "RETRYABLE_STATUS_CODES = [408, 409, 429]"

definition TRANSIENT_ERROR_KINDS :: "string list" where
  "TRANSIENT_ERROR_KINDS = [''timeout'', ''connection'']"

definition NON_RETRYABLE_429_ERROR_TOKENS :: "string list" where
  "NON_RETRYABLE_429_ERROR_TOKENS = [''insufficient_quota'', ''quota_exceeded'', ''quota_exhausted'',
     ''billing_hard_limit_reached'', ''insufficient_balance'', ''credit_balance_too_low'', ''billing_not_active'',
     ''payment_required'']"

definition RETRYABLE_429_ERROR_TOKENS :: "string list" where
  "RETRYABLE_429_ERROR_TOKENS = [''rate_limit_exceeded'', ''rate_limit_error'', ''too_many_requests'',
     ''request_limit_exceeded'', ''requests_limit_exceeded'', ''overloaded_error'']"

definition NON_RETRYABLE_429_TEXT_MARKERS :: "string list" where
  "NON_RETRYABLE_429_TEXT_MARKERS = [''insufficient_quota'', ''insufficient quota'', ''quota exceeded'', ''quota exhausted'',
     ''billing hard limit'', ''billing_hard_limit_reached'', ''billing not active'', ''insufficient balance'',
     ''insufficient_balance'', ''credit balance too low'', ''payment required'', ''out of credits'', ''out of quota'',
     ''exceeded your current quota'']"

definition RETRYABLE_429_TEXT_MARKERS :: "string list" where
  "RETRYABLE_429_TEXT_MARKERS = [''rate limit'', ''rate_limit'', ''too many requests'', ''retry after'', ''try again in'',
     ''temporarily unavailable'', ''overloaded'', ''concurrency limit'', RATE_LIMITED_ZH]"

definition lowered :: "string option \<Rightarrow> string" where
  "lowered t = lower (case t of None \<Rightarrow> [] | Some s \<Rightarrow> s)"

definition has_marker :: "string list \<Rightarrow> string \<Rightarrow> bool" where
  "has_marker ms t \<longleftrightarrow> list_ex (\<lambda>m. contains m t) ms"

definition is_transient_error :: "string option \<Rightarrow> bool" where
  "is_transient_error c = has_marker TRANSIENT_ERROR_MARKERS (lowered c)"

definition normalize_error_token :: "string option \<Rightarrow> string option" where
  "normalize_error_token v =
     (case v of None \<Rightarrow> None | Some s \<Rightarrow> let t = lower (strip s) in if t = [] then None else Some t)"

definition has_token :: "string list \<Rightarrow> llm_response \<Rightarrow> bool" where
  "has_token toks r \<longleftrightarrow>
     (case normalize_error_token (error_type r) of None \<Rightarrow> False | Some t \<Rightarrow> t \<in> set toks)
     \<or> (case normalize_error_token (error_code r) of None \<Rightarrow> False | Some t \<Rightarrow> t \<in> set toks)"

definition is_retryable_429_response :: "llm_response \<Rightarrow> bool" where
  "is_retryable_429_response r =
     (if has_token NON_RETRYABLE_429_ERROR_TOKENS r then False
      else if has_marker NON_RETRYABLE_429_TEXT_MARKERS (lowered (content r)) then False
      else if has_token RETRYABLE_429_ERROR_TOKENS r then True
      else if has_marker RETRYABLE_429_TEXT_MARKERS (lowered (content r)) then True
      else True)"

definition is_transient_response :: "llm_response \<Rightarrow> bool" where
  "is_transient_response r =
     (case error_should_retry r of
        Some b \<Rightarrow> b
      | None \<Rightarrow>
          if error_status_code r = Some 429 then is_retryable_429_response r
          else if (case error_status_code r of None \<Rightarrow> False | Some s \<Rightarrow> s \<in> set RETRYABLE_STATUS_CODES \<or> s \<ge> 500) then True
          else if lower (strip (case error_kind r of None \<Rightarrow> [] | Some k \<Rightarrow> k)) \<in> set TRANSIENT_ERROR_KINDS then True
          else is_transient_error (content r))"

definition is_arrearage_response :: "llm_response \<Rightarrow> bool" where
  "is_arrearage_response r =
     (if error_status_code r = Some 402 then True
      else if has_token NON_RETRYABLE_429_ERROR_TOKENS r then True
      else has_marker NON_RETRYABLE_429_TEXT_MARKERS (lowered (content r)))"

definition public_error_kind :: "llm_response \<Rightarrow> string" where
  "public_error_kind r =
     (let k = lower (strip (case error_kind r of None \<Rightarrow> [] | Some k \<Rightarrow> k)) in
      if is_arrearage_response r then ''billing''
      else if k \<in> {''connection'', ''timeout''} then k
      else if error_status_code r = Some 429 then ''rate_limit''
      else if (case error_status_code r of None \<Rightarrow> False | Some s \<Rightarrow> s \<ge> 500) then ''server''
      else ''unknown'')"

subsection \<open>Waiting\<close>

definition to_retry_seconds :: "rat \<Rightarrow> string option \<Rightarrow> rat" where
  "to_retry_seconds v u =
     (let k = lower (case u of None \<Rightarrow> ''s'' | Some [] \<Rightarrow> ''s'' | Some t \<Rightarrow> t) in
      if k \<in> {''ms'', ''milliseconds''} then max (1 / 10) (v / 1000)
      else if k \<in> {''m'', ''min'', ''minutes''} then max (1 / 10) (v * 60)
      else max (1 / 10) v)"

text \<open>\<open>search i t\<close> is the match of the \<open>i\<close>-th pattern: its number and the unit, if it has one.\<close>

type_synonym retry_search = "nat \<Rightarrow> string \<Rightarrow> (rat \<times> string option) option"

fun first_match :: "retry_search \<Rightarrow> string \<Rightarrow> nat list \<Rightarrow> rat option" where
  "first_match search t [] = None"
| "first_match search t (i # is) =
     (case search i t of
        None \<Rightarrow> first_match search t is
      | Some (v, u) \<Rightarrow> Some (to_retry_seconds v (if i < 3 then u else Some ''s'')))"

definition extract_retry_after :: "retry_search \<Rightarrow> string option \<Rightarrow> rat option" where
  "extract_retry_after search c = first_match search (lowered c) [0, 1, 2, 3]"

definition extract_retry_after_from_response :: "retry_search \<Rightarrow> llm_response \<Rightarrow> rat option" where
  "extract_retry_after_from_response search r =
     (case error_retry_after_s r of
        Some t \<Rightarrow> if t > 0 then Some t else
          (case retry_after r of Some u \<Rightarrow> if u > 0 then Some u else extract_retry_after search (content r)
           | None \<Rightarrow> extract_retry_after search (content r))
      | None \<Rightarrow>
          (case retry_after r of Some u \<Rightarrow> if u > 0 then Some u else extract_retry_after search (content r)
           | None \<Rightarrow> extract_retry_after search (content r)))"

definition CHAT_RETRY_DELAYS :: "rat list" where "CHAT_RETRY_DELAYS = [1, 2, 4]"
definition PERSISTENT_MAX_DELAY :: rat where "PERSISTENT_MAX_DELAY = 60"
definition PERSISTENT_IDENTICAL_ERROR_LIMIT :: nat where "PERSISTENT_IDENTICAL_ERROR_LIMIT = 10"
definition RETRY_HEARTBEAT_CHUNK :: rat where "RETRY_HEARTBEAT_CHUNK = 30"
definition RETRY_AFTER_BUFFER :: rat where "RETRY_AFTER_BUFFER = 1"

text \<open>The loop of \<open>_sleep_with_heartbeat\<close>: what remains before each sleep.\<close>

function heartbeats :: "rat \<Rightarrow> rat list" where
  "heartbeats remaining =
     (if remaining > 0 then remaining # heartbeats (remaining - min remaining RETRY_HEARTBEAT_CHUNK) else [])"
  by pat_completeness auto

termination
proof (relation "measure (\<lambda>r. nat \<lceil>r\<rceil>)")
  fix r :: rat
  assume r: "r > 0"
  show "(r - min r RETRY_HEARTBEAT_CHUNK, r) \<in> measure (\<lambda>r. nat \<lceil>r\<rceil>)"
  proof (cases "r \<le> RETRY_HEARTBEAT_CHUNK")
    case True
    then show ?thesis using r by simp
  next
    case False
    then have "\<lceil>r - 30\<rceil> = \<lceil>r\<rceil> - 30" "0 < \<lceil>r\<rceil>"
      using r by (simp_all add: ceiling_diff_numeral)
    then show ?thesis using False by (simp add: RETRY_HEARTBEAT_CHUNK_def)
  qed
qed simp

declare heartbeats.simps [simp del]

definition slept :: "rat \<Rightarrow> rat list" where
  "slept d = map (\<lambda>r. min r RETRY_HEARTBEAT_CHUNK) (heartbeats (max 0 d))"

lemma sum_slept: "sum_list (map (\<lambda>r. min r RETRY_HEARTBEAT_CHUNK) (heartbeats d)) = max 0 d"
proof (induction d rule: heartbeats.induct)
  case (1 d)
  then show ?case
    by (cases "d > 0") (simp_all add: heartbeats.simps[of d] RETRY_HEARTBEAT_CHUNK_def max_def min_def split: if_splits)
qed

subsection \<open>Messages\<close>

type_synonym msg = "(string, json) dict"

definition role_of :: "msg \<Rightarrow> json" where
  "role_of m = (case dict_get m ''role'' of None \<Rightarrow> JNull | Some v \<Rightarrow> v)"

definition key_truthy :: "msg \<Rightarrow> string \<Rightarrow> bool" where
  "key_truthy m k = (case dict_get m k of None \<Rightarrow> False | Some v \<Rightarrow> truthy v)"

text \<open>\<open>m.get("content") or ""\<close>.\<close>

definition content_or_empty :: "msg \<Rightarrow> json" where
  "content_or_empty m = (case dict_get m ''content'' of None \<Rightarrow> JStr [] | Some v \<Rightarrow> if truthy v then v else JStr [])"

definition text_block :: "string \<Rightarrow> json" where
  "text_block t = JDict [(''type'', JStr ''text''), (''text'', JStr t)]"

text \<open>\<open>show\<close> is \<open>str(v)\<close> of a value that is no text.\<close>

fun py_text :: "(json \<Rightarrow> string) \<Rightarrow> json \<Rightarrow> string" where
  "py_text shw (JStr s) = s" | "py_text shw v = shw v"

fun content_as_blocks :: "(json \<Rightarrow> string) \<Rightarrow> json \<Rightarrow> json list" where
  "content_as_blocks shw (JList xs) = map (\<lambda>x. case x of JDict d \<Rightarrow> JDict d | _ \<Rightarrow> text_block (py_text shw x)) xs"
| "content_as_blocks shw JNull = []"
| "content_as_blocks shw v = [text_block (py_text shw v)]"

definition ROLE_USER :: json where "ROLE_USER = JStr ''user''"
definition ROLE_ASSISTANT :: json where "ROLE_ASSISTANT = JStr ''assistant''"

text \<open>One message of the same role as the last merged one, and the loop over the messages.\<close>

definition merge_same :: "(json \<Rightarrow> string) \<Rightarrow> msg \<Rightarrow> msg \<Rightarrow> msg" where
  "merge_same shw prev m =
     (if role_of m = ROLE_ASSISTANT \<and> key_truthy m ''tool_calls'' then m
      else if role_of m = ROLE_ASSISTANT \<and> key_truthy prev ''tool_calls'' then prev
      else (case (content_or_empty prev, content_or_empty m) of
          (JStr a, JStr b) \<Rightarrow> dict_set prev ''content'' (JStr (strip (a @ [CHR 0x0A, CHR 0x0A] @ b)))
        | (a, b) \<Rightarrow>
            if role_of m = ROLE_USER
            then dict_set m ''content'' (JList (content_as_blocks shw a @ content_as_blocks shw b))
            else m))"

definition same_turn :: "msg list \<Rightarrow> msg \<Rightarrow> bool" where
  "same_turn merged m \<longleftrightarrow> merged \<noteq> [] \<and> role_of (last merged) = role_of m \<and> role_of m \<in> {ROLE_USER, ROLE_ASSISTANT}"

fun merge_turns :: "(json \<Rightarrow> string) \<Rightarrow> msg list \<Rightarrow> msg list \<Rightarrow> msg list" where
  "merge_turns shw merged [] = merged"
| "merge_turns shw merged (m # ms) =
     (if same_turn merged m then merge_turns shw (butlast merged @ [merge_same shw (last merged) m]) ms
      else merge_turns shw (merged @ [m]) ms)"

definition is_assistant :: "msg \<Rightarrow> bool" where "is_assistant m \<longleftrightarrow> role_of m = ROLE_ASSISTANT"

definition drop_trailing :: "msg list \<Rightarrow> msg list" where
  "drop_trailing ms = rev (dropWhile is_assistant (rev ms))"

text \<open>The last one popped is the first of the trailing assistant messages.\<close>

definition recover_last :: "msg list \<Rightarrow> msg list" where
  "recover_last ms =
     (let kept = drop_trailing ms; popped = drop (length kept) ms in
      if kept \<noteq> [] \<and> popped \<noteq> [] \<and> \<not> list_ex (\<lambda>m. role_of m \<in> {ROLE_USER, JStr ''tool''}) kept
      then kept @ [dict_set (hd popped) ''role'' ROLE_USER] else kept)"

definition SYNTHETIC_USER_CONTENT :: string where "SYNTHETIC_USER_CONTENT = ''(conversation continued)''"

definition synthetic_user :: msg where
  "synthetic_user = [(''role'', ROLE_USER), (''content'', JStr SYNTHETIC_USER_CONTENT)]"

fun open_with_user :: "msg list \<Rightarrow> msg list" where
  "open_with_user [] = []"
| "open_with_user (m # ms) =
     (if role_of m = JStr ''system'' then m # open_with_user ms
      else if is_assistant m \<and> \<not> key_truthy m ''tool_calls'' then synthetic_user # m # ms
      else m # ms)"

definition enforce_role_alternation :: "(json \<Rightarrow> string) \<Rightarrow> msg list \<Rightarrow> msg list" where
  "enforce_role_alternation shw ms =
     (if ms = [] then [] else open_with_user (recover_last (merge_turns shw [] ms)))"

subsection \<open>Images\<close>

definition IMAGE_PLACEHOLDER :: string where
  "IMAGE_PLACEHOLDER = ''[Image not delivered to model '' @ [CHR 0xE2, CHR 0x80, CHR 0x94] @ '' do not describe or reference it]''"

fun is_image_block :: "json \<Rightarrow> bool" where
  "is_image_block (JDict d) \<longleftrightarrow> dict_get d ''type'' = Some (JStr ''image_url'')"
| "is_image_block _ \<longleftrightarrow> False"

definition strip_block :: "json \<Rightarrow> json" where
  "strip_block b = (if is_image_block b then text_block IMAGE_PLACEHOLDER else b)"

definition msg_blocks :: "msg \<Rightarrow> json list" where
  "msg_blocks m = (case dict_get m ''content'' of Some (JList bs) \<Rightarrow> bs | _ \<Rightarrow> [])"

definition strip_msg :: "msg \<Rightarrow> msg" where
  "strip_msg m = (case dict_get m ''content'' of
     Some (JList bs) \<Rightarrow> dict_set m ''content'' (JList (map strip_block bs)) | _ \<Rightarrow> m)"

definition has_images :: "msg list \<Rightarrow> bool" where
  "has_images ms \<longleftrightarrow> list_ex (\<lambda>m. list_ex is_image_block (msg_blocks m)) ms"

definition strip_image_content :: "msg list \<Rightarrow> msg list option" where
  "strip_image_content ms = (if has_images ms then Some (map strip_msg ms) else None)"

text \<open>
  \<open>_contains_image_content\<close>: a \<open>type\<close> that is a list or a dict cannot be looked up in a set and
  raises (None).
\<close>

fun hashable :: "json \<Rightarrow> bool" where
  "hashable (JList _) = False" | "hashable (JDict _) = False" | "hashable _ = True"

fun any_image :: "bool option list \<Rightarrow> bool option" where
  "any_image [] = Some False"
| "any_image (None # xs) = None"
| "any_image (Some b # xs) = (if b then Some True else any_image xs)"

fun contains_image_content :: "json \<Rightarrow> bool option" where
  "contains_image_content (JDict d) =
     (case dict_get d ''type'' of
        None \<Rightarrow> any_image (map (\<lambda>(k, v). contains_image_content v) d)
      | Some t \<Rightarrow>
          if \<not> hashable t then None
          else if t = JStr ''image_url'' \<or> t = JStr ''input_image'' then Some True
          else any_image (map (\<lambda>(k, v). contains_image_content v) d))"
| "contains_image_content (JList xs) = any_image (map contains_image_content xs)"
| "contains_image_content _ = Some False"

subsection \<open>The retry loop\<close>

text \<open>The continuation of a conversation, and the part of a request the loop reads or changes.\<close>

record conversation_state =
  cs_pending :: "msg list"
  cs_payload :: json

record retry_kw =
  rk_messages :: "msg list"
  rk_state :: "conversation_state option"
  rk_muted :: bool

datatype retry_state_name = Waiting | Recovered | Cleared | Exhausted

datatype retry_event =
    ECall retry_kw
  | EWait bool rat nat
  | EStatus retry_state_name nat "nat option" string
  | ESleep rat
  | ERecoverStream
  | EExhaustedIdentical nat
  | EExhaustedAttempts nat
  | EStripOriginal

text \<open>
  \<open>rv_call n\<close> is the answer of the \<open>n\<close>-th physical call (None when it raises); \<open>rv_streamed n\<close> whether content
  was streamed in the current segment after it; \<open>rv_guarded\<close>, \<open>rv_recovers\<close> and the last three whether the
  callbacks were given; \<open>rv_cap\<close> is \<open>max_attempts\<close>, \<open>rv_context\<close> whether there is a provider context.
\<close>

record retry_env =
  rv_call :: "nat \<Rightarrow> retry_kw \<Rightarrow> llm_response option"
  rv_streamed :: "nat \<Rightarrow> bool"
  rv_search :: retry_search
  rv_guarded :: bool
  rv_recovers :: bool
  rv_persistent :: bool
  rv_cap :: "int option"
  rv_on_wait :: bool
  rv_on_exhausted :: bool
  rv_on_status :: bool

record retry_state =
  rt_attempt :: nat
  rt_kw :: retry_kw
  rt_guard :: bool
  rt_key :: "string option"
  rt_same :: nat
  rt_events :: "retry_event list"

definition retry_delays :: "retry_env \<Rightarrow> rat list" where
  "retry_delays V =
     (case rv_cap V of
        Some cap \<Rightarrow>
          if rv_persistent V then CHAT_RETRY_DELAYS
          else map (\<lambda>i. CHAT_RETRY_DELAYS ! min i (length CHAT_RETRY_DELAYS - 1)) [0..<nat (cap - 1)]
      | None \<Rightarrow> CHAT_RETRY_DELAYS)"

definition max_attempts_shown :: "retry_env \<Rightarrow> nat option" where
  "max_attempts_shown V = (if rv_persistent V then None else Some (length (retry_delays V) + 1))"

definition finish_status :: "retry_env \<Rightarrow> nat \<Rightarrow> retry_state_name \<Rightarrow> llm_response \<Rightarrow> retry_event list" where
  "finish_status V n st r =
     (if n > 1 \<and> rv_on_status V then [EStatus st n (max_attempts_shown V) (public_error_kind r)] else [])"

definition heartbeat_events :: "retry_env \<Rightarrow> nat \<Rightarrow> llm_response \<Rightarrow> rat \<Rightarrow> retry_event list" where
  "heartbeat_events V n r d =
     concat (map (\<lambda>left.
        (if rv_on_wait V then [EWait (rv_persistent V) left n] else [])
        @ (if rv_on_status V then [EStatus Waiting n (max_attempts_shown V) (public_error_kind r)] else [])
        @ [ESleep (min left RETRY_HEARTBEAT_CHUNK)]) (heartbeats (max 0 d)))"

definition error_key :: "llm_response \<Rightarrow> string option" where
  "error_key r = (let k = lower (strip (case content r of None \<Rightarrow> [] | Some t \<Rightarrow> t)) in if k = [] then None else Some k)"

text \<open>The request of the one retry without images: None for no retry; raising is the outer None.\<close>

definition without_images :: "retry_kw \<Rightarrow> retry_kw option option" where
  "without_images kw =
     (let stripped = strip_image_content (rk_messages kw);
          drops = (case rk_state kw of
             None \<Rightarrow> Some False
           | Some st \<Rightarrow>
               if stripped \<noteq> None then Some True
               else if strip_image_content (cs_pending st) \<noteq> None then Some True
               else contains_image_content (cs_payload st))
      in (case drops of
            None \<Rightarrow> None
          | Some d \<Rightarrow>
              Some (if stripped = None \<and> \<not> d then None
                    else Some (kw\<lparr>rk_messages := (case stripped of None \<Rightarrow> rk_messages kw | Some ms \<Rightarrow> ms),
                                  rk_state := (if d then None else rk_state kw)\<rparr>))))"

definition retry_delay :: "retry_env \<Rightarrow> nat \<Rightarrow> llm_response \<Rightarrow> rat" where
  "retry_delay V n r =
     (let base = retry_delays V ! min (n - 1) (length (retry_delays V) - 1);
          d = (case extract_retry_after_from_response (rv_search V) r of
                 Some t \<Rightarrow> if t \<noteq> 0 then t + RETRY_AFTER_BUFFER else base
               | None \<Rightarrow> base)
      in if rv_persistent V then min d PERSISTENT_MAX_DELAY else d)"

text \<open>The result of the loop, with what happened: a response, or an exception.\<close>

type_synonym retry_result = "llm_response option \<times> retry_event list"

text \<open>What one failed attempt decides after the stream was looked at.\<close>

definition retry_failed :: "retry_env \<Rightarrow> retry_state \<Rightarrow> llm_response \<Rightarrow> retry_state + retry_result" where
  "retry_failed V s r =
     (let n = rt_attempt s; ev = rt_events s; key = error_key r;
          same = (if key \<noteq> None \<and> key = rt_key s then rt_same s + 1 else if key \<noteq> None then 1 else 0) in
      if \<not> is_transient_response r then
        (case without_images (rt_kw s) of
           None \<Rightarrow> Inr (None, ev)
         | Some None \<Rightarrow> Inr (Some r, ev @ finish_status V n Cleared r)
         | Some (Some kw) \<Rightarrow>
             (case rv_call V (Suc n) kw of
                None \<Rightarrow> Inr (None, ev @ [ECall kw])
              | Some q \<Rightarrow>
                  Inr (Some q, ev @ [ECall kw] @ (if finish_reason q \<noteq> ''error'' then [EStripOriginal] else [])
                         @ finish_status V n (if finish_reason q \<noteq> ''error'' then Recovered else Cleared) q)))
      else if rv_persistent V \<and> same \<ge> PERSISTENT_IDENTICAL_ERROR_LIMIT then
        Inr (Some r, ev @ (if rv_on_exhausted V then [EExhaustedIdentical same] else [])
               @ (if rv_on_status V then [EStatus Exhausted n None (public_error_kind r)] else []))
      else if \<not> rv_persistent V \<and> n > length (retry_delays V) then
        Inr (Some r, ev @ (if rv_on_exhausted V then [EExhaustedAttempts n] else [])
               @ (if rv_on_status V then [EStatus Exhausted n (max_attempts_shown V) (public_error_kind r)] else []))
      else Inl (s\<lparr>rt_key := (if key \<noteq> None \<and> key = rt_key s then rt_key s else key), rt_same := same,
                  rt_events := ev @ heartbeat_events V n r (retry_delay V n r)\<rparr>))"

text \<open>One round of \<open>_run_with_retry\<close>.\<close>

definition retry_round :: "retry_env \<Rightarrow> retry_state \<Rightarrow> retry_state + retry_result" where
  "retry_round V s0 =
     (let n = rt_attempt s0 + 1; s = s0\<lparr>rt_attempt := n, rt_events := rt_events s0 @ [ECall (rt_kw s0)]\<rparr> in
      (case rv_call V n (rt_kw s) of
         None \<Rightarrow> Inr (None, rt_events s)
       | Some r \<Rightarrow>
           if finish_reason r \<noteq> ''error'' then Inr (Some r, rt_events s @ finish_status V n Recovered r)
           else if rt_guard s \<and> rv_streamed V n then
             if lower (case error_kind r of None \<Rightarrow> [] | Some k \<Rightarrow> k) \<noteq> ''timeout''
             then Inr (Some r, rt_events s @ finish_status V n Cleared r)
             else if rv_recovers V then retry_failed V (s\<lparr>rt_events := rt_events s @ [ERecoverStream]\<rparr>) r
             else retry_failed V (s\<lparr>rt_kw := (rt_kw s)\<lparr>rk_muted := True\<rparr>, rt_guard := False\<rparr>) r
           else retry_failed V s r))"

partial_function (option) retry_loop :: "retry_env \<Rightarrow> retry_state \<Rightarrow> retry_result option" where
  "retry_loop V s = (case retry_round V s of Inr r \<Rightarrow> Some r | Inl t \<Rightarrow> retry_loop V t)"

declare retry_loop.simps [code]

definition run_with_retry :: "retry_env \<Rightarrow> retry_kw \<Rightarrow> retry_result option" where
  "run_with_retry V kw =
     retry_loop V \<lparr>rt_attempt = 0, rt_kw = kw, rt_guard = rv_guarded V, rt_key = None, rt_same = 0, rt_events = []\<rparr>"

subsection \<open>A provider to evaluate\<close>

definition demo_error :: llm_response where
  "demo_error = \<lparr>finish_reason = ''error'', content = Some ''overloaded'', retry_after = None, error_status_code = None,
     error_kind = None, error_type = None, error_code = None, error_retry_after_s = None, error_should_retry = None\<rparr>"

definition demo_retry :: "bool \<Rightarrow> int option \<Rightarrow> retry_env" where
  "demo_retry persistent cap = \<lparr>rv_call = \<lambda>n kw. Some demo_error, rv_streamed = \<lambda>_. False, rv_search = \<lambda>_ _. None,
     rv_guarded = False, rv_recovers = False, rv_persistent = persistent, rv_cap = cap, rv_on_wait = True,
     rv_on_exhausted = True, rv_on_status = True\<rparr>"

definition demo_kw :: retry_kw where
  "demo_kw = \<lparr>rk_messages = [[(''role'', JStr ''user''), (''content'', JList [JDict [(''type'', JStr ''image_url'')]])]],
     rk_state = None, rk_muted = False\<rparr>"

subsection \<open>Message lists\<close>

definition turn_ok :: "msg \<Rightarrow> msg \<Rightarrow> bool" where
  "turn_ok a b \<longleftrightarrow> \<not> (role_of a = role_of b \<and> role_of b \<in> {ROLE_USER, ROLE_ASSISTANT})"

definition opens_ok :: "msg list \<Rightarrow> bool" where
  "opens_ok ms \<longleftrightarrow> (case dropWhile (\<lambda>m. role_of m = JStr ''system'') ms of
     [] \<Rightarrow> True | m # _ \<Rightarrow> \<not> is_assistant m \<or> key_truthy m ''tool_calls'')"

definition ends_ok :: "msg list \<Rightarrow> bool" where
  "ends_ok ms \<longleftrightarrow> ms = [] \<or> \<not> is_assistant (last ms)"

lemma role_of_set [simp]: "role_of (dict_set m ''content'' v) = role_of m" "role_of (dict_set m ''role'' v) = v"
  by (simp_all add: role_of_def)

lemma role_merge_same: "role_of prev = role_of m \<Longrightarrow> role_of (merge_same shw prev m) = role_of m"
  by (auto simp: merge_same_def split: json.splits)

lemma turn_ok_role: "role_of a = role_of a' \<Longrightarrow> turn_ok x a = turn_ok x a'"
  by (simp add: turn_ok_def)

lemma merge_turns_ok: "successively turn_ok merged \<Longrightarrow> successively turn_ok (merge_turns shw merged ms)"
proof (induction shw merged ms rule: merge_turns.induct)
  case (2 shw merged m ms)
  show ?case
  proof (cases "same_turn merged m")
    case True
    then obtain xs p where m: "merged = xs @ [p]" "role_of p = role_of m"
      by (metis same_turn_def append_butlast_last_id)
    have "successively turn_ok (xs @ [merge_same shw p m])"
      using 2(3) m role_merge_same[OF m(2), of shw] turn_ok_role[of p "merge_same shw p m"]
      by (simp add: successively_append_iff)
    then show ?thesis using 2(1) True m by simp
  next
    case False
    then have "successively turn_ok (merged @ [m])"
      using 2(3) by (auto simp: successively_append_iff same_turn_def turn_ok_def)
    then show ?thesis using 2(2) False by simp
  qed
qed simp

lemma recover_ok:
  assumes "successively turn_ok ms"
  shows "successively turn_ok (recover_last ms) \<and> ends_ok (recover_last ms)"
proof -
  define kept where "kept = drop_trailing ms"
  obtain tl where t: "ms = kept @ tl"
    by (metis kept_def drop_trailing_def rev_append rev_rev_ident takeWhile_dropWhile_id)
  have k: "successively turn_ok kept" using assms t by (simp add: successively_append_iff)
  have e: "ends_ok kept"
    using hd_dropWhile[of is_assistant "rev ms"]
    by (auto simp: ends_ok_def kept_def drop_trailing_def last_rev)
  have "successively turn_ok (kept @ [dict_set x ''role'' ROLE_USER])" "ends_ok (kept @ [dict_set x ''role'' ROLE_USER])"
    if "kept \<noteq> []" "\<not> list_ex (\<lambda>m. role_of m \<in> {ROLE_USER, JStr ''tool''}) kept" for x
  proof -
    have "role_of (last kept) \<noteq> ROLE_USER" using that by (auto simp: list_ex_iff)
    then show "successively turn_ok (kept @ [dict_set x ''role'' ROLE_USER])"
      using k by (simp add: successively_append_iff turn_ok_def)
    show "ends_ok (kept @ [dict_set x ''role'' ROLE_USER])"
      by (simp add: ends_ok_def is_assistant_def ROLE_USER_def ROLE_ASSISTANT_def)
  qed
  then show ?thesis using k e by (auto simp: recover_last_def Let_def kept_def[symmetric])
qed

lemma open_nonempty: "open_with_user ms = [] \<longleftrightarrow> ms = []"
  by (cases ms) auto

lemma open_last: "ms \<noteq> [] \<Longrightarrow> last (open_with_user ms) = last ms"
  by (induction ms rule: open_with_user.induct) (auto simp: open_nonempty)

lemma synthetic_role: "role_of synthetic_user = ROLE_USER"
  by (simp add: synthetic_user_def role_of_def)

lemma open_ok: "successively turn_ok ms \<Longrightarrow> successively turn_ok (open_with_user ms) \<and> opens_ok (open_with_user ms)"
proof (induction ms rule: open_with_user.induct)
  case (2 m ms)
  have r: "turn_ok m x" if "role_of m = JStr ''system''" for x
    using that by (auto simp: turn_ok_def ROLE_USER_def ROLE_ASSISTANT_def)
  show ?case
  proof (cases "role_of m = JStr ''system''")
    case True
    then show ?thesis using 2 r by (auto simp: opens_ok_def successively_Cons)
  next
    case False
    then show ?thesis
      using 2(2) by (auto simp: opens_ok_def successively_Cons is_assistant_def turn_ok_def synthetic_role
          ROLE_USER_def ROLE_ASSISTANT_def)
  qed
qed (simp add: opens_ok_def)

text \<open>
  Claim C35: the message list a provider sends is well formed, whatever the history: no two neighbours are both
  user or both assistant messages, it does not end with an assistant message, and the first message after
  the system ones is not an assistant message without tool calls.\<close>

theorem role_alternation:
  "let out = enforce_role_alternation shw ms in successively turn_ok out \<and> ends_ok out \<and> opens_ok out"
proof -
  define a where "a = recover_last (merge_turns shw [] ms)"
  have a: "successively turn_ok a" "ends_ok a"
    using recover_ok[OF merge_turns_ok[of "[]" shw ms]] by (simp_all add: a_def)
  have "ends_ok (open_with_user a)"
    using a(2) open_last[of a] open_nonempty[of a] by (auto simp: ends_ok_def)
  then show ?thesis
    using open_ok[OF a(1)] by (simp add: enforce_role_alternation_def Let_def a_def[symmetric] ends_ok_def opens_ok_def)
qed

subsection \<open>The loop ends\<close>

fun is_call :: "retry_event \<Rightarrow> bool" where "is_call (ECall _) = True" | "is_call _ = False"

definition physical_calls :: "retry_event list \<Rightarrow> nat" where
  "physical_calls ev = length (filter is_call ev)"

lemma calls_simps [simp]:
  "physical_calls [] = 0" "physical_calls (a @ b) = physical_calls a + physical_calls b"
  "physical_calls (e # b) = (if is_call e then 1 else 0) + physical_calls b"
  by (simp_all add: physical_calls_def)

lemma calls_status [simp]: "physical_calls (finish_status V n st r) = 0"
  by (simp add: finish_status_def)

lemma calls_heartbeat [simp]: "physical_calls (heartbeat_events V n r d) = 0"
proof -
  have "filter is_call (concat (map f xs)) = []" if "\<And>x. filter is_call (f x) = []" for f :: "rat \<Rightarrow> retry_event list" and xs
    using that by (induction xs) auto
  then show ?thesis by (simp add: physical_calls_def heartbeat_events_def)
qed

text \<open>The calls so far are the attempts so far; a result is the answer of the last call.\<close>

definition counted :: "retry_state \<Rightarrow> bool" where
  "counted s \<longleftrightarrow> physical_calls (rt_events s) = rt_attempt s"

definition answered :: "retry_env \<Rightarrow> retry_result \<Rightarrow> bool" where
  "answered V res \<longleftrightarrow> (case res of (None, ev) \<Rightarrow> True
     | (Some r, ev) \<Rightarrow> \<exists>kw. rv_call V (physical_calls ev) kw = Some r)"

lemma failed_cases:
  assumes "counted s" "rv_call V (rt_attempt s) kw = Some r"
  shows "case retry_failed V s r of
      Inl t \<Rightarrow> counted t \<and> rt_attempt t = rt_attempt s \<and> (rv_persistent V \<or> rt_attempt t \<le> length (retry_delays V))
    | Inr (x, ev) \<Rightarrow> answered V (x, ev) \<and> physical_calls ev \<le> rt_attempt s + 1"
  using assms
  by (auto simp: retry_failed_def Let_def counted_def answered_def split: option.splits)


lemma round_cases:
  assumes "counted s"
  shows "case retry_round V s of
      Inl t \<Rightarrow> counted t \<and> rt_attempt t = rt_attempt s + 1 \<and> (rv_persistent V \<or> rt_attempt t \<le> length (retry_delays V))
    | Inr (x, ev) \<Rightarrow> answered V (x, ev) \<and> physical_calls ev \<le> rt_attempt s + 2"
proof (cases "rv_call V (rt_attempt s + 1) (rt_kw s)")
  case None
  then show ?thesis using assms by (simp add: retry_round_def Let_def answered_def counted_def)
next
  case (Some r)
  define s1 where "s1 = s\<lparr>rt_attempt := rt_attempt s + 1, rt_events := rt_events s @ [ECall (rt_kw s)]\<rparr>"
  define s2 where "s2 = s1\<lparr>rt_events := rt_events s1 @ [ERecoverStream]\<rparr>"
  define s3 where "s3 = s1\<lparr>rt_kw := (rt_kw s1)\<lparr>rk_muted := True\<rparr>, rt_guard := False\<rparr>"
  have c: "counted s1" "counted s2" "counted s3" "rt_attempt s1 = rt_attempt s + 1" "rt_attempt s2 = rt_attempt s + 1"
      "rt_attempt s3 = rt_attempt s + 1"
    using assms by (simp_all add: s1_def s2_def s3_def counted_def)
  have direct: "answered V (Some r, rt_events s1 @ finish_status V m st r) \<and>
      physical_calls (rt_events s1 @ finish_status V m st r) \<le> rt_attempt s + 2" for m st
    using c(1,4) Some by (auto simp: answered_def counted_def)
  have f: "case retry_failed V u r of
      Inl t \<Rightarrow> counted t \<and> rt_attempt t = rt_attempt s + 1 \<and> (rv_persistent V \<or> rt_attempt t \<le> length (retry_delays V))
    | Inr (x, ev) \<Rightarrow> answered V (x, ev) \<and> physical_calls ev \<le> rt_attempt s + 2" if "u \<in> {s1, s2, s3}" for u
    using failed_cases[of u V "rt_kw s" r] that c Some by (auto split: sum.splits)
  have "retry_round V s \<in> {Inr (Some r, rt_events s1 @ finish_status V (rt_attempt s + 1) Recovered r),
      Inr (Some r, rt_events s1 @ finish_status V (rt_attempt s + 1) Cleared r),
      retry_failed V s1 r, retry_failed V s2 r, retry_failed V s3 r}"
    using Some by (simp add: retry_round_def Let_def s1_def[symmetric] s2_def[symmetric] s3_def[symmetric])
       (simp add: s1_def s2_def s3_def)
  then show ?thesis using direct f by auto
qed

definition within_calls :: "retry_env \<Rightarrow> nat \<Rightarrow> retry_result option \<Rightarrow> bool" where
  "within_calls V n res \<longleftrightarrow> (case res of None \<Rightarrow> False | Some (x, ev) \<Rightarrow> answered V (x, ev) \<and> physical_calls ev \<le> n)"

lemma standard_loop:
  assumes "\<not> rv_persistent V" "counted s" "rt_attempt s \<le> length (retry_delays V)"
  shows "within_calls V (length (retry_delays V) + 2) (retry_loop V s)"
  using assms
proof (induction "length (retry_delays V) - rt_attempt s" arbitrary: s rule: less_induct)
  case less
  show ?case
  proof (cases "retry_round V s")
    case (Inr res)
    then show ?thesis
      using round_cases[OF less.prems(2), of V] less.prems(3)
      by (cases res) (simp add: retry_loop.simps[of V s] within_calls_def)
  next
    case (Inl t)
    then have "counted t" "rt_attempt t = rt_attempt s + 1" "rt_attempt t \<le> length (retry_delays V)"
      using round_cases[OF less.prems(2), of V] less.prems(1) by auto
    then show ?thesis
      using less.hyps[of t] less.prems(1) Inl by (simp add: retry_loop.simps[of V s])
  qed
qed

lemma start_counted: "counted \<lparr>rt_attempt = 0, rt_kw = kw, rt_guard = b, rt_key = None, rt_same = 0, rt_events = []\<rparr>"
  by (simp add: counted_def)

text \<open>After \<open>k\<close> rounds the loop has returned, or has made \<open>k\<close> attempts.\<close>

lemma loop_or_reach:
  assumes "counted s"
  shows "within_calls V (rt_attempt s + k + 1) (retry_loop V s)
    \<or> (\<exists>t. retry_loop V s = retry_loop V t \<and> counted t \<and> rt_attempt t = rt_attempt s + k)"
  using assms
proof (induction k)
  case (Suc k)
  then consider "within_calls V (rt_attempt s + k + 1) (retry_loop V s)"
    | t where "retry_loop V s = retry_loop V t" "counted t" "rt_attempt t = rt_attempt s + k" by blast
  then show ?case
  proof cases
    case 1
    then show ?thesis by (auto simp: within_calls_def split: option.splits)
  next
    case 2
    show ?thesis
    proof (cases "retry_round V t")
      case (Inr res)
      then show ?thesis
        using round_cases[OF 2(2), of V] 2(1,3) by (cases res) (auto simp: retry_loop.simps[of V t] within_calls_def)
    next
      case (Inl u)
      then show ?thesis using round_cases[OF 2(2), of V] 2(1,3) by (auto simp: retry_loop.simps[of V t])
    qed
  qed
qed auto

lemma round_key:
  assumes "rv_persistent V" "counted s" "rv_call V (rt_attempt s + 1) (rt_kw s) = Some r" "error_key r = Some e"
    "retry_round V s = Inl t"
  shows "rt_key t = Some e \<and> rt_same t = (if rt_key s = Some e then rt_same s + 1 else 1)
    \<and> rt_same t < PERSISTENT_IDENTICAL_ERROR_LIMIT"
  using assms(1,3,4,5)
  by (auto simp: retry_round_def retry_failed_def Let_def split: if_splits option.splits)

lemma same_run:
  assumes "rv_persistent V" "counted s"
    "\<And>i kw. i < m \<Longrightarrow> \<exists>r. rv_call V (rt_attempt s + i + 1) kw = Some r \<and> error_key r = Some e"
  shows "within_calls V (rt_attempt s + m + 1) (retry_loop V s)
    \<or> (\<exists>t. retry_loop V s = retry_loop V t \<and> counted t \<and> rt_attempt t = rt_attempt s + m
         \<and> (m = 0 \<or> rt_key t = Some e \<and> m \<le> rt_same t \<and> rt_same t < PERSISTENT_IDENTICAL_ERROR_LIMIT))"
  using assms(3)
proof (induction m)
  case 0
  then show ?case using assms(2) by auto
next
  case (Suc m)
  then consider "within_calls V (rt_attempt s + m + 1) (retry_loop V s)"
    | t where "retry_loop V s = retry_loop V t" "counted t" "rt_attempt t = rt_attempt s + m"
      "m = 0 \<or> rt_key t = Some e \<and> m \<le> rt_same t"
    by (metis less_SucI)
  then show ?case
  proof cases
    case 1
    then show ?thesis by (auto simp: within_calls_def split: option.splits)
  next
    case 2
    show ?thesis
    proof (cases "retry_round V t")
      case (Inr res)
      then show ?thesis
        using round_cases[OF 2(2), of V] 2(1,3) by (cases res) (auto simp: retry_loop.simps[of V t] within_calls_def)
    next
      case (Inl u)
      obtain r where r: "rv_call V (rt_attempt t + 1) (rt_kw t) = Some r" "error_key r = Some e"
        using Suc.prems[of m "rt_kw t"] 2(3) by auto
      have u: "counted u" "rt_attempt u = rt_attempt s + Suc m" "retry_loop V s = retry_loop V u"
        using Inl round_cases[OF 2(2), of V] 2(1,3) by (auto simp: retry_loop.simps[of V t])
      show ?thesis
        using round_key[OF assms(1) 2(2) r Inl] u 2(4) by (intro disjI2 exI[of _ u]) auto
    qed
  qed
qed

text \<open>
  Claim C14: in standard mode the retry loop ends whatever the provider answers, streams and raises: it makes at
  most one call more than the retry schedule has delays, plus the one retry without images, and what it
  returns is the answer of its last physical call.\<close>

theorem standard_retry_terminates:
  assumes "\<not> rv_persistent V"
  shows "\<exists>x ev. run_with_retry V kw = Some (x, ev) \<and> answered V (x, ev)
    \<and> physical_calls ev \<le> length (retry_delays V) + 2"
  using standard_loop[OF assms start_counted, of kw "rv_guarded V"]
  by (auto simp: run_with_retry_def within_calls_def split: option.splits)

theorem standard_retry_terminates_witness:
  "\<exists>x ev. run_with_retry (demo_retry False None) demo_kw = Some (x, ev) \<and> physical_calls ev \<le> 5"
  using standard_retry_terminates[of "demo_retry False None" demo_kw]
  by (auto simp: demo_retry_def retry_delays_def CHAT_RETRY_DELAYS_def)

text \<open>
  In persistent mode the loop ends once ten answers in a row carry the same error text: at the latest with
  the tenth of them (or one retry without images), and earlier if a call succeeds.\<close>

lemma persistent_retry_terminates:
  assumes "rv_persistent V"
    "\<And>i kw. i < PERSISTENT_IDENTICAL_ERROR_LIMIT \<Longrightarrow> \<exists>r. rv_call V (k + i + 1) kw = Some r \<and> error_key r = Some e"
  shows "\<exists>x ev. run_with_retry V kw = Some (x, ev) \<and> answered V (x, ev)
    \<and> physical_calls ev \<le> k + PERSISTENT_IDENTICAL_ERROR_LIMIT + 1"
proof -
  let ?s = "\<lparr>rt_attempt = 0, rt_kw = kw, rt_guard = rv_guarded V, rt_key = None, rt_same = 0, rt_events = []\<rparr>"
  consider "within_calls V (k + 1) (retry_loop V ?s)"
    | t where "retry_loop V ?s = retry_loop V t" "counted t" "rt_attempt t = k"
    using loop_or_reach[OF start_counted[of kw "rv_guarded V"], of V k] by auto
  then have "within_calls V (k + PERSISTENT_IDENTICAL_ERROR_LIMIT + 1) (retry_loop V ?s)"
  proof cases
    case 1
    then show ?thesis by (auto simp: within_calls_def split: option.splits)
  next
    case 2
    then show ?thesis
      using same_run[OF assms(1) 2(2), of PERSISTENT_IDENTICAL_ERROR_LIMIT e] assms(2)
      by (auto simp: PERSISTENT_IDENTICAL_ERROR_LIMIT_def)
  qed
  then show ?thesis by (auto simp: run_with_retry_def within_calls_def split: option.splits)
qed

lemma persistent_retry_terminates_witness:
  "\<exists>x ev. run_with_retry (demo_retry True None) demo_kw = Some (x, ev) \<and> physical_calls ev \<le> 11"
proof -
  have "\<exists>r. rv_call (demo_retry True None) (0 + i + 1) kw = Some r \<and> error_key r = Some ''overloaded''" for i kw
    by (simp add: demo_retry_def demo_error_def error_key_def strip_def rstrip_with_def is_space_def lower_def lower_char_def)
  from persistent_retry_terminates[OF _ this, of demo_kw] show ?thesis
    by (auto simp: demo_retry_def PERSISTENT_IDENTICAL_ERROR_LIMIT_def)
qed

text \<open>
  Claim C36: a request capped at one attempt is still sent twice when it fails for good and carries images: the retry
  without images does not look at the cap.\<close>

theorem capped_request_retried:
  assumes "rv_cap V = Some 1" "\<not> rv_persistent V" "rv_call V 1 kw = Some r" "finish_reason r = ''error''"
    "\<not> rv_guarded V" "\<not> is_transient_response r" "has_images (rk_messages kw)" "rk_state kw = None"
    "rv_call V 2 (kw\<lparr>rk_messages := map strip_msg (rk_messages kw)\<rparr>) = Some q"
  shows "\<exists>ev. run_with_retry V kw = Some (Some q, ev) \<and> physical_calls ev = 2"
proof -
  let ?s = "\<lparr>rt_attempt = 0, rt_kw = kw, rt_guard = rv_guarded V, rt_key = None, rt_same = 0, rt_events = []\<rparr>"
  have w: "without_images kw = Some (Some (kw\<lparr>rk_messages := map strip_msg (rk_messages kw)\<rparr>))"
    using assms(7,8) by (cases kw) (simp add: without_images_def strip_image_content_def)
  have "retry_round V ?s = Inr (Some q, [ECall kw, ECall (kw\<lparr>rk_messages := map strip_msg (rk_messages kw)\<rparr>)]
      @ (if finish_reason q \<noteq> ''error'' then [EStripOriginal] else []))"
    using assms w by (simp add: retry_round_def retry_failed_def finish_status_def numeral_2_eq_2)
  then show ?thesis by (simp add: run_with_retry_def retry_loop.simps[of V ?s])
qed

theorem capped_request_retried_witness:
  "\<exists>ev. run_with_retry ((demo_retry False (Some 1))\<lparr>rv_call := \<lambda>n kw. Some (demo_error\<lparr>error_should_retry := Some False\<rparr>)\<rparr>) demo_kw
     = Some (Some (demo_error\<lparr>error_should_retry := Some False\<rparr>), ev) \<and> physical_calls ev = 2"
  by (rule capped_request_retried[where r="demo_error\<lparr>error_should_retry := Some False\<rparr>"])
     (simp_all add: demo_retry_def demo_error_def demo_kw_def is_transient_response_def has_images_def msg_blocks_def)

end
