(* ===== verification/TriggerTypes.thy ===== *)
theory TriggerTypes
  imports CronTypes
begin

text \<open>
  The records of local triggers, \<open>nanobot/triggers/local_types.py\<close>, with their JSON in
  \<open>triggers.json\<close> and in the files of the delivery queue. A field the code stores without
  conversion (\<open>lastStatus\<close>, \<open>lastError\<close>, \<open>error\<close>) is a JSON value. A decoder answers None where the code
  raises. \<open>int(v)\<close> of a value that is no integer and \<open>dict(v)\<close> of a truthy value that is no dict are
  arguments.
\<close>

subsection \<open>Records\<close>

record trigger_run_record =
  tr_run_at_ms :: int
  tr_status :: string
  tr_error :: json

record local_trigger =
  lt_id :: string
  lt_name :: string
  lt_enabled :: bool
  lt_channel :: string
  lt_chat_id :: string
  lt_session_key :: string
  lt_sender_id :: string
  lt_origin :: "(string, json) dict"
  lt_created_at_ms :: int
  lt_updated_at_ms :: int
  lt_last_message :: string
  lt_last_run_at_ms :: "int option"
  lt_last_status :: json
  lt_last_error :: json
  lt_run_history :: "trigger_run_record list"

text \<open>A delivery knows the directory and the name of its file; \<open>path\<close> is None before it is written.\<close>

datatype tdir = Inbox | Processing | Failed

type_synonym tpath = "tdir \<times> string"

record trigger_delivery =
  td_id :: string
  td_trigger_id :: string
  td_content :: string
  td_created_at_ms :: int
  td_attempts :: int
  td_last_error :: json
  td_path :: "tpath option"

record decode_env =
  de_int :: "json \<Rightarrow> int option"
  de_dict :: "json \<Rightarrow> (string, json) dict option"

subsection \<open>Reading\<close>

definition int_or_zero :: "decode_env \<Rightarrow> json \<Rightarrow> int option" where
  "int_or_zero D v = store_int0 (de_int D) v"

definition optional_int :: "decode_env \<Rightarrow> json \<Rightarrow> int option option" where
  "optional_int D v = store_int (de_int D) None v"

text \<open>\<open>v or w\<close>, and the dicts among the elements of an iterated value.\<close>

definition json_or :: "json \<Rightarrow> json \<Rightarrow> json" where
  "json_or v w = (if truthy v then v else w)"

fun iter_dicts :: "json \<Rightarrow> json list option" where
  "iter_dicts (JList xs) = Some (filter is_json_dict xs)"
| "iter_dicts (JDict d) = Some []"
| "iter_dicts (JStr s) = Some []"
| "iter_dicts v = None"

definition dict_of :: "decode_env \<Rightarrow> json \<Rightarrow> (string, json) dict option" where
  "dict_of D v =
     (if \<not> truthy v then Some []
      else (case v of JDict d \<Rightarrow> Some d | _ \<Rightarrow> de_dict D v))"

definition trigger_run_from_dict :: "decode_env \<Rightarrow> json \<Rightarrow> trigger_run_record option" where
  "trigger_run_from_dict D v = do {
     d \<leftarrow> want_dict v;
     t \<leftarrow> int_or_zero D (get_camel_snake d ''runAtMs'' ''run_at_ms'' (JInt 0));
     Some \<lparr>tr_run_at_ms = t,
           tr_status = json_str (json_or (get_key d ''status'' JNull) (JStr ''error'')),
           tr_error = get_key d ''error'' JNull\<rparr> }"

definition raw_history :: "(string, json) dict \<Rightarrow> json list option" where
  "raw_history d =
     iter_dicts (json_or (get_key d ''runHistory'' (get_key d ''run_history'' (JList []))) (JList []))"

definition trigger_from_dict :: "decode_env \<Rightarrow> json \<Rightarrow> local_trigger option" where
  "trigger_from_dict D v = do {
     d \<leftarrow> want_dict v;
     raws \<leftarrow> raw_history d;
     history \<leftarrow> map_all (trigger_run_from_dict D) raws;
     i \<leftarrow> dict_get d ''id'';
     origin \<leftarrow> dict_of D (get_camel_snake d ''originMetadata'' ''origin_metadata'' (JDict []));
     created \<leftarrow> int_or_zero D (get_camel_snake d ''createdAtMs'' ''created_at_ms'' (JInt 0));
     updated \<leftarrow> int_or_zero D (get_camel_snake d ''updatedAtMs'' ''updated_at_ms'' (JInt 0));
     run \<leftarrow> optional_int D (get_camel_snake d ''lastRunAtMs'' ''last_run_at_ms'' JNull);
     Some \<lparr>lt_id = json_str i,
           lt_name = json_str (json_or (get_key d ''name'' JNull) i),
           lt_enabled = truthy (get_key d ''enabled'' (JBool True)),
           lt_channel = json_str (json_or (get_key d ''channel'' JNull) (JStr [])),
           lt_chat_id = json_str (get_camel_snake d ''chatId'' ''chat_id'' (JStr [])),
           lt_session_key = json_str (get_camel_snake d ''sessionKey'' ''session_key'' (JStr [])),
           lt_sender_id = json_str (json_or (get_camel_snake d ''senderId'' ''sender_id'' (JStr ''trigger''))
                                            (JStr ''trigger'')),
           lt_origin = origin,
           lt_created_at_ms = created,
           lt_updated_at_ms = updated,
           lt_last_message = json_str (json_or (get_camel_snake d ''lastMessage'' ''last_message'' (JStr []))
                                               (JStr [])),
           lt_last_run_at_ms = run,
           lt_last_status = get_camel_snake d ''lastStatus'' ''last_status'' JNull,
           lt_last_error = get_camel_snake d ''lastError'' ''last_error'' JNull,
           lt_run_history = history\<rparr> }"

definition delivery_from_dict :: "decode_env \<Rightarrow> tpath option \<Rightarrow> json \<Rightarrow> trigger_delivery option" where
  "delivery_from_dict D p v = do {
     d \<leftarrow> want_dict v;
     i \<leftarrow> dict_get d ''id'';
     created \<leftarrow> int_or_zero D (get_camel_snake d ''createdAtMs'' ''created_at_ms'' (JInt 0));
     attempts \<leftarrow> int_or_zero D (get_key d ''attempts'' (JInt 0));
     Some \<lparr>td_id = json_str i,
           td_trigger_id = json_str (get_camel_snake d ''triggerId'' ''trigger_id'' (JStr [])),
           td_content = json_str (json_or (get_key d ''content'' JNull) (JStr [])),
           td_created_at_ms = created,
           td_attempts = attempts,
           td_last_error = json_or (get_key d ''lastError'' JNull) (get_key d ''last_error'' JNull),
           td_path = p\<rparr> }"

subsection \<open>Writing\<close>

definition trigger_run_to_dict :: "trigger_run_record \<Rightarrow> json" where
  "trigger_run_to_dict r = JDict [(''runAtMs'', JInt (tr_run_at_ms r)), (''status'', JStr (tr_status r)),
     (''error'', tr_error r)]"

definition trigger_to_dict :: "local_trigger \<Rightarrow> json" where
  "trigger_to_dict t = JDict [(''id'', JStr (lt_id t)), (''name'', JStr (lt_name t)),
     (''enabled'', JBool (lt_enabled t)), (''channel'', JStr (lt_channel t)),
     (''chatId'', JStr (lt_chat_id t)), (''sessionKey'', JStr (lt_session_key t)),
     (''senderId'', JStr (lt_sender_id t)), (''originMetadata'', JDict (lt_origin t)),
     (''createdAtMs'', JInt (lt_created_at_ms t)), (''updatedAtMs'', JInt (lt_updated_at_ms t)),
     (''lastMessage'', JStr (lt_last_message t)), (''lastRunAtMs'', opt_json JInt (lt_last_run_at_ms t)),
     (''lastStatus'', lt_last_status t), (''lastError'', lt_last_error t),
     (''runHistory'', JList (map trigger_run_to_dict (lt_run_history t)))]"

definition delivery_to_dict :: "trigger_delivery \<Rightarrow> json" where
  "delivery_to_dict d = JDict [(''id'', JStr (td_id d)), (''triggerId'', JStr (td_trigger_id d)),
     (''content'', JStr (td_content d)), (''createdAtMs'', JInt (td_created_at_ms d)),
     (''attempts'', JInt (td_attempts d)), (''lastError'', td_last_error d)]"

subsection \<open>What is written is read back\<close>

text \<open>
  An empty status in a run record, an empty name or sender are the only values replaced on reading; the store
  writes none of them.
\<close>

definition trigger_run_full :: "trigger_run_record \<Rightarrow> bool" where
  "trigger_run_full r \<longleftrightarrow> tr_status r \<noteq> []"

definition trigger_full :: "local_trigger \<Rightarrow> bool" where
  "trigger_full t \<longleftrightarrow> lt_name t \<noteq> [] \<and> lt_sender_id t \<noteq> [] \<and> list_all trigger_run_full (lt_run_history t)"

lemma trigger_run_roundtrip:
  "trigger_run_full r \<Longrightarrow> trigger_run_from_dict D (trigger_run_to_dict r) = Some r"
  by (simp add: trigger_run_full_def trigger_run_from_dict_def trigger_run_to_dict_def get_camel_snake_def
      get_key_def json_or_def int_or_zero_def)

lemma history_roundtrip:
  "list_all trigger_run_full rs \<Longrightarrow> map_all (trigger_run_from_dict D) (map trigger_run_to_dict rs) = Some rs"
  by (induction rs) (simp_all add: trigger_run_roundtrip)

lemma run_dicts_are_dicts: "filter is_json_dict (map trigger_run_to_dict rs) = map trigger_run_to_dict rs"
  by (induction rs) (simp_all add: is_json_dict_def trigger_run_to_dict_def)

lemma optional_int_opt_json [simp]: "optional_int D (opt_json JInt x) = Some x"
  by (cases x) (simp_all add: optional_int_def)

lemma trigger_roundtrip:
  assumes "trigger_full t"
  shows "trigger_from_dict D (trigger_to_dict t) = Some t"
proof -
  have h: "map_all (trigger_run_from_dict D) (filter is_json_dict (map trigger_run_to_dict (lt_run_history t)))
             = Some (lt_run_history t)"
    using assms by (simp add: trigger_full_def run_dicts_are_dicts history_roundtrip)
  have r: "raw_history (case trigger_to_dict t of JDict d \<Rightarrow> d)
             = Some (filter is_json_dict (map trigger_run_to_dict (lt_run_history t)))"
    by (simp add: raw_history_def trigger_to_dict_def get_key_def json_or_def)
  show ?thesis
    using h r assms
    by (simp add: trigger_from_dict_def trigger_to_dict_def trigger_full_def get_camel_snake_def get_key_def
        json_or_def int_or_zero_def dict_of_def)
qed

text \<open>A delivery comes back with an empty error read as none.\<close>

definition norm_delivery :: "tpath option \<Rightarrow> trigger_delivery \<Rightarrow> trigger_delivery" where
  "norm_delivery p d = d\<lparr>td_last_error := json_or (td_last_error d) JNull, td_path := p\<rparr>"

lemma delivery_roundtrip: "delivery_from_dict D p (delivery_to_dict d) = Some (norm_delivery p d)"
  by (cases "td_content d")
     (simp_all add: delivery_from_dict_def delivery_to_dict_def get_camel_snake_def get_key_def json_or_def
       int_or_zero_def norm_delivery_def)

end
