(* ===== verification/Triggers.thy ===== *)
theory Triggers
  imports TriggerTypes
begin

text \<open>
  The store of local triggers and its delivery queue, \<open>nanobot/triggers/local_store.py\<close>, with the run
  records of \<open>nanobot/utils/run_records.py\<close>. The state holds what the files under \<open>triggers/\<close> hold:
  \<open>triggers.json\<close>, its backups, the delivery files by directory and name, the run records by name. A file is
  unreadable text or a JSON value. Every operation runs under the file lock, so histories are lists of
  operations; what the operating system and the clock do in one operation is its environment. An atomic
  write is fine, fails before the rename, or fails after it (the directory \<open>fsync\<close>): then the new content stands although
  the operation raises. The rendering of a value that JSON does not encode is a failure before the rename.
\<close>

subsection \<open>Files and environment\<close>

datatype tfile = Garbled | Holds json

datatype tsite = StoreFile | DeliveryFile tpath | RunFile string

datatype effect = Fine | Early | Late

record trig_env =
  te_ready :: bool
  te_now :: int
  te_later :: int
  te_decode :: decode_env
  te_read :: "tsite \<Rightarrow> bool"
  te_write :: "tsite \<Rightarrow> effect"
  te_move :: "tsite \<Rightarrow> bool"
  te_unlink :: "tsite \<Rightarrow> bool"
  te_hex :: string
  te_uuid :: string
  te_suffixes :: "string list"

datatype trig_error =
    ValueErr string
  | TypeErr
  | OSErr
  | StoreUnloadable
  | NoUniqueId
  | TriggerNotFound string
  | TriggerDisabled string

record tstore =
  ts_store :: "tfile option"
  ts_backups :: "tfile list"
  ts_files :: "(tpath, tfile) dict"
  ts_runs :: "(string, json) dict"

definition empty_store :: tstore where
  "empty_store = \<lparr>ts_store = None, ts_backups = [], ts_files = [], ts_runs = []\<rparr>"

definition MAX_RUN_HISTORY :: nat where "MAX_RUN_HISTORY = 20"
definition MAX_DELIVERY_ATTEMPTS :: int where "MAX_DELIVERY_ATTEMPTS = 10"
definition RUN_RECORD_TEXT_MAX_CHARS :: nat where "RUN_RECORD_TEXT_MAX_CHARS = 4000"
definition PROCESSING_RECOVERY_ERROR :: string where
  "PROCESSING_RECOVERY_ERROR = ''delivery was recovered from interrupted processing''"

type_synonym 'a tres = "(trig_error + 'a) \<times> tstore"

definition ensure_dirs :: "trig_env \<Rightarrow> tstore \<Rightarrow> unit tres" where
  "ensure_dirs E s = (if te_ready E then Inr () else Inl OSErr, s)"

definition put_file :: "tpath \<Rightarrow> tfile \<Rightarrow> tstore \<Rightarrow> tstore" where
  "put_file p c s = s\<lparr>ts_files := dict_set (ts_files s) p c\<rparr>"

definition del_file :: "tpath \<Rightarrow> tstore \<Rightarrow> tstore" where
  "del_file p s = s\<lparr>ts_files := dict_del (ts_files s) p\<rparr>"

definition atomically :: "effect \<Rightarrow> (tstore \<Rightarrow> tstore) \<Rightarrow> tstore \<Rightarrow> unit tres" where
  "atomically w f s =
     (case w of Fine \<Rightarrow> (Inr (), f s) | Early \<Rightarrow> (Inl OSErr, s) | Late \<Rightarrow> (Inl OSErr, f s))"

definition write_delivery :: "trig_env \<Rightarrow> tpath \<Rightarrow> json \<Rightarrow> tstore \<Rightarrow> unit tres" where
  "write_delivery E p v s = atomically (te_write E (DeliveryFile p)) (put_file p (Holds v)) s"

text \<open>\<open>path.unlink(missing_ok=True)\<close> and \<open>os.replace(path, target)\<close> of a delivery file.\<close>

definition unlink_file :: "trig_env \<Rightarrow> tpath \<Rightarrow> tstore \<Rightarrow> unit tres" where
  "unlink_file E p s =
     (if te_unlink E (DeliveryFile p) then (Inr (), del_file p s) else (Inl OSErr, s))"

definition replace_file :: "trig_env \<Rightarrow> tpath \<Rightarrow> tpath \<Rightarrow> tstore \<Rightarrow> unit tres" where
  "replace_file E p q s =
     (case dict_get (ts_files s) p of
        Some c \<Rightarrow> (if te_move E (DeliveryFile p) then (Inr (), put_file q c (del_file p s)) else (Inl OSErr, s))
      | None \<Rightarrow> (Inl OSErr, s))"

text \<open>The parsed content of a file, or None where reading or parsing raises.\<close>

definition read_json :: "trig_env \<Rightarrow> tpath \<Rightarrow> tstore \<Rightarrow> json option" where
  "read_json E p s =
     (case dict_get (ts_files s) p of
        Some (Holds v) \<Rightarrow> (if te_read E (DeliveryFile p) then Some v else None)
      | _ \<Rightarrow> None)"

subsection \<open>\<open>triggers.json\<close>\<close>

definition decode_triggers :: "decode_env \<Rightarrow> json \<Rightarrow> local_trigger list option" where
  "decode_triggers D v = do {
     d \<leftarrow> want_dict v;
     raws \<leftarrow> iter_dicts (get_key d ''triggers'' (JList []));
     map_all (trigger_from_dict D) raws }"

definition load_triggers :: "trig_env \<Rightarrow> tstore \<Rightarrow> local_trigger list tres" where
  "load_triggers E s =
     (case ts_store s of
        None \<Rightarrow> (Inr [], s)
      | Some f \<Rightarrow>
          (case (if te_read E StoreFile then (case f of Holds v \<Rightarrow> decode_triggers (te_decode E) v | Garbled \<Rightarrow> None)
                 else None) of
             Some ts \<Rightarrow> (Inr ts, s)
           | None \<Rightarrow>
               (Inl StoreUnloadable,
                if te_move E StoreFile then s\<lparr>ts_store := None, ts_backups := ts_backups s @ [f]\<rparr> else s)))"

definition triggers_payload :: "local_trigger list \<Rightarrow> json" where
  "triggers_payload ts = JDict [(''version'', JInt 1), (''triggers'', JList (map trigger_to_dict ts))]"

definition save_triggers :: "trig_env \<Rightarrow> local_trigger list \<Rightarrow> tstore \<Rightarrow> unit tres" where
  "save_triggers E ts s =
     atomically (te_write E StoreFile) (\<lambda>s. s\<lparr>ts_store := Some (Holds (triggers_payload ts))\<rparr>) s"

definition find_trigger :: "local_trigger list \<Rightarrow> string \<Rightarrow> local_trigger option" where
  "find_trigger ts i = find (\<lambda>t. lt_id t = i) ts"

text \<open>A found trigger is changed in place: the first of the list with the identifier.\<close>

fun put_trigger :: "string \<Rightarrow> local_trigger \<Rightarrow> local_trigger list \<Rightarrow> local_trigger list" where
  "put_trigger i t' [] = []"
| "put_trigger i t' (t # ts) = (if lt_id t = i then t' # ts else t # put_trigger i t' ts)"

definition clean_name :: "string \<Rightarrow> string" where
  "clean_name s =
     (let stripped = join_with '' '' (split_ws [] (strip s))
      in take 120 (if stripped = [] then ''Local trigger'' else stripped))"

definition new_trigger_id :: "string list \<Rightarrow> string list \<Rightarrow> string option" where
  "new_trigger_id sfx existing =
     find (\<lambda>c. c \<notin> set existing) (map (\<lambda>x. ''trg_'' @ x) (take 100 sfx))"

definition create_trigger ::
  "trig_env \<Rightarrow> string \<Rightarrow> string \<Rightarrow> string \<Rightarrow> string \<Rightarrow> string \<Rightarrow> (string, json) dict option \<Rightarrow> tstore
     \<Rightarrow> local_trigger tres" where
  "create_trigger E name channel chat key sender origin s =
     (if strip channel = [] \<or> strip chat = [] \<or> strip key = []
      then (Inl (ValueErr ''channel, chat_id, and session_key are required''), s)
      else and_then (ensure_dirs E s) (\<lambda>_ s.
        and_then (load_triggers E s) (\<lambda>ts s.
          (case new_trigger_id (te_suffixes E) (map lt_id ts) of
             None \<Rightarrow> (Inl NoUniqueId, s)
           | Some i \<Rightarrow>
               (let t = \<lparr>lt_id = i, lt_name = clean_name name, lt_enabled = True, lt_channel = strip channel,
                         lt_chat_id = strip chat, lt_session_key = strip key,
                         lt_sender_id = (if strip sender = [] then ''trigger'' else strip sender),
                         lt_origin = (case origin of None \<Rightarrow> [] | Some m \<Rightarrow> m),
                         lt_created_at_ms = te_now E, lt_updated_at_ms = te_now E, lt_last_message = [],
                         lt_last_run_at_ms = None, lt_last_status = JNull, lt_last_error = JNull,
                         lt_run_history = []\<rparr>
                in and_then (save_triggers E (ts @ [t]) s) (\<lambda>_ s. (Inr t, s)))))))"

text \<open>
  \<open>sorted(\<dots>, key=(updated_at_ms, id), reverse=True)\<close>: stable sorting by the second component, then by the
  first, of the reversed list, reversed back, as Python does to keep equal elements in order.
\<close>

definition sort_triggers :: "local_trigger list \<Rightarrow> local_trigger list" where
  "sort_triggers ts = rev (sort_key lt_updated_at_ms (sort_key lt_id (rev ts)))"

definition list_triggers :: "trig_env \<Rightarrow> bool \<Rightarrow> tstore \<Rightarrow> local_trigger list tres" where
  "list_triggers E disabled s =
     and_then (ensure_dirs E s) (\<lambda>_ s.
       and_then (load_triggers E s) (\<lambda>ts s.
         (Inr (sort_triggers (if disabled then ts else filter lt_enabled ts)), s)))"

definition list_for_session :: "trig_env \<Rightarrow> string \<Rightarrow> bool \<Rightarrow> tstore \<Rightarrow> local_trigger list tres" where
  "list_for_session E key disabled s =
     and_then (list_triggers E disabled s) (\<lambda>ts s. (Inr (filter (\<lambda>t. lt_session_key t = key) ts), s))"

definition get_trigger :: "trig_env \<Rightarrow> string \<Rightarrow> tstore \<Rightarrow> local_trigger option tres" where
  "get_trigger E i s =
     and_then (ensure_dirs E s) (\<lambda>_ s. and_then (load_triggers E s) (\<lambda>ts s. (Inr (find_trigger ts i), s)))"

text \<open>What \<open>enable\<close>, \<open>update\<close> and \<open>record_delivery\<close> share: load, find, change, save.\<close>

definition change_trigger ::
  "trig_env \<Rightarrow> string \<Rightarrow> (local_trigger \<Rightarrow> local_trigger) \<Rightarrow> tstore \<Rightarrow> local_trigger option tres" where
  "change_trigger E i f s =
     and_then (ensure_dirs E s) (\<lambda>_ s.
       and_then (load_triggers E s) (\<lambda>ts s.
         (case find_trigger ts i of
            None \<Rightarrow> (Inr None, s)
          | Some t \<Rightarrow> and_then (save_triggers E (put_trigger i (f t) ts) s) (\<lambda>_ s. (Inr (Some (f t)), s)))))"

definition enable_trigger :: "trig_env \<Rightarrow> string \<Rightarrow> bool \<Rightarrow> tstore \<Rightarrow> local_trigger option tres" where
  "enable_trigger E i on s =
     change_trigger E i (\<lambda>t. t\<lparr>lt_enabled := on, lt_updated_at_ms := te_now E\<rparr>) s"

definition update_trigger :: "trig_env \<Rightarrow> string \<Rightarrow> string option \<Rightarrow> tstore \<Rightarrow> local_trigger option tres" where
  "update_trigger E i name s =
     change_trigger E i
       (\<lambda>t. (case name of None \<Rightarrow> t | Some n \<Rightarrow> t\<lparr>lt_name := clean_name n\<rparr>)\<lparr>lt_updated_at_ms := te_now E\<rparr>) s"

definition run_entry :: "int \<Rightarrow> string \<Rightarrow> string option \<Rightarrow> trigger_run_record" where
  "run_entry at status err =
     \<lparr>tr_run_at_ms = at, tr_status = (if status = ''ok'' then ''ok'' else ''error''),
      tr_error = (if status = ''ok'' then JNull
                  else JStr (case err of Some (c # e) \<Rightarrow> c # e | _ \<Rightarrow> ''delivery failed''))\<rparr>"

text \<open>\<open>history[-20:]\<close>.\<close>

definition last_runs :: "trigger_run_record list \<Rightarrow> trigger_run_record list" where
  "last_runs rs = drop (length rs - MAX_RUN_HISTORY) rs"

definition record_delivery ::
  "trig_env \<Rightarrow> string \<Rightarrow> string \<Rightarrow> string option \<Rightarrow> int option \<Rightarrow> tstore \<Rightarrow> unit tres" where
  "record_delivery E i status err at s =
     (let run_at = (case at of Some n \<Rightarrow> if n = 0 then te_now E else n | None \<Rightarrow> te_now E);
          r = run_entry run_at status err
      in and_then
           (change_trigger E i
             (\<lambda>t. t\<lparr>lt_last_run_at_ms := Some run_at, lt_last_status := JStr (tr_status r),
                    lt_last_error := tr_error r, lt_updated_at_ms := te_later E,
                    lt_run_history := last_runs (lt_run_history t @ [r])\<rparr>) s)
           (\<lambda>_ s. (Inr (), s)))"

subsection \<open>Run records\<close>

definition safe_run_record_name :: "string \<Rightarrow> string" where
  "safe_run_record_name i =
     map (\<lambda>c. if is_alnum c \<or> c = CHR ''.'' \<or> c = CHR ''_'' \<or> c = CHR ''-'' then c else CHR ''_'') i"

definition run_file_name :: "trig_env \<Rightarrow> string \<Rightarrow> string" where
  "run_file_name E i =
     (if safe_run_record_name i = [] then te_uuid E else safe_run_record_name i) @ ''.json''"

text \<open>The path of the record, as its name.\<close>

definition write_run_record :: "trig_env \<Rightarrow> string \<Rightarrow> (string, json) dict \<Rightarrow> tstore \<Rightarrow> string tres" where
  "write_run_record E i r s =
     (let n = run_file_name E i;
          v = JDict (dict_set (dict_set r ''run_id'' (JStr i)) ''updated_at_ms'' (JInt (te_later E)))
      in and_then (ensure_dirs E s) (\<lambda>_ s.
           and_then (atomically (te_write E (RunFile n)) (\<lambda>s. s\<lparr>ts_runs := dict_set (ts_runs s) n v\<rparr>) s)
             (\<lambda>_ s. (Inr n, s))))"

definition truncate_text :: "string \<Rightarrow> nat \<Rightarrow> string" where
  "truncate_text t n = (if n = 0 \<or> length t \<le> n then t else take n t @ CHR 0x0A # ''... (truncated)'')"

definition run_record_text :: "string \<Rightarrow> string" where
  "run_record_text t = truncate_text t RUN_RECORD_TEXT_MAX_CHARS"

text \<open>The same on a stored error, which may be any JSON value: a number has no \<open>len\<close>, a long list does not
  concatenate with a text.\<close>

fun run_record_json :: "json \<Rightarrow> json option" where
  "run_record_json (JStr t) = Some (JStr (run_record_text t))"
| "run_record_json (JList xs) = (if length xs \<le> RUN_RECORD_TEXT_MAX_CHARS then Some (JList xs) else None)"
| "run_record_json (JDict d) = (if length d \<le> RUN_RECORD_TEXT_MAX_CHARS then Some (JDict d) else None)"
| "run_record_json v = None"

definition delivery_run_record :: "trigger_delivery \<Rightarrow> local_trigger option \<Rightarrow> (string, json) dict option" where
  "delivery_run_record d t =
     (let base = [(''kind'', JStr ''local_trigger''), (''trigger_id'', JStr (td_trigger_id d)),
                  (''delivery_id'', JStr (td_id d)), (''content'', JStr (run_record_text (td_content d))),
                  (''created_at_ms'', JInt (td_created_at_ms d)), (''attempts'', JInt (td_attempts d))];
          of_trigger = (case t of None \<Rightarrow> [] | Some t \<Rightarrow>
             [(''trigger_name'', JStr (lt_name t)), (''session_key'', JStr (lt_session_key t)),
              (''channel'', JStr (lt_channel t)), (''chat_id'', JStr (lt_chat_id t)),
              (''sender_id'', JStr (lt_sender_id t)), (''origin_metadata'', JDict (lt_origin t))])
      in if truthy (td_last_error d)
         then map_option (\<lambda>e. base @ [(''last_error'', e)] @ of_trigger) (run_record_json (td_last_error d))
         else Some (base @ of_trigger))"

definition write_delivery_run_record ::
  "trig_env \<Rightarrow> trigger_delivery \<Rightarrow> string \<Rightarrow> local_trigger option \<Rightarrow> string option \<Rightarrow> string option \<Rightarrow> tstore
     \<Rightarrow> string tres" where
  "write_delivery_run_record E d status t err response s =
     and_then (case t of Some t \<Rightarrow> (Inr (Some t), s) | None \<Rightarrow> get_trigger E (td_trigger_id d) s) (\<lambda>t s.
       (case delivery_run_record d t of
          None \<Rightarrow> (Inl TypeErr, s)
        | Some r \<Rightarrow>
            write_run_record E (td_id d)
              (r @ [(''status'', JStr status)]
                 @ (case err of Some (c # e) \<Rightarrow> [(''error'', JStr (run_record_text (c # e)))] | _ \<Rightarrow> [])
                 @ (case response of Some x \<Rightarrow> [(''response'', JStr (run_record_text x))] | None \<Rightarrow> [])) s))"

subsection \<open>The delivery queue\<close>

definition delivery_payload :: "trigger_delivery \<Rightarrow> json" where
  "delivery_payload d = JDict [(''version'', JInt 1), (''delivery'', delivery_to_dict d)]"

text \<open>\<open>from_dict(data.get("delivery", data))\<close>.\<close>

definition parse_delivery :: "decode_env \<Rightarrow> tpath \<Rightarrow> json \<Rightarrow> trigger_delivery option" where
  "parse_delivery D p v = do {
     d \<leftarrow> want_dict v;
     delivery_from_dict D (Some p) (get_key d ''delivery'' v) }"

definition delivery_file_name :: "int \<Rightarrow> string \<Rightarrow> string" where
  "delivery_file_name now i = int_str now @ ''-'' @ i @ ''.json''"

text \<open>What \<open>except BaseException\<close> undoes; a failing \<open>unlink\<close> raises in its turn.\<close>

definition enqueue_rollback :: "trig_env \<Rightarrow> tpath \<Rightarrow> string option \<Rightarrow> trig_error \<Rightarrow> tstore \<Rightarrow> 'a tres" where
  "enqueue_rollback E p run e s =
     and_then (unlink_file E p s) (\<lambda>_ s.
       (case run of
          None \<Rightarrow> (Inl e, s)
        | Some n \<Rightarrow> (if te_unlink E (RunFile n) then (Inl e, s\<lparr>ts_runs := dict_del (ts_runs s) n\<rparr>)
                     else (Inl OSErr, s))))"

definition enqueue_record ::
  "trig_env \<Rightarrow> trigger_delivery \<Rightarrow> tpath \<Rightarrow> local_trigger \<Rightarrow> local_trigger list \<Rightarrow> tstore \<Rightarrow> trigger_delivery tres" where
  "enqueue_record E d p t ts s =
     (case write_delivery_run_record E d ''queued'' (Some t) None None s of
        (Inl e, s) \<Rightarrow> enqueue_rollback E p None e s
      | (Inr n, s) \<Rightarrow>
          (case save_triggers E
                  (put_trigger (td_trigger_id d)
                    (t\<lparr>lt_last_message := run_record_text (td_content d),
                       lt_updated_at_ms := td_created_at_ms d\<rparr>) ts) s of
             (Inl e, s) \<Rightarrow> enqueue_rollback E p (Some n) e s
           | (Inr _, s) \<Rightarrow> (Inr d, s)))"

definition enqueue :: "trig_env \<Rightarrow> string \<Rightarrow> string \<Rightarrow> tstore \<Rightarrow> trigger_delivery tres" where
  "enqueue E i0 content s =
     (let i = strip i0 in
      if strip content = [] then (Inl (ValueErr ''trigger message is required''), s)
      else and_then (ensure_dirs E s) (\<lambda>_ s.
        and_then (load_triggers E s) (\<lambda>ts s.
          (case find_trigger ts i of
             None \<Rightarrow> (Inl (TriggerNotFound i), s)
           | Some t \<Rightarrow>
               if \<not> lt_enabled t then (Inl (TriggerDisabled i), s)
               else (let di = ''tdl_'' @ te_hex E;
                         p = (Inbox, delivery_file_name (te_now E) di);
                         d = \<lparr>td_id = di, td_trigger_id = i, td_content = content,
                              td_created_at_ms = te_now E, td_attempts = 0, td_last_error = JNull,
                              td_path = Some p\<rparr>
                     in and_then (write_delivery E p (delivery_payload d) s)
                          (\<lambda>_ s. enqueue_record E d p t ts s))))))"

text \<open>\<open>sorted(directory.glob("*.json"))\<close>, as names.\<close>

definition queue_names :: "tdir \<Rightarrow> tstore \<Rightarrow> string list" where
  "queue_names dir s =
     sort (filter (suffix ''.json'') (map (snd \<circ> fst) (filter (\<lambda>(p, _). fst p = dir) (ts_files s))))"

definition move_bad :: "trig_env \<Rightarrow> tpath \<Rightarrow> tstore \<Rightarrow> tstore" where
  "move_bad E p s = snd (replace_file E p (Failed, snd p @ ''.bad'') s)"

fun claim_loop ::
  "trig_env \<Rightarrow> string list \<Rightarrow> trigger_delivery list \<Rightarrow> tstore \<Rightarrow> trigger_delivery list tres" where
  "claim_loop E [] acc s = (Inr acc, s)"
| "claim_loop E (n # ns) acc s =
     (case read_json E (Inbox, n) s \<bind> parse_delivery (te_decode E) (Processing, n) of
        None \<Rightarrow> claim_loop E ns acc (move_bad E (Inbox, n) s)
      | Some d \<Rightarrow>
          and_then (replace_file E (Inbox, n) (Processing, n) s) (\<lambda>_ s. claim_loop E ns (acc @ [d]) s))"

definition claim_deliveries :: "trig_env \<Rightarrow> int \<Rightarrow> tstore \<Rightarrow> trigger_delivery list tres" where
  "claim_deliveries E limit s =
     and_then (ensure_dirs E s) (\<lambda>_ s. claim_loop E (take (nat limit) (queue_names Inbox s)) [] s)"

text \<open>The delivery object is changed too; it is returned beside the result.\<close>

definition bump :: "trigger_delivery \<Rightarrow> string \<Rightarrow> trigger_delivery" where
  "bump d err = d\<lparr>td_attempts := td_attempts d + 1, td_last_error := JStr err\<rparr>"

definition retry_unlocked :: "trig_env \<Rightarrow> trigger_delivery \<Rightarrow> string \<Rightarrow> tstore \<Rightarrow> bool tres" where
  "retry_unlocked E d err s =
     (case td_path d of
        None \<Rightarrow> (Inr False, s)
      | Some p \<Rightarrow>
          (let again = td_attempts d + 1 < MAX_DELIVERY_ATTEMPTS;
               target = (if again then Inbox else Failed, snd p)
           in and_then (write_delivery E target (delivery_payload (bump d err)) s) (\<lambda>_ s.
                and_then (unlink_file E p s) (\<lambda>_ s. (Inr again, s)))))"

definition retry_delivery ::
  "trig_env \<Rightarrow> trigger_delivery \<Rightarrow> string \<Rightarrow> tstore \<Rightarrow> bool tres \<times> trigger_delivery" where
  "retry_delivery E d err s =
     (if td_path d = None then ((Inr False, s), d)
      else if \<not> te_ready E then ((Inl OSErr, s), d)
      else (retry_unlocked E d err s, bump d err))"

fun recover_loop :: "trig_env \<Rightarrow> string list \<Rightarrow> nat \<Rightarrow> tstore \<Rightarrow> nat tres" where
  "recover_loop E [] k s = (Inr k, s)"
| "recover_loop E (n # ns) k s =
     (case read_json E (Processing, n) s \<bind> parse_delivery (te_decode E) (Processing, n) of
        None \<Rightarrow> recover_loop E ns k (move_bad E (Processing, n) s)
      | Some d \<Rightarrow>
          and_then (retry_unlocked E d PROCESSING_RECOVERY_ERROR s) (\<lambda>again s.
            recover_loop E ns (if again then k + 1 else k) s))"

definition recover_processing_deliveries :: "trig_env \<Rightarrow> tstore \<Rightarrow> nat tres" where
  "recover_processing_deliveries E s =
     and_then (ensure_dirs E s) (\<lambda>_ s. recover_loop E (queue_names Processing s) 0 s)"

definition complete_delivery :: "trig_env \<Rightarrow> trigger_delivery \<Rightarrow> tstore \<Rightarrow> unit tres" where
  "complete_delivery E d s =
     (case td_path d of
        None \<Rightarrow> (Inr (), s)
      | Some p \<Rightarrow> and_then (ensure_dirs E s) (\<lambda>_ s. unlink_file E p s))"

definition delivery_file_trigger_id :: "trig_env \<Rightarrow> tpath \<Rightarrow> tstore \<Rightarrow> string option" where
  "delivery_file_trigger_id E p s =
     (case read_json E p s of
        Some (JDict payload) \<Rightarrow>
          (case get_key payload ''delivery'' (JDict payload) of
             JDict d \<Rightarrow>
               (let i = get_camel_snake d ''triggerId'' ''trigger_id'' (JStr [])
                in if truthy i then Some (json_str i) else None)
           | _ \<Rightarrow> None)
      | _ \<Rightarrow> None)"

text \<open>A file that cannot be deleted is logged and left.\<close>

definition delete_delivery_files :: "trig_env \<Rightarrow> string \<Rightarrow> tstore \<Rightarrow> tstore" where
  "delete_delivery_files E i s =
     s\<lparr>ts_files := filter (\<lambda>(p, _). \<not> (delivery_file_trigger_id E p s = Some i \<and> te_unlink E (DeliveryFile p)))
                     (ts_files s)\<rparr>"

definition delete_trigger :: "trig_env \<Rightarrow> string \<Rightarrow> tstore \<Rightarrow> bool tres" where
  "delete_trigger E i0 s =
     (let i = strip i0 in
      and_then (ensure_dirs E s) (\<lambda>_ s.
        and_then (load_triggers E s) (\<lambda>ts s.
          (let remaining = filter (\<lambda>t. lt_id t \<noteq> i) ts in
           if length remaining = length ts then (Inr False, s)
           else and_then (save_triggers E remaining s) (\<lambda>_ s. (Inr True, delete_delivery_files E i s))))))"

end
