(* ===== verification/TriggerRunner.thy ===== *)
theory TriggerRunner
  imports Triggers
begin

text \<open>
  The delivery loop of the gateway, \<open>nanobot/triggers/local_runner.py\<close>, over the store of Triggers. The
  coroutine gives up control only where it sleeps and where it awaits \<open>submit_turn\<close>; the code between two such
  points is one step of the gateway, and any operation on the store may come between two steps. The text of
  a store exception, the outcome of a turn and which channels are enabled are arguments; each store
  operation of a step has an environment of its own. A process that dies ends the loop in the state it is in.
\<close>

subsection \<open>One delivery\<close>

definition LOCAL_TRIGGER_META :: string where "LOCAL_TRIGGER_META = ''_local_trigger''"
definition WEBUI_TURN_METADATA_KEY :: string where "WEBUI_TURN_METADATA_KEY = ''webui_turn_id''"
definition WEBUI_MESSAGE_SOURCE_METADATA_KEY :: string where
  "WEBUI_MESSAGE_SOURCE_METADATA_KEY = ''_webui_message_source''"

record inbound_message =
  im_channel :: string
  im_sender_id :: string
  im_chat_id :: string
  im_content :: string
  im_metadata :: "(string, json) dict"
  im_session_key :: string

text \<open>What ends the \<open>try\<close> block: the class of the exception, its text, the name of its class.\<close>

datatype exc_class = CancelledExc | TerminalExc | AutomationExc | OtherExc

datatype exc = Exc exc_class string string

fun exc_text :: "exc \<Rightarrow> string" where
  "exc_text (Exc k msg cls) = (if msg = [] then cls else msg)"

text \<open>\<open>submit_turn\<close> answers with the content of a response, with no response, or raises.\<close>

datatype turn_outcome = Replied "string option" | Raised exc

record queue_env =
  qe_op :: "nat \<Rightarrow> trig_env"
  qe_channel_enabled :: "string \<Rightarrow> bool"
  qe_hex :: string
  qe_text :: "trig_error \<Rightarrow> string \<times> string"

definition store_exc :: "queue_env \<Rightarrow> trig_error \<Rightarrow> exc" where
  "store_exc Q e = Exc OtherExc (fst (qe_text Q e)) (snd (qe_text Q e))"

definition history_content :: "local_trigger \<Rightarrow> trigger_delivery \<Rightarrow> string" where
  "history_content t d =
     ''Local trigger received: '' @ (if lt_name t = [] then lt_id t else strip (lt_name t))
       @ [CHR 0x0A, CHR 0x0A] @ td_content d"

definition delivery_metadata :: "queue_env \<Rightarrow> local_trigger \<Rightarrow> trigger_delivery \<Rightarrow> (string, json) dict" where
  "delivery_metadata Q t d =
     (let m = dict_set (lt_origin t) LOCAL_TRIGGER_META
                (JDict [(''trigger_id'', JStr (lt_id t)), (''trigger_name'', JStr (lt_name t)),
                        (''delivery_id'', JStr (td_id d)), (''created_at_ms'', JInt (td_created_at_ms d)),
                        (''persist_content'', JStr (history_content t d))])
      in if lt_channel t = ''websocket''
         then dict_set
                (dict_set (dict_del m WEBUI_TURN_METADATA_KEY) WEBUI_TURN_METADATA_KEY
                  (JStr (''trigger:'' @ lt_id t @ '':'' @ qe_hex Q)))
                WEBUI_MESSAGE_SOURCE_METADATA_KEY
                (JDict ((''kind'', JStr ''local_trigger'')
                        # (if lt_name t = [] then [] else [(''label'', JStr (lt_name t))])))
         else m)"

definition inbound_of :: "queue_env \<Rightarrow> local_trigger \<Rightarrow> trigger_delivery \<Rightarrow> inbound_message" where
  "inbound_of Q t d = \<lparr>im_channel = lt_channel t, im_sender_id = lt_sender_id t, im_chat_id = lt_chat_id t,
     im_content = td_content d, im_metadata = delivery_metadata Q t d, im_session_key = lt_session_key t\<rparr>"

text \<open>A failure to write the audit record is logged only.\<close>

definition log_run_record ::
  "trig_env \<Rightarrow> trigger_delivery \<Rightarrow> string \<Rightarrow> local_trigger option \<Rightarrow> string option \<Rightarrow> string option \<Rightarrow> tstore
     \<Rightarrow> tstore" where
  "log_run_record E d status t err response s = snd (write_delivery_run_record E d status t err response s)"

text \<open>\<open>_deliver_delivery\<close> up to the await: the message to submit, or the exception.\<close>

definition begin_delivery ::
  "queue_env \<Rightarrow> trigger_delivery \<Rightarrow> tstore \<Rightarrow> (exc + local_trigger \<times> inbound_message) \<times> tstore" where
  "begin_delivery Q d s =
     (case get_trigger (qe_op Q 0) (td_trigger_id d) s of
        (Inl e, s) \<Rightarrow> (Inl (store_exc Q e), s)
      | (Inr None, s) \<Rightarrow> (Inl (Exc TerminalExc ''trigger not found'' ''_TerminalDeliveryError''), s)
      | (Inr (Some t), s) \<Rightarrow>
          if \<not> lt_enabled t then (Inl (Exc TerminalExc ''trigger is disabled'' ''_TerminalDeliveryError''), s)
          else if \<not> qe_channel_enabled Q (lt_channel t)
            then (Inl (Exc TerminalExc (''target channel is not enabled: '' @ lt_channel t)
                        ''_TerminalDeliveryError''), s)
          else (case write_delivery_run_record (qe_op Q 1) d ''processing'' (Some t) None None s of
                  (Inl e, s) \<Rightarrow> (Inl (store_exc Q e), s)
                | (Inr _, s) \<Rightarrow> (Inr (t, inbound_of Q t d), s)))"

text \<open>What an observer sees of the queue; a file is known by its name.\<close>

datatype gw_event =
    Drew string
  | Queued string trigger_delivery
  | Submitted string inbound_message
  | Completed string
  | TriggerGone string

definition file_of :: "trigger_delivery \<Rightarrow> string" where
  "file_of d = (case td_path d of None \<Rightarrow> [] | Some p \<Rightarrow> snd p)"

text \<open>
  The handlers: whether the loop goes on, what was decided, the store. The store operations raise out of the
  loop here.
\<close>

definition drop_delivery ::
  "queue_env \<Rightarrow> trigger_delivery \<Rightarrow> string \<Rightarrow> tstore \<Rightarrow> bool \<times> gw_event list \<times> tstore" where
  "drop_delivery Q d err s =
     (case record_delivery (qe_op Q 3) (td_trigger_id d) ''error'' (Some err) (Some (td_created_at_ms d)) s of
        (Inl _, s) \<Rightarrow> (False, [], s)
      | (Inr _, s) \<Rightarrow>
          (case complete_delivery (qe_op Q 5) d (log_run_record (qe_op Q 4) d ''error'' None (Some err) None s) of
             (Inl _, s) \<Rightarrow> (False, [], s)
           | (Inr _, s) \<Rightarrow> (True, [Completed (file_of d)], s)))"

definition handle_exc :: "queue_env \<Rightarrow> exc \<Rightarrow> trigger_delivery \<Rightarrow> tstore \<Rightarrow> bool \<times> gw_event list \<times> tstore" where
  "handle_exc Q x d s =
     (case x of Exc k msg cls \<Rightarrow>
       (case k of
          CancelledExc \<Rightarrow>
            (case retry_delivery (qe_op Q 3) d (exc_text x) s of
               ((Inl _, s), d) \<Rightarrow> (False, [], s)
             | ((Inr _, s), d) \<Rightarrow>
                 (False, [], log_run_record (qe_op Q 4) d ''interrupted'' None (Some (exc_text x)) None s))
        | TerminalExc \<Rightarrow> drop_delivery Q d msg s
        | AutomationExc \<Rightarrow> drop_delivery Q d (exc_text x) s
        | OtherExc \<Rightarrow>
            (case retry_delivery (qe_op Q 3) d (exc_text x) s of
               ((Inl _, s), d) \<Rightarrow> (False, [], s)
             | ((Inr again, s), d) \<Rightarrow>
                 (case record_delivery (qe_op Q 5) (td_trigger_id d) ''error'' (Some (exc_text x))
                         (Some (td_created_at_ms d))
                         (log_run_record (qe_op Q 4) d (if again then ''retrying'' else ''error'') None
                           (Some (exc_text x)) None s) of
                    (Inl _, s) \<Rightarrow> (False, [], s)
                  | (Inr _, s) \<Rightarrow> (True, [], s)))))"

text \<open>The rest of \<open>_deliver_delivery\<close>, \<open>complete_delivery\<close> after it, and the handlers.\<close>

definition finish_delivery ::
  "queue_env \<Rightarrow> turn_outcome \<Rightarrow> local_trigger \<Rightarrow> trigger_delivery \<Rightarrow> tstore \<Rightarrow> bool \<times> gw_event list \<times> tstore" where
  "finish_delivery Q r t d s =
     (case r of
        Raised x \<Rightarrow> handle_exc Q x d s
      | Replied response \<Rightarrow>
          (case record_delivery (qe_op Q 0) (lt_id t) ''ok'' None (Some (td_created_at_ms d)) s of
             (Inl e, s) \<Rightarrow> handle_exc Q (store_exc Q e) d s
           | (Inr _, s) \<Rightarrow>
               (case complete_delivery (qe_op Q 2) d
                       (log_run_record (qe_op Q 1) d ''ok'' (Some t) None
                         (Some (case response of None \<Rightarrow> [] | Some c \<Rightarrow> c)) s) of
                  (Inl e, s) \<Rightarrow> handle_exc Q (store_exc Q e) d s
                | (Inr _, s) \<Rightarrow> (True, [Completed (file_of d)], s))))"

subsection \<open>The gateway and the command line as a step relation\<close>

text \<open>Where the loop stands: not running, before a poll, in a batch, awaiting a turn.\<close>

datatype gw_pc =
    GOff
  | GPoll
  | GBatch "trigger_delivery list"
  | GTurn trigger_delivery local_trigger "trigger_delivery list"

record gw_world =
  gw_store :: tstore
  gw_pc :: gw_pc
  gw_log :: "gw_event list"

datatype cli_op =
    OCreate string string string string string "(string, json) dict option"
  | OList bool
  | OGet string
  | OEnable string bool
  | OUpdate string "string option"
  | ODelete string
  | OEnqueue string string

text \<open>The name of the file an enqueue writes, drawn from the clock and a fresh UUID.\<close>

definition drawn_name :: "trig_env \<Rightarrow> string" where
  "drawn_name E = delivery_file_name (te_now E) (''tdl_'' @ te_hex E)"

fun cli_do :: "trig_env \<Rightarrow> cli_op \<Rightarrow> tstore \<Rightarrow> gw_event list \<times> tstore" where
  "cli_do E (OCreate n c h k sd m) s = ([], snd (create_trigger E n c h k sd m s))"
| "cli_do E (OList b) s = ([], snd (list_triggers E b s))"
| "cli_do E (OGet i) s = ([], snd (get_trigger E i s))"
| "cli_do E (OEnable i b) s = ([], snd (enable_trigger E i b s))"
| "cli_do E (OUpdate i n) s = ([], snd (update_trigger E i n s))"
| "cli_do E (ODelete i) s =
     (case delete_trigger E i s of
        (Inr True, s) \<Rightarrow> ([TriggerGone (strip i)], s)
      | (_, s) \<Rightarrow> ([], s))"
| "cli_do E (OEnqueue i c) s =
     (case enqueue E i c s of
        (Inr d, s) \<Rightarrow> ([Drew (drawn_name E), Queued (drawn_name E) d], s)
      | (Inl _, s) \<Rightarrow> ([Drew (drawn_name E)], s))"

definition cli_world :: "trig_env \<Rightarrow> cli_op \<Rightarrow> gw_world \<Rightarrow> gw_world" where
  "cli_world E op w =
     (case cli_do E op (gw_store w) of (ev, s) \<Rightarrow> w\<lparr>gw_store := s, gw_log := gw_log w @ ev\<rparr>)"

definition gw_start :: "trig_env \<Rightarrow> gw_world \<Rightarrow> gw_world" where
  "gw_start E w =
     (case recover_processing_deliveries E (gw_store w) of
        (Inl _, s) \<Rightarrow> w\<lparr>gw_store := s\<rparr>
      | (Inr _, s) \<Rightarrow> w\<lparr>gw_store := s, gw_pc := GPoll\<rparr>)"

text \<open>The default \<open>batch_size\<close> is 20.\<close>

definition gw_poll :: "trig_env \<Rightarrow> int \<Rightarrow> gw_world \<Rightarrow> gw_world" where
  "gw_poll E batch w =
     (case claim_deliveries E batch (gw_store w) of
        (Inl _, s) \<Rightarrow> w\<lparr>gw_store := s, gw_pc := GOff\<rparr>
      | (Inr ds, s) \<Rightarrow> w\<lparr>gw_store := s, gw_pc := (if ds = [] then GPoll else GBatch ds)\<rparr>)"

definition gw_next :: "trigger_delivery list \<Rightarrow> bool \<Rightarrow> gw_pc" where
  "gw_next ds on = (if on then (if ds = [] then GPoll else GBatch ds) else GOff)"

definition gw_handled :: "trigger_delivery list \<Rightarrow> bool \<times> gw_event list \<times> tstore \<Rightarrow> gw_world \<Rightarrow> gw_world" where
  "gw_handled ds r w =
     (case r of (on, ev, s) \<Rightarrow> w\<lparr>gw_store := s, gw_pc := gw_next ds on, gw_log := gw_log w @ ev\<rparr>)"

definition gw_begin :: "queue_env \<Rightarrow> trigger_delivery \<Rightarrow> trigger_delivery list \<Rightarrow> gw_world \<Rightarrow> gw_world" where
  "gw_begin Q d ds w =
     (case begin_delivery Q d (gw_store w) of
        (Inl x, s) \<Rightarrow> gw_handled ds (handle_exc Q x d s) w
      | (Inr (t, m), s) \<Rightarrow>
          w\<lparr>gw_store := s, gw_pc := GTurn d t ds, gw_log := gw_log w @ [Submitted (file_of d) m]\<rparr>)"

definition gw_finish ::
  "queue_env \<Rightarrow> turn_outcome \<Rightarrow> trigger_delivery \<Rightarrow> local_trigger \<Rightarrow> trigger_delivery list \<Rightarrow> gw_world \<Rightarrow> gw_world" where
  "gw_finish Q r d t ds w = gw_handled ds (finish_delivery Q r t d (gw_store w)) w"

text \<open>A UUID is drawn once: an enqueue does not draw the name of an earlier one.\<close>

fun draws_fresh :: "trig_env \<Rightarrow> cli_op \<Rightarrow> gw_world \<Rightarrow> bool" where
  "draws_fresh E (OEnqueue i c) w = (Drew (drawn_name E) \<notin> set (gw_log w))"
| "draws_fresh E _ w = True"

inductive gw_step :: "gw_world \<Rightarrow> gw_world \<Rightarrow> bool" where
  cli: "draws_fresh E op w \<Longrightarrow> gw_step w (cli_world E op w)"
| start: "gw_pc w = GOff \<Longrightarrow> gw_step w (gw_start E w)"
| poll: "gw_pc w = GPoll \<Longrightarrow> gw_step w (gw_poll E batch w)"
| begin_turn: "gw_pc w = GBatch (d # ds) \<Longrightarrow> gw_step w (gw_begin Q d ds w)"
| end_turn: "gw_pc w = GTurn d t ds \<Longrightarrow> gw_step w (gw_finish Q r d t ds w)"
| die: "gw_step w (w\<lparr>gw_pc := GOff\<rparr>)"

definition gw_init :: gw_world where
  "gw_init = \<lparr>gw_store = empty_store, gw_pc = GOff, gw_log = []\<rparr>"

definition gw_reachable :: "gw_world \<Rightarrow> bool" where
  "gw_reachable w \<longleftrightarrow> gw_step\<^sup>*\<^sup>* gw_init w"

text \<open>A world with one trigger and one queued delivery, in which nothing fails.\<close>

definition calm_env :: trig_env where
  "calm_env = \<lparr>te_ready = True, te_now = 1000, te_later = 1001,
     te_decode = \<lparr>de_int = (\<lambda>_. None), de_dict = (\<lambda>_. None)\<rparr>, te_read = (\<lambda>_. True), te_write = (\<lambda>_. Fine),
     te_move = (\<lambda>_. True), te_unlink = (\<lambda>_. True), te_hex = ''0a1b2c3d4e5f'', te_uuid = ''u'',
     te_suffixes = [''ABCDEFGH'']\<rparr>"

definition calm_world :: gw_world where
  "calm_world =
     cli_world calm_env (OEnqueue ''trg_ABCDEFGH'' ''build failed'')
       (cli_world calm_env (OCreate ''ci'' ''websocket'' ''c1'' ''websocket:c1'' ''trigger'' None) gw_init)"

lemma calm_reachable: "gw_reachable calm_world"
proof -
  let ?op1 = "OCreate ''ci'' ''websocket'' ''c1'' ''websocket:c1'' ''trigger'' None"
  let ?w1 = "cli_world calm_env ?op1 gw_init"
  have "gw_step gw_init ?w1"
    by (rule gw_step.cli) simp
  moreover have "draws_fresh calm_env (OEnqueue ''trg_ABCDEFGH'' ''build failed'') ?w1"
    by code_simp
  then have "gw_step ?w1 calm_world"
    unfolding calm_world_def by (rule gw_step.cli)
  ultimately show ?thesis
    unfolding gw_reachable_def by (meson rtranclp.rtrancl_into_rtrancl rtranclp.rtrancl_refl)
qed

end
