(* ===== verification/TriggerSafety.thy ===== *)
theory TriggerSafety
  imports TriggerRunner
begin

text \<open>
  What the trigger queue promises, over every interleaving of the steps of TriggerRunner: a queued delivery
  stays in some directory until it is handled or its trigger is deleted; a delivery is submitted to the agent
  at most ten times; what an enqueue that raises leaves behind; the trigger list keeps its identifiers apart
  and its histories short.
\<close>

subsection \<open>Operations that leave the delivery files alone\<close>

definition keeps_files :: "tstore \<Rightarrow> tstore \<Rightarrow> bool" where
  "keeps_files s s' \<longleftrightarrow> ts_files s' = ts_files s"

named_theorems file_frames \<open>operations that do not touch delivery files\<close>

lemma keeps_refl [file_frames, simp]: "keeps_files s s"
  by (simp add: keeps_files_def)

lemma keeps_trans: "keeps_files s s' \<Longrightarrow> keeps_files s' s'' \<Longrightarrow> keeps_files s s''"
  by (simp add: keeps_files_def)

lemma keeps_and_then:
  assumes "keeps_files s (snd r)" and "\<And>a t. keeps_files t (snd (f a t))"
  shows "keeps_files s (snd (and_then r f))"
  using assms by (auto simp: and_then_def keeps_files_def split: prod.splits sum.splits)

lemma keeps_ensure_dirs [file_frames]: "keeps_files s (snd (ensure_dirs E s))"
  by (simp add: ensure_dirs_def)

lemma keeps_load [file_frames]: "keeps_files s (snd (load_triggers E s))"
  by (simp add: load_triggers_def keeps_files_def split: option.split)

lemma keeps_save [file_frames]: "keeps_files s (snd (save_triggers E ts s))"
  by (simp add: save_triggers_def atomically_def keeps_files_def split: effect.split)

lemma keeps_change [file_frames]: "keeps_files s (snd (change_trigger E i f s))"
  unfolding change_trigger_def
  by (intro keeps_and_then keeps_ensure_dirs keeps_load)
     (auto split: option.split intro!: keeps_and_then keeps_save)

lemma keeps_get [file_frames]: "keeps_files s (snd (get_trigger E i s))"
  unfolding get_trigger_def by (intro keeps_and_then keeps_ensure_dirs keeps_load) simp

lemma keeps_list [file_frames]: "keeps_files s (snd (list_triggers E b s))"
  unfolding list_triggers_def by (intro keeps_and_then keeps_ensure_dirs keeps_load) simp

lemma keeps_create [file_frames]: "keeps_files s (snd (create_trigger E n c h k sd m s))"
  unfolding create_trigger_def
  by (auto simp: Let_def split: option.split intro!: keeps_and_then keeps_ensure_dirs keeps_load keeps_save)

lemma keeps_record [file_frames]: "keeps_files s (snd (record_delivery E i st e a s))"
  unfolding record_delivery_def Let_def by (intro keeps_and_then keeps_change) simp

lemma keeps_run_record [file_frames]: "keeps_files s (snd (write_run_record E i r s))"
  unfolding write_run_record_def Let_def
  by (intro keeps_and_then keeps_ensure_dirs) (auto simp: atomically_def keeps_files_def split: effect.split)

lemma keeps_delivery_record [file_frames]:
  "keeps_files s (snd (write_delivery_run_record E d st t e r s))"
  unfolding write_delivery_run_record_def
  by (intro keeps_and_then)
     (auto split: option.split intro: keeps_run_record keeps_get)

lemma keeps_log_record [file_frames]: "keeps_files s (log_run_record E d st t e r s)"
  by (simp add: log_run_record_def keeps_delivery_record)

lemma keeps_result: "op = (r, s') \<Longrightarrow> keeps_files s (snd op) \<Longrightarrow> ts_files s' = ts_files s"
  by (simp add: keeps_files_def)

subsection \<open>The invariant\<close>

fun is_submitted :: "string \<Rightarrow> gw_event \<Rightarrow> bool" where
  "is_submitted n (Submitted m x) = (m = n)"
| "is_submitted n ev = False"

definition turns :: "gw_event list \<Rightarrow> string \<Rightarrow> nat" where
  "turns log n = length (filter (is_submitted n) log)"

text \<open>The files that can stand for the delivery named \<open>n\<close>.\<close>

definition file_base :: "tpath \<Rightarrow> string \<Rightarrow> bool" where
  "file_base p n \<longleftrightarrow> snd p = n \<or> fst p = Failed \<and> snd p = n @ ''.bad''"

definition same_message :: "trigger_delivery \<Rightarrow> trigger_delivery \<Rightarrow> bool" where
  "same_message d e \<longleftrightarrow> td_id d = td_id e \<and> td_trigger_id d = td_trigger_id e \<and> td_content d = td_content e
     \<and> td_created_at_ms d = td_created_at_ms e"

definition tells :: "gw_event list \<Rightarrow> string \<Rightarrow> trigger_delivery \<Rightarrow> bool" where
  "tells log n d \<longleftrightarrow> Drew n \<in> set log \<and> suffix ''.json'' n
     \<and> (\<forall>D. Queued n D \<in> set log \<longrightarrow> same_message d D)"

definition attempts_ok :: "gw_event list \<Rightarrow> tdir \<Rightarrow> string \<Rightarrow> trigger_delivery \<Rightarrow> bool" where
  "attempts_ok log dir n d \<longleftrightarrow> 0 \<le> td_attempts d \<and>
     (case dir of
        Inbox \<Rightarrow> td_attempts d < MAX_DELIVERY_ATTEMPTS \<and> int (turns log n) \<le> td_attempts d
      | Processing \<Rightarrow> td_attempts d < MAX_DELIVERY_ATTEMPTS \<and> int (turns log n) \<le> td_attempts d + 1
      | Failed \<Rightarrow> td_attempts d \<le> MAX_DELIVERY_ATTEMPTS)"

definition file_ok :: "gw_event list \<Rightarrow> tpath \<Rightarrow> tfile \<Rightarrow> bool" where
  "file_ok log p f \<longleftrightarrow>
     (\<exists>n d. file_base p n \<and> f = Holds (delivery_payload d) \<and> tells log n d \<and> attempts_ok log (fst p) n d)"

definition files_ok :: "gw_event list \<Rightarrow> tstore \<Rightarrow> bool" where
  "files_ok log s \<longleftrightarrow> dict_wf (ts_files s) \<and> (\<forall>p f. dict_get (ts_files s) p = Some f \<longrightarrow> file_ok log p f)"

text \<open>A claimed delivery in memory: before its turn, and while its turn runs.\<close>

definition turning_ok :: "gw_event list \<Rightarrow> tstore \<Rightarrow> trigger_delivery \<Rightarrow> bool" where
  "turning_ok log s d \<longleftrightarrow> td_path d = Some (Processing, file_of d) \<and> tells log (file_of d) d
     \<and> attempts_ok log Processing (file_of d) d \<and> dict_get (ts_files s) (Inbox, file_of d) = None"

definition pending_ok :: "gw_event list \<Rightarrow> tstore \<Rightarrow> trigger_delivery \<Rightarrow> bool" where
  "pending_ok log s d \<longleftrightarrow> turning_ok log s d \<and> int (turns log (file_of d)) \<le> td_attempts d
     \<and> (\<forall>d'. dict_get (ts_files s) (Processing, file_of d) = Some (Holds (delivery_payload d'))
              \<longrightarrow> td_attempts d' = td_attempts d)"

fun pc_ok :: "gw_event list \<Rightarrow> tstore \<Rightarrow> gw_pc \<Rightarrow> bool" where
  "pc_ok log s GOff = True"
| "pc_ok log s GPoll = True"
| "pc_ok log s (GBatch ds) = (list_all (pending_ok log s) ds \<and> distinct (map file_of ds))"
| "pc_ok log s (GTurn d t ds) =
     (turning_ok log s d \<and> list_all (pending_ok log s) ds \<and> distinct (map file_of (d # ds)))"

definition log_ok :: "gw_event list \<Rightarrow> bool" where
  "log_ok log \<longleftrightarrow>
     (\<forall>n. int (turns log n) \<le> MAX_DELIVERY_ATTEMPTS)
     \<and> (\<forall>n. turns log n > 0 \<longrightarrow> Drew n \<in> set log)
     \<and> (\<forall>n D. Queued n D \<in> set log \<longrightarrow> Drew n \<in> set log \<and> suffix ''.json'' n)"

definition gw_inv :: "gw_world \<Rightarrow> bool" where
  "gw_inv w \<longleftrightarrow> files_ok (gw_log w) (gw_store w) \<and> pc_ok (gw_log w) (gw_store w) (gw_pc w) \<and> log_ok (gw_log w)"

text \<open>A delivery is kept by some file.\<close>

definition live :: "tstore \<Rightarrow> string \<Rightarrow> bool" where
  "live s n \<longleftrightarrow> (\<exists>p. file_base p n \<and> dict_get (ts_files s) p \<noteq> None)"

definition kept :: "gw_event list \<Rightarrow> tstore \<Rightarrow> bool" where
  "kept log s \<longleftrightarrow> (\<forall>n D. Queued n D \<in> set log \<longrightarrow>
     Completed n \<in> set log \<or> TriggerGone (td_trigger_id D) \<in> set log \<or> live s n)"

lemma turns_simps [simp]:
  "turns [] n = 0"
  "turns (log @ log') n = turns log n + turns log' n"
  "turns [Submitted m x] n = (if m = n then 1 else 0)"
  "turns [Drew m] n = 0" "turns [Queued m D] n = 0" "turns [Completed m] n = 0" "turns [TriggerGone i] n = 0"
  "turns [Drew m, Queued m' D] n = 0"
  by (simp_all add: turns_def)

lemma not_suffix_bad [simp]: "\<not> suffix ''.json'' (n @ ''.bad'')"
  by (auto simp: suffix_def append_eq_append_conv2 append_eq_Cons_conv Cons_eq_append_conv)

lemma file_base_unique:
  "file_base p n \<Longrightarrow> file_base p m \<Longrightarrow> suffix ''.json'' n \<Longrightarrow> suffix ''.json'' m \<Longrightarrow> n = m"
  unfolding file_base_def by auto

lemma file_base_simps [simp]:
  "file_base (dir, n) n"
  "file_base (Failed, n @ ''.bad'') n"
  "file_base (Inbox, m) n \<longleftrightarrow> m = n"
  "file_base (Processing, m) n \<longleftrightarrow> m = n"
  by (auto simp: file_base_def)

lemma delivery_payload_inject:
  "delivery_payload d = delivery_payload e \<longleftrightarrow>
     same_message d e \<and> td_attempts d = td_attempts e \<and> td_last_error d = td_last_error e"
  by (auto simp: delivery_payload_def delivery_to_dict_def same_message_def)

lemma parse_payload: "parse_delivery D p (delivery_payload d) = Some (norm_delivery (Some p) d)"
  by (simp add: parse_delivery_def delivery_payload_def get_key_def delivery_roundtrip)

lemma norm_delivery_simps [simp]:
  "td_attempts (norm_delivery p d) = td_attempts d"
  "td_id (norm_delivery p d) = td_id d"
  "td_trigger_id (norm_delivery p d) = td_trigger_id d"
  "td_content (norm_delivery p d) = td_content d"
  "td_created_at_ms (norm_delivery p d) = td_created_at_ms d"
  "td_path (norm_delivery p d) = p"
  "tells log n (norm_delivery p d) = tells log n d"
  "attempts_ok log dir n (norm_delivery p d) = attempts_ok log dir n d"
  by (simp_all add: norm_delivery_def tells_def same_message_def attempts_ok_def split: tdir.split)

lemma bump_simps [simp]:
  "td_attempts (bump d e) = td_attempts d + 1"
  "td_path (bump d e) = td_path d"
  "file_of (bump d e) = file_of d"
  "tells log n (bump d e) = tells log n d"
  by (simp_all add: bump_def file_of_def tells_def same_message_def)

lemma file_okE:
  assumes "file_ok log p f"
  obtains n d where "file_base p n" "f = Holds (delivery_payload d)" "tells log n d" "attempts_ok log (fst p) n d"
  using assms by (auto simp: file_ok_def)

lemma file_okI:
  "file_base p n \<Longrightarrow> tells log n d \<Longrightarrow> attempts_ok log (fst p) n d \<Longrightarrow> file_ok log p (Holds (delivery_payload d))"
  by (auto simp: file_ok_def)

text \<open>Moving a file on: to processing it may, to the failed directory it may under either name.\<close>

lemma file_ok_claim: "file_ok log (Inbox, n) f \<Longrightarrow> file_ok log (Processing, n) f"
  by (auto simp: file_ok_def attempts_ok_def)

lemma file_ok_bad:
  assumes "file_ok log (dir, n) f" "dir \<noteq> Failed"
  shows "file_ok log (Failed, n @ ''.bad'') f"
proof -
  obtain m d where m: "file_base (dir, n) m" "f = Holds (delivery_payload d)" "tells log m d"
      "attempts_ok log dir m d"
    using assms(1) by (auto elim: file_okE)
  from m(1) assms(2) have "m = n"
    by (cases dir) auto
  moreover from m(4) assms(2) have "attempts_ok log Failed m d"
    by (cases dir) (auto simp: attempts_ok_def)
  ultimately show ?thesis
    using m by (auto intro!: file_okI[where n = n])
qed

lemma files_ok_get: "files_ok log s \<Longrightarrow> dict_get (ts_files s) p = Some f \<Longrightarrow> file_ok log p f"
  unfolding files_ok_def by blast

lemma files_ok_put: "files_ok log s \<Longrightarrow> file_ok log p f \<Longrightarrow> files_ok log (put_file p f s)"
  by (simp add: files_ok_def put_file_def)

lemma files_ok_del: "files_ok log s \<Longrightarrow> files_ok log (del_file p s)"
  by (simp add: files_ok_def del_file_def)

lemma files_ok_keeps: "keeps_files s s' \<Longrightarrow> files_ok log s \<Longrightarrow> files_ok log s'"
  by (simp add: files_ok_def keeps_files_def)

lemma get_put [simp]:
  "dict_get (ts_files (put_file p c s)) q = (if q = p then Some c else dict_get (ts_files s) q)"
  by (simp add: put_file_def)

lemma get_del [simp]:
  "dict_get (ts_files (del_file p s)) q = (if q = p then None else dict_get (ts_files s) q)"
  by (simp add: del_file_def)

subsection \<open>What the queue operations do to the files\<close>

text \<open>\<open>safe_change s s'\<close>: whoever was kept by a file still is, and the files are in order.\<close>

definition safe_change :: "gw_event list \<Rightarrow> tstore \<Rightarrow> tstore \<Rightarrow> bool" where
  "safe_change log s s' \<longleftrightarrow> (files_ok log s \<longrightarrow> files_ok log s' \<and> (\<forall>n. suffix ''.json'' n \<longrightarrow> live s n \<longrightarrow> live s' n))"

lemma safe_refl [simp]: "safe_change log s s"
  by (simp add: safe_change_def)

lemma safe_trans [trans]: "safe_change log s s' \<Longrightarrow> safe_change log s' s'' \<Longrightarrow> safe_change log s s''"
  by (simp add: safe_change_def)

lemma safe_keeps: "keeps_files s s' \<Longrightarrow> safe_change log s s'"
  by (simp add: safe_change_def files_ok_def keeps_files_def live_def)

lemma live_put: "live s n \<Longrightarrow> live (put_file p f s) n"
  unfolding live_def by (metis get_put option.distinct(1))

lemma safe_put: "(files_ok log s \<Longrightarrow> file_ok log p f) \<Longrightarrow> safe_change log s (put_file p f s)"
  by (auto simp: safe_change_def files_ok_put live_put)

text \<open>Moving a file to a place that stands for the same delivery.\<close>

lemma live_move:
  assumes "live s n" "\<And>m. file_base p m \<Longrightarrow> suffix ''.json'' m \<Longrightarrow> file_base q m" "suffix ''.json'' n"
  shows "live (put_file q c (del_file p s)) n"
  using assms unfolding live_def by (metis get_put get_del option.distinct(1))

lemma safe_move:
  assumes "dict_get (ts_files s) p = Some f" "file_ok log p f \<Longrightarrow> file_ok log q f"
    "\<And>m. file_base p m \<Longrightarrow> suffix ''.json'' m \<Longrightarrow> file_base q m"
  shows "safe_change log s (put_file q f (del_file p s))"
  unfolding safe_change_def
proof (intro impI conjI allI)
  assume ok: "files_ok log s"
  then have "file_ok log q f"
    using assms(1,2) files_ok_get by blast
  with ok show "files_ok log (put_file q f (del_file p s))"
    by (intro files_ok_put files_ok_del)
  fix n assume "suffix ''.json'' n" "live s n"
  then show "live (put_file q f (del_file p s)) n"
    using assms(3) by (intro live_move)
qed

lemma safe_move_bad:
  assumes "dir \<noteq> Failed"
  shows "safe_change log s (move_bad E (dir, n) s)"
proof -
  have b: "file_base (Failed, n @ ''.bad'') m" if "file_base (dir, n) m" for m
    using that assms by (cases dir) auto
  show ?thesis
    unfolding move_bad_def replace_file_def
    using assms b by (auto split: option.split intro!: safe_move file_ok_bad)
qed

lemma safe_claim:
  assumes "replace_file E (Inbox, n) (Processing, n) s = (r, s')"
  shows "safe_change log s s'"
  using assms unfolding replace_file_def
  by (auto split: option.splits if_splits intro!: safe_move file_ok_claim)

text \<open>A retry writes the next attempt first, then removes the old file.\<close>

lemma live_del_other:
  assumes "live s n" "q \<noteq> p" "dict_get (ts_files s) q = Some c"
    "\<And>m. file_base p m \<Longrightarrow> suffix ''.json'' m \<Longrightarrow> file_base q m" "suffix ''.json'' n"
  shows "live (del_file p s) n"
  using assms unfolding live_def by (metis get_del option.distinct(1))

lemma attempts_ok_bump:
  assumes "attempts_ok log Processing n d"
  shows "attempts_ok log (if td_attempts d + 1 < MAX_DELIVERY_ATTEMPTS then Inbox else Failed) n (bump d e)"
  using assms by (auto simp: attempts_ok_def)

lemma safe_retry:
  assumes r: "retry_unlocked E d err s = (r, s')"
    and d: "td_path d = Some (Processing, n)" "tells log n d" "attempts_ok log Processing n d"
  shows "safe_change log s s'"
proof -
  define q where "q = (if td_attempts d + 1 < MAX_DELIVERY_ATTEMPTS then Inbox else Failed, n)"
  let ?s1 = "put_file q (Holds (delivery_payload (bump d err))) s"
  have ok: "file_ok log q (Holds (delivery_payload (bump d err)))"
    using attempts_ok_bump[OF d(3)] d(2) by (auto intro!: file_okI[where n = n] simp: q_def)
  have put: "safe_change log s ?s1"
    using ok by (rule safe_put)
  have qp: "q \<noteq> (Processing, n)" "\<And>m. file_base (Processing, n) m \<Longrightarrow> file_base q m"
    by (auto simp: q_def)
  have del: "safe_change log ?s1 (del_file (Processing, n) ?s1)"
    unfolding safe_change_def using qp
    by (auto intro!: files_ok_del live_del_other[of ?s1 _ q])
  have "s' \<in> {s, ?s1, del_file (Processing, n) ?s1}"
    using r d(1) unfolding retry_unlocked_def write_delivery_def atomically_def unlink_file_def q_def
    by (auto simp: Let_def split: effect.splits if_splits)
  then show ?thesis
    using put del safe_trans by (auto intro: safe_trans)
qed

subsection \<open>Claiming and recovering\<close>

definition agree_at :: "string \<Rightarrow> tstore \<Rightarrow> tstore \<Rightarrow> bool" where
  "agree_at n s s' \<longleftrightarrow> dict_get (ts_files s') (Inbox, n) = dict_get (ts_files s) (Inbox, n)
     \<and> dict_get (ts_files s') (Processing, n) = dict_get (ts_files s) (Processing, n)"

lemma agree_refl [simp]: "agree_at n s s"
  by (simp add: agree_at_def)

lemma agree_trans: "agree_at n s s' \<Longrightarrow> agree_at n s' s'' \<Longrightarrow> agree_at n s s''"
  by (simp add: agree_at_def)

lemma agree_keeps: "keeps_files s s' \<Longrightarrow> agree_at n s s'"
  by (simp add: agree_at_def keeps_files_def)

lemma pending_agree: "agree_at (file_of d) s s' \<Longrightarrow> pending_ok log s d \<Longrightarrow> pending_ok log s' d"
  by (simp add: pending_ok_def turning_ok_def agree_at_def)

lemma turning_agree: "agree_at (file_of d) s s' \<Longrightarrow> turning_ok log s d \<Longrightarrow> turning_ok log s' d"
  by (simp add: turning_ok_def agree_at_def)

lemma agree_move_bad: "m \<noteq> n \<Longrightarrow> agree_at m s (move_bad E (dir, n) s)"
  by (auto simp: agree_at_def move_bad_def replace_file_def split: option.split)

lemma agree_claim: "replace_file E (Inbox, n) (Processing, n) s = (r, s') \<Longrightarrow> m \<noteq> n \<Longrightarrow> agree_at m s s'"
  by (auto simp: agree_at_def replace_file_def split: option.splits if_splits)

lemma agree_retry:
  "retry_unlocked E d err s = (r, s') \<Longrightarrow> td_path d = Some (dir, n) \<Longrightarrow> m \<noteq> n \<Longrightarrow> agree_at m s s'"
  unfolding retry_unlocked_def write_delivery_def atomically_def unlink_file_def
  by (auto simp: agree_at_def Let_def split: effect.splits if_splits)

lemma pending_list_agree:
  "list_all (pending_ok log s) ds \<Longrightarrow> (\<And>d. d \<in> set ds \<Longrightarrow> agree_at (file_of d) s s')
     \<Longrightarrow> list_all (pending_ok log s') ds"
  by (auto simp: list_all_iff intro: pending_agree)

text \<open>What reading a file of the queue gives.\<close>

lemma read_parsed:
  assumes "files_ok log s" "dir \<noteq> Failed" "read_json E (dir, n) s \<bind> parse_delivery D p = Some d"
  obtains d0 where "dict_get (ts_files s) (dir, n) = Some (Holds (delivery_payload d0))"
    "d = norm_delivery (Some p) d0" "tells log n d0" "attempts_ok log dir n d0"
proof -
  obtain v where v: "dict_get (ts_files s) (dir, n) = Some (Holds v)" "parse_delivery D p v = Some d"
    using assms(3) by (auto simp: read_json_def bind_eq_Some_conv split: option.splits tfile.splits if_splits)
  then have "file_ok log (dir, n) (Holds v)"
    using assms(1) files_ok_get by blast
  then obtain m d0 where m: "file_base (dir, n) m" "v = delivery_payload d0" "tells log m d0" "attempts_ok log dir m d0"
    by (auto elim: file_okE)
  moreover from m(1) assms(2) have "m = n"
    by (cases dir) auto
  ultimately show thesis
    using that v by (simp add: parse_payload)
qed

lemma claimed_pending:
  assumes "files_ok log s" "read_json E (Inbox, n) s \<bind> parse_delivery D (Processing, n) = Some d"
    "replace_file E (Inbox, n) (Processing, n) s = (Inr (), s')"
  shows "pending_ok log s' d" "file_of d = n"
proof -
  obtain d0 where d0: "dict_get (ts_files s) (Inbox, n) = Some (Holds (delivery_payload d0))"
    "d = norm_delivery (Some (Processing, n)) d0" "tells log n d0" "attempts_ok log Inbox n d0"
    using read_parsed[OF assms(1) _ assms(2)] by blast
  show n: "file_of d = n"
    by (simp add: d0(2) file_of_def)
  have s': "s' = put_file (Processing, n) (Holds (delivery_payload d0)) (del_file (Inbox, n) s)"
    using assms(3) d0(1) by (auto simp: replace_file_def split: if_splits)
  show "pending_ok log s' d"
    using d0 n by (auto simp: pending_ok_def turning_ok_def s' delivery_payload_inject attempts_ok_def)
qed

lemma claim_loop_ok:
  assumes "claim_loop E ns acc s = (r, s')" "files_ok log s" "distinct ns"
    "list_all (pending_ok log s) acc" "distinct (map file_of acc)" "file_of ` set acc \<inter> set ns = {}"
  shows "safe_change log s s' \<and> (\<forall>ds. r = Inr ds \<longrightarrow> list_all (pending_ok log s') ds \<and> distinct (map file_of ds))"
  using assms
proof (induction E ns acc s rule: claim_loop.induct)
  case (1 E acc s)
  then show ?case by auto
next
  case (2 E n ns acc s)
  have other: "d \<in> set acc \<Longrightarrow> file_of d \<noteq> n" for d
    using 2(8) by auto
  show ?case
  proof (cases "read_json E (Inbox, n) s \<bind> parse_delivery (te_decode E) (Processing, n)")
    case None
    let ?s1 = "move_bad E (Inbox, n) s"
    have safe: "safe_change log s ?s1"
      by (simp add: safe_move_bad)
    have "list_all (pending_ok log ?s1) acc"
      using 2(6) other by (auto intro: pending_list_agree agree_move_bad)
    with None 2 safe have "safe_change log ?s1 s' \<and> (\<forall>ds. r = Inr ds \<longrightarrow> list_all (pending_ok log s') ds \<and> distinct (map file_of ds))"
      by (intro 2(1)) (auto simp: safe_change_def)
    with safe show ?thesis
      by (blast intro: safe_trans)
  next
    case (Some d)
    obtain r1 s1 where r1: "replace_file E (Inbox, n) (Processing, n) s = (r1, s1)"
      by fastforce
    have safe: "safe_change log s s1"
      using r1 by (rule safe_claim)
    show ?thesis
    proof (cases r1)
      case (Inl e)
      with Some r1 2(3) safe show ?thesis by auto
    next
      case (Inr u)
      with r1 have r1': "replace_file E (Inbox, n) (Processing, n) s = (Inr (), s1)" by simp
      have d: "pending_ok log s1 d" "file_of d = n"
        using claimed_pending[OF 2(4) Some r1'] by auto
      have acc: "list_all (pending_ok log s1) acc"
        using 2(6) other agree_claim[OF r1] by (auto intro: pending_list_agree)
      have "safe_change log s1 s' \<and> (\<forall>ds. r = Inr ds \<longrightarrow> list_all (pending_ok log s') ds \<and> distinct (map file_of ds))"
        using Some r1' 2 safe d acc other
        by (intro 2(2)[OF Some]) (auto simp: safe_change_def)
      with safe show ?thesis
        by (blast intro: safe_trans)
    qed
  qed
qed

lemma recover_loop_safe:
  assumes "recover_loop E ns k s = (r, s')" "files_ok log s"
  shows "safe_change log s s'"
  using assms
proof (induction E ns k s rule: recover_loop.induct)
  case (1 E k s)
  then show ?case by simp
next
  case (2 E n ns k s)
  show ?case
  proof (cases "read_json E (Processing, n) s \<bind> parse_delivery (te_decode E) (Processing, n)")
    case None
    have safe: "safe_change log s (move_bad E (Processing, n) s)"
      by (simp add: safe_move_bad)
    with None 2 have "safe_change log (move_bad E (Processing, n) s) s'"
      by (intro 2(1)) (auto simp: safe_change_def)
    with safe show ?thesis by (rule safe_trans)
  next
    case (Some d)
    obtain d0 where d0: "d = norm_delivery (Some (Processing, n)) d0" "tells log n d0"
      "attempts_ok log Processing n d0"
      using read_parsed[OF 2(4) _ Some] by blast
    obtain r1 s1 where r1: "retry_unlocked E d PROCESSING_RECOVERY_ERROR s = (r1, s1)"
      by fastforce
    have safe: "safe_change log s s1"
      using safe_retry[OF r1, of n] d0 by simp
    show ?thesis
    proof (cases r1)
      case (Inl e)
      with Some r1 2(3) safe show ?thesis by auto
    next
      case (Inr again)
      with Some r1 2 safe have "safe_change log s1 s'"
        by (intro 2(2)[OF Some]) (auto simp: safe_change_def)
      with safe show ?thesis by (rule safe_trans)
    qed
  qed
qed

lemma queue_names_distinct: "dict_wf (ts_files s) \<Longrightarrow> distinct (queue_names dir s)"
proof -
  assume wf: "dict_wf (ts_files s)"
  let ?fs = "filter (\<lambda>(p, _). fst p = dir) (ts_files s)"
  have "distinct (map fst ?fs)"
    using wf by (rule distinct_map_filter)
  moreover have "inj_on snd (set (map fst ?fs))"
    by (auto simp: inj_on_def)
  ultimately have "distinct (map snd (map fst ?fs))"
    by (simp only: distinct_map)
  then have "distinct (map (snd \<circ> fst) ?fs)"
    by (simp only: map_map)
  then show ?thesis
    by (simp add: queue_names_def)
qed

lemma claim_ok:
  assumes "claim_deliveries E k s = (r, s')" "files_ok log s"
  shows "safe_change log s s' \<and> (\<forall>ds. r = Inr ds \<longrightarrow> list_all (pending_ok log s') ds \<and> distinct (map file_of ds))"
  using assms(1) unfolding claim_deliveries_def
proof (rule and_thenE)
  fix e assume "ensure_dirs E s = (Inl e, s')" "r = Inl e"
  then show ?thesis by (auto simp: ensure_dirs_def)
next
  fix a t assume a: "ensure_dirs E s = (Inr a, t)"
    and t: "claim_loop E (take (nat k) (queue_names Inbox t)) [] t = (r, s')"
  have "t = s"
    using a by (auto simp: ensure_dirs_def)
  moreover have "distinct (take (nat k) (queue_names Inbox s))"
    using assms(2) by (simp add: files_ok_def queue_names_distinct)
  ultimately show ?thesis
    using claim_loop_ok[OF t] assms(2) by simp
qed

lemma recover_safe:
  assumes "recover_processing_deliveries E s = (r, s')" "files_ok log s"
  shows "safe_change log s s'"
  using assms(1) unfolding recover_processing_deliveries_def
  by (rule and_thenE) (auto simp: ensure_dirs_def assms(2) split: if_splits intro: recover_loop_safe[OF _ assms(2)])

subsection \<open>Handling one delivery\<close>

text \<open>A step on behalf of the delivery \<open>n\<close>, after which the events \<open>ev\<close> are logged.\<close>

definition turn_change :: "gw_event list \<Rightarrow> string \<Rightarrow> gw_event list \<Rightarrow> tstore \<Rightarrow> tstore \<Rightarrow> bool" where
  "turn_change log n ev s s' \<longleftrightarrow> (files_ok log s \<longrightarrow>
     files_ok log s' \<and> (\<forall>m. m \<noteq> n \<longrightarrow> agree_at m s s')
     \<and> (\<forall>m. suffix ''.json'' m \<longrightarrow> live s m \<longrightarrow> live s' m \<or> Completed m \<in> set ev)
     \<and> set ev \<subseteq> {Completed n})"

lemma turn_keeps: "keeps_files s s' \<Longrightarrow> turn_change log n [] s s'"
  using safe_keeps[of s s' log] by (auto simp: turn_change_def safe_change_def agree_keeps)

lemma turn_trans:
  "turn_change log n [] s s1 \<Longrightarrow> turn_change log n ev s1 s2 \<Longrightarrow> turn_change log n ev s s2"
  unfolding turn_change_def by (auto intro: agree_trans)

lemma turn_keeps_then: "keeps_files s s1 \<Longrightarrow> turn_change log n ev s1 s2 \<Longrightarrow> turn_change log n ev s s2"
  by (rule turn_trans[OF turn_keeps])

lemma turn_retry:
  assumes "retry_delivery E d err s = ((r, s'), d')" "turning_ok log s d"
  shows "turn_change log (file_of d) [] s s' \<and> d' = (if td_path d = None \<or> \<not> te_ready E then d else bump d err)"
proof -
  have d: "td_path d = Some (Processing, file_of d)" "tells log (file_of d) d"
    "attempts_ok log Processing (file_of d) d"
    using assms(2) by (auto simp: turning_ok_def)
  show ?thesis
  proof (cases "te_ready E")
    case True
    then have r: "retry_unlocked E d err s = (r, s')"
      using assms(1) d(1) by (simp add: retry_delivery_def)
    show ?thesis
      using safe_retry[OF r d] agree_retry[OF r d(1)] assms(1) d(1) True
      by (auto simp: turn_change_def safe_change_def retry_delivery_def)
  next
    case False
    then show ?thesis
      using assms(1) d(1) by (auto simp: retry_delivery_def intro: turn_keeps)
  qed
qed

lemma live_del_foreign: "live s m \<Longrightarrow> m \<noteq> n \<Longrightarrow> live (del_file (Processing, n) s) m"
  unfolding live_def by (metis file_base_simps(4) get_del)

lemma turn_complete:
  assumes "complete_delivery E d s = (r, s')" "td_path d = Some (Processing, n)"
  shows "turn_change log n (case r of Inl _ \<Rightarrow> [] | Inr _ \<Rightarrow> [Completed n]) s s'"
proof -
  have del: "turn_change log n [Completed n] s (del_file (Processing, n) s)"
    using live_del_foreign by (auto simp: turn_change_def files_ok_del agree_at_def)
  have refl: "turn_change log n [] t t" for t
    by (simp add: turn_keeps)
  have "r = Inr () \<and> s' = del_file (Processing, n) s \<or> (\<exists>e. r = Inl e) \<and> s' = s"
    using assms by (auto simp: complete_delivery_def and_then_def ensure_dirs_def unlink_file_def
        split: if_splits sum.splits prod.splits)
  then show ?thesis
    using del refl by auto
qed

lemma turn_drop:
  assumes "drop_delivery Q d err s = (on, ev, s')" "td_path d = Some (Processing, file_of d)"
  shows "turn_change log (file_of d) ev s s'"
proof -
  obtain r1 s1 where r1: "record_delivery (qe_op Q 3) (td_trigger_id d) ''error'' (Some err) (Some (td_created_at_ms d)) s = (r1, s1)"
    by fastforce
  have k1: "keeps_files s s1"
    using keeps_record[of s "qe_op Q 3" "td_trigger_id d" "''error''" "Some err"] r1 by (metis snd_conv)
  let ?s2 = "log_run_record (qe_op Q 4) d ''error'' None (Some err) None s1"
  have k2: "keeps_files s ?s2"
    using k1 keeps_log_record keeps_trans by blast
  obtain r3 s3 where r3: "complete_delivery (qe_op Q 5) d ?s2 = (r3, s3)"
    by fastforce
  have c: "turn_change log (file_of d) (case r3 of Inl _ \<Rightarrow> [] | Inr _ \<Rightarrow> [Completed (file_of d)]) s s3"
    using turn_complete[OF r3 assms(2)] k2 turn_keeps_then by blast
  show ?thesis
    using assms(1) r1 r3 c k1 by (auto simp: drop_delivery_def turn_keeps split: sum.splits)
qed

lemma turn_handle:
  assumes "handle_exc Q x d s = (on, ev, s')" "turning_ok log s d"
  shows "turn_change log (file_of d) ev s s'"
proof -
  obtain k msg cls where x: "x = Exc k msg cls"
    by (cases x)
  have path: "td_path d = Some (Processing, file_of d)"
    using assms(2) by (simp add: turning_ok_def)
  obtain r1 s1 d1 where r1: "retry_delivery (qe_op Q 3) d (exc_text x) s = ((r1, s1), d1)"
    by (metis surj_pair)
  have t1: "turn_change log (file_of d) [] s s1"
    using turn_retry[OF r1 assms(2)] by simp
  have after: "turn_change log (file_of d) [] s s2" if "keeps_files s1 s2" for s2
    using t1 that by (blast intro: turn_trans turn_keeps)
  show ?thesis
  proof (cases k)
    case CancelledExc
    then show ?thesis
      using assms(1) x r1 t1 after by (auto simp: handle_exc_def keeps_log_record split: sum.splits)
  next
    case TerminalExc
    then show ?thesis
      using assms(1) x turn_drop path by (simp add: handle_exc_def)
  next
    case AutomationExc
    then show ?thesis
      using assms(1) x turn_drop path by (simp add: handle_exc_def del: exc_text.simps)
  next
    case OtherExc
    have k: "keeps_files s1 (snd (record_delivery E i st e a (log_run_record E' d1 st' t e' r s1)))" for E i st e a E' st' t e' r
      using keeps_trans[OF keeps_log_record keeps_record] .
    show ?thesis
    proof (cases r1)
      case (Inl e)
      with OtherExc show ?thesis
        using assms(1) x r1 t1 by (simp add: handle_exc_def del: exc_text.simps)
    next
      case (Inr again)
      let ?rec = "record_delivery (qe_op Q 5) (td_trigger_id d1) ''error'' (Some (exc_text x)) (Some (td_created_at_ms d1))
              (log_run_record (qe_op Q 4) d1 (if again then ''retrying'' else ''error'') None (Some (exc_text x)) None s1)"
      obtain r2 s2 where r2: "?rec = (r2, s2)"
        by fastforce
      have "turn_change log (file_of d) [] s s2"
        using after[OF k[of "qe_op Q 5" "td_trigger_id d1" "''error''" "Some (exc_text x)" "Some (td_created_at_ms d1)"
              "qe_op Q 4" "if again then ''retrying'' else ''error''" None "Some (exc_text x)" None]] r2 by simp
      with Inr OtherExc r2 show ?thesis
        using assms(1) x r1 by (auto simp: handle_exc_def simp del: exc_text.simps split: sum.splits)
    qed
  qed
qed

lemma turning_keeps: "keeps_files s s' \<Longrightarrow> turning_ok log s d \<Longrightarrow> turning_ok log s' d"
  by (rule turning_agree[OF agree_keeps])

lemma turn_finish:
  assumes "finish_delivery Q r t d s = (on, ev, s')" "turning_ok log s d"
  shows "turn_change log (file_of d) ev s s'"
proof (cases r)
  case (Raised x)
  then show ?thesis
    using assms turn_handle by (simp add: finish_delivery_def)
next
  case (Replied response)
  have path: "td_path d = Some (Processing, file_of d)"
    using assms(2) by (simp add: turning_ok_def)
  obtain r1 s1 where r1: "record_delivery (qe_op Q 0) (lt_id t) ''ok'' None (Some (td_created_at_ms d)) s = (r1, s1)"
    by fastforce
  have k1: "keeps_files s s1"
    using keeps_record[of s "qe_op Q 0" "lt_id t" "''ok''" None "Some (td_created_at_ms d)"] r1 by simp
  let ?s2 = "log_run_record (qe_op Q 1) d ''ok'' (Some t) None (Some (case response of None \<Rightarrow> [] | Some c \<Rightarrow> c)) s1"
  have k2: "keeps_files s ?s2"
    using k1 keeps_log_record keeps_trans by blast
  obtain r3 s3 where r3: "complete_delivery (qe_op Q 2) d ?s2 = (r3, s3)"
    by fastforce
  have same: "r3 = Inl e \<Longrightarrow> s3 = ?s2" for e
    using r3 path by (auto simp: complete_delivery_def and_then_def ensure_dirs_def unlink_file_def
        split: if_splits sum.splits prod.splits)
  have c: "turn_change log (file_of d) (case r3 of Inl _ \<Rightarrow> [] | Inr _ \<Rightarrow> [Completed (file_of d)]) s s3"
    using turn_complete[OF r3 path] k2 turn_keeps_then by blast
  have h: "turn_change log (file_of d) ev s s'" if "handle_exc Q x d u = (on, ev, s')" "keeps_files s u" for x u
    using turn_handle[OF that(1)] turning_keeps[OF that(2) assms(2)] turn_keeps_then[OF that(2)] by blast
  show ?thesis
  proof (cases r1)
    case (Inl e)
    with assms(1) Replied r1 k1 h show ?thesis by (auto simp: finish_delivery_def)
  next
    case r1': (Inr u)
    show ?thesis
    proof (cases r3)
      case (Inl e)
      with assms(1) Replied r1 r1' r3 same k2 h show ?thesis by (auto simp: finish_delivery_def)
    next
      case (Inr v)
      with assms(1) Replied r1 r1' r3 c show ?thesis by (auto simp: finish_delivery_def)
    qed
  qed
qed

lemma keeps_begin: "begin_delivery Q d s = (r, s') \<Longrightarrow> keeps_files s s'"
proof -
  assume b: "begin_delivery Q d s = (r, s')"
  obtain r1 s1 where r1: "get_trigger (qe_op Q 0) (td_trigger_id d) s = (r1, s1)"
    by fastforce
  have k1: "keeps_files s s1"
    using keeps_get[of s "qe_op Q 0" "td_trigger_id d"] r1 by simp
  have k2: "keeps_files s1 (snd (write_delivery_run_record (qe_op Q 1) d ''processing'' (Some t) None None s1))" for t
    by (rule keeps_delivery_record)
  show ?thesis
    using b r1 k1 k2 keeps_trans[OF k1]
    by (auto simp: begin_delivery_def split: sum.splits option.splits if_splits prod.splits) (metis snd_conv)+
qed

subsection \<open>Growing the log\<close>

definition quiet :: "gw_event list \<Rightarrow> bool" where
  "quiet ev \<longleftrightarrow> (\<forall>e \<in> set ev. \<exists>x. e = Completed x \<or> e = TriggerGone x)"

lemma quiet_simps [simp]: "quiet []" "quiet [Completed n]" "quiet [TriggerGone i]"
  by (simp_all add: quiet_def)

lemma turns_quiet: "quiet ev \<Longrightarrow> turns ev n = 0"
  by (induction ev) (auto simp: quiet_def turns_def)

lemma quiet_mem: "quiet ev \<Longrightarrow> Drew n \<notin> set ev \<and> Queued n D \<notin> set ev"
  by (auto simp: quiet_def)

lemma tells_quiet: "quiet ev \<Longrightarrow> tells (log @ ev) n d = tells log n d"
  by (auto simp: tells_def quiet_def)

lemma attempts_quiet: "quiet ev \<Longrightarrow> attempts_ok (log @ ev) dir n d = attempts_ok log dir n d"
  by (simp add: attempts_ok_def turns_quiet split: tdir.split)

lemma files_ok_quiet: "quiet ev \<Longrightarrow> files_ok (log @ ev) s = files_ok log s"
  by (simp add: files_ok_def file_ok_def tells_quiet attempts_quiet)

lemma turning_quiet: "quiet ev \<Longrightarrow> turning_ok (log @ ev) s d = turning_ok log s d"
  by (simp add: turning_ok_def tells_quiet attempts_quiet)

lemma pending_quiet: "quiet ev \<Longrightarrow> pending_ok (log @ ev) s d = pending_ok log s d"
  by (simp add: pending_ok_def turning_quiet turns_quiet)

lemma pc_quiet: "quiet ev \<Longrightarrow> pc_ok (log @ ev) s pc = pc_ok log s pc"
  by (cases pc) (simp_all add: turning_quiet pending_quiet list_all_iff)

lemma log_ok_quiet: "quiet ev \<Longrightarrow> log_ok (log @ ev) = log_ok log"
  by (simp add: log_ok_def turns_quiet quiet_mem)

lemma kept_safe:
  assumes "kept log s" "log_ok log" "safe_change log s s'" "files_ok log s"
  shows "kept log s'"
  using assms unfolding kept_def safe_change_def log_ok_def by blast

lemma kept_turn:
  assumes "kept log s" "log_ok log" "turn_change log n ev s s'" "files_ok log s"
  shows "kept (log @ ev) s'"
  using assms unfolding kept_def turn_change_def log_ok_def by (auto 4 4)

subsection \<open>Deleting a trigger\<close>

text \<open>\<open>s'\<close> is \<open>s\<close> with some files gone.\<close>

definition shrunk :: "tstore \<Rightarrow> tstore \<Rightarrow> bool" where
  "shrunk s s' \<longleftrightarrow> dict_wf (ts_files s') \<and> (\<forall>p. dict_get (ts_files s') p \<in> {dict_get (ts_files s) p, None})"

lemma shrunk_get: "shrunk s s' \<Longrightarrow> dict_get (ts_files s') p = Some f \<Longrightarrow> dict_get (ts_files s) p = Some f"
  unfolding shrunk_def by (metis insert_iff option.distinct(1) singletonD)

lemma shrunk_None: "shrunk s s' \<Longrightarrow> dict_get (ts_files s) p = None \<Longrightarrow> dict_get (ts_files s') p = None"
  unfolding shrunk_def by (metis insert_iff singletonD)

lemma files_ok_shrunk: "shrunk s s' \<Longrightarrow> files_ok log s \<Longrightarrow> files_ok log s'"
  using shrunk_get[of s s'] unfolding files_ok_def shrunk_def by blast

lemma turning_shrunk: "shrunk s s' \<Longrightarrow> turning_ok log s d \<Longrightarrow> turning_ok log s' d"
  by (auto simp: turning_ok_def shrunk_None)

lemma pending_shrunk: "shrunk s s' \<Longrightarrow> pending_ok log s d \<Longrightarrow> pending_ok log s' d"
  using shrunk_get[of s s'] by (auto simp: pending_ok_def turning_shrunk)

lemma pc_shrunk: "shrunk s s' \<Longrightarrow> pc_ok log s pc \<Longrightarrow> pc_ok log s' pc"
  by (cases pc) (auto simp: list_all_iff pending_shrunk turning_shrunk)

lemma map_of_filter_key: "map_of (filter (\<lambda>(k, _). P k) xs) k = (if P k then map_of xs k else None)"
  by (induction xs) auto

lemma delete_cases:
  assumes "delete_trigger E i s = (r, s')"
  shows "keeps_files s s' \<or> (\<exists>t. keeps_files s t \<and> r = Inr True \<and> s' = delete_delivery_files E (strip i) t)"
proof -
  obtain r1 t where l: "load_triggers E s = (r1, t)"
    by fastforce
  have t: "keeps_files s t"
    using keeps_load[of s E] l by simp
  have early: "te_ready E \<Longrightarrow> r1 = Inl e \<Longrightarrow> s' = t" "\<not> te_ready E \<Longrightarrow> s' = s" for e
    using assms l by (simp_all add: delete_trigger_def ensure_dirs_def)
  show ?thesis
  proof (cases "te_ready E \<and> (\<exists>ts. r1 = Inr ts)")
    case False
    then show ?thesis
      using early t by (cases "te_ready E"; cases r1) auto
  next
    case True
    then obtain ts where ts: "r1 = Inr ts" "te_ready E" by blast
    define rest where "rest = filter (\<lambda>t. lt_id t \<noteq> strip i) ts"
    obtain r2 u where sv: "save_triggers E rest t = (r2, u)"
      by fastforce
    have u: "keeps_files s u"
      using keeps_trans[OF t keeps_save, of E rest] sv by simp
    have "(if length rest = length ts then (Inr False, t)
           else and_then (r2, u) (\<lambda>_ s. (Inr True, delete_delivery_files E (strip i) s))) = (r, s')"
      using assms ts l sv by (simp add: delete_trigger_def ensure_dirs_def rest_def[symmetric] split: if_splits)
    then show ?thesis
      using t u by (cases r2) (auto split: if_splits)
  qed
qed

lemma delete_files:
  assumes "delete_trigger E i s = (r, s')" "dict_wf (ts_files s)"
  shows "shrunk s s' \<and>
    (\<forall>p f. dict_get (ts_files s) p = Some f \<longrightarrow> dict_get (ts_files s') p = None \<longrightarrow>
       r = Inr True \<and> delivery_file_trigger_id E p s = Some (strip i))"
proof -
  have same: "shrunk s t \<and> (\<forall>p f. dict_get (ts_files s) p = Some f \<longrightarrow> dict_get (ts_files t) p = None \<longrightarrow> P p)"
    if "keeps_files s t" for t P
    using that assms(2) by (simp add: keeps_files_def shrunk_def)
  have read: "delivery_file_trigger_id E p t = delivery_file_trigger_id E p s" if "keeps_files s t" for t p
    using that by (simp add: delivery_file_trigger_id_def read_json_def keeps_files_def)
  have del: "shrunk s (delete_delivery_files E (strip i) t) \<and>
    (\<forall>p f. dict_get (ts_files s) p = Some f \<longrightarrow>
       dict_get (ts_files (delete_delivery_files E (strip i) t)) p = None \<longrightarrow>
       delivery_file_trigger_id E p s = Some (strip i))" if "keeps_files s t" for t
    using that assms(2) read[OF that]
    by (auto simp: delete_delivery_files_def shrunk_def map_of_filter_key keeps_files_def distinct_map_filter)
  from delete_cases[OF assms(1)] show ?thesis
  proof
    assume "keeps_files s s'"
    then show ?thesis by (rule same)
  next
    assume "\<exists>t. keeps_files s t \<and> r = Inr True \<and> s' = delete_delivery_files E (strip i) t"
    then obtain t where "keeps_files s t" "r = Inr True" "s' = delete_delivery_files E (strip i) t"
      by blast
    with del[of t] show ?thesis by simp
  qed
qed

lemma payload_trigger_id:
  assumes "dict_get (ts_files s) p = Some (Holds (delivery_payload d))" "delivery_file_trigger_id E p s = Some i"
  shows "td_trigger_id d = i"
  using assms
  by (auto simp: delivery_file_trigger_id_def read_json_def delivery_payload_def delivery_to_dict_def
      get_key_def get_camel_snake_def Let_def split: if_splits)

subsection \<open>Enqueueing\<close>

definition new_delivery :: "trig_env \<Rightarrow> string \<Rightarrow> string \<Rightarrow> trigger_delivery" where
  "new_delivery E i c = \<lparr>td_id = ''tdl_'' @ te_hex E, td_trigger_id = strip i, td_content = c,
     td_created_at_ms = te_now E, td_attempts = 0, td_last_error = JNull,
     td_path = Some (Inbox, drawn_name E)\<rparr>"

lemma suffix_drawn [simp]: "suffix ''.json'' (drawn_name E)"
  by (simp add: drawn_name_def delivery_file_name_def suffix_def)

text \<open>\<open>s'\<close> is \<open>s\<close> but for the file \<open>p\<close>, which is as it was, gone, or holds \<open>v\<close>.\<close>

definition touched :: "tpath \<Rightarrow> tfile \<Rightarrow> tstore \<Rightarrow> tstore \<Rightarrow> bool" where
  "touched p v s s' \<longleftrightarrow> dict_wf (ts_files s') \<and> (\<forall>q. q \<noteq> p \<longrightarrow> dict_get (ts_files s') q = dict_get (ts_files s) q)
     \<and> dict_get (ts_files s') p \<in> {dict_get (ts_files s) p, None, Some v}"

lemma touched_keeps: "dict_wf (ts_files s) \<Longrightarrow> keeps_files s s' \<Longrightarrow> touched p v s s'"
  by (simp add: touched_def keeps_files_def)

lemma touched_put: "dict_wf (ts_files s) \<Longrightarrow> keeps_files s s1 \<Longrightarrow> keeps_files (put_file p v s1) s' \<Longrightarrow> touched p v s s'"
  by (simp add: touched_def keeps_files_def put_file_def)

lemma touched_del:
  "dict_wf (ts_files s) \<Longrightarrow> keeps_files s s1 \<Longrightarrow> keeps_files (del_file p (put_file p v s1)) s' \<Longrightarrow> touched p v s s'"
  by (simp add: touched_def keeps_files_def put_file_def del_file_def)

lemma rollback_files:
  assumes "enqueue_rollback E p run e s = (r, s')"
  shows "(\<exists>e'. r = Inl e') \<and> (keeps_files s s' \<or> keeps_files (del_file p s) s')"
  using assms unfolding enqueue_rollback_def unlink_file_def
  by (auto simp: keeps_files_def split: if_splits option.splits)

lemma enqueue_record_files:
  assumes "enqueue_record E d p t ts s = (r, s')"
  shows "(keeps_files s s' \<and> (\<forall>d'. r = Inr d' \<longrightarrow> d' = d))
     \<or> (\<exists>e. r = Inl e) \<and> keeps_files (del_file p s) s'"
proof -
  obtain r1 s1 where r1: "write_delivery_run_record E d ''queued'' (Some t) None None s = (r1, s1)"
    by fastforce
  have k1: "keeps_files s s1"
    using keeps_delivery_record[of s E d "''queued''" "Some t" None None] r1 by simp
  define ts' where "ts' = put_trigger (td_trigger_id d)
    (t\<lparr>lt_last_message := run_record_text (td_content d), lt_updated_at_ms := td_created_at_ms d\<rparr>) ts"
  obtain r2 s2 where r2: "save_triggers E ts' s1 = (r2, s2)"
    by fastforce
  have k2: "keeps_files s s2"
    using keeps_trans[OF k1 keeps_save, of E ts'] r2 by simp
  have rb: "(keeps_files s s' \<and> (\<forall>d'. r = Inr d' \<longrightarrow> d' = d)) \<or> (\<exists>e. r = Inl e) \<and> keeps_files (del_file p s) s'"
    if "enqueue_rollback E p run e u = (r, s')" "keeps_files s u" for run e u
    using rollback_files[OF that(1)] that(2) by (auto simp: keeps_files_def del_file_def)
  show ?thesis
  proof (cases r1)
    case (Inl e)
    with assms r1 k1 rb[of None e s1] show ?thesis by (simp add: enqueue_record_def)
  next
    case (Inr n)
    then have "(case (r2, s2) of (Inl e, s) \<Rightarrow> enqueue_rollback E p (Some n) e s | (Inr _, s) \<Rightarrow> (Inr d, s)) = (r, s')"
      using assms r1 r2 by (simp add: enqueue_record_def ts'_def)
    with k2 rb[of "Some n" _ s2] show ?thesis by (cases r2) auto
  qed
qed

lemma enqueue_cases:
  assumes "enqueue E i c s = (r, s')"
  obtains e where "r = Inl e" "keeps_files s s'"
        | s1 t ts where "keeps_files s s1" "lt_enabled t"
            "and_then (write_delivery E (Inbox, drawn_name E) (delivery_payload (new_delivery E i c)) s1)
               (\<lambda>_ s. enqueue_record E (new_delivery E i c) (Inbox, drawn_name E) t ts s) = (r, s')"
proof -
  obtain r1 s1 where l: "load_triggers E s = (r1, s1)"
    by fastforce
  have k: "keeps_files s s1"
    using keeps_load[of s E] l by simp
  show thesis
  proof (cases "strip c = [] \<or> \<not> te_ready E")
    case True
    with assms that(1) show thesis by (auto simp: enqueue_def ensure_dirs_def Let_def split: if_splits)
  next
    case ready: False
    show thesis
    proof (cases r1)
      case (Inl e)
      with assms ready l k that(1)[of e] show thesis by (auto simp: enqueue_def ensure_dirs_def)
    next
      case (Inr ts)
      show thesis
      proof (cases "find_trigger ts (strip i)")
        case None
        with assms ready l Inr k that(1)[of "TriggerNotFound (strip i)"] show thesis
          by (auto simp: enqueue_def ensure_dirs_def)
      next
        case (Some t)
        show thesis
        proof (cases "lt_enabled t")
          case False
          with assms ready l Inr Some k that(1)[of "TriggerDisabled (strip i)"] show thesis
            by (auto simp: enqueue_def ensure_dirs_def)
        next
          case True
          with assms ready l Inr Some k that(2)[OF k True] show thesis
            by (simp add: enqueue_def ensure_dirs_def new_delivery_def drawn_name_def Let_def)
        qed
      qed
    qed
  qed
qed

lemma enqueue_files:
  assumes "enqueue E i c s = (r, s')" "dict_wf (ts_files s)"
  shows "touched (Inbox, drawn_name E) (Holds (delivery_payload (new_delivery E i c))) s s' \<and>
    (\<forall>d. r = Inr d \<longrightarrow> d = new_delivery E i c \<and>
       dict_get (ts_files s') (Inbox, drawn_name E) = Some (Holds (delivery_payload d)))"
  using assms(1)
proof (cases rule: enqueue_cases)
  case (1 e)
  then show ?thesis using assms(2) by (simp add: touched_keeps)
next
  case (2 s1 t ts)
  let ?p = "(Inbox, drawn_name E)" and ?d = "new_delivery E i c"
  let ?s2 = "put_file ?p (Holds (delivery_payload ?d)) s1"
  show ?thesis
  proof (cases "te_write E (DeliveryFile ?p)")
    case Fine
    then have "enqueue_record E ?d ?p t ts ?s2 = (r, s')"
      using 2(3) by (simp add: write_delivery_def atomically_def)
    from enqueue_record_files[OF this] show ?thesis
    proof
      assume k: "keeps_files ?s2 s' \<and> (\<forall>d'. r = Inr d' \<longrightarrow> d' = ?d)"
      then have "dict_get (ts_files s') ?p = Some (Holds (delivery_payload ?d))"
        by (simp add: keeps_files_def put_file_def)
      with k show ?thesis
        using touched_put[OF assms(2) 2(1)] by auto
    next
      assume "(\<exists>e. r = Inl e) \<and> keeps_files (del_file ?p ?s2) s'"
      then show ?thesis
        using touched_del[OF assms(2) 2(1)] by auto
    qed
  next
    case Early
    then have "r = Inl OSErr" "s' = s1"
      using 2(3) by (auto simp: write_delivery_def atomically_def)
    with 2(1) assms(2) show ?thesis by (simp add: touched_keeps)
  next
    case Late
    then have "r = Inl OSErr" "s' = ?s2"
      using 2(3) by (auto simp: write_delivery_def atomically_def)
    with 2(1) assms(2) show ?thesis by (simp add: touched_put)
  qed
qed

subsection \<open>The steps keep the invariant\<close>

text \<open>Drawing a name that was not drawn before changes nothing for the others.\<close>

lemma tells_drew: "tells log n d \<Longrightarrow> tells (log @ [Drew m]) n d"
  by (auto simp: tells_def)

lemma tells_queued: "tells log n d \<Longrightarrow> Drew m \<notin> set log \<Longrightarrow> tells (log @ [Drew m, Queued m D]) n d"
  by (auto simp: tells_def)

definition enqueue_log :: "gw_event list \<Rightarrow> string \<Rightarrow> trigger_delivery option \<Rightarrow> gw_event list" where
  "enqueue_log log m D = log @ Drew m # (case D of None \<Rightarrow> [] | Some d \<Rightarrow> [Queued m d])"

lemma turns_enqueue [simp]: "turns (enqueue_log log m D) n = turns log n"
  by (cases D) (simp_all add: enqueue_log_def)

lemma tells_enqueue: "Drew m \<notin> set log \<Longrightarrow> tells log n d \<Longrightarrow> tells (enqueue_log log m D) n d"
  by (cases D) (simp_all add: enqueue_log_def tells_drew tells_queued)

lemma attempts_enqueue: "attempts_ok (enqueue_log log m D) dir n d = attempts_ok log dir n d"
  by (simp add: attempts_ok_def split: tdir.split)

lemma file_ok_enqueue: "Drew m \<notin> set log \<Longrightarrow> file_ok log p f \<Longrightarrow> file_ok (enqueue_log log m D) p f"
  by (auto simp: file_ok_def attempts_enqueue intro: tells_enqueue)

lemma not_drawn_no_file:
  assumes "files_ok log s" "Drew m \<notin> set log" "suffix ''.json'' m" "file_base p m"
  shows "dict_get (ts_files s) p = None"
proof (rule ccontr)
  assume "dict_get (ts_files s) p \<noteq> None"
  then obtain f where "dict_get (ts_files s) p = Some f" by blast
  then have "file_ok log p f"
    using assms(1) files_ok_get by blast
  then obtain n d where n: "file_base p n" "tells log n d"
    by (auto elim: file_okE)
  then have "n = m"
    using assms(3,4) file_base_unique by (auto simp: tells_def)
  with n(2) assms(2) show False by (simp add: tells_def)
qed

lemma turning_enqueue:
  assumes "turning_ok log s d" "touched (Inbox, m) f s s'" "Drew m \<notin> set log"
  shows "turning_ok (enqueue_log log m D) s' d"
proof -
  have "file_of d \<noteq> m"
    using assms(1,3) by (auto simp: turning_ok_def tells_def)
  with assms show ?thesis
    by (simp add: turning_ok_def touched_def tells_enqueue attempts_enqueue)
qed

lemma pending_enqueue:
  "pending_ok log s d \<Longrightarrow> touched (Inbox, m) f s s' \<Longrightarrow> Drew m \<notin> set log
     \<Longrightarrow> pending_ok (enqueue_log log m D) s' d"
  by (auto simp: pending_ok_def turning_enqueue) (auto simp: touched_def)

lemma pc_enqueue:
  "pc_ok log s pc \<Longrightarrow> touched (Inbox, m) f s s' \<Longrightarrow> Drew m \<notin> set log \<Longrightarrow> pc_ok (enqueue_log log m D) s' pc"
  by (cases pc) (auto simp: list_all_iff turning_enqueue pending_enqueue)

lemma log_ok_enqueue:
  assumes "log_ok log" "Drew m \<notin> set log" "suffix ''.json'' m"
  shows "log_ok (enqueue_log log m D)"
  using assms by (cases D) (auto simp: log_ok_def enqueue_log_def)

text \<open>An undrawn name has no turn and no file, so a new delivery starts with the count right.\<close>

lemma new_file_ok:
  assumes "log_ok log" "Drew (drawn_name E) \<notin> set log" "D = None \<or> D = Some (new_delivery E i c)"
  shows "file_ok (enqueue_log log (drawn_name E) D) (Inbox, drawn_name E) (Holds (delivery_payload (new_delivery E i c)))"
proof (rule file_okI[where n = "drawn_name E"])
  have "turns log (drawn_name E) = 0"
    using assms(1,2) by (auto simp: log_ok_def)
  then show "attempts_ok (enqueue_log log (drawn_name E) D) (fst (Inbox, drawn_name E)) (drawn_name E) (new_delivery E i c)"
    by (simp add: attempts_ok_def new_delivery_def MAX_DELIVERY_ATTEMPTS_def)
  have "Queued (drawn_name E) X \<notin> set log" for X
    using assms(1,2) by (auto simp: log_ok_def)
  then show "tells (enqueue_log log (drawn_name E) D) (drawn_name E) (new_delivery E i c)"
    using assms(3) by (auto simp: tells_def enqueue_log_def same_message_def)
qed simp

lemma files_ok_enqueue:
  assumes "files_ok log s" "log_ok log" "Drew (drawn_name E) \<notin> set log"
    "touched (Inbox, drawn_name E) (Holds (delivery_payload (new_delivery E i c))) s s'"
    "D = None \<or> D = Some (new_delivery E i c)"
  shows "files_ok (enqueue_log log (drawn_name E) D) s'"
  unfolding files_ok_def
proof (intro conjI allI impI)
  show "dict_wf (ts_files s')"
    using assms(4) by (simp add: touched_def)
  fix p f assume f: "dict_get (ts_files s') p = Some f"
  show "file_ok (enqueue_log log (drawn_name E) D) p f"
  proof (cases "dict_get (ts_files s) p = Some f")
    case True
    then show ?thesis
      using assms(1,3) file_ok_enqueue files_ok_get by blast
  next
    case False
    with f assms(4) have "p = (Inbox, drawn_name E)" "f = Holds (delivery_payload (new_delivery E i c))"
      unfolding touched_def by (metis insert_iff option.distinct(1) option.inject singletonD)+
    then show ?thesis
      using new_file_ok assms by simp
  qed
qed

lemma kept_enqueue:
  assumes "kept log s" "log_ok log" "files_ok log s" "Drew m \<notin> set log" "suffix ''.json'' m"
    "touched (Inbox, m) f s s'" "D \<noteq> None \<Longrightarrow> dict_get (ts_files s') (Inbox, m) = Some f'"
  shows "kept (enqueue_log log m D) s'"
proof -
  have old: "live s' n" if l: "live s n" for n
  proof -
    obtain p where p: "file_base p n" "dict_get (ts_files s) p \<noteq> None"
      using l by (auto simp: live_def)
    have "p \<noteq> (Inbox, m)"
      using p(2) not_drawn_no_file[OF assms(3,4,5), of "(Inbox, m)"] by auto
    then have "dict_get (ts_files s') p \<noteq> None"
      using p(2) assms(6) unfolding touched_def by metis
    with p(1) show ?thesis
      unfolding live_def by blast
  qed
  have new: "D \<noteq> None \<Longrightarrow> live s' m"
    using assms(7) unfolding live_def by (metis file_base_simps(1) option.distinct(1))
  show ?thesis
    using assms(1) old new by (cases D) (auto simp: kept_def enqueue_log_def)
qed

lemma cli_enqueue_log:
  "cli_do E (OEnqueue i c) s = (ev, s') \<Longrightarrow>
     (\<exists>r. enqueue E i c s = (r, s')
          \<and> log @ ev = enqueue_log log (drawn_name E) (case r of Inl _ \<Rightarrow> None | Inr d \<Rightarrow> Some d))"
  by (auto simp: enqueue_log_def split: prod.splits sum.splits)

definition world_ok :: "gw_event list \<Rightarrow> tstore \<Rightarrow> gw_pc \<Rightarrow> bool" where
  "world_ok log s pc \<longleftrightarrow> files_ok log s \<and> pc_ok log s pc \<and> log_ok log \<and> kept log s"

lemma world_enqueue:
  assumes "cli_do E (OEnqueue i c) s = (ev, s')" "world_ok log s pc" "Drew (drawn_name E) \<notin> set log"
  shows "world_ok (log @ ev) s' pc"
proof -
  obtain r where r: "enqueue E i c s = (r, s')"
    and log: "log @ ev = enqueue_log log (drawn_name E) (case r of Inl _ \<Rightarrow> None | Inr d \<Rightarrow> Some d)"
    using cli_enqueue_log[OF assms(1)] by blast
  have w: "files_ok log s" "pc_ok log s pc" "log_ok log" "kept log s"
    using assms(2) by (simp_all add: world_ok_def)
  have f: "touched (Inbox, drawn_name E) (Holds (delivery_payload (new_delivery E i c))) s s'"
    "\<And>d. r = Inr d \<Longrightarrow> d = new_delivery E i c \<and>
       dict_get (ts_files s') (Inbox, drawn_name E) = Some (Holds (delivery_payload d))"
    using enqueue_files[OF r] w(1) by (simp_all add: files_ok_def)
  have D: "(case r of Inl _ \<Rightarrow> None | Inr d \<Rightarrow> Some d) = None \<or>
           (case r of Inl _ \<Rightarrow> None | Inr d \<Rightarrow> Some d) = Some (new_delivery E i c)"
    using f(2) by (cases r) auto
  have kept: "kept (log @ ev) s'"
    unfolding log using f(2)
    by (intro kept_enqueue[OF w(4,3,1) assms(3) suffix_drawn f(1),
          where f' = "Holds (delivery_payload (new_delivery E i c))"]) (auto split: sum.splits)
  show ?thesis
    using files_ok_enqueue[OF w(1,3) assms(3) f(1) D] pc_enqueue[OF w(2) f(1) assms(3)]
      log_ok_enqueue[OF w(3) assms(3) suffix_drawn] kept
    by (simp add: world_ok_def log)
qed

lemma world_quiet:
  assumes "world_ok log s pc" "keeps_files s s'"
  shows "world_ok log s' pc"
proof -
  have "turning_ok log s' d" if "turning_ok log s d" for d
    using that assms(2) by (rule turning_keeps[rotated])
  moreover have "pending_ok log s' d" if "pending_ok log s d" for d
    using that assms(2) agree_keeps pending_agree by blast
  ultimately have "pc_ok log s pc \<Longrightarrow> pc_ok log s' pc"
    by (cases pc) (auto simp: list_all_iff)
  then show ?thesis
    using assms kept_safe[of log s s'] safe_keeps files_ok_keeps by (auto simp: world_ok_def)
qed

lemma world_delete:
  assumes "cli_do E (ODelete i) s = (ev, s')" "world_ok log s pc"
  shows "world_ok (log @ ev) s' pc"
proof -
  have w: "files_ok log s" "pc_ok log s pc" "log_ok log" "kept log s"
    using assms(2) by (simp_all add: world_ok_def)
  obtain r where r: "delete_trigger E i s = (r, s')" "ev = (if r = Inr True then [TriggerGone (strip i)] else [])"
    using assms(1) by (auto split: prod.splits sum.splits bool.splits)
  have wf: "dict_wf (ts_files s)"
    using w(1) by (simp add: files_ok_def)
  have sh: "shrunk s s'"
    and gone: "\<And>p f. dict_get (ts_files s) p = Some f \<Longrightarrow> dict_get (ts_files s') p = None \<Longrightarrow>
       r = Inr True \<and> delivery_file_trigger_id E p s = Some (strip i)"
    using delete_files[OF r(1) wf] by blast+
  have q: "quiet ev"
    by (simp add: r(2))
  have "Completed n \<in> set (log @ ev) \<or> TriggerGone (td_trigger_id D) \<in> set (log @ ev) \<or> live s' n"
    if D: "Queued n D \<in> set (log @ ev)" for n D
  proof -
    have D': "Queued n D \<in> set log"
      using D q by (auto simp: quiet_mem)
    show ?thesis
    proof (cases "live s n \<and> \<not> live s' n")
      case False
      with D' w(4) show ?thesis by (auto simp: kept_def)
    next
      case True
      then obtain p f where p: "file_base p n" "dict_get (ts_files s) p = Some f" "dict_get (ts_files s') p = None"
        by (auto simp: live_def)
      obtain m d where d: "file_base p m" "f = Holds (delivery_payload d)" "tells log m d"
        using files_ok_get[OF w(1) p(2)] by (auto elim: file_okE)
      have "m = n"
        using file_base_unique[OF d(1) p(1)] d(3) D' w(3) by (auto simp: tells_def log_ok_def)
      then have "td_trigger_id d = td_trigger_id D"
        using d(3) D' by (auto simp: tells_def same_message_def)
      then show ?thesis
        using gone[OF p(2,3)] payload_trigger_id[of s p d E] p(2) d(2) r(2) by auto
    qed
  qed
  then have "kept (log @ ev) s'"
    by (simp add: kept_def)
  then show ?thesis
    using w sh q by (simp add: world_ok_def files_ok_quiet pc_quiet log_ok_quiet files_ok_shrunk pc_shrunk)
qed

lemma world_cli:
  assumes "world_ok (gw_log w) (gw_store w) (gw_pc w)" "draws_fresh E op w"
  shows "world_ok (gw_log (cli_world E op w)) (gw_store (cli_world E op w)) (gw_pc (cli_world E op w))"
proof -
  obtain ev s' where do: "cli_do E op (gw_store w) = (ev, s')"
    by fastforce
  have plain: "world_ok (gw_log w @ ev) s' (gw_pc w)" if "ev = []" "keeps_files (gw_store w) s'"
    using that assms(1) world_quiet by simp
  have "world_ok (gw_log w @ ev) s' (gw_pc w)"
  proof (cases op)
    case (ODelete i)
    with do assms(1) world_delete show ?thesis by blast
  next
    case (OEnqueue i c)
    with do assms world_enqueue[of E i c] show ?thesis by (simp del: cli_do.simps)
  next
    case (OEnable i b)
    with do plain keeps_change[of "gw_store w"] show ?thesis by (auto simp: enable_trigger_def)
  next
    case (OUpdate i n)
    with do plain keeps_change[of "gw_store w"] show ?thesis by (auto simp: update_trigger_def)
  next
    case (OCreate n c h k sd m)
    with do plain keeps_create[of "gw_store w" E n c h k sd m] show ?thesis by auto
  next
    case (OList b)
    with do plain keeps_list[of "gw_store w" E b] show ?thesis by auto
  next
    case (OGet i)
    with do plain keeps_get[of "gw_store w" E i] show ?thesis by auto
  qed
  with do show ?thesis by (simp add: cli_world_def)
qed

lemma distinct_map_other:
  assumes "distinct (map f (d # ds))" "e \<in> set ds"
  shows "f e \<noteq> f d"
proof
  assume "f e = f d"
  then have "f d \<in> f ` set ds"
    using assms(2) by (metis imageI)
  with assms(1) show False by simp
qed

lemma pending_turning: "pending_ok log s d \<Longrightarrow> turning_ok log s d"
  by (simp add: pending_ok_def)

text \<open>After a step for \<open>d\<close> the rest of the batch waits as before.\<close>

lemma world_turn:
  assumes "turn_change log (file_of d) ev s s'" "files_ok log s" "log_ok log" "kept log s"
    "list_all (pending_ok log s) ds" "distinct (map file_of (d # ds))"
  shows "world_ok (log @ ev) s' (gw_next ds on)"
proof -
  have t: "files_ok log s'" "\<And>m. m \<noteq> file_of d \<Longrightarrow> agree_at m s s'" "quiet ev"
    using assms(1,2) by (auto simp: turn_change_def quiet_def)
  have "list_all (pending_ok log s') ds"
    using assms(5)
  proof (rule pending_list_agree)
    fix e assume "e \<in> set ds"
    then have "file_of e \<noteq> file_of d"
      by (rule distinct_map_other[OF assms(6)])
    then show "agree_at (file_of e) s s'"
      by (rule t(2))
  qed
  then have "pc_ok log s' (gw_next ds on)"
    using assms(6) by (simp add: gw_next_def)
  with t kept_turn[OF assms(4,3,1,2)] assms(3) show ?thesis
    by (simp add: world_ok_def files_ok_quiet pc_quiet log_ok_quiet)
qed

text \<open>A turn begins: the count of the delivery goes up by one, and only its own file notices.\<close>

lemma turns_submit: "turns (log @ [Submitted n m]) k = turns log k + (if k = n then 1 else 0)"
  by auto

lemma tells_submit: "tells (log @ [Submitted n m]) k d = tells log k d"
  by (simp add: tells_def)

lemma attempts_submit: "k \<noteq> n \<Longrightarrow> attempts_ok (log @ [Submitted n m]) dir k d = attempts_ok log dir k d"
  by (simp add: attempts_ok_def turns_submit split: tdir.split)

lemma turning_submit:
  "turning_ok log s d \<Longrightarrow> file_of d \<noteq> n \<Longrightarrow> turning_ok (log @ [Submitted n m]) s d"
  by (simp add: turning_ok_def tells_submit attempts_submit)

lemma pending_submit:
  "pending_ok log s d \<Longrightarrow> file_of d \<noteq> n \<Longrightarrow> pending_ok (log @ [Submitted n m]) s d"
  by (simp add: pending_ok_def turning_submit)

lemma started_turning: "pending_ok log s d \<Longrightarrow> turning_ok (log @ [Submitted (file_of d) m]) s d"
  by (simp add: pending_ok_def turning_ok_def tells_submit attempts_ok_def)

lemma files_ok_submit:
  assumes "files_ok log s" "pending_ok log s d"
  shows "files_ok (log @ [Submitted (file_of d) m]) s"
proof -
  have "file_ok (log @ [Submitted (file_of d) m]) p f" if f: "dict_get (ts_files s) p = Some f" for p f
  proof -
    obtain n e where e: "file_base p n" "f = Holds (delivery_payload e)" "tells log n e" "attempts_ok log (fst p) n e"
      using files_ok_get[OF assms(1) f] by (auto elim: file_okE)
    have "attempts_ok (log @ [Submitted (file_of d) m]) (fst p) n e"
    proof (cases "n = file_of d")
      case False
      with e(4) show ?thesis by (simp add: attempts_submit)
    next
      case True
      show ?thesis
      proof (cases "fst p")
        case Inbox
        then have "p = (Inbox, file_of d)"
          using e(1) True by (cases p) simp
        with f assms(2) show ?thesis by (simp add: pending_ok_def turning_ok_def)
      next
        case Processing
        then have "p = (Processing, file_of d)"
          using e(1) True by (cases p) simp
        then have "td_attempts e = td_attempts d"
          using f e(2) assms(2) by (simp add: pending_ok_def)
        then show ?thesis
          using e(4) assms(2) True Processing by (auto simp: attempts_ok_def pending_ok_def)
      next
        case Failed
        with e(4) show ?thesis by (simp add: attempts_ok_def)
      qed
    qed
    with e show ?thesis
      by (auto intro!: file_okI[where n = n] simp: tells_submit)
  qed
  with assms(1) show ?thesis
    by (simp add: files_ok_def)
qed

lemma log_ok_submit:
  assumes "log_ok log" "pending_ok log s d"
  shows "log_ok (log @ [Submitted (file_of d) m])"
  using assms
  by (auto simp: log_ok_def pending_ok_def turning_ok_def attempts_ok_def tells_def turns_submit)

lemma world_begin:
  assumes "world_ok (gw_log w) (gw_store w) (gw_pc w)" "gw_pc w = GBatch (d # ds)"
  shows "world_ok (gw_log (gw_begin Q d ds w)) (gw_store (gw_begin Q d ds w)) (gw_pc (gw_begin Q d ds w))"
proof -
  obtain r s1 where b: "begin_delivery Q d (gw_store w) = (r, s1)"
    by fastforce
  have w1: "world_ok (gw_log w) s1 (GBatch (d # ds))"
    using world_quiet[OF assms(1) keeps_begin[OF b]] assms(2) by simp
  then have p: "files_ok (gw_log w) s1" "log_ok (gw_log w)" "kept (gw_log w) s1" "pending_ok (gw_log w) s1 d"
    "list_all (pending_ok (gw_log w) s1) ds" "distinct (map file_of (d # ds))"
    by (simp_all add: world_ok_def)
  show ?thesis
  proof (cases r)
    case (Inl x)
    obtain on ev s2 where h: "handle_exc Q x d s1 = (on, ev, s2)"
      by (metis prod_cases3)
    have "world_ok (gw_log w @ ev) s2 (gw_next ds on)"
      using world_turn[OF turn_handle[OF h pending_turning[OF p(4)]] p(1,2,3,5,6)] .
    with b Inl h show ?thesis
      by (simp add: gw_begin_def gw_handled_def)
  next
    case (Inr tm)
    obtain t m where tm: "tm = (t, m)"
      by fastforce
    let ?log = "gw_log w @ [Submitted (file_of d) m]"
    have "pending_ok ?log s1 e" if "e \<in> set ds" for e
      using that p(5) distinct_map_other[OF p(6) that] by (intro pending_submit) (simp_all add: list_all_iff)
    then have "list_all (pending_ok ?log s1) ds"
      by (simp add: list_all_iff)
    moreover have "kept ?log s1"
      using p(3) by (simp add: kept_def)
    ultimately have "world_ok ?log s1 (GTurn d t ds)"
      using p(6) files_ok_submit[OF p(1,4)] log_ok_submit[OF p(2,4)] started_turning[OF p(4)]
      by (simp add: world_ok_def)
    with b Inr tm show ?thesis
      by (simp add: gw_begin_def)
  qed
qed

lemma world_finish:
  assumes "world_ok (gw_log w) (gw_store w) (gw_pc w)" "gw_pc w = GTurn d t ds"
  shows "world_ok (gw_log (gw_finish Q r d t ds w)) (gw_store (gw_finish Q r d t ds w)) (gw_pc (gw_finish Q r d t ds w))"
proof -
  have p: "files_ok (gw_log w) (gw_store w)" "log_ok (gw_log w)" "kept (gw_log w) (gw_store w)"
    "turning_ok (gw_log w) (gw_store w) d" "list_all (pending_ok (gw_log w) (gw_store w)) ds"
    "distinct (map file_of (d # ds))"
    using assms by (simp_all add: world_ok_def)
  obtain on ev s2 where f: "finish_delivery Q r t d (gw_store w) = (on, ev, s2)"
    by (metis prod_cases3)
  have "world_ok (gw_log w @ ev) s2 (gw_next ds on)"
    using world_turn[OF turn_finish[OF f p(4)] p(1,2,3,5,6)] .
  with f show ?thesis
    by (simp add: gw_finish_def gw_handled_def)
qed

lemma world_safe:
  assumes "world_ok log s pc" "safe_change log s s'" "pc_ok log s' pc'"
  shows "world_ok log s' pc'"
  using assms kept_safe[of log s s'] by (auto simp: world_ok_def safe_change_def)

lemma world_start:
  assumes "world_ok (gw_log w) (gw_store w) (gw_pc w)" "gw_pc w = GOff"
  shows "world_ok (gw_log (gw_start E w)) (gw_store (gw_start E w)) (gw_pc (gw_start E w))"
proof -
  obtain r s1 where r: "recover_processing_deliveries E (gw_store w) = (r, s1)"
    by fastforce
  have "safe_change (gw_log w) (gw_store w) s1"
    using recover_safe[OF r] assms(1) by (simp add: world_ok_def)
  then have "world_ok (gw_log w) s1 GPoll" "world_ok (gw_log w) s1 GOff"
    using world_safe[OF assms(1)] by auto
  with r assms(2) show ?thesis
    by (auto simp: gw_start_def split: sum.split)
qed

lemma world_poll:
  assumes "world_ok (gw_log w) (gw_store w) (gw_pc w)"
  shows "world_ok (gw_log (gw_poll E k w)) (gw_store (gw_poll E k w)) (gw_pc (gw_poll E k w))"
proof -
  obtain r s1 where r: "claim_deliveries E k (gw_store w) = (r, s1)"
    by fastforce
  have c: "safe_change (gw_log w) (gw_store w) s1"
    "\<And>ds. r = Inr ds \<Longrightarrow> pc_ok (gw_log w) s1 (GBatch ds)"
    using claim_ok[OF r] assms by (auto simp: world_ok_def)
  have "world_ok (gw_log w) s1 (case r of Inl _ \<Rightarrow> GOff | Inr ds \<Rightarrow> if ds = [] then GPoll else GBatch ds)"
    using world_safe[OF assms c(1)] c(2) by (auto split: sum.split)
  with r show ?thesis
    by (auto simp: gw_poll_def split: sum.split)
qed

lemma gw_step_ok:
  "gw_step w w' \<Longrightarrow> world_ok (gw_log w) (gw_store w) (gw_pc w) \<Longrightarrow> world_ok (gw_log w') (gw_store w') (gw_pc w')"
proof (induction rule: gw_step.induct)
  case (cli E op w)
  then show ?case by (simp add: world_cli)
next
  case (start w E)
  then show ?case by (simp add: world_start)
next
  case (poll w E k)
  then show ?case by (simp add: world_poll)
next
  case (begin_turn w d ds Q)
  then show ?case by (simp add: world_begin)
next
  case (end_turn w d t ds Q r)
  then show ?case by (simp add: world_finish)
next
  case (die w)
  then show ?case by (simp add: world_ok_def)
qed

lemma gw_reachable_ok: "gw_reachable w \<Longrightarrow> world_ok (gw_log w) (gw_store w) (gw_pc w)"
  unfolding gw_reachable_def
proof (induction rule: rtranclp_induct)
  case base
  show ?case
    by (simp add: gw_init_def empty_store_def world_ok_def files_ok_def log_ok_def kept_def MAX_DELIVERY_ATTEMPTS_def)
next
  case (step w w')
  then show ?case by (simp add: gw_step_ok)
qed

subsection \<open>Claims\<close>

text \<open>
  Claim C9: a delivery is not lost. Whatever the command line and the gateway do, with every write, move and
  unlink failing as it may and the gateway dying at any await, a delivery that an enqueue returned and that was
  neither handled to the end nor deleted with its trigger is held by some file of the queue (in the inbox, in
  processing, in the failed directory, or there under the name of an unreadable file), with its
  identifier, trigger, content and time.
\<close>

theorem delivery_never_lost:
  assumes "gw_reachable w" "Queued n D \<in> set (gw_log w)" "Completed n \<notin> set (gw_log w)"
    "TriggerGone (td_trigger_id D) \<notin> set (gw_log w)"
  shows "\<exists>p d. file_base p n \<and> dict_get (ts_files (gw_store w)) p = Some (Holds (delivery_payload d))
           \<and> same_message d D"
proof -
  have w: "files_ok (gw_log w) (gw_store w)" "log_ok (gw_log w)" "kept (gw_log w) (gw_store w)"
    using gw_reachable_ok[OF assms(1)] by (simp_all add: world_ok_def)
  have "live (gw_store w) n"
    using w(3) assms(2,3,4) unfolding kept_def by blast
  then obtain p f where p: "file_base p n" "dict_get (ts_files (gw_store w)) p = Some f"
    unfolding live_def by blast
  obtain m d where d: "file_base p m" "f = Holds (delivery_payload d)" "tells (gw_log w) m d"
    using files_ok_get[OF w(1) p(2)] by (auto elim: file_okE)
  have "m = n"
    using file_base_unique[OF d(1) p(1)] d(3) assms(2) w(2) by (auto simp: tells_def log_ok_def)
  then have "same_message d D"
    using d(3) assms(2) by (simp add: tells_def)
  with p d(2) show ?thesis by blast
qed

theorem delivery_never_lost_witness:
  "\<exists>p d. file_base p ''1000-tdl_0a1b2c3d4e5f.json''
      \<and> dict_get (ts_files (gw_store calm_world)) p = Some (Holds (delivery_payload d))
      \<and> same_message d (new_delivery calm_env ''trg_ABCDEFGH'' ''build failed'')"
proof (rule delivery_never_lost[OF calm_reachable])
  show "Queued ''1000-tdl_0a1b2c3d4e5f.json'' (new_delivery calm_env ''trg_ABCDEFGH'' ''build failed'')
          \<in> set (gw_log calm_world)"
    by code_simp
  show "Completed ''1000-tdl_0a1b2c3d4e5f.json'' \<notin> set (gw_log calm_world)"
    by code_simp
  show "TriggerGone (td_trigger_id (new_delivery calm_env ''trg_ABCDEFGH'' ''build failed'')) \<notin> set (gw_log calm_world)"
    by code_simp
qed

text \<open>
  Claim C10: a delivery is submitted to the agent at most ten times, over all lives of the gateway, whatever
  fails: each start of a turn is followed by its completion, or by a file whose attempt count has caught up
  with the turns.
\<close>

theorem at_most_ten_turns:
  assumes "gw_reachable w"
  shows "turns (gw_log w) n \<le> 10"
  using gw_reachable_ok[OF assms] by (auto simp: world_ok_def log_ok_def MAX_DELIVERY_ATTEMPTS_def)

theorem at_most_ten_turns_witness: "turns (gw_log calm_world) ''1000-tdl_0a1b2c3d4e5f.json'' \<le> 10"
  by (rule at_most_ten_turns[OF calm_reachable])

text \<open>
  Claim C1: an enqueue that raises may have queued the delivery. The file of the delivery is written before the
  block whose failures are undone; when that write fails after the rename, at the \<open>fsync\<close> of the
  directory, the caller gets the exception and the gateway gets the delivery.
\<close>

theorem failed_enqueue_still_queued:
  assumes "te_ready E" "strip c \<noteq> []" "load_triggers E s = (Inr ts, s)"
    "find_trigger ts (strip i) = Some t" "lt_enabled t"
    "te_write E (DeliveryFile (Inbox, drawn_name E)) = Late"
  shows "\<exists>s'. enqueue E i c s = (Inl OSErr, s')
           \<and> dict_get (ts_files s') (Inbox, drawn_name E) = Some (Holds (delivery_payload (new_delivery E i c)))
           \<and> drawn_name E \<in> set (queue_names Inbox s')"
proof -
  let ?s' = "put_file (Inbox, drawn_name E) (Holds (delivery_payload (new_delivery E i c))) s"
  have e: "enqueue E i c s = (Inl OSErr, ?s')"
    using assms by (simp add: enqueue_def ensure_dirs_def Let_def write_delivery_def atomically_def drawn_name_def
        new_delivery_def)
  have g: "dict_get (ts_files ?s') (Inbox, drawn_name E) = Some (Holds (delivery_payload (new_delivery E i c)))"
    by simp
  then have "((Inbox, drawn_name E), Holds (delivery_payload (new_delivery E i c))) \<in> set (ts_files ?s')"
    by (rule map_of_SomeD)
  then have "drawn_name E \<in> set (queue_names Inbox ?s')"
    by (force simp: queue_names_def)
  with e g show ?thesis by blast
qed

text \<open>A trigger exists; the directory cannot be synced.\<close>

definition late_env :: trig_env where
  "late_env = calm_env\<lparr>te_write := (\<lambda>_. Late), te_hex := ''ffffffffffff''\<rparr>"

definition calm_trigger :: local_trigger where
  "calm_trigger = (case create_trigger calm_env ''ci'' ''websocket'' ''c1'' ''websocket:c1'' ''trigger'' None empty_store
     of (Inr t, _) \<Rightarrow> t)"

definition one_trigger :: tstore where
  "one_trigger = snd (create_trigger calm_env ''ci'' ''websocket'' ''c1'' ''websocket:c1'' ''trigger'' None empty_store)"

theorem failed_enqueue_still_queued_witness:
  "\<exists>s'. enqueue late_env ''trg_ABCDEFGH'' ''build failed'' one_trigger = (Inl OSErr, s')
      \<and> dict_get (ts_files s') (Inbox, drawn_name late_env)
          = Some (Holds (delivery_payload (new_delivery late_env ''trg_ABCDEFGH'' ''build failed'')))
      \<and> drawn_name late_env \<in> set (queue_names Inbox s')"
proof (rule failed_enqueue_still_queued)
  show "te_ready late_env" by code_simp
  show "strip ''build failed'' \<noteq> []" by code_simp
  show "load_triggers late_env one_trigger = (Inr [calm_trigger], one_trigger)" by code_simp
  show "find_trigger [calm_trigger] (strip ''trg_ABCDEFGH'') = Some calm_trigger" by code_simp
  show "lt_enabled calm_trigger" by code_simp
  show "te_write late_env (DeliveryFile (Inbox, drawn_name late_env)) = Late" by (simp add: late_env_def)
qed

end
