(* ===== verification/TriggerList.thy ===== *)
theory TriggerList
  imports TriggerRunner
begin

text \<open>
  The trigger list over every interleaving of the steps of TriggerRunner: what \<open>triggers.json\<close> holds reads back as
  it was written, its identifiers stay apart, its histories and names stay short.
\<close>

lemma snd_and_then: "snd (and_then r (\<lambda>_ s. (Inr x, s))) = snd r"
  by (auto simp: and_then_def split: prod.split sum.split)

subsection \<open>The trigger list\<close>

text \<open>What \<open>triggers.json\<close> holds when the store wrote it.\<close>

definition trigger_ok :: "local_trigger \<Rightarrow> bool" where
  "trigger_ok t \<longleftrightarrow> trigger_full t \<and> length (lt_run_history t) \<le> MAX_RUN_HISTORY \<and> length (lt_name t) \<le> 120"

definition triggers_are :: "local_trigger list \<Rightarrow> tstore \<Rightarrow> bool" where
  "triggers_are ts s \<longleftrightarrow>
     (ts_store s = None \<and> ts = [] \<or> ts_store s = Some (Holds (triggers_payload ts)))
     \<and> distinct (map lt_id ts) \<and> list_all trigger_ok ts"

definition triggers_ok :: "tstore \<Rightarrow> bool" where
  "triggers_ok s \<longleftrightarrow> (\<exists>ts. triggers_are ts s)"

lemma decode_payload:
  assumes "list_all trigger_ok ts"
  shows "decode_triggers D (triggers_payload ts) = Some ts"
proof -
  have "filter is_json_dict (map trigger_to_dict ts) = map trigger_to_dict ts"
    by (induction ts) (simp_all add: is_json_dict_def trigger_to_dict_def)
  moreover have "map_all (trigger_from_dict D) (map trigger_to_dict ts) = Some ts"
    using assms by (induction ts) (simp_all add: trigger_ok_def trigger_roundtrip)
  ultimately show ?thesis
    by (simp add: decode_triggers_def triggers_payload_def get_key_def)
qed

lemma no_triggers_ok: "ts_store s = None \<Longrightarrow> triggers_ok s"
  unfolding triggers_ok_def triggers_are_def by (rule exI[of _ "[]"]) simp

lemma load_ok:
  assumes "load_triggers E s = (r, s')" "triggers_are ts s"
  shows "r = Inr ts \<and> s' = s \<or> (\<exists>e. r = Inl e) \<and> triggers_ok s'"
  using assms decode_payload[of ts]
  by (auto simp: load_triggers_def triggers_are_def no_triggers_ok split: if_splits)
     (auto simp: triggers_ok_def triggers_are_def)

lemma save_ok:
  assumes "triggers_are ts s" "distinct (map lt_id ts')" "list_all trigger_ok ts'"
  shows "triggers_ok (snd (save_triggers E ts' s))"
proof -
  have "triggers_are ts' (s\<lparr>ts_store := Some (Holds (triggers_payload ts'))\<rparr>)"
    using assms(2,3) by (simp add: triggers_are_def)
  with assms(1) show ?thesis
    by (auto simp: save_triggers_def atomically_def triggers_ok_def split: effect.split)
qed

lemma put_trigger_ids: "lt_id t' = i \<Longrightarrow> map lt_id (put_trigger i t' ts) = map lt_id ts"
  by (induction i t' ts rule: put_trigger.induct) auto

lemma put_trigger_ok: "list_all trigger_ok ts \<Longrightarrow> trigger_ok t' \<Longrightarrow> list_all trigger_ok (put_trigger i t' ts)"
  by (induction i t' ts rule: put_trigger.induct) auto

lemma find_trigger_ok:
  assumes "find_trigger ts i = Some t" "list_all trigger_ok ts"
  shows "lt_id t = i" "trigger_ok t"
proof -
  have "t \<in> set ts \<and> lt_id t = i"
    using assms(1) unfolding find_trigger_def by (rule find_SomeD)
  with assms(2) show "lt_id t = i" "trigger_ok t"
    by (auto simp: list_all_iff)
qed

lemma change_ok:
  assumes "triggers_ok s" "\<And>t. trigger_ok t \<Longrightarrow> trigger_ok (f t) \<and> lt_id (f t) = lt_id t"
  shows "triggers_ok (snd (change_trigger E i f s))"
proof -
  obtain ts where ts: "triggers_are ts s"
    using assms(1) by (auto simp: triggers_ok_def)
  obtain r s1 where l: "load_triggers E s = (r, s1)"
    by fastforce
  show ?thesis
  proof (cases "te_ready E \<and> r = Inr ts")
    case False
    with load_ok[OF l ts] l assms(1) show ?thesis
      by (auto simp: change_trigger_def ensure_dirs_def)
  next
    case True
    with load_ok[OF l ts] have s1: "s1 = s" by auto
    show ?thesis
    proof (cases "find_trigger ts i")
      case None
      with True l s1 assms(1) show ?thesis
        by (simp add: change_trigger_def ensure_dirs_def)
    next
      case (Some t)
      have t: "lt_id t = i" "trigger_ok t"
        using find_trigger_ok[OF Some] ts by (auto simp: triggers_are_def)
      have "triggers_ok (snd (save_triggers E (put_trigger i (f t) ts) s))"
        using ts t assms(2)[OF t(2)]
        by (intro save_ok[OF ts]) (auto simp: triggers_are_def put_trigger_ids put_trigger_ok)
      with True l s1 Some show ?thesis
        by (auto simp: change_trigger_def ensure_dirs_def and_then_def split: prod.split sum.split)
    qed
  qed
qed

lemma clean_name_ok: "clean_name n \<noteq> [] \<and> length (clean_name n) \<le> 120"
  by (simp add: clean_name_def Let_def)

lemma run_entry_full: "trigger_run_full (run_entry at st e)"
  by (simp add: run_entry_def trigger_run_full_def)

lemma last_runs_length: "length (last_runs rs) \<le> MAX_RUN_HISTORY"
  by (simp add: last_runs_def)

lemma last_runs_ok: "list_all P rs \<Longrightarrow> list_all P (last_runs rs)"
  by (auto simp: last_runs_def list_all_iff dest: in_set_dropD)

lemma record_ok: "triggers_ok s \<Longrightarrow> triggers_ok (snd (record_delivery E i st e at s))"
proof -
  assume "triggers_ok s"
  then have "triggers_ok (snd (change_trigger E i
      (\<lambda>t. t\<lparr>lt_last_run_at_ms := a, lt_last_status := b, lt_last_error := c, lt_updated_at_ms := te_later E,
             lt_run_history := last_runs (lt_run_history t @ [run_entry x st e])\<rparr>) s))" for a b c x
    by (rule change_ok) (simp add: trigger_ok_def trigger_full_def last_runs_ok last_runs_length run_entry_full)
  then show ?thesis
    by (simp add: record_delivery_def Let_def snd_and_then)
qed

definition keeps_triggers :: "tstore \<Rightarrow> tstore \<Rightarrow> bool" where
  "keeps_triggers s s' \<longleftrightarrow> ts_store s' = ts_store s"

lemma keeps_triggers_ok: "keeps_triggers s s' \<Longrightarrow> triggers_ok s \<Longrightarrow> triggers_ok s'"
  by (simp add: keeps_triggers_def triggers_ok_def triggers_are_def)


subsection \<open>Every operation keeps the list in order\<close>

named_theorems list_keeps \<open>operations that keep the trigger list in order\<close>

lemma step_ok: "triggers_ok (snd r) \<Longrightarrow> r = (x, s) \<Longrightarrow> triggers_ok s"
  by simp

lemma ok_ensure_dirs [list_keeps]: "triggers_ok s \<Longrightarrow> triggers_ok (snd (ensure_dirs E s))"
  by (simp add: ensure_dirs_def)

lemma ok_load [list_keeps]: "triggers_ok s \<Longrightarrow> triggers_ok (snd (load_triggers E s))"
proof -
  assume "triggers_ok s"
  then obtain ts where ts: "triggers_are ts s"
    by (auto simp: triggers_ok_def)
  obtain r s' where l: "load_triggers E s = (r, s')"
    by fastforce
  from load_ok[OF l ts] l \<open>triggers_ok s\<close> show ?thesis by auto
qed

lemma loaded_are:
  assumes "triggers_ok s" "load_triggers E s = (Inr ts, s')"
  shows "triggers_are ts s'"
proof -
  obtain us where us: "triggers_are us s"
    using assms(1) by (auto simp: triggers_ok_def)
  from load_ok[OF assms(2) us] us show ?thesis by auto
qed

lemma ok_then:
  assumes "triggers_ok (snd r)" "\<And>a s. triggers_ok s \<Longrightarrow> r = (Inr a, s) \<Longrightarrow> triggers_ok (snd (f a s))"
  shows "triggers_ok (snd (and_then r f))"
proof (cases r)
  case (Pair x t)
  with assms show ?thesis by (cases x) simp_all
qed

lemma ok_after_load:
  assumes "triggers_ok s" "\<And>ts s. triggers_are ts s \<Longrightarrow> triggers_ok s \<Longrightarrow> triggers_ok (snd (f ts s))"
  shows "triggers_ok (snd (and_then (ensure_dirs E s) (\<lambda>_ s. and_then (load_triggers E s) f)))"
proof (intro ok_then)
  show "triggers_ok (snd (ensure_dirs E s))"
    using assms(1) by (rule ok_ensure_dirs)
  fix t a assume "triggers_ok t"
  then show "triggers_ok (snd (load_triggers E t))"
    by (rule ok_load)
  fix ts u assume u: "triggers_ok u" "load_triggers E t = (Inr ts, u)"
  then show "triggers_ok (snd (f ts u))"
    using assms(2) loaded_are[OF \<open>triggers_ok t\<close> u(2)] by blast
qed

lemma ok_get [list_keeps]: "triggers_ok s \<Longrightarrow> triggers_ok (snd (get_trigger E i s))"
  unfolding get_trigger_def by (rule ok_after_load) simp_all

lemma ok_list [list_keeps]: "triggers_ok s \<Longrightarrow> triggers_ok (snd (list_triggers E b s))"
  unfolding list_triggers_def by (rule ok_after_load) simp_all

lemma ok_put_file [list_keeps]: "triggers_ok (put_file p c s) = triggers_ok s" "triggers_ok (del_file p s) = triggers_ok s"
  by (simp_all add: triggers_ok_def triggers_are_def put_file_def del_file_def)

lemma ok_runs [list_keeps]: "triggers_ok (s\<lparr>ts_runs := r\<rparr>) = triggers_ok s" "triggers_ok (s\<lparr>ts_files := f\<rparr>) = triggers_ok s"
  by (simp_all add: triggers_ok_def triggers_are_def)

lemma ok_atomically: "triggers_ok s \<Longrightarrow> triggers_ok (f s) \<Longrightarrow> triggers_ok (snd (atomically w f s))"
  by (simp add: atomically_def split: effect.split)

lemma ok_create [list_keeps]:
  assumes "triggers_ok s"
  shows "triggers_ok (snd (create_trigger E n c h k sd m s))"
proof (cases "strip c = [] \<or> strip h = [] \<or> strip k = []")
  case True
  with assms show ?thesis by (simp add: create_trigger_def)
next
  case False
  let ?mk = "\<lambda>i. \<lparr>lt_id = i, lt_name = clean_name n, lt_enabled = True, lt_channel = strip c, lt_chat_id = strip h,
    lt_session_key = strip k, lt_sender_id = (if strip sd = [] then ''trigger'' else strip sd),
    lt_origin = (case m of None \<Rightarrow> [] | Some m \<Rightarrow> m), lt_created_at_ms = te_now E, lt_updated_at_ms = te_now E,
    lt_last_message = [], lt_last_run_at_ms = None, lt_last_status = JNull, lt_last_error = JNull,
    lt_run_history = []\<rparr>"
  have fresh: "i \<notin> set is" if "new_trigger_id x is = Some i" for x i "is"
    using find_SomeD[OF that[unfolded new_trigger_id_def]] by simp
  have mk: "trigger_ok (?mk i)" for i
    using clean_name_ok[of n] by (auto simp: trigger_ok_def trigger_full_def)
  have "triggers_ok (snd (and_then (save_triggers E (ts @ [?mk i]) t) (\<lambda>_ s. (Inr (?mk i), s))))"
    if ts: "triggers_are ts t" "new_trigger_id (te_suffixes E) (map lt_id ts) = Some i" for ts t i
    unfolding snd_and_then using ts fresh[OF ts(2)] mk
    by (intro save_ok[OF ts(1)]) (auto simp: triggers_are_def)
  then have body: "triggers_ok (snd (case new_trigger_id (te_suffixes E) (map lt_id ts) of
        None \<Rightarrow> (Inl NoUniqueId, t)
      | Some i \<Rightarrow> (let t' = ?mk i in and_then (save_triggers E (ts @ [t']) t) (\<lambda>_ s. (Inr t', s)))))"
    if "triggers_are ts t" "triggers_ok t" for ts t
    using that by (cases "new_trigger_id (te_suffixes E) (map lt_id ts)") (simp_all only: Let_def option.case snd_conv)
  show ?thesis
    unfolding create_trigger_def if_not_P[OF False]
    by (rule ok_after_load[OF assms body])
qed

lemma ok_change:
  "triggers_ok s \<Longrightarrow> (\<And>t. trigger_ok t \<Longrightarrow> trigger_ok (f t) \<and> lt_id (f t) = lt_id t)
     \<Longrightarrow> triggers_ok (snd (change_trigger E i f s))"
  by (rule change_ok)

lemma ok_enable [list_keeps]: "triggers_ok s \<Longrightarrow> triggers_ok (snd (enable_trigger E i b s))"
  unfolding enable_trigger_def by (rule ok_change) (auto simp: trigger_ok_def trigger_full_def)

lemma ok_update [list_keeps]: "triggers_ok s \<Longrightarrow> triggers_ok (snd (update_trigger E i n s))"
  unfolding update_trigger_def
  using clean_name_ok by (intro ok_change) (auto simp: trigger_ok_def trigger_full_def split: option.split)

lemma ok_record [list_keeps]: "triggers_ok s \<Longrightarrow> triggers_ok (snd (record_delivery E i st e at s))"
  by (rule record_ok)

lemma ok_delete [list_keeps]:
  assumes "triggers_ok s"
  shows "triggers_ok (snd (delete_trigger E i s))"
proof -
  have "triggers_ok (snd (and_then (save_triggers E (filter (\<lambda>t. lt_id t \<noteq> strip i) ts) t)
          (\<lambda>_ s. (Inr True, delete_delivery_files E (strip i) s))))" if ts: "triggers_are ts t" for ts t
  proof (rule ok_then)
    show "triggers_ok (snd (save_triggers E (filter (\<lambda>t. lt_id t \<noteq> strip i) ts) t))"
      using ts by (intro save_ok[OF ts]) (auto simp: triggers_are_def distinct_map_filter list_all_iff)
  qed (simp add: delete_delivery_files_def list_keeps)
  with assms show ?thesis
    unfolding delete_trigger_def Let_def by (auto intro!: ok_after_load)
qed

lemma ok_write_run [list_keeps]: "triggers_ok s \<Longrightarrow> triggers_ok (snd (write_run_record E i r s))"
  unfolding write_run_record_def Let_def
  by (intro ok_then ok_atomically) (simp_all add: list_keeps)

text \<open>With its trigger given, a run record does not touch the list.\<close>

lemma keeps_store_run_record:
  "write_delivery_run_record E d st (Some t) e r s = (x, s') \<Longrightarrow> ts_store s' = ts_store s"
  by (auto simp: write_delivery_run_record_def write_run_record_def Let_def and_then_def ensure_dirs_def atomically_def
      split: option.splits if_splits effect.splits)

lemma ok_delivery_record [list_keeps]: "triggers_ok s \<Longrightarrow> triggers_ok (snd (write_delivery_run_record E d st t e r s))"
  unfolding write_delivery_run_record_def
  by (rule ok_then) (auto simp: list_keeps split: option.split)

lemma ok_log_record [list_keeps]: "triggers_ok s \<Longrightarrow> triggers_ok (log_run_record E d st t e r s)"
  by (simp add: log_run_record_def list_keeps)

lemma ok_write_delivery [list_keeps]: "triggers_ok s \<Longrightarrow> triggers_ok (snd (write_delivery E p v s))"
  by (simp add: write_delivery_def ok_atomically list_keeps)

lemma ok_unlink [list_keeps]: "triggers_ok s \<Longrightarrow> triggers_ok (snd (unlink_file E p s))"
  by (simp add: unlink_file_def list_keeps)

lemma ok_replace [list_keeps]: "triggers_ok s \<Longrightarrow> triggers_ok (snd (replace_file E p q s))"
  by (simp add: replace_file_def list_keeps split: option.split)

lemma ok_move_bad [list_keeps]: "triggers_ok s \<Longrightarrow> triggers_ok (move_bad E p s)"
  by (simp add: move_bad_def list_keeps)

lemma ok_retry_unlocked [list_keeps]: "triggers_ok s \<Longrightarrow> triggers_ok (snd (retry_unlocked E d e s))"
  unfolding retry_unlocked_def Let_def
  by (auto split: option.split intro!: ok_then list_keeps)

lemma ok_retry [list_keeps]: "triggers_ok s \<Longrightarrow> triggers_ok (snd (fst (retry_delivery E d e s)))"
  by (simp add: retry_delivery_def list_keeps)

lemma ok_complete [list_keeps]: "triggers_ok s \<Longrightarrow> triggers_ok (snd (complete_delivery E d s))"
  unfolding complete_delivery_def by (auto split: option.split intro!: ok_then list_keeps)

lemma ok_claim_loop: "triggers_ok s \<Longrightarrow> triggers_ok (snd (claim_loop E ns acc s))"
  by (induction E ns acc s rule: claim_loop.induct) (auto split: option.split intro!: ok_then list_keeps)

lemma ok_recover_loop: "triggers_ok s \<Longrightarrow> triggers_ok (snd (recover_loop E ns k s))"
  by (induction E ns k s rule: recover_loop.induct) (auto split: option.split intro!: ok_then list_keeps)

lemma ok_claim [list_keeps]: "triggers_ok s \<Longrightarrow> triggers_ok (snd (claim_deliveries E k s))"
  unfolding claim_deliveries_def by (auto intro!: ok_then ok_claim_loop list_keeps)

lemma ok_recover [list_keeps]: "triggers_ok s \<Longrightarrow> triggers_ok (snd (recover_processing_deliveries E s))"
  unfolding recover_processing_deliveries_def by (auto intro!: ok_then ok_recover_loop list_keeps)

lemma ok_rollback [list_keeps]: "triggers_ok s \<Longrightarrow> triggers_ok (snd (enqueue_rollback E p run e s))"
  unfolding enqueue_rollback_def by (rule ok_then) (auto simp: list_keeps split: option.split)

lemma ok_enqueue_record:
  assumes "triggers_are ts s" "find_trigger ts (td_trigger_id d) = Some t"
  shows "triggers_ok (snd (enqueue_record E d p t ts s))"
proof -
  have s: "triggers_ok s"
    using assms(1) by (auto simp: triggers_ok_def)
  let ?t' = "t\<lparr>lt_last_message := run_record_text (td_content d), lt_updated_at_ms := td_created_at_ms d\<rparr>"
  have t: "lt_id t = td_trigger_id d" "trigger_ok t"
    using find_trigger_ok[OF assms(2)] assms(1) by (auto simp: triggers_are_def)
  obtain r1 s1 where r1: "write_delivery_run_record E d ''queued'' (Some t) None None s = (r1, s1)"
    by fastforce
  have s1: "triggers_ok s1"
    using ok_delivery_record[OF s, of E d "''queued''" "Some t" None None] r1 by simp
  have are: "triggers_are ts s1"
    using keeps_store_run_record[OF r1] assms(1) by (simp add: triggers_are_def)
  have put: "triggers_ok (snd (save_triggers E (put_trigger (td_trigger_id d) ?t' ts) s1))"
    using assms(1) t by (intro save_ok[OF are])
      (auto simp: triggers_are_def put_trigger_ids trigger_ok_def trigger_full_def intro!: put_trigger_ok)
  show ?thesis
    using r1 s1 put by (auto simp: enqueue_record_def ok_rollback split: sum.split prod.split)
qed

lemma ok_enqueue [list_keeps]:
  assumes "triggers_ok s"
  shows "triggers_ok (snd (enqueue E i c s))"
proof (cases "strip c = []")
  case True
  with assms show ?thesis by (simp add: enqueue_def)
next
  case False
  define d where "d = \<lparr>td_id = ''tdl_'' @ te_hex E, td_trigger_id = strip i, td_content = c,
    td_created_at_ms = te_now E, td_attempts = 0, td_last_error = JNull,
    td_path = Some (Inbox, delivery_file_name (te_now E) (''tdl_'' @ te_hex E))\<rparr>"
  let ?p = "(Inbox, delivery_file_name (te_now E) (''tdl_'' @ te_hex E))"
  have wrt: "triggers_ok (snd (and_then (write_delivery E ?p (delivery_payload d) u) (\<lambda>_ s. enqueue_record E d ?p t ts s)))"
    if "triggers_are ts u" "triggers_ok u" "find_trigger ts (strip i) = Some t" for ts u t
  proof (rule ok_then)
    show "triggers_ok (snd (write_delivery E ?p (delivery_payload d) u))"
      using that(2) by (rule ok_write_delivery)
    fix a v assume "write_delivery E ?p (delivery_payload d) u = (Inr a, v)"
    then have "triggers_are ts v"
      using that(1) by (auto simp: write_delivery_def atomically_def put_file_def triggers_are_def split: effect.splits)
    then show "triggers_ok (snd (enqueue_record E d ?p t ts v))"
      using that(3) by (intro ok_enqueue_record) (simp_all add: d_def)
  qed
  have body: "triggers_ok (snd (case find_trigger ts (strip i) of
        None \<Rightarrow> (Inl (TriggerNotFound (strip i)), u)
      | Some t \<Rightarrow> if \<not> lt_enabled t then (Inl (TriggerDisabled (strip i)), u)
                 else and_then (write_delivery E ?p (delivery_payload d) u) (\<lambda>_ s. enqueue_record E d ?p t ts s)))"
    if "triggers_are ts u" "triggers_ok u" for ts u
    using that wrt by (auto split: option.split)
  show ?thesis
    unfolding enqueue_def Let_def if_not_P[OF False] d_def[symmetric]
    by (rule ok_after_load[OF assms body])
qed

subsection \<open>The steps of the world\<close>

lemma ok_cli: "triggers_ok s \<Longrightarrow> triggers_ok (snd (cli_do E op s))"
proof (cases op)
  case (ODelete i)
  assume "triggers_ok s"
  with ODelete ok_delete[of s E i] show ?thesis by (auto split: prod.split sum.split bool.split)
next
  case (OEnqueue i c)
  assume "triggers_ok s"
  with OEnqueue ok_enqueue[of s E i c] show ?thesis by (auto split: prod.split sum.split)
qed (simp_all add: list_keeps)

lemma ok_drop: "triggers_ok s \<Longrightarrow> triggers_ok (snd (snd (drop_delivery Q d e s)))"
proof -
  assume "triggers_ok s"
  then have 1: "triggers_ok (snd (record_delivery (qe_op Q 3) (td_trigger_id d) ''error'' (Some e) (Some (td_created_at_ms d)) s))"
    by (rule ok_record)
  have 2: "triggers_ok (snd (complete_delivery (qe_op Q 5) d (log_run_record (qe_op Q 4) d ''error'' None (Some e) None t)))"
    if "triggers_ok t" for t
    using that by (intro list_keeps)
  show ?thesis
    using 1 2 by (auto simp: drop_delivery_def split: prod.splits sum.splits) (metis snd_conv)+
qed

lemma ok_handle: "triggers_ok s \<Longrightarrow> triggers_ok (snd (snd (handle_exc Q x d s)))"
proof -
  assume s: "triggers_ok s"
  obtain k msg cls where x: "x = Exc k msg cls"
    by (cases x)
  obtain r1 s1 d1 where r1: "retry_delivery (qe_op Q 3) d (exc_text x) s = ((r1, s1), d1)"
    by (metis surj_pair)
  have s1: "triggers_ok s1"
    using ok_retry[OF s, of "qe_op Q 3" d "exc_text x"] r1 by simp
  have log: "triggers_ok (log_run_record E d' st t e r s1)" for E d' st t e r
    using s1 by (rule ok_log_record)
  have rec: "triggers_ok (snd (record_delivery E' i st' e' a (log_run_record E d' st t e r s1)))" for E' i st' e' a E d' st t e r
    using log by (rule ok_record)
  show ?thesis
  proof (cases k)
    case CancelledExc
    with x r1 s1 log show ?thesis by (auto simp: handle_exc_def split: sum.split)
  next
    case TerminalExc
    with x s show ?thesis by (simp add: handle_exc_def ok_drop)
  next
    case AutomationExc
    with x s show ?thesis by (simp add: handle_exc_def ok_drop)
  next
    case OtherExc
    define out where "out again = record_delivery (qe_op Q 5) (td_trigger_id d1) ''error'' (Some (exc_text x))
      (Some (td_created_at_ms d1))
      (log_run_record (qe_op Q 4) d1 (if again then ''retrying'' else ''error'') None (Some (exc_text x)) None s1)" for again
    have "triggers_ok (snd (out again))" for again
      unfolding out_def by (rule rec)
    moreover have "handle_exc Q x d s = (case r1 of Inl _ \<Rightarrow> (False, [], s1)
        | Inr again \<Rightarrow> (case out again of (Inl _, s) \<Rightarrow> (False, [], s) | (Inr _, s) \<Rightarrow> (True, [], s)))"
      using OtherExc x r1 by (simp add: handle_exc_def out_def del: exc_text.simps split: sum.split)
    ultimately show ?thesis
      using s1 by (auto split: sum.split prod.split) (metis snd_conv)+
  qed
qed

lemma ok_finish: "triggers_ok s \<Longrightarrow> triggers_ok (snd (snd (finish_delivery Q r t d s)))"
proof (cases r)
  case (Raised x)
  assume "triggers_ok s"
  with Raised show ?thesis by (simp add: finish_delivery_def ok_handle)
next
  case (Replied response)
  assume s: "triggers_ok s"
  obtain r1 s1 where r1: "record_delivery (qe_op Q 0) (lt_id t) ''ok'' None (Some (td_created_at_ms d)) s = (r1, s1)"
    by fastforce
  have s1: "triggers_ok s1"
    using ok_record[OF s, of "qe_op Q 0" "lt_id t" "''ok''" None "Some (td_created_at_ms d)"] r1 by simp
  define c where "c = complete_delivery (qe_op Q 2) d (log_run_record (qe_op Q 1) d ''ok'' (Some t) None
    (Some (case response of None \<Rightarrow> [] | Some c \<Rightarrow> c)) s1)"
  have c: "triggers_ok (snd c)"
    unfolding c_def using s1 by (intro list_keeps)
  have "finish_delivery Q r t d s = (case r1 of Inl e \<Rightarrow> handle_exc Q (store_exc Q e) d s1
      | Inr _ \<Rightarrow> (case c of (Inl e, s) \<Rightarrow> handle_exc Q (store_exc Q e) d s | (Inr _, s) \<Rightarrow> (True, [Completed (file_of d)], s)))"
    using Replied r1 by (simp add: finish_delivery_def c_def split: sum.split)
  then show ?thesis
    using s1 c ok_handle by (auto split: sum.split prod.split)
qed

lemma ok_begin: "triggers_ok s \<Longrightarrow> triggers_ok (snd (begin_delivery Q d s))"
proof -
  assume s: "triggers_ok s"
  obtain r1 s1 where r1: "get_trigger (qe_op Q 0) (td_trigger_id d) s = (r1, s1)"
    by fastforce
  have s1: "triggers_ok s1"
    using ok_get[OF s, of "qe_op Q 0" "td_trigger_id d"] r1 by simp
  show ?thesis
  proof (cases r1)
    case (Inl e)
    with r1 s1 show ?thesis by (simp add: begin_delivery_def)
  next
    case (Inr found)
    show ?thesis
    proof (cases found)
      case None
      with r1 s1 Inr show ?thesis by (simp add: begin_delivery_def)
    next
      case (Some t)
      obtain x u where w: "write_delivery_run_record (qe_op Q 1) d ''processing'' (Some t) None None s1 = (x, u)"
        by fastforce
      then have "triggers_ok u"
        using ok_delivery_record[OF s1, of "qe_op Q 1" d "''processing''" "Some t" None None] by simp
      with r1 s1 Inr Some w show ?thesis
        by (auto simp: begin_delivery_def split: sum.split)
    qed
  qed
qed

lemma ok_handled: "triggers_ok (snd (snd r)) \<Longrightarrow> triggers_ok (gw_store (gw_handled ds r w))"
  by (auto simp: gw_handled_def split: prod.split)

lemma ok_step: "gw_step w w' \<Longrightarrow> triggers_ok (gw_store w) \<Longrightarrow> triggers_ok (gw_store w')"
proof (induction rule: gw_step.induct)
  case (cli E op w)
  then show ?case
    using ok_cli[of "gw_store w" E op] by (auto simp: cli_world_def split: prod.split)
next
  case (start w E)
  then show ?case
    using ok_recover[of "gw_store w" E] by (auto simp: gw_start_def split: prod.split sum.split)
next
  case (poll w E k)
  then show ?case
    using ok_claim[of "gw_store w" E k] by (auto simp: gw_poll_def split: prod.split sum.split)
next
  case (begin_turn w d ds Q)
  then show ?case
    using ok_begin[of "gw_store w" Q d]
    by (auto simp: gw_begin_def split: prod.split sum.split intro!: ok_handled ok_handle)
next
  case (end_turn w d t ds Q r)
  then show ?case by (simp add: gw_finish_def ok_handled ok_finish)
qed simp

text \<open>
  Claim C1: after any history the trigger list is in order: \<open>triggers.json\<close> is absent or holds a list that reads
  back exactly, whatever the converters of odd values are; its identifiers are distinct, no history is longer
  than twenty runs, no name longer than 120 characters.
\<close>

theorem trigger_list_in_order:
  assumes "gw_reachable w"
  shows "\<exists>ts. (ts_store (gw_store w) = None \<and> ts = []
                \<or> ts_store (gw_store w) = Some (Holds (triggers_payload ts))
                  \<and> decode_triggers D (triggers_payload ts) = Some ts)
            \<and> distinct (map lt_id ts)
            \<and> list_all (\<lambda>t. length (lt_run_history t) \<le> 20 \<and> length (lt_name t) \<le> 120) ts"
proof -
  have "triggers_ok (gw_store w)"
    using assms unfolding gw_reachable_def
  proof (induction rule: rtranclp_induct)
    case base
    show ?case by (simp add: gw_init_def empty_store_def no_triggers_ok)
  next
    case (step w w')
    then show ?case using ok_step by blast
  qed
  then obtain ts where ts: "triggers_are ts (gw_store w)"
    by (auto simp: triggers_ok_def)
  then have "list_all (\<lambda>t. length (lt_run_history t) \<le> 20 \<and> length (lt_name t) \<le> 120) ts"
    by (auto simp: triggers_are_def trigger_ok_def MAX_RUN_HISTORY_def list_all_iff)
  with ts show ?thesis
    using decode_payload[of ts D] by (auto simp: triggers_are_def)
qed

theorem trigger_list_in_order_witness:
  "\<exists>ts. (ts_store (gw_store calm_world) = None \<and> ts = []
          \<or> ts_store (gw_store calm_world) = Some (Holds (triggers_payload ts))
            \<and> decode_triggers (te_decode calm_env) (triggers_payload ts) = Some ts)
      \<and> distinct (map lt_id ts)
      \<and> list_all (\<lambda>t. length (lt_run_history t) \<le> 20 \<and> length (lt_name t) \<le> 120) ts"
  by (rule trigger_list_in_order[OF calm_reachable])

end
