(* ===== verification/Schema.thy ===== *)
theory Schema
  imports Json "HOL-Library.Monad_Syntax"
begin

text \<open>
  The schema checks of tool calls, \<open>nanobot/agent/tools/base.py\<close> (\<open>Schema\<close> and the casts of \<open>Tool\<close>), and the
  schema classes of \<open>nanobot/agent/tools/schema.py\<close>. A schema is a JSON value, well formed or not: what the
  code raises on a malformed one is the left of a sum. What is known of a float is an
  argument: comparison, finiteness, whether it is integral, and the parsing of numerals.
\<close>

subsection \<open>Python operations on JSON values\<close>

datatype py_num = NInt int | NFloat string

record float_env =
  fe_eq :: "py_num \<Rightarrow> py_num \<Rightarrow> bool"
  fe_less :: "py_num \<Rightarrow> py_num \<Rightarrow> bool"
  fe_finite :: "string \<Rightarrow> bool"
  fe_integral :: "string \<Rightarrow> bool"
  fe_int :: "string \<Rightarrow> int option"
  fe_float :: "string \<Rightarrow> string option"

datatype schema_exc = AttributeErr | TypeErr | FormatErr

fun num_of :: "json \<Rightarrow> py_num option" where
  "num_of (JInt i) = Some (NInt i)"
| "num_of (JBool b) = Some (NInt (if b then 1 else 0))"
| "num_of (JFloat r) = Some (NFloat r)"
| "num_of v = None"

fun num_eq :: "float_env \<Rightarrow> py_num \<Rightarrow> py_num \<Rightarrow> bool" where
  "num_eq F (NInt i) (NInt j) = (i = j)"
| "num_eq F a b = fe_eq F a b"

fun num_less :: "float_env \<Rightarrow> py_num \<Rightarrow> py_num \<Rightarrow> bool" where
  "num_less F (NInt i) (NInt j) = (i < j)"
| "num_less F a b = fe_less F a b"

lemma size_dict_value: "(k, v) \<in> set kvs \<Longrightarrow> size v < size (JDict kvs)"
  by (induction kvs) auto

lemma size_list_item: "x \<in> set xs \<Longrightarrow> size x < size (JList xs)"
  by (induction xs) auto

lemma size_zip_item: "(x, y) \<in> set (zip xs ys) \<Longrightarrow> size x < size (JList xs)"
  by (rule size_list_item) (rule set_zip_leftD)

lemma size_enum_item: "(i, x) \<in> set (enumerate n xs) \<Longrightarrow> size x < size (JList xs)"
  by (rule size_list_item) (auto simp: in_set_enumerate_eq)

text \<open>\<open>v == w\<close>: numbers by value, \<open>True == 1\<close>; dicts without regard to order.\<close>

function (sequential) py_eq :: "float_env \<Rightarrow> json \<Rightarrow> json \<Rightarrow> bool" where
  "py_eq F (JStr s) w = (w = JStr s)"
| "py_eq F JNull w = (w = JNull)"
| "py_eq F (JOther s) w = (w = JOther s)"
| "py_eq F (JList xs) w =
     (case w of
        JList ys \<Rightarrow> length xs = length ys \<and> list_all (\<lambda>(x, y). py_eq F x y) (zip xs ys)
      | _ \<Rightarrow> False)"
| "py_eq F (JDict d) w =
     (case w of
        JDict e \<Rightarrow> length d = length e
          \<and> list_all (\<lambda>(k, x). case dict_get e k of None \<Rightarrow> False | Some y \<Rightarrow> py_eq F x y) d
      | _ \<Rightarrow> False)"
| "py_eq F v w =
     (case (num_of v, num_of w) of (Some a, Some b) \<Rightarrow> num_eq F a b | _ \<Rightarrow> False)"
  by pat_completeness auto
termination
  by (relation "measure (\<lambda>(F, v, w). size v)") (auto simp del: json.size intro: size_dict_value size_zip_item)

text \<open>\<open>v < w\<close> of a number \<open>v\<close>.\<close>

definition py_less :: "float_env \<Rightarrow> json \<Rightarrow> json \<Rightarrow> schema_exc + bool" where
  "py_less F v w =
     (case (num_of v, num_of w) of (Some a, Some b) \<Rightarrow> Inr (num_less F a b) | _ \<Rightarrow> Inl TypeErr)"

fun json_unhashable :: "json \<Rightarrow> bool" where
  "json_unhashable (JList xs) = True"
| "json_unhashable (JDict d) = True"
| "json_unhashable v = False"

text \<open>\<open>k in c\<close>.\<close>

definition py_in :: "float_env \<Rightarrow> json \<Rightarrow> json \<Rightarrow> schema_exc + bool" where
  "py_in F k c =
     (case c of
        JList xs \<Rightarrow> Inr (list_ex (\<lambda>x. py_eq F x k) xs)
      | JDict d \<Rightarrow>
          if json_unhashable k then Inl TypeErr
          else Inr (case k of JStr s \<Rightarrow> dict_get d s \<noteq> None | _ \<Rightarrow> False)
      | JStr s \<Rightarrow> (case k of JStr x \<Rightarrow> Inr (contains x s) | _ \<Rightarrow> Inl TypeErr)
      | _ \<Rightarrow> Inl TypeErr)"

fun py_iter :: "json \<Rightarrow> schema_exc + json list" where
  "py_iter (JList xs) = Inr xs"
| "py_iter (JDict d) = Inr (map (JStr \<circ> fst) d)"
| "py_iter (JStr s) = Inr (map (\<lambda>c. JStr [c]) s)"
| "py_iter v = Inl TypeErr"

text \<open>One after another, up to the first exception.\<close>

fun collect :: "('e + 'a list) list \<Rightarrow> 'e + 'a list" where
  "collect [] = Inr []"
| "collect (r # rs) =
     (case r of
        Inl e \<Rightarrow> Inl e
      | Inr xs \<Rightarrow> (case collect rs of Inl e \<Rightarrow> Inl e | Inr ys \<Rightarrow> Inr (xs @ ys)))"

definition dict_value :: "(string, json) dict \<Rightarrow> string \<Rightarrow> json \<Rightarrow> json" where
  "dict_value d k dflt = (case dict_get d k of Some v \<Rightarrow> v | None \<Rightarrow> dflt)"

text \<open>\<open>f"{path}[{{}}]".format(i)\<close>: a brace of the path is a field of the template unless it is doubled.\<close>

fun format_path :: "string \<Rightarrow> string option" where
  "format_path [] = Some []"
| "format_path (c # s) =
     (if c = CHR 0x7B \<or> c = CHR 0x7D
      then (case s of
              [] \<Rightarrow> None
            | c' # s' \<Rightarrow> if c' = c then map_option (Cons c) (format_path s') else None)
      else map_option (Cons c) (format_path s))"

definition format_index :: "string \<Rightarrow> nat \<Rightarrow> string option" where
  "format_index path i = map_option (\<lambda>p. p @ ''['' @ nat_digits i @ '']'') (format_path path)"

subsection \<open>Violations\<close>

text \<open>A path is a text, except that a required field which is no string is its own path.\<close>

record violation =
  vl_path :: json
  vl_detail :: string
  vl_message :: string

definition describe :: "violation \<Rightarrow> string" where
  "describe v = (if truthy (vl_path v) then json_str (vl_path v) else ''(value)'') @ '': '' @ vl_detail v"

fun json_type_name :: "json \<Rightarrow> string" where
  "json_type_name JNull = ''null''"
| "json_type_name (JBool b) = ''boolean''"
| "json_type_name (JInt i) = ''integer''"
| "json_type_name (JFloat r) = ''number''"
| "json_type_name (JStr s) = ''string''"
| "json_type_name (JList xs) = ''array''"
| "json_type_name (JDict d) = ''object''"
| "json_type_name (JOther s) = ''object''"

definition subpath :: "string \<Rightarrow> string \<Rightarrow> string" where
  "subpath path k = (if path = [] then k else path @ ''.'' @ k)"

definition subpath_json :: "string \<Rightarrow> json \<Rightarrow> json" where
  "subpath_json path k = (if path = [] then k else JStr (path @ ''.'' @ json_str k))"

definition label_of :: "string \<Rightarrow> string" where
  "label_of path = (if path = [] then ''parameter'' else path)"

definition bad :: "string \<Rightarrow> string \<Rightarrow> string \<Rightarrow> violation" where
  "bad path detail msg = \<lparr>vl_path = JStr path, vl_detail = detail, vl_message = label_of path @ msg\<rparr>"

definition mismatch :: "json \<Rightarrow> string \<Rightarrow> string \<Rightarrow> violation" where
  "mismatch v path expected =
     bad path (''expected '' @ expected @ '', got '' @ json_type_name v) ('' should be '' @ expected)"

definition JSON_TYPES :: "string list" where
  "JSON_TYPES = [''string'', ''integer'', ''number'', ''boolean'', ''array'', ''object'']"

text \<open>\<open>isinstance(v, _JSON_TYPE_MAP[t])\<close>; a \<open>bool\<close> is an \<open>int\<close>.\<close>

fun instance_of :: "json \<Rightarrow> string \<Rightarrow> bool" where
  "instance_of (JStr s) t = (t = ''string'')"
| "instance_of (JBool b) t = (t \<in> {''boolean'', ''integer'', ''number''})"
| "instance_of (JInt i) t = (t \<in> {''integer'', ''number''})"
| "instance_of (JFloat r) t = (t = ''number'')"
| "instance_of (JList xs) t = (t = ''array'')"
| "instance_of (JDict d) t = (t = ''object'')"
| "instance_of v t = False"

fun is_bool :: "json \<Rightarrow> bool" where
  "is_bool (JBool b) = True"
| "is_bool v = False"

fun is_number :: "json \<Rightarrow> bool" where
  "is_number (JInt i) = True"
| "is_number (JFloat r) = True"
| "is_number v = False"

definition matches_type :: "float_env \<Rightarrow> bool \<Rightarrow> json \<Rightarrow> string \<Rightarrow> bool" where
  "matches_type F fl v t =
     (if t = ''integer''
        then (case v of JInt i \<Rightarrow> True | JFloat r \<Rightarrow> fl \<and> fe_finite F r \<and> fe_integral F r | _ \<Rightarrow> False)
      else if t = ''number'' then is_number v
      else if t = ''null'' then v = JNull
      else t \<notin> set JSON_TYPES \<or> instance_of v t)"

definition resolve_json_schema_type :: "json \<Rightarrow> json" where
  "resolve_json_schema_type t =
     (case t of
        JList ts \<Rightarrow> (case find (\<lambda>x. x \<noteq> JStr ''null'') ts of Some x \<Rightarrow> x | None \<Rightarrow> JNull)
      | _ \<Rightarrow> t)"

definition has_null :: "json \<Rightarrow> bool" where
  "has_null t = (case t of JList ts \<Rightarrow> JStr ''null'' \<in> set ts | _ \<Rightarrow> False)"

definition union_members :: "json \<Rightarrow> string list" where
  "union_members t =
     (case t of
        JList ts \<Rightarrow> filter (\<lambda>x. x \<noteq> ''null'') (concat (map (\<lambda>x. case x of JStr s \<Rightarrow> [s] | _ \<Rightarrow> []) ts))
      | _ \<Rightarrow> [])"

text \<open>
  The checks before the keywords. A union of several types is answered, or narrowed to the first member the
  value matches: the recursive call of the code then has that member as its type. The result is an answer or
  the narrowed schema with its type.
\<close>

definition narrow :: "float_env \<Rightarrow> bool \<Rightarrow> json \<Rightarrow> (string, json) dict \<Rightarrow> string
    \<Rightarrow> violation list + (string, json) dict" where
  "narrow F fl v sd path =
     (let raw = dict_value sd ''type'' JNull; members = union_members raw in
      if length members > 1
      then (if v = JNull \<and> (has_null raw \<or> truthy (dict_value sd ''nullable'' (JBool False))) then Inl []
            else (case find (matches_type F fl v) members of
                    Some m \<Rightarrow> Inr (dict_set sd ''type'' (JStr m))
                  | None \<Rightarrow> Inl [bad path
                      (''expected '' @ join_with '' or '' members @ '', got '' @ json_type_name v)
                      ('' should be '' @ hd members)]))
      else Inr sd)"

definition type_check :: "float_env \<Rightarrow> bool \<Rightarrow> json \<Rightarrow> (string, json) dict \<Rightarrow> string
    \<Rightarrow> schema_exc + violation list + json" where
  "type_check F fl v sd path =
     (let raw = dict_value sd ''type'' JNull;
          nullable = (has_null raw \<or> truthy (dict_value sd ''nullable'' (JBool False)));
          t = resolve_json_schema_type raw
      in if nullable \<and> v = JNull then Inr (Inl [])
         else if t = JStr ''integer'' \<and> \<not> matches_type F fl v ''integer'' then Inr (Inl [mismatch v path ''integer''])
         else if t = JStr ''number'' \<and> \<not> is_number v then Inr (Inl [mismatch v path ''number''])
         else if json_unhashable t then Inl TypeErr
         else (case t of
                 JStr s \<Rightarrow>
                   if s \<in> set JSON_TYPES \<and> s \<noteq> ''integer'' \<and> s \<noteq> ''number'' \<and> \<not> instance_of v s
                     then Inr (Inl [mismatch v path s])
                   else if s = ''number'' \<and> (case v of JFloat r \<Rightarrow> \<not> fe_finite F r | _ \<Rightarrow> False)
                     then Inr (Inl [bad path ''expected a finite number'' '' must be finite''])
                   else Inr (Inr t)
               | _ \<Rightarrow> Inr (Inr t)))"

definition front :: "float_env \<Rightarrow> bool \<Rightarrow> json \<Rightarrow> json \<Rightarrow> string
    \<Rightarrow> schema_exc + violation list + (string, json) dict \<times> json" where
  "front F fl v schema path =
     (case schema of
        JDict sd \<Rightarrow>
          (case narrow F fl v sd path of
             Inl vs \<Rightarrow> Inr (Inl vs)
           | Inr sd' \<Rightarrow>
               (case type_check F fl v sd' path of
                  Inl e \<Rightarrow> Inl e
                | Inr (Inl vs) \<Rightarrow> Inr (Inl vs)
                | Inr (Inr t) \<Rightarrow> Inr (Inr (sd', t))))
      | _ \<Rightarrow> Inl AttributeErr)"

definition enum_part :: "float_env \<Rightarrow> json \<Rightarrow> (string, json) dict \<Rightarrow> string \<Rightarrow> schema_exc + violation list" where
  "enum_part F v sd path =
     (case dict_get sd ''enum'' of
        None \<Rightarrow> Inr []
      | Some e \<Rightarrow>
          (case py_in F v e of
             Inl x \<Rightarrow> Inl x
           | Inr ok \<Rightarrow> Inr (if ok then []
               else [bad path (''expected one of '' @ json_str e) ('' must be one of '' @ json_str e)])))"

text \<open>One keyword with a bound; \<open>less\<close> says whether the value fails it.\<close>

definition bound_part :: "(string, json) dict \<Rightarrow> string \<Rightarrow> (json \<Rightarrow> schema_exc + bool) \<Rightarrow> (json \<Rightarrow> violation)
    \<Rightarrow> schema_exc + violation list" where
  "bound_part sd key fails mk =
     (case dict_get sd key of
        None \<Rightarrow> Inr []
      | Some b \<Rightarrow> (case fails b of Inl x \<Rightarrow> Inl x | Inr f \<Rightarrow> Inr (if f then [mk b] else [])))"

definition number_part :: "float_env \<Rightarrow> json \<Rightarrow> (string, json) dict \<Rightarrow> string \<Rightarrow> schema_exc + violation list" where
  "number_part F v sd path = collect
     [bound_part sd ''minimum'' (\<lambda>b. py_less F v b)
        (\<lambda>b. bad path (''expected >= '' @ json_str b) ('' must be >= '' @ json_str b)),
      bound_part sd ''maximum'' (\<lambda>b. py_less F b v)
        (\<lambda>b. bad path (''expected <= '' @ json_str b) ('' must be <= '' @ json_str b))]"

definition length_part :: "float_env \<Rightarrow> nat \<Rightarrow> string \<Rightarrow> string \<Rightarrow> string \<Rightarrow> string \<Rightarrow> (string, json) dict \<Rightarrow> string
    \<Rightarrow> schema_exc + violation list" where
  "length_part F n low high verb unit sd path = collect
     [bound_part sd low (\<lambda>b. py_less F (JInt (int n)) b)
        (\<lambda>b. bad path (''expected at least '' @ json_str b @ unit) (verb @ '' at least '' @ json_str b @ unit)),
      bound_part sd high (\<lambda>b. py_less F b (JInt (int n)))
        (\<lambda>b. bad path (''expected at most '' @ json_str b @ unit) (verb @ '' at most '' @ json_str b @ unit))]"

definition required_part :: "float_env \<Rightarrow> (string, json) dict \<Rightarrow> (string, json) dict \<Rightarrow> string
    \<Rightarrow> schema_exc + violation list" where
  "required_part F d sd path =
     (case py_iter (dict_value sd ''required'' (JList [])) of
        Inl e \<Rightarrow> Inl e
      | Inr ks \<Rightarrow> collect (map (\<lambda>k.
          (case py_in F k (JDict d) of
             Inl e \<Rightarrow> Inl e
           | Inr True \<Rightarrow> Inr []
           | Inr False \<Rightarrow> Inr [\<lparr>vl_path = subpath_json path k, vl_detail = ''required field missing'',
                              vl_message = ''missing required '' @ json_str (subpath_json path k)\<rparr>])) ks))"

text \<open>\<open>props[k]\<close> if \<open>k in props\<close>.\<close>

definition props_get :: "float_env \<Rightarrow> json \<Rightarrow> string \<Rightarrow> schema_exc + json option" where
  "props_get F props k =
     (case py_in F (JStr k) props of
        Inl e \<Rightarrow> Inl e
      | Inr False \<Rightarrow> Inr None
      | Inr True \<Rightarrow> (case props of JDict d \<Rightarrow> Inr (dict_get d k) | _ \<Rightarrow> Inl TypeErr))"

definition unexpected :: "string \<Rightarrow> violation" where
  "unexpected sub = \<lparr>vl_path = JStr sub, vl_detail = ''unexpected field (not in the schema)'',
     vl_message = ''unexpected parameter '' @ sub\<rparr>"

text \<open>What a field of an object is checked against: nothing, one violation, or a schema.\<close>

definition field_schema :: "float_env \<Rightarrow> (string, json) dict \<Rightarrow> string \<Rightarrow> string
    \<Rightarrow> schema_exc + violation list + json" where
  "field_schema F sd path k =
     (case props_get F (dict_value sd ''properties'' (JDict [])) k of
        Inl e \<Rightarrow> Inl e
      | Inr (Some s) \<Rightarrow> Inr (Inr s)
      | Inr None \<Rightarrow>
          (case dict_value sd ''additionalProperties'' (JBool True) of
             JBool b \<Rightarrow> Inr (Inl (if b then [] else [unexpected (subpath path k)]))
           | JDict a \<Rightarrow> Inr (Inr (JDict a))
           | _ \<Rightarrow> Inr (Inl [])))"

function schema_violations :: "float_env \<Rightarrow> bool \<Rightarrow> json \<Rightarrow> json \<Rightarrow> string \<Rightarrow> schema_exc + violation list" where
  "schema_violations F fl v schema path =
     (case front F fl v schema path of
        Inl e \<Rightarrow> Inl e
      | Inr (Inl vs) \<Rightarrow> Inr vs
      | Inr (Inr (sd, t)) \<Rightarrow> collect
          [enum_part F v sd path,
           (if t = JStr ''integer'' \<or> t = JStr ''number'' then number_part F v sd path else Inr []),
           (case v of
              JStr s \<Rightarrow> if t = JStr ''string''
                        then length_part F (length s) ''minLength'' ''maxLength'' '' must be'' '' chars'' sd path
                        else Inr []
            | JDict d \<Rightarrow> if t = JStr ''object''
                         then collect (required_part F d sd path # map (\<lambda>(k, x).
                           (case field_schema F sd path k of
                              Inl e \<Rightarrow> Inl e
                            | Inr (Inl vs) \<Rightarrow> Inr vs
                            | Inr (Inr s) \<Rightarrow> schema_violations F fl x s (subpath path k))) d)
                         else Inr []
            | JList xs \<Rightarrow> if t = JStr ''array''
                          then collect
                            [length_part F (length xs) ''minItems'' ''maxItems'' '' must have'' '' items'' sd path,
                             (case dict_get sd ''items'' of
                                None \<Rightarrow> Inr []
                              | Some s \<Rightarrow> collect (map (\<lambda>(i, x).
                                  (case format_index path i of
                                     None \<Rightarrow> Inl FormatErr
                                   | Some p \<Rightarrow> schema_violations F fl x s p)) (enumerate 0 xs)))]
                          else Inr []
            | _ \<Rightarrow> Inr [])])"
  by pat_completeness auto
termination
  by (relation "measure (\<lambda>(F, fl, v, schema, path). size v)")
     (auto simp del: json.size intro: size_dict_value size_enum_item)

declare schema_violations.simps [simp del]

definition validate_json_schema_value :: "float_env \<Rightarrow> json \<Rightarrow> json \<Rightarrow> string \<Rightarrow> schema_exc + string list" where
  "validate_json_schema_value F v schema path =
     map_sum id (map vl_message) (schema_violations F False v schema path)"

subsection \<open>Schema classes\<close>

text \<open>A property or item may also be a schema dict, \<open>Fragment\<close>; \<open>items\<close> is never None after construction.\<close>

datatype additional = AdditionalUnset | AdditionalFlag bool | AdditionalDict "(string, json) dict"

datatype tool_schema =
    StringSchema string "int option" "int option" "json list option" bool
  | IntegerSchema string "int option" "int option" "json list option" bool
  | NumberSchema string "json option" "json option" "json list option" bool
  | BooleanSchema string "bool option" bool
  | ArraySchema tool_schema string "int option" "int option" bool
  | ObjectSchema "(string \<times> tool_schema) list" "string list" string additional bool
  | Fragment "(string, json) dict"

definition array_schema :: "tool_schema option \<Rightarrow> string \<Rightarrow> int option \<Rightarrow> int option \<Rightarrow> bool \<Rightarrow> tool_schema" where
  "array_schema items desc mn mx nl =
     ArraySchema (case items of Some s \<Rightarrow> s | None \<Rightarrow> StringSchema [] None None None False) desc mn mx nl"

definition type_value :: "string \<Rightarrow> bool \<Rightarrow> json" where
  "type_value t nl = (if nl then JList [JStr t, JStr ''null''] else JStr t)"

definition opt_entry :: "string \<Rightarrow> ('a \<Rightarrow> json) \<Rightarrow> 'a option \<Rightarrow> (string, json) dict" where
  "opt_entry k f x = (case x of None \<Rightarrow> [] | Some a \<Rightarrow> [(k, f a)])"

definition desc_entry :: "string \<Rightarrow> (string, json) dict" where
  "desc_entry d = (if d = [] then [] else [(''description'', JStr d)])"

fun to_json_schema :: "tool_schema \<Rightarrow> (string, json) dict" where
  "to_json_schema (StringSchema desc mn mx en nl) =
     [(''type'', type_value ''string'' nl)] @ desc_entry desc @ opt_entry ''minLength'' JInt mn
       @ opt_entry ''maxLength'' JInt mx @ opt_entry ''enum'' JList en"
| "to_json_schema (IntegerSchema desc mn mx en nl) =
     [(''type'', type_value ''integer'' nl)] @ desc_entry desc @ opt_entry ''minimum'' JInt mn
       @ opt_entry ''maximum'' JInt mx @ opt_entry ''enum'' JList en"
| "to_json_schema (NumberSchema desc mn mx en nl) =
     [(''type'', type_value ''number'' nl)] @ desc_entry desc @ opt_entry ''minimum'' id mn
       @ opt_entry ''maximum'' id mx @ opt_entry ''enum'' JList en"
| "to_json_schema (BooleanSchema desc dflt nl) =
     [(''type'', type_value ''boolean'' nl)] @ desc_entry desc @ opt_entry ''default'' JBool dflt"
| "to_json_schema (ArraySchema items desc mn mx nl) =
     [(''type'', type_value ''array'' nl), (''items'', JDict (to_json_schema items))] @ desc_entry desc
       @ opt_entry ''minItems'' JInt mn @ opt_entry ''maxItems'' JInt mx"
| "to_json_schema (ObjectSchema props req desc add nl) =
     [(''type'', type_value ''object'' nl),
      (''properties'', JDict (map (\<lambda>(k, s). (k, JDict (to_json_schema s))) props))]
       @ (if req = [] then [] else [(''required'', JList (map JStr req))]) @ desc_entry desc
       @ (case add of AdditionalUnset \<Rightarrow> [] | AdditionalFlag b \<Rightarrow> [(''additionalProperties'', JBool b)]
          | AdditionalDict d \<Rightarrow> [(''additionalProperties'', JDict d)])"
| "to_json_schema (Fragment d) = d"

definition validate_value :: "float_env \<Rightarrow> tool_schema \<Rightarrow> json \<Rightarrow> string \<Rightarrow> schema_exc + string list" where
  "validate_value F S v path = validate_json_schema_value F v (JDict (to_json_schema S)) path"

text \<open>The root of a tool's parameters: strict unless told otherwise.\<close>

definition tool_parameters_schema ::
  "string list option \<Rightarrow> string \<Rightarrow> additional \<Rightarrow> (string \<times> tool_schema) list \<Rightarrow> (string, json) dict" where
  "tool_parameters_schema req desc add props =
     to_json_schema (ObjectSchema props (case req of None \<Rightarrow> [] | Some r \<Rightarrow> r) desc add False)"

subsection \<open>Casts\<close>

definition BOOL_TRUE :: "string list" where "BOOL_TRUE = [''true'', ''1'', ''yes'']"
definition BOOL_FALSE :: "string list" where "BOOL_FALSE = [''false'', ''0'', ''no'']"

text \<open>
  The cast of a value that has no parts: None when the value is returned to the recursion over arrays and
  objects.
\<close>

definition cast_scalar :: "float_env \<Rightarrow> json \<Rightarrow> json \<Rightarrow> json option" where
  "cast_scalar F v t =
     (if t = JStr ''boolean'' \<and> is_bool v then Some v
      else if t = JStr ''integer'' \<and> (case v of JInt i \<Rightarrow> True | _ \<Rightarrow> False) then Some v
      else if t = JStr ''string'' \<and> instance_of v ''string'' \<or> t = JStr ''number'' \<and> instance_of v ''number'' then Some v
      else (case v of
              JStr s \<Rightarrow>
                if t = JStr ''integer'' then Some (case fe_int F s of Some i \<Rightarrow> JInt i | None \<Rightarrow> v)
                else if t = JStr ''number'' then Some (case fe_float F s of Some r \<Rightarrow> JFloat r | None \<Rightarrow> v)
                else if t = JStr ''boolean''
                  then Some (if lower s \<in> set BOOL_TRUE then JBool True
                             else if lower s \<in> set BOOL_FALSE then JBool False else v)
                else None
            | _ \<Rightarrow> if t = JStr ''string'' then Some (if v = JNull then v else JStr (json_str v)) else None))"

definition cast_field_schema :: "float_env \<Rightarrow> (string, json) dict \<Rightarrow> string \<Rightarrow> schema_exc + json option" where
  "cast_field_schema F sd k =
     (case props_get F (dict_value sd ''properties'' (JDict [])) k of
        Inl e \<Rightarrow> Inl e
      | Inr (Some s) \<Rightarrow> Inr (Some s)
      | Inr None \<Rightarrow>
          Inr (case dict_get sd ''additionalProperties'' of Some (JDict a) \<Rightarrow> Some (JDict a) | _ \<Rightarrow> None))"

text \<open>A list of results, or the first exception.\<close>

fun sequence_all :: "('e + 'a) list \<Rightarrow> 'e + 'a list" where
  "sequence_all [] = Inr []"
| "sequence_all (r # rs) =
     (case r of Inl e \<Rightarrow> Inl e | Inr x \<Rightarrow> (case sequence_all rs of Inl e \<Rightarrow> Inl e | Inr xs \<Rightarrow> Inr (x # xs)))"

function cast_value :: "float_env \<Rightarrow> json \<Rightarrow> json \<Rightarrow> schema_exc + json" where
  "cast_value F v schema =
     (case schema of
        JDict sd \<Rightarrow>
          (let t = resolve_json_schema_type (dict_value sd ''type'' JNull) in
           if json_unhashable t then Inl TypeErr
           else (case cast_scalar F v t of
                   Some w \<Rightarrow> Inr w
                 | None \<Rightarrow>
                     (case v of
                        JList xs \<Rightarrow>
                          if t = JStr ''array'' \<and> truthy (dict_value sd ''items'' JNull)
                          then map_sum id JList
                                 (sequence_all (map (\<lambda>x. cast_value F x (dict_value sd ''items'' JNull)) xs))
                          else Inr v
                      | JDict d \<Rightarrow>
                          if t = JStr ''object''
                          then map_sum id JDict (sequence_all (map (\<lambda>(k, x).
                                 (case cast_field_schema F sd k of
                                    Inl e \<Rightarrow> Inl e
                                  | Inr None \<Rightarrow> Inr (k, x)
                                  | Inr (Some s) \<Rightarrow> map_sum id (Pair k) (cast_value F x s))) d))
                          else Inr v
                      | _ \<Rightarrow> Inr v)))
      | _ \<Rightarrow> Inl AttributeErr)"
  by pat_completeness auto
termination
  by (relation "measure (\<lambda>(F, v, schema). size v)")
     (auto simp del: json.size intro: size_dict_value size_list_item)

declare cast_value.simps [simp del]

text \<open>\<open>cast_params\<close> and \<open>validate_params\<close> of a tool with these parameters; other types than objects are not cast.\<close>

definition cast_object :: "float_env \<Rightarrow> (string, json) dict \<Rightarrow> (string, json) dict \<Rightarrow> schema_exc + (string, json) dict" where
  "cast_object F d sd =
     sequence_all (map (\<lambda>(k, x).
       (case cast_field_schema F sd k of
          Inl e \<Rightarrow> Inl e
        | Inr None \<Rightarrow> Inr (k, x)
        | Inr (Some s) \<Rightarrow> map_sum id (Pair k) (cast_value F x s))) d)"

definition cast_params :: "float_env \<Rightarrow> (string, json) dict \<Rightarrow> (string, json) dict \<Rightarrow> schema_exc + (string, json) dict" where
  "cast_params F sd d =
     (if dict_value sd ''type'' (JStr ''object'') \<noteq> JStr ''object'' then Inr d else cast_object F d sd)"

text \<open>None when the schema is not of type object, where the code raises a \<open>ValueError\<close>.\<close>

definition validate_params ::
  "float_env \<Rightarrow> (string, json) dict \<Rightarrow> (string, json) dict \<Rightarrow> (schema_exc + string list) option" where
  "validate_params F sd d =
     (if dict_value sd ''type'' (JStr ''object'') \<noteq> JStr ''object'' then None
      else Some (validate_json_schema_value F (JDict d) (JDict (dict_set sd ''type'' (JStr ''object''))) []))"

definition parameter_violations ::
  "float_env \<Rightarrow> (string, json) dict \<Rightarrow> (string, json) dict \<Rightarrow> schema_exc + violation list" where
  "parameter_violations F sd d = schema_violations F False (JDict d) (JDict (dict_set sd ''type'' (JStr ''object''))) []"

end
