(* ===== verification/SchemaSpec.thy ===== *)
theory SchemaSpec
  imports Schema
begin

text \<open>
  What the schema check decides. \<open>conforms\<close> is the meaning of a schema class, by recursion on the schema; the
  checker, which recurses on the value and collects messages, finds nothing exactly when the value conforms, and
  raises nothing as long as field names have no braces. The casts leave a conforming value alone.
\<close>

subsection \<open>The reference\<close>

definition at_least :: "int option \<Rightarrow> nat \<Rightarrow> bool" where
  "at_least b n = (case b of None \<Rightarrow> True | Some k \<Rightarrow> k \<le> int n)"

definition at_most :: "int option \<Rightarrow> nat \<Rightarrow> bool" where
  "at_most b n = (case b of None \<Rightarrow> True | Some k \<Rightarrow> int n \<le> k)"

definition among :: "float_env \<Rightarrow> json list option \<Rightarrow> json \<Rightarrow> bool" where
  "among F en v = (case en of None \<Rightarrow> True | Some vs \<Rightarrow> list_ex (\<lambda>x. py_eq F x v) vs)"

definition num_between :: "float_env \<Rightarrow> json option \<Rightarrow> json option \<Rightarrow> json \<Rightarrow> bool" where
  "num_between F mn mx v \<longleftrightarrow>
     (case mn of None \<Rightarrow> True | Some b \<Rightarrow> \<not> num_less F (the (num_of v)) (the (num_of b)))
     \<and> (case mx of None \<Rightarrow> True | Some b \<Rightarrow> \<not> num_less F (the (num_of b)) (the (num_of v)))"

lemma size_props: "map_of props k = Some s \<Longrightarrow> size s < size (ObjectSchema props req desc add nl)"
  by (induction props) (auto split: if_splits)

function conforms :: "float_env \<Rightarrow> bool \<Rightarrow> tool_schema \<Rightarrow> json \<Rightarrow> bool" where
  "conforms F fl (StringSchema desc mn mx en nl) v =
     (nl \<and> v = JNull
      \<or> (case v of JStr s \<Rightarrow> at_least mn (length s) \<and> at_most mx (length s) \<and> among F en v | _ \<Rightarrow> False))"
| "conforms F fl (IntegerSchema desc mn mx en nl) v =
     (nl \<and> v = JNull
      \<or> matches_type F fl v ''integer'' \<and> num_between F (map_option JInt mn) (map_option JInt mx) v \<and> among F en v)"
| "conforms F fl (NumberSchema desc mn mx en nl) v =
     (nl \<and> v = JNull
      \<or> is_number v \<and> (case v of JFloat r \<Rightarrow> fe_finite F r | _ \<Rightarrow> True) \<and> num_between F mn mx v \<and> among F en v)"
| "conforms F fl (BooleanSchema desc dflt nl) v = (nl \<and> v = JNull \<or> is_bool v)"
| "conforms F fl (ArraySchema items desc mn mx nl) v =
     (nl \<and> v = JNull
      \<or> (case v of
           JList xs \<Rightarrow> at_least mn (length xs) \<and> at_most mx (length xs) \<and> list_all (\<lambda>x. conforms F fl items x) xs
         | _ \<Rightarrow> False))"
| "conforms F fl (ObjectSchema props req desc add nl) v =
     (nl \<and> v = JNull
      \<or> (case v of
           JDict d \<Rightarrow> list_all (\<lambda>k. dict_get d k \<noteq> None) req
             \<and> list_all (\<lambda>(k, x).
                 (case map_of props k of Some s \<Rightarrow> conforms F fl s x | None \<Rightarrow> add \<noteq> AdditionalFlag False)) d
         | _ \<Rightarrow> False))"
| "conforms F fl (Fragment d) v = False"
  by pat_completeness auto
termination
  by (relation "measure (\<lambda>(F, fl, S, v). size S)") (auto intro: size_props[simplified])

text \<open>Schemas without raw dicts, with bounds that are numbers.\<close>

definition num_bound :: "json option \<Rightarrow> bool" where
  "num_bound b = (case b of None \<Rightarrow> True | Some v \<Rightarrow> is_number v)"

fun plain :: "tool_schema \<Rightarrow> bool" where
  "plain (NumberSchema desc mn mx en nl) = (num_bound mn \<and> num_bound mx)"
| "plain (ArraySchema items desc mn mx nl) = plain items"
| "plain (ObjectSchema props req desc add nl) =
     ((case add of AdditionalDict d \<Rightarrow> False | _ \<Rightarrow> True) \<and> list_all (\<lambda>(k, s). plain s) props)"
| "plain (Fragment d) = False"
| "plain S = True"

definition no_braces :: "string \<Rightarrow> bool" where
  "no_braces s \<longleftrightarrow> CHR 0x7B \<notin> set s \<and> CHR 0x7D \<notin> set s"

fun brace_free :: "json \<Rightarrow> bool" where
  "brace_free (JList xs) = list_all brace_free xs"
| "brace_free (JDict d) = list_all (\<lambda>(k, v). no_braces k \<and> brace_free v) d"
| "brace_free v = True"

subsection \<open>Helpers\<close>

lemma no_braces_simps [simp]:
  "no_braces []"
  "no_braces (s @ t) \<longleftrightarrow> no_braces s \<and> no_braces t"
  "no_braces (c # s) \<longleftrightarrow> c \<noteq> CHR 0x7B \<and> c \<noteq> CHR 0x7D \<and> no_braces s"
  by (auto simp: no_braces_def)

lemma no_braces_subpath: "no_braces path \<Longrightarrow> no_braces k \<Longrightarrow> no_braces (subpath path k)"
  by (simp add: subpath_def)

lemma format_plain: "no_braces s \<Longrightarrow> format_path s = Some s"
  by (induction s) auto

lemma nat_digits_plain: "no_braces (nat_digits n)"
proof (induction n rule: nat_digits.induct)
  case (1 n)
  have "char_of (48 + d) \<noteq> CHR 0x7B \<and> char_of (48 + d) \<noteq> CHR 0x7D" if "d < 10" for d :: nat
  proof -
    have "of_char (char_of (48 + d) :: char) = 48 + d"
      using that by simp
    then have "(of_char (char_of (48 + d) :: char) :: nat) < of_char (CHR 0x7B)"
        "(of_char (char_of (48 + d) :: char) :: nat) < of_char (CHR 0x7D)"
      using that by simp_all
    then show ?thesis
      by (metis less_irrefl)
  qed
  then show ?case
    using 1 by (subst nat_digits.simps) (simp add: less_eq_Suc_le)
qed

lemma format_index_plain:
  assumes "no_braces path"
  obtains p where "format_index path i = Some p" "no_braces p"
  using assms nat_digits_plain[of i] by (simp add: format_index_def format_plain)

text \<open>The check decides \<open>ok\<close>, unless a path template raises, which is possible only when \<open>sure\<close> is False.\<close>

definition finds :: "bool \<Rightarrow> schema_exc + violation list \<Rightarrow> bool \<Rightarrow> bool" where
  "finds sure r ok \<longleftrightarrow> (case r of Inl e \<Rightarrow> \<not> sure \<and> e = FormatErr | Inr vs \<Rightarrow> (vs = [] \<longleftrightarrow> ok))"

lemma finds_simps [simp]:
  "finds sure (Inr []) ok = ok"
  "finds sure (Inr (x # xs)) ok = (\<not> ok)"
  "finds sure (Inl e) ok \<longleftrightarrow> \<not> sure \<and> e = FormatErr"
  by (auto simp: finds_def)

lemma finds_if [simp]: "finds sure (Inr (if b then [x] else [])) ok = (ok \<longleftrightarrow> \<not> b)"
  by (auto simp: finds_def)

lemma collect_finds_Nil [simp]: "finds sure (collect []) True"
  by simp

lemma collect_finds: "finds sure r a \<Longrightarrow> finds sure (collect rs) b \<Longrightarrow> finds sure (collect (r # rs)) (a \<and> b)"
  by (auto simp: finds_def split: sum.splits)

lemma collect_finds2: "finds sure r a \<Longrightarrow> finds sure q b \<Longrightarrow> finds sure (collect [r, q]) (a \<and> b)"
  using collect_finds[of sure r a "[q]" b] collect_finds[of sure q b "[]" True] by (simp del: collect.simps add: collect.simps(1))

lemma collect_finds3: "finds sure r a \<Longrightarrow> finds sure q b \<Longrightarrow> finds sure p c \<Longrightarrow> finds sure (collect [r, q, p]) (a \<and> b \<and> c)"
  by (rule collect_finds[OF _ collect_finds2])

lemma collect_finds_all:
  "(\<And>x. x \<in> set xs \<Longrightarrow> finds sure (f x) (P x)) \<Longrightarrow> finds sure (collect (map f xs)) (list_all P xs)"
proof (induction xs)
  case Nil
  show ?case by simp
next
  case (Cons x xs)
  then have "finds sure (f x) (P x)" "finds sure (collect (map f xs)) (list_all P xs)"
    by simp_all
  then show ?case
    using collect_finds by fastforce
qed

subsection \<open>Reading the dict of a schema class\<close>

lemma dict_get_opt [simp]: "dict_get (opt_entry k f x) k' = (if k = k' then map_option f x else None)"
  by (cases x) (auto simp: opt_entry_def)

lemma dict_get_desc [simp]: "dict_get (desc_entry d) k = (if k = ''description'' \<and> d \<noteq> [] then Some (JStr d) else None)"
  by (simp add: desc_entry_def)

lemma string_entries [simp]:
  "dict_get (to_json_schema (StringSchema desc mn mx en nl)) ''type'' = Some (type_value ''string'' nl)"
  "dict_get (to_json_schema (StringSchema desc mn mx en nl)) ''nullable'' = None"
  "dict_get (to_json_schema (StringSchema desc mn mx en nl)) ''enum'' = map_option JList en"
  "dict_get (to_json_schema (StringSchema desc mn mx en nl)) ''minLength'' = map_option JInt mn"
  "dict_get (to_json_schema (StringSchema desc mn mx en nl)) ''maxLength'' = map_option JInt mx"
  by (auto simp: map_add_def split: option.split)

lemma integer_entries [simp]:
  "dict_get (to_json_schema (IntegerSchema desc mn mx en nl)) ''type'' = Some (type_value ''integer'' nl)"
  "dict_get (to_json_schema (IntegerSchema desc mn mx en nl)) ''nullable'' = None"
  "dict_get (to_json_schema (IntegerSchema desc mn mx en nl)) ''enum'' = map_option JList en"
  "dict_get (to_json_schema (IntegerSchema desc mn mx en nl)) ''minimum'' = map_option JInt mn"
  "dict_get (to_json_schema (IntegerSchema desc mn mx en nl)) ''maximum'' = map_option JInt mx"
  by (auto simp: map_add_def split: option.split)

lemma number_entries [simp]:
  "dict_get (to_json_schema (NumberSchema desc bn bx en nl)) ''type'' = Some (type_value ''number'' nl)"
  "dict_get (to_json_schema (NumberSchema desc bn bx en nl)) ''nullable'' = None"
  "dict_get (to_json_schema (NumberSchema desc bn bx en nl)) ''enum'' = map_option JList en"
  "dict_get (to_json_schema (NumberSchema desc bn bx en nl)) ''minimum'' = bn"
  "dict_get (to_json_schema (NumberSchema desc bn bx en nl)) ''maximum'' = bx"
  by (auto simp: map_add_def split: option.split)

lemma boolean_entries [simp]:
  "dict_get (to_json_schema (BooleanSchema desc dflt nl)) ''type'' = Some (type_value ''boolean'' nl)"
  "dict_get (to_json_schema (BooleanSchema desc dflt nl)) ''nullable'' = None"
  "dict_get (to_json_schema (BooleanSchema desc dflt nl)) ''enum'' = None"
  by (auto simp: map_add_def split: option.split)

lemma array_entries [simp]:
  "dict_get (to_json_schema (ArraySchema items desc mn mx nl)) ''type'' = Some (type_value ''array'' nl)"
  "dict_get (to_json_schema (ArraySchema items desc mn mx nl)) ''nullable'' = None"
  "dict_get (to_json_schema (ArraySchema items desc mn mx nl)) ''enum'' = None"
  "dict_get (to_json_schema (ArraySchema items desc mn mx nl)) ''items'' = Some (JDict (to_json_schema items))"
  "dict_get (to_json_schema (ArraySchema items desc mn mx nl)) ''minItems'' = map_option JInt mn"
  "dict_get (to_json_schema (ArraySchema items desc mn mx nl)) ''maxItems'' = map_option JInt mx"
  by (auto simp: map_add_def split: option.split)

lemma object_entries [simp]:
  "dict_get (to_json_schema (ObjectSchema props req desc add nl)) ''type'' = Some (type_value ''object'' nl)"
  "dict_get (to_json_schema (ObjectSchema props req desc add nl)) ''nullable'' = None"
  "dict_get (to_json_schema (ObjectSchema props req desc add nl)) ''enum'' = None"
  "dict_get (to_json_schema (ObjectSchema props req desc add nl)) ''properties''
     = Some (JDict (map (\<lambda>(k, s). (k, JDict (to_json_schema s))) props))"
  "dict_get (to_json_schema (ObjectSchema props req desc add nl)) ''required''
     = (if req = [] then None else Some (JList (map JStr req)))"
  "dict_get (to_json_schema (ObjectSchema props req desc add nl)) ''additionalProperties''
     = (case add of AdditionalUnset \<Rightarrow> None | AdditionalFlag b \<Rightarrow> Some (JBool b) | AdditionalDict d \<Rightarrow> Some (JDict d))"
  by (auto simp: map_add_def split: option.split additional.split)

declare to_json_schema.simps [simp del]

lemma type_value_facts [simp]:
  "t \<noteq> ''null'' \<Longrightarrow> length (union_members (type_value t nl)) \<le> 1"
  "has_null (type_value t nl) \<longleftrightarrow> nl \<and> True"
  "t \<noteq> ''null'' \<Longrightarrow> resolve_json_schema_type (type_value t nl) = JStr t"
  by (simp_all add: type_value_def union_members_def has_null_def resolve_json_schema_type_def)

lemma json_types_not_null: "t \<in> set JSON_TYPES \<Longrightarrow> t \<noteq> ''null''"
  by (auto simp: JSON_TYPES_def)

lemma front_typed:
  assumes "dict_get sd ''type'' = Some (type_value t nl)" "dict_get sd ''nullable'' = None" "t \<in> set JSON_TYPES"
  shows "front F fl v (JDict sd) path =
    (if nl \<and> v = JNull then Inr (Inl [])
     else if \<not> matches_type F fl v t then Inr (Inl [mismatch v path t])
     else if t = ''number'' \<and> (case v of JFloat r \<Rightarrow> \<not> fe_finite F r | _ \<Rightarrow> False)
       then Inr (Inl [bad path ''expected a finite number'' '' must be finite''])
     else Inr (Inr (sd, JStr t)))"
proof -
  have n: "narrow F fl v sd path = Inr sd"
    using assms type_value_facts(1)[OF json_types_not_null[OF assms(3)], of nl]
    by (simp add: narrow_def dict_value_def)
  have ty: "dict_value sd ''type'' JNull = type_value t nl" "dict_value sd ''nullable'' (JBool False) = JBool False"
    using assms(1,2) by (simp_all add: dict_value_def)
  have m: "t \<noteq> ''integer'' \<Longrightarrow> t \<noteq> ''number'' \<Longrightarrow> matches_type F fl v t = instance_of v t"
    using assms(3) json_types_not_null[OF assms(3)] by (simp add: matches_type_def)
  have num: "matches_type F fl v ''number'' = is_number v"
    by (simp add: matches_type_def)
  have "type_check F fl v sd path =
    (if nl \<and> v = JNull then Inr (Inl [])
     else if \<not> matches_type F fl v t then Inr (Inl [mismatch v path t])
     else if t = ''number'' \<and> (case v of JFloat r \<Rightarrow> \<not> fe_finite F r | _ \<Rightarrow> False)
       then Inr (Inl [bad path ''expected a finite number'' '' must be finite''])
     else Inr (Inr (JStr t)))"
    unfolding type_check_def ty Let_def type_value_facts(2) type_value_facts(3)[OF json_types_not_null[OF assms(3)]]
    using assms(3) m num by (cases "t = ''integer''"; cases "t = ''number''") simp_all
  then show ?thesis
    by (simp add: front_def n)
qed

lemma matches_type_simps [simp]:
  "matches_type F fl v ''string'' \<longleftrightarrow> (\<exists>s. v = JStr s)"
  "matches_type F fl v ''boolean'' \<longleftrightarrow> is_bool v"
  "matches_type F fl v ''number'' \<longleftrightarrow> is_number v"
  "matches_type F fl v ''array'' \<longleftrightarrow> (\<exists>xs. v = JList xs)"
  "matches_type F fl v ''object'' \<longleftrightarrow> (\<exists>d. v = JDict d)"
  by (cases v; simp add: matches_type_def JSON_TYPES_def)+

lemma json_types [simp]:
  "''string'' \<in> set JSON_TYPES" "''integer'' \<in> set JSON_TYPES" "''number'' \<in> set JSON_TYPES"
  "''boolean'' \<in> set JSON_TYPES" "''array'' \<in> set JSON_TYPES" "''object'' \<in> set JSON_TYPES"
  by (simp_all add: JSON_TYPES_def)

subsection \<open>The keywords\<close>

lemma enum_finds: "dict_get sd ''enum'' = map_option JList en \<Longrightarrow> finds sure (enum_part F v sd path) (among F en v)"
  by (cases en) (auto simp: enum_part_def py_in_def among_def finds_def)

lemma bound_finds:
  "(\<And>b. dict_get sd k = Some b \<Longrightarrow> fails b = Inr (\<not> P b)) \<Longrightarrow>
   finds sure (bound_part sd k fails mk) (case dict_get sd k of None \<Rightarrow> True | Some b \<Rightarrow> P b)"
  by (auto simp: bound_part_def finds_def split: option.split)

lemma number_finds:
  assumes "dict_get sd ''minimum'' = mn" "dict_get sd ''maximum'' = mx" "num_bound mn" "num_bound mx"
    "num_of v = Some a"
  shows "finds sure (number_part F v sd path) (num_between F mn mx v)"
proof -
  have num: "\<exists>n. num_of b = Some n" if "is_number b" for b
    using that by (cases b) auto
  have 1: "finds sure (bound_part sd ''minimum'' (\<lambda>b. py_less F v b) mk)
      (case mn of None \<Rightarrow> True | Some b \<Rightarrow> \<not> num_less F a (the (num_of b)))" for mk
    using bound_finds[of sd "''minimum''" "\<lambda>b. py_less F v b" "\<lambda>b. \<not> num_less F a (the (num_of b))"] assms num
    by (auto simp: num_bound_def py_less_def split: option.splits)
  have 2: "finds sure (bound_part sd ''maximum'' (\<lambda>b. py_less F b v) mk)
      (case mx of None \<Rightarrow> True | Some b \<Rightarrow> \<not> num_less F (the (num_of b)) a)" for mk
    using bound_finds[of sd "''maximum''" "\<lambda>b. py_less F b v" "\<lambda>b. \<not> num_less F (the (num_of b)) a"] assms num
    by (auto simp: num_bound_def py_less_def split: option.splits)
  show ?thesis
    unfolding number_part_def num_between_def assms(5) option.sel by (rule collect_finds2[OF 1 2])
qed

lemma length_finds:
  assumes "dict_get sd low = map_option JInt mn" "dict_get sd high = map_option JInt mx"
  shows "finds sure (length_part F n low high verb unit sd path) (at_least mn n \<and> at_most mx n)"
proof -
  have 1: "finds sure (bound_part sd low (\<lambda>b. py_less F (JInt (int n)) b) mk) (at_least mn n)" for mk
    using assms(1) by (cases mn) (auto simp: bound_part_def py_less_def at_least_def finds_def)
  have 2: "finds sure (bound_part sd high (\<lambda>b. py_less F b (JInt (int n))) mk) (at_most mx n)" for mk
    using assms(2) by (cases mx) (auto simp: bound_part_def py_less_def at_most_def finds_def)
  show ?thesis
    unfolding length_part_def by (rule collect_finds2[OF 1 2])
qed

lemma required_finds:
  assumes "dict_value sd ''required'' (JList []) = JList (map JStr req)"
  shows "finds sure (required_part F d sd path) (list_all (\<lambda>k. dict_get d k \<noteq> None) req)"
  unfolding required_part_def assms py_iter.simps sum.case map_map
  by (rule collect_finds_all) (simp add: py_in_def split: bool.split)

lemma props_get_of:
  "props_get F (JDict (map (\<lambda>(k, s). (k, JDict (to_json_schema s))) props)) k
     = Inr (map_option (\<lambda>s. JDict (to_json_schema s)) (map_of props k))"
proof -
  have "dict_get (map (\<lambda>(k, s). (k, JDict (to_json_schema s))) props) k
      = map_option (\<lambda>s. JDict (to_json_schema s)) (map_of props k)"
    by (induction props) auto
  then show ?thesis
    by (cases "map_of props k") (simp_all add: props_get_def py_in_def)
qed

subsection \<open>The checker decides the reference\<close>

text \<open>After the type check: null or mismatch is answered, otherwise the keywords decide.\<close>

definition body :: "float_env \<Rightarrow> bool \<Rightarrow> json \<Rightarrow> (string, json) dict \<Rightarrow> string \<Rightarrow> json \<Rightarrow> schema_exc + violation list" where
  "body F fl v sd path t = collect
     [enum_part F v sd path,
      (if t = JStr ''integer'' \<or> t = JStr ''number'' then number_part F v sd path else Inr []),
      (case v of
         JStr s \<Rightarrow> if t = JStr ''string''
                   then length_part F (length s) ''minLength'' ''maxLength'' '' must be'' '' chars'' sd path
                   else Inr []
       | JDict d \<Rightarrow> if t = JStr ''object''
                    then collect (required_part F d sd path # map (\<lambda>(k, x).
                      (case field_schema F sd path k of
                         Inl e \<Rightarrow> Inl e
                       | Inr (Inl vs) \<Rightarrow> Inr vs
                       | Inr (Inr s) \<Rightarrow> schema_violations F fl x s (subpath path k))) d)
                    else Inr []
       | JList xs \<Rightarrow> if t = JStr ''array''
                     then collect
                       [length_part F (length xs) ''minItems'' ''maxItems'' '' must have'' '' items'' sd path,
                        (case dict_get sd ''items'' of
                           None \<Rightarrow> Inr []
                         | Some s \<Rightarrow> collect (map (\<lambda>(i, x).
                             (case format_index path i of
                                None \<Rightarrow> Inl FormatErr
                              | Some p \<Rightarrow> schema_violations F fl x s p)) (enumerate 0 xs)))]
                     else Inr []
       | _ \<Rightarrow> Inr [])]"

lemma schema_violations_body:
  "schema_violations F fl v schema path =
     (case front F fl v schema path of
        Inl e \<Rightarrow> Inl e
      | Inr (Inl vs) \<Rightarrow> Inr vs
      | Inr (Inr (sd, t)) \<Rightarrow> body F fl v sd path t)"
  unfolding body_def by (rule schema_violations.simps)

lemma typed_finds:
  assumes "dict_get sd ''type'' = Some (type_value t nl)" "dict_get sd ''nullable'' = None" "t \<in> set JSON_TYPES"
    "\<And>r. v = JFloat r \<Longrightarrow> t = ''number'' \<Longrightarrow> ok \<Longrightarrow> fe_finite F r"
    "ok \<Longrightarrow> matches_type F fl v t"
    "v \<noteq> JNull \<or> \<not> nl \<Longrightarrow> matches_type F fl v t
       \<Longrightarrow> (\<And>r. v = JFloat r \<Longrightarrow> t = ''number'' \<Longrightarrow> fe_finite F r) \<Longrightarrow> finds sure (body F fl v sd path (JStr t)) ok"
  shows "finds sure (schema_violations F fl v (JDict sd) path) (nl \<and> v = JNull \<or> ok)"
  unfolding schema_violations_body front_typed[OF assms(1,2,3)]
  using assms(4,5,6) by (auto split: json.splits)

lemma enum_none: "dict_get sd ''enum'' = None \<Longrightarrow> finds sure (enum_part F v sd path) True"
  using enum_finds[of sd None] by (simp add: among_def)

lemma among_simps [simp]: "among F None v"
  by (simp add: among_def)

lemma nothing_finds: "finds sure (Inr []) True"
  by simp

lemma map_option_comp_JInt: "num_bound (map_option JInt b)"
  by (cases b) (simp_all add: num_bound_def)

lemma matches_integer_num: "matches_type F fl v ''integer'' \<Longrightarrow> \<exists>a. num_of v = Some a"
  by (cases v) (simp_all add: matches_type_def)

lemma is_number_num: "is_number v \<Longrightarrow> \<exists>a. num_of v = Some a"
  by (cases v) simp_all

lemma items_finds:
  assumes "\<And>x p. x \<in> set xs \<Longrightarrow> sure \<longrightarrow> no_braces p \<Longrightarrow> finds sure (schema_violations F fl x s p) (P x)" "sure \<longrightarrow> no_braces path"
  shows "finds sure (collect (map (\<lambda>(i, x). (case format_index path i of
            None \<Rightarrow> Inl FormatErr | Some p \<Rightarrow> schema_violations F fl x s p)) (enumerate n xs))) (list_all P xs)"
  using assms(1)
proof (induction xs arbitrary: n)
  case Nil
  show ?case by simp
next
  case (Cons x xs)
  have "sure \<longrightarrow> (\<exists>p. format_index path n = Some p \<and> no_braces p)"
    using format_index_plain assms(2) by blast
  then have "finds sure (case format_index path n of None \<Rightarrow> Inl FormatErr
      | Some p \<Rightarrow> schema_violations F fl x s p) (P x)"
    using Cons.prems by (auto split: option.split)
  from collect_finds[OF this Cons.IH[of "Suc n"]] show ?case
    using Cons.prems by simp
qed

text \<open>The body of each class.\<close>

lemma body_string:
  assumes "dict_get sd ''enum'' = map_option JList en" "dict_get sd ''minLength'' = map_option JInt mn"
    "dict_get sd ''maxLength'' = map_option JInt mx"
  shows "finds sure (body F fl (JStr s) sd path (JStr ''string''))
           (at_least mn (length s) \<and> at_most mx (length s) \<and> among F en (JStr s))"
  using collect_finds3[OF enum_finds[OF assms(1)] nothing_finds length_finds[OF assms(2,3)]]
  by (simp add: body_def conj_ac del: collect.simps)

lemma body_number:
  assumes "dict_get sd ''enum'' = map_option JList en" "dict_get sd ''minimum'' = mn" "dict_get sd ''maximum'' = mx"
    "num_bound mn" "num_bound mx" "num_of v = Some a" "t = ''integer'' \<or> t = ''number''"
  shows "finds sure (body F fl v sd path (JStr t)) (num_between F mn mx v \<and> among F en v)"
proof -
  have "finds sure (collect [enum_part F v sd path, number_part F v sd path, Inr []])
      (among F en v \<and> num_between F mn mx v \<and> True)"
    by (rule collect_finds3[OF enum_finds[OF assms(1)] number_finds[OF assms(2-6)] nothing_finds])
  moreover have "body F fl v sd path (JStr t) = collect [enum_part F v sd path, number_part F v sd path, Inr []]"
    using assms(6,7) by (cases v) (simp_all add: body_def del: collect.simps)
  ultimately show ?thesis
    by (simp only: conj_ac simp_thms)
qed

lemma body_boolean:
  assumes "dict_get sd ''enum'' = None"
  shows "finds sure (body F fl (JBool b) sd path (JStr ''boolean'')) True"
  using collect_finds3[OF enum_none[OF assms] nothing_finds nothing_finds]
  by (simp add: body_def del: collect.simps)

lemma body_array:
  assumes "dict_get sd ''enum'' = None" "dict_get sd ''minItems'' = map_option JInt mn"
    "dict_get sd ''maxItems'' = map_option JInt mx" "dict_get sd ''items'' = Some s" "sure \<longrightarrow> no_braces path"
    "\<And>x p. x \<in> set xs \<Longrightarrow> sure \<longrightarrow> no_braces p \<Longrightarrow> finds sure (schema_violations F fl x s p) (P x)"
  shows "finds sure (body F fl (JList xs) sd path (JStr ''array''))
           (at_least mn (length xs) \<and> at_most mx (length xs) \<and> list_all P xs)"
proof -
  have "finds sure (collect [enum_part F (JList xs) sd path, Inr [],
      collect [length_part F (length xs) ''minItems'' ''maxItems'' '' must have'' '' items'' sd path,
        collect (map (\<lambda>(i, x). (case format_index path i of
            None \<Rightarrow> Inl FormatErr | Some p \<Rightarrow> schema_violations F fl x s p)) (enumerate 0 xs))]])
      (True \<and> True \<and> (at_least mn (length xs) \<and> at_most mx (length xs)) \<and> list_all P xs)"
    by (intro collect_finds3 collect_finds2 enum_none length_finds nothing_finds items_finds assms) (use assms(6) in blast)+
  then show ?thesis
    by (simp add: body_def assms(4) conj_ac del: collect.simps)
qed

lemma field_schema_class:
  assumes "dict_get sd ''properties'' = Some (JDict (map (\<lambda>(k, s). (k, JDict (to_json_schema s))) props))"
    "dict_get sd ''additionalProperties'' =
       (case add of AdditionalUnset \<Rightarrow> None | AdditionalFlag b \<Rightarrow> Some (JBool b) | AdditionalDict d \<Rightarrow> Some (JDict d))"
    "\<And>d. add \<noteq> AdditionalDict d"
  shows "field_schema F sd path k =
     (case map_of props k of
        Some s \<Rightarrow> Inr (Inr (JDict (to_json_schema s)))
      | None \<Rightarrow> Inr (Inl (if add = AdditionalFlag False then [unexpected (subpath path k)] else [])))"
  using assms by (cases "map_of props k"; cases add) (auto simp: field_schema_def dict_value_def props_get_of)

lemma body_object:
  assumes "dict_get sd ''enum'' = None" "dict_value sd ''required'' (JList []) = JList (map JStr req)"
    "\<And>k. field_schema F sd path k =
       (case map_of props k of
          Some s \<Rightarrow> Inr (Inr (JDict (to_json_schema s)))
        | None \<Rightarrow> Inr (Inl (if add = AdditionalFlag False then [unexpected (subpath path k)] else [])))"
    "\<And>k x s. (k, x) \<in> set d \<Longrightarrow> map_of props k = Some s
       \<Longrightarrow> finds sure (schema_violations F fl x (JDict (to_json_schema s)) (subpath path k)) (P s x)"
  shows "finds sure (body F fl (JDict d) sd path (JStr ''object''))
           (list_all (\<lambda>k. dict_get d k \<noteq> None) req
            \<and> list_all (\<lambda>(k, x). (case map_of props k of Some s \<Rightarrow> P s x | None \<Rightarrow> add \<noteq> AdditionalFlag False)) d)"
proof -
  let ?f = "\<lambda>(k, x). (case field_schema F sd path k of
      Inl e \<Rightarrow> Inl e | Inr (Inl vs) \<Rightarrow> Inr vs | Inr (Inr s) \<Rightarrow> schema_violations F fl x s (subpath path k))"
  have "finds sure (?f kx) ((\<lambda>(k, x). (case map_of props k of Some s \<Rightarrow> P s x | None \<Rightarrow> add \<noteq> AdditionalFlag False)) kx)"
    if kx: "kx \<in> set d" for kx
  proof -
    obtain k x where "kx = (k, x)"
      by fastforce
    then show ?thesis
      using assms(4)[of k x] kx by (cases "map_of props k") (simp_all add: assms(3))
  qed
  then have "finds sure (collect [enum_part F (JDict d) sd path, Inr [],
      collect (required_part F d sd path # map ?f d)])
    (True \<and> True \<and> list_all (\<lambda>k. dict_get d k \<noteq> None) req
      \<and> list_all (\<lambda>(k, x). (case map_of props k of Some s \<Rightarrow> P s x | None \<Rightarrow> add \<noteq> AdditionalFlag False)) d)"
    by (intro collect_finds3 collect_finds collect_finds_all required_finds enum_none nothing_finds assms(1,2)) blast
  then show ?thesis
    by (simp add: body_def del: collect.simps)
qed

lemma schema_finds:
  "plain S \<Longrightarrow> (sure \<longrightarrow> brace_free v) \<Longrightarrow> (sure \<longrightarrow> no_braces path) \<Longrightarrow>
     finds sure (schema_violations F fl v (JDict (to_json_schema S)) path) (conforms F fl S v)"
proof (induction F fl S v arbitrary: path rule: conforms.induct)
  case (1 F fl desc mn mx en nl v)
  show ?case
    unfolding conforms.simps
    by (rule typed_finds[where t = "''string''"])
       (auto simp: intro!: body_string split: json.splits)
next
  case (2 F fl desc mn mx en nl v)
  show ?case
    unfolding conforms.simps conj_assoc
  proof (rule typed_finds[where t = "''integer''"])
    assume m: "matches_type F fl v ''integer''"
    then obtain a where "num_of v = Some a"
      using matches_integer_num by blast
    then have "finds sure (body F fl v (to_json_schema (IntegerSchema desc mn mx en nl)) path (JStr ''integer''))
        (num_between F (map_option JInt mn) (map_option JInt mx) v \<and> among F en v)"
      by (intro body_number) (auto simp: map_option_comp_JInt)
    with m show "finds sure (body F fl v (to_json_schema (IntegerSchema desc mn mx en nl)) path (JStr ''integer''))
        (matches_type F fl v ''integer'' \<and> num_between F (map_option JInt mn) (map_option JInt mx) v \<and> among F en v)"
      by simp
  qed auto
next
  case (3 F fl desc mn mx en nl v)
  show ?case
    unfolding conforms.simps
  proof (rule typed_finds[where t = "''number''"])
    assume m: "matches_type F fl v ''number''"
      and fin: "\<And>r. v = JFloat r \<Longrightarrow> ''number'' = ''number'' \<Longrightarrow> fe_finite F r"
    from m obtain a where "num_of v = Some a"
      using is_number_num by auto
    then have "finds sure (body F fl v (to_json_schema (NumberSchema desc mn mx en nl)) path (JStr ''number''))
        (num_between F mn mx v \<and> among F en v)"
      using 3(1) by (intro body_number) auto
    then show "finds sure (body F fl v (to_json_schema (NumberSchema desc mn mx en nl)) path (JStr ''number''))
        (is_number v \<and> (case v of JFloat r \<Rightarrow> fe_finite F r | _ \<Rightarrow> True) \<and> num_between F mn mx v \<and> among F en v)"
      using m fin by (cases v) simp_all
  qed auto
next
  case (4 F fl desc dflt nl v)
  show ?case
    unfolding conforms.simps
    by (rule typed_finds[where t = "''boolean''"])
       (cases v; simp add: body_boolean)+
next
  case (5 F fl items desc mn mx nl v)
  let ?sd = "to_json_schema (ArraySchema items desc mn mx nl)"
  have "finds sure (body F fl (JList xs) ?sd path (JStr ''array''))
      (at_least mn (length xs) \<and> at_most mx (length xs) \<and> list_all (\<lambda>x. conforms F fl items x) xs)"
    if xs: "v = JList xs" for xs
  proof (rule body_array)
    fix x p assume "x \<in> set xs" "sure \<longrightarrow> no_braces p"
    then show "finds sure (schema_violations F fl x (JDict (to_json_schema items)) p) (conforms F fl items x)"
      using 5(1)[OF xs] 5(2,3) xs by (auto simp: list_all_iff)
  qed (use 5(4) in auto)
  then show ?case
    unfolding conforms.simps
    by (intro typed_finds[where t = "''array''"]) (auto split: json.splits)
next
  case (6 F fl props req desc add nl v)
  let ?sd = "to_json_schema (ObjectSchema props req desc add nl)"
  have add: "\<And>d. add \<noteq> AdditionalDict d"
    using 6(2) by auto
  have "finds sure (body F fl (JDict d) ?sd path (JStr ''object''))
      (list_all (\<lambda>k. dict_get d k \<noteq> None) req
       \<and> list_all (\<lambda>(k, x). (case map_of props k of Some s \<Rightarrow> conforms F fl s x | None \<Rightarrow> add \<noteq> AdditionalFlag False)) d)"
    if d: "v = JDict d" for d
  proof (rule body_object)
    fix k x s assume k: "(k, x) \<in> set d" "map_of props k = Some s"
    then have "plain s"
      using 6(2) by (auto simp: list_all_iff dest!: map_of_SomeD)
    moreover have "sure \<longrightarrow> brace_free x" "sure \<longrightarrow> no_braces k"
      using 6(3) k(1) d by (auto simp: list_all_iff)
    ultimately show "finds sure (schema_violations F fl x (JDict (to_json_schema s)) (subpath path k)) (conforms F fl s x)"
      using 6(1)[OF d k(1) refl k(2)] 6(4) no_braces_subpath by blast
  next
    fix k show "field_schema F ?sd path k = (case map_of props k of
        Some s \<Rightarrow> Inr (Inr (JDict (to_json_schema s)))
      | None \<Rightarrow> Inr (Inl (if add = AdditionalFlag False then [unexpected (subpath path k)] else [])))"
      by (rule field_schema_class[OF _ _ add]) simp_all
  qed (simp_all add: dict_value_def)
  then show ?case
    unfolding conforms.simps
    by (intro typed_finds[where t = "''object''"])
       (auto split: json.splits)
next
  case (7 F fl d v)
  then show ?case by simp
qed

subsection \<open>Casting\<close>

lemma sequence_all_id: "(\<And>x. x \<in> set xs \<Longrightarrow> f x = Inr x) \<Longrightarrow> sequence_all (map f xs) = Inr xs"
  by (induction xs) auto

lemma cast_conforming:
  "conforms F False S v \<Longrightarrow> plain S \<Longrightarrow> cast_value F v (JDict (to_json_schema S)) = Inr v"
proof (induction F "False" S v rule: conforms.induct)
  case (1 F desc mn mx en nl v)
  then show ?case
    by (cases v) (auto simp: cast_value.simps dict_value_def cast_scalar_def)
next
  case (2 F desc mn mx en nl v)
  then show ?case
    by (cases v) (auto simp: cast_value.simps dict_value_def cast_scalar_def matches_type_def)
next
  case (3 F desc mn mx en nl v)
  then show ?case
    by (cases v) (auto simp: cast_value.simps dict_value_def cast_scalar_def)
next
  case (4 F desc dflt nl v)
  then show ?case
    by (cases v) (auto simp: cast_value.simps dict_value_def cast_scalar_def)
next
  case (5 F items desc mn mx nl v)
  have "sequence_all (map (\<lambda>x. cast_value F x (JDict (to_json_schema items))) xs) = Inr xs" if "v = JList xs" for xs
    using 5 that by (intro sequence_all_id) (auto simp: list_all_iff)
  with 5(2) show ?case
    by (subst cast_value.simps) (cases v; auto simp: dict_value_def cast_scalar_def)
next
  case (6 F props req desc add nl v)
  let ?sd = "to_json_schema (ObjectSchema props req desc add nl)"
  have f: "cast_field_schema F ?sd k = Inr (map_option (\<lambda>s. JDict (to_json_schema s)) (map_of props k))" for k
    using 6(3) by (cases "map_of props k"; cases add) (simp_all add: cast_field_schema_def dict_value_def props_get_of)
  have p: "plain s" if "map_of props k = Some s" for k s
    using 6(3) that by (auto simp: list_all_iff dest!: map_of_SomeD)
  have "sequence_all (map (\<lambda>(k, x). (case cast_field_schema F ?sd k of
      Inl e \<Rightarrow> Inl e | Inr None \<Rightarrow> Inr (k, x) | Inr (Some s) \<Rightarrow> map_sum id (Pair k) (cast_value F x s))) d) = Inr d"
    if d: "v = JDict d" for d
  proof (rule sequence_all_id)
    fix kx assume kx: "kx \<in> set d"
    obtain k x where "kx = (k, x)"
      by fastforce
    then show "(\<lambda>(k, x). (case cast_field_schema F ?sd k of
        Inl e \<Rightarrow> Inl e | Inr None \<Rightarrow> Inr (k, x) | Inr (Some s) \<Rightarrow> map_sum id (Pair k) (cast_value F x s))) kx = Inr kx"
      using 6(1)[OF d kx] 6(2) p d kx by (cases "map_of props k") (auto simp: f list_all_iff)
  qed
  with 6(2) show ?case
    by (subst cast_value.simps) (cases v; auto simp: dict_value_def cast_scalar_def)
next
  case (7 F d v)
  then show ?case by simp
qed

subsection \<open>Claims\<close>

definition whole_floats :: float_env where
  "whole_floats = \<lparr>fe_eq = (\<lambda>a b. a = b), fe_less = (\<lambda>a b. False), fe_finite = (\<lambda>r. r \<notin> {''inf'', ''-inf'', ''nan''}),
     fe_integral = (\<lambda>r. r = ''4.0''), fe_int = (\<lambda>s. if s = ''7'' then Some 7 else None), fe_float = (\<lambda>s. None)\<rparr>"

definition query_schema :: tool_schema where
  "query_schema = ObjectSchema [(''q'', StringSchema ''query'' (Some 1) None None False),
     (''k'', ArraySchema (IntegerSchema [] (Some 0) (Some 9) None False) [] None (Some 3) True)] [''q''] []
     (AdditionalFlag False) False"

definition query_args :: json where
  "query_args = JDict [(''q'', JStr ''moeka''), (''k'', JList [JInt 1, JInt 4])]"

text \<open>
  Claim C1: the schema check decides the schema. For every schema built from the schema classes (without a
  \<open>Fragment\<close>, a dict as \<open>additional_properties\<close> or a bound of a number that is no number) and every value,
  the check either returns, and then returns no violation exactly when the value conforms to the schema, or it
  raises the exception of a path template, and that only for a value with a brace in a field name; for arguments
  and (with \<open>integral_floats\<close>) for results.
\<close>

theorem schema_check_exact:
  assumes "plain S"
  shows "(case schema_violations F fl v (JDict (to_json_schema S)) [] of
            Inr vs \<Rightarrow> vs = [] \<longleftrightarrow> conforms F fl S v
          | Inl e \<Rightarrow> e = FormatErr \<and> \<not> brace_free v)"
proof (cases "schema_violations F fl v (JDict (to_json_schema S)) []")
  case (Inl e)
  with schema_finds[OF assms, of "brace_free v" v "[]" F fl] show ?thesis by simp
next
  case (Inr vs)
  with schema_finds[OF assms, of False v "[]" F fl] show ?thesis by (simp add: finds_def)
qed

theorem schema_check_exact_witness:
  "(case schema_violations whole_floats False query_args (JDict (to_json_schema query_schema)) [] of
      Inr vs \<Rightarrow> vs = [] \<longleftrightarrow> conforms whole_floats False query_schema query_args
    | Inl e \<Rightarrow> e = FormatErr \<and> \<not> brace_free query_args)"
  by (rule schema_check_exact) code_simp



text \<open>
  Claim C40: a field name with a brace makes the check raise. The path of a field is used as a template
  for the paths of its items, so an array under a field whose name has a brace that is not doubled ends in
  an exception instead of a verdict, whatever the array holds (an object that admits the field is enough).
\<close>

theorem brace_in_field_raises:
  assumes "format_path k = None" "additional = JDict [(''type'', JStr ''array''), (''items'', JDict [])]"
  shows "schema_violations F fl (JDict [(k, JList (x # xs))])
           (JDict [(''type'', JStr ''object''), (''additionalProperties'', additional)]) [] = Inl FormatErr"
proof -
  have k: "format_index k i = None" for i
    using assms(1) by (simp add: format_index_def)
  have inner: "schema_violations F fl (JList (x # xs)) additional k = Inl FormatErr"
    unfolding assms(2) schema_violations_body
    by (simp add: front_def narrow_def type_check_def dict_value_def union_members_def has_null_def
        resolve_json_schema_type_def JSON_TYPES_def body_def enum_part_def length_part_def bound_part_def k
        enumerate_simps)
  show ?thesis
    unfolding schema_violations_body[of F fl _ "JDict [(''type'', JStr ''object''), _]"]
    using inner assms(2)
    by (simp add: front_def narrow_def type_check_def dict_value_def union_members_def has_null_def
        resolve_json_schema_type_def JSON_TYPES_def body_def enum_part_def required_part_def field_schema_def
        props_get_def py_in_def subpath_def)
qed

theorem brace_in_field_raises_witness:
  "schema_violations whole_floats False (JDict [(''a{b}'', JList [JInt 1])])
     (JDict [(''type'', JStr ''object''),
        (''additionalProperties'', JDict [(''type'', JStr ''array''), (''items'', JDict [])])]) [] = Inl FormatErr"
  by (rule brace_in_field_raises) code_simp+

end
