(* ===== verification/Typed.thy ===== *)
theory Typed
  imports SchemaSpec Gate
begin

text \<open>
  Typed results, \<open>nanobot/kernel/typed.py\<close>: the result of a tool is checked against its \<open>output_schema\<close> before
  anything uses it. \<open>json.loads\<close> (None where it raises), the name of an exception's class and
  the dump of a pydantic model (None where it raises) are arguments.
\<close>

subsection \<open>Values\<close>

text \<open>A Python value is JSON or an instance of a pydantic class; a result is a value or a \<open>ToolResult\<close>.\<close>

datatype py_value = PyJson json | PyModel string "json option"

record tool_output =
  to_text :: string
  to_is_error :: bool
  to_structured :: "py_value option"
  to_metadata :: "(string, json) dict"

datatype tool_value = Output tool_output | Value py_value

definition error_output :: "string \<Rightarrow> tool_output" where
  "error_output text = \<lparr>to_text = text, to_is_error = True, to_structured = None, to_metadata = []\<rparr>"

fun is_tool_error_result :: "tool_value \<Rightarrow> bool" where
  "is_tool_error_result (Output r) = to_is_error r"
| "is_tool_error_result (Value v) = False"

datatype out_schema = SchemaRaises | SchemaIs json

text \<open>
  \<open>ty_trusts c\<close>: the tool is exactly a \<open>FunctionTool\<close> with an output model of which \<open>c\<close> is a subclass. An absent
  schema is \<^term>\<open>SchemaIs JNull\<close>.
\<close>

record typed_tool =
  ty_name :: string
  ty_schema :: out_schema
  ty_trusts :: "string \<Rightarrow> bool"

record typed_env =
  ye_float :: float_env
  ye_parse :: "string \<Rightarrow> json option"
  ye_exc :: "schema_exc \<Rightarrow> string"

record result_event =
  re_actor :: string
  re_kind :: principal_kind
  re_tool :: string
  re_marker :: string
  re_error :: string

subsection \<open>Errors\<close>

definition RESULT_SCHEMA_MARKER :: string where "RESULT_SCHEMA_MARKER = ''result failed schema''"
definition DISCARD_NOTE :: string where
  "DISCARD_NOTE = ''The result was discarded; do not treat it as fact.''"
definition MAX_PROBLEMS :: nat where "MAX_PROBLEMS = 20"

definition shown_problems :: "string list \<Rightarrow> string" where
  "shown_problems problems =
     join_with ''; '' (take MAX_PROBLEMS problems)
       @ (if length problems > MAX_PROBLEMS
          then ''; ... and '' @ nat_digits (length problems - MAX_PROBLEMS) @ '' more'' else [])"

definition result_schema_error :: "string \<Rightarrow> string list \<Rightarrow> tool_output" where
  "result_schema_error name problems =
     error_output (''Error: tool '' @ [CHR 0x27] @ name @ [CHR 0x27] @ '' '' @ RESULT_SCHEMA_MARKER @ '': ''
       @ shown_problems problems @ ''. '' @ DISCARD_NOTE)"

datatype loc_part = LocKey string | LocIndex int

record pydantic_error =
  pe_loc :: "loc_part list"
  pe_type :: "string option"
  pe_msg :: "string option"

definition loc_step :: "string \<Rightarrow> loc_part \<Rightarrow> string" where
  "loc_step path part =
     (case part of
        LocIndex i \<Rightarrow> path @ ''['' @ int_str i @ '']''
      | LocKey k \<Rightarrow> if path = [] then k else path @ ''.'' @ k)"

text \<open>None when the exception has no usable \<open>errors()\<close>.\<close>

definition pydantic_problems :: "string \<Rightarrow> pydantic_error list option \<Rightarrow> string list" where
  "pydantic_problems cls items =
     (let problems = map (\<lambda>e.
            (let path = foldl loc_step [] (pe_loc e);
                 msg = (if pe_type e = Some ''missing'' then ''required field missing''
                        else (case pe_msg e of Some m \<Rightarrow> m | None \<Rightarrow> ''invalid''))
             in (if path = [] then ''(value)'' else path) @ '': '' @ msg)) (case items of None \<Rightarrow> [] | Some es \<Rightarrow> es)
      in if problems = [] then [''(value): '' @ cls] else problems)"

subsection \<open>The check\<close>

text \<open>
  The value to check: Left when the dump of a model raises, None when a text is not JSON. A
  \<open>ToolResult\<close> without a payload is its text.
\<close>

definition dump_value :: "py_value \<Rightarrow> unit + json" where
  "dump_value v = (case v of PyJson j \<Rightarrow> Inr j | PyModel c None \<Rightarrow> Inl () | PyModel c (Some j) \<Rightarrow> Inr j)"

definition structured_value :: "typed_env \<Rightarrow> tool_value \<Rightarrow> unit + json option" where
  "structured_value Y r =
     (case r of
        Output x \<Rightarrow> (case to_structured x of
                       Some v \<Rightarrow> map_sum id Some (dump_value v)
                     | None \<Rightarrow> Inr (ye_parse Y (to_text x)))
      | Value (PyJson (JStr s)) \<Rightarrow> Inr (ye_parse Y s)
      | Value v \<Rightarrow> map_sum id Some (dump_value v))"

definition validated_by_output_model :: "typed_tool \<Rightarrow> tool_value \<Rightarrow> bool" where
  "validated_by_output_model t r =
     (case r of
        Output x \<Rightarrow> (case to_structured x of Some (PyModel c _) \<Rightarrow> ty_trusts t c | _ \<Rightarrow> False)
      | Value v \<Rightarrow> False)"

definition reject_result ::
  "typed_tool \<Rightarrow> principal option \<Rightarrow> string list \<Rightarrow> tool_value \<times> result_event list" where
  "reject_result t pr problems =
     (let p = or_else pr AGENT_PRINCIPAL in
      (Output (result_schema_error (ty_name t) problems),
       [\<lparr>re_actor = p_name p, re_kind = p_kind p, re_tool = ty_name t, re_marker = RESULT_SCHEMA_MARKER,
         re_error = take 500 (join_with ''; '' problems)\<rparr>]))"

text \<open>The left is the exception of a dump that raises, which no handler of this function catches.\<close>

definition validate_result ::
  "typed_env \<Rightarrow> typed_tool \<Rightarrow> principal option \<Rightarrow> tool_value \<Rightarrow> unit + tool_value \<times> result_event list" where
  "validate_result Y t pr r =
     (if is_tool_error_result r then Inr (r, [])
      else (case ty_schema t of
              SchemaRaises \<Rightarrow>
                Inr (reject_result t pr [''(value): the tool'' @ [CHR 0x27] @ ''s output_schema could not be read''])
            | SchemaIs JNull \<Rightarrow> Inr (r, [])
            | SchemaIs (JDict d) \<Rightarrow>
                if d = [] then Inr (r, [])
                else if validated_by_output_model t r then Inr (r, [])
                else (case structured_value Y r of
                        Inl x \<Rightarrow> Inl x
                      | Inr None \<Rightarrow>
                          Inr (reject_result t pr [''(value): not valid JSON, expected a value matching the '' @
                            ''declared output schema''])
                      | Inr (Some v) \<Rightarrow>
                          (case schema_violations (ye_float Y) True v (JDict d) [] of
                             Inl e \<Rightarrow> Inr (reject_result t pr
                               [''(value): the output schema could not be applied ('' @ ye_exc Y e @ '')''])
                           | Inr [] \<Rightarrow> Inr (r, [])
                           | Inr vs \<Rightarrow> Inr (reject_result t pr (map describe vs))))
            | SchemaIs v \<Rightarrow> Inr (reject_result t pr
                [''(value): the tool'' @ [CHR 0x27] @ ''s output_schema is not a JSON Schema object''])))"

subsection \<open>What passes\<close>

text \<open>A result that satisfies a schema: trusted, or a value without violations.\<close>

definition result_fits :: "typed_env \<Rightarrow> typed_tool \<Rightarrow> (string, json) dict \<Rightarrow> tool_value \<Rightarrow> bool" where
  "result_fits Y t d r \<longleftrightarrow> validated_by_output_model t r
     \<or> (\<exists>v. structured_value Y r = Inr (Some v) \<and> schema_violations (ye_float Y) True v (JDict d) [] = Inr [])"

lemma rejected_is_error: "is_tool_error_result (fst (reject_result t pr ps))"
  by (simp add: reject_result_def Let_def result_schema_error_def error_output_def)

text \<open>
  What a tool's output schema says of a result that passes: nothing without a schema or with an empty one, the
  check otherwise; with a schema that cannot be read or is no object nothing passes.
\<close>

definition output_checked :: "typed_env \<Rightarrow> typed_tool \<Rightarrow> tool_value \<Rightarrow> bool" where
  "output_checked Y t r \<longleftrightarrow>
     (case ty_schema t of
        SchemaIs JNull \<Rightarrow> True
      | SchemaIs (JDict d) \<Rightarrow> d = [] \<or> result_fits Y t d r
      | _ \<Rightarrow> False)"

lemma reject_not_passed: "reject_result t pr ps = (r', ev) \<Longrightarrow> is_tool_error_result r'"
  using rejected_is_error[of t pr ps] by simp

lemma validate_result_passes:
  assumes "validate_result Y t pr r = Inr (r', ev)" "\<not> is_tool_error_result r'"
  shows "r' = r \<and> ev = [] \<and> output_checked Y t r"
  using assms
  by (auto simp: validate_result_def result_fits_def output_checked_def dest!: reject_not_passed
      split: if_splits out_schema.splits json.splits sum.splits option.splits list.splits)

lemma no_violations_conforms:
  assumes "schema_violations F fl v (JDict (to_json_schema S)) [] = Inr []" "plain S"
  shows "conforms F fl S v"
  using schema_finds[OF assms(2), of False v "[]" F fl] assms(1) by simp


definition plain_env :: typed_env where
  "plain_env = \<lparr>ye_float = whole_floats, ye_parse = (\<lambda>s. if s = ''4.0'' then Some (JFloat ''4.0'') else None),
     ye_exc = (\<lambda>e. ''TypeError'')\<rparr>"

definition count_schema :: tool_schema where "count_schema = IntegerSchema [] None None None False"

definition count_tool :: typed_tool where
  "count_tool = \<lparr>ty_name = ''count'', ty_schema = SchemaIs (JDict (to_json_schema count_schema)), ty_trusts = (\<lambda>_. False)\<rparr>"


end
