(* ===== verification/ToolRegistry.thy ===== *)
theory ToolRegistry
  imports Typed "HOL-Library.Multiset"
begin

text \<open>
  The registry of tools, \<open>nanobot/agent/tools/registry.py\<close>, and the batches of \<open>nanobot/agent/tools/execution.py\<close>:
  registration with the strict-mode drop, the cached definitions, and one call from its name and
  arguments to its result: preparation, gate, execution, check of the result. The run of a tool, its
  definition and \<open>json.loads\<close> are arguments. The legacy \<open>set_context\<close> protocol and \<open>bind_registry\<close> are left out.
\<close>

subsection \<open>State\<close>

record rtool =
  tl_gate :: gtool
  tl_parameters :: "(string, json) dict"
  tl_typed :: typed_tool
  tl_surface :: "string list option"
  tl_definition :: "(string, json) dict"
  tl_concurrency_safe :: bool

definition tl_name :: "rtool \<Rightarrow> string" where "tl_name t = tool_name (tl_gate t)"

record tool_registry =
  tg_tools :: "(string, rtool) dict"
  tg_cache :: "(string, json) dict list option"
  tg_policy :: "policy option"
  tg_principal :: "principal option"
  tg_env :: "gate_env option"
  tg_workspace :: "ppath option"
  tg_admit :: "(rtool \<Rightarrow> bool) option"

definition new_registry :: tool_registry where
  "new_registry = \<lparr>tg_tools = [], tg_cache = None, tg_policy = None, tg_principal = None, tg_env = None,
     tg_workspace = None, tg_admit = None\<rparr>"

datatype tool_event =
    ToolDropped string "string list"
  | ToolInvalid string principal_kind string "string option" string

subsection \<open>Registration\<close>

text \<open>\<open>_strict_drop\<close>, with the event it emits.\<close>

definition strict_drop :: "'c hosts \<Rightarrow> tool_registry \<Rightarrow> rtool \<Rightarrow> bool" where
  "strict_drop H R t =
     (case tg_policy R of
        None \<Rightarrow> False
      | Some p \<Rightarrow> is_strict (tg_env R) \<and> fully_denied H p (tl_surface t))"

definition dropped_event :: "rtool \<Rightarrow> tool_event" where
  "dropped_event t = ToolDropped (tl_name t) (sort (remdups (case tl_surface t of None \<Rightarrow> [] | Some ns \<Rightarrow> ns)))"

definition unregister_tool :: "string \<Rightarrow> tool_registry \<Rightarrow> tool_registry" where
  "unregister_tool name R = R\<lparr>tg_tools := dict_del (tg_tools R) name, tg_cache := None\<rparr>"

definition register_tool :: "'c hosts \<Rightarrow> rtool \<Rightarrow> tool_registry \<Rightarrow> bool \<times> tool_event list \<times> tool_registry" where
  "register_tool H t R =
     (if (case tg_admit R of None \<Rightarrow> False | Some admit \<Rightarrow> \<not> admit t) then (False, [], R)
      else if strict_drop H R t then (False, [dropped_event t], unregister_tool (tl_name t) R)
      else (True, [], R\<lparr>tg_tools := dict_set (tg_tools R) (tl_name t) t, tg_cache := None\<rparr>))"

fun prune_tools :: "'c hosts \<Rightarrow> (string \<times> rtool) list \<Rightarrow> tool_registry \<Rightarrow> tool_event list \<times> tool_registry" where
  "prune_tools H [] R = ([], R)"
| "prune_tools H ((name, t) # tls) R =
     (if strict_drop H R t
      then (case prune_tools H tls (unregister_tool name R) of (ev, R') \<Rightarrow> (dropped_event t # ev, R'))
      else prune_tools H tls R)"

definition configure_gate ::
  "'c hosts \<Rightarrow> policy option \<Rightarrow> principal option \<Rightarrow> gate_env option \<Rightarrow> ppath option \<Rightarrow> tool_registry
     \<Rightarrow> tool_event list \<times> tool_registry" where
  "configure_gate H pol pr env ws R =
     (let R' = R\<lparr>tg_policy := pol, tg_principal := pr, tg_env := env, tg_workspace := ws\<rparr>
      in prune_tools H (tg_tools R') R')"

definition get_tool :: "tool_registry \<Rightarrow> string \<Rightarrow> rtool option" where
  "get_tool R name = dict_get (tg_tools R) name"

definition has_tool :: "tool_registry \<Rightarrow> string \<Rightarrow> bool" where
  "has_tool R name = (get_tool R name \<noteq> None)"

definition tool_names :: "tool_registry \<Rightarrow> string list" where
  "tool_names R = map fst (tg_tools R)"

text \<open>\<open>ch.lower()\<close> of a code point below 256.\<close>

definition lower_latin :: "char \<Rightarrow> char" where
  "lower_latin c =
     (let n = of_char c :: nat in
      if 65 \<le> n \<and> n \<le> 90 \<or> 0xC0 \<le> n \<and> n \<le> 0xDE \<and> n \<noteq> 0xD7 then char_of (n + 32) else c)"

definition lookup_key :: "string \<Rightarrow> string" where
  "lookup_key name = map lower_latin (filter is_alnum name)"

definition suggest_name :: "tool_registry \<Rightarrow> string \<Rightarrow> string option" where
  "suggest_name R name =
     (if lookup_key name = [] then None
      else (case filter (\<lambda>n. lookup_key n = lookup_key name) (tool_names R) of [n] \<Rightarrow> Some n | _ \<Rightarrow> None))"

subsection \<open>Definitions for the model\<close>

definition schema_name :: "(string, json) dict \<Rightarrow> string" where
  "schema_name d =
     (case dict_get d ''function'' of
        Some (JDict fn) \<Rightarrow>
          (case dict_get fn ''name'' of
             Some (JStr n) \<Rightarrow> n
           | _ \<Rightarrow> (case dict_get d ''name'' of Some (JStr n) \<Rightarrow> n | _ \<Rightarrow> []))
      | _ \<Rightarrow> (case dict_get d ''name'' of Some (JStr n) \<Rightarrow> n | _ \<Rightarrow> []))"

definition is_mcp :: "(string, json) dict \<Rightarrow> bool" where
  "is_mcp d = prefix ''mcp_'' (schema_name d)"

definition ordered_definitions :: "(string, rtool) dict \<Rightarrow> (string, json) dict list" where
  "ordered_definitions tls =
     (let ds = map (tl_definition \<circ> snd) tls
      in sort_key schema_name (filter (\<lambda>d. \<not> is_mcp d) ds) @ sort_key schema_name (filter is_mcp ds))"

definition get_definitions :: "tool_registry \<Rightarrow> (string, json) dict list \<times> tool_registry" where
  "get_definitions R =
     (case tg_cache R of
        Some ds \<Rightarrow> (ds, R)
      | None \<Rightarrow> (let ds = ordered_definitions (tg_tools R) in (ds, R\<lparr>tg_cache := Some ds\<rparr>)))"

subsection \<open>Preparing a call\<close>

definition coerce_argument_value :: "(string \<Rightarrow> json option) \<Rightarrow> json \<Rightarrow> json" where
  "coerce_argument_value parse v =
     (case v of
        JNull \<Rightarrow> JDict []
      | JStr s \<Rightarrow>
          (let t = strip s in
           if t = [] then JDict []
           else if hd t \<noteq> CHR 0x7B \<and> hd t \<noteq> CHR ''['' then v
           else (case parse t of None \<Rightarrow> v | Some w \<Rightarrow> w))
      | _ \<Rightarrow> v)"

definition unwrap_arguments_payload :: "(string \<Rightarrow> json option) \<Rightarrow> rtool \<Rightarrow> json \<Rightarrow> json" where
  "unwrap_arguments_payload parse t params =
     (case params of
        JDict [(k, v)] \<Rightarrow>
          if k = ''arguments''
            \<and> \<not> (case dict_value (tl_parameters t) ''properties'' (JDict []) of
                   JDict props \<Rightarrow> dict_get props ''arguments'' \<noteq> None | _ \<Rightarrow> False)
          then coerce_argument_value parse v
          else params
      | _ \<Rightarrow> params)"

definition coerce_params :: "(string \<Rightarrow> json option) \<Rightarrow> rtool \<Rightarrow> json \<Rightarrow> json" where
  "coerce_params parse t params = unwrap_arguments_payload parse t (coerce_argument_value parse params)"

fun py_type_name :: "json \<Rightarrow> string" where
  "py_type_name JNull = ''NoneType''"
| "py_type_name (JBool b) = ''bool''"
| "py_type_name (JInt i) = ''int''"
| "py_type_name (JFloat r) = ''float''"
| "py_type_name (JStr s) = ''str''"
| "py_type_name (JList xs) = ''list''"
| "py_type_name (JDict d) = ''dict''"
| "py_type_name (JOther s) = ''object''"

text \<open>What preparing a call raises: a schema that cannot be applied, or one that is not of an object.\<close>

datatype prepare_exc = SchemaExc schema_exc | NotObjectSchema

definition quote :: "string \<Rightarrow> string" where
  "quote s = [CHR 0x27] @ s @ [CHR 0x27]"

definition not_found_text :: "tool_registry \<Rightarrow> string \<Rightarrow> string" where
  "not_found_text R name =
     ''Error: Tool '' @ quote name @ '' not found.''
       @ (case suggest_name R name of
            Some n \<Rightarrow> '' Did you mean '' @ quote n @ ''? Tool names must match exactly.'' | None \<Rightarrow> [])
       @ '' Available: '' @ join_with '', '' (tool_names R)"

definition not_object_text :: "string \<Rightarrow> json \<Rightarrow> string" where
  "not_object_text name v =
     ''Error: Tool '' @ quote name @ '' parameters must be a JSON object, got '' @ py_type_name v
       @ ''. Use named parameters like tool_name(param1='' @ [CHR 0x22] @ ''value1'' @ [CHR 0x22]
       @ '', param2='' @ [CHR 0x22] @ ''value2'' @ [CHR 0x22] @ '') matching the tool schema.''"

definition field_fixes :: "float_env \<Rightarrow> rtool \<Rightarrow> (string, json) dict \<Rightarrow> string list" where
  "field_fixes F t d =
     (case parameter_violations F (tl_parameters t) d of Inl e \<Rightarrow> [] | Inr vs \<Rightarrow> map describe vs)"

definition invalid_text :: "float_env \<Rightarrow> rtool \<Rightarrow> string \<Rightarrow> (string, json) dict \<Rightarrow> string list \<Rightarrow> string" where
  "invalid_text F t name d errors =
     ''Error: Invalid parameters for tool '' @ quote name @ '': '' @ join_with ''; '' errors
       @ (let fixes = field_fixes F t d in
          if fixes = [] then [] else CHR 0x0A # ''Fields to fix: '' @ join_with ''; '' fixes)"

text \<open>A call that is ready, or the text of the error.\<close>

datatype prepared = Ready rtool "(string, json) dict" | NotReady string

definition prepare_call ::
  "float_env \<Rightarrow> (string \<Rightarrow> json option) \<Rightarrow> tool_registry \<Rightarrow> string \<Rightarrow> json \<Rightarrow> prepare_exc + prepared" where
  "prepare_call F parse R name params =
     (case get_tool R name of
        None \<Rightarrow> Inr (NotReady (not_found_text R name))
      | Some t \<Rightarrow>
          (case coerce_params parse t params of
             JDict d \<Rightarrow>
               (case cast_params F (tl_parameters t) d of
                  Inl e \<Rightarrow> Inl (SchemaExc e)
                | Inr d' \<Rightarrow>
                    (case validate_params F (tl_parameters t) d' of
                       None \<Rightarrow> Inl NotObjectSchema
                     | Some (Inl e) \<Rightarrow> Inl (SchemaExc e)
                     | Some (Inr errors) \<Rightarrow>
                         Inr (if errors = [] then Ready t d' else NotReady (invalid_text F t name d' errors))))
           | v \<Rightarrow> Inr (NotReady (not_object_text name v))))"

subsection \<open>Executing a call\<close>

definition RETRY_HINT :: string where
  "RETRY_HINT = CHR 0x0A # CHR 0x0A # ''[Analyze the error above and try a different approach.]''"

text \<open>\<open>emit_tool_invalid\<close>: the event handed to the trace sink; \<open>execute\<close> has no call id.\<close>

definition invalid_event :: "principal option \<Rightarrow> string \<Rightarrow> string option \<Rightarrow> string \<Rightarrow> tool_event" where
  "invalid_event pr name call_id err =
     (let p = or_else pr AGENT_PRINCIPAL in ToolInvalid (p_name p) (p_kind p) name call_id (take 500 err))"

datatype run_outcome = Ran tool_value | RunRaised string

datatype exec_exc = PrepareRaised prepare_exc | GateRaised fs_error

text \<open>\<open>xo_dump_text\<close> is the text of the exception of a dump that raises; \<open>xo_run\<close> runs a tool.\<close>

record exec_env =
  xo_typed :: typed_env
  xo_run :: "rtool \<Rightarrow> (string, json) dict \<Rightarrow> run_outcome"
  xo_dump_text :: string

record exec_result =
  xr_value :: "exec_exc + tool_value"
  xr_ran :: "(rtool \<times> (string, json) dict) option"
  xr_invalid :: "tool_event list"
  xr_events :: "result_event list"

definition with_hint :: "tool_value \<Rightarrow> tool_value" where
  "with_hint r =
     (case r of
        Output x \<Rightarrow> if to_is_error x
                    then Output (error_output (to_text x @ RETRY_HINT)\<lparr>to_metadata := to_metadata x\<rparr>) else r
      | Value v \<Rightarrow> r)"

definition run_tool ::
  "exec_env \<Rightarrow> tool_registry \<Rightarrow> string \<Rightarrow> rtool \<Rightarrow> (string, json) dict \<Rightarrow> exec_result" where
  "run_tool X R name t d =
     (let failed = (\<lambda>msg. Output (error_output (''Error executing '' @ name @ '': '' @ msg @ RETRY_HINT)));
          ran = (\<lambda>v ev. \<lparr>xr_value = Inr v, xr_ran = Some (t, d), xr_invalid = [], xr_events = ev\<rparr>)
      in (case xo_run X t d of
            RunRaised msg \<Rightarrow> ran (failed msg) []
          | Ran r \<Rightarrow>
              (case validate_result (xo_typed X) (tl_typed t) (tg_principal R) r of
                 Inl _ \<Rightarrow> ran (failed (xo_dump_text X)) []
               | Inr (r', ev) \<Rightarrow> ran (with_hint r') ev)))"

definition not_run :: "exec_exc + tool_value \<Rightarrow> tool_event list \<Rightarrow> exec_result" where
  "not_run v ev = \<lparr>xr_value = v, xr_ran = None, xr_invalid = ev, xr_events = []\<rparr>"

definition execute ::
  "gate_host \<Rightarrow> 'c hosts \<Rightarrow> (event \<Rightarrow> bool) \<Rightarrow> 'c \<Rightarrow> exec_env \<Rightarrow> tool_registry \<Rightarrow> string \<Rightarrow> json \<Rightarrow> gate_state
     \<Rightarrow> exec_result \<times> gate_state" where
  "execute G H sink ctx X R name params s =
     (case prepare_call (ye_float (xo_typed X)) (ye_parse (xo_typed X)) R name params of
        Inl e \<Rightarrow> (not_run (Inl (PrepareRaised e)) [], s)
      | Inr (NotReady text) \<Rightarrow>
          (not_run (Inr (Output (error_output (text @ RETRY_HINT)))) [invalid_event (tg_principal R) name None text], s)
      | Inr (Ready t d) \<Rightarrow>
          (case gate_call G H sink (tl_gate t) (JDict d) (tg_principal R) (tg_policy R) (tg_env R) ctx
                  (tg_workspace R) s of
             (Inl e, s) \<Rightarrow> (not_run (Inl (GateRaised e)) [], s)
           | (Inr res, s) \<Rightarrow>
               if g_allowed res then (run_tool X R name t d, s)
               else (not_run (Inr (Output (error_output (error_text res @ RETRY_HINT)))) [], s)))"

subsection \<open>Batches of a response\<close>

text \<open>\<open>_partition_tool_batches\<close>, with the batch being gathered.\<close>

fun gather_batches :: "('a \<Rightarrow> bool) \<Rightarrow> 'a list \<Rightarrow> 'a list \<Rightarrow> 'a list list" where
  "gather_batches safe current [] = (if current = [] then [] else [current])"
| "gather_batches safe current (c # cs) =
     (if safe c then gather_batches safe (current @ [c]) cs
      else (if current = [] then [] else [current]) @ [[c]] @ gather_batches safe [] cs)"

definition partition_tool_batches :: "tool_registry \<Rightarrow> bool \<Rightarrow> (string \<times> json) list \<Rightarrow> (string \<times> json) list list" where
  "partition_tool_batches R concurrent calls =
     (if \<not> concurrent then map (\<lambda>c. [c]) calls
      else gather_batches
             (\<lambda>c. case get_tool R (fst c) of None \<Rightarrow> False | Some t \<Rightarrow> tl_concurrency_safe t) [] calls)"

subsection \<open>What a call relies on\<close>

text \<open>The steps a call must have passed before its tool runs on the arguments \<open>d\<close>.\<close>

definition call_checked ::
  "gate_host \<Rightarrow> 'c hosts \<Rightarrow> 'c \<Rightarrow> float_env \<Rightarrow> tool_registry \<Rightarrow> string \<Rightarrow> rtool \<Rightarrow> (string, json) dict \<Rightarrow> bool" where
  "call_checked G H ctx F R name t d \<longleftrightarrow>
     get_tool R name = Some t
     \<and> validate_params F (tl_parameters t) d = Some (Inr [])
     \<and> (\<exists>reqs. declared (tl_gate t) (JDict d) = Inr reqs
          \<and> list_all (request_passes G H (tl_gate t) (or_else (tg_principal R) AGENT_PRINCIPAL)
              (or_else (tg_policy R) (DefaultP default_new)) (tg_env R) ctx (tg_workspace R)) reqs)"

lemma prepared_ready:
  assumes "prepare_call F parse R name params = Inr (Ready t d)"
  shows "get_tool R name = Some t" "validate_params F (tl_parameters t) d = Some (Inr [])"
  using assms by (auto simp: prepare_call_def split: option.splits json.splits sum.splits if_splits)

lemma run_tool_ran [simp]: "xr_ran (run_tool X R name t d) = Some (t, d)"
  by (auto simp: run_tool_def Let_def split: run_outcome.splits sum.splits prod.splits)

lemma not_run_simps [simp]:
  "xr_ran (not_run v ev) = None" "xr_value (not_run v ev) = v"
  by (simp_all add: not_run_def)

lemma with_hint_error [simp]: "is_tool_error_result (with_hint r) = is_tool_error_result r"
  by (auto simp: with_hint_def error_output_def split: tool_value.splits)

lemma with_hint_passes: "\<not> is_tool_error_result r \<Longrightarrow> with_hint r = r"
  by (auto simp: with_hint_def split: tool_value.splits)

lemma run_tool_passes:
  assumes "xr_value (run_tool X R name t d) = Inr r" "\<not> is_tool_error_result r"
  shows "xo_run X t d = Ran r \<and> output_checked (xo_typed X) (tl_typed t) r"
proof (cases "xo_run X t d")
  case (RunRaised msg)
  with assms(1,2) show ?thesis by (auto simp: run_tool_def error_output_def)
next
  case (Ran r0)
  show ?thesis
  proof (cases "validate_result (xo_typed X) (tl_typed t) (tg_principal R) r0")
    case (Inl u)
    with Ran assms(1,2) show ?thesis by (auto simp: run_tool_def error_output_def)
  next
    case (Inr rv)
    obtain r1 ev where rv: "rv = (r1, ev)" by (cases rv)
    with Inr Ran assms(1) have r: "r = with_hint r1" by (simp add: run_tool_def)
    with assms(2) have "\<not> is_tool_error_result r1" "r = r1" by (simp_all add: with_hint_passes)
    with validate_result_passes[OF Inr[unfolded rv]] Ran show ?thesis by simp
  qed
qed

lemma execute_ran:
  assumes "execute G H sink ctx X R name params s = (x, s')" "xr_ran x = Some (t, d)"
  shows "call_checked G H ctx (ye_float (xo_typed X)) R name t d \<and> x = run_tool X R name t d"
proof -
  obtain t0 d0 where p: "prepare_call (ye_float (xo_typed X)) (ye_parse (xo_typed X)) R name params = Inr (Ready t0 d0)"
    using assms by (auto simp: execute_def split: sum.splits prepared.splits)
  with assms obtain res where g: "gate_call G H sink (tl_gate t0) (JDict d0) (tg_principal R) (tg_policy R) (tg_env R)
      ctx (tg_workspace R) s = (Inr res, s')" "g_allowed res" and x: "x = run_tool X R name t0 d0"
    by (auto simp: execute_def split: prod.splits sum.splits if_splits)
  from x assms(2) have td: "t0 = t" "d0 = d" by simp_all
  with g obtain reqs where "declared (tl_gate t) (JDict d) = Inr reqs"
    "\<forall>raw \<in> set reqs. request_passes G H (tl_gate t) (or_else (tg_principal R) AGENT_PRINCIPAL)
       (or_else (tg_policy R) (DefaultP default_new)) (tg_env R) ctx (tg_workspace R) raw"
    using gate_call_Allow[of G H sink "tl_gate t" "JDict d" "tg_principal R" "tg_policy R" "tg_env R" ctx
        "tg_workspace R" s] by blast
  with prepared_ready[OF p] x td show ?thesis
    by (auto simp: call_checked_def list_all_iff)
qed

lemma execute_not_ran:
  assumes "execute G H sink ctx X R name params s = (x, s')" "xr_ran x = None" "xr_value x = Inr r"
  shows "is_tool_error_result r"
  using assms by (auto simp: execute_def error_output_def split: sum.splits prepared.splits prod.splits if_splits)

text \<open>
  Claim C3: a tool call is checked end to end. Whatever the model sends as name and arguments, a tool runs
  only if it is registered under exactly that name, on arguments its parameter schema
  accepts, and when every capability request it declares for exactly these arguments passes the floors, strict mode, the
  plugin grant and the registry's policy; a call that runs nothing and raises nothing is answered with an error
  result; and an answer that is no error is exactly what the tool returned, whether or not the tool has an output
  schema, and fits the schema it has (with a schema that cannot be read or is no dict every answer is an error).
\<close>

theorem tool_call_checked:
  assumes "execute G H sink ctx X R name params s = (x, s')"
  shows "case xr_ran x of
      Some (t, d) \<Rightarrow> call_checked G H ctx (ye_float (xo_typed X)) R name t d
        \<and> (\<exists>r. xr_value x = Inr r
             \<and> (is_tool_error_result r \<or> xo_run X t d = Ran r \<and> output_checked (xo_typed X) (tl_typed t) r))
    | None \<Rightarrow> (\<exists>e. xr_value x = Inl e) \<or> (\<exists>r. xr_value x = Inr r \<and> is_tool_error_result r)"
proof (cases "xr_ran x")
  case None
  with execute_not_ran[OF assms None] show ?thesis by (cases "xr_value x") auto
next
  case (Some td)
  obtain t d where td: "td = (t, d)" by (cases td)
  from execute_ran[OF assms Some[unfolded td]]
  have c: "call_checked G H ctx (ye_float (xo_typed X)) R name t d" and x: "x = run_tool X R name t d" by simp_all
  obtain r where r: "xr_value x = Inr r"
    using x by (auto simp: run_tool_def Let_def split: run_outcome.splits sum.splits prod.splits)
  with run_tool_passes[of X R name t d r] x c Some td show ?thesis
    by auto
qed

definition parse_none :: "string \<Rightarrow> json option" where "parse_none s = None"

definition sample_rtool :: rtool where
  "sample_rtool = \<lparr>tl_gate = sample_tool NoGrant sample_runs,
     tl_parameters = tool_parameters_schema (Some [''n'']) [] AdditionalUnset [(''n'', count_schema)],
     tl_typed = count_tool, tl_surface = None, tl_definition = [], tl_concurrency_safe = True\<rparr>"

definition sample_registry :: tool_registry where
  "sample_registry = snd (snd (register_tool no_hosts sample_rtool
     (new_registry\<lparr>tg_workspace := Some (parse_path ''/srv/w'')\<rparr>)))"

definition sample_exec :: exec_env where
  "sample_exec = \<lparr>xo_typed = plain_env, xo_run = (\<lambda>t d. Ran (Value (PyJson (case dict_get d ''n'' of Some v \<Rightarrow> v | None \<Rightarrow> JNull)))),
     xo_dump_text = ''error''\<rparr>"

lemma sample_registry_simps:
  "get_tool sample_registry ''read_file'' = Some sample_rtool" "tg_policy sample_registry = None"
  "tg_env sample_registry = None" "tg_principal sample_registry = None"
  "tg_workspace sample_registry = Some (parse_path ''/srv/w'')"
  by (simp_all add: sample_registry_def register_tool_def new_registry_def strict_drop_def get_tool_def tl_name_def
      sample_rtool_def sample_tool_def tool_name_def)

lemma sample_runs_pass:
  "list_all (request_passes sample_host no_hosts (sample_tool NoGrant sample_runs) AGENT_PRINCIPAL
     (DefaultP default_new) None () (Some (parse_path ''/srv/w''))) sample_runs"
  by code_simp

lemma sample_prepared:
  "prepare_call (ye_float plain_env) (ye_parse plain_env) sample_registry ''read_file'' (JDict [(''n'', JInt 4)])
     = Inr (Ready sample_rtool [(''n'', JInt 4)])"
proof -
  have "coerce_params (ye_parse plain_env) sample_rtool (JDict [(''n'', JInt 4)]) = JDict [(''n'', JInt 4)]"
    "cast_params (ye_float plain_env) (tl_parameters sample_rtool) [(''n'', JInt 4)] = Inr [(''n'', JInt 4)]"
    "validate_params (ye_float plain_env) (tl_parameters sample_rtool) [(''n'', JInt 4)] = Some (Inr [])"
    by code_simp+
  then show ?thesis by (simp add: prepare_call_def sample_registry_simps)
qed

lemma sample_execute_runs:
  "xr_ran (fst (execute sample_host no_hosts (\<lambda>_. True) () sample_exec sample_registry ''read_file''
     (JDict [(''n'', JInt 4)]) sample_state)) = Some (sample_rtool, [(''n'', JInt 4)])"
proof -
  have "declared (sample_tool NoGrant sample_runs) (JDict [(''n'', JInt 4)]) = Inr sample_runs"
    by (simp add: declared_def sample_tool_def)
  with sample_runs_pass obtain res s' where
    "gate_call sample_host no_hosts (\<lambda>_. True) (sample_tool NoGrant sample_runs) (JDict [(''n'', JInt 4)]) None None
       None () (Some (parse_path ''/srv/w'')) sample_state = (Inr res, s')" "g_allowed res"
    using gate_call_Allow[of sample_host no_hosts "\<lambda>_. True" "sample_tool NoGrant sample_runs"
        "JDict [(''n'', JInt 4)]" None None None "()" "Some (parse_path ''/srv/w'')" sample_state]
    by (auto simp: or_else_def list_all_iff)
  then show ?thesis
    using sample_prepared by (simp add: execute_def sample_exec_def sample_registry_simps sample_rtool_def)
qed

theorem tool_call_checked_witness:
  "\<exists>x s' r. execute sample_host no_hosts (\<lambda>_. True) () sample_exec sample_registry ''read_file''
      (JDict [(''n'', JInt 4)]) sample_state = (x, s')
    \<and> xr_ran x = Some (sample_rtool, [(''n'', JInt 4)]) \<and> xr_value x = Inr r
    \<and> call_checked sample_host no_hosts () whole_floats sample_registry ''read_file'' sample_rtool [(''n'', JInt 4)]"
proof -
  obtain x s' where e: "execute sample_host no_hosts (\<lambda>_. True) () sample_exec sample_registry ''read_file''
      (JDict [(''n'', JInt 4)]) sample_state = (x, s')"
    by fastforce
  with sample_execute_runs have r: "xr_ran x = Some (sample_rtool, [(''n'', JInt 4)])" by simp
  have "ye_float (xo_typed sample_exec) = whole_floats" by (simp add: sample_exec_def plain_env_def)
  with tool_call_checked[OF e] r e show ?thesis by auto
qed

subsection \<open>Histories of the registry\<close>

datatype 'c registry_op =
    RegisterOp rtool
  | UnregisterOp string
  | ConfigureOp "policy option" "principal option" "gate_env option" "ppath option"
  | AdmitOp "(rtool \<Rightarrow> bool) option"
  | DefinitionsOp

fun registry_step :: "'c hosts \<Rightarrow> 'c registry_op \<Rightarrow> tool_registry \<Rightarrow> tool_registry" where
  "registry_step H (RegisterOp t) R = snd (snd (register_tool H t R))"
| "registry_step H (UnregisterOp n) R = unregister_tool n R"
| "registry_step H (ConfigureOp pol pr env ws) R = snd (configure_gate H pol pr env ws R)"
| "registry_step H (AdmitOp a) R = R\<lparr>tg_admit := a\<rparr>"
| "registry_step H DefinitionsOp R = snd (get_definitions R)"

definition registry_after :: "'c hosts \<Rightarrow> 'c registry_op list \<Rightarrow> tool_registry" where
  "registry_after H ops = fold (registry_step H) ops new_registry"

definition cache_fresh :: "tool_registry \<Rightarrow> bool" where
  "cache_fresh R \<longleftrightarrow> tg_cache R = None \<or> tg_cache R = Some (ordered_definitions (tg_tools R))"

definition named_tools :: "tool_registry \<Rightarrow> bool" where
  "named_tools R \<longleftrightarrow> dict_wf (tg_tools R) \<and> (\<forall>(n, t) \<in> set (tg_tools R). n = tl_name t)"

definition no_dropped :: "'c hosts \<Rightarrow> tool_registry \<Rightarrow> bool" where
  "no_dropped H R \<longleftrightarrow> (\<forall>(n, t) \<in> set (tg_tools R). \<not> strict_drop H R t)"

definition registry_ok :: "'c hosts \<Rightarrow> tool_registry \<Rightarrow> bool" where
  "registry_ok H R \<longleftrightarrow> cache_fresh R \<and> named_tools R \<and> no_dropped H R"

lemma strict_drop_cong:
  "tg_policy R = tg_policy R' \<Longrightarrow> tg_env R = tg_env R' \<Longrightarrow> strict_drop H R t = strict_drop H R' t"
  by (cases "tg_policy R'") (simp_all add: strict_drop_def)

lemma dict_del_items [simp]: "set (dict_del d k) = {(k', v) \<in> set d. k' \<noteq> k}"
  by (auto simp: dict_del_def)

lemma unregister_simps [simp]:
  "tg_policy (unregister_tool n R) = tg_policy R" "tg_env (unregister_tool n R) = tg_env R"
  "tg_tools (unregister_tool n R) = dict_del (tg_tools R) n" "tg_cache (unregister_tool n R) = None"
  by (simp_all add: unregister_tool_def)

lemma unregister_ok: "registry_ok H R \<Longrightarrow> registry_ok H (unregister_tool n R)"
  by (auto simp: registry_ok_def cache_fresh_def named_tools_def no_dropped_def
      strict_drop_cong[of "unregister_tool n R" R])

lemma register_ok: "registry_ok H R \<Longrightarrow> registry_ok H (snd (snd (register_tool H t R)))"
proof -
  assume ok: "registry_ok H R"
  let ?R = "R\<lparr>tg_tools := dict_set (tg_tools R) (tl_name t) t, tg_cache := None\<rparr>"
  have "registry_ok H ?R" if "\<not> strict_drop H R t"
    using ok that set_dict_set[of "tg_tools R" "tl_name t" t]
    by (auto simp: registry_ok_def cache_fresh_def named_tools_def no_dropped_def
        strict_drop_cong[of ?R R])
  with ok show ?thesis
    by (auto simp: register_tool_def unregister_ok split: option.splits)
qed

lemma prune_keeps:
  "named_tools R \<Longrightarrow> cache_fresh R \<Longrightarrow> named_tools (snd (prune_tools H l R)) \<and> cache_fresh (snd (prune_tools H l R))
     \<and> tg_policy (snd (prune_tools H l R)) = tg_policy R \<and> tg_env (snd (prune_tools H l R)) = tg_env R
     \<and> set (tg_tools (snd (prune_tools H l R)))
         = {(n, t) \<in> set (tg_tools R). \<forall>t'. (n, t') \<in> set l \<longrightarrow> \<not> strict_drop H R t'}"
proof (induction H l R rule: prune_tools.induct)
  case (2 H name t tls R)
  have u: "named_tools (unregister_tool name R)" "cache_fresh (unregister_tool name R)"
    using 2(3) by (auto simp: named_tools_def cache_fresh_def)
  show ?case
  proof (cases "strict_drop H R t")
    case True
    from 2(1)[OF True u] True show ?thesis
      by (auto simp: strict_drop_cong[of "unregister_tool name R" R] split: prod.splits)
  next
    case False
    from 2(2)[OF False 2(3,4)] False show ?thesis
      by (auto simp: strict_drop_cong[of "unregister_tool name R" R] split: prod.splits)
  qed
qed auto

lemma configure_ok: "registry_ok H R \<Longrightarrow> registry_ok H (snd (configure_gate H pol pr env ws R))"
proof -
  assume ok: "registry_ok H R"
  let ?R = "R\<lparr>tg_policy := pol, tg_principal := pr, tg_env := env, tg_workspace := ws\<rparr>"
  have "named_tools ?R" "cache_fresh ?R"
    using ok by (auto simp: registry_ok_def named_tools_def cache_fresh_def)
  from prune_keeps[OF this, of H "tg_tools R"] show ?thesis
    by (auto simp: registry_ok_def no_dropped_def configure_gate_def Let_def
        strict_drop_cong[of "snd (prune_tools H (tg_tools R) ?R)" ?R])
qed

lemma definitions_ok: "registry_ok H R \<Longrightarrow> registry_ok H (snd (get_definitions R))"
  by (auto simp: registry_ok_def get_definitions_def cache_fresh_def named_tools_def no_dropped_def Let_def
      strict_drop_cong[of "R\<lparr>tg_cache := Some (ordered_definitions (tg_tools R))\<rparr>" R] split: option.splits)

lemma registry_step_ok: "registry_ok H R \<Longrightarrow> registry_ok H (registry_step H op R)"
proof (cases op)
  case (AdmitOp a)
  then show "registry_ok H R \<Longrightarrow> ?thesis"
    by (auto simp: registry_ok_def cache_fresh_def named_tools_def no_dropped_def
        strict_drop_cong[of "R\<lparr>tg_admit := a\<rparr>" R])
qed (auto simp: register_ok unregister_ok configure_ok definitions_ok)

lemma registry_after_ok: "registry_ok H (registry_after H ops)"
proof -
  have "registry_ok H R \<Longrightarrow> registry_ok H (fold (registry_step H) ops R)" for R
    by (induction ops arbitrary: R) (auto simp: registry_step_ok)
  moreover have "registry_ok H new_registry"
    by (simp add: registry_ok_def cache_fresh_def named_tools_def no_dropped_def new_registry_def)
  ultimately show ?thesis by (simp add: registry_after_def)
qed

lemma mset_filters: "mset (filter (\<lambda>x. \<not> P x) l) + mset (filter P l) = mset l"
  by (induction l) auto

lemma mset_ordered: "mset (ordered_definitions d) = mset (map (tl_definition \<circ> snd) d)"
  by (simp add: ordered_definitions_def Let_def mset_filters flip: mset_filter mset_map)

text \<open>
  Claim C26: what the model is offered is current and never wholly denied. After any history of registrations,
  removals, gate configurations, admission checks and definition queries, the registry holds every tool under its own name, once; in
  strict mode with a policy no registered tool has a surface the policy denies everywhere; and the definitions
  returned, cached or not, are those of exactly the registered tools, the built-in ones first, each part sorted by name.
\<close>

theorem registry_definitions_current:
  fixes H :: "'c hosts"
  shows "let R = registry_after H ops; ds = fst (get_definitions R)
   in distinct (tool_names R)
    \<and> list_all (\<lambda>(n, t). n = tl_name t \<and> \<not> strict_drop H R t) (tg_tools R)
    \<and> mset ds = mset (map (tl_definition \<circ> snd) (tg_tools R))
    \<and> (\<exists>builtins mcp. ds = builtins @ mcp \<and> list_all (\<lambda>d. \<not> is_mcp d) builtins \<and> list_all is_mcp mcp
         \<and> sorted (map schema_name builtins) \<and> sorted (map schema_name mcp))"
proof -
  let ?R = "registry_after H ops"
  have ok: "registry_ok H ?R" by (rule registry_after_ok)
  then have d: "fst (get_definitions ?R) = ordered_definitions (tg_tools ?R)"
    by (auto simp: registry_ok_def cache_fresh_def get_definitions_def Let_def)
  show ?thesis
    unfolding Let_def d mset_ordered
  proof (intro conjI)
    show "distinct (tool_names ?R)"
      using ok by (simp add: registry_ok_def named_tools_def tool_names_def)
    show "list_all (\<lambda>(n, t). n = tl_name t \<and> \<not> strict_drop H ?R t) (tg_tools ?R)"
      using ok by (auto simp: registry_ok_def named_tools_def no_dropped_def list_all_iff)
    show "\<exists>builtins mcp. ordered_definitions (tg_tools ?R) = builtins @ mcp \<and> list_all (\<lambda>d. \<not> is_mcp d) builtins
        \<and> list_all is_mcp mcp \<and> sorted (map schema_name builtins) \<and> sorted (map schema_name mcp)"
      by (auto simp: ordered_definitions_def Let_def list_all_iff intro!: exI)
  qed simp
qed

subsection \<open>Batches keep the order\<close>

lemma gather_concat: "concat (gather_batches safe cur cs) = cur @ cs"
  by (induction safe cur cs rule: gather_batches.induct) auto

lemma gather_shape:
  "list_all safe cur \<Longrightarrow> list_all (\<lambda>b. b \<noteq> [] \<and> (list_all safe b \<or> length b = 1)) (gather_batches safe cur cs)"
  by (induction safe cur cs rule: gather_batches.induct) auto

lemma partition_concat: "concat (partition_tool_batches R conc calls) = calls"
  by (induction calls) (auto simp: partition_tool_batches_def gather_concat)

end
