(* ===== verification/Throttle.thy ===== *)
theory Throttle
  imports ToolRegistry
begin

text \<open>
  The per-turn throttles of \<open>nanobot/utils/runtime.py\<close>: signatures of external lookups, of targets outside the
  workspace, of denials by the command guard and by the permission policy, each counted in a table of the turn, and the
  texts that replace an answer once its signature repeats. \<open>str.lower\<close> is on ASCII, as in the prelude.
\<close>

type_synonym counts = "(string, nat) dict"

definition MAX_REPEAT_EXTERNAL_LOOKUPS :: nat where "MAX_REPEAT_EXTERNAL_LOOKUPS = 2"
definition MAX_REPEAT_WORKSPACE_VIOLATIONS :: nat where "MAX_REPEAT_WORKSPACE_VIOLATIONS = 2"

text \<open>The count of a signature after this occurrence.\<close>

definition count_of :: "counts \<Rightarrow> string \<Rightarrow> nat" where
  "count_of c k = (case dict_get c k of None \<Rightarrow> 0 | Some n \<Rightarrow> n)"

definition bump :: "counts \<Rightarrow> string \<Rightarrow> nat \<times> counts" where
  "bump c k = (count_of c k + 1, dict_set c k (count_of c k + 1))"

subsection \<open>External lookups\<close>

text \<open>\<open>str(x or "")\<close> of an entry.\<close>

definition entry_text :: "(string, json) dict \<Rightarrow> string \<Rightarrow> string" where
  "entry_text d k = (case dict_get d k of None \<Rightarrow> [] | Some v \<Rightarrow> if truthy v then json_str v else [])"

definition external_lookup_signature :: "string \<Rightarrow> json \<Rightarrow> string option" where
  "external_lookup_signature name args =
     (case args of
        JDict d \<Rightarrow>
          if name = ''web_fetch'' then
            (let url = strip (entry_text d ''url'') in
             if url = [] then None else Some (''web_fetch:'' @ lower url))
          else if name = ''web_search'' then
            (let q = (case dict_get d ''query'' of
                        Some v \<Rightarrow> if truthy v then json_str v else entry_text d ''search_term''
                      | None \<Rightarrow> entry_text d ''search_term'')
             in if strip q = [] then None else Some (''web_search:'' @ lower (strip q)))
          else None
      | _ \<Rightarrow> None)"

definition repeated_external_lookup_error :: "string \<Rightarrow> json \<Rightarrow> counts \<Rightarrow> string option \<times> counts" where
  "repeated_external_lookup_error name args c =
     (case external_lookup_signature name args of
        None \<Rightarrow> (None, c)
      | Some sig \<Rightarrow>
          (case bump c sig of
             (n, c') \<Rightarrow>
               (if n \<le> MAX_REPEAT_EXTERNAL_LOOKUPS then None
                else Some (''Error: repeated external lookup blocked. '' @
                  ''Use the results you already have to answer, or try a meaningfully different source.''),
                c')))"

subsection \<open>Targets outside the workspace\<close>

text \<open>\<open>_OUTSIDE_PATH_PATTERN.search\<close>: the first \<open>/...\<close> or \<open>~...\<close> at the start or after a separator.\<close>

definition path_stop :: "char \<Rightarrow> bool" where
  "path_stop c \<longleftrightarrow> is_space c \<or> c \<in> {CHR 0x22, CHR 0x27, CHR ''>'', CHR '';'', CHR ''|'', CHR ''<''}"

definition path_sep :: "char \<Rightarrow> bool" where
  "path_sep c \<longleftrightarrow> is_space c \<or> c \<in> {CHR ''|'', CHR ''>'', CHR 0x27, CHR 0x22}"

definition path_token :: "string \<Rightarrow> string option" where
  "path_token s =
     (case s of
        [] \<Rightarrow> None
      | c # r \<Rightarrow>
          let body = takeWhile (\<lambda>x. \<not> path_stop x) r in
          if (c = CHR ''/'' \<or> c = CHR ''~'') \<and> body \<noteq> [] then Some (c # body) else None)"

fun token_after_sep :: "string \<Rightarrow> string option" where
  "token_after_sep [] = None"
| "token_after_sep (c # s) =
     (case (if path_sep c then path_token s else None) of Some p \<Rightarrow> Some p | None \<Rightarrow> token_after_sep s)"

definition outside_path :: "string \<Rightarrow> string option" where
  "outside_path cmd = (case path_token cmd of Some p \<Rightarrow> Some p | None \<Rightarrow> token_after_sep cmd)"

definition normalize_violation_target :: "os_host \<Rightarrow> string \<Rightarrow> string" where
  "normalize_violation_target os raw =
     lower (''violation:''
       @ (case expand_resolve os (parse_path raw) of
            Inr p \<Rightarrow> path_str p
          | Inl _ \<Rightarrow> map (\<lambda>c. if c = CHR 0x5C then CHR ''/'' else c) raw))"

fun first_target :: "(string, json) dict \<Rightarrow> string list \<Rightarrow> string option" where
  "first_target d [] = None"
| "first_target d (k # ks) =
     (case dict_get d k of
        Some (JStr s) \<Rightarrow> if strip s \<noteq> [] then Some (strip s) else first_target d ks
      | _ \<Rightarrow> first_target d ks)"

definition workspace_violation_signature :: "os_host \<Rightarrow> string \<Rightarrow> json \<Rightarrow> string option" where
  "workspace_violation_signature os name args =
     (case args of
        JDict d \<Rightarrow>
          map_option (normalize_violation_target os)
            (case first_target d [''path'', ''file_path'', ''target'', ''source'', ''destination''] of
               Some t \<Rightarrow> Some t
             | None \<Rightarrow>
                 if name = ''exec'' \<or> name = ''shell'' then
                   (let cmd = strip (entry_text d ''command''); dir = strip (entry_text d ''working_dir'') in
                    case (if cmd = [] then None else outside_path cmd) of
                      Some p \<Rightarrow> Some p
                    | None \<Rightarrow> if dir = [] then None else Some dir)
                 else None)
      | _ \<Rightarrow> None)"

definition PROTECTED_PATH_MARKER :: string where "PROTECTED_PATH_MARKER = ''protected internal path''"

definition protected_refusal :: "string \<Rightarrow> nat \<Rightarrow> string" where
  "protected_refusal target n =
     ''Error: refusing repeated access to a protected internal path.'' @ [CHR 0x0A] @
     ''You have tried to access '' @ quote target @ '' (or an equivalent path) '' @
     nat_digits n @ '' times in this turn. It is a protected internal path that '' @
     ''cannot be accessed by any tool, and no configuration change or '' @
     ''workaround (other tools, shell tricks, symlinks) allows it. '' @
     ''Stop retrying. Tell the user you cannot access it.''"

definition bypass_refusal :: "string \<Rightarrow> nat \<Rightarrow> string" where
  "bypass_refusal target n =
     ''Error: refusing repeated workspace-bypass attempts.'' @ [CHR 0x0A] @
     ''You have tried to access '' @ quote target @ '' (or an equivalent path) '' @
     nat_digits n @ '' times in this turn. This is a hard policy boundary -- '' @
     ''switching tools, shell tricks, working_dir overrides, symlinks, '' @
     ''or base64 piping will NOT change the answer. Stop retrying. '' @
     ''If the user genuinely needs this resource, tell them you cannot '' @
     ''access it and ask how they want to proceed (e.g. copy the file '' @
     ''into the workspace, or disable restrict_to_workspace for this run).''"

definition repeated_workspace_violation_error ::
  "os_host \<Rightarrow> string \<Rightarrow> json \<Rightarrow> string \<Rightarrow> counts \<Rightarrow> string option \<times> counts" where
  "repeated_workspace_violation_error os name args raw c =
     (case workspace_violation_signature os name args of
        None \<Rightarrow> (None, c)
      | Some sig \<Rightarrow>
          (case bump c sig of
             (n, c') \<Rightarrow>
               (if n \<le> MAX_REPEAT_WORKSPACE_VIOLATIONS then None
                else Some ((if contains PROTECTED_PATH_MARKER (lower raw) then protected_refusal else bypass_refusal)
                       (drop (length ''violation:'') sig) n),
                c')))"

subsection \<open>Denials by the command guard\<close>

definition EXEC_FLOOR_TEXT :: string where "EXEC_FLOOR_TEXT = ''this guard is not configurable.''"
definition ALLOWLIST_MARKER :: string where "ALLOWLIST_MARKER = ''blocked by allowlist filter''"
definition DENYGUARD_MARKER :: string where
  "DENYGUARD_MARKER = ''blocked by safety guard (dangerous pattern detected)''"

definition exec_guard_violation_signature :: "string \<Rightarrow> string option" where
  "exec_guard_violation_signature raw =
     (let low = lower raw in
      if contains EXEC_FLOOR_TEXT low \<and> contains DENYGUARD_MARKER low then Some ''violation:exec-floor''
      else if contains ALLOWLIST_MARKER low then Some ''violation:exec-allowlist''
      else if contains DENYGUARD_MARKER low then Some ''violation:exec-denyguard''
      else None)"

definition exec_refusal :: "string \<Rightarrow> nat \<Rightarrow> string" where
  "exec_refusal sig n =
     (if sig = ''violation:exec-floor'' then
        ''Error: refusing repeated exec attempts against a fixed safety guard.'' @ [CHR 0x0A] @
        nat_digits n @ '' commands have been blocked by a fixed safety guard this turn '' @
        ''(fork bomb or nanobot internal state). No configuration change allows '' @
        ''it, and different commands, tools, or quoting tricks will NOT change '' @
        ''the answer. Stop retrying and use a different approach.''
      else
        ''Error: refusing repeated exec attempts against the command guard.'' @ [CHR 0x0A] @
        nat_digits n @ '' commands have been blocked by the configured '' @
        ''tools.exec.'' @ (if sig = ''violation:exec-allowlist'' then ''allow'' else ''deny'') @
        ''_patterns this turn. This is a config-level block '' @ [CHR 0xE2, CHR 0x80, CHR 0x94] @ '' '' @
        ''trying different commands, tools, or quoting tricks will NOT change '' @
        ''the answer. Stop retrying. Tell the user which commands you need and '' @
        ''that tools.exec.allowPatterns / denyPatterns in the nanobot config '' @
        ''must be updated before you can proceed.'')"

definition repeated_exec_guard_error :: "string \<Rightarrow> counts \<Rightarrow> string option \<times> counts" where
  "repeated_exec_guard_error raw c =
     (case exec_guard_violation_signature raw of
        None \<Rightarrow> (None, c)
      | Some sig \<Rightarrow>
          (case bump c sig of
             (n, c') \<Rightarrow> (if n \<le> MAX_REPEAT_WORKSPACE_VIOLATIONS then None else Some (exec_refusal sig n), c')))"

subsection \<open>Denials by the policy\<close>

definition policy_violation_signature :: "string \<Rightarrow> string" where
  "policy_violation_signature cap = ''violation:policy:'' @ (if cap = [] then ''unknown'' else cap)"

definition policy_refusal :: "string \<Rightarrow> nat \<Rightarrow> string" where
  "policy_refusal cap n =
     ''Error: refusing repeated calls blocked by the permission policy.'' @ [CHR 0x0A] @
     nat_digits n @ '' calls needing '' @ quote cap @ '' have been blocked by the host'' @ [CHR 0x27] @ ''s '' @
     ''permission policy this turn. The policy is not configurable by the agent, '' @
     ''stop retrying: different arguments, tools, or tricks will NOT change the '' @
     ''answer. Tell the user which capability you need and continue without it.''"

definition repeated_policy_error :: "string \<Rightarrow> counts \<Rightarrow> string option \<times> counts" where
  "repeated_policy_error cap c =
     (case bump c (policy_violation_signature cap) of
        (n, c') \<Rightarrow> (if n \<le> MAX_REPEAT_WORKSPACE_VIOLATIONS then None else Some (policy_refusal cap n), c'))"

subsection \<open>Counting\<close>

lemma count_of_set [simp]: "count_of (dict_set c k n) j = (if j = k then n else count_of c j)"
  by (simp add: count_of_def)

lemma fst_bump [simp]: "fst (bump c k) = count_of c k + 1"
  by (simp add: bump_def)

lemma count_of_bump [simp]: "count_of (snd (bump c k)) j = (if j = k then count_of c k + 1 else count_of c j)"
  by (simp add: bump_def)

text \<open>A lookup is let through exactly while its signature was seen fewer than twice.\<close>

lemma external_lookup_passes:
  "fst (repeated_external_lookup_error name args c) = None
   \<longleftrightarrow> (case external_lookup_signature name args of
          None \<Rightarrow> True | Some sig \<Rightarrow> count_of c sig < MAX_REPEAT_EXTERNAL_LOOKUPS)"
  by (auto simp: repeated_external_lookup_error_def bump_def MAX_REPEAT_EXTERNAL_LOOKUPS_def split: option.splits)

lemma external_lookup_counts:
  "count_of (snd (repeated_external_lookup_error name args c)) k
   = count_of c k + (if external_lookup_signature name args = Some k then 1 else 0)"
  by (auto simp: repeated_external_lookup_error_def bump_def split: option.splits)

end
