(* ===== verification/ToolRunner.thy ===== *)
theory ToolRunner
  imports Throttle
begin

text \<open>
  The tool calls of a turn, \<open>nanobot/agent/runner.py\<close>: \<open>_run_tool\<close> in its two parts, up to the gate's verdict
  and after the tool has ended, \<open>_execute_tools\<close> with its batches, the classification of safety-boundary
  failures, the counters of a turn and the stop decision that follows a response's calls. A call comes with the outcome its
  tool would have, so every theorem is about every behaviour of the tools. Hooks, the contexts bound
  around a run and logging are left out.
\<close>

subsection \<open>State\<close>

record tool_call =
  tc_id :: string
  tc_name :: string
  tc_args :: json

record run_spec =
  rs_tools :: tool_registry
  rs_policy :: "policy option"
  rs_principal :: "principal option"
  rs_env :: "gate_env option"
  rs_workspace :: "ppath option"
  rs_concurrent :: bool
  rs_max_policy_denials :: int
  rs_max_tool_errors :: "int option"
  rs_reflection_threshold :: int

text \<open>The counters of one turn; \<open>tn_started\<close> is a history of the calls that reached their tool.\<close>

record turn_state =
  tn_lookups :: counts
  tn_violations :: counts
  tn_denials :: nat
  tn_errors :: nat
  tn_gate :: gate_state
  tn_invalid :: "tool_event list"
  tn_rejected :: "result_event list"
  tn_started :: "(tool_call \<times> rtool \<times> (string, json) dict) list"

definition new_turn :: "gate_state \<Rightarrow> turn_state" where
  "new_turn s = \<lparr>tn_lookups = [], tn_violations = [], tn_denials = 0, tn_errors = 0, tn_gate = s, tn_invalid = [],
     tn_rejected = [], tn_started = []\<rparr>"

definition denial_limit :: "run_spec \<Rightarrow> nat" where
  "denial_limit S = nat (max 1 (rs_max_policy_denials S))"

definition denials_exhausted :: "run_spec \<Rightarrow> turn_state \<Rightarrow> bool" where
  "denials_exhausted S st \<longleftrightarrow> denial_limit S \<le> tn_denials st"

definition errors_exhausted :: "run_spec \<Rightarrow> turn_state \<Rightarrow> bool" where
  "errors_exhausted S st = (case rs_max_tool_errors S of None \<Rightarrow> False | Some m \<Rightarrow> m \<le> int (tn_errors st))"

definition record_denial :: "turn_state \<Rightarrow> turn_state" where
  "record_denial st = st\<lparr>tn_denials := tn_denials st + 1\<rparr>"

definition record_error :: "turn_state \<Rightarrow> turn_state" where
  "record_error st = st\<lparr>tn_errors := tn_errors st + 1\<rparr>"

text \<open>An answer: a plain text or what the tool returned, the report kept of it, and the question of an \<open>ask_user\<close>.\<close>

datatype payload = PText string | PResult tool_value
datatype status = StOk | StError | StWaiting

record answer =
  an_payload :: payload
  an_name :: string
  an_status :: status
  an_detail :: string
  an_ask :: "(string \<times> string list) option"

text \<open>What is not in the repository or the standard library: the gate's host, the parser, the text and class of a dump that raises, the text of a model.\<close>

record 'c run_host =
  rh_gate :: gate_host
  rh_hosts :: "'c hosts"
  rh_sink :: "event \<Rightarrow> bool"
  rh_ctx :: 'c
  rh_typed :: typed_env
  rh_dump :: "string \<times> string"
  rh_model_text :: "string \<Rightarrow> json option \<Rightarrow> string"

subsection \<open>Texts\<close>

text \<open>\<open>text.split(sep, 1)[-1]\<close>: after the first separator, or all of it.\<close>

fun after_first :: "string \<Rightarrow> string \<Rightarrow> string option" where
  "after_first sep [] = None"
| "after_first sep (c # s) =
     (if prefix sep (c # s) then Some (drop (length sep) (c # s)) else after_first sep s)"

definition short_detail :: "string \<Rightarrow> string" where
  "short_detail text = take 120 (case after_first '': '' text of None \<Rightarrow> text | Some r \<Rightarrow> r)"

definition one_line :: "string \<Rightarrow> string" where
  "one_line text = strip (map (\<lambda>c. if c = CHR 0x0A then CHR '' '' else c) text)"

definition event_detail :: "string \<Rightarrow> string \<Rightarrow> string" where
  "event_detail pre text = take 160 (pre @ one_line text)"

definition SSRF_MARKERS :: "string list" where
  "SSRF_MARKERS = [''internal/private url detected'', ''private/internal address'', ''private address'']"

definition WORKSPACE_VIOLATION_MARKERS :: "string list" where
  "WORKSPACE_VIOLATION_MARKERS = [''outside the configured workspace'', ''outside allowed directory'',
     ''working_dir is outside'', ''working_dir could not be resolved'', ''path outside working dir'',
     ''path traversal detected'', ''protected internal path'']"

definition is_ssrf_violation :: "string \<Rightarrow> bool" where
  "is_ssrf_violation text = list_ex (\<lambda>m. contains m (lower text)) SSRF_MARKERS"

definition is_workspace_violation :: "string \<Rightarrow> bool" where
  "is_workspace_violation text \<longleftrightarrow>
     is_ssrf_violation (lower text) \<or> list_ex (\<lambda>m. contains m (lower text)) WORKSPACE_VIOLATION_MARKERS"

definition SSRF_BOUNDARY_NOTE :: string where
  "SSRF_BOUNDARY_NOTE =
     ''This is a non-bypassable security boundary. Stop trying to access '' @
     ''private/internal URLs. Do not retry with curl, wget, encoded IPs, '' @
     ''alternate DNS, redirects, proxies, or another tool. Ask the user for '' @
     ''local files, logs, screenshots, or an explicit safe public URL instead. '' @
     ''If the user explicitly trusts this private URL, ask them to whitelist '' @
     ''the exact IP/CIDR via tools.ssrfWhitelist.''"

definition ssrf_soft_payload :: "string \<Rightarrow> string" where
  "ssrf_soft_payload raw =
     (if strip raw = [] then ''Error: request blocked by SSRF guard'' else strip raw)
       @ [CHR 0x0A, CHR 0x0A] @ SSRF_BOUNDARY_NOTE"

fun payload_text :: "payload \<Rightarrow> string" where
  "payload_text (PText s) = s"
| "payload_text (PResult (Output x)) = to_text x"
| "payload_text (PResult (Value v)) = []"

text \<open>\<open>_with_deferred_note\<close>: a result keeps its class but only its text and error flag.\<close>

fun note_deferred :: "payload \<Rightarrow> payload" where
  "note_deferred (PText s) = PText (with_deferred_note s)"
| "note_deferred (PResult (Output x)) =
     PResult (Output \<lparr>to_text = with_deferred_note (to_text x), to_is_error = to_is_error x, to_structured = None,
       to_metadata = []\<rparr>)"
| "note_deferred (PResult (Value v)) = PResult (Value v)"

subsection \<open>Classification of boundary failures\<close>

definition BUDGETED_EXEC_GUARD_SIGNATURES :: "string list" where
  "BUDGETED_EXEC_GUARD_SIGNATURES = [''violation:exec-allowlist'', ''violation:exec-denyguard'']"

text \<open>
  \<open>_classify_violation\<close>: the payload and detail that replace the answer's, or None. \<open>charge\<close> says whether the
  caller passed the turn's denial budget.
\<close>

definition classify_violation ::
  "os_host \<Rightarrow> string option \<Rightarrow> bool \<Rightarrow> payload \<Rightarrow> string \<Rightarrow> tool_call \<Rightarrow> turn_state
     \<Rightarrow> (payload \<times> string) option \<times> turn_state" where
  "classify_violation os cap charge raw soft c st =
     (let text = payload_text raw in
      case cap of
        Some k \<Rightarrow>
          (case repeated_policy_error k (tn_violations st) of
             (e, v) \<Rightarrow>
               (Some (case e of
                        Some t \<Rightarrow> (PText t, event_detail ''policy_denial_escalated: '' text)
                      | None \<Rightarrow> (raw, event_detail ''policy_denial: '' text)),
                st\<lparr>tn_violations := v\<rparr>))
      | None \<Rightarrow>
          if contains STRICT_SANDBOX_MARKER text then (Some (raw, event_detail ''strict_sandbox: '' text), st)
          else if is_ssrf_violation text
          then (Some (PText (ssrf_soft_payload text), event_detail ''ssrf_violation: '' text), st)
          else (case exec_guard_violation_signature text of
                  Some sig \<Rightarrow>
                    (let st1 = (if charge \<and> sig \<in> set BUDGETED_EXEC_GUARD_SIGNATURES then record_denial st else st) in
                     case repeated_exec_guard_error text (tn_violations st1) of
                       (e, v) \<Rightarrow>
                         (Some (case e of
                                  Some t \<Rightarrow> (PText t, event_detail ''exec_guard_denial_escalated: '' text)
                                | None \<Rightarrow> (raw, event_detail ''exec_guard_denial: '' text)),
                          st1\<lparr>tn_violations := v\<rparr>))
                | None \<Rightarrow>
                    if is_workspace_violation text then
                      (case repeated_workspace_violation_error os (tc_name c) (tc_args c) text (tn_violations st) of
                         (e, v) \<Rightarrow>
                           (Some (case e of
                                    Some t \<Rightarrow> (PText t, event_detail ''workspace_violation_escalated: '' text)
                                  | None \<Rightarrow> (PText soft, event_detail ''workspace_violation: '' text)),
                            st\<lparr>tn_violations := v\<rparr>))
                    else (None, st)))"

subsection \<open>Up to the gate's verdict\<close>

datatype run_exc = PrepareExc prepare_exc | GateExc fs_error | Cancelled

datatype begun =
    Answered answer
  | Escapes run_exc
  | Invalid string
  | Running rtool "(string, json) dict"

definition error_answer :: "tool_call \<Rightarrow> payload \<Rightarrow> string \<Rightarrow> answer" where
  "error_answer c p d = \<lparr>an_payload = p, an_name = tc_name c, an_status = StError, an_detail = d, an_ask = None\<rparr>"

definition skip_after_policy_ceiling :: "tool_call \<Rightarrow> nat \<Rightarrow> answer" where
  "skip_after_policy_ceiling c n =
     (let text = ''Error: '' @ tc_name c @ '' was not run: '' @ nat_digits n @ '' tool calls were '' @
            ''blocked by the permission policy this turn, so the turn is ending. Do not '' @
            ''retry; tell the user which capability you need.''
      in error_answer c (PText text) (event_detail ''policy_denial_budget_exhausted: '' text))"

definition policy_capability :: "gate_result \<Rightarrow> string option" where
  "policy_capability res =
     (case g_decision res of
        Deny d \<Rightarrow> if g_layer res = Some PolicyL then Some (denied_capability d) else None
      | Allow \<Rightarrow> None)"

definition deny_call :: "os_host \<Rightarrow> gate_result \<Rightarrow> tool_call \<Rightarrow> turn_state \<Rightarrow> answer \<times> turn_state" where
  "deny_call os res c st =
     (let denial = error_text res;
          st1 = (if policy_capability res = None then st else record_denial st)
      in case classify_violation os (policy_capability res) False (PText denial) (denial @ RETRY_HINT) c st1 of
           (None, st2) \<Rightarrow> (error_answer c (PText (denial @ RETRY_HINT)) (short_detail denial), st2)
         | (Some (p, d), st2) \<Rightarrow> (error_answer c (if g_deferred res then note_deferred p else p) d, st2))"

definition begin_call :: "'c run_host \<Rightarrow> run_spec \<Rightarrow> tool_call \<Rightarrow> turn_state \<Rightarrow> begun \<times> turn_state" where
  "begin_call W S c st =
     (if denials_exhausted S st then (Answered (skip_after_policy_ceiling c (tn_denials st)), st)
      else case repeated_external_lookup_error (tc_name c) (tc_args c) (tn_lookups st) of
        (Some err, l) \<Rightarrow>
          (Answered (error_answer c (PText (err @ RETRY_HINT)) ''repeated external lookup blocked''),
           st\<lparr>tn_lookups := l\<rparr>)
      | (None, l) \<Rightarrow>
          (let st1 = st\<lparr>tn_lookups := l\<rparr>; Y = rh_typed W in
           case prepare_call (ye_float Y) (ye_parse Y) (rs_tools S) (tc_name c) (tc_args c) of
             Inl e \<Rightarrow> (Escapes (PrepareExc e), st1)
           | Inr (NotReady err) \<Rightarrow>
               (Invalid err, st1\<lparr>tn_invalid := tn_invalid st1 @
                  [invalid_event (rs_principal S) (tc_name c) (Some (tc_id c)) err]\<rparr>)
           | Inr (Ready t d) \<Rightarrow>
               (case gate_call (rh_gate W) (rh_hosts W) (rh_sink W) (tl_gate t) (JDict d) (rs_principal S)
                       (rs_policy S) (rs_env S) (rh_ctx W) (rs_workspace S) (tn_gate st1) of
                  (Inl e, g) \<Rightarrow> (Escapes (GateExc e), st1\<lparr>tn_gate := g\<rparr>)
                | (Inr res, g) \<Rightarrow>
                    if g_allowed res
                    then (Running t d, st1\<lparr>tn_gate := g, tn_started := tn_started st1 @ [(c, t, d)]\<rparr>)
                    else (case deny_call (gh_os (rh_gate W)) res c (st1\<lparr>tn_gate := g\<rparr>) of
                            (a, st2) \<Rightarrow> (Answered a, st2)))))"

subsection \<open>After the tool\<close>

text \<open>How a run ends: its result, an exception with class and text, the question of \<open>ask_user\<close>, a cancelled task.\<close>

datatype run_end = Returned tool_value | Raised string string | Asked string "string list" | Stopped

text \<open>\<open>_defer_exec_guard_denial\<close>\<close>

definition declared_exec :: "rtool \<Rightarrow> (string, json) dict \<Rightarrow> string option" where
  "declared_exec t d =
     (case t_declare (tl_gate t) of
        None \<Rightarrow> None
      | Some f \<Rightarrow>
          (case f (JDict d) of
             Inl _ \<Rightarrow> None
           | Inr reqs \<Rightarrow> find (\<lambda>k. k \<in> EXEC_CAPABILITIES) (map capability reqs)))"

definition defer_exec_guard_denial ::
  "gate_host \<Rightarrow> run_spec \<Rightarrow> tool_call \<Rightarrow> rtool \<Rightarrow> (string, json) dict \<Rightarrow> string \<Rightarrow> answer \<Rightarrow> turn_state
     \<Rightarrow> answer \<times> turn_state" where
  "defer_exec_guard_denial G S c t d raw a st =
     (let guard = prefix ''exec_guard_denial'' (an_detail a) in
      if \<not> guard \<and> \<not> prefix ''ssrf_violation'' (an_detail a) \<and> \<not> prefix ''workspace_violation'' (an_detail a)
      then (a, st)
      else if \<not> guard \<and> declared_exec t d = None then (a, st)
      else (case record_gate_denial (gh_redact G) (gh_now G) (gh_io G) (deferred_work_dir (rs_env S) (rs_workspace S))
                   (tc_name c) (JDict d) raw (Some (or_else (declared_exec t d) ''exec.run'')) (gs_files (tn_gate st)) of
              (logged, f) \<Rightarrow>
                (if logged then a\<lparr>an_payload := note_deferred (an_payload a)\<rparr> else a,
                 st\<lparr>tn_gate := (tn_gate st)\<lparr>gs_files := f\<rparr>\<rparr>)))"

text \<open>An answer with an error: counted, classified, logged; \<open>raw\<close> is the text or the result, \<open>soft\<close> the text with the hint.\<close>

definition failed_call ::
  "'c run_host \<Rightarrow> run_spec \<Rightarrow> tool_call \<Rightarrow> rtool \<Rightarrow> (string, json) dict \<Rightarrow> payload \<Rightarrow> string \<Rightarrow> string \<Rightarrow> turn_state
     \<Rightarrow> answer \<times> turn_state" where
  "failed_call W S c t d raw soft detail st =
     (case classify_violation (gh_os (rh_gate W)) None True raw soft c (record_error st) of
        (None, st1) \<Rightarrow> (error_answer c (PText soft) detail, st1)
      | (Some (p, dt), st1) \<Rightarrow>
          defer_exec_guard_denial (rh_gate W) S c t d (payload_text raw) (error_answer c p dt) st1)"

definition value_text :: "'c run_host \<Rightarrow> tool_value \<Rightarrow> string" where
  "value_text W r =
     (case r of
        Output x \<Rightarrow> to_text x
      | Value (PyJson v) \<Rightarrow> if v = JNull then [] else json_str v
      | Value (PyModel k j) \<Rightarrow> rh_model_text W k j)"

definition ok_detail :: "string \<Rightarrow> string" where
  "ok_detail text =
     (let d = one_line text in
      if d = [] then ''(empty)'' else if length d > 120 then take 120 d @ ''...'' else d)"

definition raised_call ::
  "'c run_host \<Rightarrow> run_spec \<Rightarrow> tool_call \<Rightarrow> rtool \<Rightarrow> (string, json) dict \<Rightarrow> string \<Rightarrow> string \<Rightarrow> turn_state
     \<Rightarrow> answer \<times> turn_state" where
  "raised_call W S c t d cls msg st =
     failed_call W S c t d (PText msg) (''Error: '' @ cls @ '': '' @ msg @ RETRY_HINT) msg st"

definition finish_run ::
  "'c run_host \<Rightarrow> run_spec \<Rightarrow> tool_call \<Rightarrow> rtool \<Rightarrow> (string, json) dict \<Rightarrow> run_end \<Rightarrow> turn_state
     \<Rightarrow> (run_exc + answer) \<times> turn_state" where
  "finish_run W S c t d out st =
     (case out of
        Stopped \<Rightarrow> (Inl Cancelled, st)
      | Asked q opts \<Rightarrow>
          (Inr \<lparr>an_payload = PText [], an_name = tc_name c, an_status = StWaiting, an_detail = q,
                an_ask = Some (q, opts)\<rparr>, st)
      | Raised cls msg \<Rightarrow> apfst Inr (raised_call W S c t d cls msg st)
      | Returned r \<Rightarrow>
          (case validate_result (rh_typed W) (tl_typed t) (rs_principal S) r of
             Inl _ \<Rightarrow> apfst Inr (raised_call W S c t d (fst (rh_dump W)) (snd (rh_dump W)) st)
           | Inr (r', ev) \<Rightarrow>
               (let st1 = st\<lparr>tn_rejected := tn_rejected st @ ev\<rparr>;
                    ok = \<lparr>an_payload = PResult r', an_name = tc_name c, an_status = StOk,
                          an_detail = ok_detail (value_text W r'), an_ask = None\<rparr>
                in case r' of
                     Output x \<Rightarrow>
                       if to_is_error x
                       then apfst Inr (failed_call W S c t d (PResult r') (to_text x @ RETRY_HINT)
                              (take 120 (one_line (to_text x))) st1)
                       else (Inr ok, st1)
                   | Value v \<Rightarrow> (Inr ok, st1))))"

definition finish_invalid :: "os_host \<Rightarrow> tool_call \<Rightarrow> string \<Rightarrow> turn_state \<Rightarrow> answer \<times> turn_state" where
  "finish_invalid os c err st =
     (case classify_violation os None False (PText err) (err @ RETRY_HINT) c (record_error st) of
        (None, st1) \<Rightarrow> (error_answer c (PText (err @ RETRY_HINT)) (short_detail err), st1)
      | (Some (p, d), st1) \<Rightarrow> (error_answer c p d, st1))"

definition finish_call ::
  "'c run_host \<Rightarrow> run_spec \<Rightarrow> tool_call \<Rightarrow> begun \<Rightarrow> run_end \<Rightarrow> turn_state \<Rightarrow> (run_exc + answer) \<times> turn_state" where
  "finish_call W S c b out st =
     (case b of
        Answered a \<Rightarrow> (Inr a, st)
      | Escapes e \<Rightarrow> (Inl e, st)
      | Invalid err \<Rightarrow> apfst Inr (finish_invalid (gh_os (rh_gate W)) c err st)
      | Running t d \<Rightarrow> finish_run W S c t d out st)"

definition run_tool_call ::
  "'c run_host \<Rightarrow> run_spec \<Rightarrow> tool_call \<Rightarrow> run_end \<Rightarrow> turn_state \<Rightarrow> (run_exc + answer) \<times> turn_state" where
  "run_tool_call W S c out st = (case begin_call W S c st of (b, st1) \<Rightarrow> finish_call W S c b out st1)"

subsection \<open>One batch\<close>

text \<open>A batch one after another, up to an exception or a question.\<close>

fun run_in_order ::
  "'c run_host \<Rightarrow> run_spec \<Rightarrow> (tool_call \<times> run_end) list \<Rightarrow> turn_state \<Rightarrow> (run_exc + answer list) \<times> turn_state" where
  "run_in_order W S [] st = (Inr [], st)"
| "run_in_order W S ((c, out) # cs) st =
     (case run_tool_call W S c out st of
        (Inl e, st1) \<Rightarrow> (Inl e, st1)
      | (Inr a, st1) \<Rightarrow>
          if an_ask a \<noteq> None then (Inr [a], st1)
          else (case run_in_order W S cs st1 of
                  (Inl e, st2) \<Rightarrow> (Inl e, st2) | (Inr as, st2) \<Rightarrow> (Inr (a # as), st2)))"

text \<open>
  A gathered batch: every call is a task with its position. The tasks start in order, each running to its gate's
  verdict without a pause, and end in any order. An exception of one does not stop the others.
\<close>

record batch =
  bt_queue :: "(nat \<times> tool_call \<times> run_end) list"
  bt_running :: "(nat \<times> tool_call \<times> begun \<times> run_end) list"
  bt_done :: "(nat \<times> (run_exc + answer)) list"
  bt_turn :: turn_state

datatype task_step = Launch | Settle nat

definition task_step :: "'c run_host \<Rightarrow> run_spec \<Rightarrow> task_step \<Rightarrow> batch \<Rightarrow> batch" where
  "task_step W S a B =
     (case a of
        Launch \<Rightarrow>
          (case bt_queue B of
             [] \<Rightarrow> B
           | (i, c, out) # q \<Rightarrow>
               (case begin_call W S c (bt_turn B) of
                  (b, st) \<Rightarrow> B\<lparr>bt_queue := q, bt_running := bt_running B @ [(i, c, b, out)], bt_turn := st\<rparr>))
      | Settle k \<Rightarrow>
          (if k < length (bt_running B) then
             (case bt_running B ! k of
                (i, c, b, out) \<Rightarrow>
                  (case finish_call W S c b out (bt_turn B) of
                     (r, st) \<Rightarrow> B\<lparr>bt_running := take k (bt_running B) @ drop (Suc k) (bt_running B),
                                   bt_done := bt_done B @ [(i, r)], bt_turn := st\<rparr>))
           else B))"

definition open_batch :: "(tool_call \<times> run_end) list \<Rightarrow> turn_state \<Rightarrow> batch" where
  "open_batch cs st = \<lparr>bt_queue = enumerate 0 cs, bt_running = [], bt_done = [], bt_turn = st\<rparr>"

text \<open>A schedule, then whatever is left: every call has begun and ended.\<close>

definition run_schedule :: "'c run_host \<Rightarrow> run_spec \<Rightarrow> task_step list \<Rightarrow> batch \<Rightarrow> batch" where
  "run_schedule W S sch B =
     (let B1 = fold (task_step W S) sch B;
          B2 = fold (task_step W S) (replicate (length (bt_queue B1)) Launch) B1
      in fold (task_step W S) (replicate (length (bt_running B2)) (Settle 0)) B2)"

fun first_raised :: "(nat \<times> (run_exc + answer)) list \<Rightarrow> run_exc option" where
  "first_raised [] = None"
| "first_raised ((i, Inl e) # rs) = Some e"
| "first_raised ((i, Inr a) # rs) = first_raised rs"

definition answers_in_order :: "(nat \<times> (run_exc + answer)) list \<Rightarrow> answer list" where
  "answers_in_order rs = map (\<lambda>(i, r). projr r) (sort_key fst rs)"

definition run_gathered ::
  "'c run_host \<Rightarrow> run_spec \<Rightarrow> task_step list \<Rightarrow> (tool_call \<times> run_end) list \<Rightarrow> turn_state
     \<Rightarrow> (run_exc + answer list) \<times> turn_state" where
  "run_gathered W S sch cs st =
     (let B = run_schedule W S sch (open_batch cs st) in
      (case first_raised (bt_done B) of
         Some e \<Rightarrow> Inl e | None \<Rightarrow> Inr (answers_in_order (bt_done B)), bt_turn B))"

subsection \<open>All calls of a response\<close>

definition batches_of :: "run_spec \<Rightarrow> (tool_call \<times> run_end) list \<Rightarrow> (tool_call \<times> run_end) list list" where
  "batches_of S cs =
     (if \<not> rs_concurrent S then map (\<lambda>c. [c]) cs
      else gather_batches (\<lambda>(c, out). case get_tool (rs_tools S) (tc_name c) of
             None \<Rightarrow> False | Some t \<Rightarrow> tl_concurrency_safe t) [] cs)"

definition run_batch ::
  "'c run_host \<Rightarrow> run_spec \<Rightarrow> task_step list \<Rightarrow> (tool_call \<times> run_end) list \<Rightarrow> turn_state
     \<Rightarrow> (run_exc + answer list) \<times> turn_state" where
  "run_batch W S sch b st =
     (if rs_concurrent S \<and> length b > 1 then run_gathered W S sch b st else run_in_order W S b st)"

fun run_batches ::
  "'c run_host \<Rightarrow> run_spec \<Rightarrow> (nat \<Rightarrow> task_step list) \<Rightarrow> (tool_call \<times> run_end) list list \<Rightarrow> turn_state
     \<Rightarrow> (run_exc + answer list) \<times> turn_state" where
  "run_batches W S sch [] st = (Inr [], st)"
| "run_batches W S sch (b # bs) st =
     (case run_batch W S (sch 0) b st of
        (Inl e, st1) \<Rightarrow> (Inl e, st1)
      | (Inr as, st1) \<Rightarrow>
          if list_ex (\<lambda>a. an_ask a \<noteq> None) as then (Inr as, st1)
          else (case run_batches W S (\<lambda>n. sch (Suc n)) bs st1 of
                  (Inl e, st2) \<Rightarrow> (Inl e, st2) | (Inr rest, st2) \<Rightarrow> (Inr (as @ rest), st2)))"

definition execute_tools ::
  "'c run_host \<Rightarrow> run_spec \<Rightarrow> (nat \<Rightarrow> task_step list) \<Rightarrow> (tool_call \<times> run_end) list \<Rightarrow> turn_state
     \<Rightarrow> (run_exc + answer list) \<times> turn_state" where
  "execute_tools W S sch cs st = run_batches W S sch (batches_of S cs) st"

subsection \<open>The loop around the calls\<close>

text \<open>What ends the turn after the calls of a response, in the order the loop asks.\<close>

datatype tool_stop = AskedUser string "string list" | PolicyDenials | ToolErrors

definition stop_after_tools :: "run_spec \<Rightarrow> answer list \<Rightarrow> turn_state \<Rightarrow> tool_stop option" where
  "stop_after_tools S as st =
     (case find (\<lambda>a. an_ask a \<noteq> None) as of
        Some a \<Rightarrow> (case an_ask a of Some (q, opts) \<Rightarrow> Some (AskedUser q opts) | None \<Rightarrow> None)
      | None \<Rightarrow>
          if denials_exhausted S st then Some PolicyDenials
          else if errors_exhausted S st then Some ToolErrors else None)"

record loop_state =
  lp_turn :: turn_state
  lp_failed :: nat
  lp_reflected :: bool
  lp_notes :: "nat list"
  lp_stop :: "(run_exc + tool_stop) option"

definition new_loop :: "gate_state \<Rightarrow> loop_state" where
  "new_loop s = \<lparr>lp_turn = new_turn s, lp_failed = 0, lp_reflected = False, lp_notes = [], lp_stop = None\<rparr>"

text \<open>The reflection note: once a turn, after enough responses in a row with nothing but failed calls.\<close>

definition reflect :: "run_spec \<Rightarrow> answer list \<Rightarrow> loop_state \<Rightarrow> loop_state" where
  "reflect S as L =
     (let n = (if as \<noteq> [] \<and> list_all (\<lambda>a. an_status a = StError) as then lp_failed L + 1 else 0);
          L1 = L\<lparr>lp_failed := n\<rparr>
      in if rs_reflection_threshold S > 0 \<and> \<not> lp_reflected L \<and> rs_reflection_threshold S \<le> int n
         then L1\<lparr>lp_notes := lp_notes L @ [n], lp_reflected := True\<rparr> else L1)"

definition tool_iteration ::
  "'c run_host \<Rightarrow> run_spec \<Rightarrow> (nat \<Rightarrow> task_step list) \<times> (tool_call \<times> run_end) list \<Rightarrow> loop_state \<Rightarrow> loop_state" where
  "tool_iteration W S r L =
     (if lp_stop L \<noteq> None then L
      else (case execute_tools W S (fst r) (snd r) (lp_turn L) of
              (Inl e, st) \<Rightarrow> L\<lparr>lp_turn := st, lp_stop := Some (Inl e)\<rparr>
            | (Inr as, st) \<Rightarrow>
                (case stop_after_tools S as st of
                   Some (AskedUser q opts) \<Rightarrow> L\<lparr>lp_turn := st, lp_stop := Some (Inr (AskedUser q opts))\<rparr>
                 | x \<Rightarrow> (reflect S as L)\<lparr>lp_turn := st, lp_stop := map_option Inr x\<rparr>)))"

definition tool_iterations ::
  "'c run_host \<Rightarrow> run_spec \<Rightarrow> ((nat \<Rightarrow> task_step list) \<times> (tool_call \<times> run_end) list) list \<Rightarrow> gate_state \<Rightarrow> loop_state" where
  "tool_iterations W S rs s = fold (tool_iteration W S) rs (new_loop s)"

end
