(* ===== verification/TurnSafety.thy ===== *)
theory TurnSafety
  imports ToolRunner
begin

text \<open>
  What holds of the tool calls of a turn, whatever the model asks for, the tools do and the tasks of a batch
  interleave: no tool without its checks, the ceiling on policy denials, the
  throttle on repeated lookups, one answer per call in the order of the calls.
\<close>

subsection \<open>What the steps leave alone\<close>

named_theorems turn_frame

lemma record_simps [turn_frame]:
  "tn_started (record_denial st) = tn_started st" "tn_lookups (record_denial st) = tn_lookups st"
  "tn_started (record_error st) = tn_started st" "tn_lookups (record_error st) = tn_lookups st"
  "tn_denials (record_denial st) = tn_denials st + 1" "tn_denials (record_error st) = tn_denials st"
  by (simp_all add: record_denial_def record_error_def)

definition same_work :: "turn_state \<Rightarrow> turn_state \<Rightarrow> bool" where
  "same_work st st' \<longleftrightarrow> tn_started st' = tn_started st \<and> tn_lookups st' = tn_lookups st"

lemma same_work_refl [simp]: "same_work st st"
  by (simp add: same_work_def)

lemma classify_denials:
  "classify_violation os cap charge raw soft c st = (r, st') \<Longrightarrow>
     same_work st st' \<and> tn_denials st \<le> tn_denials st' \<and> tn_denials st' \<le> tn_denials st + (if charge then 1 else 0)"
  by (auto simp: classify_violation_def Let_def turn_frame same_work_def split: option.splits prod.splits if_splits)

lemma defer_frame:
  "defer_exec_guard_denial G S c t d raw a st = (a', st') \<Longrightarrow>
     same_work st st' \<and> tn_denials st' = tn_denials st \<and> an_name a' = an_name a"
  by (auto simp: defer_exec_guard_denial_def Let_def same_work_def split: prod.splits if_splits)

lemma error_answer_name [simp]: "an_name (error_answer c p d) = tc_name c"
  by (simp add: error_answer_def)

lemma failed_denials:
  "failed_call W S c t d raw soft dt st = (a, st') \<Longrightarrow>
     same_work st st' \<and> tn_denials st \<le> tn_denials st' \<and> tn_denials st' \<le> tn_denials st + 1 \<and> an_name a = tc_name c"
  by (auto simp: failed_call_def same_work_def turn_frame
      dest!: classify_denials defer_frame split: prod.splits option.splits)

definition is_running :: "begun \<Rightarrow> bool" where
  "is_running b = (case b of Running t d \<Rightarrow> True | _ \<Rightarrow> False)"

lemma is_running_simps [simp]:
  "is_running (Running t d)" "\<not> is_running (Answered a)" "\<not> is_running (Escapes e)" "\<not> is_running (Invalid err)"
  by (simp_all add: is_running_def)

lemma finish_run_denials:
  "finish_run W S c t d out st = (r, st') \<Longrightarrow>
     same_work st st' \<and> tn_denials st \<le> tn_denials st' \<and> tn_denials st' \<le> tn_denials st + 1
     \<and> (\<forall>a. r = Inr a \<longrightarrow> an_name a = tc_name c)"
  by (auto simp: finish_run_def raised_call_def Let_def apfst_def map_prod_def same_work_def dest!: failed_denials
      split: run_end.splits sum.splits prod.splits tool_value.splits if_splits)

definition named_begun :: "tool_call \<Rightarrow> begun \<Rightarrow> bool" where
  "named_begun c b \<longleftrightarrow> (\<forall>a. b = Answered a \<longrightarrow> an_name a = tc_name c)"

lemma finish_denials:
  "finish_call W S c b out st = (r, st') \<Longrightarrow>
     same_work st st' \<and> tn_denials st \<le> tn_denials st'
     \<and> tn_denials st' \<le> tn_denials st + (if is_running b then 1 else 0)
     \<and> (named_begun c b \<longrightarrow> (\<forall>a. r = Inr a \<longrightarrow> an_name a = tc_name c))"
  by (cases b)
    (auto simp: finish_call_def finish_invalid_def apfst_def map_prod_def turn_frame same_work_def named_begun_def
      dest!: classify_denials finish_run_denials split: prod.splits option.splits)

subsection \<open>What may start\<close>

text \<open>The registry with the gate of the turn.\<close>

definition turn_registry :: "run_spec \<Rightarrow> tool_registry" where
  "turn_registry S = (rs_tools S)\<lparr>tg_policy := rs_policy S, tg_principal := rs_principal S, tg_env := rs_env S,
     tg_workspace := rs_workspace S\<rparr>"

definition start_checked :: "'c run_host \<Rightarrow> run_spec \<Rightarrow> tool_call \<times> rtool \<times> (string, json) dict \<Rightarrow> bool" where
  "start_checked W S = (\<lambda>(c, t, d).
     call_checked (rh_gate W) (rh_hosts W) (rh_ctx W) (ye_float (rh_typed W)) (turn_registry S) (tc_name c) t d)"

definition lookups_of :: "string \<Rightarrow> turn_state \<Rightarrow> nat" where
  "lookups_of sig st =
     length (filter (\<lambda>(c, t, d). external_lookup_signature (tc_name c) (tc_args c) = Some sig) (tn_started st))"

definition turn_ok :: "'c run_host \<Rightarrow> run_spec \<Rightarrow> turn_state \<Rightarrow> bool" where
  "turn_ok W S st \<longleftrightarrow> list_all (start_checked W S) (tn_started st)
     \<and> (\<forall>sig. lookups_of sig st \<le> min MAX_REPEAT_EXTERNAL_LOOKUPS (count_of (tn_lookups st) sig))"

lemma same_work_ok: "same_work st st' \<Longrightarrow> turn_ok W S st \<Longrightarrow> turn_ok W S st'"
  by (simp add: same_work_def turn_ok_def lookups_of_def)

lemma deny_call_denials:
  "deny_call os res c st = (a, st') \<Longrightarrow>
     same_work st st' \<and> tn_denials st \<le> tn_denials st' \<and> tn_denials st' \<le> tn_denials st + 1 \<and> an_name a = tc_name c"
  by (auto simp: deny_call_def Let_def turn_frame same_work_def dest!: classify_denials split: prod.splits option.splits if_splits)

lemma begin_denials:
  "begin_call W S c st = (b, st') \<Longrightarrow>
     named_begun c b \<and> tn_denials st \<le> tn_denials st'
     \<and> (if denials_exhausted S st then tn_denials st' = tn_denials st \<and> \<not> is_running b
        else tn_denials st' + (if is_running b then 1 else 0) \<le> tn_denials st + 1)"
  by (auto simp: begin_call_def Let_def named_begun_def skip_after_policy_ceiling_def dest!: deny_call_denials
      split: prod.splits option.splits sum.splits prepared.splits if_splits)

lemma lookup_counts_mono:
  assumes "repeated_external_lookup_error name args l = (e, l')"
  shows "count_of l' k = count_of l k + (if external_lookup_signature name args = Some k then 1 else 0)"
  using external_lookup_counts[of name args l k] assms by simp

lemma turn_ok_counted:
  assumes "turn_ok W S st" "repeated_external_lookup_error name args (tn_lookups st) = (e, l')"
  shows "turn_ok W S (st\<lparr>tn_lookups := l'\<rparr>)"
proof -
  have "lookups_of sig st \<le> min MAX_REPEAT_EXTERNAL_LOOKUPS (count_of l' sig)" for sig
  proof -
    have "lookups_of sig st \<le> min MAX_REPEAT_EXTERNAL_LOOKUPS (count_of (tn_lookups st) sig)"
      using assms(1) by (simp add: turn_ok_def)
    with lookup_counts_mono[OF assms(2), of sig] show ?thesis by simp
  qed
  with assms(1) show ?thesis by (simp add: turn_ok_def lookups_of_def)
qed

lemma started_ok:
  assumes ok: "turn_ok W S st" and pass: "repeated_external_lookup_error (tc_name c) (tc_args c) (tn_lookups st) = (None, l')"
    and chk: "start_checked W S (c, t, d)"
  shows "turn_ok W S (st\<lparr>tn_lookups := l', tn_gate := g, tn_started := tn_started st @ [(c, t, d)]\<rparr>)"
proof -
  have "lookups_of sig st + (if external_lookup_signature (tc_name c) (tc_args c) = Some sig then 1 else 0)
      \<le> min MAX_REPEAT_EXTERNAL_LOOKUPS (count_of l' sig)" for sig
  proof -
    have "lookups_of sig st \<le> min MAX_REPEAT_EXTERNAL_LOOKUPS (count_of (tn_lookups st) sig)"
      using ok by (simp add: turn_ok_def)
    with external_lookup_passes[of "tc_name c" "tc_args c" "tn_lookups st"] lookup_counts_mono[OF pass, of sig] pass
    show ?thesis by auto
  qed
  moreover have "lookups_of sig (st\<lparr>tn_lookups := l', tn_gate := g, tn_started := tn_started st @ [(c, t, d)]\<rparr>)
      = lookups_of sig st + (if external_lookup_signature (tc_name c) (tc_args c) = Some sig then 1 else 0)" for sig
    by (simp add: lookups_of_def)
  ultimately show ?thesis
    using ok chk by (simp add: turn_ok_def)
qed

lemma ready_checked:
  assumes "prepare_call (ye_float (rh_typed W)) (ye_parse (rh_typed W)) (rs_tools S) (tc_name c) (tc_args c) = Inr (Ready t d)"
    and "gate_call (rh_gate W) (rh_hosts W) (rh_sink W) (tl_gate t) (JDict d) (rs_principal S) (rs_policy S) (rs_env S)
          (rh_ctx W) (rs_workspace S) s = (Inr res, s')" "g_allowed res"
  shows "start_checked W S (c, t, d)"
proof -
  obtain reqs where "declared (tl_gate t) (JDict d) = Inr reqs"
    "\<forall>raw \<in> set reqs. request_passes (rh_gate W) (rh_hosts W) (tl_gate t) (or_else (rs_principal S) AGENT_PRINCIPAL)
       (or_else (rs_policy S) (DefaultP default_new)) (rs_env S) (rh_ctx W) (rs_workspace S) raw"
    using gate_call_Allow[of "rh_gate W" "rh_hosts W" "rh_sink W" "tl_gate t" "JDict d" "rs_principal S" "rs_policy S"
        "rs_env S" "rh_ctx W" "rs_workspace S" s] assms(2,3) by blast
  with prepared_ready[OF assms(1)] show ?thesis
    by (simp add: start_checked_def call_checked_def turn_registry_def get_tool_def list_all_iff)
qed

lemma begin_ok:
  assumes "turn_ok W S st" "begin_call W S c st = (b, st')"
  shows "turn_ok W S st'"
proof (cases "denials_exhausted S st")
  case False
  obtain e l where l: "repeated_external_lookup_error (tc_name c) (tc_args c) (tn_lookups st) = (e, l)"
    by fastforce
  have ok1: "turn_ok W S (st\<lparr>tn_lookups := l\<rparr>)" by (rule turn_ok_counted[OF assms(1) l])
  have *: "turn_ok W S st''" if "same_work (st\<lparr>tn_lookups := l\<rparr>) st''" for st''
    using same_work_ok[OF that ok1] .
  show ?thesis
    using assms(2) False l ok1
    by (auto simp: begin_call_def Let_def same_work_def intro: * intro!: started_ok[OF assms(1)] dest: ready_checked
        dest!: deny_call_denials split: prod.splits option.splits sum.splits prepared.splits if_splits)
qed (use assms in \<open>auto simp: begin_call_def\<close>)

lemma finish_ok: "turn_ok W S st \<Longrightarrow> finish_call W S c b out st = (r, st') \<Longrightarrow> turn_ok W S st'"
  using finish_denials same_work_ok by blast

subsection \<open>Invariants of a turn\<close>

text \<open>What both parts of a call keep holds through every batch, schedule and response.\<close>

locale turn_invariant =
  fixes W :: "'c run_host" and S :: run_spec and P :: "turn_state \<Rightarrow> bool"
  assumes begin_keeps: "P st \<Longrightarrow> begin_call W S c st = (b, st') \<Longrightarrow> P st'"
    and finish_keeps: "P st \<Longrightarrow> finish_call W S c b out st = (r, st') \<Longrightarrow> P st'"
begin

lemma step_keeps: "P (bt_turn B) \<Longrightarrow> P (bt_turn (task_step W S a B))"
  by (auto simp: task_step_def split: task_step.splits list.splits prod.splits dest: begin_keeps finish_keeps)

lemma fold_keeps: "P (bt_turn B) \<Longrightarrow> P (bt_turn (fold (task_step W S) as B))"
  by (induction as arbitrary: B) (auto intro: step_keeps)

lemma schedule_keeps: "P (bt_turn B) \<Longrightarrow> P (bt_turn (run_schedule W S sch B))"
  unfolding run_schedule_def Let_def by (intro fold_keeps)

lemma gathered_keeps: "P st \<Longrightarrow> run_gathered W S sch cs st = (r, st') \<Longrightarrow> P st'"
  using schedule_keeps[of "open_batch cs st" sch] by (auto simp: run_gathered_def Let_def open_batch_def)

lemma call_keeps: "P st \<Longrightarrow> run_tool_call W S c out st = (r, st') \<Longrightarrow> P st'"
  by (auto simp: run_tool_call_def split: prod.splits dest: begin_keeps finish_keeps)

lemma in_order_keeps: "P st \<Longrightarrow> run_in_order W S cs st = (r, st') \<Longrightarrow> P st'"
proof (induction cs arbitrary: st r st')
  case (Cons co cs)
  obtain c out where co: "co = (c, out)" by (cases co)
  obtain r1 st1 where c: "run_tool_call W S c out st = (r1, st1)" by fastforce
  with Cons.prems(1) have "P st1" by (rule call_keeps)
  with Cons c co show ?case
    by (auto split: sum.splits prod.splits if_splits)
qed simp

lemma batch_keeps: "P st \<Longrightarrow> run_batch W S sch b st = (r, st') \<Longrightarrow> P st'"
  by (auto simp: run_batch_def split: if_splits dest: gathered_keeps in_order_keeps)

lemma batches_keep: "P st \<Longrightarrow> run_batches W S sch bs st = (r, st') \<Longrightarrow> P st'"
proof (induction bs arbitrary: sch st r st')
  case (Cons b bs)
  obtain r1 st1 where b: "run_batch W S (sch 0) b st = (r1, st1)" by fastforce
  with Cons.prems(1) have "P st1" by (rule batch_keeps)
  with Cons b show ?case
    by (auto split: sum.splits prod.splits if_splits)
qed simp

lemma iteration_keeps: "P (lp_turn L) \<Longrightarrow> P (lp_turn (tool_iteration W S r L))"
  by (auto simp: tool_iteration_def execute_tools_def split: prod.splits sum.splits option.splits tool_stop.splits
      dest: batches_keep)

lemma iterations_keep: "P (new_turn s) \<Longrightarrow> P (lp_turn (tool_iterations W S rs s))"
proof -
  have "P (lp_turn L) \<Longrightarrow> P (lp_turn (fold (tool_iteration W S) rs L))" for L
    by (induction rs arbitrary: L) (auto intro: iteration_keeps)
  then show "P (new_turn s) \<Longrightarrow> ?thesis"
    by (simp add: tool_iterations_def new_loop_def)
qed

end

interpretation checked: turn_invariant W S "turn_ok W S" for W S
  by unfold_locales (auto intro: begin_ok finish_ok)

lemma new_turn_ok: "turn_ok W S (new_turn s)"
  by (simp add: turn_ok_def new_turn_def lookups_of_def)


subsection \<open>The ceiling on policy denials\<close>

definition in_flight :: "batch \<Rightarrow> nat" where
  "in_flight B = length (filter (\<lambda>(i, c, b, out). is_running b) (bt_running B))"

text \<open>A gathered batch from \<open>n\<close> denials: nothing runs at the ceiling, otherwise each call can add one.\<close>

definition batch_bound :: "run_spec \<Rightarrow> nat \<Rightarrow> nat \<Rightarrow> batch \<Rightarrow> bool" where
  "batch_bound S n m B \<longleftrightarrow>
     n \<le> tn_denials (bt_turn B)
     \<and> (if denial_limit S \<le> n then tn_denials (bt_turn B) = n \<and> in_flight B = 0
        else tn_denials (bt_turn B) + in_flight B + length (bt_queue B) \<le> n + m)"

lemma split_nth: "k < length xs \<Longrightarrow> xs = take k xs @ xs ! k # drop (Suc k) xs"
  by (rule id_take_nth_drop)

lemma launch_bound:
  assumes "batch_bound S n m B" shows "batch_bound S n m (task_step W S Launch B)"
proof (cases "bt_queue B")
  case (Cons x q)
  obtain i c out where x: "x = (i, c, out)" by (cases x)
  obtain b st where b: "begin_call W S c (bt_turn B) = (b, st)" by fastforce
  from begin_denials[OF b] assms Cons x b show ?thesis
    by (auto simp: task_step_def batch_bound_def in_flight_def denials_exhausted_def split: if_splits)
qed (use assms in \<open>simp add: task_step_def\<close>)

lemma settle_bound:
  assumes "batch_bound S n m B" shows "batch_bound S n m (task_step W S (Settle k) B)"
proof (cases "k < length (bt_running B)")
  case True
  obtain i c b out where x: "bt_running B ! k = (i, c, b, out)" by (metis prod_cases4)
  obtain r st where f: "finish_call W S c b out (bt_turn B) = (r, st)" by fastforce
  have fl: "in_flight B = length (filter (\<lambda>(i, c, b, out). is_running b) (take k (bt_running B) @ drop (Suc k) (bt_running B)))
      + (if is_running b then 1 else 0)"
    unfolding in_flight_def using x by (subst split_nth[OF True]) simp
  from finish_denials[OF f] assms x f True fl show ?thesis
    by (auto simp: task_step_def batch_bound_def in_flight_def split: if_splits)
qed (use assms in \<open>simp add: task_step_def\<close>)

lemma fold_bound: "batch_bound S n m B \<Longrightarrow> batch_bound S n m (fold (task_step W S) as B)"
proof (induction as arbitrary: B)
  case (Cons a as)
  then show ?case by (cases a) (auto intro: launch_bound settle_bound)
qed simp

lemma gathered_bound:
  assumes "run_gathered W S sch cs st = (r, st')"
  shows "tn_denials st' \<le> max (tn_denials st) (denial_limit S + length cs - 1)"
proof -
  have "batch_bound S (tn_denials st) (length cs) (open_batch cs st)"
    by (simp add: batch_bound_def open_batch_def in_flight_def)
  from fold_bound[OF fold_bound[OF fold_bound[OF this]]]
  have "batch_bound S (tn_denials st) (length cs) (run_schedule W S sch (open_batch cs st))"
    unfolding run_schedule_def Let_def .
  with assms show ?thesis
    by (auto simp: run_gathered_def Let_def batch_bound_def split: if_splits)
qed

lemma call_bound:
  assumes "run_tool_call W S c out st = (r, st')"
  shows "tn_denials st' \<le> max (tn_denials st) (denial_limit S)"
proof -
  obtain b st1 where b: "begin_call W S c st = (b, st1)" by fastforce
  with assms have "finish_call W S c b out st1 = (r, st')" by (simp add: run_tool_call_def)
  from finish_denials[OF this] begin_denials[OF b] show ?thesis
    by (auto simp: denials_exhausted_def split: if_splits)
qed

lemma in_order_bound: "run_in_order W S cs st = (r, st') \<Longrightarrow> tn_denials st' \<le> max (tn_denials st) (denial_limit S)"
proof (induction cs arbitrary: st r st')
  case (Cons co cs)
  obtain c out where co: "co = (c, out)" by (cases co)
  obtain r1 st1 where c: "run_tool_call W S c out st = (r1, st1)" by fastforce
  from call_bound[OF c] Cons c co show ?case
    by (fastforce split: sum.splits prod.splits if_splits)
qed simp

text \<open>How many denials past the ceiling calls already under way can add.\<close>

definition denial_slack :: "run_spec \<Rightarrow> nat \<Rightarrow> nat" where
  "denial_slack S n = (if rs_concurrent S then n - 1 else 0)"

lemma gather_lengths: "b \<in> set (gather_batches safe cur cs) \<Longrightarrow> length b \<le> length cur + length cs"
  by (induction safe cur cs arbitrary: b rule: gather_batches.induct) (fastforce split: if_splits)+

lemma batches_lengths: "b \<in> set (batches_of S cs) \<Longrightarrow> length b \<le> length cs"
  using gather_lengths[of b _ "[]" cs] by (cases cs) (auto simp: batches_of_def split: if_splits)

lemma run_batch_bound:
  assumes "run_batch W S sch b st = (r, st')" "length b \<le> n"
  shows "tn_denials st' \<le> max (tn_denials st) (denial_limit S + denial_slack S n)"
proof (cases "rs_concurrent S \<and> length b > 1")
  case True
  with assms gathered_bound[of W S sch b st r st'] show ?thesis
    by (auto simp: run_batch_def denial_slack_def)
next
  case False
  with assms in_order_bound[of W S b st r st'] show ?thesis
    by (auto simp: run_batch_def)
qed

lemma run_batches_bound:
  "run_batches W S sch bs st = (r, st') \<Longrightarrow> \<forall>b \<in> set bs. length b \<le> n
   \<Longrightarrow> tn_denials st' \<le> max (tn_denials st) (denial_limit S + denial_slack S n)"
proof (induction bs arbitrary: sch st r st')
  case (Cons b bs)
  obtain r1 st1 where b: "run_batch W S (sch 0) b st = (r1, st1)" by fastforce
  from run_batch_bound[OF b, of n] Cons b show ?case
    by (fastforce split: sum.splits prod.splits if_splits)
qed simp

lemma execute_bound:
  "execute_tools W S sch cs st = (r, st')
   \<Longrightarrow> tn_denials st' \<le> max (tn_denials st) (denial_limit S + denial_slack S (length cs))"
  using run_batches_bound[of W S sch "batches_of S cs" st r st' "length cs"] batches_lengths
  by (auto simp: execute_tools_def)

definition widest :: "((nat \<Rightarrow> task_step list) \<times> (tool_call \<times> run_end) list) list \<Rightarrow> nat" where
  "widest rs = foldr (\<lambda>r. max (length (snd r))) rs 0"

lemma denial_slack_mono: "m \<le> n \<Longrightarrow> denial_slack S m \<le> denial_slack S n"
  by (auto simp: denial_slack_def)

lemma iteration_bound:
  "tn_denials (lp_turn (tool_iteration W S r L))
   \<le> max (tn_denials (lp_turn L)) (denial_limit S + denial_slack S (length (snd r)))"
  using execute_bound[of W S "fst r" "snd r" "lp_turn L"]
  by (auto simp: tool_iteration_def split: prod.splits sum.splits option.splits tool_stop.splits)

lemma iterations_bound:
  "tn_denials (lp_turn (fold (tool_iteration W S) rs L))
   \<le> max (tn_denials (lp_turn L)) (denial_limit S + denial_slack S (widest rs))"
proof (induction rs arbitrary: L)
  case (Cons r rs)
  have m: "denial_slack S (length (snd r)) \<le> denial_slack S (widest (r # rs))"
    "denial_slack S (widest rs) \<le> denial_slack S (widest (r # rs))"
    by (simp_all add: widest_def denial_slack_mono)
  show ?case
    using Cons[of "tool_iteration W S r L"] iteration_bound[of W S r L] m by simp
qed simp

lemma no_stop: "stop_after_tools S as st = None \<Longrightarrow> \<not> denials_exhausted S st"
  by (auto simp: stop_after_tools_def dest!: find_SomeD split: option.splits if_splits)

lemma iteration_stops:
  "(lp_stop L = None \<longrightarrow> \<not> denials_exhausted S (lp_turn L))
   \<Longrightarrow> lp_stop (tool_iteration W S r L) = None \<longrightarrow> \<not> denials_exhausted S (lp_turn (tool_iteration W S r L))"
  by (auto simp: tool_iteration_def split: prod.splits sum.splits option.splits tool_stop.splits dest: no_stop)

lemma iterations_stop:
  "lp_stop L = None \<longrightarrow> \<not> denials_exhausted S (lp_turn L)
   \<Longrightarrow> lp_stop (fold (tool_iteration W S) rs L) = None
     \<longrightarrow> \<not> denials_exhausted S (lp_turn (fold (tool_iteration W S) rs L))"
proof (induction rs arbitrary: L)
  case (Cons r rs)
  from Cons(1)[OF iteration_stops[OF Cons(2)]] show ?case by simp
qed simp

text \<open>
  Claim C11: a turn cannot collect policy denials without end. In sequential mode the denials of a turn never exceed the
  ceiling (at least one); with concurrent tools the calls of one response that were already under way can add at most one each, less one; and once
  the ceiling is reached the turn has ended.
\<close>

theorem policy_denials_capped:
  "let L = tool_iterations W S rs s in
     tn_denials (lp_turn L) \<le> denial_limit S + (if rs_concurrent S then widest rs - 1 else 0)
     \<and> \<not> (denial_limit S \<le> tn_denials (lp_turn L) \<and> lp_stop L = None)"
proof -
  have "tn_denials (lp_turn (new_loop s)) = 0" "0 < denial_limit S" "lp_stop (new_loop s) = None"
    by (simp_all add: new_loop_def new_turn_def denial_limit_def)
  with iterations_bound[of W S rs "new_loop s"] iterations_stop[of "new_loop s" S W rs] show ?thesis
    by (auto simp: tool_iterations_def Let_def denial_slack_def denials_exhausted_def)
qed

end
