(* ===== verification/TurnAnswers.thy ===== *)
theory TurnAnswers
  imports TurnSafety
begin

text \<open>
  The answers of a response's tool calls: one per call, in the order of the calls, however the tasks of a batch
  end.
\<close>

subsection \<open>The tasks of a batch\<close>

definition positions :: "batch \<Rightarrow> nat list" where
  "positions B = map fst (bt_queue B) @ map fst (bt_running B) @ map fst (bt_done B)"

text \<open>
  The answer of a call \<open>c\<close> whose tool ends as \<open>out\<close>: what the runner makes of this call and this end, begun and
  ended at some states of the turn. An answer without error carries the very result that this call's tool returned, a
  waiting one the question that it asked.
\<close>

definition answer_of :: "'c run_host \<Rightarrow> run_spec \<Rightarrow> tool_call \<times> run_end \<Rightarrow> answer \<Rightarrow> bool" where
  "answer_of W S co a \<longleftrightarrow>
     (case co of (c, out) \<Rightarrow>
        an_name a = tc_name c
        \<and> (\<exists>st b st1 st2 st3. begin_call W S c st = (b, st1) \<and> finish_call W S c b out st2 = (Inr a, st3))
        \<and> (case an_status a of
             StOk \<Rightarrow> (\<exists>r. out = Returned r \<and> an_payload a = PResult r)
           | StWaiting \<Rightarrow> (\<exists>q opts. out = Asked q opts \<and> an_ask a = Some (q, opts))
           | StError \<Rightarrow> True))"

text \<open>Every position is somewhere once, with its call, and an ended one has an answer of its call.\<close>

definition batch_wf :: "'c run_host \<Rightarrow> run_spec \<Rightarrow> (tool_call \<times> run_end) list \<Rightarrow> batch \<Rightarrow> bool" where
  "batch_wf W S cs B \<longleftrightarrow> mset (positions B) = mset [0..<length cs]
     \<and> (\<forall>(i, c, out) \<in> set (bt_queue B). cs ! i = (c, out))
     \<and> (\<forall>(i, c, b, out) \<in> set (bt_running B). cs ! i = (c, out) \<and> (\<exists>st st'. begin_call W S c st = (b, st')))
     \<and> (\<forall>(i, r) \<in> set (bt_done B). \<forall>a. r = Inr a \<longrightarrow> answer_of W S (cs ! i) a)"

lemma deny_status: "deny_call os res c st = (a, st') \<Longrightarrow> an_status a = StError"
  by (auto simp: deny_call_def error_answer_def Let_def split: prod.splits option.splits)

lemma begin_status: "begin_call W S c st = (Answered a, st') \<Longrightarrow> an_status a = StError"
  by (auto simp: begin_call_def skip_after_policy_ceiling_def error_answer_def Let_def
      split: if_splits prod.splits option.splits sum.splits prepared.splits dest: deny_status)

lemma defer_status: "defer_exec_guard_denial G S c t d raw a st = (a', st') \<Longrightarrow> an_status a' = an_status a"
  by (auto simp: defer_exec_guard_denial_def Let_def split: if_splits prod.splits)

lemma failed_status: "failed_call W S c t d raw soft detail st = (a, st') \<Longrightarrow> an_status a = StError"
  by (auto simp: failed_call_def error_answer_def split: prod.splits option.splits dest!: defer_status)

lemma raised_status: "raised_call W S c t d cls msg st = (a, st') \<Longrightarrow> an_status a = StError"
  unfolding raised_call_def by (rule failed_status)

lemma invalid_status: "finish_invalid os c err st = (a, st') \<Longrightarrow> an_status a = StError"
  by (auto simp: finish_invalid_def error_answer_def split: prod.splits option.splits)

lemma run_status:
  assumes "finish_run W S c t d out st = (Inr a, st')"
  shows "case an_status a of
      StOk \<Rightarrow> (\<exists>r. out = Returned r \<and> an_payload a = PResult r)
    | StWaiting \<Rightarrow> (\<exists>q opts. out = Asked q opts \<and> an_ask a = Some (q, opts))
    | StError \<Rightarrow> True"
proof (cases out)
  case (Returned r)
  show ?thesis
  proof (cases "validate_result (rh_typed W) (tl_typed t) (rs_principal S) r")
    case (Inl u)
    with assms Returned show ?thesis
      by (auto simp: finish_run_def apfst_def map_prod_def split: prod.splits dest!: raised_status)
  next
    case (Inr rv)
    obtain r' ev where rv: "rv = (r', ev)" by (cases rv)
    show ?thesis
    proof (cases "is_tool_error_result r'")
      case True
      with assms Returned Inr rv show ?thesis
        by (cases r') (auto simp: finish_run_def Let_def apfst_def map_prod_def split: prod.splits dest!: failed_status)
    next
      case False
      with validate_result_passes[OF Inr[unfolded rv]] assms Returned Inr rv show ?thesis
        by (cases r') (auto simp: finish_run_def Let_def)
    qed
  qed
qed (use assms in \<open>auto simp: finish_run_def apfst_def map_prod_def split: prod.splits dest!: raised_status\<close>)

lemma finish_status:
  assumes "begin_call W S c st = (b, st1)" "finish_call W S c b out st2 = (Inr a, st3)"
  shows "case an_status a of
      StOk \<Rightarrow> (\<exists>r. out = Returned r \<and> an_payload a = PResult r)
    | StWaiting \<Rightarrow> (\<exists>q opts. out = Asked q opts \<and> an_ask a = Some (q, opts))
    | StError \<Rightarrow> True"
proof (cases b)
  case (Answered a')
  with assms begin_status[of W S c st a' st1] show ?thesis by (simp add: finish_call_def)
next
  case (Invalid err)
  with assms show ?thesis
    by (auto simp: finish_call_def apfst_def map_prod_def split: prod.splits dest!: invalid_status)
next
  case (Running t d)
  with assms run_status[of W S c t d out st2 a st3] show ?thesis by (simp add: finish_call_def)
qed (use assms in \<open>simp add: finish_call_def\<close>)

lemma call_answered:
  assumes "begin_call W S c st = (b, st1)" "finish_call W S c b out st2 = (Inr a, st3)"
  shows "answer_of W S (c, out) a"
proof -
  have "an_name a = tc_name c"
    using begin_denials[OF assms(1)] finish_denials[OF assms(2)] by auto
  with assms finish_status[OF assms] show ?thesis
    unfolding answer_of_def by auto
qed

lemma open_wf: "batch_wf W S cs (open_batch cs st)"
  by (auto simp: batch_wf_def open_batch_def positions_def in_set_enumerate_eq)

lemma launch_wf:
  assumes "batch_wf W S cs B" shows "batch_wf W S cs (task_step W S Launch B)"
proof (cases "bt_queue B")
  case (Cons x q)
  obtain i c out where x: "x = (i, c, out)" by (cases x)
  obtain b st where b: "begin_call W S c (bt_turn B) = (b, st)" by fastforce
  then have "task_step W S Launch B = B\<lparr>bt_queue := q, bt_running := bt_running B @ [(i, c, b, out)], bt_turn := st\<rparr>"
    using Cons x by (simp add: task_step_def)
  with assms Cons x b show ?thesis
    by (auto simp: batch_wf_def positions_def)
qed (use assms in \<open>simp add: task_step_def\<close>)

lemma settle_wf:
  assumes "batch_wf W S cs B" shows "batch_wf W S cs (task_step W S (Settle k) B)"
proof (cases "k < length (bt_running B)")
  case True
  obtain i c b out where x: "bt_running B ! k = (i, c, b, out)" by (metis prod_cases4)
  obtain r st where f: "finish_call W S c b out (bt_turn B) = (r, st)" by fastforce
  let ?rest = "take k (bt_running B) @ drop (Suc k) (bt_running B)"
  have run: "bt_running B = take k (bt_running B) @ (i, c, b, out) # drop (Suc k) (bt_running B)"
    using split_nth[OF True] x by simp
  then have m: "mset (map fst (bt_running B)) = add_mset i (mset (map fst ?rest))"
    and s: "set (bt_running B) = insert (i, c, b, out) (set ?rest)"
    by (metis (no_types, lifting) list.simps(9) map_append mset.simps(2) mset_append union_mset_add_mset_right fst_conv,
        metis Un_insert_right list.simps(15) set_append)
  have "cs ! i = (c, out)" "\<exists>st st'. begin_call W S c st = (b, st')"
    using assms s by (auto simp: batch_wf_def)
  with f have "r = Inr a \<Longrightarrow> answer_of W S (cs ! i) a" for a
    using call_answered by metis
  with assms x f True s m show ?thesis
    by (auto simp: task_step_def batch_wf_def positions_def add.assoc)
qed (use assms in \<open>simp add: task_step_def\<close>)

lemma fold_wf: "batch_wf W S cs B \<Longrightarrow> batch_wf W S cs (fold (task_step W S) as B)"
proof (induction as arbitrary: B)
  case (Cons a as)
  then show ?case by (cases a) (auto intro: launch_wf settle_wf)
qed simp

lemma launch_queue: "bt_queue (task_step W S Launch B) = tl (bt_queue B)"
  by (auto simp: task_step_def split: list.splits prod.splits)

lemma settle_running:
  "length (bt_running (task_step W S (Settle 0) B)) = length (bt_running B) - 1"
  "bt_queue (task_step W S (Settle 0) B) = bt_queue B"
  by (auto simp: task_step_def split: prod.splits)

lemma launch_all: "length (bt_queue B) = n \<Longrightarrow> bt_queue (fold (task_step W S) (replicate n Launch) B) = []"
  by (induction n arbitrary: B) (simp_all add: launch_queue del: fold_replicate)

lemma settle_all:
  "length (bt_running B) = n \<Longrightarrow> bt_running (fold (task_step W S) (replicate n (Settle 0)) B) = []
     \<and> bt_queue (fold (task_step W S) (replicate n (Settle 0)) B) = bt_queue B"
  by (induction n arbitrary: B) (simp_all add: settle_running del: fold_replicate)

lemma schedule_ends: "bt_queue (run_schedule W S sch B) = []" "bt_running (run_schedule W S sch B) = []"
  by (simp_all only: run_schedule_def Let_def settle_all[OF refl] launch_all[OF refl])

lemma schedule_wf: "batch_wf W S cs B \<Longrightarrow> batch_wf W S cs (run_schedule W S sch B)"
  unfolding run_schedule_def Let_def by (intro fold_wf)

subsection \<open>The answers\<close>

lemma sorted_positions:
  assumes "mset (map fst rs) = mset [0..<n]"
  shows "map fst (sort_key fst rs) = [0..<n]"
proof -
  have "sort [0..<n] = map fst (sort_key fst rs)"
  proof (rule properties_for_sort)
    have "mset (map fst (sort_key fst rs)) = mset (map fst rs)" by simp
    also note assms
    finally show "mset (map fst (sort_key fst rs)) = mset [0..<n]" .
  qed simp
  then show ?thesis by simp
qed

lemma none_raised: "first_raised rs = None \<Longrightarrow> (i, r) \<in> set rs \<Longrightarrow> \<exists>a. r = Inr a"
  by (induction rs rule: first_raised.induct) auto

lemma gathered_answers:
  assumes "run_gathered W S sch cs st = (Inr as, st')"
  shows "list_all2 (answer_of W S) cs as"
proof -
  let ?B = "run_schedule W S sch (open_batch cs st)"
  let ?rs = "sort_key fst (bt_done ?B)"
  have wf: "batch_wf W S cs ?B" by (rule schedule_wf[OF open_wf])
  have nr: "first_raised (bt_done ?B) = None" and as: "as = map (\<lambda>(i, r). projr r) ?rs"
    using assms by (auto simp: run_gathered_def Let_def answers_in_order_def split: option.splits)
  have p: "map fst ?rs = [0..<length cs]"
    using wf by (intro sorted_positions) (simp add: batch_wf_def positions_def schedule_ends)
  then have len: "length ?rs = length cs"
    using length_map[of fst ?rs] by simp
  show ?thesis
  proof (rule list_all2_all_nthI)
    show "length cs = length as" using as len by simp
  next
    fix n assume n: "n < length cs"
    obtain i r where ir: "?rs ! n = (i, r)" by fastforce
    with n p len nth_map[of n ?rs fst] have i: "i = n" by simp
    have mem: "(i, r) \<in> set (bt_done ?B)"
      using nth_mem[of n ?rs] n len ir by simp
    then obtain a where a: "r = Inr a" using none_raised[OF nr] by blast
    with mem wf i have "answer_of W S (cs ! n) a" by (auto simp: batch_wf_def)
    moreover have "as ! n = a" using as n len ir a by simp
    ultimately show "answer_of W S (cs ! n) (as ! n)" by simp
  qed
qed

text \<open>The answers are those of the first calls; calls are left out only after a question.\<close>

definition answers_prefix :: "'c run_host \<Rightarrow> run_spec \<Rightarrow> (tool_call \<times> run_end) list \<Rightarrow> answer list \<Rightarrow> bool" where
  "answers_prefix W S cs as \<longleftrightarrow> list_all2 (answer_of W S) (take (length as) cs) as
     \<and> (length as = length cs \<or> list_ex (\<lambda>a. an_ask a \<noteq> None) as)"

lemma call_answer: "run_tool_call W S c out st = (Inr a, st') \<Longrightarrow> answer_of W S (c, out) a"
  by (auto simp: run_tool_call_def split: prod.splits intro: call_answered)

lemma answers_prefix_Cons: "answers_prefix W S cs as \<Longrightarrow> answer_of W S co a \<Longrightarrow> answers_prefix W S (co # cs) (a # as)"
  by (auto simp: answers_prefix_def)

lemma in_order_answers: "run_in_order W S cs st = (Inr as, st') \<Longrightarrow> answers_prefix W S cs as"
proof (induction cs arbitrary: st as st')
  case (Cons co cs)
  obtain c out where co: "co = (c, out)" by (cases co)
  obtain a st1 where c: "run_tool_call W S c out st = (Inr a, st1)"
    using Cons.prems co by (auto split: prod.splits sum.splits)
  note n = call_answer[OF c]
  show ?case
  proof (cases "an_ask a = None")
    case True
    with Cons.prems co c obtain as1 where "run_in_order W S cs st1 = (Inr as1, st')" "as = a # as1"
      by (auto split: prod.splits sum.splits)
    with Cons.IH answers_prefix_Cons[of W S cs as1 "(c, out)" a] n co show ?thesis by blast
  next
    case False
    with Cons.prems co c n show ?thesis by (auto simp: answers_prefix_def)
  qed
qed (simp add: answers_prefix_def)

lemma batch_answers: "run_batch W S sch b st = (Inr as, st') \<Longrightarrow> answers_prefix W S b as"
proof (cases "rs_concurrent S \<and> length b > 1")
  case True
  assume "run_batch W S sch b st = (Inr as, st')"
  with True have n: "list_all2 (answer_of W S) b as"
    by (auto simp: run_batch_def intro: gathered_answers)
  then have "length as = length b" by (simp add: list_all2_lengthD)
  with n show ?thesis by (simp add: answers_prefix_def)
qed (auto simp: run_batch_def intro: in_order_answers)

lemma answers_prefix_append:
  assumes "answers_prefix W S b as" "\<not> list_ex (\<lambda>a. an_ask a \<noteq> None) as" "answers_prefix W S cs as'"
  shows "answers_prefix W S (b @ cs) (as @ as')"
  using assms by (auto simp: answers_prefix_def intro: list_all2_appendI)

lemma answers_prefix_asked:
  "answers_prefix W S b as \<Longrightarrow> list_ex (\<lambda>a. an_ask a \<noteq> None) as \<Longrightarrow> answers_prefix W S (b @ cs) as"
proof -
  assume a: "answers_prefix W S b as" "list_ex (\<lambda>a. an_ask a \<noteq> None) as"
  then have "length (take (length as) b) = length as" by (auto simp: answers_prefix_def dest: list_all2_lengthD)
  then have "length as \<le> length b" by simp
  with a show ?thesis by (simp add: answers_prefix_def)
qed

lemma batches_answers: "run_batches W S sch bs st = (Inr as, st') \<Longrightarrow> answers_prefix W S (concat bs) as"
proof (induction bs arbitrary: sch st as st')
  case (Cons b bs)
  obtain as1 st1 where b: "run_batch W S (sch 0) b st = (Inr as1, st1)"
    using Cons.prems by (auto split: prod.splits sum.splits)
  note n = batch_answers[OF b]
  show ?case
  proof (cases "list_ex (\<lambda>a. an_ask a \<noteq> None) as1")
    case True
    with Cons.prems b answers_prefix_asked[OF n] show ?thesis by auto
  next
    case False
    with Cons.prems b obtain as2 where "run_batches W S (\<lambda>n. sch (Suc n)) bs st1 = (Inr as2, st')" "as = as1 @ as2"
      by (auto split: prod.splits sum.splits)
    with Cons.IH answers_prefix_append[OF n False] show ?thesis by simp
  qed
qed (simp add: answers_prefix_def)

lemma concat_batches: "concat (batches_of S cs) = cs"
  by (induction cs) (auto simp: batches_of_def gather_concat)

text \<open>
  Claim C1: every tool call gets its own answer. When the calls of a response return, the answers are those of the calls
  from the first on, one each and in their order, whatever batches they formed and in whatever order
  the tasks of a batch ended: the answer at a position is one the runner makes of the call at that position and of the end
  of that call's tool (it carries the call's name, without error the very result that this tool returned, and
  with a question the one it asked). Calls at the end are left out only after an \<open>ask_user\<close>.
\<close>

theorem answers_match_calls:
  "case execute_tools W S sch cs st of
     (Inl e, st') \<Rightarrow> True
   | (Inr as, st') \<Rightarrow> list_all2 (answer_of W S) (take (length as) cs) as
       \<and> (length as = length cs \<or> list_ex (\<lambda>a. an_ask a \<noteq> None) as)"
proof -
  obtain r st' where e: "execute_tools W S sch cs st = (r, st')" by fastforce
  show ?thesis
  proof (cases r)
    case (Inr as)
    with e batches_answers[of W S sch "batches_of S cs" st as st'] concat_batches[of S cs] show ?thesis
      by (simp add: execute_tools_def answers_prefix_def)
  qed (simp add: e)
qed

end
