(* ===== verification/Spec2Isabelle.thy ===== *)
theory Spec2Isabelle
  imports Router SharedBudget Epistemics Registry Network Pairing CronTick Providers TriggerSafety TriggerList
    TurnAnswers
begin

text \<open>
  A verification development of moeka, a Python agent runtime (packages \<open>src/nanobot\<close> and
  \<open>src/moeka\<close>). A host embeds a kernel, \<open>src/nanobot/kernel\<close>; a language model drives tools through it. The kernel
  is the trusted part: it decides what a tool call may touch, what a model call may cost, which
  plugin code may load and what counts as known. The development models that core as it is written
  and proves what makes each part correct.

  How the parts interact. The runner takes the tool calls of a model's response, prepares each
  against the registry and the tool's parameter schema, and asks the gate: the gate puts every capability
  request of the call through the built-in floors, strict mode, the plugin grant and the policy, on the
  written and on the resolved form of a path, audits every decision and records a denial in the
  deferred-action log. What a tool returns is checked against its output schema. A model call goes through
  the router: solvers first, then a ladder of tiers under a ceiling that the gate defends; it is metered by
  the ledger and admitted by a budget, in memory or shared between processes in a database, and sent by a
  provider that retries. Facts with provenance are append-only; artifacts are committed leaf by leaf, each
  citing a fact; clarification turns a draft into a commit or a question. The plugin registry decides which
  packages may load. Around the kernel, the network policy guards outgoing requests, pairing says who may
  talk to a channel, and the scheduler and the local triggers start turns on their own.

  Theories, in the order of their imports (each opens with what it models and what is an argument):

  \<^item> Prelude: Python strings, insertion-ordered dicts, results of code that may raise, and the lemmas
    shared by all. Glob: \<open>fnmatch.fnmatchcase\<close> with its translation rules. Json: JSON
    values and \<open>json.dumps\<close>.
  \<^item> Policy: \<open>kernel/policy.py\<close>. Requests, principals and the three policy classes; \<open>attenuate\<close> and
    \<open>decide\<close>. Lemmas: attenuation never widens, along chains too; a directory decision covers
    the subtree.
  \<^item> Paths: \<open>security/workspace_policy.py\<close>. Protected: \<open>security/protected_paths.py\<close> and the paths of
    \<open>kernel/env.py\<close>. Lemmas: containment of accepted paths; host areas and secrets are
    denied under every alias.
  \<^item> Deferred: \<open>kernel/deferred.py\<close> with the rotation of its files. Gate: \<open>kernel/floors.py\<close>,
    \<open>kernel/strict.py\<close>, \<open>kernel/gate.py\<close>. Lemmas: exactly when a call passes, what it leaves in the
    trace and the log, event by event.
  \<^item> Usage: \<open>LLMUsage\<close> of \<open>providers/base.py\<close>. Ledger: \<open>kernel/ledger.py\<close>, pricing, tags, the events
    of the attempts of a call. Budget: \<open>kernel/budget.py\<close>, estimates, caps, reservations, the
    metered call. SharedBudget: \<open>kernel/budget_shared.py\<close>, the same over database tables with leases, expiry
    and a queue of writes that could not be made. The locale \<open>budget_contract\<close> states what admission,
    settlement and release promise under fixed caps and is interpreted on the in-memory budget;
    \<open>stepwise_budget\<close> lets the caps in force change from one operation to the next, as \<open>reset_caps\<close> and
    caps stored late make them, and is interpreted, through the refinement \<open>same_books\<close>, on the shared one.
  \<^item> Solvers: \<open>kernel/solvers.py\<close>. Router: \<open>kernel/router.py\<close>. The loop ends because each round runs on a
    strictly higher tier. Lemmas: the ceiling holds; the model calls of a route, counted in a log that the
    dispatcher keeps, are bounded, whether it returns or raises; the start tier.
  \<^item> Facts: \<open>kernel/facts.py\<close>, with text as code points compared by its UTF-8 bytes as SQLite does. The
    locale \<open>fact_api\<close> is what the artifact store needs of it. Artifacts: \<open>kernel/artifacts.py\<close>. Clarify:
    \<open>kernel/clarify.py\<close>. Epistemics: \<open>kernel/epistemics.py\<close>. Lemmas: records are immutable, prefix
    queries are exact, nesting of prefix-free paths never fails, the leaves of a delta are apart,
    every committed leaf is grounded after any history; the methods of a read-only facade write nothing, but
    the stores it hands out do.
  \<^item> Registry: \<open>kernel/registry.py\<close>. The inductive relation \<open>lifecycle\<close> is the documented diagram; every
    operation moves its entry by the path its kind allows, with an event for each edge, and what passes the load check was approved by the host.

  \<^item> Network: \<open>security/network.py\<close>, addresses as 32- and 128-bit words. Pairing: \<open>pairing/store.py\<close>, the
    codes and approved senders of a channel in one file. Lemmas: a pinned request reaches only accepted
    addresses; embedded IPv4 addresses are seen through; only a redeemed code approves.
  \<^item> CronTypes, Cron: \<open>cron/types.py\<close> and \<open>cron/service.py\<close>, jobs in memory, in \<open>jobs.json\<close> and in the action log.
    A save may fail before or after the file was replaced. CronTick: a tick re-arms the timer, hands out only bound
    and due jobs, runs a one-shot job once.
  \<^item> Providers: \<open>providers/base.py\<close>, classification of errors, the retry loop, the shape of the message list.
  \<^item> TriggerTypes, Triggers, TriggerRunner: \<open>triggers/local_types.py\<close>, \<open>triggers/local_store.py\<close>,
    \<open>triggers/local_runner.py\<close>. TriggerSafety, TriggerList: over every interleaving of \<open>gw_step\<close> a delivery is
    neither lost nor run more than ten times and the trigger list stays in order.
  \<^item> Schema: the schema check and casts of \<open>agent/tools/base.py\<close> with the classes of \<open>agent/tools/schema.py\<close>.
    SchemaSpec: the meaning \<open>conforms\<close> of a schema class, which the check decides exactly where it does not raise
    on a brace in a field name. Typed: \<open>kernel/typed.py\<close>.
  \<^item> ToolRegistry: \<open>agent/tools/registry.py\<close>. Throttle: \<open>utils/runtime.py\<close>. ToolRunner: \<open>_run_tool\<close>,
    \<open>_execute_tools\<close> and the stop decision of \<open>agent/runner.py\<close>; a call is split where the code first pauses, and a
    gathered batch runs any schedule of those halves. TurnSafety: the locale \<open>turn_invariant\<close> carries what both
    halves keep through every batch and response; the checks before a start and the denial ceiling. TurnAnswers:
    one answer per call, in order, made of how that call ended.

  Conventions. A record, datatype or function has the name of the source where Isabelle allows it.
  An operation that may raise returns a sum, with the exception on the left; an operation on a
  store returns the new store. Money is a rational, a token count an integer; only the network policy
  computes on machine words. A string is a list of code points below 256; where the code needs others (a dash,
  a Chinese error text) they are their UTF-8 bytes. Lower-casing is that of ASCII unless a theory says otherwise. A
  float is its \<open>repr\<close>; what is known of it (order, finiteness) is an argument. JSON values are compared by
  structure, so the tag values 1, 1.0 and true, which a Python dict merges into one key and the shared rows keep
  apart, are three slots in both budgets here. Loops are structural recursions, or
  well-founded ones with a termination proof (glob matching, the route loop, the walks over models, deltas, schemas
  and JSON values). The retry loop of the providers may run forever in its persistent mode: it is a partial function
  with None for that, and its standard mode is proved to return. No fuel is used. Histories are lists of
  operations, or inductive reachability, so that a property speaks of every interleaving of atomic operations.

  Parameters. The operating system is a record of functions (path resolution, home directories,
  which writes fail); the redaction of free text, the exec patterns, JSON-Schema validators of solvers, pydantic
  validators, \<open>json.loads\<close> where a text is parsed in passing, the classifier of a host, \<open>casefold\<close>, the hash of a
  package, URL and address parsing, the resolver, croniter and time zones are arguments. A fresh identifier, a
  clock reading, the outcome of a turn or the result of a tool is an argument of the operation that draws it.

  Not modelled. SQLite connections, WAL and locking below the atomic transaction; threads and tasks, except
  as interleavings of atomic operations; two gateways, or two executions of the scheduler, at once; JSON text of
  state files beyond the values it encodes, and values of undeclared types in the scheduler's files; the agent
  loop around the tool calls (model requests, streaming, injected messages, compaction, hooks), \<open>kernel/llm.py\<close>
  beyond its solver step; the tools themselves, channels, provider clients, the web interface, the command line and
  configuration loading, which are I/O and protocol glue around the core; manifests, baselines and the capability
  library, which read packages and run scripts; the vector memory and the session store.
\<close>

end
